(* ===== verification/Keld_Prelude.thy ===== *)
theory Keld_Prelude
  imports Main "HOL-Library.Word" "HOL-Library.Sublist"
begin

unbundle bit_operations_syntax

text \<open>
  Shared vocabulary of the development: Rust's machine integers as words, \<open>Result\<close> as a
  sum with its \<open>?\<close> operator (\<open>and_then\<close>), checked and saturating addition, little-endian
  byte strings, the byte-string operations of \<open>str\<close> the crates use, and the two interface
  locales every component theory instantiates: \<open>byte_codec\<close> (an encoder and a decoder that
  are inverse to each other) and \<open>state_machine\<close> (operations that keep an invariant).
\<close>

section \<open>Machine integers and bytes\<close>

type_synonym byte = "8 word"
type_synonym u16 = "16 word"
type_synonym u32 = "32 word"
type_synonym u64 = "64 word"
type_synonym bytes = "byte list"

named_theorems result_simps \<open>rewrite rules for results and the question-mark operator\<close>
named_theorems codec_simps \<open>round trips of fixed-width encodings\<close>

text \<open>\<open>uN::checked_add\<close> and \<open>uN::saturating_add\<close> of the Rust standard library.\<close>

definition checked_add :: "'a::len word \<Rightarrow> 'a word \<Rightarrow> 'a word option" where
  "checked_add a b = (if unat a + unat b < 2 ^ LENGTH('a) then Some (a + b) else None)"

definition saturating_add :: "'a::len word \<Rightarrow> 'a word \<Rightarrow> 'a word" where
  "saturating_add a b = (if unat a + unat b < 2 ^ LENGTH('a) then a + b else -1)"

section \<open>Results\<close>

text \<open>
  \<open>Result<T, E>\<close> is the sum \<open>'e + 'a\<close>: \<open>Inl\<close> is \<open>Err\<close>, \<open>Inr\<close> is \<open>Ok\<close>. Sequencing
  with the \<open>?\<close> operator is \<open>and_then\<close>.
\<close>

definition and_then :: "'e + 'a \<Rightarrow> ('a \<Rightarrow> 'e + 'b) \<Rightarrow> 'e + 'b" where
  "and_then r f = (case r of Inl e \<Rightarrow> Inl e | Inr a \<Rightarrow> f a)"

definition ok_or :: "'a option \<Rightarrow> 'e \<Rightarrow> 'e + 'a" where
  "ok_or x e = (case x of None \<Rightarrow> Inl e | Some a \<Rightarrow> Inr a)"

definition is_ok :: "'e + 'a \<Rightarrow> bool" where
  "is_ok r = (case r of Inl _ \<Rightarrow> False | Inr _ \<Rightarrow> True)"

section \<open>Little-endian encodings\<close>

definition u16_to_le_bytes :: "u16 \<Rightarrow> bytes" where
  "u16_to_le_bytes w = [ucast w, ucast (drop_bit 8 w)]"

definition u16_from_le_bytes :: "byte \<Rightarrow> byte \<Rightarrow> u16" where
  "u16_from_le_bytes b0 b1 = (ucast b0 OR push_bit 8 (ucast b1))"

definition u32_to_le_bytes :: "u32 \<Rightarrow> bytes" where
  "u32_to_le_bytes w =
     [ucast w, ucast (drop_bit 8 w), ucast (drop_bit 16 w), ucast (drop_bit 24 w)]"

definition u32_from_le_bytes :: "byte \<Rightarrow> byte \<Rightarrow> byte \<Rightarrow> byte \<Rightarrow> u32" where
  "u32_from_le_bytes b0 b1 b2 b3 =
     (ucast b0 OR push_bit 8 (ucast b1) OR push_bit 16 (ucast b2) OR push_bit 24 (ucast b3))"

section \<open>Byte strings as text\<close>

text \<open>
  A Rust \<open>str\<close> is its UTF-8 bytes, one \<open>char\<close> of HOL per byte. The operations below are
  those of \<open>str\<close> on ASCII separators, where searching bytes and searching characters agree.
\<close>

definition byte_of :: "char \<Rightarrow> byte" where
  "byte_of c = of_nat (of_char c)"

definition bytes_of :: "string \<Rightarrow> bytes" where
  "bytes_of s = map byte_of s"

text \<open>\<open>str::split\<close> on a one-byte separator: never empty, \<open>n\<close> separators give \<open>n + 1\<close> pieces.\<close>

fun split_on :: "('a \<Rightarrow> bool) \<Rightarrow> 'a list \<Rightarrow> 'a list list" where
  "split_on p [] = [[]]"
| "split_on p (x # xs) =
     (if p x then [] # split_on p xs
      else (case split_on p xs of [] \<Rightarrow> [[x]] | y # ys \<Rightarrow> (x # y) # ys))"

text \<open>\<open>str::strip_suffix\<close> and \<open>str::strip_prefix\<close>.\<close>

definition strip_suffix :: "'a list \<Rightarrow> 'a list \<Rightarrow> 'a list option" where
  "strip_suffix xs sfx =
     (if suffix sfx xs then Some (take (length xs - length sfx) xs) else None)"

definition strip_prefix :: "'a list \<Rightarrow> 'a list \<Rightarrow> 'a list option" where
  "strip_prefix xs pfx = (if prefix pfx xs then Some (drop (length pfx) xs) else None)"

text \<open>\<open>str::rsplit_once\<close> and \<open>str::find\<close> on one character.\<close>

fun find_index :: "('a \<Rightarrow> bool) \<Rightarrow> 'a list \<Rightarrow> nat option" where
  "find_index p [] = None"
| "find_index p (x # xs) = (if p x then Some 0 else map_option Suc (find_index p xs))"

definition rsplit_once :: "'a \<Rightarrow> 'a list \<Rightarrow> ('a list \<times> 'a list) option" where
  "rsplit_once c xs =
     (case find_index (\<lambda>x. x = c) (rev xs) of
        None \<Rightarrow> None
      | Some k \<Rightarrow> Some (take (length xs - Suc k) xs, drop (length xs - k) xs))"

text \<open>\<open>slice::join\<close> with a separator.\<close>

fun join_with :: "'a list \<Rightarrow> 'a list list \<Rightarrow> 'a list" where
  "join_with sep [] = []"
| "join_with sep [x] = x"
| "join_with sep (x # y # ys) = x @ sep @ join_with sep (y # ys)"

text \<open>Update the first element that satisfies a predicate: \<open>values_mut().find(p)\<close>.\<close>

fun update_first :: "('a \<Rightarrow> bool) \<Rightarrow> ('a \<Rightarrow> 'a) \<Rightarrow> 'a list \<Rightarrow> 'a list" where
  "update_first p f [] = []"
| "update_first p f (x # xs) = (if p x then f x # xs else x # update_first p f xs)"

section \<open>Lemmas on the shared operations\<close>

lemma and_then_Inl [simp, result_simps]: "and_then (Inl e) f = Inl e"
  by (simp add: and_then_def)

lemma and_then_Inr [simp, result_simps]: "and_then (Inr a) f = f a"
  by (simp add: and_then_def)

lemma and_then_eq_Inr [result_simps]:
  "and_then r f = Inr b \<longleftrightarrow> (\<exists>a. r = Inr a \<and> f a = Inr b)"
  by (cases r) auto

lemma and_then_eq_Inl [result_simps]:
  "and_then r f = Inl e \<longleftrightarrow> r = Inl e \<or> (\<exists>a. r = Inr a \<and> f a = Inl e)"
  by (cases r) auto

lemma ok_or_simps [simp, result_simps]: "ok_or None e = Inl e" "ok_or (Some a) e = Inr a"
  by (simp_all add: ok_or_def)

lemma ok_or_eq_Inr [simp, result_simps]: "ok_or x e = Inr a \<longleftrightarrow> x = Some a"
  by (cases x) auto

lemma is_ok_simps [simp, result_simps]: "is_ok (Inl e) = False" "is_ok (Inr a) = True"
  by (simp_all add: is_ok_def)

lemma is_ok_iff [result_simps]: "is_ok r \<longleftrightarrow> (\<exists>a. r = Inr a)"
  by (cases r) auto

lemma checked_add_Some:
  fixes a b c :: "'a::len word"
  assumes "checked_add a b = Some c"
  shows "unat c = unat a + unat b"
  using assms by (auto simp: checked_add_def unat_word_ariths split: if_splits)

lemma checked_add_one_gt:
  fixes a c :: "'a::len word"
  assumes "checked_add a 1 = Some c"
  shows "a < c"
proof -
  have "unat c = unat a + unat (1 :: 'a word)"
    by (rule checked_add_Some [OF assms])
  then have "unat a < unat c" by simp
  then show ?thesis by (simp add: word_less_nat_alt)
qed

lemma length_u16_to_le_bytes [simp, codec_simps]: "length (u16_to_le_bytes w) = 2"
  by (simp add: u16_to_le_bytes_def)

lemma length_u32_to_le_bytes [simp, codec_simps]: "length (u32_to_le_bytes w) = 4"
  by (simp add: u32_to_le_bytes_def)

lemma u16_le_roundtrip [simp, codec_simps]:
  "u16_from_le_bytes (ucast w) (ucast (drop_bit 8 w)) = w"
  unfolding u16_from_le_bytes_def by (rule bit_word_eqI) (auto simp: bit_simps)

lemma byte_bit_bound [simp]: "8 \<le> n \<Longrightarrow> \<not> bit (b :: byte) n"
  using bit_imp_le_length [of b n] by auto

lemma u16_le_inverse [simp, codec_simps]:
  "u16_to_le_bytes (u16_from_le_bytes b0 b1) = [b0, b1]"
  unfolding u16_from_le_bytes_def u16_to_le_bytes_def
  by (auto intro!: bit_word_eqI simp: bit_simps)

lemma u32_le_roundtrip [simp, codec_simps]:
  "u32_from_le_bytes (ucast w) (ucast (drop_bit 8 w)) (ucast (drop_bit 16 w))
     (ucast (drop_bit 24 w)) = w"
proof (rule bit_word_eqI)
  fix n assume n: "n < LENGTH(32)"
  consider "n < 8" | "8 \<le> n" "n < 16" | "16 \<le> n" "n < 24" | "24 \<le> n" "n < 32"
    using n by fastforce
  then show "bit (u32_from_le_bytes (ucast w) (ucast (drop_bit 8 w)) (ucast (drop_bit 16 w))
     (ucast (drop_bit 24 w))) n = bit w n"
    by cases (simp_all add: u32_from_le_bytes_def bit_simps less_diff_conv2)
qed

lemma u32_le_inverse [simp, codec_simps]:
  "u32_to_le_bytes (u32_from_le_bytes b0 b1 b2 b3) = [b0, b1, b2, b3]"
  unfolding u32_from_le_bytes_def u32_to_le_bytes_def
  by (auto intro!: bit_word_eqI simp: bit_simps)

lemma of_char_bound: "of_char c < (256 :: nat)"
  using range_nat_of_char by fastforce

lemma byte_of_inject [simp]: "byte_of a = byte_of b \<longleftrightarrow> a = b"
proof
  assume "byte_of a = byte_of b"
  then have "unat (byte_of a) = unat (byte_of b)" by simp
  then have "(of_char a :: nat) = of_char b"
    using of_char_bound [of a] of_char_bound [of b] by (simp add: byte_of_def unat_of_nat)
  then show "a = b" by simp
qed simp

lemma bytes_of_inject [simp]: "bytes_of a = bytes_of b \<longleftrightarrow> a = b"
  unfolding bytes_of_def by (auto simp: inj_on_def dest!: map_inj_on)

lemma find_Some_in: "find P xs = Some x \<Longrightarrow> x \<in> set xs \<and> P x"
  by (induction xs) (auto split: if_splits)

lemma find_index_Some:
  "find_index p xs = Some k \<Longrightarrow> k < length xs \<and> p (xs ! k) \<and> (\<forall>x\<in>set (take k xs). \<not> p x)"
proof (induction xs arbitrary: k)
  case (Cons x xs)
  then show ?case by (cases k) (auto split: if_splits)
qed simp

lemma find_index_None: "find_index p xs = None \<longleftrightarrow> (\<forall>x\<in>set xs. \<not> p x)"
  by (induction xs) auto

lemma find_index_append:
  "\<forall>x\<in>set xs. \<not> p x \<Longrightarrow> p y \<Longrightarrow> find_index p (xs @ y # ys) = Some (length xs)"
  by (induction xs) auto

lemma find_index_map: "find_index p (map f xs) = find_index (\<lambda>x. p (f x)) xs"
  by (induction xs) auto

lemma find_index_Some_iff:
  "find_index p xs = Some i \<longleftrightarrow> i < length xs \<and> p (xs ! i) \<and> (\<forall>j < i. \<not> p (xs ! j))"
proof
  have "xs ! j \<in> set (take i xs)" if "j < i" "i < length xs" for j
    using that by (auto simp: in_set_conv_nth intro!: exI [of _ j])
  moreover assume "find_index p xs = Some i"
  ultimately show "i < length xs \<and> p (xs ! i) \<and> (\<forall>j < i. \<not> p (xs ! j))"
    using find_index_Some [of p xs i] by blast
next
  assume *: "i < length xs \<and> p (xs ! i) \<and> (\<forall>j < i. \<not> p (xs ! j))"
  then have "xs = take i xs @ xs ! i # drop (Suc i) xs" by (simp add: id_take_nth_drop)
  moreover have "\<forall>x \<in> set (take i xs). \<not> p x" using * by (auto simp: in_set_conv_nth)
  ultimately have "find_index p xs = Some (length (take i xs))"
    using * find_index_append [of "take i xs" p "xs ! i" "drop (Suc i) xs"] by simp
  then show "find_index p xs = Some i" using * by simp
qed

lemma split_on_nonempty [simp]: "split_on p xs \<noteq> []"
  by (induction xs) (auto split: list.splits)

lemma split_on_append: "p c \<Longrightarrow> split_on p (xs @ c # ys) = split_on p xs @ split_on p ys"
  by (induction xs) (auto split: list.splits)

lemma split_on_refine:
  assumes "s \<in> set (split_on p xs)" "list_all (\<lambda>c. \<not> q c) s"
  shows "s \<in> set (split_on (\<lambda>c. p c \<or> q c) xs)"
proof -
  let ?r = "split_on (\<lambda>c. p c \<or> q c)"
  have "(list_all (\<lambda>c. \<not> q c) (hd (split_on p xs)) \<longrightarrow> hd (?r xs) = hd (split_on p xs))
      \<and> (\<forall>s \<in> set (tl (split_on p xs)). list_all (\<lambda>c. \<not> q c) s \<longrightarrow> s \<in> set (tl (?r xs)))"
  proof (induction xs)
    case (Cons x xs)
    obtain y ys where y: "split_on p xs = y # ys" by (cases "split_on p xs") auto
    obtain z zs where z: "?r xs = z # zs" by (cases "?r xs") auto
    show ?case using Cons y z by auto
  qed simp
  with assms show ?thesis
    by (cases "split_on p xs"; cases "?r xs") auto
qed

lemma rsplit_once_append:
  assumes "c \<notin> set ys"
  shows "rsplit_once c (xs @ c # ys) = Some (xs, ys)"
proof -
  have "find_index (\<lambda>x. x = c) (rev (xs @ c # ys)) = Some (length ys)"
    using find_index_append [of "rev ys" "\<lambda>x. x = c" c "rev xs"] assms by auto
  then show ?thesis by (simp add: rsplit_once_def)
qed

lemma rsplit_once_None: "rsplit_once c xs = None \<longleftrightarrow> c \<notin> set xs"
  using find_index_None [of "\<lambda>x. x = c" "rev xs"]
  by (cases "find_index (\<lambda>x. x = c) (rev xs)") (auto simp: rsplit_once_def)

lemma rsplit_once_Some:
  "rsplit_once c xs = Some (a, b) \<longleftrightarrow> xs = a @ c # b \<and> c \<notin> set b"
proof
  assume split: "rsplit_once c xs = Some (a, b)"
  then have "c \<in> set xs" using rsplit_once_None [of c xs] by auto
  then obtain u v where "xs = u @ c # v" "c \<notin> set v" by (meson split_list_last)
  with split show "xs = a @ c # b \<and> c \<notin> set b"
    by (simp add: rsplit_once_append)
qed (simp add: rsplit_once_append)

section \<open>Interfaces\<close>

text \<open>
  A codec: an encoder and a decoder between values and wire strings. \<open>wf\<close> delimits the
  values the encoder is used on and \<open>shape\<close> the wire strings the decoder is used on. The
  laws are the round trip and canonicity: what decodes is what the encoder writes.
\<close>

locale byte_codec =
  fixes enc :: "'a \<Rightarrow> 'b list"
    and dec :: "'b list \<Rightarrow> 'e + 'a"
    and wf :: "'a \<Rightarrow> bool"
    and shape :: "'b list \<Rightarrow> bool"
  assumes enc_shape: "wf x \<Longrightarrow> shape (enc x)"
    and dec_enc: "wf x \<Longrightarrow> dec (enc x) = Inr x"
    and dec_wf: "shape bs \<Longrightarrow> dec bs = Inr x \<Longrightarrow> wf x"
    and enc_dec: "shape bs \<Longrightarrow> dec bs = Inr x \<Longrightarrow> enc x = bs"
begin

lemma dec_iff: "shape bs \<Longrightarrow> dec bs = Inr x \<longleftrightarrow> wf x \<and> enc x = bs"
  using dec_enc dec_wf enc_dec by blast

lemma enc_inject: "wf x \<Longrightarrow> wf y \<Longrightarrow> enc x = enc y \<longleftrightarrow> x = y"
  using dec_enc by (metis sum.inject(2))

lemma dec_inject:
  "shape bs \<Longrightarrow> shape cs \<Longrightarrow> dec bs = Inr x \<Longrightarrow> dec cs = Inr x \<Longrightarrow> bs = cs"
  using enc_dec by blast

lemma dec_error: "shape bs \<Longrightarrow> (\<nexists>x. wf x \<and> enc x = bs) \<Longrightarrow> \<exists>e. dec bs = Inl e"
  using dec_iff by (cases "dec bs") auto

end

text \<open>
  A codec of fixed width can be read off the front of a stream: the decoder is run on the
  first \<open>width\<close> bytes, and two streams of encodings agree only if they agree value by value.
\<close>

locale fixed_codec = byte_codec enc dec wf "\<lambda>bs. length bs = width"
  for enc :: "'a \<Rightarrow> 'b list" and dec :: "'b list \<Rightarrow> 'e + 'a" and wf and width :: nat
begin

lemma dec_take: "wf x \<Longrightarrow> dec (take width (enc x @ rest)) = Inr x"
  using enc_shape [of x] dec_enc [of x] by simp

lemma drop_enc: "wf x \<Longrightarrow> drop width (enc x @ rest) = rest"
  using enc_shape [of x] by simp

lemma enc_append_inject:
  "wf x \<Longrightarrow> wf y \<Longrightarrow> enc x @ r = enc y @ s \<longleftrightarrow> x = y \<and> r = s"
  using enc_shape [of x] enc_shape [of y] enc_inject [of x y] by auto

end

text \<open>
  A component as a machine: \<open>step op\<close> is the state change of one operation and \<open>inv\<close> its
  invariant. An \<open>evolving_machine\<close> also names what an operation may do to the history
  visible in the state, a preorder every step respects.
\<close>

locale state_machine =
  fixes step :: "'op \<Rightarrow> 's \<Rightarrow> 's"
    and inv :: "'s \<Rightarrow> bool"
  assumes step_inv: "inv s \<Longrightarrow> inv (step op s)"
begin

lemma run_inv: "inv s \<Longrightarrow> inv (fold step ops s)"
  by (induction ops arbitrary: s) (auto intro: step_inv)

end

locale evolving_machine = state_machine step inv
  for step :: "'op \<Rightarrow> 's \<Rightarrow> 's" and inv +
  fixes le :: "'s \<Rightarrow> 's \<Rightarrow> bool"
  assumes le_refl: "le s s"
    and le_trans: "le s t \<Longrightarrow> le t u \<Longrightarrow> le s u"
    and step_le: "inv s \<Longrightarrow> le s (step op s)"
begin

lemma run_le: "inv s \<Longrightarrow> le s (fold step ops s)"
proof (induction ops arbitrary: s)
  case (Cons op ops)
  then show ?case
    using le_trans [OF step_le [OF Cons.prems] Cons.IH [OF step_inv [OF Cons.prems]]] by simp
qed (simp add: le_refl)

end

end
