(* ===== verification/Kipc_Frame.thy ===== *)
theory Kipc_Frame
  imports Keld_Prelude
begin

text \<open>
  The kipc frame header (\<open>crates/keld-ipc/src/frame.rs\<close>): the frame kinds, the decoded
  header, its 16-byte little-endian wire form and the refusals of the decoder. The header is
  a \<open>fixed_codec\<close>: encoding and decoding are inverse and headers can be read off a stream.
\<close>

section \<open>Constants and data\<close>

definition MAGIC :: u16 where "MAGIC = u16_from_le_bytes (byte_of CHR ''K'') (byte_of CHR ''I'')"

definition PROTOCOL_VERSION :: byte where "PROTOCOL_VERSION = 2"

definition HEADER_LEN :: nat where "HEADER_LEN = 16"

definition MAX_FRAME_LEN :: nat where "MAX_FRAME_LEN = 16 * 1024 * 1024"

definition FLAG_RAW :: u16 where "FLAG_RAW = push_bit 0 1"

type_synonym ChannelId = u16
type_synonym CorrelationId = u32

datatype FrameKind =
    Hello | Call | Reply | Err | Event | StreamOpen | StreamChunk | StreamClose | Cancel | Grant
  | Ping

text \<open>The discriminants: \<open>kind as u8\<close>.\<close>

fun kind_as_u8 :: "FrameKind \<Rightarrow> byte" where
  "kind_as_u8 Hello = 0"
| "kind_as_u8 Call = 1"
| "kind_as_u8 Reply = 2"
| "kind_as_u8 Err = 3"
| "kind_as_u8 Event = 4"
| "kind_as_u8 StreamOpen = 5"
| "kind_as_u8 StreamChunk = 6"
| "kind_as_u8 StreamClose = 7"
| "kind_as_u8 Cancel = 8"
| "kind_as_u8 Grant = 9"
| "kind_as_u8 Ping = 10"

definition kind_from_u8 :: "byte \<Rightarrow> FrameKind option" where
  "kind_from_u8 value =
     (if value = 0 then Some Hello
      else if value = 1 then Some Call
      else if value = 2 then Some Reply
      else if value = 3 then Some Err
      else if value = 4 then Some Event
      else if value = 5 then Some StreamOpen
      else if value = 6 then Some StreamChunk
      else if value = 7 then Some StreamClose
      else if value = 8 then Some Cancel
      else if value = 9 then Some Grant
      else if value = 10 then Some Ping
      else None)"

record FrameHeader =
  fh_kind :: FrameKind
  fh_flags :: u16
  fh_channel :: ChannelId
  fh_corr :: CorrelationId
  fh_len :: u32

datatype HeaderError = BadMagic u16 | BadVersion byte | BadKind byte

section \<open>Encoding and decoding\<close>

definition encode :: "FrameHeader \<Rightarrow> bytes" where
  "encode h =
     u16_to_le_bytes MAGIC @ [PROTOCOL_VERSION, kind_as_u8 (fh_kind h)]
     @ u16_to_le_bytes (fh_flags h) @ u16_to_le_bytes (fh_channel h)
     @ u32_to_le_bytes (fh_corr h) @ u32_to_le_bytes (fh_len h)"

text \<open>The argument is a \<open>[u8; 16]\<close>, so every index below is in range.\<close>

definition decode :: "bytes \<Rightarrow> HeaderError + FrameHeader" where
  "decode bs =
     (let magic = u16_from_le_bytes (bs ! 0) (bs ! 1);
          version = bs ! 2
      in if magic \<noteq> MAGIC then Inl (BadMagic magic)
         else if version \<noteq> PROTOCOL_VERSION then Inl (BadVersion version)
         else and_then (ok_or (kind_from_u8 (bs ! 3)) (BadKind (bs ! 3))) (\<lambda>kind.
           Inr \<lparr> fh_kind = kind,
                 fh_flags = u16_from_le_bytes (bs ! 4) (bs ! 5),
                 fh_channel = u16_from_le_bytes (bs ! 6) (bs ! 7),
                 fh_corr = u32_from_le_bytes (bs ! 8) (bs ! 9) (bs ! 10) (bs ! 11),
                 fh_len = u32_from_le_bytes (bs ! 12) (bs ! 13) (bs ! 14) (bs ! 15) \<rparr>))"

section \<open>The header is a fixed-width codec\<close>

lemma kind_roundtrip [simp, codec_simps]: "kind_from_u8 (kind_as_u8 k) = Some k"
  by (cases k) (simp_all add: kind_from_u8_def)

lemma kind_from_u8_Some [codec_simps]: "kind_from_u8 b = Some k \<longleftrightarrow> b = kind_as_u8 k"
proof
  assume "kind_from_u8 b = Some k"
  then show "b = kind_as_u8 k" by (auto simp: kind_from_u8_def split: if_splits)
qed simp

lemma kind_from_u8_None: "kind_from_u8 b = None \<longleftrightarrow> 10 < b"
proof -
  have "b \<le> 10 \<longleftrightarrow> b = 0 \<or> b = 1 \<or> b = 2 \<or> b = 3 \<or> b = 4 \<or> b = 5 \<or> b = 6 \<or> b = 7
      \<or> b = 8 \<or> b = 9 \<or> b = 10"
    by (simp add: word_le_nat_alt word_unat_eq_iff) presburger
  then show ?thesis by (auto simp: kind_from_u8_def not_less [symmetric])
qed

lemma length_encode [simp]: "length (encode h) = HEADER_LEN"
  by (simp add: encode_def HEADER_LEN_def)

lemma length_16_cases:
  assumes "length bs = HEADER_LEN"
  obtains b0 b1 b2 b3 b4 b5 b6 b7 b8 b9 b10 b11 b12 b13 b14 b15
  where "bs = [b0, b1, b2, b3, b4, b5, b6, b7, b8, b9, b10, b11, b12, b13, b14, b15]"
  using assms by (auto simp: HEADER_LEN_def numeral_eq_Suc length_Suc_conv)

lemma u16_from_eq_iff: "u16_from_le_bytes b0 b1 = w \<longleftrightarrow> [b0, b1] = u16_to_le_bytes w"
proof
  assume "[b0, b1] = u16_to_le_bytes w"
  then show "u16_from_le_bytes b0 b1 = w" by (simp add: u16_to_le_bytes_def)
qed auto

interpretation frame_header: fixed_codec encode decode "\<lambda>_. True" HEADER_LEN
proof unfold_locales
  show "decode (encode h) = Inr h" for h
    by (simp add: encode_def decode_def u16_to_le_bytes_def u32_to_le_bytes_def)
  show "encode h = bs" if len: "length bs = HEADER_LEN" and dec: "decode bs = Inr h" for bs h
  proof -
    obtain b0 b1 b2 b3 b4 b5 b6 b7 b8 b9 b10 b11 b12 b13 b14 b15 where
      bs: "bs = [b0, b1, b2, b3, b4, b5, b6, b7, b8, b9, b10, b11, b12, b13, b14, b15]"
      by (rule length_16_cases [OF len])
    have "[b0, b1] = u16_to_le_bytes MAGIC" "b2 = PROTOCOL_VERSION"
      using dec unfolding bs
      by (auto simp: decode_def u16_from_eq_iff Let_def split: if_splits)
    with dec show ?thesis unfolding bs
      by (auto simp: decode_def encode_def Let_def result_simps kind_from_u8_Some split: if_splits)
  qed
qed simp_all

section \<open>Properties\<close>

text \<open>
  C5. The 16-byte wire form of a frame header is canonical: decoding an encoded header gives
  it back, and a 16-byte string decodes to a header only if it is that header's encoding, so
  no two wire forms mean the same header. Every other 16-byte string is refused, with the
  first of magic, version and kind that is wrong.
\<close>

theorem frame_header_canonical:
  assumes "length bs = HEADER_LEN"
  shows "length (encode h) = HEADER_LEN \<and> decode (encode h) = Inr h
    \<and> (decode bs = Inr h \<longleftrightarrow> bs = encode h)
    \<and> (take 2 bs \<noteq> u16_to_le_bytes MAGIC \<longleftrightarrow> (\<exists>m. decode bs = Inl (BadMagic m)))
    \<and> (decode bs = Inl (BadVersion v) \<longleftrightarrow>
         take 2 bs = u16_to_le_bytes MAGIC \<and> bs ! 2 = v \<and> v \<noteq> PROTOCOL_VERSION)
    \<and> (decode bs = Inl (BadKind k) \<longleftrightarrow>
         take 3 bs = u16_to_le_bytes MAGIC @ [PROTOCOL_VERSION] \<and> bs ! 3 = k \<and> 10 < k)"
proof -
  obtain b0 b1 b2 b3 b4 b5 b6 b7 b8 b9 b10 b11 b12 b13 b14 b15 where
    bs: "bs = [b0, b1, b2, b3, b4, b5, b6, b7, b8, b9, b10, b11, b12, b13, b14, b15]"
    by (rule length_16_cases [OF assms])
  have magic: "take 2 bs = u16_to_le_bytes MAGIC \<longleftrightarrow> u16_from_le_bytes b0 b1 = MAGIC"
    by (simp add: bs u16_from_eq_iff)
  have head: "take 3 bs = u16_to_le_bytes MAGIC @ [PROTOCOL_VERSION]
      \<longleftrightarrow> u16_from_le_bytes b0 b1 = MAGIC \<and> b2 = PROTOCOL_VERSION"
    by (simp add: bs u16_from_eq_iff u16_to_le_bytes_def)
  have "decode bs = Inr h \<longleftrightarrow> bs = encode h"
    using frame_header.dec_iff [OF assms] by auto
  moreover have "decode bs = Inl (BadKind k) \<longleftrightarrow>
      u16_from_le_bytes b0 b1 = MAGIC \<and> b2 = PROTOCOL_VERSION \<and> b3 = k \<and> 10 < k"
    by (cases "kind_from_u8 b3") (auto simp: bs decode_def Let_def kind_from_u8_None [symmetric])
  moreover have "(\<exists>m. decode bs = Inl (BadMagic m)) \<longleftrightarrow> u16_from_le_bytes b0 b1 \<noteq> MAGIC"
    by (cases "kind_from_u8 b3") (auto simp: bs decode_def Let_def)
  moreover have "decode bs = Inl (BadVersion v) \<longleftrightarrow>
      u16_from_le_bytes b0 b1 = MAGIC \<and> b2 = v \<and> v \<noteq> PROTOCOL_VERSION"
    by (cases "kind_from_u8 b3") (auto simp: bs decode_def Let_def)
  ultimately show ?thesis
    using frame_header.dec_enc [of h] by (simp add: magic head) (simp add: bs)
qed

theorem frame_header_canonical_witness:
  "decode [75, 73, 2, 1, 0, 0, 3, 0, 7, 0, 0, 0, 5, 0, 0, 0]
     = Inr \<lparr> fh_kind = Call, fh_flags = 0, fh_channel = 3, fh_corr = 7, fh_len = 5 \<rparr>
   \<and> decode [75, 73, 2, 11, 0, 0, 3, 0, 7, 0, 0, 0, 5, 0, 0, 0] = Inl (BadKind 11)"
proof
  let ?h = "\<lparr> fh_kind = Call, fh_flags = 0, fh_channel = 3, fh_corr = 7, fh_len = 5 \<rparr>"
  have "[75, 73, 2, 1, 0, 0, 3, 0, 7, 0, 0, 0, 5, 0, 0, 0] = encode ?h" by code_simp
  then show "decode [75, 73, 2, 1, 0, 0, 3, 0, 7, 0, 0, 0, 5, 0, 0, 0] = Inr ?h"
    using frame_header_canonical [of "[75, 73, 2, 1, 0, 0, 3, 0, 7, 0, 0, 0, 5, 0, 0, 0]" ?h]
    by (simp add: HEADER_LEN_def)
  have "[75, 73, 2] = u16_to_le_bytes MAGIC @ [PROTOCOL_VERSION]" by code_simp
  then show "decode [75, 73, 2, 11, 0, 0, 3, 0, 7, 0, 0, 0, 5, 0, 0, 0] = Inl (BadKind 11)"
    using frame_header_canonical [of "[75, 73, 2, 11, 0, 0, 3, 0, 7, 0, 0, 0, 5, 0, 0, 0]" _ _ 11]
    by (simp add: HEADER_LEN_def)
qed

end
