(* ===== verification/Kipc_Channel_Table.thy ===== *)
theory Kipc_Channel_Table
  imports Kipc_Frame
begin

text \<open>
  The kipc channel table (\<open>crates/keld-ipc/src/channel_table.rs\<close>): the allocated channels
  with their receive class and authority, the compile-time validation of the table with its
  loops as written, and the lookup by wire id. The lemmas relate the loops to declarative
  descriptions of a well-formed name and of a valid table.
\<close>

section \<open>Data\<close>

definition HANDSHAKE_CHANNEL :: ChannelId where "HANDSHAKE_CHANNEL = 0"

datatype ReceiveClass = HostCall | HostCallWithEvents | GuardedCall

definition carries_host_events :: "ReceiveClass \<Rightarrow> bool" where
  "carries_host_events c = (c = HostCallWithEvents)"

datatype Authority = HostInternal | Guarded "string list"

record ChannelEntry =
  ce_name :: string
  ce_id :: ChannelId
  ce_class :: ReceiveClass
  ce_authority :: Authority

text \<open>Capability names of \<open>keld_guard::capability\<close>.\<close>

definition FS_READ :: string where "FS_READ = ''fs.read''"
definition FS_WRITE :: string where "FS_WRITE = ''fs.write''"
definition AUTH_BEGIN :: string where "AUTH_BEGIN = ''auth.begin''"
definition AUTH_TOKEN :: string where "AUTH_TOKEN = ''auth.token''"

definition ChannelEntry_new :: "string \<Rightarrow> u16 \<Rightarrow> ReceiveClass \<Rightarrow> Authority \<Rightarrow> ChannelEntry" where
  "ChannelEntry_new name i class auth =
     \<lparr> ce_name = name, ce_id = i, ce_class = class, ce_authority = auth \<rparr>"

definition ECHO :: ChannelEntry where
  "ECHO = ChannelEntry_new ''echo'' 1 HostCall HostInternal"

definition FS :: ChannelEntry where
  "FS = ChannelEntry_new ''fs'' 2 GuardedCall (Guarded [FS_READ, FS_WRITE])"

definition LIFECYCLE :: ChannelEntry where
  "LIFECYCLE = ChannelEntry_new ''lifecycle'' 3 HostCallWithEvents HostInternal"

definition AUTH :: ChannelEntry where
  "AUTH = ChannelEntry_new ''auth'' 4 GuardedCall (Guarded [AUTH_BEGIN, AUTH_TOKEN])"

definition WINDOW :: ChannelEntry where
  "WINDOW = ChannelEntry_new ''window'' 5 HostCallWithEvents HostInternal"

definition CHANNEL_TABLE :: "ChannelEntry list" where
  "CHANNEL_TABLE = [ECHO, FS, LIFECYCLE, AUTH, WINDOW]"

datatype TableDefect =
    ReservedId | NotIncreasing | DuplicateId u16 | InvalidName | DuplicateName
  | EmptyCapabilityList

section \<open>Byte-string loops\<close>

definition is_ascii_lowercase :: "byte \<Rightarrow> bool" where
  "is_ascii_lowercase b = (0x61 \<le> b \<and> b \<le> 0x7A)"

definition is_ascii_digit :: "byte \<Rightarrow> bool" where
  "is_ascii_digit b = (0x30 \<le> b \<and> b \<le> 0x39)"

function bytes_equal_loop :: "bytes \<Rightarrow> bytes \<Rightarrow> nat \<Rightarrow> bool" where
  "bytes_equal_loop left right index =
     (if index < length left then
        (if left ! index \<noteq> right ! index then False
         else bytes_equal_loop left right (index + 1))
      else True)"
  by pat_completeness auto
termination by (relation "measure (\<lambda>(left, _, index). length left - index)") auto

definition bytes_equal :: "bytes \<Rightarrow> bytes \<Rightarrow> bool" where
  "bytes_equal left right =
     (if length left \<noteq> length right then False else bytes_equal_loop left right 0)"

text \<open>The inner loop of \<open>contains\<close> returns the offset it stops at.\<close>

function match_offset :: "bytes \<Rightarrow> bytes \<Rightarrow> nat \<Rightarrow> nat \<Rightarrow> nat" where
  "match_offset haystack needle start offset =
     (if offset < length needle \<and> haystack ! (start + offset) = needle ! offset
      then match_offset haystack needle start (offset + 1) else offset)"
  by pat_completeness auto
termination by (relation "measure (\<lambda>(_, needle, _, offset). length needle - offset)") auto

function contains_loop :: "bytes \<Rightarrow> bytes \<Rightarrow> nat \<Rightarrow> bool" where
  "contains_loop haystack needle start =
     (if start + length needle \<le> length haystack then
        (if match_offset haystack needle start 0 = length needle then True
         else contains_loop haystack needle (start + 1))
      else False)"
  by pat_completeness auto
termination
  by (relation "measure (\<lambda>(haystack, needle, start). Suc (length haystack) - start)") auto

definition contains :: "bytes \<Rightarrow> bytes \<Rightarrow> bool" where
  "contains haystack needle = contains_loop haystack needle 0"

function valid_name_loop :: "bytes \<Rightarrow> nat \<Rightarrow> nat \<Rightarrow> bool" where
  "valid_name_loop name index segment =
     (if index \<le> length name then
        (if index = length name \<or> name ! index = byte_of CHR ''-'' then
           (if index - segment = 2 \<and> name ! segment = byte_of CHR ''e''
               \<and> name ! (segment + 1) = byte_of CHR ''l''
            then False else valid_name_loop name (index + 1) (index + 1))
         else if \<not> (is_ascii_lowercase (name ! index) \<or> is_ascii_digit (name ! index)) then False
         else valid_name_loop name (index + 1) segment)
      else True)"
  by pat_completeness auto
termination by (relation "measure (\<lambda>(name, index, _). Suc (length name) - index)") auto

definition valid_name :: "bytes \<Rightarrow> bool" where
  "valid_name name =
     (if name = [] \<or> 32 < length name \<or> \<not> is_ascii_lowercase (name ! 0) then False
      else if \<not> valid_name_loop name 0 0 then False
      else \<not> contains name (bytes_of ''electron''))"

declare bytes_equal_loop.simps [simp del] match_offset.simps [simp del]
  contains_loop.simps [simp del] valid_name_loop.simps [simp del]

section \<open>Table validation and lookup\<close>

function earlier_loop :: "ChannelEntry list \<Rightarrow> ChannelEntry \<Rightarrow> nat \<Rightarrow> nat \<Rightarrow> TableDefect + unit" where
  "earlier_loop entries entry index earlier =
     (if earlier < index then
        (if ce_id (entries ! earlier) = ce_id entry then Inl (DuplicateId (ce_id entry))
         else if bytes_equal (bytes_of (ce_name (entries ! earlier))) (bytes_of (ce_name entry))
         then Inl DuplicateName
         else earlier_loop entries entry index (earlier + 1))
      else Inr ())"
  by pat_completeness auto
termination by (relation "measure (\<lambda>(_, _, index, earlier). index - earlier)") auto

function validate_table_loop :: "ChannelEntry list \<Rightarrow> nat \<Rightarrow> TableDefect + unit" where
  "validate_table_loop entries index =
     (if index < length entries then
        (let entry = entries ! index in
         if ce_id entry = HANDSHAKE_CHANNEL then Inl ReservedId
         else if \<not> valid_name (bytes_of (ce_name entry)) then Inl InvalidName
         else if ce_authority entry = Guarded [] then Inl EmptyCapabilityList
         else and_then (earlier_loop entries entry index 0) (\<lambda>_.
           if 0 < index \<and> ce_id entry \<le> ce_id (entries ! (index - 1)) then Inl NotIncreasing
           else validate_table_loop entries (index + 1)))
      else Inr ())"
  by pat_completeness auto
termination by (relation "measure (\<lambda>(entries, index). length entries - index)") auto

definition validate_table :: "ChannelEntry list \<Rightarrow> TableDefect + unit" where
  "validate_table entries = validate_table_loop entries 0"

function entry_loop :: "ChannelId \<Rightarrow> nat \<Rightarrow> ChannelEntry option" where
  "entry_loop i index =
     (if index < length CHANNEL_TABLE then
        (if ce_id (CHANNEL_TABLE ! index) = i then Some (CHANNEL_TABLE ! index)
         else entry_loop i (index + 1))
      else None)"
  by pat_completeness auto
termination by (relation "measure (\<lambda>(_, index). length CHANNEL_TABLE - index)") auto

definition entry :: "ChannelId \<Rightarrow> ChannelEntry option" where
  "entry i = entry_loop i 0"

declare earlier_loop.simps [simp del] validate_table_loop.simps [simp del]
  entry_loop.simps [simp del]

section \<open>What the loops compute\<close>

lemma bytes_equal_loop_iff:
  "bytes_equal_loop left right index \<longleftrightarrow> (\<forall>i\<in>{index..<length left}. left ! i = right ! i)"
proof (induction left right index rule: bytes_equal_loop.induct)
  case (1 left right index)
  have step: "{index..<length left} = insert index {index + 1..<length left}"
    if "index < length left" using that by auto
  show ?case
  proof (cases "index < length left")
    case True
    with 1 show ?thesis
      by (subst bytes_equal_loop.simps) (simp only: step [OF True] if_True ball_simps, auto)
  qed (simp add: bytes_equal_loop.simps)
qed

lemma bytes_equal_iff [simp]: "bytes_equal left right \<longleftrightarrow> left = right"
  by (auto simp: bytes_equal_def bytes_equal_loop_iff intro: nth_equalityI)

lemma match_offset_eq_length:
  "offset \<le> length needle \<Longrightarrow> match_offset haystack needle start offset = length needle \<longleftrightarrow>
     (\<forall>i\<in>{offset..<length needle}. haystack ! (start + i) = needle ! i)"
proof (induction haystack needle start offset rule: match_offset.induct)
  case (1 haystack needle start offset)
  show ?case
  proof (cases "offset < length needle \<and> haystack ! (start + offset) = needle ! offset")
    case True
    then have "{offset..<length needle} = insert offset {offset + 1..<length needle}" by auto
    with True 1 show ?thesis by (subst match_offset.simps) auto
  next
    case False
    with 1 show ?thesis by (subst match_offset.simps) (auto intro!: bexI [of _ offset])
  qed
qed

lemma match_offset_take:
  assumes "start + length needle \<le> length haystack"
  shows "match_offset haystack needle start 0 = length needle
           \<longleftrightarrow> take (length needle) (drop start haystack) = needle"
proof -
  have "take (length needle) (drop start haystack) = needle
      \<longleftrightarrow> (\<forall>i<length needle. haystack ! (start + i) = needle ! i)"
    using assms by (simp add: list_eq_iff_nth_eq [of "take _ _"])
  then show ?thesis
    using match_offset_eq_length [of 0 needle haystack start] by auto
qed

lemma contains_loop_iff:
  "contains_loop haystack needle start \<longleftrightarrow>
     (\<exists>k\<ge>start. k + length needle \<le> length haystack
        \<and> take (length needle) (drop k haystack) = needle)"
proof (induction haystack needle start rule: contains_loop.induct)
  case (1 haystack needle start)
  show ?case
  proof (cases "start + length needle \<le> length haystack")
    case True
    have split: "(\<exists>k\<ge>start. P k) \<longleftrightarrow> P start \<or> (\<exists>k\<ge>start + 1. P k)" for P :: "nat \<Rightarrow> bool"
      by (metis Suc_eq_plus1 Suc_leD le_neq_implies_less less_eq_Suc_le order_refl)
    from True 1 show ?thesis
      by (subst contains_loop.simps, subst split) (simp add: match_offset_take)
  qed (subst contains_loop.simps, auto)
qed

lemma contains_iff: "contains haystack needle \<longleftrightarrow> sublist needle haystack"
proof -
  have "take (length needle) (drop k haystack) = needle \<Longrightarrow> sublist needle haystack" for k
    by (metis append_take_drop_id sublist_appendI)
  moreover have "\<exists>k. k + length needle \<le> length haystack
      \<and> take (length needle) (drop k haystack) = needle" if "sublist needle haystack"
  proof -
    from that obtain ps ss where "haystack = ps @ needle @ ss" by (auto simp: sublist_def)
    then show ?thesis by (intro exI [of _ "length ps"]) simp
  qed
  ultimately show ?thesis by (auto simp: contains_def contains_loop_iff)
qed

lemma split_on_prefix:
  "\<forall>x\<in>set xs. \<not> p x \<Longrightarrow> split_on p (xs @ ys) = (xs @ hd (split_on p ys)) # tl (split_on p ys)"
  by (induction xs) (auto split: list.splits)

text \<open>
  A well-formed name, stated without loops: \<open>[a-z][a-z0-9-]{0,31}\<close>, no hyphen segment
  \<open>el\<close>, and \<open>electron\<close> nowhere.
\<close>

definition name_byte :: "byte \<Rightarrow> bool" where
  "name_byte b = (is_ascii_lowercase b \<or> is_ascii_digit b \<or> b = byte_of CHR ''-'')"

definition well_formed_name :: "bytes \<Rightarrow> bool" where
  "well_formed_name name =
     (name \<noteq> [] \<and> length name \<le> 32 \<and> is_ascii_lowercase (hd name)
      \<and> list_all name_byte name
      \<and> bytes_of ''el'' \<notin> set (split_on (\<lambda>b. b = byte_of CHR ''-'') name)
      \<and> \<not> sublist (bytes_of ''electron'') name)"

abbreviation hyphen_segments :: "bytes \<Rightarrow> bytes list" where
  "hyphen_segments \<equiv> split_on (\<lambda>b. b = byte_of CHR ''-'')"

lemma segment_is_el:
  assumes "segment \<le> index" "index \<le> length name"
  shows "take (index - segment) (drop segment name) = bytes_of ''el'' \<longleftrightarrow>
    index - segment = 2 \<and> name ! segment = byte_of CHR ''e''
      \<and> name ! (segment + 1) = byte_of CHR ''l''"
proof (cases "index - segment = 2")
  case True
  with assms have "take (index - segment) (drop segment name) = [name ! segment, name ! (segment + 1)]"
    by (simp add: list_eq_iff_nth_eq nth_Cons less_Suc_eq numeral_2_eq_2 split: nat.split)
  with True show ?thesis by (simp add: bytes_of_def)
next
  case False
  with assms have "length (take (index - segment) (drop segment name)) \<noteq> length (bytes_of ''el'')"
    by (simp add: bytes_of_def)
  with False show ?thesis by (metis)
qed

lemma valid_name_loop_iff:
  assumes "segment \<le> index" "index \<le> length name"
    and "\<forall>b\<in>set (take (index - segment) (drop segment name)). b \<noteq> byte_of CHR ''-''"
  shows "valid_name_loop name index segment \<longleftrightarrow>
    list_all name_byte (drop index name)
    \<and> bytes_of ''el'' \<notin> set (hyphen_segments (drop segment name))"
  using assms
proof (induction name index segment rule: valid_name_loop.induct)
  case (1 name index segment)
  let ?seg = "take (index - segment) (drop segment name)"
  have whole: "drop segment name = ?seg @ drop index name"
    using "1.prems"(1,2) by (metis append_take_drop_id drop_drop le_add_diff_inverse2)
  have segs: "hyphen_segments (drop segment name)
      = (?seg @ hd (hyphen_segments (drop index name))) # tl (hyphen_segments (drop index name))"
    using "1.prems"(3) by (subst whole, intro split_on_prefix) auto
  have loop: "valid_name_loop name index segment =
      (if index = length name \<or> name ! index = byte_of CHR ''-'' then
         ?seg \<noteq> bytes_of ''el'' \<and> valid_name_loop name (index + 1) (index + 1)
       else (is_ascii_lowercase (name ! index) \<or> is_ascii_digit (name ! index))
         \<and> valid_name_loop name (index + 1) segment)"
    using "1.prems"(1,2)
    by (subst valid_name_loop.simps) (simp only: segment_is_el if_True, simp)
  show ?case
  proof (cases "index = length name")
    case True
    have "valid_name_loop name (index + 1) (index + 1)"
      using True by (subst valid_name_loop.simps) simp
    with True show ?thesis unfolding loop segs by auto
  next
    case False
    then have less: "index < length name" using "1.prems"(2) by simp
    then have rest: "drop index name = name ! index # drop (index + 1) name"
      by (simp add: Cons_nth_drop_Suc)
    show ?thesis
    proof (cases "name ! index = byte_of CHR ''-''")
      case True
      have "valid_name_loop name (index + 1) (index + 1) \<longleftrightarrow>
          list_all name_byte (drop (index + 1) name)
          \<and> bytes_of ''el'' \<notin> set (hyphen_segments (drop (index + 1) name))"
        if "?seg \<noteq> bytes_of ''el''"
        using "1.IH"(1) True less "1.prems"(1) that by (simp add: segment_is_el)
      moreover have "name_byte (name ! index)" using True by (simp add: name_byte_def)
      ultimately show ?thesis using True by (auto simp: loop segs rest)
    next
      case noth: False
      have "take (index + 1 - segment) (drop segment name) = ?seg @ [name ! index]"
        using less "1.prems"(1) by (simp add: Suc_diff_le take_Suc_conv_app_nth)
      with noth less "1.IH"(2) "1.prems"(1,3) have "valid_name_loop name (index + 1) segment \<longleftrightarrow>
          list_all name_byte (drop (index + 1) name)
          \<and> bytes_of ''el'' \<notin> set (hyphen_segments (drop segment name))"
        if "is_ascii_lowercase (name ! index) \<or> is_ascii_digit (name ! index)" using that by auto
      with noth False show ?thesis by (auto simp: loop rest name_byte_def [of "name ! index"])
    qed
  qed
qed

lemma valid_name_iff: "valid_name name \<longleftrightarrow> well_formed_name name"
  by (cases "name = []")
    (auto simp: valid_name_def well_formed_name_def contains_iff hd_conv_nth valid_name_loop_iff)

lemma earlier_loop_ok:
  "earlier_loop entries e index k = Inr () \<longleftrightarrow>
     (\<forall>i\<in>{k..<index}. ce_id (entries ! i) \<noteq> ce_id e \<and> ce_name (entries ! i) \<noteq> ce_name e)"
proof (induction entries e index k rule: earlier_loop.induct)
  case (1 entries e index k)
  show ?case
  proof (cases "k < index")
    case True
    then have "{k..<index} = insert k {k + 1..<index}" by auto
    with True 1 show ?thesis by (subst earlier_loop.simps) auto
  qed (simp add: earlier_loop.simps)
qed

text \<open>A valid table, stated without loops.\<close>

definition entry_ok :: "ChannelEntry \<Rightarrow> bool" where
  "entry_ok e = (ce_id e \<noteq> 0 \<and> well_formed_name (bytes_of (ce_name e))
                 \<and> ce_authority e \<noteq> Guarded [])"

definition valid_table :: "ChannelEntry list \<Rightarrow> bool" where
  "valid_table entries =
     (list_all entry_ok entries \<and> distinct (map ce_name entries)
      \<and> sorted_wrt (<) (map ce_id entries))"

lemma valid_table_snoc:
  "valid_table (es @ [e]) \<longleftrightarrow>
     valid_table es \<and> entry_ok e \<and> (\<forall>x\<in>set es. ce_name x \<noteq> ce_name e \<and> ce_id x < ce_id e)"
  unfolding valid_table_def by (auto simp: sorted_wrt_append image_iff)

lemma sorted_last_bound:
  assumes "sorted_wrt (<) (map ce_id es)" "es \<noteq> []" "ce_id (last es) < ce_id e"
  shows "\<forall>x\<in>set es. ce_id x < ce_id e"
  using assms by (cases es rule: rev_cases) (auto simp: sorted_wrt_append intro: less_trans)

lemma validate_table_loop_ok:
  assumes "index \<le> length entries" "valid_table (take index entries)"
  shows "validate_table_loop entries index = Inr () \<longleftrightarrow> valid_table entries"
  using assms
proof (induction entries index rule: validate_table_loop.induct)
  case (1 entries index)
  show ?case
  proof (cases "index < length entries")
    case True
    let ?e = "entries ! index" and ?pre = "take index entries"
    have take: "take (index + 1) entries = ?pre @ [?e]"
      using True by (simp add: take_Suc_conv_app_nth)
    have early: "earlier_loop entries ?e index 0 = Inr () \<longleftrightarrow>
        (\<forall>x\<in>set ?pre. ce_id x \<noteq> ce_id ?e \<and> ce_name x \<noteq> ce_name ?e)"
      using True by (auto simp: earlier_loop_ok in_set_conv_nth Ball_def)
    have last: "last ?pre = entries ! (index - 1)" "?pre \<noteq> []" if "0 < index"
      using that True by (cases index; simp add: take_Suc_conv_app_nth)+
    have bound: "(\<forall>x\<in>set ?pre. ce_id x \<noteq> ce_id ?e) \<and> \<not> (0 < index \<and> ce_id ?e \<le> ce_id (entries ! (index - 1)))
        \<longleftrightarrow> (\<forall>x\<in>set ?pre. ce_id x < ce_id ?e)"
      using sorted_last_bound [of ?pre ?e] last last_in_set [of ?pre] "1.prems"(2)
      by (cases "0 < index") (auto simp: valid_table_def not_le)
    have "validate_table_loop entries index = Inr () \<longleftrightarrow>
        valid_table (take (index + 1) entries) \<and> validate_table_loop entries (index + 1) = Inr ()"
      using True "1.prems"(2) bound
      unfolding take valid_table_snoc
      by (subst validate_table_loop.simps)
        (auto simp: Let_def entry_ok_def valid_name_iff HANDSHAKE_CHANNEL_def early result_simps)
    moreover have "valid_table entries \<Longrightarrow> valid_table (take (index + 1) entries)"
      by (metis append_take_drop_id distinct_append list_all_append map_append sorted_wrt_append
          valid_table_def)
    moreover have "validate_table_loop entries (index + 1) = Inr () \<longleftrightarrow> valid_table entries"
      if "valid_table (take (index + 1) entries)"
    proof -
      have "entry_ok ?e" "\<not> (0 < index \<and> ce_id ?e \<le> ce_id (entries ! (index - 1)))"
        using that bound unfolding take valid_table_snoc by auto
      then show ?thesis
        using that True by (intro "1.IH") (auto simp: entry_ok_def valid_name_iff HANDSHAKE_CHANNEL_def)
    qed
    ultimately show ?thesis by blast
  next
    case False
    with "1.prems" show ?thesis by (subst validate_table_loop.simps) simp
  qed
qed

lemma entry_loop_eq: "entry_loop i k = find (\<lambda>e. ce_id e = i) (drop k CHANNEL_TABLE)"
proof (induction i k rule: entry_loop.induct)
  case (1 i k)
  show ?case
  proof (cases "k < length CHANNEL_TABLE")
    case True
    then have "drop k CHANNEL_TABLE = CHANNEL_TABLE ! k # drop (k + 1) CHANNEL_TABLE"
      by (simp add: Cons_nth_drop_Suc)
    with True 1 show ?thesis by (subst entry_loop.simps) simp
  qed (simp add: entry_loop.simps)
qed

lemma entry_find: "entry i = find (\<lambda>e. ce_id e = i) CHANNEL_TABLE"
  by (simp add: entry_def entry_loop_eq)

lemmas channel_table_defs = CHANNEL_TABLE_def ECHO_def FS_def LIFECYCLE_def AUTH_def WINDOW_def
  ChannelEntry_new_def

lemma entry_eq_Some: "entry i = Some e \<longleftrightarrow> e \<in> set CHANNEL_TABLE \<and> ce_id e = i"
  by (auto simp: entry_find channel_table_defs)

section \<open>Properties\<close>

text \<open>
  The compile-time check of a channel table succeeds exactly on valid tables: every id
  nonzero, ids strictly increasing (so unique) in declaration order, names unique and matching
  \<open>[a-z][a-z0-9-]{0,31}\<close> without an \<open>el\<close> segment or \<open>electron\<close>, and no guarded entry
  without a capability.
\<close>

theorem validate_table_iff: "validate_table entries = Inr () \<longleftrightarrow> valid_table entries"
  unfolding validate_table_def
  by (rule validate_table_loop_ok) (simp_all add: valid_table_def)

text \<open>
  The shipped table passes that check, the lookup by wire id finds exactly the allocated
  entry with that id (in particular nothing for the handshake channel), and an entry is of
  the guarded class exactly when the guard's capabilities authorize it.
\<close>

theorem channel_table_sound:
  "validate_table CHANNEL_TABLE = Inr ()
   \<and> (entry i = Some e \<longleftrightarrow> e \<in> set CHANNEL_TABLE \<and> ce_id e = i)
   \<and> entry HANDSHAKE_CHANNEL = None
   \<and> list_all (\<lambda>e. ce_class e = GuardedCall \<longleftrightarrow> (\<exists>caps. ce_authority e = Guarded caps)) CHANNEL_TABLE"
proof (intro conjI)
  show "validate_table CHANNEL_TABLE = Inr ()" by code_simp
qed (auto simp: entry_eq_Some channel_table_defs HANDSHAKE_CHANNEL_def entry_find)

end
