(* ===== verification/Kipc_Error.thy ===== *)
theory Kipc_Error
  imports Kipc_Frame
begin

text \<open>
  The error values of the kipc control plane (\<open>crates/keld-ipc/src/lib.rs\<close>), the stable
  code each one is reported under, and the redacted classes a bootstrap listener records
  (\<open>admission.rs\<close>). An I/O error is its kind and raw code, without its text; the error value of
  the third-party codec is never inspected and is not represented.
\<close>

datatype ErrorKind =
    TimedOut | WouldBlock | Interrupted | UnexpectedEof | WriteZero | BrokenPipe
  | ConnectionReset | ConnectionAborted | ConnectionRefused | NotConnected | NotFound
  | PermissionDenied | InvalidInput | InvalidData | OtherKind

text \<open>An \<open>io::Error\<close>: its kind and, when it came from the system, the raw code.\<close>

datatype IoError = IoError (io_kind: ErrorKind) (raw_os_error: "int option")

datatype IpcError =
    Io IoError | Header HeaderError | Codec | PayloadTooLarge | Protocol string
  | HelloAuth string | Timeout

definition ipc_from_io :: "IoError \<Rightarrow> IpcError" where
  "ipc_from_io err =
     (case io_kind err of TimedOut \<Rightarrow> Timeout | WouldBlock \<Rightarrow> Timeout | _ \<Rightarrow> Io err)"

fun ipc_code :: "IpcError \<Rightarrow> string" where
  "ipc_code (Io _) = ''KELD-IPC-001''"
| "ipc_code (Header _) = ''KELD-IPC-002''"
| "ipc_code Codec = ''KELD-IPC-003''"
| "ipc_code PayloadTooLarge = ''KELD-IPC-004''"
| "ipc_code (Protocol _) = ''KELD-IPC-005''"
| "ipc_code (HelloAuth _) = ''KELD-IPC-007''"
| "ipc_code Timeout = ''KELD-IPC-006''"

text \<open>Lift a decoder's error into \<open>IpcError\<close>, as \<open>?\<close> does through \<open>From\<close>.\<close>

definition from_header :: "HeaderError + 'a \<Rightarrow> IpcError + 'a" where
  "from_header r = (case r of Inl e \<Rightarrow> Inl (Header e) | Inr a \<Rightarrow> Inr a)"

datatype BootstrapRejection = RejIo | RejHeader | RejPayloadTooLarge | RejProtocol | RejTimeout
  | RejHelloAuth

fun rejection_code :: "BootstrapRejection \<Rightarrow> string" where
  "rejection_code RejIo = ''KELD-IPC-001''"
| "rejection_code RejHeader = ''KELD-IPC-002''"
| "rejection_code RejPayloadTooLarge = ''KELD-IPC-004''"
| "rejection_code RejProtocol = ''KELD-IPC-005''"
| "rejection_code RejTimeout = ''KELD-IPC-006''"
| "rejection_code RejHelloAuth = ''KELD-IPC-007''"

fun classify :: "IpcError \<Rightarrow> BootstrapRejection" where
  "classify (Io _) = RejIo"
| "classify (Header _) = RejHeader"
| "classify PayloadTooLarge = RejPayloadTooLarge"
| "classify (Protocol _) = RejProtocol"
| "classify Codec = RejProtocol"
| "classify Timeout = RejTimeout"
| "classify (HelloAuth _) = RejHelloAuth"

lemma from_header_simps [simp, result_simps]:
  "from_header (Inl e) = Inl (Header e)" "from_header (Inr a) = Inr a"
  by (simp_all add: from_header_def)

lemma from_header_eq_Inr [simp, result_simps]: "from_header r = Inr a \<longleftrightarrow> r = Inr a"
  by (cases r) auto

lemma from_header_eq_Inl [simp, result_simps]:
  "from_header r = Inl e \<longleftrightarrow> (\<exists>h. r = Inl h \<and> e = Header h)"
  by (cases r) auto

text \<open>
  A rejection record keeps the code of the error it classifies, except the codec error the
  handshake cannot produce; classes and codes are in bijection.
\<close>

lemma classify_code: "e \<noteq> Codec \<Longrightarrow> rejection_code (classify e) = ipc_code e"
  by (cases e) auto

lemma rejection_code_inject: "rejection_code a = rejection_code b \<longleftrightarrow> a = b"
  by (cases a; cases b) auto

end
