(* ===== verification/Kipc_Token.thy ===== *)
theory Kipc_Token
  imports Kipc_Error
begin

text \<open>
  The session token of kipc v2 and the bootstrap link text (\<open>crates/keld-ipc/src/token.rs\<close>):
  the constant-time comparison, the hexadecimal text form, and \<open>KELD_APP_LINK\<close> values
  \<open>endpoint#hex\<close>. A token is its 32 bytes. Lowercase hexadecimal text is a \<open>byte_codec\<close>.
\<close>

type_synonym SessionToken = bytes

definition SESSION_TOKEN_LEN :: nat where "SESSION_TOKEN_LEN = 32"

definition token_wf :: "SessionToken \<Rightarrow> bool" where
  "token_wf t = (length t = SESSION_TOKEN_LEN)"

section \<open>Operations\<close>

definition token_eq :: "SessionToken \<Rightarrow> SessionToken \<Rightarrow> bool" where
  "token_eq a b = (fold (\<lambda>(left, right) diff. diff OR (left XOR right)) (zip a b) 0 = 0)"

definition bad_hex :: IpcError where
  "bad_hex = HelloAuth ''KELD_APP_LINK token must be 64 hex characters''"

definition hex_nibble :: "byte \<Rightarrow> IpcError + byte" where
  "hex_nibble b =
     (if 0x30 \<le> b \<and> b \<le> 0x39 then Inr (b - 0x30)
      else if 0x61 \<le> b \<and> b \<le> 0x66 then Inr (b - 0x61 + 10)
      else if 0x41 \<le> b \<and> b \<le> 0x46 then Inr (b - 0x41 + 10)
      else Inl bad_hex)"

text \<open>The loop over the output slots, one index at a time.\<close>

fun hex_slots :: "bytes \<Rightarrow> nat list \<Rightarrow> IpcError + bytes" where
  "hex_slots bs [] = Inr []"
| "hex_slots bs (i # is) =
     and_then (hex_nibble (bs ! (i * 2))) (\<lambda>hi.
     and_then (hex_nibble (bs ! (i * 2 + 1))) (\<lambda>lo.
     and_then (hex_slots bs is) (\<lambda>rest. Inr ((push_bit 4 hi OR lo) # rest))))"

definition from_hex :: "string \<Rightarrow> IpcError + SessionToken" where
  "from_hex hex =
     (let bs = bytes_of hex in
      if length bs \<noteq> SESSION_TOKEN_LEN * 2 then Inl bad_hex
      else hex_slots bs [0..<SESSION_TOKEN_LEN])"

definition HEX :: string where "HEX = ''0123456789abcdef''"

definition hex_pair :: "byte \<Rightarrow> string" where
  "hex_pair b = [HEX ! unat (drop_bit 4 b), HEX ! unat (b AND 0x0F)]"

definition to_hex :: "SessionToken \<Rightarrow> string" where
  "to_hex t = concat (map hex_pair t)"

definition try_from_slice :: "bytes \<Rightarrow> IpcError + SessionToken" where
  "try_from_slice bs =
     (if length bs = SESSION_TOKEN_LEN then Inr bs
      else Inl (HelloAuth ''HELLO payload must be a 32-byte session token''))"

definition bad_link :: IpcError where
  "bad_link = HelloAuth ''KELD_APP_LINK must be <endpoint>#<64 hex chars>''"

definition parse_app_link :: "string \<Rightarrow> IpcError + (string \<times> SessionToken)" where
  "parse_app_link link =
     (case rsplit_once CHR ''#'' link of
        None \<Rightarrow> Inl bad_link
      | Some (endpoint, hex) \<Rightarrow>
          if endpoint = [] then Inl bad_link
          else and_then (from_hex hex) (\<lambda>token. Inr (endpoint, token)))"

definition format_app_link :: "string \<Rightarrow> SessionToken \<Rightarrow> string" where
  "format_app_link endpoint token = endpoint @ [CHR ''#''] @ to_hex token"

section \<open>Constant-time comparison\<close>

lemma xor_zero_iff: "(a :: byte) XOR b = 0 \<longleftrightarrow> a = b"
  by (metis xor.left_neutral xor.assoc xor_self_eq)

lemma fold_xor_or_zero:
  "fold (\<lambda>(left, right) diff. diff OR (left XOR right)) ps d = (0::byte)
     \<longleftrightarrow> d = 0 \<and> list_all (\<lambda>(l, r). l = r) ps"
proof (induction ps arbitrary: d)
  case (Cons p ps)
  then show ?case by (cases p) (simp add: or_eq_0_iff xor_zero_iff)
qed simp

lemma token_eq_iff: "length a = length b \<Longrightarrow> token_eq a b \<longleftrightarrow> a = b"
  unfolding token_eq_def fold_xor_or_zero
  by (induction a b rule: list_induct2) auto

section \<open>Hexadecimal text\<close>

text \<open>Facts about all bytes are checked one byte at a time.\<close>

lemma all_bytes: "list_all P (map of_nat [0..<256]) \<Longrightarrow> P (b :: byte)"
proof -
  assume all: "list_all P (map (of_nat :: nat \<Rightarrow> byte) [0..<256])"
  have "b = of_nat (unat b)" by simp
  moreover have "unat b < 256" using unsigned_less [of b] by simp
  ultimately show "P b" using all by (metis (no_types, lifting) atLeastLessThan_iff
      image_eqI list.pred_set list.set_map set_upt zero_le)
qed

definition is_upper_hex :: "char \<Rightarrow> bool" where
  "is_upper_hex c = (0x41 \<le> byte_of c \<and> byte_of c \<le> 0x46)"

lemma hex_nibble_inverse:
  "hex_nibble b = Inr n \<Longrightarrow> n < 16 \<and> (0x41 \<le> b \<and> b \<le> 0x46 \<or> byte_of (HEX ! unat n) = b)"
proof -
  have "(case hex_nibble b of Inl _ \<Rightarrow> True | Inr n \<Rightarrow>
      n < 16 \<and> (0x41 \<le> b \<and> b \<le> 0x46 \<or> byte_of (HEX ! unat n) = b))"
    by (rule all_bytes) code_simp
  then show "hex_nibble b = Inr n \<Longrightarrow> ?thesis" by simp
qed

lemma nibble_mask: "(0x0F :: byte) = mask 4"
  by (simp add: mask_eq_exp_minus_1)

lemma nibble_bound: "unat (drop_bit 4 (b :: byte)) < 16" "unat (b AND 0x0F) < 16"
proof -
  show "unat (drop_bit 4 b) < 16"
  proof -
    have "unat b < 256" using unsigned_less [of b, where 'a = nat] by simp
    then show ?thesis by (simp add: drop_bit_eq_div unat_div)
  qed
  show "unat (b AND 0x0F) < 16"
    by (simp add: nibble_mask flip: take_bit_eq_mask) (simp add: take_bit_eq_mod unat_mod)
qed

lemma hex_nibble_HEX: "n < 16 \<Longrightarrow> hex_nibble (byte_of (HEX ! n)) = Inr (of_nat n)"
proof -
  have "list_all (\<lambda>n. hex_nibble (byte_of (HEX ! n)) = Inr (of_nat n)) [0..<16]" by code_simp
  then show "n < 16 \<Longrightarrow> ?thesis" by (simp add: list_all_iff)
qed

lemma hex_pair_nibbles:
  "hex_nibble (byte_of (HEX ! unat (drop_bit 4 b))) = Inr (drop_bit 4 b)"
  "hex_nibble (byte_of (HEX ! unat (b AND 0x0F))) = Inr (b AND 0x0F)"
  "push_bit 4 (drop_bit 4 b) OR (b AND 0x0F) = b"
proof -
  show "push_bit 4 (drop_bit 4 b) OR (b AND 0x0F) = b"
    unfolding nibble_mask by (rule bit_word_eqI) (auto simp: bit_simps)
qed (simp_all add: hex_nibble_HEX nibble_bound)

lemma nibble_parts:
  assumes "hi < 16" "lo < (16::byte)"
  shows "drop_bit 4 (push_bit 4 hi OR lo) = hi" "(push_bit 4 hi OR lo) AND 0x0F = lo"
proof -
  have "hi = take_bit 4 hi" "lo = take_bit 4 lo"
    using assms
    by (simp_all add: take_bit_eq_mod word_unat_eq_iff unat_mod word_less_nat_alt)
  then have "\<And>n. bit hi n \<Longrightarrow> n < 4" "\<And>n. bit lo n \<Longrightarrow> n < 4"
    by (metis bit_take_bit_iff)+
  then show "drop_bit 4 (push_bit 4 hi OR lo) = hi" "(push_bit 4 hi OR lo) AND 0x0F = lo"
    unfolding nibble_mask by (auto intro!: bit_word_eqI simp: bit_simps) force+
qed

lemma bytes_of_to_hex_Cons:
  "bytes_of (to_hex (t # ts)) =
     byte_of (HEX ! unat (drop_bit 4 t)) # byte_of (HEX ! unat (t AND 0x0F)) # bytes_of (to_hex ts)"
  by (simp add: bytes_of_def to_hex_def hex_pair_def)

lemma length_to_hex [simp]: "length (to_hex t) = 2 * length t"
  by (induction t) (simp_all add: to_hex_def hex_pair_def)

lemma drop_Suc_tl: "drop k xs = y # ys \<Longrightarrow> drop (Suc k) xs = ys"
  by (metis drop_Suc list.sel(3) tl_drop)

lemma hex_slots_to_hex:
  "drop (2 * k) bs = bytes_of (to_hex t) \<Longrightarrow> hex_slots bs [k..<k + length t] = Inr t"
proof (induction t arbitrary: k)
  case (Cons b t)
  then have front: "drop (2 * k) bs = byte_of (HEX ! unat (drop_bit 4 b))
      # byte_of (HEX ! unat (b AND 0x0F)) # bytes_of (to_hex t)"
    by (simp add: bytes_of_to_hex_Cons)
  have nths: "bs ! (k * 2) = byte_of (HEX ! unat (drop_bit 4 b))"
      "bs ! (k * 2 + 1) = byte_of (HEX ! unat (b AND 0x0F))"
    using nth_via_drop [OF front] nth_via_drop [of "Suc (2 * k)", OF drop_Suc_tl [OF front]]
    by (simp_all add: mult.commute)
  have "drop (2 * Suc k) bs = bytes_of (to_hex t)"
    using drop_Suc_tl [OF drop_Suc_tl [OF front]] by simp
  then have "hex_slots bs [Suc k..<Suc k + length t] = Inr t" by (rule Cons.IH)
  moreover have "[k..<k + length (b # t)] = k # [Suc k..<Suc k + length t]"
    by (simp add: upt_conv_Cons del: upt_Suc)
  ultimately show ?case using nths by (simp add: hex_pair_nibbles)
qed simp

lemma hex_slots_inverse:
  assumes "hex_slots bs [k..<k + n] = Inr t" and "2 * (k + n) \<le> length bs"
    and "\<forall>b\<in>set bs. \<not> (0x41 \<le> b \<and> b \<le> 0x46)"
  shows "length t = n \<and> bytes_of (to_hex t) = take (2 * n) (drop (2 * k) bs)"
  using assms(1,2)
proof (induction n arbitrary: k t)
  case 0
  then show ?case by (auto simp: to_hex_def bytes_of_def)
next
  case (Suc n)
  have "[k..<k + Suc n] = k # [Suc k..<Suc k + n]" by (simp add: upt_conv_Cons del: upt_Suc)
  with Suc.prems(1) obtain hi lo ts where
    hi: "hex_nibble (bs ! (k * 2)) = Inr hi" and lo: "hex_nibble (bs ! (k * 2 + 1)) = Inr lo"
    and ts: "hex_slots bs [Suc k..<Suc k + n] = Inr ts" and t: "t = (push_bit 4 hi OR lo) # ts"
    by (auto simp: result_simps simp del: upt_Suc)
  have IH: "length ts = n \<and> bytes_of (to_hex ts) = take (2 * n) (drop (2 * Suc k) bs)"
    using Suc.IH [OF ts] Suc.prems(2) by simp
  have in_bs: "bs ! (k * 2) \<in> set bs" "bs ! (k * 2 + 1) \<in> set bs"
    using Suc.prems(2) by (auto intro: nth_mem)
  have parts: "hi < 16" "lo < 16" "byte_of (HEX ! unat hi) = bs ! (k * 2)"
      "byte_of (HEX ! unat lo) = bs ! (k * 2 + 1)"
    using hex_nibble_inverse [OF hi] hex_nibble_inverse [OF lo] in_bs assms(3) by auto
  have "drop (2 * k) bs = bs ! (k * 2) # bs ! (k * 2 + 1) # drop (2 * Suc k) bs"
    using Suc.prems(2) by (simp add: Cons_nth_drop_Suc mult.commute)
  moreover have "bytes_of (to_hex t) = bs ! (k * 2) # bs ! (k * 2 + 1) # bytes_of (to_hex ts)"
    unfolding t bytes_of_to_hex_Cons nibble_parts [OF parts(1,2)] using parts(3,4) by simp
  ultimately show ?case using IH t by simp
qed

definition lower_hex_text :: "string \<Rightarrow> bool" where
  "lower_hex_text s = list_all (\<lambda>c. \<not> is_upper_hex c) s"

lemma to_hex_chars: "c \<in> set (to_hex t) \<Longrightarrow> c \<in> set HEX"
proof -
  have "length HEX = 16" by (simp add: HEX_def)
  then have "set (hex_pair b) \<subseteq> set HEX" for b
    using nibble_bound [of b] by (simp add: hex_pair_def)
  then show "c \<in> set (to_hex t) \<Longrightarrow> c \<in> set HEX" by (auto simp: to_hex_def)
qed

lemma HEX_chars: "c \<in> set HEX \<Longrightarrow> \<not> is_upper_hex c \<and> c \<noteq> CHR ''#''"
proof -
  have "list_all (\<lambda>c. \<not> is_upper_hex c \<and> c \<noteq> CHR ''#'') HEX" by code_simp
  then show "c \<in> set HEX \<Longrightarrow> ?thesis" by (simp add: list_all_iff)
qed

interpretation token_hex: byte_codec to_hex from_hex token_wf lower_hex_text
proof unfold_locales
  show "lower_hex_text (to_hex t)" for t
    using to_hex_chars HEX_chars by (auto simp: lower_hex_text_def list_all_iff)
  show "from_hex (to_hex t) = Inr t" if "token_wf t" for t
    using that hex_slots_to_hex [of 0 "bytes_of (to_hex t)" t]
    by (simp add: from_hex_def token_wf_def bytes_of_def)
next
  fix s t assume lower: "lower_hex_text s" and ok: "from_hex s = Inr t"
  have len: "length s = 2 * SESSION_TOKEN_LEN"
    and slots: "hex_slots (bytes_of s) [0..<0 + SESSION_TOKEN_LEN] = Inr t"
    using ok by (auto simp: from_hex_def Let_def bytes_of_def split: if_splits)
  have "\<forall>b\<in>set (bytes_of s). \<not> (0x41 \<le> b \<and> b \<le> 0x46)"
    using lower by (auto simp: lower_hex_text_def list_all_iff is_upper_hex_def bytes_of_def)
  from hex_slots_inverse [OF slots _ this] len
  have "length t = SESSION_TOKEN_LEN \<and> bytes_of (to_hex t) = bytes_of s"
    by (simp add: bytes_of_def)
  then show "token_wf t" "to_hex t = s" by (simp_all add: token_wf_def)
qed

section \<open>Properties\<close>

text \<open>
  A bootstrap link survives formatting and parsing, whatever characters the endpoint
  holds (a further \<open>#\<close> included): the parsed endpoint and token are the formatted ones.
  Conversely a text parses to a pair only if it is the nonempty endpoint, \<open>#\<close> and 64
  hexadecimal digits of that token; with lowercase digits it is the formatted text itself.
\<close>

theorem app_link_roundtrip:
  assumes "token_wf token" "endpoint \<noteq> []"
  shows "parse_app_link (format_app_link endpoint token) = Inr (endpoint, token)
    \<and> (parse_app_link link = Inr (endpoint, token) \<longleftrightarrow>
        (\<exists>hex. link = endpoint @ CHR ''#'' # hex \<and> CHR ''#'' \<notin> set hex \<and> from_hex hex = Inr token))
    \<and> (lower_hex_text link \<and> parse_app_link link = Inr (endpoint, token)
        \<longrightarrow> link = format_app_link endpoint token)"
proof -
  have sharp: "CHR ''#'' \<notin> set (to_hex token)" using to_hex_chars HEX_chars by blast
  have iff: "parse_app_link link = Inr (endpoint, token) \<longleftrightarrow>
      (\<exists>hex. link = endpoint @ CHR ''#'' # hex \<and> CHR ''#'' \<notin> set hex \<and> from_hex hex = Inr token)"
    for link
  proof -
    have "parse_app_link link = Inr (endpoint, token) \<longleftrightarrow>
        (\<exists>hex. rsplit_once CHR ''#'' link = Some (endpoint, hex) \<and> from_hex hex = Inr token)"
      using assms(2)
      by (auto simp: parse_app_link_def result_simps split: option.splits if_splits)
    then show ?thesis by (simp add: rsplit_once_Some)
  qed
  have "parse_app_link (format_app_link endpoint token) = Inr (endpoint, token)"
    using sharp token_hex.dec_enc [OF assms(1)] by (simp add: iff format_app_link_def)
  moreover have "link = format_app_link endpoint token"
    if "lower_hex_text link" "parse_app_link link = Inr (endpoint, token)"
    using that token_hex.enc_dec unfolding iff by (auto simp: format_app_link_def lower_hex_text_def)
  ultimately show ?thesis using iff by blast
qed

theorem app_link_roundtrip_witness:
  "parse_app_link (format_app_link ''/tmp/a#b'' (replicate 32 0xA5)) = Inr (''/tmp/a#b'', replicate 32 0xA5)"
  using app_link_roundtrip [of "replicate 32 0xA5" "''/tmp/a#b''"]
  by (simp add: token_wf_def SESSION_TOKEN_LEN_def)

end
