(* ===== verification/Kipc_Receive.thy ===== *)
theory Kipc_Receive
  imports Kipc_Channel_Table Kipc_Token
begin

text \<open>
  Receive policies (\<open>crates/keld-ipc/src/receive.rs\<close>): the semantic contract a host selects
  for one receiver, its named constructors, the header validator with its fixed rule order,
  the primary app-link validator, and absolute deadlines. A validated header is the header
  itself; the validator is the only way to obtain one. The locale \<open>frame_admission\<close> is what
  the stream readers rely on, interpreted here on both validators.
\<close>

section \<open>Data\<close>

datatype Direction = FromClient | FromServer

datatype SessionPhase = PreAuth | Authenticated

datatype PayloadMode = ExactLen u32 | EmptyPayload | CodecPayload

datatype ExpectedCorrelation = Zero | NonZero | Exactly CorrelationId

text \<open>\<open>AllowedKinds\<close> is a bit mask indexed by the kind byte.\<close>

type_synonym AllowedKinds = u16

definition kind_bit :: "FrameKind \<Rightarrow> u16" where
  "kind_bit k = push_bit (unat (kind_as_u8 k)) 1"

definition only :: "FrameKind \<Rightarrow> AllowedKinds" where "only k = kind_bit k"

definition with_kind :: "AllowedKinds \<Rightarrow> FrameKind \<Rightarrow> AllowedKinds" where
  "with_kind s k = s OR kind_bit k"

definition kinds_contain :: "AllowedKinds \<Rightarrow> FrameKind \<Rightarrow> bool" where
  "kinds_contain s k = (s AND kind_bit k \<noteq> 0)"

record ReceivePolicy =
  rp_direction :: Direction
  rp_phase :: SessionPhase
  rp_channel :: ChannelId
  rp_payload :: PayloadMode
  rp_expected_corr :: ExpectedCorrelation
  rp_kinds :: AllowedKinds
  rp_allow_ping :: bool
  rp_also_channel :: "ChannelId option"

definition SESSION_TOKEN_WIRE_LEN :: u32 where
  "SESSION_TOKEN_WIRE_LEN = of_nat SESSION_TOKEN_LEN"

definition STRUCTURED_FLAGS_MASK :: u16 where "STRUCTURED_FLAGS_MASK = 0"

definition ECHO_CHANNEL :: ChannelId where "ECHO_CHANNEL = ce_id ECHO"
definition LIFECYCLE_CHANNEL :: ChannelId where "LIFECYCLE_CHANNEL = ce_id LIFECYCLE"

section \<open>Named policies\<close>

definition hello :: "Direction \<Rightarrow> ReceivePolicy" where
  "hello direction =
     \<lparr> rp_direction = direction, rp_phase = PreAuth, rp_channel = HANDSHAKE_CHANNEL,
       rp_payload = ExactLen SESSION_TOKEN_WIRE_LEN, rp_expected_corr = Zero,
       rp_kinds = only Hello, rp_allow_ping = False, rp_also_channel = None \<rparr>"

definition server_pre_auth_hello :: ReceivePolicy where
  "server_pre_auth_hello = hello FromClient"

definition client_await_hello :: ReceivePolicy where
  "client_await_hello = hello FromServer"

definition echo_receiver :: ReceivePolicy where
  "echo_receiver =
     \<lparr> rp_direction = FromClient, rp_phase = Authenticated, rp_channel = ECHO_CHANNEL,
       rp_payload = CodecPayload, rp_expected_corr = NonZero, rp_kinds = only Call,
       rp_allow_ping = True, rp_also_channel = None \<rparr>"

definition echo_reply_waiter :: "CorrelationId \<Rightarrow> ReceivePolicy" where
  "echo_reply_waiter corr =
     \<lparr> rp_direction = FromServer, rp_phase = Authenticated, rp_channel = ECHO_CHANNEL,
       rp_payload = CodecPayload, rp_expected_corr = Exactly corr, rp_kinds = only Reply,
       rp_allow_ping = False, rp_also_channel = None \<rparr>"

definition lifecycle_receiver :: ReceivePolicy where
  "lifecycle_receiver =
     \<lparr> rp_direction = FromClient, rp_phase = Authenticated, rp_channel = LIFECYCLE_CHANNEL,
       rp_payload = CodecPayload, rp_expected_corr = NonZero, rp_kinds = only Call,
       rp_allow_ping = True, rp_also_channel = None \<rparr>"

definition window_receiver :: ReceivePolicy where
  "window_receiver = lifecycle_receiver\<lparr> rp_channel := ce_id WINDOW \<rparr>"

definition primary_app_receiver :: ReceivePolicy where
  "primary_app_receiver =
     \<lparr> rp_direction = FromClient, rp_phase = Authenticated, rp_channel = ECHO_CHANNEL,
       rp_payload = CodecPayload, rp_expected_corr = NonZero, rp_kinds = only Call,
       rp_allow_ping = True, rp_also_channel = Some LIFECYCLE_CHANNEL \<rparr>"

definition primary_echo_reply_waiter :: "CorrelationId \<Rightarrow> ReceivePolicy" where
  "primary_echo_reply_waiter corr =
     \<lparr> rp_direction = FromClient, rp_phase = Authenticated, rp_channel = ECHO_CHANNEL,
       rp_payload = CodecPayload, rp_expected_corr = Exactly corr,
       rp_kinds = with_kind (only Reply) Err, rp_allow_ping = False, rp_also_channel = None \<rparr>"

definition event_receiver_on :: "ChannelId \<Rightarrow> ReceivePolicy" where
  "event_receiver_on channel =
     \<lparr> rp_direction = FromServer, rp_phase = Authenticated, rp_channel = channel,
       rp_payload = CodecPayload, rp_expected_corr = Zero, rp_kinds = only Event,
       rp_allow_ping = True, rp_also_channel = None \<rparr>"

definition lifecycle_event_receiver :: ReceivePolicy where
  "lifecycle_event_receiver = event_receiver_on LIFECYCLE_CHANNEL"

definition event_receiver :: "ChannelEntry \<Rightarrow> IpcError + ReceivePolicy" where
  "event_receiver e =
     (if \<not> carries_host_events (ce_class e) then Inl (Protocol ''channel carries no host EVENTs'')
      else Inr (event_receiver_on (ce_id e)))"

definition reply_waiter_on :: "ChannelId \<Rightarrow> CorrelationId \<Rightarrow> ReceivePolicy" where
  "reply_waiter_on channel corr =
     \<lparr> rp_direction = FromServer, rp_phase = Authenticated, rp_channel = channel,
       rp_payload = CodecPayload, rp_expected_corr = Exactly corr,
       rp_kinds = with_kind (only Reply) Err, rp_allow_ping = False, rp_also_channel = None \<rparr>"

definition lifecycle_reply_waiter :: "CorrelationId \<Rightarrow> ReceivePolicy" where
  "lifecycle_reply_waiter corr = reply_waiter_on LIFECYCLE_CHANNEL corr"

definition reply_waiter :: "ChannelEntry \<Rightarrow> CorrelationId \<Rightarrow> IpcError + ReceivePolicy" where
  "reply_waiter e corr =
     (if ce_id e = ce_id ECHO
      then Inl (Protocol ''echo replies use the REPLY-only echo reply waiter'')
      else Inr (reply_waiter_on (ce_id e) corr))"

definition privileged_call_receiver :: "ChannelEntry \<Rightarrow> IpcError + ReceivePolicy" where
  "privileged_call_receiver e =
     (if ce_class e \<noteq> GuardedCall
      then Inl (Protocol ''channel class does not admit this policy'')
      else Inr
        \<lparr> rp_direction = FromClient, rp_phase = Authenticated, rp_channel = ce_id e,
          rp_payload = CodecPayload, rp_expected_corr = NonZero, rp_kinds = only Call,
          rp_allow_ping = False, rp_also_channel = None \<rparr>)"

section \<open>Validation\<close>

text \<open>A validated header exposes the fields of the header it wraps.\<close>

type_synonym ValidatedFrameHeader = FrameHeader

definition validate_corr :: "ExpectedCorrelation \<Rightarrow> CorrelationId \<Rightarrow> IpcError + unit" where
  "validate_corr expected corr =
     (case expected of
        Zero \<Rightarrow> if corr \<noteq> 0 then Inl (Protocol ''correlation must be 0 for this frame'') else Inr ()
      | NonZero \<Rightarrow> if corr = 0 then Inl (Protocol ''correlation 0 is reserved'') else Inr ()
      | Exactly e \<Rightarrow>
          if corr \<noteq> e then Inl (Protocol ''correlation does not match the awaited call'')
          else Inr ())"

definition validate_payload :: "PayloadMode \<Rightarrow> u32 \<Rightarrow> IpcError + unit" where
  "validate_payload mode len =
     (case mode of
        ExactLen e \<Rightarrow>
          if len \<noteq> e then Inl (Protocol ''payload length does not match the declared exact shape'')
          else Inr ()
      | EmptyPayload \<Rightarrow>
          if len \<noteq> 0 then Inl (Protocol ''payload must be empty for this frame'') else Inr ()
      | CodecPayload \<Rightarrow> Inr ())"

definition validate_received_header :: "ReceivePolicy \<Rightarrow> FrameHeader \<Rightarrow> IpcError + ValidatedFrameHeader" where
  "validate_received_header policy header =
     (if rp_allow_ping policy \<and> fh_kind header = Ping then
        (if fh_flags header AND NOT STRUCTURED_FLAGS_MASK \<noteq> 0
           then Inl (Protocol ''PING flags must be 0'')
         else if fh_len header \<noteq> 0 then Inl (Protocol ''PING payload must be empty'')
         else Inr header)
      else if \<not> kinds_contain (rp_kinds policy) (fh_kind header)
        then Inl (Protocol ''frame kind is not declared by the session policy'')
      else if fh_flags header AND FLAG_RAW \<noteq> 0
        then Inl (Protocol ''FLAG_RAW is invalid for a structured session'')
      else if fh_flags header AND NOT STRUCTURED_FLAGS_MASK \<noteq> 0
        then Inl (Protocol ''unknown flag bits are reserved'')
      else if \<not> (fh_channel header = rp_channel policy
                 \<or> (case rp_also_channel policy of None \<Rightarrow> False
                    | Some also_ch \<Rightarrow> fh_channel header = also_ch))
        then Inl (Protocol ''wrong channel for the session policy'')
      else and_then (validate_corr (rp_expected_corr policy) (fh_corr header)) (\<lambda>_.
           and_then (validate_payload (rp_payload policy) (fh_len header)) (\<lambda>_. Inr header)))"

definition validate_primary_app_header_with_privileged_calls ::
  "CorrelationId option \<Rightarrow> ChannelEntry list \<Rightarrow> FrameHeader \<Rightarrow> IpcError + ValidatedFrameHeader" where
  "validate_primary_app_header_with_privileged_calls pending_echo_reply privileged_calls header =
     (case fh_kind header of
        Reply \<Rightarrow> (case pending_echo_reply of
            None \<Rightarrow> Inl (Protocol ''frame kind is not declared by the session policy'')
          | Some corr \<Rightarrow> validate_received_header (primary_echo_reply_waiter corr) header)
      | Err \<Rightarrow> (case pending_echo_reply of
            None \<Rightarrow> Inl (Protocol ''frame kind is not declared by the session policy'')
          | Some corr \<Rightarrow> validate_received_header (primary_echo_reply_waiter corr) header)
      | Call \<Rightarrow>
          if fh_channel header = ce_id WINDOW
            then validate_received_header window_receiver header
          else (case find (\<lambda>e. fh_channel header = ce_id e) privileged_calls of
              Some e \<Rightarrow> and_then (privileged_call_receiver e) (\<lambda>p. validate_received_header p header)
            | None \<Rightarrow> validate_received_header primary_app_receiver header)
      | _ \<Rightarrow> validate_received_header primary_app_receiver header)"

definition validate_primary_app_header_with_privileged_call ::
  "CorrelationId option \<Rightarrow> ChannelEntry option \<Rightarrow> FrameHeader \<Rightarrow> IpcError + ValidatedFrameHeader" where
  "validate_primary_app_header_with_privileged_call pending_echo_reply privileged_call header =
     (case privileged_call of
        Some e \<Rightarrow> validate_primary_app_header_with_privileged_calls pending_echo_reply [e] header
      | None \<Rightarrow> validate_primary_app_header_with_privileged_calls pending_echo_reply [] header)"

definition validate_primary_app_header ::
  "CorrelationId option \<Rightarrow> FrameHeader \<Rightarrow> IpcError + ValidatedFrameHeader" where
  "validate_primary_app_header pending_echo_reply header =
     validate_primary_app_header_with_privileged_call pending_echo_reply None header"

section \<open>Absolute deadlines\<close>

text \<open>
  An \<open>Instant\<close> is a number of ticks of the monotonic clock; the clock reading \<open>now\<close> and the
  largest representable instant \<open>latest\<close> are arguments.
\<close>

type_synonym Instant = nat
type_synonym Duration = nat

definition instant_checked_add :: "Instant \<Rightarrow> Instant \<Rightarrow> Duration \<Rightarrow> Instant option" where
  "instant_checked_add latest now duration =
     (if now + duration \<le> latest then Some (now + duration) else None)"

definition from_now :: "Instant \<Rightarrow> Instant \<Rightarrow> Duration \<Rightarrow> IpcError + Instant" where
  "from_now latest now duration =
     (case instant_checked_add latest now duration of Some i \<Rightarrow> Inr i | None \<Rightarrow> Inl Timeout)"

definition earliest :: "Instant \<Rightarrow> Instant \<Rightarrow> Instant" where "earliest a b = min a b"

definition expired :: "Instant \<Rightarrow> Instant \<Rightarrow> bool" where "expired now d = (d \<le> now)"

definition remaining :: "Instant \<Rightarrow> Instant \<Rightarrow> Duration option" where
  "remaining now d = (if d \<le> now then None else Some (d - now))"

section \<open>The rule table\<close>

text \<open>
  The semantic table of a policy as a list of rules in the contractual order kind, flags,
  channel, correlation, declared length; each rule names the detail of its refusal.
\<close>

definition kind_rule :: "ReceivePolicy \<Rightarrow> FrameHeader \<Rightarrow> bool" where
  "kind_rule p h = kinds_contain (rp_kinds p) (fh_kind h)"

definition channel_rule :: "ReceivePolicy \<Rightarrow> FrameHeader \<Rightarrow> bool" where
  "channel_rule p h = (fh_channel h = rp_channel p \<or> rp_also_channel p = Some (fh_channel h))"

fun corr_rule :: "ExpectedCorrelation \<Rightarrow> CorrelationId \<Rightarrow> bool \<times> string" where
  "corr_rule Zero c = (c = 0, ''correlation must be 0 for this frame'')"
| "corr_rule NonZero c = (c \<noteq> 0, ''correlation 0 is reserved'')"
| "corr_rule (Exactly e) c = (c = e, ''correlation does not match the awaited call'')"

fun len_rule :: "PayloadMode \<Rightarrow> u32 \<Rightarrow> bool \<times> string" where
  "len_rule (ExactLen e) n = (n = e, ''payload length does not match the declared exact shape'')"
| "len_rule EmptyPayload n = (n = 0, ''payload must be empty for this frame'')"
| "len_rule CodecPayload n = (True, [])"

definition header_rules :: "ReceivePolicy \<Rightarrow> FrameHeader \<Rightarrow> (bool \<times> string) list" where
  "header_rules p h =
     (if rp_allow_ping p \<and> fh_kind h = Ping then
        [(fh_flags h = 0, ''PING flags must be 0''), (fh_len h = 0, ''PING payload must be empty'')]
      else
        [(kind_rule p h, ''frame kind is not declared by the session policy''),
         (\<not> bit (fh_flags h) 0, ''FLAG_RAW is invalid for a structured session''),
         (fh_flags h = 0, ''unknown flag bits are reserved''),
         (channel_rule p h, ''wrong channel for the session policy''),
         corr_rule (rp_expected_corr p) (fh_corr h),
         len_rule (rp_payload p) (fh_len h)])"

fun first_violation :: "(bool \<times> string) list \<Rightarrow> string option" where
  "first_violation [] = None"
| "first_violation ((ok, detail) # rules) = (if ok then first_violation rules else Some detail)"

definition admissible :: "ReceivePolicy \<Rightarrow> FrameHeader \<Rightarrow> bool" where
  "admissible p h = list_all fst (header_rules p h)"

lemma first_violation_None: "first_violation rules = None \<longleftrightarrow> list_all fst rules"
  by (induction rules rule: first_violation.induct) auto

lemma kind_bit_and: "kind_bit k AND kind_bit j \<noteq> 0 \<longleftrightarrow> k = j"
proof
  show "kind_bit k AND kind_bit j \<noteq> 0 \<Longrightarrow> k = j"
    by (cases k; cases j) (simp_all add: kind_bit_def)
qed (cases k; simp add: kind_bit_def)

lemma kinds_contain_only [simp]: "kinds_contain (only k) j \<longleftrightarrow> k = j"
  by (simp add: kinds_contain_def only_def kind_bit_and)

lemma kinds_contain_with [simp]: "kinds_contain (with_kind s k) j \<longleftrightarrow> kinds_contain s j \<or> k = j"
  using kind_bit_and [of k j]
  by (auto simp: kinds_contain_def with_kind_def or_eq_0_iff bit.conj_disj_distrib2)

lemma flags_raw: "(f :: u16) AND FLAG_RAW \<noteq> 0 \<longleftrightarrow> bit f 0"
  by (simp add: FLAG_RAW_def and_one_eq odd_iff_mod_2_eq_one bit_0)

lemma flags_mask: "(f :: u16) AND NOT STRUCTURED_FLAGS_MASK = f"
  by (simp add: STRUCTURED_FLAGS_MASK_def)

lemma first_violation_Cons:
  "first_violation (r # rs) = (if fst r then first_violation rs else Some (snd r))"
  by (cases r) simp

lemma validate_corr_rule:
  "validate_corr e c = (if fst (corr_rule e c) then Inr () else Inl (Protocol (snd (corr_rule e c))))"
  by (cases e) (simp_all add: validate_corr_def)

lemma validate_payload_rule:
  "validate_payload m n = (if fst (len_rule m n) then Inr () else Inl (Protocol (snd (len_rule m n))))"
  by (cases m) (simp_all add: validate_payload_def)

lemma channel_rule_case:
  "(fh_channel h = rp_channel p
      \<or> (case rp_also_channel p of None \<Rightarrow> False | Some c \<Rightarrow> fh_channel h = c)) = channel_rule p h"
  by (auto simp: channel_rule_def split: option.splits)

lemma validate_received_header_rules:
  "validate_received_header p h =
     (case first_violation (header_rules p h) of None \<Rightarrow> Inr h | Some d \<Rightarrow> Inl (Protocol d))"
  unfolding validate_received_header_def header_rules_def flags_raw flags_mask channel_rule_case
    validate_corr_rule validate_payload_rule kind_rule_def [symmetric]
  by (simp add: first_violation_Cons del: first_violation.simps(2))

lemma validate_received_header_Inr:
  "validate_received_header p h = Inr v \<longleftrightarrow> v = h \<and> admissible p h"
  unfolding validate_received_header_rules admissible_def first_violation_None [symmetric]
  by (auto split: option.splits)

section \<open>Admission as an interface\<close>

text \<open>
  What a stream reader relies on: a validator returns the header it was given, refuses only
  with a protocol error, and admits no flag bit.
\<close>

locale frame_admission =
  fixes validate :: "FrameHeader \<Rightarrow> IpcError + ValidatedFrameHeader"
  assumes validate_same: "validate h = Inr v \<Longrightarrow> v = h"
    and validate_error: "validate h = Inl e \<Longrightarrow> \<exists>d. e = Protocol d"
    and validate_flags: "validate h = Inr v \<Longrightarrow> fh_flags v = 0"
begin

lemma validate_cases:
  obtains "validate h = Inr h" "fh_flags h = 0" | d where "validate h = Inl (Protocol d)"
  using validate_same [of h] validate_error [of h] validate_flags [of h]
  by (cases "validate h") auto

lemma refused_code: "validate h = Inl e \<Longrightarrow> ipc_code e = ''KELD-IPC-005''"
  using validate_error by fastforce

end

lemma admissible_flags: "admissible p h \<Longrightarrow> fh_flags h = 0"
  by (auto simp: admissible_def header_rules_def split: if_splits)

lemma validate_received_header_Inl: "validate_received_header p h = Inl e \<Longrightarrow> \<exists>d. e = Protocol d"
  by (auto simp: validate_received_header_rules split: option.splits)

lemma privileged_call_receiver_Inl: "privileged_call_receiver e = Inl x \<Longrightarrow> \<exists>d. x = Protocol d"
  by (auto simp: privileged_call_receiver_def split: if_splits)

lemma primary_validator_cases:
  obtains p where "validate_primary_app_header_with_privileged_calls pending priv h
      = validate_received_header p h"
  | d where "validate_primary_app_header_with_privileged_calls pending priv h = Inl (Protocol d)"
proof (cases "fh_kind h = Call \<and> fh_channel h \<noteq> ce_id WINDOW")
  case True
  show thesis
  proof (cases "find (\<lambda>e. fh_channel h = ce_id e) priv")
    case (Some e)
    with True show thesis
      using that by (cases "ce_class e = GuardedCall")
        (auto simp: validate_primary_app_header_with_privileged_calls_def privileged_call_receiver_def)
  qed (use True that in \<open>auto simp: validate_primary_app_header_with_privileged_calls_def\<close>)
next
  case False
  then show thesis
    using that
    by (cases "fh_kind h"; cases pending)
      (auto simp: validate_primary_app_header_with_privileged_calls_def)
qed

interpretation policy: frame_admission "validate_received_header p" for p
  by unfold_locales
    (auto simp: validate_received_header_Inr admissible_flags dest: validate_received_header_Inl)

interpretation primary: frame_admission
    "validate_primary_app_header_with_privileged_calls pending priv" for pending priv
proof unfold_locales
  fix h v e
  show "v = h" if "validate_primary_app_header_with_privileged_calls pending priv h = Inr v"
    using that by (cases rule: primary_validator_cases [of pending priv h])
      (auto dest: policy.validate_same)
  show "fh_flags v = 0" if "validate_primary_app_header_with_privileged_calls pending priv h = Inr v"
    using that by (cases rule: primary_validator_cases [of pending priv h])
      (auto dest: policy.validate_flags)
  show "\<exists>d. e = Protocol d" if "validate_primary_app_header_with_privileged_calls pending priv h = Inl e"
    using that by (cases rule: primary_validator_cases [of pending priv h])
      (auto dest: policy.validate_error)
qed

lemmas policy_defs = hello_def server_pre_auth_hello_def client_await_hello_def echo_receiver_def
  echo_reply_waiter_def lifecycle_receiver_def window_receiver_def primary_app_receiver_def
  primary_echo_reply_waiter_def event_receiver_on_def reply_waiter_on_def

lemmas admission_simps = admissible_def header_rules_def kind_rule_def channel_rule_def

section \<open>Properties\<close>

text \<open>
  C7. Before authentication nothing but the handshake enters: on either side of the link the
  \<open>HELLO\<close> policy admits exactly the \<open>HELLO\<close> frame on channel 0 with no flags, correlation 0 and
  a declared length of 32 bytes. After it, a reply waiter admits exactly the \<open>REPLY\<close> or
  \<open>ERR\<close> of its own call, and a privileged receiver exists exactly for guarded channels and
  admits exactly their correlated calls.
\<close>

theorem receiver_admission:
  "(validate_received_header (hello dir) h = Inr v \<longleftrightarrow>
      v = h \<and> h = \<lparr> fh_kind = Hello, fh_flags = 0, fh_channel = 0, fh_corr = 0, fh_len = 32 \<rparr>)
   \<and> (validate_received_header (reply_waiter_on ch corr) h = Inr v \<longleftrightarrow>
      v = h \<and> fh_kind h \<in> {Reply, Err} \<and> fh_flags h = 0 \<and> fh_channel h = ch \<and> fh_corr h = corr)
   \<and> (and_then (privileged_call_receiver e) (\<lambda>p. validate_received_header p h) = Inr v \<longleftrightarrow>
      v = h \<and> ce_class e = GuardedCall \<and> fh_kind h = Call \<and> fh_flags h = 0
        \<and> fh_channel h = ce_id e \<and> fh_corr h \<noteq> 0)"
proof (intro conjI)
  show "validate_received_header (hello dir) h = Inr v \<longleftrightarrow>
      v = h \<and> h = \<lparr> fh_kind = Hello, fh_flags = 0, fh_channel = 0, fh_corr = 0, fh_len = 32 \<rparr>"
    unfolding validate_received_header_Inr admission_simps
    by (cases h) (auto simp: hello_def HANDSHAKE_CHANNEL_def SESSION_TOKEN_WIRE_LEN_def
        SESSION_TOKEN_LEN_def)
  show "validate_received_header (reply_waiter_on ch corr) h = Inr v \<longleftrightarrow>
      v = h \<and> fh_kind h \<in> {Reply, Err} \<and> fh_flags h = 0 \<and> fh_channel h = ch \<and> fh_corr h = corr"
    unfolding validate_received_header_Inr admission_simps by (auto simp: reply_waiter_on_def)
  show "and_then (privileged_call_receiver e) (\<lambda>p. validate_received_header p h) = Inr v \<longleftrightarrow>
      v = h \<and> ce_class e = GuardedCall \<and> fh_kind h = Call \<and> fh_flags h = 0
        \<and> fh_channel h = ce_id e \<and> fh_corr h \<noteq> 0"
    by (auto simp: privileged_call_receiver_def validate_received_header_Inr admission_simps)
qed

text \<open>
  C6. The primary app link admits exactly: an empty \<open>PING\<close>; the \<open>REPLY\<close> or \<open>ERR\<close> on the echo
  channel whose correlation the host holds as pending; and a correlated \<open>CALL\<close> on the echo,
  lifecycle or window channel or on a guarded channel the host itself enabled. No wire byte
  opens a guarded channel: with no enabled entry no call on one is admitted.
\<close>

theorem primary_admission:
  assumes "list_all (\<lambda>e. e \<in> set CHANNEL_TABLE \<and> ce_class e = GuardedCall) priv"
  shows "validate_primary_app_header_with_privileged_calls pending priv h = Inr v \<longleftrightarrow>
    v = h \<and> fh_flags h = 0 \<and>
    (fh_kind h = Ping \<and> fh_len h = 0
     \<or> fh_kind h \<in> {Reply, Err} \<and> pending = Some (fh_corr h) \<and> fh_channel h = ce_id ECHO
     \<or> fh_kind h = Call \<and> fh_corr h \<noteq> 0
         \<and> fh_channel h \<in> {ce_id ECHO, ce_id LIFECYCLE, ce_id WINDOW} \<union> ce_id ` set priv)"
proof -
  let ?V = "validate_primary_app_header_with_privileged_calls pending priv h"
  have wf: "e \<in> set priv \<Longrightarrow> ce_class e = GuardedCall" for e
    using assms by (simp add: list_all_iff)
  consider "fh_kind h = Call" | "fh_kind h \<in> {Reply, Err}" | "fh_kind h \<notin> {Call, Reply, Err}"
    by blast
  then show ?thesis
  proof cases
    case 1
    show ?thesis
    proof (cases "find (\<lambda>e. fh_channel h = ce_id e) priv")
      case None
      then have "fh_channel h \<notin> ce_id ` set priv" by (auto simp: find_None_iff)
      with 1 None show ?thesis
        by (auto simp: validate_primary_app_header_with_privileged_calls_def
            validate_received_header_Inr admission_simps policy_defs ECHO_CHANNEL_def
            LIFECYCLE_CHANNEL_def)
    next
      case (Some e)
      from find_Some_in [OF Some] wf have "e \<in> set priv" "fh_channel h = ce_id e"
        "ce_class e = GuardedCall" by auto
      with 1 Some show ?thesis
        by (simp add: validate_primary_app_header_with_privileged_calls_def
            validate_received_header_Inr admission_simps policy_defs privileged_call_receiver_def) auto
    qed
  next
    case 2
    then show ?thesis
      by (cases pending)
        (auto simp: validate_primary_app_header_with_privileged_calls_def ECHO_CHANNEL_def
          validate_received_header_Inr admission_simps primary_echo_reply_waiter_def)
  next
    case 3
    then have "?V = validate_received_header primary_app_receiver h"
      by (auto simp: validate_primary_app_header_with_privileged_calls_def split: FrameKind.splits)
    with 3 show ?thesis
      by (auto simp: validate_received_header_Inr admission_simps primary_app_receiver_def)
  qed
qed

theorem primary_admission_witness:
  "let h = \<lparr> fh_kind = Call, fh_flags = 0, fh_channel = ce_id FS, fh_corr = 9, fh_len = 4 \<rparr> in
     validate_primary_app_header_with_privileged_calls None [FS] h = Inr h
     \<and> validate_primary_app_header_with_privileged_calls None [] h \<noteq> Inr h"
  using primary_admission [of "[FS]" None "\<lparr> fh_kind = Call, fh_flags = 0, fh_channel = ce_id FS,
      fh_corr = 9, fh_len = 4 \<rparr>"]
    primary_admission [of "[]" None "\<lparr> fh_kind = Call, fh_flags = 0, fh_channel = ce_id FS,
      fh_corr = 9, fh_len = 4 \<rparr>"]
  by (simp add: Let_def channel_table_defs)

end
