(* ===== verification/Kipc_Link.thy ===== *)
theory Kipc_Link
  imports Kipc_Receive
begin

text \<open>
  The app link (\<open>crates/keld-ipc/src/link.rs\<close>): frame readers and writers over a blocking
  byte stream, their stall, admission and idle deadlines, and the two \<open>HELLO\<close> handshakes.

  A stream is \<open>Link\<close>: the bytes the peer sends, the schedule of the environment, the outcomes
  of the write calls and the bytes written. One \<open>Tick\<close> of the schedule is one pass of a read
  loop: what \<open>stop.load\<close> and each \<open>Instant::now\<close> of that pass return and how the \<open>read\<close> call
  ends. A read that is still waiting when the schedule ends has not returned: its value is
  \<open>None\<close>. The locale \<open>exact_reader\<close> is what the frame readers rely on, interpreted on both
  loops that fill a buffer.
\<close>

section \<open>Streams\<close>

text \<open>
  \<open>Recv n\<close> returns at most \<open>n\<close> of the bytes that are left, never more than the buffer holds;
  \<open>Recv 0\<close>, or no byte left, is the end of the stream (\<open>Ok(0)\<close>).
\<close>

datatype ReadEvent = Recv nat | Fail IoError

record Tick =
  tk_stop :: bool
  tk_now_deadline :: Instant
  tk_now_stall :: Instant
  tk_read :: ReadEvent
  tk_now_read :: Instant
  tk_now_idle :: Instant

text \<open>
  The outcome of one \<open>write_all\<close> or \<open>flush\<close>: it succeeds, or fails after some bytes. Calls
  past the end of the list of outcomes succeed.
\<close>

datatype WriteEvent = Wrote | WriteFail nat IoError

record Link =
  lk_in :: bytes
  lk_ticks :: "Tick list"
  lk_writes :: "WriteEvent list"
  lk_out :: bytes

type_synonym 'a io = "Link \<Rightarrow> ((IpcError + 'a) \<times> Link) option"

definition io_return :: "'a \<Rightarrow> 'a io" where "io_return a l = Some (Inr a, l)"

definition io_lift :: "IpcError + 'a \<Rightarrow> 'a io" where "io_lift r l = Some (r, l)"

definition io_bind :: "'a io \<Rightarrow> ('a \<Rightarrow> 'b io) \<Rightarrow> 'b io" where
  "io_bind m f l =
     (case m l of
        None \<Rightarrow> None
      | Some (Inl e, l') \<Rightarrow> Some (Inl e, l')
      | Some (Inr a, l') \<Rightarrow> f a l')"

definition sock_read :: "nat \<Rightarrow> ReadEvent \<Rightarrow> bytes \<Rightarrow> (IoError + bytes) \<times> bytes" where
  "sock_read want ev inp =
     (case ev of
        Fail e \<Rightarrow> (Inl e, inp)
      | Recv n \<Rightarrow> (let m = min n (min want (length inp)) in (Inr (take m inp), drop m inp)))"

definition eof_error :: IpcError where
  "eof_error = ipc_from_io (IoError UnexpectedEof None)"

text \<open>\<open>is_some_and(|deadline| Instant::now() >= deadline)\<close>\<close>

definition passed :: "Instant option \<Rightarrow> Instant \<Rightarrow> bool" where
  "passed deadline now = (case deadline of None \<Rightarrow> False | Some d \<Rightarrow> d \<le> now)"

section \<open>Filling a buffer\<close>

text \<open>
  The clock's last instant and the stall limit are parameters of both loops. \<open>acc\<close> is the
  filled part of the buffer of length \<open>len\<close>; the result carries the started stall clock.
\<close>

definition start_stall ::
  "Instant \<Rightarrow> Duration \<Rightarrow> Instant option \<Rightarrow> Instant \<Rightarrow> IpcError + Instant option" where
  "start_stall latest stall_limit stall now =
     (case stall of
        Some d \<Rightarrow> Inr (Some d)
      | None \<Rightarrow> (case instant_checked_add latest now stall_limit of
            Some d \<Rightarrow> Inr (Some d)
          | None \<Rightarrow> Inl Timeout))"

fun fill_stalled ::
  "Instant \<Rightarrow> Duration \<Rightarrow> nat \<Rightarrow> bytes \<Rightarrow> Instant option \<Rightarrow> Tick list \<Rightarrow> bytes
    \<Rightarrow> ((IpcError + bytes \<times> Instant option) \<times> Tick list \<times> bytes) option" where
  "fill_stalled latest limit len acc stall [] inp =
     (if length acc < len then None else Some (Inr (acc, stall), [], inp))"
| "fill_stalled latest limit len acc stall (t # ts) inp =
     (if length acc < len then
        (if passed stall (tk_now_stall t) then Some (Inl Timeout, ts, inp)
         else (case sock_read (len - length acc) (tk_read t) inp of
             (Inr bs, inp') \<Rightarrow>
               if bs = [] then Some (Inl eof_error, ts, inp')
               else (case start_stall latest limit stall (tk_now_read t) of
                   Inl e \<Rightarrow> Some (Inl e, ts, inp')
                 | Inr stall' \<Rightarrow> fill_stalled latest limit len (acc @ bs) stall' ts inp')
           | (Inl e, inp') \<Rightarrow>
               if io_kind e = Interrupted then fill_stalled latest limit len acc stall ts inp'
               else Some (Inl (ipc_from_io e), ts, inp')))
      else Some (Inr (acc, stall), t # ts, inp))"

definition read_exact_stalled_with ::
  "Instant \<Rightarrow> nat \<Rightarrow> Instant option \<Rightarrow> Duration \<Rightarrow> (bytes \<times> Instant option) io" where
  "read_exact_stalled_with latest len stall stall_limit l =
     (case fill_stalled latest stall_limit len [] stall (lk_ticks l) (lk_in l) of
        None \<Rightarrow> None
      | Some (r, ts, inp) \<Rightarrow> Some (r, l\<lparr> lk_ticks := ts, lk_in := inp \<rparr>))"

text \<open>\<open>APP_LINK_IO_DEADLINE\<close> (five seconds), in milliseconds of the model's clock.\<close>

definition APP_LINK_IO_DEADLINE :: Duration where "APP_LINK_IO_DEADLINE = 5000"

definition read_exact_stalled ::
  "Instant \<Rightarrow> nat \<Rightarrow> Instant option \<Rightarrow> (bytes \<times> Instant option) io" where
  "read_exact_stalled latest len stall =
     read_exact_stalled_with latest len stall APP_LINK_IO_DEADLINE"

text \<open>
  The interruptible loop. Its first result says whether the buffer was filled; \<open>False\<close> is
  \<open>Ok(false)\<close>, the caller must only close the stream then.
\<close>

fun fill_interruptible ::
  "Instant \<Rightarrow> Instant option \<Rightarrow> Instant option \<Rightarrow> Duration \<Rightarrow> nat \<Rightarrow> bytes \<Rightarrow> Instant option
    \<Rightarrow> Tick list \<Rightarrow> bytes
    \<Rightarrow> ((IpcError + bool \<times> bytes \<times> Instant option) \<times> Tick list \<times> bytes) option" where
  "fill_interruptible latest deadline idle limit len acc stall [] inp =
     (if length acc < len then None else Some (Inr (True, acc, stall), [], inp))"
| "fill_interruptible latest deadline idle limit len acc stall (t # ts) inp =
     (if length acc < len then
        (if tk_stop t then Some (Inr (False, acc, stall), ts, inp)
         else if passed deadline (tk_now_deadline t) then Some (Inl Timeout, ts, inp)
         else if passed stall (tk_now_stall t) then Some (Inl Timeout, ts, inp)
         else (case sock_read (len - length acc) (tk_read t) inp of
             (Inr bs, inp') \<Rightarrow>
               if bs = [] then Some (Inl eof_error, ts, inp')
               else (case start_stall latest limit stall (tk_now_read t) of
                   Inl e \<Rightarrow> Some (Inl e, ts, inp')
                 | Inr stall' \<Rightarrow>
                     fill_interruptible latest deadline idle limit len (acc @ bs) stall' ts inp')
           | (Inl e, inp') \<Rightarrow>
               if io_kind e = Interrupted
                 then fill_interruptible latest deadline idle limit len acc stall ts inp'
               else if io_kind e = TimedOut \<or> io_kind e = WouldBlock then
                 (if passed stall (tk_now_read t) then Some (Inl Timeout, ts, inp')
                  else if acc = [] \<and> stall = None \<and> passed idle (tk_now_idle t)
                    then Some (Inr (False, acc, stall), ts, inp')
                  else fill_interruptible latest deadline idle limit len acc stall ts inp')
               else Some (Inl (ipc_from_io e), ts, inp')))
      else Some (Inr (True, acc, stall), t # ts, inp))"

definition read_exact_interruptible ::
  "Instant \<Rightarrow> nat \<Rightarrow> Instant option \<Rightarrow> Instant option \<Rightarrow> Instant option \<Rightarrow> Duration
    \<Rightarrow> (bool \<times> bytes \<times> Instant option) io" where
  "read_exact_interruptible latest len deadline idle_deadline stall stall_limit l =
     (case fill_interruptible latest deadline idle_deadline stall_limit len [] stall
             (lk_ticks l) (lk_in l) of
        None \<Rightarrow> None
      | Some (r, ts, inp) \<Rightarrow> Some (r, l\<lparr> lk_ticks := ts, lk_in := inp \<rparr>))"

text \<open>\<open>Read::read_exact\<close> of the standard library: no clock, interrupted reads are retried.\<close>

fun fill_plain :: "nat \<Rightarrow> bytes \<Rightarrow> Tick list \<Rightarrow> bytes
    \<Rightarrow> ((IpcError + bytes) \<times> Tick list \<times> bytes) option" where
  "fill_plain len acc [] inp = (if length acc < len then None else Some (Inr acc, [], inp))"
| "fill_plain len acc (t # ts) inp =
     (if length acc < len then
        (case sock_read (len - length acc) (tk_read t) inp of
           (Inr bs, inp') \<Rightarrow>
             if bs = [] then Some (Inl eof_error, ts, inp') else fill_plain len (acc @ bs) ts inp'
         | (Inl e, inp') \<Rightarrow>
             if io_kind e = Interrupted then fill_plain len acc ts inp'
             else Some (Inl (ipc_from_io e), ts, inp'))
      else Some (Inr acc, t # ts, inp))"

definition read_exact :: "nat \<Rightarrow> bytes io" where
  "read_exact len l =
     (case fill_plain len [] (lk_ticks l) (lk_in l) of
        None \<Rightarrow> None
      | Some (r, ts, inp) \<Rightarrow> Some (r, l\<lparr> lk_ticks := ts, lk_in := inp \<rparr>))"

section \<open>Frame readers\<close>

definition ensure_payload_len :: "nat \<Rightarrow> IpcError + unit" where
  "ensure_payload_len len = (if MAX_FRAME_LEN < len then Inl PayloadTooLarge else Inr ())"

definition read_frame :: "(FrameHeader \<times> bytes) io" where
  "read_frame =
     io_bind (read_exact HEADER_LEN) (\<lambda>header_bytes.
     io_bind (io_lift (from_header (decode header_bytes))) (\<lambda>header.
     let len = unat (fh_len header) in
     io_bind (io_lift (ensure_payload_len len)) (\<lambda>_.
     if len = 0 then io_return (header, [])
     else io_bind (read_exact len) (\<lambda>payload. io_return (header, payload)))))"

definition read_validated_frame ::
  "Instant \<Rightarrow> ReceivePolicy \<Rightarrow> (ValidatedFrameHeader \<times> bytes) io" where
  "read_validated_frame latest policy =
     io_bind (read_exact_stalled latest HEADER_LEN None) (\<lambda>(header_bytes, stall).
     io_bind (io_lift (from_header (decode header_bytes))) (\<lambda>header.
     let len = unat (fh_len header) in
     io_bind (io_lift (ensure_payload_len len)) (\<lambda>_.
     io_bind (io_lift (validate_received_header policy header)) (\<lambda>validated.
     if len = 0 then io_return (validated, [])
     else io_bind (read_exact_stalled latest len stall) (\<lambda>(payload, _).
       io_return (validated, payload))))))"

definition read_frame_interruptible_validated_with ::
  "Instant \<Rightarrow> Instant option \<Rightarrow> Instant option \<Rightarrow> Duration \<Rightarrow> (FrameHeader \<Rightarrow> IpcError + 'a)
    \<Rightarrow> ('a \<times> bytes) option io" where
  "read_frame_interruptible_validated_with latest deadline idle_deadline stall_limit validate =
     io_bind (read_exact_interruptible latest HEADER_LEN deadline idle_deadline None stall_limit)
       (\<lambda>(filled, header_bytes, stall).
     if \<not> filled then io_return None
     else
       io_bind (io_lift (from_header (decode header_bytes))) (\<lambda>header.
       let len = unat (fh_len header) in
       io_bind (io_lift (ensure_payload_len len)) (\<lambda>_.
       io_bind (io_lift (validate header)) (\<lambda>validated.
       if len = 0 then io_return (Some (validated, []))
       else io_bind (read_exact_interruptible latest len deadline None stall stall_limit)
         (\<lambda>(filled, payload, _).
         io_return (if filled then Some (validated, payload) else None))))))"

definition read_frame_interruptible_with_limits ::
  "Instant \<Rightarrow> Instant option \<Rightarrow> Duration \<Rightarrow> ReceivePolicy option \<Rightarrow> (FrameHeader \<times> bytes) option io" where
  "read_frame_interruptible_with_limits latest deadline stall_limit policy =
     read_frame_interruptible_validated_with latest deadline None stall_limit
       (\<lambda>header. case policy of
           Some p \<Rightarrow> and_then (validate_received_header p header) (\<lambda>_. Inr header)
         | None \<Rightarrow> Inr header)"

definition read_frame_interruptible :: "Instant \<Rightarrow> (FrameHeader \<times> bytes) option io" where
  "read_frame_interruptible latest =
     read_frame_interruptible_with_limits latest None APP_LINK_IO_DEADLINE None"

definition mint_validated ::
  "ReceivePolicy \<Rightarrow> (FrameHeader \<times> bytes) option \<Rightarrow> IpcError + (ValidatedFrameHeader \<times> bytes) option" where
  "mint_validated policy frame =
     (case frame of
        None \<Rightarrow> Inr None
      | Some (header, payload) \<Rightarrow>
          and_then (validate_received_header policy header) (\<lambda>v. Inr (Some (v, payload))))"

definition read_validated_frame_interruptible ::
  "Instant \<Rightarrow> ReceivePolicy \<Rightarrow> (ValidatedFrameHeader \<times> bytes) option io" where
  "read_validated_frame_interruptible latest policy =
     io_bind (read_frame_interruptible_with_limits latest None APP_LINK_IO_DEADLINE (Some policy))
       (\<lambda>frame. io_lift (mint_validated policy frame))"

definition read_validated_frame_interruptible_until ::
  "Instant \<Rightarrow> ReceivePolicy \<Rightarrow> Instant \<Rightarrow> (ValidatedFrameHeader \<times> bytes) option io" where
  "read_validated_frame_interruptible_until latest policy deadline =
     io_bind (read_frame_interruptible_with_limits latest (Some deadline) APP_LINK_IO_DEADLINE
        (Some policy))
       (\<lambda>frame. io_lift (mint_validated policy frame))"

section \<open>The primary app-link readers\<close>

text \<open>
  \<open>pending_echo_reply\<close> and \<open>admission\<close> are the host's callbacks; they are sampled once per
  frame, so here they are the values sampled.
\<close>

datatype GuardedCallAdmission = Admit | AtCapacity | RejectSession

record PrimaryAppFrame =
  pf_header :: ValidatedFrameHeader
  pf_payload :: bytes
  pf_admission :: GuardedCallAdmission

definition read_primary_app_frame_interruptible ::
  "Instant \<Rightarrow> CorrelationId option \<Rightarrow> (ValidatedFrameHeader \<times> bytes) option io" where
  "read_primary_app_frame_interruptible latest pending_echo_reply =
     read_frame_interruptible_validated_with latest None None APP_LINK_IO_DEADLINE
       (\<lambda>header. validate_primary_app_header pending_echo_reply header)"

definition admit_primary_header ::
  "CorrelationId option \<Rightarrow> ChannelEntry list \<Rightarrow> (ChannelEntry \<Rightarrow> CorrelationId \<Rightarrow> GuardedCallAdmission)
    \<Rightarrow> FrameHeader \<Rightarrow> IpcError + (ValidatedFrameHeader \<times> GuardedCallAdmission)" where
  "admit_primary_header pending_echo_reply privileged_calls admission header =
     and_then (validate_primary_app_header_with_privileged_calls pending_echo_reply
                 privileged_calls header) (\<lambda>validated.
     let outcome =
           (if fh_kind header = Call then
              (case find (\<lambda>e. fh_channel header = ce_id e) privileged_calls of
                 None \<Rightarrow> Admit
               | Some e \<Rightarrow> admission e (fh_corr header))
            else Admit)
     in if outcome = RejectSession
        then Inl (Protocol ''privileged Call is already outstanding for this session'')
        else Inr (validated, outcome))"

definition read_primary_app_frame_interruptible_with_admission ::
  "Instant \<Rightarrow> CorrelationId option \<Rightarrow> ChannelEntry list
    \<Rightarrow> (ChannelEntry \<Rightarrow> CorrelationId \<Rightarrow> GuardedCallAdmission) \<Rightarrow> PrimaryAppFrame option io" where
  "read_primary_app_frame_interruptible_with_admission latest pending privileged_calls admission =
     io_bind
       (read_frame_interruptible_validated_with latest None None APP_LINK_IO_DEADLINE
          (admit_primary_header pending privileged_calls admission))
       (\<lambda>frame. io_return (map_option (\<lambda>((header, adm), payload).
          \<lparr> pf_header = header, pf_payload = payload, pf_admission = adm \<rparr>) frame))"

definition read_primary_app_frame_interruptible_with_privileged_calls ::
  "Instant \<Rightarrow> CorrelationId option \<Rightarrow> ChannelEntry list \<Rightarrow> (ChannelEntry \<Rightarrow> CorrelationId \<Rightarrow> bool)
    \<Rightarrow> (ValidatedFrameHeader \<times> bytes) option io" where
  "read_primary_app_frame_interruptible_with_privileged_calls latest pending privileged_calls
       call_unavailable =
     io_bind
       (read_primary_app_frame_interruptible_with_admission latest pending privileged_calls
          (\<lambda>e corr. if call_unavailable e corr then RejectSession else Admit))
       (\<lambda>frame. io_return (map_option (\<lambda>f. (pf_header f, pf_payload f)) frame))"

definition read_primary_app_frame_interruptible_with_privileged_call ::
  "Instant \<Rightarrow> CorrelationId option \<Rightarrow> ChannelEntry \<Rightarrow> bool
    \<Rightarrow> (ValidatedFrameHeader \<times> bytes) option io" where
  "read_primary_app_frame_interruptible_with_privileged_call latest pending privileged_call
       pending_privileged_call =
     read_primary_app_frame_interruptible_with_privileged_calls latest pending [privileged_call]
       (\<lambda>_ _. pending_privileged_call)"

text \<open>The quit drain never observes \<open>stop\<close>: its schedule has the flag unset.\<close>

definition never_stop :: "Link \<Rightarrow> Link" where
  "never_stop l = l\<lparr> lk_ticks := map (\<lambda>t. t\<lparr> tk_stop := False \<rparr>) (lk_ticks l) \<rparr>"

definition read_quit_drain_frame_with_privileged_calls ::
  "Instant \<Rightarrow> ChannelEntry list \<Rightarrow> Instant \<Rightarrow> Instant \<Rightarrow> (ValidatedFrameHeader \<times> bytes) option io" where
  "read_quit_drain_frame_with_privileged_calls latest privileged_calls idle_deadline hard_deadline l =
     read_frame_interruptible_validated_with latest (Some hard_deadline) (Some idle_deadline)
       APP_LINK_IO_DEADLINE
       (\<lambda>header. validate_primary_app_header_with_privileged_calls None privileged_calls header)
       (never_stop l)"

definition read_quit_drain_frame ::
  "Instant \<Rightarrow> ChannelEntry option \<Rightarrow> Instant \<Rightarrow> Instant \<Rightarrow> (ValidatedFrameHeader \<times> bytes) option io" where
  "read_quit_drain_frame latest privileged_call idle_deadline hard_deadline =
     (case privileged_call of
        Some e \<Rightarrow> read_quit_drain_frame_with_privileged_calls latest [e] idle_deadline hard_deadline
      | None \<Rightarrow> read_quit_drain_frame_with_privileged_calls latest [] idle_deadline hard_deadline)"

section \<open>Writers and handshakes\<close>

definition write_all :: "bytes \<Rightarrow> unit io" where
  "write_all bs l =
     (case lk_writes l of
        [] \<Rightarrow> Some (Inr (), l\<lparr> lk_out := lk_out l @ bs \<rparr>)
      | Wrote # ws \<Rightarrow> Some (Inr (), l\<lparr> lk_out := lk_out l @ bs, lk_writes := ws \<rparr>)
      | WriteFail n e # ws \<Rightarrow>
          Some (Inl (ipc_from_io e), l\<lparr> lk_out := lk_out l @ take n bs, lk_writes := ws \<rparr>))"

definition flush :: "unit io" where
  "flush l =
     (case lk_writes l of
        [] \<Rightarrow> Some (Inr (), l)
      | Wrote # ws \<Rightarrow> Some (Inr (), l\<lparr> lk_writes := ws \<rparr>)
      | WriteFail n e # ws \<Rightarrow> Some (Inl (ipc_from_io e), l\<lparr> lk_writes := ws \<rparr>))"

definition write_frame ::
  "FrameKind \<Rightarrow> u16 \<Rightarrow> ChannelId \<Rightarrow> CorrelationId \<Rightarrow> bytes \<Rightarrow> unit io" where
  "write_frame kind flags channel corr payload =
     io_bind (io_lift (ensure_payload_len (length payload))) (\<lambda>_.
     io_bind (io_lift (if length payload < 2 ^ 32 then Inr (of_nat (length payload))
                       else Inl PayloadTooLarge)) (\<lambda>len.
     io_bind (write_all (encode \<lparr> fh_kind = kind, fh_flags = flags, fh_channel = channel,
                                  fh_corr = corr, fh_len = len \<rparr>)) (\<lambda>_.
     io_bind (if payload = [] then io_return () else write_all payload) (\<lambda>_. flush))))"

definition write_hello :: "SessionToken \<Rightarrow> unit io" where
  "write_hello token = write_frame Hello 0 HANDSHAKE_CHANNEL 0 token"

definition verify_hello_token :: "bytes \<Rightarrow> SessionToken \<Rightarrow> IpcError + unit" where
  "verify_hello_token payload token =
     and_then (try_from_slice payload) (\<lambda>peer.
     if \<not> token_eq peer token then Inl (HelloAuth ''HELLO session token mismatch'') else Inr ())"

definition read_and_verify_hello :: "Instant \<Rightarrow> SessionToken \<Rightarrow> ReceivePolicy \<Rightarrow> unit io" where
  "read_and_verify_hello latest token policy =
     io_bind (read_validated_frame latest policy) (\<lambda>(_, payload).
       io_lift (verify_hello_token payload token))"

definition handshake_client :: "Instant \<Rightarrow> SessionToken \<Rightarrow> unit io" where
  "handshake_client latest token =
     io_bind (write_hello token) (\<lambda>_. read_and_verify_hello latest token client_await_hello)"

definition handshake_server :: "Instant \<Rightarrow> SessionToken \<Rightarrow> unit io" where
  "handshake_server latest token =
     io_bind (read_and_verify_hello latest token server_pre_auth_hello) (\<lambda>_. write_hello token)"

text \<open>
  The bootstrap listener's server handshake: \<open>stop_after\<close> and \<open>now_after\<close> are the flag and
  the clock read once the peer's frame is complete.
\<close>

definition handshake_server_interruptible_until ::
  "Instant \<Rightarrow> SessionToken \<Rightarrow> Instant \<Rightarrow> bool \<Rightarrow> Instant \<Rightarrow> bool io" where
  "handshake_server_interruptible_until latest token deadline stop_after now_after =
     io_bind (read_validated_frame_interruptible_until latest server_pre_auth_hello deadline) (\<lambda>frame.
     case frame of
       None \<Rightarrow> io_return False
     | Some (_, payload) \<Rightarrow>
         if stop_after then io_return False
         else if expired now_after deadline then io_lift (Inl Timeout)
         else io_bind (io_lift (verify_hello_token payload token)) (\<lambda>_.
              io_bind (write_hello token) (\<lambda>_. io_return True)))"

text \<open>
  The two-nonce rendezvous of the Windows lifecycle pipe: the peer's authentication and the
  fresh nonce are arguments (results of the caller's callback and of the random source).
\<close>

definition read_rendezvous_hello :: "Instant \<Rightarrow> ReceivePolicy \<Rightarrow> SessionToken io" where
  "read_rendezvous_hello latest policy =
     io_bind (read_validated_frame latest policy) (\<lambda>(header, payload).
     if fh_kind header \<noteq> Hello \<or> length payload \<noteq> SESSION_TOKEN_LEN
     then io_lift (Inl (Protocol ''lifecycle rendezvous HELLO is not the exact 32-byte shape''))
     else io_return payload)"

definition handshake_server_rendezvous ::
  "Instant \<Rightarrow> IpcError + 'p \<Rightarrow> IpcError + SessionToken \<Rightarrow> (SessionToken \<times> SessionToken \<times> 'p) io" where
  "handshake_server_rendezvous latest authenticate_peer random =
     io_bind (read_rendezvous_hello latest server_pre_auth_hello) (\<lambda>client_nonce.
     io_bind (io_lift authenticate_peer) (\<lambda>peer.
     io_bind (write_hello client_nonce) (\<lambda>_.
     io_bind (io_lift random) (\<lambda>server_nonce.
     io_bind (write_hello server_nonce) (\<lambda>_.
     io_bind (read_and_verify_hello latest server_nonce server_pre_auth_hello) (\<lambda>_.
     io_return (client_nonce, server_nonce, peer)))))))"

definition handshake_client_rendezvous ::
  "Instant \<Rightarrow> IpcError + 'p \<Rightarrow> IpcError + SessionToken \<Rightarrow> (SessionToken \<times> SessionToken \<times> 'p) io" where
  "handshake_client_rendezvous latest authenticate_server random =
     io_bind (io_lift authenticate_server) (\<lambda>peer.
     io_bind (io_lift random) (\<lambda>client_nonce.
     io_bind (write_hello client_nonce) (\<lambda>_.
     io_bind (read_and_verify_hello latest client_nonce client_await_hello) (\<lambda>_.
     io_bind (read_rendezvous_hello latest client_await_hello) (\<lambda>server_nonce.
     io_bind (write_hello server_nonce) (\<lambda>_.
     io_return (client_nonce, server_nonce, peer)))))))"

text \<open>
  Closing a Unix link: both halves are always shut, write first; a half that is not connected
  any more counts as shut, and the first other error is returned.
\<close>

datatype Shutdown = ShutWrite | ShutRead

definition already_shut_is_success :: "IoError + unit \<Rightarrow> IoError + unit" where
  "already_shut_is_success result =
     (case result of
        Inl e \<Rightarrow> if io_kind e = NotConnected then Inr () else Inl e
      | Inr u \<Rightarrow> Inr u)"

definition shutdown_write_then_read ::
  "(Shutdown \<Rightarrow> 's \<Rightarrow> (IoError + unit) \<times> 's) \<Rightarrow> 's \<Rightarrow> (IoError + unit) \<times> 's" where
  "shutdown_write_then_read shutdown s =
     (let (w, s1) = shutdown ShutWrite s;
          (r, s2) = shutdown ShutRead s1
      in (case already_shut_is_success w of
            Inl e \<Rightarrow> Inl e
          | Inr _ \<Rightarrow> already_shut_is_success r, s2))"

section \<open>What a buffer-filling loop promises\<close>

lemma io_bind_Some:
  "io_bind m f l = Some (r, l'') \<longleftrightarrow>
     (\<exists>e. m l = Some (Inl e, l'') \<and> r = Inl e) \<or> (\<exists>a l'. m l = Some (Inr a, l') \<and> f a l' = Some (r, l''))"
  by (auto simp: io_bind_def split: option.splits sum.splits)

lemma io_bind_simps [simp]:
  "m l = None \<Longrightarrow> io_bind m f l = None"
  "m l = Some (Inl e, l') \<Longrightarrow> io_bind m f l = Some (Inl e, l')"
  "m l = Some (Inr a, l') \<Longrightarrow> io_bind m f l = f a l'"
  by (simp_all add: io_bind_def)

lemma io_lift_bind [simp]: "io_bind (io_lift r) f l = (case r of Inl e \<Rightarrow> Some (Inl e, l) | Inr a \<Rightarrow> f a l)"
  by (simp add: io_bind_def io_lift_def split: sum.splits)

lemma io_return_bind [simp]: "io_bind (io_return a) f l = f a l"
  by (simp add: io_bind_def io_return_def)

lemma sock_read_Inr:
  "sock_read want ev inp = (Inr bs, inp') \<Longrightarrow> inp = bs @ inp' \<and> length bs \<le> want"
  by (auto simp: sock_read_def Let_def split: ReadEvent.splits)

lemma sock_read_Inl: "sock_read want ev inp = (Inl e, inp') \<Longrightarrow> inp' = inp"
  by (auto simp: sock_read_def Let_def split: ReadEvent.splits)

text \<open>
  \<open>fill len stall\<close> reads into a buffer of length \<open>len\<close>. When it reports the buffer full it
  holds the next \<open>len\<close> bytes of the stream; whatever happens it takes at most \<open>len\<close> bytes and
  writes nothing.
\<close>

locale exact_reader =
  fixes fill :: "nat \<Rightarrow> Instant option \<Rightarrow> (bool \<times> bytes \<times> Instant option) io"
  assumes fill_full: "fill len stall l = Some (Inr (True, bs, stall'), l')
      \<Longrightarrow> length bs = len \<and> lk_in l = bs @ lk_in l'"
    and fill_takes: "fill len stall l = Some (r, l') \<Longrightarrow> \<exists>k\<le>len. lk_in l' = drop k (lk_in l)"
    and fill_silent: "fill len stall l = Some (r, l')
      \<Longrightarrow> lk_out l' = lk_out l \<and> lk_writes l' = lk_writes l"

lemma fill_interruptible_sound:
  assumes "fill_interruptible latest deadline idle limit len acc stall ts inp = Some (r, ts', inp')"
    and "length acc \<le> len"
  shows "(\<exists>k\<le>len - length acc. inp' = drop k inp)
    \<and> (\<forall>bs st. r = Inr (True, bs, st) \<longrightarrow> length bs = len \<and> acc @ inp = bs @ inp')"
  using assms
proof (induction ts arbitrary: acc stall inp)
  case (Cons t ts)
  show ?case
  proof (cases "length acc < len \<and> \<not> tk_stop t \<and> \<not> passed deadline (tk_now_deadline t)
      \<and> \<not> passed stall (tk_now_stall t)")
    case False
    with Cons.prems show ?thesis by (auto split: if_splits)
  next
    case go: True
    obtain rd inp1 where rd: "sock_read (len - length acc) (tk_read t) inp = (rd, inp1)"
      by fastforce
    show ?thesis
    proof (cases rd)
      case (Inl e)
      then have "inp1 = inp" using rd sock_read_Inl by blast
      with go Inl rd Cons.prems(1)
      have "fill_interruptible latest deadline idle limit len acc stall ts inp = Some (r, ts', inp')
          \<or> inp' = inp \<and> (\<forall>bs st. r \<noteq> Inr (True, bs, st))"
        by (auto split: if_splits)
      then show ?thesis using Cons.IH [of acc stall inp] Cons.prems(2) by auto
    next
      case (Inr bs)
      then have bs: "inp = bs @ inp1" "length bs \<le> len - length acc"
        using rd sock_read_Inr by blast+
      from go Inr rd Cons.prems(1)
      consider "inp' = inp1" "\<forall>bs st. r \<noteq> Inr (True, bs, st)"
        | st where "fill_interruptible latest deadline idle limit len (acc @ bs) st ts inp1
            = Some (r, ts', inp')"
        by (auto split: if_splits sum.splits)
      then show ?thesis
      proof cases
        case 1
        with bs show ?thesis by (auto intro!: exI [of _ "length bs"])
      next
        case (2 st)
        have "length (acc @ bs) \<le> len" using bs go by auto
        from Cons.IH [OF 2 this]
        obtain k where k: "k \<le> len - length (acc @ bs)" "inp' = drop k inp1"
          and full: "\<forall>bs' st. r = Inr (True, bs', st)
              \<longrightarrow> length bs' = len \<and> (acc @ bs) @ inp1 = bs' @ inp'"
          by blast
        have "length bs + k \<le> len - length acc" "inp' = drop (length bs + k) inp"
          using k bs go by auto
        with full bs show ?thesis by (metis append.assoc)
      qed
    qed
  qed
qed (auto split: if_splits)

lemma fill_stalled_sound:
  assumes "fill_stalled latest limit len acc stall ts inp = Some (r, ts', inp')"
    and "length acc \<le> len"
  shows "(\<exists>k\<le>len - length acc. inp' = drop k inp)
    \<and> (\<forall>bs st. r = Inr (bs, st) \<longrightarrow> length bs = len \<and> acc @ inp = bs @ inp')"
  using assms
proof (induction ts arbitrary: acc stall inp)
  case (Cons t ts)
  show ?case
  proof (cases "length acc < len \<and> \<not> passed stall (tk_now_stall t)")
    case False
    with Cons.prems show ?thesis by (auto split: if_splits)
  next
    case go: True
    obtain rd inp1 where rd: "sock_read (len - length acc) (tk_read t) inp = (rd, inp1)"
      by fastforce
    show ?thesis
    proof (cases rd)
      case (Inl e)
      then have "inp1 = inp" using rd sock_read_Inl by blast
      with go Inl rd Cons.prems(1)
      have "fill_stalled latest limit len acc stall ts inp = Some (r, ts', inp')
          \<or> inp' = inp \<and> (\<forall>bs st. r \<noteq> Inr (bs, st))"
        by (auto split: if_splits)
      then show ?thesis using Cons.IH [of acc stall inp] Cons.prems(2) by auto
    next
      case (Inr bs)
      then have bs: "inp = bs @ inp1" "length bs \<le> len - length acc"
        using rd sock_read_Inr by blast+
      from go Inr rd Cons.prems(1)
      consider "inp' = inp1" "\<forall>bs st. r \<noteq> Inr (bs, st)"
        | st where "fill_stalled latest limit len (acc @ bs) st ts inp1 = Some (r, ts', inp')"
        by (auto split: if_splits sum.splits)
      then show ?thesis
      proof cases
        case 1
        with bs show ?thesis by (auto intro!: exI [of _ "length bs"])
      next
        case (2 st)
        have "length (acc @ bs) \<le> len" using bs go by auto
        from Cons.IH [OF 2 this]
        obtain k where k: "k \<le> len - length (acc @ bs)" "inp' = drop k inp1"
          and full: "\<forall>bs' st. r = Inr (bs', st)
              \<longrightarrow> length bs' = len \<and> (acc @ bs) @ inp1 = bs' @ inp'"
          by blast
        have "length bs + k \<le> len - length acc" "inp' = drop (length bs + k) inp"
          using k bs go by auto
        with full bs show ?thesis by (metis append.assoc)
      qed
    qed
  qed
qed (auto split: if_splits)

text \<open>The stalled loop in the shape of the interface: it never reports an early stop.\<close>

definition stalled_fill ::
  "Instant \<Rightarrow> nat \<Rightarrow> Instant option \<Rightarrow> (bool \<times> bytes \<times> Instant option) io" where
  "stalled_fill latest len stall =
     io_bind (read_exact_stalled latest len stall) (\<lambda>(bs, st). io_return (True, bs, st))"

interpretation stalled: exact_reader "stalled_fill latest" for latest
proof unfold_locales
  fix len stall bs stall' r and l l' :: Link
  let ?fill = "fill_stalled latest APP_LINK_IO_DEADLINE len [] stall (lk_ticks l) (lk_in l)"
  have ret: "\<exists>q ts inp. ?fill = Some (q, ts, inp) \<and> l' = l\<lparr> lk_ticks := ts, lk_in := inp \<rparr>
      \<and> (\<forall>bs st. r = Inr (True, bs, st) \<longrightarrow> q = Inr (bs, st))"
    if "stalled_fill latest len stall l = Some (r, l')" for r
    using that
    by (auto simp: stalled_fill_def io_bind_Some read_exact_stalled_def read_exact_stalled_with_def
        io_return_def split: option.splits)
  show "length bs = len \<and> lk_in l = bs @ lk_in l'"
    if "stalled_fill latest len stall l = Some (Inr (True, bs, stall'), l')"
    using ret [OF that] fill_stalled_sound [of latest APP_LINK_IO_DEADLINE len "[]"] by fastforce
  show "\<exists>k\<le>len. lk_in l' = drop k (lk_in l)" if "stalled_fill latest len stall l = Some (r, l')"
    using ret [OF that] fill_stalled_sound [of latest APP_LINK_IO_DEADLINE len "[]"] by fastforce
  show "lk_out l' = lk_out l \<and> lk_writes l' = lk_writes l"
    if "stalled_fill latest len stall l = Some (r, l')"
    using ret [OF that] by auto
qed

interpretation interruptible: exact_reader
    "\<lambda>len stall. read_exact_interruptible latest len deadline idle stall limit"
  for latest deadline idle limit
proof unfold_locales
  fix len stall bs stall' r and l l' :: Link
  let ?fill = "fill_interruptible latest deadline idle limit len [] stall (lk_ticks l) (lk_in l)"
  have ret: "\<exists>ts inp. ?fill = Some (r, ts, inp) \<and> l' = l\<lparr> lk_ticks := ts, lk_in := inp \<rparr>"
    if "read_exact_interruptible latest len deadline idle stall limit l = Some (r, l')" for r
    using that by (auto simp: read_exact_interruptible_def split: option.splits)
  show "length bs = len \<and> lk_in l = bs @ lk_in l'"
    if "read_exact_interruptible latest len deadline idle stall limit l
      = Some (Inr (True, bs, stall'), l')"
    using ret [OF that] fill_interruptible_sound [of latest deadline idle limit len "[]"] by fastforce
  show "\<exists>k\<le>len. lk_in l' = drop k (lk_in l)"
    if "read_exact_interruptible latest len deadline idle stall limit l = Some (r, l')"
    using ret [OF that] fill_interruptible_sound [of latest deadline idle limit len "[]"] by fastforce
  show "lk_out l' = lk_out l \<and> lk_writes l' = lk_writes l"
    if "read_exact_interruptible latest len deadline idle stall limit l = Some (r, l')"
    using ret [OF that] by auto
qed

section \<open>What a frame reader promises\<close>

text \<open>The shape every validated frame reader has, over the two loops it fills buffers with.\<close>

definition frame_via ::
  "(bool \<times> bytes \<times> Instant option) io \<Rightarrow> (nat \<Rightarrow> Instant option \<Rightarrow> (bool \<times> bytes \<times> Instant option) io)
    \<Rightarrow> (FrameHeader \<Rightarrow> IpcError + 'a) \<Rightarrow> ('a \<times> bytes) option io" where
  "frame_via fill_header fill_payload validate =
     io_bind fill_header (\<lambda>(filled, header_bytes, stall).
     if \<not> filled then io_return None
     else
       io_bind (io_lift (from_header (decode header_bytes))) (\<lambda>header.
       let len = unat (fh_len header) in
       io_bind (io_lift (ensure_payload_len len)) (\<lambda>_.
       io_bind (io_lift (validate header)) (\<lambda>validated.
       if len = 0 then io_return (Some (validated, []))
       else io_bind (fill_payload len stall) (\<lambda>(filled, payload, _).
         io_return (if filled then Some (validated, payload) else None))))))"

text \<open>A header the reader refuses before it touches the payload.\<close>

definition header_refused :: "(FrameHeader \<Rightarrow> IpcError + 'a) \<Rightarrow> bytes \<Rightarrow> bool" where
  "header_refused validate hb =
     (case decode hb of
        Inl _ \<Rightarrow> True
      | Inr h \<Rightarrow> MAX_FRAME_LEN < unat (fh_len h) \<or> \<not> is_ok (validate h))"

locale frame_reading = hd: exact_reader fill_header + pl: exact_reader fill_payload
  for fill_header fill_payload :: "nat \<Rightarrow> Instant option \<Rightarrow> (bool \<times> bytes \<times> Instant option) io"
begin

lemma via_accepts:
  assumes "frame_via (fill_header HEADER_LEN None) fill_payload validate l
      = Some (Inr (Some (v, payload)), l')"
  shows "\<exists>h. lk_in l = encode h @ payload @ lk_in l' \<and> validate h = Inr v
    \<and> length payload = unat (fh_len h) \<and> length payload \<le> MAX_FRAME_LEN"
proof -
  from assms obtain hb stall l1 where
    hb: "fill_header HEADER_LEN None l = Some (Inr (True, hb, stall), l1)"
    by (auto simp: frame_via_def io_bind_Some io_return_def split: if_splits)
  with assms obtain h where h: "decode hb = Inr h"
    by (cases "decode hb") (auto simp: frame_via_def)
  with assms hb have len: "unat (fh_len h) \<le> MAX_FRAME_LEN" and v: "validate h = Inr v"
    and rest: "unat (fh_len h) = 0 \<and> payload = [] \<and> l' = l1
      \<or> (\<exists>st. fill_payload (unat (fh_len h)) stall l1 = Some (Inr (True, payload, st), l'))"
    by (cases "validate h"; auto simp: frame_via_def io_bind_Some io_return_def Let_def
        ensure_payload_len_def split: if_splits)+
  have "length hb = HEADER_LEN" "lk_in l = hb @ lk_in l1" using hd.fill_full [OF hb] by auto
  moreover from this h have "hb = encode h" using frame_header.enc_dec by metis
  moreover have "lk_in l1 = payload @ lk_in l'" "length payload = unat (fh_len h)"
    using rest pl.fill_full by force+
  ultimately show ?thesis using v len by auto
qed

lemma via_takes_header_only:
  assumes ret: "frame_via (fill_header HEADER_LEN None) fill_payload validate l = Some (r, l')"
    and "header_refused validate (take HEADER_LEN (lk_in l))"
  shows "\<exists>k\<le>HEADER_LEN. lk_in l' = drop k (lk_in l)"
proof -
  from ret obtain q l1 where q: "fill_header HEADER_LEN None l = Some (q, l1)"
    by (cases "fill_header HEADER_LEN None l") (auto simp: frame_via_def)
  have "l' = l1"
  proof (cases "\<exists>hb stall. q = Inr (True, hb, stall)")
    case True
    then obtain hb stall where hb: "q = Inr (True, hb, stall)" by blast
    have "hb = take HEADER_LEN (lk_in l)" using hd.fill_full [of HEADER_LEN None l hb] q hb by auto
    with assms(2) have "header_refused validate hb" by simp
    with ret q hb show ?thesis
      by (auto simp: frame_via_def header_refused_def ensure_payload_len_def Let_def
          is_ok_def split: sum.splits if_splits)
  next
    case False
    with ret q show ?thesis
      by (cases q) (auto simp: frame_via_def io_return_def split: if_splits)
  qed
  with hd.fill_takes [OF q] show ?thesis by simp
qed

lemma via_bounded:
  assumes ret: "frame_via (fill_header HEADER_LEN None) fill_payload validate l = Some (r, l')"
  shows "\<exists>k\<le>HEADER_LEN + MAX_FRAME_LEN. lk_in l' = drop k (lk_in l)"
proof -
  from ret obtain q l1 where q: "fill_header HEADER_LEN None l = Some (q, l1)"
    by (cases "fill_header HEADER_LEN None l") (auto simp: frame_via_def)
  obtain j where j: "j \<le> HEADER_LEN" "lk_in l1 = drop j (lk_in l)"
    using hd.fill_takes [OF q] by blast
  have "l' = l1 \<or> (\<exists>n stall s. n \<le> MAX_FRAME_LEN \<and> fill_payload n stall l1 = Some (s, l'))"
    using ret q
    by (cases q) (auto simp: frame_via_def io_bind_Some io_return_def Let_def
        ensure_payload_len_def split: if_splits sum.splits)
  then obtain k where "k \<le> MAX_FRAME_LEN" "lk_in l' = drop k (lk_in l1)"
    using pl.fill_takes by (metis drop0 order_trans zero_le)
  with j show ?thesis by (intro exI [of _ "j + k"]) (simp add: add.commute add_mono)
qed

lemma via_silent:
  assumes ret: "frame_via (fill_header HEADER_LEN None) fill_payload validate l = Some (r, l')"
  shows "lk_out l' = lk_out l \<and> lk_writes l' = lk_writes l"
proof -
  from ret obtain q l1 where q: "fill_header HEADER_LEN None l = Some (q, l1)"
    by (cases "fill_header HEADER_LEN None l") (auto simp: frame_via_def)
  have "l' = l1 \<or> (\<exists>n stall s. fill_payload n stall l1 = Some (s, l'))"
    using ret q
    by (cases q) (auto simp: frame_via_def io_bind_Some io_return_def Let_def
        split: if_splits sum.splits)
  with hd.fill_silent [OF q] pl.fill_silent show ?thesis by metis
qed

end

interpretation stalled_frames: frame_reading "stalled_fill latest" "stalled_fill latest" for latest
  by unfold_locales

interpretation interruptible_frames: frame_reading
    "\<lambda>len stall. read_exact_interruptible latest len deadline idle stall limit"
    "\<lambda>len stall. read_exact_interruptible latest len deadline None stall limit"
  for latest deadline idle limit
  by unfold_locales

lemma interruptible_via:
  "read_frame_interruptible_validated_with latest deadline idle limit validate =
     frame_via (read_exact_interruptible latest HEADER_LEN deadline idle None limit)
       (\<lambda>len stall. read_exact_interruptible latest len deadline None stall limit) validate"
  by (simp add: read_frame_interruptible_validated_with_def frame_via_def)

lemma stalled_via:
  "io_bind (read_validated_frame latest p) (\<lambda>f. io_return (Some f)) =
     frame_via (stalled_fill latest HEADER_LEN None) (stalled_fill latest) (validate_received_header p)"
  unfolding read_validated_frame_def frame_via_def stalled_fill_def
  by (rule ext)
    (auto simp: io_bind_def io_lift_def io_return_def Let_def split: option.splits sum.splits prod.splits)

section \<open>Delivery\<close>

text \<open>
  A delivery schedule: reads give at least one byte or are interrupted, nobody asks to stop,
  and every clock reading falls into one stall window that starts at \<open>t0\<close>. How many bytes
  each read returns is left open.
\<close>

definition delivers :: "Tick \<Rightarrow> bool" where
  "delivers t = (case tk_read t of Recv n \<Rightarrow> 0 < n | Fail _ \<Rightarrow> False)"

definition interrupted :: "Tick \<Rightarrow> bool" where
  "interrupted t = (case tk_read t of Recv _ \<Rightarrow> False | Fail e \<Rightarrow> io_kind e = Interrupted)"

definition timely :: "Instant \<Rightarrow> Duration \<Rightarrow> Instant option \<Rightarrow> Instant \<Rightarrow> Tick \<Rightarrow> bool" where
  "timely latest limit deadline t0 t =
     ((delivers t \<or> interrupted t) \<and> \<not> tk_stop t \<and> \<not> passed deadline (tk_now_deadline t)
      \<and> t0 \<le> tk_now_read t \<and> tk_now_read t + limit \<le> latest \<and> tk_now_stall t < t0 + limit)"

definition delivery :: "Instant \<Rightarrow> Duration \<Rightarrow> Instant option \<Rightarrow> Instant \<Rightarrow> nat \<Rightarrow> Tick list \<Rightarrow> bool" where
  "delivery latest limit deadline t0 n ts =
     (list_all (timely latest limit deadline t0) ts \<and> n \<le> length (filter delivers ts))"

definition stall_after :: "Instant \<Rightarrow> Instant option \<Rightarrow> bool" where
  "stall_after d stall = (case stall of None \<Rightarrow> True | Some s \<Rightarrow> d \<le> s)"

lemma start_stall_timely:
  assumes "timely latest limit deadline t0 t" "stall_after (t0 + limit) stall"
  obtains st where "start_stall latest limit stall (tk_now_read t) = Inr st"
    "stall_after (t0 + limit) st"
  using assms that
  by (auto simp: start_stall_def timely_def stall_after_def instant_checked_add_def
      split: option.splits)

lemma delivers_read:
  assumes "delivers t" "0 < want" "inp \<noteq> []"
  obtains m where "0 < m" "m \<le> want" "m \<le> length inp"
    "sock_read want (tk_read t) inp = (Inr (take m inp), drop m inp)"
proof -
  from assms(1) obtain n where n: "tk_read t = Recv n" "0 < n"
    by (auto simp: delivers_def split: ReadEvent.splits)
  have "0 < min n (min want (length inp))" using n assms(2,3) by simp
  then show thesis
    using n by (intro that [of "min n (min want (length inp))"]) (simp_all add: sock_read_def Let_def)
qed

lemma fill_interruptible_delivers:
  assumes "delivery latest limit deadline t0 (len - length acc + n) ts"
    and "length acc \<le> len" "len - length acc \<le> length inp" "stall_after (t0 + limit) stall"
  shows "\<exists>ts' st. fill_interruptible latest deadline idle limit len acc stall ts inp
      = Some (Inr (True, acc @ take (len - length acc) inp, st), ts', drop (len - length acc) inp)
    \<and> delivery latest limit deadline t0 n ts' \<and> stall_after (t0 + limit) st"
  using assms
proof (induction ts arbitrary: acc stall inp)
  case Nil
  then show ?case by (simp add: delivery_def)
next
  case (Cons t ts)
  show ?case
  proof (cases "length acc < len")
    case False
    with Cons.prems show ?thesis by simp
  next
    case True
    have t: "timely latest limit deadline t0 t" and ts: "list_all (timely latest limit deadline t0) ts"
      using Cons.prems(1) by (auto simp: delivery_def)
    then have go: "\<not> tk_stop t" "\<not> passed deadline (tk_now_deadline t)" "\<not> passed stall (tk_now_stall t)"
      using Cons.prems(4) by (auto simp: timely_def passed_def stall_after_def split: option.splits)
    show ?thesis
    proof (cases "delivers t")
      case False
      with t obtain e where e: "tk_read t = Fail e" "io_kind e = Interrupted"
        by (auto simp: timely_def interrupted_def split: ReadEvent.splits)
      have "fill_interruptible latest deadline idle limit len acc stall (t # ts) inp
          = fill_interruptible latest deadline idle limit len acc stall ts inp"
        using True go e by (simp add: sock_read_def)
      moreover have "delivery latest limit deadline t0 (len - length acc + n) ts"
        using Cons.prems(1) False by (simp add: delivery_def)
      ultimately show ?thesis using Cons.IH Cons.prems(2-4) by simp
    next
      case dl: True
      have "inp \<noteq> []" using True Cons.prems(3) by auto
      then obtain m where m: "0 < m" "m \<le> len - length acc" "m \<le> length inp"
        "sock_read (len - length acc) (tk_read t) inp = (Inr (take m inp), drop m inp)"
        using delivers_read [OF dl] True by (metis zero_less_diff)
      obtain st where st: "start_stall latest limit stall (tk_now_read t) = Inr st"
        "stall_after (t0 + limit) st"
        using start_stall_timely [OF t Cons.prems(4)] .
      have step: "fill_interruptible latest deadline idle limit len acc stall (t # ts) inp
          = fill_interruptible latest deadline idle limit len (acc @ take m inp) st ts (drop m inp)"
        using True go m st \<open>inp \<noteq> []\<close> by simp
      have left: "len - length (acc @ take m inp) = len - length acc - m" using m by simp
      have dl': "delivery latest limit deadline t0 (len - length (acc @ take m inp) + n) ts"
        using Cons.prems(1) dl m unfolding left by (auto simp: delivery_def)
      have "length (acc @ take m inp) \<le> len"
        "len - length (acc @ take m inp) \<le> length (drop m inp)"
        using m Cons.prems(2,3) unfolding left by auto
      from Cons.IH [OF dl' this st(2), unfolded left]
      obtain ts' st' where
        rec: "fill_interruptible latest deadline idle limit len (acc @ take m inp) st ts (drop m inp)
          = Some (Inr (True, (acc @ take m inp) @ take (len - length acc - m) (drop m inp), st'), ts',
                  drop (len - length acc - m) (drop m inp))"
        and "delivery latest limit deadline t0 n ts'" "stall_after (t0 + limit) st'"
        by blast
      moreover have "take m inp @ take (len - length acc - m) (drop m inp) = take (len - length acc) inp"
        "drop (len - length acc - m) (drop m inp) = drop (len - length acc) inp"
        by (metis le_add_diff_inverse [OF m(2)] take_add, metis le_add_diff_inverse2 [OF m(2)] drop_drop)
      ultimately show ?thesis unfolding step rec append.assoc by simp
    qed
  qed
qed

lemma fill_stalled_delivers:
  assumes "delivery latest limit None t0 k ts"
  shows "fill_stalled latest limit len acc stall ts inp =
    map_option (\<lambda>(r, ts', inp'). (map_sum id snd r, ts', inp'))
      (fill_interruptible latest None None limit len acc stall ts inp)"
  using assms
proof (induction ts arbitrary: acc stall inp k)
  case (Cons t ts)
  then have t: "timely latest limit None t0 t" and ts: "delivery latest limit None t0 0 ts"
    by (auto simp: delivery_def)
  obtain rd inp1 where rd: "sock_read (len - length acc) (tk_read t) inp = (rd, inp1)" by fastforce
  have run: "\<not> tk_stop t" "\<not> passed None (tk_now_deadline t)" using t by (auto simp: timely_def)
  show ?case
  proof (cases rd)
    case (Inl e)
    then have "io_kind e = Interrupted"
      using t rd by (auto simp: timely_def delivers_def interrupted_def sock_read_def Let_def
          split: ReadEvent.splits)
    with Inl rd run Cons.IH [OF ts] show ?thesis by simp
  next
    case (Inr bs)
    with rd run Cons.IH [OF ts] show ?thesis by (simp split: sum.split)
  qed
qed simp

lemma stalled_fill_delivers:
  assumes "delivery latest APP_LINK_IO_DEADLINE None t0 (len + n) (lk_ticks l)"
    and "len \<le> length (lk_in l)" "stall_after (t0 + APP_LINK_IO_DEADLINE) stall"
  shows "\<exists>ts st. read_exact_stalled latest len stall l = Some (Inr (take len (lk_in l), st),
       l\<lparr> lk_ticks := ts, lk_in := drop len (lk_in l) \<rparr>)
    \<and> delivery latest APP_LINK_IO_DEADLINE None t0 n ts
    \<and> stall_after (t0 + APP_LINK_IO_DEADLINE) st"
  using fill_interruptible_delivers [of latest APP_LINK_IO_DEADLINE None t0 len "[]" n "lk_ticks l"
      "lk_in l" stall None] assms
  by (auto simp: read_exact_stalled_def read_exact_stalled_with_def
      fill_stalled_delivers [OF assms(1)])

lemma encode_front:
  assumes "lk_in l = encode h @ rest"
  shows "take HEADER_LEN (lk_in l) = encode h" "drop HEADER_LEN (lk_in l) = rest"
    "HEADER_LEN \<le> length (lk_in l)"
  using assms by simp_all

lemma read_validated_frame_delivers:
  assumes frame: "lk_in l = encode h @ payload @ rest"
    and len: "length payload = unat (fh_len h)" "length payload \<le> MAX_FRAME_LEN"
    and ok: "admissible p h"
    and ticks: "delivery latest APP_LINK_IO_DEADLINE None t0 (HEADER_LEN + length payload + n) (lk_ticks l)"
  obtains ts where "read_validated_frame latest p l =
      Some (Inr (h, payload), l\<lparr> lk_ticks := ts, lk_in := rest \<rparr>)"
    "delivery latest APP_LINK_IO_DEADLINE None t0 n ts"
proof -
  note front = encode_front [OF frame]
  obtain ts1 st1 where one: "read_exact_stalled latest HEADER_LEN None l
      = Some (Inr (encode h, st1), l\<lparr> lk_ticks := ts1, lk_in := payload @ rest \<rparr>)"
    "delivery latest APP_LINK_IO_DEADLINE None t0 (length payload + n) ts1"
    "stall_after (t0 + APP_LINK_IO_DEADLINE) st1"
    using stalled_fill_delivers [of latest t0 HEADER_LEN "length payload + n" l None] ticks front
    unfolding stall_after_def add.assoc by auto
  let ?l1 = "l\<lparr> lk_ticks := ts1, lk_in := payload @ rest \<rparr>"
  have valid: "validate_received_header p h = Inr h" using ok by (simp add: validate_received_header_Inr)
  show thesis
  proof (cases "payload = []")
    case True
    with one valid len show thesis
      by (intro that [of ts1]) (auto simp: read_validated_frame_def frame_header.dec_enc io_return_def
          ensure_payload_len_def Let_def)
  next
    case False
    obtain ts2 st2 where two: "read_exact_stalled latest (length payload) st1 ?l1
        = Some (Inr (payload, st2), ?l1\<lparr> lk_ticks := ts2, lk_in := rest \<rparr>)"
      "delivery latest APP_LINK_IO_DEADLINE None t0 n ts2"
      using stalled_fill_delivers [of latest t0 "length payload" n ?l1 st1] one by auto
    have "0 < unat (fh_len h)" using False len by (metis length_greater_0_conv)
    with False one(1) two valid len show thesis
      by (intro that [of ts2]) (auto simp: read_validated_frame_def frame_header.dec_enc io_return_def
          ensure_payload_len_def Let_def)
  qed
qed

section \<open>Writing\<close>

lemma write_frame_ok:
  assumes "length payload \<le> MAX_FRAME_LEN" "list_all (\<lambda>w. w = Wrote) (lk_writes l)"
  shows "\<exists>ws. write_frame kind flags channel corr payload l = Some (Inr (),
      l\<lparr> lk_writes := ws, lk_out := lk_out l @ encode \<lparr> fh_kind = kind, fh_flags = flags,
        fh_channel = channel, fh_corr = corr, fh_len = of_nat (length payload) \<rparr> @ payload \<rparr>)
    \<and> list_all (\<lambda>w. w = Wrote) ws"
proof -
  have wa: "\<exists>ws. write_all bs k = Some (Inr (), k\<lparr> lk_writes := ws, lk_out := lk_out k @ bs \<rparr>)
      \<and> list_all (\<lambda>w. w = Wrote) ws" if "list_all (\<lambda>w. w = Wrote) (lk_writes k)" for bs and k :: Link
    using that by (cases "lk_writes k") (auto simp: write_all_def intro!: exI [of _ "tl (lk_writes k)"])
  have fl: "\<exists>ws. flush k = Some (Inr (), k\<lparr> lk_writes := ws \<rparr>) \<and> list_all (\<lambda>w. w = Wrote) ws"
    if "list_all (\<lambda>w. w = Wrote) (lk_writes k)" for k :: Link
    using that by (cases "lk_writes k") (auto simp: flush_def intro!: exI [of _ "tl (lk_writes k)"])
  have small: "length payload < 2 ^ 32" using assms(1) by (simp add: MAX_FRAME_LEN_def)
  let ?h = "encode \<lparr> fh_kind = kind, fh_flags = flags, fh_channel = channel, fh_corr = corr,
    fh_len = of_nat (length payload) \<rparr>"
  obtain w1 where w1: "write_all ?h l = Some (Inr (), l\<lparr> lk_writes := w1, lk_out := lk_out l @ ?h \<rparr>)"
    "list_all (\<lambda>w. w = Wrote) w1" using wa [OF assms(2)] by blast
  let ?l1 = "l\<lparr> lk_writes := w1, lk_out := lk_out l @ ?h \<rparr>"
  obtain w2 where w2: "(if payload = [] then io_return () else write_all payload) ?l1
      = Some (Inr (), ?l1\<lparr> lk_writes := w2, lk_out := lk_out ?l1 @ payload \<rparr>)"
    "list_all (\<lambda>w. w = Wrote) w2"
    using wa [of ?l1 payload] w1(2) by (cases "payload = []") (auto simp: io_return_def)
  let ?l2 = "?l1\<lparr> lk_writes := w2, lk_out := lk_out ?l1 @ payload \<rparr>"
  obtain w3 where w3: "flush ?l2 = Some (Inr (), ?l2\<lparr> lk_writes := w3 \<rparr>)"
    "list_all (\<lambda>w. w = Wrote) w3"
    using fl [of ?l2] w2(2) by auto
  have "write_frame kind flags channel corr payload l = Some (Inr (), ?l2\<lparr> lk_writes := w3 \<rparr>)"
    using assms(1) small w1(1) w2(1) w3(1) unfolding write_frame_def
    by (cases "payload = []") (simp_all add: ensure_payload_len_def del: io_return_bind)
  with w3(2) show ?thesis by (intro exI [of _ w3]) simp
qed

section \<open>The stall clock\<close>

text \<open>Once started, the stall clock is never renewed, and no pass begins after it runs out.\<close>

lemma fill_started:
  assumes "fill_interruptible latest deadline idle limit len acc (Some d) ts inp
      = Some (Inr (True, bs, st), ts', inp')"
  shows "st = Some d \<and> (\<exists>used. ts = used @ ts' \<and> list_all (\<lambda>t. tk_now_stall t < d) used)"
  using assms
proof (induction ts arbitrary: acc inp)
  case (Cons t ts)
  show ?case
  proof (cases "length acc < len")
    case True
    with Cons.prems have stall: "tk_now_stall t < d"
      and "\<exists>acc' inp1. fill_interruptible latest deadline idle limit len acc' (Some d) ts inp1
        = Some (Inr (True, bs, st), ts', inp')"
      by (auto simp: passed_def start_stall_def not_le split: if_splits sum.splits prod.splits)
    with Cons.IH obtain used where "st = Some d" "ts = used @ ts'" "list_all (\<lambda>t. tk_now_stall t < d) used"
      by blast
    with stall show ?thesis by (auto intro!: exI [of _ "t # used"])
  next
    case False
    with Cons.prems show ?thesis by auto
  qed
qed (auto split: if_splits)

lemma fill_starts:
  assumes "fill_interruptible latest deadline idle limit len [] None ts inp
      = Some (Inr (True, bs, st), ts', inp')" and "0 < len"
  shows "\<exists>waits t1 later. ts = waits @ t1 # later @ ts' \<and> st = Some (tk_now_read t1 + limit)
    \<and> list_all (\<lambda>t. \<exists>e. tk_read t = Fail e) waits
    \<and> list_all (\<lambda>t. tk_now_stall t < tk_now_read t1 + limit) later"
  using assms
proof (induction ts)
  case (Cons t ts)
  obtain rd inp1 where rd: "sock_read len (tk_read t) inp = (rd, inp1)" by fastforce
  show ?case
  proof (cases rd)
    case (Inl e)
    then have "inp1 = inp" and fail: "\<exists>e. tk_read t = Fail e"
      using rd by (auto simp: sock_read_def Let_def split: ReadEvent.splits)
    with Cons.prems Inl rd
    have "fill_interruptible latest deadline idle limit len [] None ts inp
        = Some (Inr (True, bs, st), ts', inp')"
      by (auto split: if_splits)
    with Cons.IH Cons.prems(2) obtain waits t1 later where
      "ts = waits @ t1 # later @ ts'" "st = Some (tk_now_read t1 + limit)"
      "list_all (\<lambda>t. \<exists>e. tk_read t = Fail e) waits"
      "list_all (\<lambda>t. tk_now_stall t < tk_now_read t1 + limit) later" by blast
    with fail show ?thesis by (intro exI [of _ "t # waits"] exI [of _ t1] exI [of _ later]) simp
  next
    case (Inr got)
    with Cons.prems rd obtain stall where
      "start_stall latest limit None (tk_now_read t) = Inr stall"
      and rest: "fill_interruptible latest deadline idle limit len got stall ts inp1
        = Some (Inr (True, bs, st), ts', inp')"
      by (auto split: if_splits sum.splits)
    then have "stall = Some (tk_now_read t + limit)"
      by (auto simp: start_stall_def instant_checked_add_def split: option.splits if_splits)
    with fill_started rest obtain used where "st = Some (tk_now_read t + limit)" "ts = used @ ts'"
      "list_all (\<lambda>u. tk_now_stall u < tk_now_read t + limit) used" by blast
    then show ?thesis by (intro exI [of _ "[]"] exI [of _ t] exI [of _ used]) simp
  qed
qed (use assms(2) in \<open>auto split: if_splits\<close>)

section \<open>Properties\<close>

lemma via_Some_frame:
  assumes "read_validated_frame latest p l = Some (r, l')"
  shows "frame_via (stalled_fill latest HEADER_LEN None) (stalled_fill latest)
      (validate_received_header p) l = Some (map_sum id Some r, l')"
  unfolding stalled_via [symmetric] using assms by (cases r) (simp_all add: io_return_def)

text \<open>
  Whatever the environment does, a frame reader is exact. If it accepts a frame, the
  stream began with that header's 16 bytes and that payload, the header is admissible for the
  selected policy, the payload has the declared length, at most 16 MiB, and nothing beyond it
  was consumed. If the first 16 bytes are a header that does not decode, is too long or is not
  admissible, no payload byte is consumed. Reading never writes.
\<close>

theorem read_validated_frame_exact:
  assumes "read_validated_frame latest p l = Some (r, l')"
  shows "(r = Inr (h, payload) \<longrightarrow>
       lk_in l = encode h @ payload @ lk_in l' \<and> admissible p h
       \<and> length payload = unat (fh_len h) \<and> length payload \<le> MAX_FRAME_LEN)
    \<and> (header_refused (validate_received_header p) (take HEADER_LEN (lk_in l)) \<longrightarrow>
       (\<exists>k\<le>HEADER_LEN. lk_in l' = drop k (lk_in l)))
    \<and> (\<exists>k\<le>HEADER_LEN + MAX_FRAME_LEN. lk_in l' = drop k (lk_in l))
    \<and> lk_out l' = lk_out l"
proof -
  note via = via_Some_frame [OF assms]
  have "lk_in l = encode h @ payload @ lk_in l' \<and> admissible p h
      \<and> length payload = unat (fh_len h) \<and> length payload \<le> MAX_FRAME_LEN"
    if "r = Inr (h, payload)"
    using stalled_frames.via_accepts [of latest "validate_received_header p" l h payload l'] via that
    by (auto simp: validate_received_header_Inr)
  then show ?thesis
    using stalled_frames.via_takes_header_only [OF via] stalled_frames.via_bounded [OF via]
      stalled_frames.via_silent [OF via] by blast
qed

text \<open>A reading environment with room: one byte per pass, all inside one second.\<close>

definition steady_tick :: Tick where
  "steady_tick = \<lparr> tk_stop = False, tk_now_deadline = 10, tk_now_stall = 10, tk_read = Recv 1,
     tk_now_read = 10, tk_now_idle = 10 \<rparr>"

lemma steady_delivery:
  "10 + limit \<le> latest \<Longrightarrow> 0 < limit \<Longrightarrow> n \<le> k
    \<Longrightarrow> delivery latest limit None 10 n (replicate k steady_tick)"
  by (simp add: delivery_def timely_def delivers_def steady_tick_def passed_def list_all_iff
      filter_replicate)

text \<open>
  C13. What one side writes the other side reads. If the bytes of a written frame arrive (in
  pieces of any size, with interrupted calls in between, all inside the stall window) and the
  reader's policy admits its header, the read returns, and returns exactly that header and
  payload, leaving what follows on the stream.
\<close>

theorem frame_transport:
  assumes "length payload \<le> MAX_FRAME_LEN" "list_all (\<lambda>w. w = Wrote) (lk_writes w)"
    and "h = \<lparr> fh_kind = kind, fh_flags = flags, fh_channel = channel, fh_corr = corr,
           fh_len = of_nat (length payload) \<rparr>"
    and "admissible p h"
    and "lk_in l = drop (length (lk_out w))
           (case write_frame kind flags channel corr payload w of
              Some (_, w') \<Rightarrow> lk_out w' | None \<Rightarrow> []) @ rest"
    and "delivery latest APP_LINK_IO_DEADLINE None t0 (HEADER_LEN + length payload) (lk_ticks l)"
  shows "\<exists>l'. read_validated_frame latest p l = Some (Inr (h, payload), l') \<and> lk_in l' = rest
    \<and> lk_out l' = lk_out l"
proof -
  have "lk_in l = encode h @ payload @ rest"
    using write_frame_ok [OF assms(1,2), of kind flags channel corr] assms(3,5) by auto
  moreover have "length payload = unat (fh_len h)"
    using assms(1,3) by (simp add: MAX_FRAME_LEN_def unat_of_nat)
  ultimately obtain ts where "read_validated_frame latest p l
      = Some (Inr (h, payload), l\<lparr> lk_ticks := ts, lk_in := rest \<rparr>)"
    using read_validated_frame_delivers [of l h payload rest p latest t0 0] assms(1,4,6)
    by (metis add.right_neutral)
  then show ?thesis by simp
qed

theorem frame_transport_witness:
  "\<exists>l'. read_validated_frame 100000 echo_receiver
      \<lparr> lk_in = encode \<lparr> fh_kind = Call, fh_flags = 0, fh_channel = 1, fh_corr = 7, fh_len = 2 \<rparr>
          @ [1, 2] @ [9],
        lk_ticks = replicate 20 steady_tick, lk_writes = [], lk_out = [] \<rparr>
    = Some (Inr (\<lparr> fh_kind = Call, fh_flags = 0, fh_channel = 1, fh_corr = 7, fh_len = 2 \<rparr>, [1, 2]), l')
    \<and> lk_in l' = [9] \<and> lk_out l' = []"
proof -
  let ?w = "\<lparr> lk_in = [], lk_ticks = [], lk_writes = [], lk_out = [] \<rparr>"
  have ok: "length [1, 2 :: byte] \<le> MAX_FRAME_LEN" "list_all (\<lambda>w. w = Wrote) (lk_writes ?w)"
    by (simp_all add: MAX_FRAME_LEN_def)
  have "admissible echo_receiver
      \<lparr> fh_kind = Call, fh_flags = 0, fh_channel = 1, fh_corr = 7, fh_len = 2 \<rparr>"
    by (simp add: admission_simps echo_receiver_def ECHO_CHANNEL_def channel_table_defs)
  moreover have "delivery 100000 APP_LINK_IO_DEADLINE None 10 (HEADER_LEN + length [1, 2 :: byte])
      (replicate 20 steady_tick)"
    by (rule steady_delivery) (simp_all add: APP_LINK_IO_DEADLINE_def HEADER_LEN_def)
  ultimately show ?thesis
    using frame_transport [OF ok refl, of echo_receiver Call 0 1 7
        "\<lparr> lk_in = encode \<lparr> fh_kind = Call, fh_flags = 0, fh_channel = 1, fh_corr = 7, fh_len = 2 \<rparr>
          @ [1, 2] @ [9], lk_ticks = replicate 20 steady_tick, lk_writes = [], lk_out = [] \<rparr>"
        "[9]" 100000 10]
    by (auto simp: write_frame_def ensure_payload_len_def MAX_FRAME_LEN_def write_all_def flush_def
        io_bind_def io_lift_def)
qed

theorem read_validated_frame_exact_witness:
  "(\<exists>r l'. read_validated_frame 100000 echo_receiver
      \<lparr> lk_in = replicate 40 0, lk_ticks = replicate 20 steady_tick, lk_writes = [], lk_out = [] \<rparr>
      = Some (r, l') \<and> (\<exists>k\<le>HEADER_LEN. lk_in l' = drop k (replicate 40 0)))"
proof -
  let ?l = "\<lparr> lk_in = replicate 40 0, lk_ticks = replicate 20 steady_tick, lk_writes = [], lk_out = [] \<rparr>"
  have bad: "decode (take HEADER_LEN (replicate 40 0)) = Inl (BadMagic 0)" by code_simp
  have "delivery 100000 APP_LINK_IO_DEADLINE None 10 (HEADER_LEN + 0) (lk_ticks ?l)"
    using steady_delivery [of APP_LINK_IO_DEADLINE 100000 HEADER_LEN 20]
    by (simp add: APP_LINK_IO_DEADLINE_def HEADER_LEN_def)
  from stalled_fill_delivers [OF this, of None] obtain ts st where
    "read_exact_stalled 100000 HEADER_LEN None ?l = Some (Inr (take HEADER_LEN (replicate 40 0), st),
       ?l\<lparr> lk_ticks := ts, lk_in := drop HEADER_LEN (replicate 40 0) \<rparr>)"
    by (auto simp: stall_after_def HEADER_LEN_def)
  then have ret: "read_validated_frame 100000 echo_receiver ?l = Some (Inl (Header (BadMagic 0)),
      ?l\<lparr> lk_ticks := ts, lk_in := drop HEADER_LEN (replicate 40 0) \<rparr>)"
    using bad by (simp add: read_validated_frame_def)
  have "header_refused (validate_received_header echo_receiver) (take HEADER_LEN (lk_in ?l))"
    using bad by (simp add: header_refused_def)
  with read_validated_frame_exact [OF ret] ret show ?thesis by auto
qed

lemma read_exact_interruptible_Some:
  "read_exact_interruptible latest len deadline idle stall limit l = Some (r, l') \<longleftrightarrow>
     (\<exists>ts inp. fill_interruptible latest deadline idle limit len [] stall (lk_ticks l) (lk_in l)
        = Some (r, ts, inp) \<and> l' = l\<lparr> lk_ticks := ts, lk_in := inp \<rparr>)"
  by (auto simp: read_exact_interruptible_def split: option.splits)

lemma frame_via_filled:
  assumes "frame_via fh fp validate l = Some (Inr (Some (v, payload)), l')"
  obtains hb stall l1 where "fh l = Some (Inr (True, hb, stall), l1)"
    "l' = l1 \<or> (\<exists>n st. fp n stall l1 = Some (Inr (True, payload, st), l'))"
proof -
  from assms obtain hb stall l1 where hb: "fh l = Some (Inr (True, hb, stall), l1)"
    by (auto simp: frame_via_def io_bind_Some io_return_def split: if_splits)
  with assms obtain h where h: "decode hb = Inr h"
    by (cases "decode hb") (auto simp: frame_via_def)
  with assms hb have "l' = l1 \<or> (\<exists>n st. fp n stall l1 = Some (Inr (True, payload, st), l'))"
    by (cases "validate h"; auto simp: frame_via_def io_bind_Some io_return_def Let_def
        ensure_payload_len_def split: if_splits)
  with hb show thesis by (rule that)
qed

lemma started_frame_split:
  assumes "read_frame_interruptible_validated_with latest deadline idle limit validate l
      = Some (Inr (Some (v, payload)), l')"
  shows "\<exists>waits first later. lk_ticks l = waits @ first # later @ lk_ticks l'
    \<and> list_all (\<lambda>t. \<exists>e. tk_read t = Fail e) waits
    \<and> list_all (\<lambda>t. tk_now_stall t < tk_now_read first + limit) later"
proof -
  from assms obtain hb stall l1 where
    "read_exact_interruptible latest HEADER_LEN deadline idle None limit l
      = Some (Inr (True, hb, stall), l1)"
    and pay: "l' = l1 \<or> (\<exists>n st. read_exact_interruptible latest n deadline None stall limit l1
      = Some (Inr (True, payload, st), l'))"
    unfolding interruptible_via by (rule frame_via_filled)
  then obtain inp1 where hd: "fill_interruptible latest deadline idle limit HEADER_LEN [] None
      (lk_ticks l) (lk_in l) = Some (Inr (True, hb, stall), lk_ticks l1, inp1)"
    by (auto simp: read_exact_interruptible_Some)
  obtain waits first later where ticks: "lk_ticks l = waits @ first # later @ lk_ticks l1"
    "stall = Some (tk_now_read first + limit)" "list_all (\<lambda>t. \<exists>e. tk_read t = Fail e) waits"
    "list_all (\<lambda>t. tk_now_stall t < tk_now_read first + limit) later"
    using fill_starts [OF hd] by (auto simp: HEADER_LEN_def)
  obtain used where "lk_ticks l1 = used @ lk_ticks l'"
    "list_all (\<lambda>t. tk_now_stall t < tk_now_read first + limit) used"
    using pay ticks(2) fill_started by (fastforce simp: read_exact_interruptible_Some)
  with ticks show ?thesis
    by (intro exI [of _ waits] exI [of _ first] exI [of _ "later @ used"]) simp
qed

text \<open>
  A started frame has one clock. If the interruptible reader returns a frame, the passes
  it took are: waits in which nothing arrived (as many as the peer likes), the pass that
  received the first byte, and later passes for the rest of header and payload; every one of
  the later passes began before the first byte's time plus the stall limit, so a peer that
  trickles bytes cannot renew the deadline.
\<close>

theorem started_frame_deadline:
  assumes "read_frame_interruptible_validated_with latest deadline idle limit validate l
      = Some (Inr (Some (v, payload)), l')"
  shows "\<exists>waits first later. lk_ticks l = waits @ first # later @ lk_ticks l'
    \<and> list_all (\<lambda>t. \<exists>e. tk_read t = Fail e) waits
    \<and> list_all (\<lambda>t. tk_now_stall t < tk_now_read first + limit) later"
  by (rule started_frame_split [OF assms])

text \<open>
  The primary app-link reader with guarded admission: a frame it returns was admitted by
  the primary validator and was read completely, the host's admission decision for it was not
  to reject the session, and only a guarded call carries a capacity refusal, whose body has
  been consumed like any other so that the link stays in step.
\<close>

theorem primary_reader_admission:
  assumes "read_primary_app_frame_interruptible_with_admission latest pending priv admission l
      = Some (Inr (Some f), l')"
  shows "lk_in l = encode (pf_header f) @ pf_payload f @ lk_in l'
    \<and> validate_primary_app_header_with_privileged_calls pending priv (pf_header f) = Inr (pf_header f)
    \<and> length (pf_payload f) = unat (fh_len (pf_header f)) \<and> pf_admission f \<noteq> RejectSession
    \<and> (pf_admission f = AtCapacity \<longrightarrow> fh_kind (pf_header f) = Call
        \<and> (\<exists>e\<in>set priv. fh_channel (pf_header f) = ce_id e
             \<and> admission e (fh_corr (pf_header f)) = AtCapacity))"
proof -
  from assms obtain v adm payload where
    via: "read_frame_interruptible_validated_with latest None None APP_LINK_IO_DEADLINE
      (admit_primary_header pending priv admission) l = Some (Inr (Some ((v, adm), payload)), l')"
    and f: "f = \<lparr> pf_header = v, pf_payload = payload, pf_admission = adm \<rparr>"
    by (auto simp: read_primary_app_frame_interruptible_with_admission_def io_bind_Some io_return_def)
  from interruptible_frames.via_accepts [OF via [unfolded interruptible_via]]
  obtain h where h: "lk_in l = encode h @ payload @ lk_in l'" "length payload = unat (fh_len h)"
    and adm: "admit_primary_header pending priv admission h = Inr (v, adm)" by blast
  then have v: "validate_primary_app_header_with_privileged_calls pending priv h = Inr v"
    by (auto simp: admit_primary_header_def result_simps Let_def split: if_splits)
  then have "v = h" by (rule primary.validate_same)
  moreover have "adm \<noteq> RejectSession"
    using adm by (auto simp: admit_primary_header_def result_simps Let_def split: if_splits)
  moreover have "fh_kind h = Call \<and> (\<exists>e\<in>set priv. fh_channel h = ce_id e
      \<and> admission e (fh_corr h) = AtCapacity)" if "adm = AtCapacity"
    using adm that find_Some_in [of "\<lambda>e. fh_channel h = ce_id e" priv]
    by (fastforce simp: admit_primary_header_def result_simps Let_def split: if_splits option.splits)
  ultimately show ?thesis using h v by (simp add: f)
qed

section \<open>Handshake\<close>

abbreviation hello_header :: FrameHeader where
  "hello_header \<equiv> \<lparr> fh_kind = Hello, fh_flags = 0, fh_channel = 0, fh_corr = 0, fh_len = 32 \<rparr>"

lemma hello_admits: "admissible (hello dir) h \<longleftrightarrow> h = hello_header"
  unfolding admission_simps
  by (cases h) (auto simp: hello_def HANDSHAKE_CHANNEL_def SESSION_TOKEN_WIRE_LEN_def
      SESSION_TOKEN_LEN_def)

lemma verify_hello_iff: "token_wf token \<Longrightarrow> verify_hello_token payload token = Inr () \<longleftrightarrow> payload = token"
  by (auto simp: verify_hello_token_def try_from_slice_def token_wf_def token_eq_iff
      split: if_splits)

lemma write_hello_eq: "write_hello token = write_frame Hello 0 0 0 token"
  by (simp add: write_hello_def HANDSHAKE_CHANNEL_def)

lemma read_and_verify_hello_exact:
  assumes "read_and_verify_hello latest token (hello dir) l = Some (r, l')" "token_wf token"
  shows "lk_out l' = lk_out l \<and> lk_writes l' = lk_writes l
    \<and> (r = Inr () \<longrightarrow> lk_in l = encode hello_header @ token @ lk_in l')"
proof -
  from assms(1) obtain q where q: "read_validated_frame latest (hello dir) l = Some (q, l')"
    and r: "\<And>h p. q = Inr (h, p) \<Longrightarrow> r = verify_hello_token p token" "\<And>e. q = Inl e \<Longrightarrow> r = Inl e"
    by (auto simp: read_and_verify_hello_def io_bind_Some io_lift_def)
  have silent: "lk_out l' = lk_out l \<and> lk_writes l' = lk_writes l"
    using stalled_frames.via_silent [OF via_Some_frame [OF q]] .
  have "lk_in l = encode hello_header @ token @ lk_in l'" if "r = Inr ()"
  proof -
    from that r obtain h p where hp: "q = Inr (h, p)" by (cases q) auto
    then have "p = token" using that r(1) verify_hello_iff [OF assms(2)] by metis
    moreover have "lk_in l = encode h @ p @ lk_in l'" "admissible (hello dir) h"
      using stalled_frames.via_accepts [of latest "validate_received_header (hello dir)" l h p l']
        via_Some_frame [OF q] hp by (auto simp: validate_received_header_Inr)
    ultimately show ?thesis by (simp add: hello_admits)
  qed
  with silent show ?thesis by blast
qed

lemma interruptible_frame_delivers:
  assumes frame: "lk_in l = encode h @ payload @ rest"
    and len: "length payload = unat (fh_len h)" "length payload \<le> MAX_FRAME_LEN"
    and ok: "validate h = Inr v"
    and ticks: "delivery latest limit deadline t0 (HEADER_LEN + length payload + n) (lk_ticks l)"
  shows "\<exists>ts. read_frame_interruptible_validated_with latest deadline idle limit validate l =
      Some (Inr (Some (v, payload)), l\<lparr> lk_ticks := ts, lk_in := rest \<rparr>)"
proof -
  note front = encode_front [OF frame]
  obtain ts1 st1 where one: "read_exact_interruptible latest HEADER_LEN deadline idle None limit l
      = Some (Inr (True, encode h, st1), l\<lparr> lk_ticks := ts1, lk_in := payload @ rest \<rparr>)"
    "delivery latest limit deadline t0 (length payload + n) ts1" "stall_after (t0 + limit) st1"
    using fill_interruptible_delivers [of latest limit deadline t0 HEADER_LEN "[]"
        "length payload + n" "lk_ticks l" "lk_in l" None idle] ticks front
    by (auto simp: stall_after_def add.assoc read_exact_interruptible_Some)
  let ?l1 = "l\<lparr> lk_ticks := ts1, lk_in := payload @ rest \<rparr>"
  show ?thesis
  proof (cases "payload = []")
    case True
    with one(1) ok len show ?thesis
      by (auto simp: read_frame_interruptible_validated_with_def frame_header.dec_enc io_return_def
          ensure_payload_len_def Let_def)
  next
    case False
    then have "0 < unat (fh_len h)" using len by (metis length_greater_0_conv)
    moreover obtain ts2 st2 where
      "read_exact_interruptible latest (unat (fh_len h)) deadline None st1 limit ?l1
        = Some (Inr (True, payload, st2), l\<lparr> lk_ticks := ts2, lk_in := rest \<rparr>)"
      using fill_interruptible_delivers [of latest limit deadline t0 "unat (fh_len h)" "[]" n ts1
          "payload @ rest" st1 None] one len
      by (auto simp: read_exact_interruptible_Some)
    ultimately show ?thesis using one(1) ok len
      by (auto simp: read_frame_interruptible_validated_with_def frame_header.dec_enc io_return_def
          ensure_payload_len_def Let_def)
  qed
qed

text \<open>An environment that delivers one call frame on the filesystem channel, byte by byte.\<close>

definition fs_call_link :: Link where
  "fs_call_link =
     \<lparr> lk_in = encode \<lparr> fh_kind = Call, fh_flags = 0, fh_channel = 2, fh_corr = 7, fh_len = 2 \<rparr> @ [1, 2],
       lk_ticks = replicate 20 steady_tick, lk_writes = [], lk_out = [] \<rparr>"

lemma fs_call_delivery: "delivery 100000 APP_LINK_IO_DEADLINE None 10 (HEADER_LEN + 2 + 0) (lk_ticks fs_call_link)"
  using steady_delivery [of APP_LINK_IO_DEADLINE 100000 "HEADER_LEN + 2" 20]
  by (simp add: APP_LINK_IO_DEADLINE_def HEADER_LEN_def fs_call_link_def)

theorem started_frame_deadline_witness:
  "\<exists>v l'. read_frame_interruptible_validated_with 100000 None None APP_LINK_IO_DEADLINE Inr fs_call_link
      = Some (Inr (Some (v, [1, 2])), l')
    \<and> (\<exists>waits first later. lk_ticks fs_call_link = waits @ first # later @ lk_ticks l'
        \<and> list_all (\<lambda>t. tk_now_stall t < tk_now_read first + 5000) later)"
proof -
  let ?h = "\<lparr> fh_kind = Call, fh_flags = 0, fh_channel = 2, fh_corr = 7, fh_len = 2 \<rparr>"
  obtain ts where ret: "read_frame_interruptible_validated_with 100000 None None APP_LINK_IO_DEADLINE Inr
      fs_call_link = Some (Inr (Some (?h, [1, 2])), fs_call_link\<lparr> lk_ticks := ts, lk_in := [] \<rparr>)"
    using interruptible_frame_delivers [of fs_call_link ?h "[1, 2]" "[]" Inr ?h 100000
        APP_LINK_IO_DEADLINE None 10 0 None] fs_call_delivery
    by (auto simp: fs_call_link_def MAX_FRAME_LEN_def)
  from started_frame_deadline [OF ret] ret show ?thesis
    unfolding APP_LINK_IO_DEADLINE_def by blast
qed

theorem primary_reader_admission_witness:
  "\<exists>f l'. read_primary_app_frame_interruptible_with_admission 100000 None [FS] (\<lambda>_ _. AtCapacity)
      fs_call_link = Some (Inr (Some f), l')
    \<and> pf_payload f = [1, 2] \<and> pf_admission f = AtCapacity \<and> fh_kind (pf_header f) = Call"
proof -
  let ?h = "\<lparr> fh_kind = Call, fh_flags = 0, fh_channel = 2, fh_corr = 7, fh_len = 2 \<rparr>"
  have "validate_primary_app_header_with_privileged_calls None [FS] ?h = Inr ?h"
    by (simp add: validate_primary_app_header_with_privileged_calls_def channel_table_defs
        privileged_call_receiver_def validate_received_header_Inr admission_simps)
  then have "admit_primary_header None [FS] (\<lambda>_ _. AtCapacity) ?h = Inr (?h, AtCapacity)"
    by (simp add: admit_primary_header_def channel_table_defs)
  then obtain ts where ret: "read_frame_interruptible_validated_with 100000 None None
      APP_LINK_IO_DEADLINE (admit_primary_header None [FS] (\<lambda>_ _. AtCapacity)) fs_call_link
      = Some (Inr (Some ((?h, AtCapacity), [1, 2])), fs_call_link\<lparr> lk_ticks := ts, lk_in := [] \<rparr>)"
    using interruptible_frame_delivers [of fs_call_link ?h "[1, 2]" "[]" _ "(?h, AtCapacity)" 100000
        APP_LINK_IO_DEADLINE None 10 0 None] fs_call_delivery
    by (auto simp: fs_call_link_def MAX_FRAME_LEN_def)
  let ?f = "\<lparr> pf_header = ?h, pf_payload = [1, 2], pf_admission = AtCapacity \<rparr>"
  from ret have "read_primary_app_frame_interruptible_with_admission 100000 None [FS]
      (\<lambda>_ _. AtCapacity) fs_call_link
      = Some (Inr (Some ?f), fs_call_link\<lparr> lk_ticks := ts, lk_in := [] \<rparr>)"
    by (simp add: read_primary_app_frame_interruptible_with_admission_def io_return_def)
  with primary_reader_admission [OF this] show ?thesis by (intro exI [of _ ?f]) auto
qed

lemma read_until_exact:
  assumes "read_validated_frame_interruptible_until latest p deadline l = Some (r, l')"
  shows "lk_out l' = lk_out l \<and> lk_writes l' = lk_writes l
    \<and> (\<forall>h payload. r = Inr (Some (h, payload))
        \<longrightarrow> lk_in l = encode h @ payload @ lk_in l' \<and> admissible p h)"
proof -
  let ?validate = "\<lambda>h. and_then (validate_received_header p h) (\<lambda>_. Inr h)"
  from assms obtain q where
    q: "read_frame_interruptible_validated_with latest (Some deadline) None APP_LINK_IO_DEADLINE
      ?validate l = Some (q, l')"
    and r: "\<And>f. q = Inr f \<Longrightarrow> r = mint_validated p f" "\<And>e. q = Inl e \<Longrightarrow> r = Inl e"
    by (auto simp: read_validated_frame_interruptible_until_def io_bind_Some io_lift_def
        read_frame_interruptible_with_limits_def)
  note via = q [unfolded interruptible_via]
  have "lk_in l = encode h @ payload @ lk_in l' \<and> admissible p h"
    if frame: "r = Inr (Some (h, payload))" for h payload
  proof -
    obtain g where g: "q = Inr (Some (g, payload))" "validate_received_header p g = Inr h"
      using frame r by (cases q) (auto simp: mint_validated_def result_simps split: option.splits)
    then show ?thesis
      using interruptible_frames.via_accepts [OF via [unfolded g(1)]]
      by (auto simp: result_simps validate_received_header_Inr)
  qed
  with interruptible_frames.via_silent [OF via] show ?thesis by blast
qed

text \<open>
  C11. The server never shows the token to a peer that has not shown it first: whatever the
  peer sends and however the environment behaves, if either server handshake writes a single
  byte then the stream began with the \<open>HELLO\<close> header and exactly the session token. Success
  implies the same.
\<close>

theorem server_token_secrecy:
  assumes "token_wf token"
  shows "(handshake_server latest token l = Some (r, l') \<longrightarrow>
      lk_out l' \<noteq> lk_out l \<or> r = Inr () \<longrightarrow> (\<exists>rest. lk_in l = encode hello_header @ token @ rest))
    \<and> (handshake_server_interruptible_until latest token deadline stop_after now_after l = Some (b, l')
      \<longrightarrow> lk_out l' \<noteq> lk_out l \<or> b = Inr True
      \<longrightarrow> (\<exists>rest. lk_in l = encode hello_header @ token @ rest))"
proof (intro conjI impI)
  assume ret: "handshake_server latest token l = Some (r, l')"
    and wrote: "lk_out l' \<noteq> lk_out l \<or> r = Inr ()"
  obtain q l1 where q: "read_and_verify_hello latest token (hello FromClient) l = Some (q, l1)"
    and q2: "\<And>e. q = Inl e \<Longrightarrow> r = Inl e \<and> l' = l1"
    using ret by (auto simp: handshake_server_def io_bind_Some server_pre_auth_hello_def)
  have "q = Inr ()" using q2 wrote read_and_verify_hello_exact [OF q assms] by (cases q) auto
  then show "\<exists>rest. lk_in l = encode hello_header @ token @ rest"
    using read_and_verify_hello_exact [OF q assms] by auto
next
  assume ret: "handshake_server_interruptible_until latest token deadline stop_after now_after l
      = Some (b, l')" and wrote: "lk_out l' \<noteq> lk_out l \<or> b = Inr True"
  obtain q l1 where q: "read_validated_frame_interruptible_until latest server_pre_auth_hello
      deadline l = Some (q, l1)"
    using ret by (auto simp: handshake_server_interruptible_until_def io_bind_Some)
  note exact = read_until_exact [OF q]
  obtain h p where hp: "q = Inr (Some (h, p))" "verify_hello_token p token = Inr ()"
  proof (cases "\<exists>h p. q = Inr (Some (h, p)) \<and> verify_hello_token p token = Inr ()")
    case False
    then have "l' = l1 \<and> b \<noteq> Inr True"
      using ret q by (cases q) (auto simp: handshake_server_interruptible_until_def io_return_def
          io_lift_def split: option.splits if_splits sum.splits)
    with wrote exact show thesis by auto
  qed blast
  then have "p = token" using verify_hello_iff [OF assms] by blast
  with exact hp show "\<exists>rest. lk_in l = encode hello_header @ token @ rest"
    by (auto simp: server_pre_auth_hello_def hello_admits)
qed

lemma read_and_verify_hello_delivers:
  assumes "lk_in l = encode hello_header @ sent @ rest" "token_wf sent"
    and "delivery latest APP_LINK_IO_DEADLINE None t0 48 (lk_ticks l)"
  shows "\<exists>ts. read_and_verify_hello latest token (hello dir) l
    = Some (verify_hello_token sent token, l\<lparr> lk_ticks := ts, lk_in := rest \<rparr>)"
proof -
  have len: "length sent = 32" using assms(2) by (simp add: token_wf_def SESSION_TOKEN_LEN_def)
  obtain ts where "read_validated_frame latest (hello dir) l
      = Some (Inr (hello_header, sent), l\<lparr> lk_ticks := ts, lk_in := rest \<rparr>)"
    using read_validated_frame_delivers [of l hello_header sent rest "hello dir" latest t0 0] assms len
    by (auto simp: hello_admits MAX_FRAME_LEN_def HEADER_LEN_def)
  then show ?thesis by (auto simp: read_and_verify_hello_def io_lift_def)
qed

lemma write_hello_ok:
  assumes "token_wf token" "list_all (\<lambda>w. w = Wrote) (lk_writes l)"
  shows "\<exists>ws. write_hello token l = Some (Inr (),
      l\<lparr> lk_writes := ws, lk_out := lk_out l @ encode hello_header @ token \<rparr>)"
proof -
  have "length token = 32" using assms(1) by (simp add: token_wf_def SESSION_TOKEN_LEN_def)
  then show ?thesis
    using write_frame_ok [of token l Hello 0 0 0] assms(2)
    by (auto simp: write_hello_eq MAX_FRAME_LEN_def)
qed

lemma verify_hello_mismatch:
  "token_wf sent \<Longrightarrow> token_wf token \<Longrightarrow> sent \<noteq> token
    \<Longrightarrow> verify_hello_token sent token = Inl (HelloAuth ''HELLO session token mismatch'')"
  by (simp add: verify_hello_token_def try_from_slice_def token_wf_def token_eq_iff)

theorem server_token_secrecy_witness:
  "\<exists>r l'. handshake_server 100000 (replicate 32 7)
       \<lparr> lk_in = encode hello_header @ replicate 32 8, lk_ticks = replicate 48 steady_tick,
         lk_writes = [], lk_out = [] \<rparr> = Some (r, l') \<and> lk_out l' = []"
proof -
  let ?t = "replicate 32 7 :: bytes" and ?u = "replicate 32 8 :: bytes"
  let ?l = "\<lparr> lk_in = encode hello_header @ ?u, lk_ticks = replicate 48 steady_tick,
         lk_writes = [], lk_out = [] \<rparr>"
  have wf: "token_wf ?t" "token_wf ?u" by (simp_all add: token_wf_def SESSION_TOKEN_LEN_def)
  have other: "?u \<noteq> ?t @ rest" for rest
    by (rule notI, drule arg_cong [where f = hd]) (simp add: hd_append)
  have "delivery 100000 APP_LINK_IO_DEADLINE None 10 48 (lk_ticks ?l)"
    using steady_delivery [of APP_LINK_IO_DEADLINE 100000 48 48] by (simp add: APP_LINK_IO_DEADLINE_def)
  with read_and_verify_hello_delivers [of ?l ?u "[]" 100000 10 ?t FromClient] wf
  obtain r l' where ret: "handshake_server 100000 ?t ?l = Some (r, l')"
    using verify_hello_mismatch [OF wf(2,1)] other [of "[]"]
    by (auto simp: handshake_server_def server_pre_auth_hello_def)
  moreover have "lk_out l' = []"
    using server_token_secrecy [OF wf(1), of 100000 ?l r l'] ret other by auto
  ultimately show ?thesis by blast
qed

lemma handshake_server_delivers:
  assumes "token_wf sent" "token_wf token" "list_all (\<lambda>w. w = Wrote) (lk_writes s)"
    and "lk_in s = encode hello_header @ sent @ rest" "delivery latest APP_LINK_IO_DEADLINE None t0 48 (lk_ticks s)"
  shows "\<exists>s'. handshake_server latest token s = Some (verify_hello_token sent token, s')
    \<and> lk_out s' = lk_out s @ (if sent = token then encode hello_header @ token else []) \<and> lk_in s' = rest"
proof -
  obtain u where read: "read_and_verify_hello latest token (hello FromClient) s
      = Some (verify_hello_token sent token, s\<lparr> lk_ticks := u, lk_in := rest \<rparr>)"
    using read_and_verify_hello_delivers [OF assms(4,1,5)] by blast
  let ?s1 = "s\<lparr> lk_ticks := u, lk_in := rest \<rparr>"
  obtain ws where "write_hello token ?s1 = Some (Inr (),
      ?s1\<lparr> lk_writes := ws, lk_out := lk_out s @ encode hello_header @ token \<rparr>)"
    using write_hello_ok [OF assms(2), of ?s1] assms(3) by auto
  with read verify_hello_iff [OF assms(2), of sent] verify_hello_mismatch [OF assms(1,2)] show ?thesis
    by (cases "sent = token") (simp_all add: handshake_server_def server_pre_auth_hello_def)
qed

lemma handshake_client_delivers:
  assumes "token_wf sent" "token_wf token" "list_all (\<lambda>w. w = Wrote) (lk_writes c)"
    and "lk_in c = encode hello_header @ sent @ rest" "delivery latest APP_LINK_IO_DEADLINE None t0 48 (lk_ticks c)"
  shows "\<exists>c'. handshake_client latest token c = Some (verify_hello_token sent token, c')
    \<and> lk_out c' = lk_out c @ encode hello_header @ token \<and> lk_in c' = rest"
proof -
  obtain ws where wrote: "write_hello token c = Some (Inr (),
      c\<lparr> lk_writes := ws, lk_out := lk_out c @ encode hello_header @ token \<rparr>)"
    using write_hello_ok [OF assms(2,3)] by blast
  let ?c1 = "c\<lparr> lk_writes := ws, lk_out := lk_out c @ encode hello_header @ token \<rparr>"
  have "lk_in ?c1 = encode hello_header @ sent @ rest" "delivery latest APP_LINK_IO_DEADLINE None t0 48 (lk_ticks ?c1)"
    using assms(4,5) by simp_all
  from read_and_verify_hello_delivers [OF this(1) assms(1) this(2), of token FromServer] wrote show ?thesis
    by (auto simp: handshake_client_def client_await_hello_def)
qed

text \<open>
  A writer reads nothing, consumes the write results it meets in order, and returns a value only
  when every one of them was a success.
\<close>

definition writes_only :: "'a io \<Rightarrow> bool" where
  "writes_only m \<longleftrightarrow> (\<forall>l r l'. m l = Some (r, l') \<longrightarrow> lk_in l' = lk_in l
     \<and> (\<exists>used. lk_writes l = used @ lk_writes l' \<and> ((\<exists>a. r = Inr a) \<longrightarrow> list_all (\<lambda>w. w = Wrote) used)))"

lemma writes_onlyD:
  assumes "writes_only m" "m l = Some (r, l')"
  obtains used where "lk_in l' = lk_in l" "lk_writes l = used @ lk_writes l'" "\<And>a. r = Inr a \<Longrightarrow> list_all (\<lambda>w. w = Wrote) used"
  using assms that unfolding writes_only_def by metis

lemma writes_only_pure: "writes_only (io_return a)" "writes_only (io_lift x)"
  by (auto simp: writes_only_def io_return_def io_lift_def)

lemma writes_only_bind:
  assumes "writes_only m" "\<And>a. writes_only (f a)"
  shows "writes_only (io_bind m f)"
  unfolding writes_only_def
proof (intro allI impI)
  fix l r l'
  assume "io_bind m f l = Some (r, l')"
  then consider e where "m l = Some (Inl e, l')" "r = Inl e"
    | a l1 where "m l = Some (Inr a, l1)" "f a l1 = Some (r, l')" by (auto simp: io_bind_Some)
  then show "lk_in l' = lk_in l \<and> (\<exists>used. lk_writes l = used @ lk_writes l' \<and> ((\<exists>a. r = Inr a) \<longrightarrow> list_all (\<lambda>w. w = Wrote) used))"
  proof cases
    case 1
    then show ?thesis by (auto elim!: writes_onlyD [OF assms(1)])
  next
    case (2 a l1)
    obtain used where "lk_in l1 = lk_in l" "lk_writes l = used @ lk_writes l1" "list_all (\<lambda>w. w = Wrote) used"
      using writes_onlyD [OF assms(1) 2(1)] by metis
    moreover obtain more where "lk_in l' = lk_in l1" "lk_writes l1 = more @ lk_writes l'" "\<And>a. r = Inr a \<Longrightarrow> list_all (\<lambda>w. w = Wrote) more"
      using writes_onlyD [OF assms(2) 2(2)] by metis
    ultimately show ?thesis by (intro conjI exI [of _ "used @ more"]) auto
  qed
qed

lemma writes_only_write_all: "writes_only (write_all bs)" "writes_only flush"
  by (auto simp: writes_only_def write_all_def flush_def split: list.splits WriteEvent.splits)

lemma write_frame_writes_only: "writes_only (write_frame kind flags channel corr payload)"
  unfolding write_frame_def by (intro writes_only_bind) (simp_all add: writes_only_pure writes_only_write_all)

text \<open>
  C12. Client and server agree on the token, each checking the other. When both \<open>HELLO\<close>s arrive in
  time and writes go through, both handshakes return: both accept when the tokens are equal, and
  when they differ both refuse with the authentication error; the client has always sent exactly
  its own \<open>HELLO\<close>, the server answers with exactly one \<open>HELLO\<close> when it accepts and with nothing when it
  refuses, and neither reads a byte past the \<open>HELLO\<close>. On any stream whatever and however the environment behaves, a
  client that accepts has read the \<open>HELLO\<close> header and exactly its own token from the server.
\<close>

theorem handshake_agreement:
  assumes "token_wf tc" "token_wf tsv"
    and "list_all (\<lambda>w. w = Wrote) (lk_writes c)" "list_all (\<lambda>w. w = Wrote) (lk_writes s)"
    and "lk_in s = encode hello_header @ tc @ rest" "lk_in c = encode hello_header @ tsv @ rest'"
    and "delivery latest APP_LINK_IO_DEADLINE None t0 48 (lk_ticks s)"
    and "delivery latest APP_LINK_IO_DEADLINE None t1 48 (lk_ticks c)"
  shows "(let verdict = if tc = tsv then Inr () else Inl (HelloAuth ''HELLO session token mismatch'') in
      \<exists>s' c'. handshake_server latest tsv s = Some (verdict, s') \<and> handshake_client latest tc c = Some (verdict, c')
        \<and> lk_out s' = lk_out s @ (if tc = tsv then encode hello_header @ tsv else [])
        \<and> lk_out c' = lk_out c @ encode hello_header @ tc \<and> lk_in s' = rest \<and> lk_in c' = rest')
    \<and> (handshake_client latest tc l = Some (Inr (), l') \<longrightarrow> lk_in l = encode hello_header @ tc @ lk_in l')"
proof -
  let ?verdict = "if tc = tsv then Inr () else Inl (HelloAuth ''HELLO session token mismatch'')"
  have server: "verify_hello_token tc tsv = ?verdict"
    using verify_hello_iff [OF assms(2), of tc] verify_hello_mismatch [OF assms(1,2)] by auto
  have client: "verify_hello_token tsv tc = ?verdict"
    using verify_hello_iff [OF assms(1), of tsv] verify_hello_mismatch [OF assms(2,1)] by auto
  have "lk_in l = encode hello_header @ tc @ lk_in l'" if accepts: "handshake_client latest tc l = Some (Inr (), l')"
  proof -
    from accepts obtain l1 where "write_hello tc l = Some (Inr (), l1)"
        "read_and_verify_hello latest tc (hello FromServer) l1 = Some (Inr (), l')"
      by (auto simp: handshake_client_def client_await_hello_def io_bind_Some)
    moreover from this(1) have "lk_in l1 = lk_in l"
      by (metis writes_onlyD write_frame_writes_only write_hello_eq)
    ultimately show ?thesis using read_and_verify_hello_exact [OF _ assms(1)] by metis
  qed
  with handshake_server_delivers [OF assms(1,2,4,5,7)] handshake_client_delivers [OF assms(2,1,3,6,8)] show ?thesis
    unfolding server client Let_def by blast
qed

text \<open>A client that is answered with another token refuses.\<close>

theorem handshake_agreement_witness:
  "\<exists>s' c'. handshake_server 100000 (replicate 32 8)
       \<lparr> lk_in = encode hello_header @ replicate 32 7, lk_ticks = replicate 48 steady_tick, lk_writes = [], lk_out = [] \<rparr>
      = Some (Inl (HelloAuth ''HELLO session token mismatch''), s')
    \<and> lk_out s' = []
    \<and> handshake_client 100000 (replicate 32 7)
       \<lparr> lk_in = encode hello_header @ replicate 32 8, lk_ticks = replicate 48 steady_tick, lk_writes = [], lk_out = [] \<rparr>
      = Some (Inl (HelloAuth ''HELLO session token mismatch''), c')"
proof -
  let ?t = "replicate 32 7 :: bytes" and ?u = "replicate 32 8 :: bytes"
  let ?link = "\<lambda>token. \<lparr> lk_in = encode hello_header @ token, lk_ticks = replicate 48 steady_tick, lk_writes = [], lk_out = [] \<rparr>"
  have "token_wf ?t" "token_wf ?u" by (simp_all add: token_wf_def SESSION_TOKEN_LEN_def)
  moreover have "delivery 100000 APP_LINK_IO_DEADLINE None 10 48 (replicate 48 steady_tick)"
    using steady_delivery [of APP_LINK_IO_DEADLINE 100000 48 48] by (simp add: APP_LINK_IO_DEADLINE_def)
  ultimately show ?thesis
    using handshake_agreement [of ?t ?u "?link ?u" "?link ?t" "[]" "[]" 100000 10 10 "?link ?t" "?link ?t"]
    by (simp add: Let_def) blast
qed

end
