(* ===== verification/Kipc_Session.thy ===== *)
theory Kipc_Session
  imports Kipc_Link
begin

text \<open>
  Echo sessions and the wire error of a failed call (\<open>crates/keld-ipc/src/session.rs\<close>,
  \<open>echo.rs\<close>, \<open>codec.rs\<close>, \<open>call_error.rs\<close>). The payload codec is the third-party postcard
  crate: \<open>take_from_bytes\<close> and \<open>to_allocvec\<close> are arguments of the definitions, one pair per
  payload type, and a theorem that needs their documented round trip says so. The serving
  loops are recursive functions; each turn consumes at least one pass of the schedule.
\<close>

section \<open>Payload codec\<close>

definition decode_payload :: "(bytes \<Rightarrow> ('a \<times> bytes) option) \<Rightarrow> bytes \<Rightarrow> IpcError + 'a" where
  "decode_payload take_from_bytes payload =
     (case take_from_bytes payload of
        None \<Rightarrow> Inl Codec
      | Some (value, rest) \<Rightarrow> if rest = [] then Inr value else Inl Codec)"

definition encode_payload :: "('a \<Rightarrow> bytes option) \<Rightarrow> 'a \<Rightarrow> IpcError + bytes" where
  "encode_payload to_allocvec value = ok_or (to_allocvec value) Codec"

section \<open>Echo\<close>

record EchoRequest =
  erq_message :: string
  erq_count :: u32

record EchoResponse =
  ers_message :: string
  ers_count :: u32

definition handle_echo ::
  "(bytes \<Rightarrow> (EchoRequest \<times> bytes) option) \<Rightarrow> (EchoResponse \<Rightarrow> bytes option) \<Rightarrow> bytes \<Rightarrow> IpcError + bytes" where
  "handle_echo take_req to_res payload =
     and_then (decode_payload take_req payload) (\<lambda>req.
     encode_payload to_res \<lparr> ers_message = erq_message req, ers_count = erq_count req \<rparr>)"

definition serve_echo_frame ::
  "(bytes \<Rightarrow> (EchoRequest \<times> bytes) option) \<Rightarrow> (EchoResponse \<Rightarrow> bytes option)
    \<Rightarrow> ValidatedFrameHeader \<Rightarrow> bytes \<Rightarrow> unit io" where
  "serve_echo_frame take_req to_res header payload =
     (case fh_kind header of
        Call \<Rightarrow> io_bind (io_lift (handle_echo take_req to_res payload)) (\<lambda>reply.
                write_frame Reply 0 ECHO_CHANNEL (fh_corr header) reply)
      | Ping \<Rightarrow> write_frame Ping 0 (fh_channel header) (fh_corr header) []
      | _ \<Rightarrow> io_lift (Inl (Protocol ''unexpected frame kind in echo session'')))"

text \<open>\<open>windows\<close> selects the platform's extra end-of-pipe codes.\<close>

definition is_orderly_peer_eof :: "bool \<Rightarrow> IoError \<Rightarrow> bool \<Rightarrow> bool" where
  "is_orderly_peer_eof windows err frame_started =
     (if frame_started then False
      else if io_kind err = UnexpectedEof then True
      else windows \<and> raw_os_error err \<in> {Some 109, Some 232, Some 233})"

lemma fill_stalled_consumes:
  "fill_stalled latest limit len acc stall ts inp = Some (r, ts', inp') \<Longrightarrow>
     length ts' \<le> length ts \<and> (length acc < len \<longrightarrow> length ts' < length ts)"
  by (induction ts arbitrary: acc stall inp)
    (fastforce split: if_splits sum.splits prod.splits)+

lemma fill_interruptible_consumes:
  "fill_interruptible latest deadline idle limit len acc stall ts inp = Some (r, ts', inp') \<Longrightarrow>
     length ts' \<le> length ts \<and> (length acc < len \<longrightarrow> length ts' < length ts)"
  by (induction ts arbitrary: acc stall inp)
    (fastforce split: if_splits sum.splits prod.splits)+

lemma write_all_keeps:
  "write_all bs l = Some (r, l') \<Longrightarrow> lk_ticks l' = lk_ticks l \<and> lk_in l' = lk_in l"
  by (auto simp: write_all_def split: list.splits WriteEvent.splits)

lemma flush_keeps: "flush l = Some (r, l') \<Longrightarrow> lk_ticks l' = lk_ticks l \<and> lk_in l' = lk_in l"
  by (auto simp: flush_def split: list.splits WriteEvent.splits)

lemma write_frame_ticks:
  "write_frame kind flags channel corr payload l = Some (r, l') \<Longrightarrow>
     lk_ticks l' = lk_ticks l \<and> lk_in l' = lk_in l"
  by (auto simp: write_frame_def io_bind_Some io_lift_def io_return_def simp del: io_lift_bind
      split: if_splits dest!: write_all_keeps flush_keeps)

lemma serve_echo_frame_ticks:
  "serve_echo_frame take_req to_res header payload l = Some (r, l') \<Longrightarrow>
     lk_ticks l' = lk_ticks l \<and> lk_in l' = lk_in l"
  by (auto simp: serve_echo_frame_def io_lift_def split: FrameKind.splits sum.splits
      dest: write_frame_ticks)

lemma read_validated_frame_ticks:
  assumes "read_validated_frame latest p l = Some (Inr f, l')"
  shows "length (lk_ticks l') < length (lk_ticks l)"
proof -
  from via_Some_frame [OF assms] obtain v payload where
    "frame_via (stalled_fill latest HEADER_LEN None) (stalled_fill latest)
      (validate_received_header p) l = Some (Inr (Some (v, payload)), l')" by (cases f) simp
  then obtain hb stall l1 where
    one: "stalled_fill latest HEADER_LEN None l = Some (Inr (True, hb, stall), l1)"
    and two: "l' = l1 \<or> (\<exists>n st. stalled_fill latest n stall l1 = Some (Inr (True, payload, st), l'))"
    by (rule frame_via_filled)
  have consumes: "length (lk_ticks m') \<le> length (lk_ticks m)
      \<and> (0 < n \<longrightarrow> length (lk_ticks m') < length (lk_ticks m))"
    if "stalled_fill latest n s m = Some (q, m')" for n s q and m m' :: Link
    using that
    by (auto simp: stalled_fill_def io_bind_Some io_return_def read_exact_stalled_def
        read_exact_stalled_with_def split: option.splits dest!: fill_stalled_consumes)
  show ?thesis using consumes [OF one] two consumes by (fastforce simp: HEADER_LEN_def)
qed

section \<open>Serving loops\<close>

function serve_echo_requests ::
  "bool \<Rightarrow> Instant \<Rightarrow> (bytes \<Rightarrow> (EchoRequest \<times> bytes) option) \<Rightarrow> (EchoResponse \<Rightarrow> bytes option)
    \<Rightarrow> unit io" where
  "serve_echo_requests windows latest take_req to_res l =
     (case read_validated_frame latest echo_receiver l of
        None \<Rightarrow> None
      | Some (Inl (Io err), l1) \<Rightarrow>
          if is_orderly_peer_eof windows err (length (lk_in l1) < length (lk_in l))
          then Some (Inr (), l1) else Some (Inl (Io err), l1)
      | Some (Inl e, l1) \<Rightarrow> Some (Inl e, l1)
      | Some (Inr (header, payload), l1) \<Rightarrow>
          (case serve_echo_frame take_req to_res header payload l1 of
             None \<Rightarrow> None
           | Some (Inl e, l2) \<Rightarrow> Some (Inl e, l2)
           | Some (Inr _, l2) \<Rightarrow> serve_echo_requests windows latest take_req to_res l2))"
  by pat_completeness auto
termination
  by (relation "measure (\<lambda>(_, _, _, _, l). length (lk_ticks l))")
    (auto dest!: read_validated_frame_ticks serve_echo_frame_ticks)

declare serve_echo_requests.simps [simp del]

text \<open>
  The interruptible variant. \<open>set_poll\<close> is the outcome of setting the reader's poll interval
  on the socket.
\<close>

lemma interruptible_frame_ticks:
  assumes "read_validated_frame_interruptible latest p l = Some (Inr (Some f), l')"
  shows "length (lk_ticks l') < length (lk_ticks l)"
proof -
  from assms obtain h payload where
    "read_frame_interruptible_validated_with latest None None APP_LINK_IO_DEADLINE
      (\<lambda>h. and_then (validate_received_header p h) (\<lambda>_. Inr h)) l = Some (Inr (Some (h, payload)), l')"
    by (auto simp: read_validated_frame_interruptible_def io_bind_Some io_lift_def mint_validated_def
        read_frame_interruptible_with_limits_def result_simps split: option.splits)
  from started_frame_split [OF this] obtain waits t later where
    "lk_ticks l = waits @ t # later @ lk_ticks l'" by blast
  then show ?thesis by simp
qed

function echo_loop_until_stopped ::
  "bool \<Rightarrow> Instant \<Rightarrow> (bytes \<Rightarrow> (EchoRequest \<times> bytes) option) \<Rightarrow> (EchoResponse \<Rightarrow> bytes option)
    \<Rightarrow> unit io" where
  "echo_loop_until_stopped windows latest take_req to_res l =
     (case read_validated_frame_interruptible latest echo_receiver l of
        None \<Rightarrow> None
      | Some (Inr None, l1) \<Rightarrow> Some (Inr (), l1)
      | Some (Inl (Io err), l1) \<Rightarrow>
          if is_orderly_peer_eof windows err (length (lk_in l1) < length (lk_in l))
          then Some (Inr (), l1) else Some (Inl (Io err), l1)
      | Some (Inl e, l1) \<Rightarrow> Some (Inl e, l1)
      | Some (Inr (Some (header, payload)), l1) \<Rightarrow>
          (case serve_echo_frame take_req to_res header payload l1 of
             None \<Rightarrow> None
           | Some (Inl e, l2) \<Rightarrow> Some (Inl e, l2)
           | Some (Inr _, l2) \<Rightarrow> echo_loop_until_stopped windows latest take_req to_res l2))"
  by pat_completeness auto
termination
  by (relation "measure (\<lambda>(_, _, _, _, l). length (lk_ticks l))")
    (auto dest!: interruptible_frame_ticks serve_echo_frame_ticks)

declare echo_loop_until_stopped.simps [simp del]

definition serve_echo_requests_until_stopped ::
  "IoError + unit \<Rightarrow> bool \<Rightarrow> Instant \<Rightarrow> (bytes \<Rightarrow> (EchoRequest \<times> bytes) option)
    \<Rightarrow> (EchoResponse \<Rightarrow> bytes option) \<Rightarrow> unit io" where
  "serve_echo_requests_until_stopped set_poll windows latest take_req to_res =
     io_bind (io_lift (map_sum ipc_from_io id set_poll)) (\<lambda>_.
       echo_loop_until_stopped windows latest take_req to_res)"

definition serve_echo_session_until_stopped ::
  "IoError + unit \<Rightarrow> IoError + unit \<Rightarrow> bool \<Rightarrow> Instant \<Rightarrow> (bytes \<Rightarrow> (EchoRequest \<times> bytes) option)
    \<Rightarrow> (EchoResponse \<Rightarrow> bytes option) \<Rightarrow> SessionToken \<Rightarrow> unit io" where
  "serve_echo_session_until_stopped set_deadlines set_poll windows latest take_req to_res token =
     io_bind (io_lift (map_sum ipc_from_io id set_deadlines)) (\<lambda>_.
     io_bind (handshake_server latest token) (\<lambda>_.
       serve_echo_requests_until_stopped set_poll windows latest take_req to_res))"

definition echo_invoke ::
  "Instant \<Rightarrow> (EchoRequest \<Rightarrow> bytes option) \<Rightarrow> (bytes \<Rightarrow> (EchoResponse \<times> bytes) option)
    \<Rightarrow> EchoRequest \<Rightarrow> CorrelationId \<Rightarrow> EchoResponse io" where
  "echo_invoke latest to_req take_res request corr =
     (if corr = 0 then io_lift (Inl (Protocol ''echo CALL correlation id 0 is reserved for HELLO''))
      else
        io_bind (io_lift (encode_payload to_req request)) (\<lambda>payload.
        io_bind (write_frame Call 0 ECHO_CHANNEL corr payload) (\<lambda>_.
        io_bind (read_validated_frame latest (echo_reply_waiter corr)) (\<lambda>(_, reply).
        io_lift (decode_payload take_res reply)))))"

definition echo_call ::
  "IoError + unit \<Rightarrow> Instant \<Rightarrow> (EchoRequest \<Rightarrow> bytes option) \<Rightarrow> (bytes \<Rightarrow> (EchoResponse \<times> bytes) option)
    \<Rightarrow> EchoRequest \<Rightarrow> SessionToken \<Rightarrow> EchoResponse io" where
  "echo_call set_deadlines latest to_req take_res request token =
     io_bind (io_lift (map_sum ipc_from_io id set_deadlines)) (\<lambda>_.
     io_bind (handshake_client latest token) (\<lambda>_.
       echo_invoke latest to_req take_res request 1))"

section \<open>Properties\<close>

definition echo_call_header :: "CorrelationId \<Rightarrow> bytes \<Rightarrow> FrameHeader" where
  "echo_call_header corr payload = \<lparr> fh_kind = Call, fh_flags = 0, fh_channel = 1, fh_corr = corr,
     fh_len = of_nat (length payload) \<rparr>"

definition echo_reply_header :: "CorrelationId \<Rightarrow> bytes \<Rightarrow> FrameHeader" where
  "echo_reply_header corr payload = \<lparr> fh_kind = Reply, fh_flags = 0, fh_channel = 1, fh_corr = corr,
     fh_len = of_nat (length payload) \<rparr>"

definition echo_of :: "EchoRequest \<Rightarrow> EchoResponse" where
  "echo_of req = \<lparr> ers_message = erq_message req, ers_count = erq_count req \<rparr>"

text \<open>The wire text of a list of requests and of the list of their replies.\<close>

fun request_stream :: "(EchoRequest \<Rightarrow> bytes) \<Rightarrow> (CorrelationId \<times> EchoRequest) list \<Rightarrow> bytes" where
  "request_stream enc [] = []"
| "request_stream enc ((c, r) # rs) = encode (echo_call_header c (enc r)) @ enc r @ request_stream enc rs"

fun reply_stream :: "(EchoResponse \<Rightarrow> bytes) \<Rightarrow> (CorrelationId \<times> EchoRequest) list \<Rightarrow> bytes" where
  "reply_stream enc [] = []"
| "reply_stream enc ((c, r) # rs) =
     encode (echo_reply_header c (enc (echo_of r))) @ enc (echo_of r) @ reply_stream enc rs"

lemma unat_of_frame_len: "n \<le> MAX_FRAME_LEN \<Longrightarrow> unat (of_nat n :: u32) = n"
  by (simp add: MAX_FRAME_LEN_def unat_of_nat)

lemma echo_admits_call: "corr \<noteq> 0 \<Longrightarrow> admissible echo_receiver (echo_call_header corr payload)"
  by (simp add: admission_simps echo_receiver_def echo_call_header_def ECHO_CHANNEL_def
      channel_table_defs)

lemma serve_call_frame:
  assumes "take_req p = Some (r, [])" "to_res (echo_of r) = Some q" "length q \<le> MAX_FRAME_LEN"
    and "list_all (\<lambda>w. w = Wrote) (lk_writes l)"
  shows "\<exists>ws. serve_echo_frame take_req to_res (echo_call_header c p) p l = Some (Inr (),
      l\<lparr> lk_writes := ws, lk_out := lk_out l @ encode (echo_reply_header c q) @ q \<rparr>)
    \<and> list_all (\<lambda>w. w = Wrote) ws"
  using write_frame_ok [OF assms(3,4), of Reply 0 1 c] assms(1,2)
  by (auto simp: serve_echo_frame_def echo_call_header_def echo_reply_header_def handle_echo_def
      decode_payload_def encode_payload_def echo_of_def ECHO_CHANNEL_def channel_table_defs)

lemma serve_echo_eof:
  assumes "lk_in l = []" "delivery latest APP_LINK_IO_DEADLINE None t0 1 (lk_ticks l)"
  shows "\<exists>l'. serve_echo_requests windows latest take_req to_res l = Some (Inr (), l')
    \<and> lk_out l' = lk_out l"
proof -
  have "\<exists>ts'. fill_stalled latest APP_LINK_IO_DEADLINE HEADER_LEN [] None ts []
      = Some (Inl eof_error, ts', [])"
    if "list_all (timely latest APP_LINK_IO_DEADLINE None t0) ts" "0 < length (filter delivers ts)" for ts
    using that
  proof (induction ts)
    case (Cons t ts)
    then show ?case
      by (cases "delivers t")
        (auto simp: delivers_def timely_def interrupted_def sock_read_def passed_def HEADER_LEN_def
          split: ReadEvent.splits)
  qed simp
  then obtain ts' where "fill_stalled latest APP_LINK_IO_DEADLINE HEADER_LEN [] None (lk_ticks l) []
      = Some (Inl eof_error, ts', [])" using assms(2) by (fastforce simp: delivery_def)
  then have "read_validated_frame latest echo_receiver l
      = Some (Inl (Io (IoError UnexpectedEof None)), l\<lparr> lk_ticks := ts', lk_in := [] \<rparr>)"
    using assms(1) by (simp add: read_validated_frame_def read_exact_stalled_def
        read_exact_stalled_with_def eof_error_def ipc_from_io_def io_bind_def)
  then show ?thesis
    using assms(1) by (subst serve_echo_requests.simps) (simp add: is_orderly_peer_eof_def)
qed

text \<open>What the session theorem asks of the payload codec on one request.\<close>

definition echo_codec_ok ::
  "(bytes \<Rightarrow> (EchoRequest \<times> bytes) option) \<Rightarrow> (EchoResponse \<Rightarrow> bytes option)
    \<Rightarrow> (EchoRequest \<Rightarrow> bytes) \<Rightarrow> (EchoResponse \<Rightarrow> bytes) \<Rightarrow> EchoRequest \<Rightarrow> bool" where
  "echo_codec_ok take_req to_res enc_req enc_res r =
     (take_req (enc_req r) = Some (r, []) \<and> to_res (echo_of r) = Some (enc_res (echo_of r))
      \<and> length (enc_req r) \<le> MAX_FRAME_LEN \<and> length (enc_res (echo_of r)) \<le> MAX_FRAME_LEN)"

text \<open>
  C34. The echo server answers a session. For any sequence of requests with nonzero
  correlations, whose frames arrive (cut up anyhow) before the stall window closes and are
  followed by the end of the stream, the serving loop returns success and has written exactly
  one reply per request, in order, each with its request's correlation and contents. The
  payload codec is assumed to decode what it encodes on these requests and to keep them within
  the frame limit.
\<close>

theorem echo_session_answers:
  assumes reqs: "list_all (\<lambda>(c, r). c \<noteq> 0 \<and> echo_codec_ok take_req to_res enc_req enc_res r) reqs"
    and input: "lk_in l = request_stream enc_req reqs"
    and ticks: "delivery latest APP_LINK_IO_DEADLINE None t0 (length (lk_in l) + 1) (lk_ticks l)"
    and writes: "list_all (\<lambda>w. w = Wrote) (lk_writes l)"
  shows "\<exists>l'. serve_echo_requests windows latest take_req to_res l = Some (Inr (), l')
    \<and> lk_out l' = lk_out l @ reply_stream enc_res reqs"
  using reqs input ticks writes
proof (induction reqs arbitrary: l)
  case Nil
  then show ?case using serve_echo_eof [of l latest t0 windows take_req to_res] by simp
next
  case (Cons cr reqs)
  obtain c r where cr: "cr = (c, r)" by (cases cr)
  let ?h = "echo_call_header c (enc_req r)" and ?rest = "request_stream enc_req reqs"
  have c: "c \<noteq> 0" and codec: "take_req (enc_req r) = Some (r, [])"
    "to_res (echo_of r) = Some (enc_res (echo_of r))"
    and small: "length (enc_req r) \<le> MAX_FRAME_LEN" "length (enc_res (echo_of r)) \<le> MAX_FRAME_LEN"
    using Cons.prems(1) cr by (auto simp: echo_codec_ok_def)
  have frame: "lk_in l = encode ?h @ enc_req r @ ?rest" using Cons.prems(2) cr by simp
  have hlen: "length (enc_req r) = unat (fh_len ?h)"
    using small(1) by (simp add: echo_call_header_def unat_of_frame_len)
  have "delivery latest APP_LINK_IO_DEADLINE None t0
      (HEADER_LEN + length (enc_req r) + (length ?rest + 1)) (lk_ticks l)"
    using Cons.prems(3) unfolding frame by (simp add: add.assoc)
  from read_validated_frame_delivers [OF frame hlen small(1) echo_admits_call [OF c] this]
  obtain ts where
    read: "read_validated_frame latest echo_receiver l
      = Some (Inr (?h, enc_req r), l\<lparr> lk_ticks := ts, lk_in := ?rest \<rparr>)"
    and ts: "delivery latest APP_LINK_IO_DEADLINE None t0 (length ?rest + 1) ts" by blast
  let ?l1 = "l\<lparr> lk_ticks := ts, lk_in := ?rest \<rparr>"
  obtain ws where serve: "serve_echo_frame take_req to_res ?h (enc_req r) ?l1 = Some (Inr (),
      ?l1\<lparr> lk_writes := ws, lk_out := lk_out l @ encode (echo_reply_header c (enc_res (echo_of r)))
        @ enc_res (echo_of r) \<rparr>)" "list_all (\<lambda>w. w = Wrote) ws"
    using serve_call_frame [of take_req "enc_req r" r to_res "enc_res (echo_of r)" ?l1 c]
      codec small(2) Cons.prems(4) by auto
  let ?l2 = "?l1\<lparr> lk_writes := ws, lk_out := lk_out l @ encode (echo_reply_header c (enc_res (echo_of r)))
        @ enc_res (echo_of r) \<rparr>"
  have "serve_echo_requests windows latest take_req to_res l
      = serve_echo_requests windows latest take_req to_res ?l2"
    using read serve(1) by (subst serve_echo_requests.simps) simp
  with Cons.IH [of ?l2] Cons.prems(1) serve(2) ts cr show ?case by simp
qed

text \<open>A codec for the witness: a request with an empty message is its count in one byte.\<close>

definition count_take :: "bytes \<Rightarrow> (EchoRequest \<times> bytes) option" where
  "count_take bs = (case bs of [] \<Rightarrow> None | b # rest \<Rightarrow> Some (\<lparr> erq_message = [], erq_count = ucast b \<rparr>, rest))"

definition count_encode :: "EchoResponse \<Rightarrow> bytes" where
  "count_encode s = [ucast (ers_count s)]"

theorem echo_session_answers_witness:
  "\<exists>l'. serve_echo_requests False 100000 count_take (\<lambda>s. Some (count_encode s))
      \<lparr> lk_in = encode (echo_call_header 7 [5]) @ [5] @ encode (echo_call_header 8 [6]) @ [6],
        lk_ticks = replicate 40 steady_tick, lk_writes = [], lk_out = [] \<rparr> = Some (Inr (), l')
    \<and> lk_out l' = encode (echo_reply_header 7 [5]) @ [5] @ encode (echo_reply_header 8 [6]) @ [6]"
proof -
  let ?enc = "\<lambda>r. [ucast (erq_count r)]"
  let ?reqs = "[(7 :: u32, \<lparr> erq_message = [], erq_count = 5 \<rparr>), (8, \<lparr> erq_message = [], erq_count = 6 \<rparr>)]"
  let ?l = "\<lparr> lk_in = request_stream ?enc ?reqs,
        lk_ticks = replicate 40 steady_tick, lk_writes = [], lk_out = [] \<rparr>"
  have "list_all (\<lambda>(c, r). c \<noteq> 0
      \<and> echo_codec_ok count_take (\<lambda>s. Some (count_encode s)) ?enc count_encode r) ?reqs"
    by (simp add: echo_codec_ok_def count_take_def count_encode_def MAX_FRAME_LEN_def)
  moreover have "delivery 100000 APP_LINK_IO_DEADLINE None 10 (length (lk_in ?l) + 1) (lk_ticks ?l)"
    using steady_delivery [of APP_LINK_IO_DEADLINE 100000 "length (lk_in ?l) + 1" 40]
    by (simp add: APP_LINK_IO_DEADLINE_def HEADER_LEN_def)
  ultimately show ?thesis
    using echo_session_answers [of count_take "\<lambda>s. Some (count_encode s)" ?enc count_encode ?reqs ?l
        100000 10 False]
    by (simp add: count_encode_def echo_of_def)
qed

end
