(* ===== verification/Attempt_Records.thy ===== *)
theory Attempt_Records
  imports Kipc_Token
begin

text \<open>
  The \<open>keld-attempt\<close> claim and health records (\<open>crates/keld-ipc/src/attempt/records.rs\<close>):
  eight fixed-length records behind 8-byte magics, the read positions and what each admits,
  the slice decoder, the stream reader, the encoder and the transcript checks of owner and
  claimant. At every position the slice decoder and the encoder form a \<open>byte_codec\<close>.
\<close>

section \<open>Kinds and positions\<close>

definition MAGIC_LEN :: nat where "MAGIC_LEN = 8"
definition ID_LEN :: nat where "ID_LEN = 32"
definition PID_LEN :: nat where "PID_LEN = 4"
definition MAX_RECORD_LEN :: nat where "MAX_RECORD_LEN = MAGIC_LEN + 5 * ID_LEN + 2 * PID_LEN"

datatype AttemptRecordKind =
    KClaim | KChallenge | KAcknowledgement | KReceipt | KBootAcknowledgement | KReady | KFailure
  | KHealthResult

definition ALL_kinds :: "AttemptRecordKind list" where
  "ALL_kinds = [KClaim, KChallenge, KAcknowledgement, KReceipt, KBootAcknowledgement, KReady,
     KFailure, KHealthResult]"

fun magic :: "AttemptRecordKind \<Rightarrow> bytes" where
  "magic KClaim = bytes_of ''KELD-AH1''"
| "magic KChallenge = bytes_of ''KELD-AC1''"
| "magic KAcknowledgement = bytes_of ''KELD-AA1''"
| "magic KReceipt = bytes_of ''KELD-AR1''"
| "magic KBootAcknowledgement = bytes_of ''KELD-AB1''"
| "magic KReady = bytes_of ''KELD-AY1''"
| "magic KFailure = bytes_of ''KELD-AF1''"
| "magic KHealthResult = bytes_of ''KELD-AK1''"

fun record_len :: "AttemptRecordKind \<Rightarrow> nat" where
  "record_len KClaim = MAGIC_LEN + 2 * ID_LEN + PID_LEN"
| "record_len KChallenge = MAGIC_LEN + 3 * ID_LEN + PID_LEN"
| "record_len KAcknowledgement = MAX_RECORD_LEN"
| "record_len KReceipt = MAX_RECORD_LEN"
| "record_len KBootAcknowledgement = MAGIC_LEN + 3 * ID_LEN"
| "record_len KReady = MAGIC_LEN"
| "record_len KFailure = MAGIC_LEN + 1"
| "record_len KHealthResult = MAGIC_LEN + 1"

definition from_magic :: "bytes \<Rightarrow> AttemptRecordKind option" where
  "from_magic m = find (\<lambda>kind. magic kind = m) ALL_kinds"

datatype AttemptReadPosition =
    OwnerClaim | OwnerAcknowledgement | OwnerBoot | OwnerReady | CandidateChallenge
  | CandidateReceipt | CandidateHealthResult

fun admits :: "AttemptReadPosition \<Rightarrow> AttemptRecordKind \<Rightarrow> bool" where
  "admits OwnerClaim kind = (kind = KClaim)"
| "admits OwnerAcknowledgement kind = (kind = KAcknowledgement)"
| "admits OwnerBoot kind = (kind = KBootAcknowledgement \<or> kind = KFailure)"
| "admits OwnerReady kind = (kind = KReady \<or> kind = KFailure)"
| "admits CandidateChallenge kind = (kind = KChallenge)"
| "admits CandidateReceipt kind = (kind = KReceipt)"
| "admits CandidateHealthResult kind = (kind = KHealthResult)"

datatype AttemptFailureClass = BootstrapReadRefused | ApplicationExitBeforeReady | BootError

fun failure_byte :: "AttemptFailureClass \<Rightarrow> byte" where
  "failure_byte BootstrapReadRefused = 1"
| "failure_byte ApplicationExitBeforeReady = 2"
| "failure_byte BootError = 3"

definition failure_from_byte :: "byte \<Rightarrow> AttemptFailureClass option" where
  "failure_from_byte v =
     (if v = 1 then Some BootstrapReadRefused else if v = 2 then Some ApplicationExitBeforeReady
      else if v = 3 then Some BootError else None)"

fun admits_failure :: "AttemptReadPosition \<Rightarrow> AttemptFailureClass \<Rightarrow> bool" where
  "admits_failure OwnerBoot class = (class = BootstrapReadRefused \<or> class = BootError)"
| "admits_failure OwnerReady class = (class = ApplicationExitBeforeReady \<or> class = BootError)"
| "admits_failure _ _ = False"

datatype AttemptHealthResult = Accepted | RolledBack

fun health_byte :: "AttemptHealthResult \<Rightarrow> byte" where
  "health_byte Accepted = 1"
| "health_byte RolledBack = 2"

definition health_from_byte :: "byte \<Rightarrow> AttemptHealthResult option" where
  "health_from_byte v = (if v = 1 then Some Accepted else if v = 2 then Some RolledBack else None)"

section \<open>Records\<close>

record AttemptClaim =
  cl_installation_id :: bytes
  cl_client_nonce :: SessionToken
  cl_client_pid :: u32

record AttemptChallenge =
  ch_attempt_id :: bytes
  ch_health_channel_id :: bytes
  ch_server_nonce :: SessionToken
  ch_server_pid :: u32

record AttemptTranscript =
  tr_installation_id :: bytes
  tr_attempt_id :: bytes
  tr_health_channel_id :: bytes
  tr_client_nonce :: SessionToken
  tr_server_nonce :: SessionToken
  tr_client_pid :: u32
  tr_server_pid :: u32

record AttemptBootAcknowledgement =
  ba_attempt_id :: bytes
  ba_health_channel_id :: bytes
  ba_health_receipt_digest :: bytes

datatype AttemptRecord =
    ClaimRec AttemptClaim | ChallengeRec AttemptChallenge | AcknowledgementRec AttemptTranscript
  | ReceiptRec AttemptTranscript | BootAcknowledgementRec AttemptBootAcknowledgement | ReadyRec
  | FailureRec AttemptFailureClass | HealthResultRec AttemptHealthResult

fun kind_of :: "AttemptRecord \<Rightarrow> AttemptRecordKind" where
  "kind_of (ClaimRec _) = KClaim"
| "kind_of (ChallengeRec _) = KChallenge"
| "kind_of (AcknowledgementRec _) = KAcknowledgement"
| "kind_of (ReceiptRec _) = KReceipt"
| "kind_of (BootAcknowledgementRec _) = KBootAcknowledgement"
| "kind_of ReadyRec = KReady"
| "kind_of (FailureRec _) = KFailure"
| "kind_of (HealthResultRec _) = KHealthResult"

datatype AttemptRecordError =
    MagicNotAdmitted AttemptReadPosition bytes
  | Truncated nat nat
  | TrailingBytes nat nat
  | ValueOutOfSet AttemptRecordKind byte
  | FailureClassNotAdmitted AttemptReadPosition AttemptFailureClass
  | ForeignInstallation
  | ClientProcessMismatch u32 u32
  | ServerProcessMismatch u32 u32
  | LocatorMismatch
  | TranscriptMismatch
  | BootMismatch
  | RecordIo IoError

fun record_error_code :: "AttemptRecordError \<Rightarrow> string" where
  "record_error_code (MagicNotAdmitted _ _) = ''KELD-IPC-015''"
| "record_error_code (Truncated _ _) = ''KELD-IPC-015''"
| "record_error_code (TrailingBytes _ _) = ''KELD-IPC-015''"
| "record_error_code (ValueOutOfSet _ _) = ''KELD-IPC-015''"
| "record_error_code (FailureClassNotAdmitted _ _) = ''KELD-IPC-015''"
| "record_error_code ForeignInstallation = ''KELD-IPC-016''"
| "record_error_code (ClientProcessMismatch _ _) = ''KELD-IPC-016''"
| "record_error_code (ServerProcessMismatch _ _) = ''KELD-IPC-016''"
| "record_error_code LocatorMismatch = ''KELD-IPC-016''"
| "record_error_code TranscriptMismatch = ''KELD-IPC-016''"
| "record_error_code BootMismatch = ''KELD-IPC-016''"
| "record_error_code (RecordIo _) = ''KELD-IPC-017''"

section \<open>Transcript checks\<close>

definition join_transcript :: "AttemptClaim \<Rightarrow> AttemptChallenge \<Rightarrow> AttemptTranscript" where
  "join_transcript claim challenge =
     \<lparr> tr_installation_id = cl_installation_id claim, tr_attempt_id = ch_attempt_id challenge,
       tr_health_channel_id = ch_health_channel_id challenge,
       tr_client_nonce = cl_client_nonce claim, tr_server_nonce = ch_server_nonce challenge,
       tr_client_pid = cl_client_pid claim, tr_server_pid = ch_server_pid challenge \<rparr>"

definition for_owner ::
  "AttemptClaim \<Rightarrow> bytes \<Rightarrow> u32 \<Rightarrow> AttemptChallenge \<Rightarrow> AttemptRecordError + AttemptTranscript" where
  "for_owner claim installation_id connected_client_pid challenge =
     (if cl_installation_id claim \<noteq> installation_id then Inl ForeignInstallation
      else if cl_client_pid claim \<noteq> connected_client_pid
        then Inl (ClientProcessMismatch (cl_client_pid claim) connected_client_pid)
      else Inr (join_transcript claim challenge))"

text \<open>
  \<open>locator\<close> is the rendezvous-name derivation (a digest of the three ids, from a third-party
  hash); it refuses ids it does not accept.
\<close>

definition for_claimant ::
  "(bytes \<Rightarrow> bytes \<Rightarrow> bytes \<Rightarrow> string option) \<Rightarrow> AttemptClaim \<Rightarrow> AttemptChallenge \<Rightarrow> string \<Rightarrow> u32
    \<Rightarrow> AttemptRecordError + AttemptTranscript" where
  "for_claimant locator claim challenge rendezvous connected_server_pid =
     (if ch_server_pid challenge \<noteq> connected_server_pid
        then Inl (ServerProcessMismatch (ch_server_pid challenge) connected_server_pid)
      else
        and_then (ok_or (locator (cl_installation_id claim) (ch_attempt_id challenge)
                    (ch_health_channel_id challenge)) LocatorMismatch) (\<lambda>derived.
        if derived \<noteq> rendezvous then Inl LocatorMismatch
        else Inr (join_transcript claim challenge)))"

definition require_transcript ::
  "AttemptTranscript \<Rightarrow> AttemptTranscript \<Rightarrow> AttemptRecordError + unit" where
  "require_transcript own received =
     (if tr_installation_id own = tr_installation_id received
         \<and> tr_attempt_id own = tr_attempt_id received
         \<and> tr_health_channel_id own = tr_health_channel_id received
         \<and> token_eq (tr_client_nonce own) (tr_client_nonce received)
         \<and> token_eq (tr_server_nonce own) (tr_server_nonce received)
         \<and> tr_client_pid own = tr_client_pid received \<and> tr_server_pid own = tr_server_pid received
      then Inr () else Inl TranscriptMismatch)"

definition require_boot ::
  "AttemptBootAcknowledgement \<Rightarrow> AttemptBootAcknowledgement \<Rightarrow> AttemptRecordError + unit" where
  "require_boot own received = (if own = received then Inr () else Inl BootMismatch)"

section \<open>Encoding\<close>

text \<open>\<open>RecordWriter::put\<close> appends a field to the used part of the buffer.\<close>

definition put :: "bytes \<Rightarrow> bytes \<Rightarrow> bytes" where "put out field = out @ field"

definition transcript_fields :: "bytes \<Rightarrow> AttemptTranscript \<Rightarrow> bytes" where
  "transcript_fields out t =
     put (put (put (put (put (put (put out (tr_installation_id t)) (tr_attempt_id t))
       (tr_health_channel_id t)) (tr_client_nonce t)) (tr_server_nonce t))
       (u32_to_le_bytes (tr_client_pid t))) (u32_to_le_bytes (tr_server_pid t))"

definition encode_record :: "AttemptRecord \<Rightarrow> bytes" where
  "encode_record r =
     (let out = put [] (magic (kind_of r)) in
      case r of
        ClaimRec c \<Rightarrow> put (put (put out (cl_installation_id c)) (cl_client_nonce c))
                        (u32_to_le_bytes (cl_client_pid c))
      | ChallengeRec c \<Rightarrow> put (put (put (put out (ch_attempt_id c)) (ch_health_channel_id c))
                            (ch_server_nonce c)) (u32_to_le_bytes (ch_server_pid c))
      | AcknowledgementRec t \<Rightarrow> transcript_fields out t
      | ReceiptRec t \<Rightarrow> transcript_fields out t
      | BootAcknowledgementRec b \<Rightarrow> put (put (put out (ba_attempt_id b)) (ba_health_channel_id b))
                                      (ba_health_receipt_digest b)
      | ReadyRec \<Rightarrow> out
      | FailureRec class \<Rightarrow> put out [failure_byte class]
      | HealthResultRec result \<Rightarrow> put out [health_byte result])"

section \<open>Decoding\<close>

definition admitted_kind ::
  "AttemptReadPosition \<Rightarrow> bytes \<Rightarrow> AttemptRecordError + AttemptRecordKind" where
  "admitted_kind position m =
     ok_or (case from_magic m of
              None \<Rightarrow> None
            | Some kind \<Rightarrow> if admits position kind then Some kind else None)
       (MagicNotAdmitted position m)"

text \<open>\<open>FieldReader::take\<close>: the field of length \<open>n\<close> at an offset of the buffer.\<close>

definition field :: "bytes \<Rightarrow> nat \<Rightarrow> nat \<Rightarrow> bytes" where
  "field rec at n = take n (drop at rec)"

definition u32_field :: "bytes \<Rightarrow> nat \<Rightarrow> u32" where
  "u32_field rec at = u32_from_le_bytes (rec ! at) (rec ! (at + 1)) (rec ! (at + 2)) (rec ! (at + 3))"

definition parse_transcript :: "bytes \<Rightarrow> AttemptTranscript" where
  "parse_transcript rec =
     \<lparr> tr_installation_id = field rec MAGIC_LEN ID_LEN,
       tr_attempt_id = field rec (MAGIC_LEN + ID_LEN) ID_LEN,
       tr_health_channel_id = field rec (MAGIC_LEN + 2 * ID_LEN) ID_LEN,
       tr_client_nonce = field rec (MAGIC_LEN + 3 * ID_LEN) SESSION_TOKEN_LEN,
       tr_server_nonce = field rec (MAGIC_LEN + 4 * ID_LEN) SESSION_TOKEN_LEN,
       tr_client_pid = u32_field rec (MAGIC_LEN + 5 * ID_LEN),
       tr_server_pid = u32_field rec (MAGIC_LEN + 5 * ID_LEN + PID_LEN) \<rparr>"

definition parse ::
  "AttemptReadPosition \<Rightarrow> AttemptRecordKind \<Rightarrow> bytes \<Rightarrow> AttemptRecordError + AttemptRecord" where
  "parse position kind rec =
     (case kind of
        KClaim \<Rightarrow> Inr (ClaimRec
          \<lparr> cl_installation_id = field rec MAGIC_LEN ID_LEN,
            cl_client_nonce = field rec (MAGIC_LEN + ID_LEN) SESSION_TOKEN_LEN,
            cl_client_pid = u32_field rec (MAGIC_LEN + 2 * ID_LEN) \<rparr>)
      | KChallenge \<Rightarrow> Inr (ChallengeRec
          \<lparr> ch_attempt_id = field rec MAGIC_LEN ID_LEN,
            ch_health_channel_id = field rec (MAGIC_LEN + ID_LEN) ID_LEN,
            ch_server_nonce = field rec (MAGIC_LEN + 2 * ID_LEN) SESSION_TOKEN_LEN,
            ch_server_pid = u32_field rec (MAGIC_LEN + 3 * ID_LEN) \<rparr>)
      | KAcknowledgement \<Rightarrow> Inr (AcknowledgementRec (parse_transcript rec))
      | KReceipt \<Rightarrow> Inr (ReceiptRec (parse_transcript rec))
      | KBootAcknowledgement \<Rightarrow> Inr (BootAcknowledgementRec
          \<lparr> ba_attempt_id = field rec MAGIC_LEN ID_LEN,
            ba_health_channel_id = field rec (MAGIC_LEN + ID_LEN) ID_LEN,
            ba_health_receipt_digest = field rec (MAGIC_LEN + 2 * ID_LEN) ID_LEN \<rparr>)
      | KReady \<Rightarrow> Inr ReadyRec
      | KFailure \<Rightarrow>
          (let value = rec ! MAGIC_LEN in
           and_then (ok_or (failure_from_byte value) (ValueOutOfSet kind value)) (\<lambda>class.
           if \<not> admits_failure position class then Inl (FailureClassNotAdmitted position class)
           else Inr (FailureRec class)))
      | KHealthResult \<Rightarrow>
          (let value = rec ! MAGIC_LEN in
           and_then (ok_or (health_from_byte value) (ValueOutOfSet kind value)) (\<lambda>result.
           Inr (HealthResultRec result))))"

text \<open>Both readers hand \<open>parse\<close> a zero-padded buffer as long as the longest record.\<close>

definition pad :: "bytes \<Rightarrow> bytes" where
  "pad bs = bs @ replicate (MAX_RECORD_LEN - length bs) 0"

definition decode_record :: "AttemptReadPosition \<Rightarrow> bytes \<Rightarrow> AttemptRecordError + AttemptRecord" where
  "decode_record position bs =
     (if length bs < MAGIC_LEN then Inl (Truncated MAGIC_LEN (length bs))
      else
        and_then (admitted_kind position (take MAGIC_LEN bs)) (\<lambda>kind.
        let expected = record_len kind in
        if length bs < expected then Inl (Truncated expected (length bs))
        else if expected < length bs then Inl (TrailingBytes expected (length bs))
        else parse position kind (pad bs)))"

text \<open>The stream reader, over the \<open>read_exact\<close> of its reader and the reader's state.\<close>

definition read_from ::
  "(nat \<Rightarrow> 's \<Rightarrow> (IoError + bytes) \<times> 's) \<Rightarrow> AttemptReadPosition \<Rightarrow> 's
    \<Rightarrow> (AttemptRecordError + AttemptRecord) \<times> 's" where
  "read_from read_exact position s =
     (case read_exact MAGIC_LEN s of
        (Inl e, s1) \<Rightarrow> (Inl (RecordIo e), s1)
      | (Inr m, s1) \<Rightarrow>
          (case admitted_kind position m of
             Inl e \<Rightarrow> (Inl e, s1)
           | Inr kind \<Rightarrow>
               (case read_exact (record_len kind - MAGIC_LEN) s1 of
                  (Inl e, s2) \<Rightarrow> (Inl (RecordIo e), s2)
                | (Inr rest, s2) \<Rightarrow> (parse position kind (pad (m @ rest)), s2))))"

text \<open>\<open>io::Cursor\<close> over a byte slice: its state is what is left to read.\<close>

definition cursor_read :: "nat \<Rightarrow> bytes \<Rightarrow> (IoError + bytes) \<times> bytes" where
  "cursor_read n s =
     (if length s < n then (Inl (IoError UnexpectedEof None), []) else (Inr (take n s), drop n s))"

text \<open>The fuzz hook at one position, and over all of them: \<open>False\<close> is a reported violation.\<close>

definition fuzz_position :: "bytes \<Rightarrow> AttemptReadPosition \<Rightarrow> bool" where
  "fuzz_position bs position =
     (let decoded = decode_record position bs;
          (streamed, left) = read_from cursor_read position bs;
          consumed = length bs - length left
      in case (decoded, streamed) of
           (Inr rec, Inr rd) \<Rightarrow> rd = rec \<and> encode_record rec = bs \<and> consumed = length bs
         | (Inr rec, Inl _) \<Rightarrow> False
         | (Inl err, Inr rd) \<Rightarrow>
             (case err of TrailingBytes _ _ \<Rightarrow> True | _ \<Rightarrow> False)
             \<and> consumed = length (encode_record rd) \<and> length (encode_record rd) < length bs
             \<and> prefix (encode_record rd) bs
         | (Inl derr, Inl rerr) \<Rightarrow>
             prefix ''KELD-IPC-01'' (record_error_code derr)
             \<and> prefix ''KELD-IPC-01'' (record_error_code rerr)
             \<and> (case rerr of MagicNotAdmitted _ _ \<Rightarrow> consumed = MAGIC_LEN | _ \<Rightarrow> True))"

definition fuzz_attempt_records :: "bytes \<Rightarrow> bool" where
  "fuzz_attempt_records bs =
     list_all (fuzz_position bs)
       [OwnerClaim, OwnerAcknowledgement, OwnerBoot, OwnerReady, CandidateChallenge,
        CandidateReceipt, CandidateHealthResult]"

section \<open>Well-formed records\<close>

fun record_wf :: "AttemptRecord \<Rightarrow> bool" where
  "record_wf (ClaimRec c) = (length (cl_installation_id c) = 32 \<and> length (cl_client_nonce c) = 32)"
| "record_wf (ChallengeRec c) =
     (length (ch_attempt_id c) = 32 \<and> length (ch_health_channel_id c) = 32
      \<and> length (ch_server_nonce c) = 32)"
| "record_wf (AcknowledgementRec t) =
     (length (tr_installation_id t) = 32 \<and> length (tr_attempt_id t) = 32
      \<and> length (tr_health_channel_id t) = 32 \<and> length (tr_client_nonce t) = 32
      \<and> length (tr_server_nonce t) = 32)"
| "record_wf (ReceiptRec t) =
     (length (tr_installation_id t) = 32 \<and> length (tr_attempt_id t) = 32
      \<and> length (tr_health_channel_id t) = 32 \<and> length (tr_client_nonce t) = 32
      \<and> length (tr_server_nonce t) = 32)"
| "record_wf (BootAcknowledgementRec b) =
     (length (ba_attempt_id b) = 32 \<and> length (ba_health_channel_id b) = 32
      \<and> length (ba_health_receipt_digest b) = 32)"
| "record_wf _ = True"

text \<open>A record a position admits: its kind, and for a failure also its class.\<close>

definition record_admitted :: "AttemptReadPosition \<Rightarrow> AttemptRecord \<Rightarrow> bool" where
  "record_admitted position r =
     (record_wf r \<and> admits position (kind_of r)
      \<and> (case r of FailureRec class \<Rightarrow> admits_failure position class | _ \<Rightarrow> True))"

lemmas record_lens = MAGIC_LEN_def ID_LEN_def PID_LEN_def MAX_RECORD_LEN_def SESSION_TOKEN_LEN_def

lemma length_magic [simp]: "length (magic k) = 8"
  by (cases k) (simp_all add: bytes_of_def)

lemma magic_inject [simp]: "magic k = magic j \<longleftrightarrow> k = j"
  by (cases k; cases j) simp_all

declare magic.simps [simp del]

lemma from_magic_magic [simp]: "from_magic (magic k) = Some k"
  unfolding from_magic_def ALL_kinds_def magic_inject by (cases k) simp_all

lemma from_magic_Some: "from_magic m = Some k \<longleftrightarrow> m = magic k"
proof
  assume "from_magic m = Some k"
  then show "m = magic k" unfolding from_magic_def by (auto dest: find_Some_in)
qed simp

lemma admitted_kind_Inr: "admitted_kind position m = Inr k \<longleftrightarrow> m = magic k \<and> admits position k"
  by (auto simp: admitted_kind_def from_magic_Some split: option.splits if_splits)

lemma admitted_kind_Inl: "admitted_kind position m = Inl e \<Longrightarrow> e = MagicNotAdmitted position m"
  by (auto simp: admitted_kind_def ok_or_def split: option.splits if_splits)

lemma failure_byte_Some: "failure_from_byte v = Some c \<longleftrightarrow> v = failure_byte c"
  by (cases c) (auto simp: failure_from_byte_def)

lemma health_byte_Some: "health_from_byte v = Some c \<longleftrightarrow> v = health_byte c"
  by (cases c) (auto simp: health_from_byte_def)

lemma record_len_bounds: "8 \<le> record_len k" "record_len k \<le> 176"
  by (cases k; simp add: record_lens)+

lemma length_pad: "length bs \<le> 176 \<Longrightarrow> length (pad bs) = 176"
  by (simp add: pad_def record_lens)

lemma field_pad: "at + n \<le> length bs \<Longrightarrow> field (pad bs) at n = field bs at n"
  by (simp add: field_def pad_def)

lemma u32_field_pad: "at + 4 \<le> length bs \<Longrightarrow> u32_field (pad bs) at = u32_field bs at"
  by (simp add: u32_field_def pad_def nth_append)

lemma u32_field_bytes: "at + 4 \<le> length bs \<Longrightarrow> u32_to_le_bytes (u32_field bs at) = field bs at 4"
proof -
  assume len: "at + 4 \<le> length bs"
  have "drop at bs = bs ! at # bs ! (at + 1) # bs ! (at + 2) # bs ! (at + 3) # drop (at + 4) bs"
    using len by (simp add: Cons_nth_drop_Suc numeral_eq_Suc)
  then show ?thesis by (simp add: u32_field_def field_def)
qed

lemma u32_field_append: "length xs = at \<Longrightarrow> u32_field (xs @ u32_to_le_bytes w @ ys) at = w"
  by (auto simp: u32_field_def u32_to_le_bytes_def nth_append)

lemma take_field: "take a bs @ field bs a n = take (a + n) bs"
  by (simp add: field_def take_add)

lemma field_append: "length xs = at \<Longrightarrow> length f = n \<Longrightarrow> field (xs @ f @ ys) at n = f"
  by (simp add: field_def)

lemma length_encode_record: "record_wf r \<Longrightarrow> length (encode_record r) = record_len (kind_of r)"
  by (cases r) (simp_all add: encode_record_def put_def transcript_fields_def record_lens)

lemma encode_record_magic: "take 8 (encode_record r) = magic (kind_of r)"
  by (cases r) (simp_all add: encode_record_def put_def transcript_fields_def)

lemma parse_encode:
  assumes "record_admitted position r"
  shows "parse position (kind_of r) (pad (encode_record r)) = Inr r"
proof -
  have wf: "record_wf r" using assms by (simp add: record_admitted_def)
  have transcript: "parse_transcript (pad (transcript_fields (magic k) t)) = t"
    if "length (tr_installation_id t) = 32" "length (tr_attempt_id t) = 32"
      "length (tr_health_channel_id t) = 32" "length (tr_client_nonce t) = 32"
      "length (tr_server_nonce t) = 32" for t :: AttemptTranscript and k
    using that
    by (simp add: parse_transcript_def transcript_fields_def put_def record_lens field_pad
        u32_field_pad)
      (simp add: field_def u32_field_def u32_to_le_bytes_def nth_append)
  show ?thesis
  proof (cases r)
    case (ClaimRec c)
    with wf show ?thesis
      by (simp add: parse_def encode_record_def put_def record_lens field_pad u32_field_pad)
        (simp add: field_def u32_field_def u32_to_le_bytes_def nth_append)
  next
    case (ChallengeRec c)
    with wf show ?thesis
      by (simp add: parse_def encode_record_def put_def record_lens field_pad u32_field_pad)
        (simp add: field_def u32_field_def u32_to_le_bytes_def nth_append)
  next
    case (BootAcknowledgementRec b)
    with wf show ?thesis
      by (simp add: parse_def encode_record_def put_def record_lens field_pad)
        (simp add: field_def)
  next
    case (FailureRec cls)
    with assms show ?thesis
      by (simp add: parse_def encode_record_def put_def record_lens pad_def nth_append
          failure_byte_Some record_admitted_def Let_def)
        (simp add: failure_byte_Some [THEN iffD2])
  next
    case (HealthResultRec result)
    then show ?thesis
      by (simp add: parse_def encode_record_def put_def record_lens pad_def nth_append Let_def)
        (simp add: health_byte_Some [THEN iffD2])
  qed (use wf transcript in \<open>simp_all add: parse_def encode_record_def put_def\<close>)
qed

lemma parse_transcript_fields:
  assumes "length bs = 176"
  shows "transcript_fields (take 8 bs) (parse_transcript (pad bs)) = bs"
  using assms
  by (simp add: transcript_fields_def parse_transcript_def put_def record_lens field_pad
      u32_field_pad u32_field_bytes take_field flip: append_assoc)

lemma parse_sound:
  assumes "parse position kind (pad bs) = Inr r" "length bs = record_len kind"
    and "take 8 bs = magic kind" "admits position kind"
  shows "record_admitted position r \<and> encode_record r = bs"
proof -
  have tr: "length (field bs at n) = n" if "at + n \<le> length bs" for at n
    using that by (simp add: field_def)
  note given = assms(1,2,4) and mg = assms(3) [symmetric]
  show ?thesis
  proof (cases kind)
    case KClaim
    with given show ?thesis
      by (auto simp: mg [unfolded KClaim] parse_def record_admitted_def encode_record_def put_def record_lens tr field_pad
          u32_field_pad u32_field_bytes take_field simp flip: append_assoc)
  next
    case KChallenge
    with given show ?thesis
      by (auto simp: mg [unfolded KChallenge] parse_def record_admitted_def encode_record_def put_def record_lens tr field_pad
          u32_field_pad u32_field_bytes take_field simp flip: append_assoc)
  next
    case KAcknowledgement
    with given parse_transcript_fields [of bs] show ?thesis
      by (auto simp: mg [unfolded KAcknowledgement] parse_def record_admitted_def encode_record_def put_def record_lens tr
          parse_transcript_def field_pad)
  next
    case KReceipt
    with given parse_transcript_fields [of bs] show ?thesis
      by (auto simp: mg [unfolded KReceipt] parse_def record_admitted_def encode_record_def put_def record_lens tr
          parse_transcript_def field_pad)
  next
    case KBootAcknowledgement
    with given show ?thesis
      by (auto simp: mg [unfolded KBootAcknowledgement] parse_def record_admitted_def encode_record_def put_def record_lens tr field_pad
          take_field simp flip: append_assoc)
  next
    case KReady
    with given show ?thesis
      by (auto simp: mg [unfolded KReady] parse_def record_admitted_def encode_record_def put_def record_lens)
  next
    case KFailure
    with assms(2) have "bs = take 8 bs @ [bs ! 8]"
      by (metis MAGIC_LEN_def less_add_one record_len.simps(7) take_Suc_conv_app_nth take_all
          Suc_eq_plus1 order_refl)
    with KFailure given show ?thesis
      by (auto simp: mg [unfolded KFailure] parse_def record_admitted_def encode_record_def put_def record_lens pad_def
          nth_append result_simps failure_byte_Some Let_def split: if_splits)
  next
    case KHealthResult
    with assms(2) have "bs = take 8 bs @ [bs ! 8]"
      by (metis MAGIC_LEN_def less_add_one record_len.simps(8) take_Suc_conv_app_nth take_all
          Suc_eq_plus1 order_refl)
    with KHealthResult given show ?thesis
      by (auto simp: mg [unfolded KHealthResult] parse_def record_admitted_def encode_record_def put_def record_lens pad_def
          nth_append result_simps health_byte_Some Let_def split: if_splits)
  qed
qed

lemma decode_record_Inr:
  "decode_record position bs = Inr r \<longleftrightarrow> record_admitted position r \<and> encode_record r = bs"
proof
  assume "decode_record position bs = Inr r"
  then obtain k where "take 8 bs = magic k" "admits position k" "length bs = record_len k"
    "parse position k (pad bs) = Inr r"
    by (auto simp: decode_record_def MAGIC_LEN_def result_simps admitted_kind_Inr Let_def
        split: if_splits)
  with parse_sound show "record_admitted position r \<and> encode_record r = bs" by blast
next
  assume r: "record_admitted position r \<and> encode_record r = bs"
  then have "length bs = record_len (kind_of r)" "take 8 bs = magic (kind_of r)"
    "admits position (kind_of r)"
    using length_encode_record encode_record_magic by (auto simp: record_admitted_def)
  then show "decode_record position bs = Inr r"
    using r parse_encode record_len_bounds(1) [of "kind_of r"]
    by (auto simp: decode_record_def MAGIC_LEN_def result_simps admitted_kind_Inr)
qed

interpretation attempt_record: byte_codec encode_record "decode_record position"
    "record_admitted position" "\<lambda>_. True" for position
  by unfold_locales (auto simp: decode_record_Inr)

text \<open>
  What the stream reader does on a byte string, in terms of the slice decoder: it decodes the
  record's own bytes and leaves the rest.
\<close>

lemma read_from_cursor:
  "read_from cursor_read position bs =
     (if length bs < 8 then (Inl (RecordIo (IoError UnexpectedEof None)), [])
      else case admitted_kind position (take 8 bs) of
          Inl e \<Rightarrow> (Inl e, drop 8 bs)
        | Inr k \<Rightarrow>
            if length bs < record_len k then (Inl (RecordIo (IoError UnexpectedEof None)), [])
            else (parse position k (pad (take (record_len k) bs)), drop (record_len k) bs))"
proof -
  have "take 8 bs @ take (record_len k - 8) (drop 8 bs) = take (record_len k) bs"
    "drop (record_len k - 8) (drop 8 bs) = drop (record_len k) bs" for k
    using record_len_bounds(1) [of k] by (metis le_add_diff_inverse take_add)
      (metis record_len_bounds(1) drop_drop le_add_diff_inverse2)
  then show ?thesis
    by (auto simp: read_from_def cursor_read_def MAGIC_LEN_def split: sum.splits)
qed

lemma read_from_Inr:
  "read_from cursor_read position bs = (Inr r, rest)
     \<longleftrightarrow> record_admitted position r \<and> bs = encode_record r @ rest"
proof
  assume "read_from cursor_read position bs = (Inr r, rest)"
  then obtain k where k: "take 8 bs = magic k" "admits position k" "record_len k \<le> length bs"
    "parse position k (pad (take (record_len k) bs)) = Inr r" "rest = drop (record_len k) bs"
    by (auto simp: read_from_cursor admitted_kind_Inr split: if_splits sum.splits)
  moreover have "take 8 (take (record_len k) bs) = magic k"
    using k(1) record_len_bounds(1) [of k] by (simp add: min_def)
  ultimately have "record_admitted position r \<and> encode_record r = take (record_len k) bs"
    by (intro parse_sound) auto
  with k(5) show "record_admitted position r \<and> bs = encode_record r @ rest" by simp
next
  assume r: "record_admitted position r \<and> bs = encode_record r @ rest"
  then have "length (encode_record r) = record_len (kind_of r)"
    and adm: "admitted_kind position (take 8 bs) = Inr (kind_of r)"
    using length_encode_record encode_record_magic [of r] record_len_bounds(1) [of "kind_of r"]
    by (auto simp: record_admitted_def admitted_kind_Inr)
  with r show "read_from cursor_read position bs = (Inr r, rest)"
    using parse_encode record_len_bounds(1) [of "kind_of r"] unfolding read_from_cursor
    by simp
qed

section \<open>Properties\<close>

text \<open>
  C35. At every read position the stream reader accepts exactly the canonical encodings of the
  records that position admits, and consumes exactly that record; a magic the position does
  not admit is refused with only its eight bytes read.
\<close>

theorem attempt_record_stream:
  "(read_from cursor_read position bs = (Inr r, rest)
      \<longleftrightarrow> record_admitted position r \<and> bs = encode_record r @ rest)
   \<and> (read_from cursor_read position bs = (Inl (MagicNotAdmitted position m), rest)
      \<longleftrightarrow> 8 \<le> length bs \<and> m = take 8 bs \<and> rest = drop 8 bs
          \<and> (\<nexists>k. admits position k \<and> magic k = m))"
proof (intro conjI iffI)
  assume ret: "read_from cursor_read position bs = (Inl (MagicNotAdmitted position m), rest)"
  have "parse position k b \<noteq> Inl (MagicNotAdmitted position m)" for k b
    by (cases k) (auto simp: parse_def Let_def result_simps ok_or_def split: option.splits if_splits)
  with ret have adm: "8 \<le> length bs" "rest = drop 8 bs"
    "admitted_kind position (take 8 bs) = Inl (MagicNotAdmitted position m)"
    by (auto simp: read_from_cursor split: if_splits sum.splits)
  then show "8 \<le> length bs" "rest = drop 8 bs" by simp_all
  show m: "m = take 8 bs" using admitted_kind_Inl [OF adm(3)] by simp
  show "\<nexists>k. admits position k \<and> magic k = m"
    using adm(3) admitted_kind_Inr [of position "take 8 bs"] m by auto
next
  assume "8 \<le> length bs \<and> m = take 8 bs \<and> rest = drop 8 bs \<and> (\<nexists>k. admits position k \<and> magic k = m)"
  moreover from this have "admitted_kind position (take 8 bs) = Inl (MagicNotAdmitted position m)"
    using admitted_kind_Inr [of position "take 8 bs"] admitted_kind_Inl [of position "take 8 bs"]
    by (cases "admitted_kind position (take 8 bs)") (auto, metis)
  ultimately show "read_from cursor_read position bs = (Inl (MagicNotAdmitted position m), rest)"
    by (simp add: read_from_cursor)
qed (auto simp: read_from_Inr)

text \<open>
  The repository's raw-byte fuzz hook can never report a violation: on every byte string
  and at every position the slice decoder and the stream reader agree, what they admit is
  canonical, the stream reader consumes exactly one record, never reads past a refused magic,
  and every refusal carries a classified code.
\<close>

theorem fuzz_never_fails: "fuzz_attempt_records bs"
proof -
  have "fuzz_position bs position" for position
  proof -
    obtain s left where s: "read_from cursor_read position bs = (s, left)" by fastforce
    have code: "prefix ''KELD-IPC-01'' (record_error_code e)" for e by (cases e) simp_all
    show ?thesis
    proof (cases "decode_record position bs")
      case (Inr r)
      then have "read_from cursor_read position bs = (Inr r, [])"
        by (simp add: read_from_Inr decode_record_Inr)
      moreover have "encode_record r = bs" using Inr by (simp add: decode_record_Inr)
      ultimately show ?thesis using Inr by (simp add: fuzz_position_def)
    next
      case dec: (Inl e)
      show ?thesis
      proof (cases s)
        case (Inr r)
        with s have r: "record_admitted position r" "bs = encode_record r @ left"
          by (simp_all add: read_from_Inr)
        with dec have "left \<noteq> []" using decode_record_Inr [of position bs r] by auto
        moreover have "\<exists>a b. e = TrailingBytes a b"
        proof -
          have "length (encode_record r) = record_len (kind_of r)"
            "admitted_kind position (take 8 bs) = Inr (kind_of r)"
            using r length_encode_record encode_record_magic [of r] record_len_bounds(1) [of "kind_of r"]
            by (auto simp: record_admitted_def admitted_kind_Inr)
          with dec r \<open>left \<noteq> []\<close> record_len_bounds(1) [of "kind_of r"] show ?thesis
            by (auto simp: decode_record_def MAGIC_LEN_def Let_def split: if_splits)
        qed
        ultimately show ?thesis using dec s Inr r by (auto simp: fuzz_position_def)
      next
        case (Inl e')
        have "\<forall>p m. e' = MagicNotAdmitted p m \<longrightarrow> length bs - length left = 8"
          using s Inl admitted_kind_Inl
          by (auto simp: read_from_cursor parse_def Let_def result_simps ok_or_def
              split: if_splits sum.splits AttemptRecordKind.splits option.splits)
        with dec s Inl code show ?thesis
          by (auto simp: fuzz_position_def MAGIC_LEN_def split: AttemptRecordError.splits)
      qed
    qed
  qed
  then show ?thesis by (simp add: fuzz_attempt_records_def)
qed

end
