(* ===== verification/Attempt_Channel.thy ===== *)
theory Attempt_Channel
  imports Attempt_Records Kipc_Link
begin

text \<open>
  The health sequence after an accepted claim (\<open>crates/keld-ipc/src/attempt/window.rs\<close> and
  \<open>channel.rs\<close>): the owner's and the candidate's phase machines, and the owner's health window
  as a pure state machine over an injected clock with the loop that drives it. The pipe, the
  monotonic clock and the process pin are the fields of \<open>PipeEnv\<close>, functions on the state of
  the environment; the theorems hold for every such environment. A window loop that never ends
  has no value (\<open>None\<close>).
\<close>

section \<open>The health window\<close>

definition ATTEMPT_HEALTH_WINDOW :: Duration where "ATTEMPT_HEALTH_WINDOW = 30000"

datatype AttemptHealthWindowFailure =
    ByteReceived | WfEndOfFile | LaunchExited | LaunchUnverifiable | NotObserved | Unrepresentable

datatype WindowRead = ReadByte | ReadEndOfFile | DeadlineElapsed

datatype WindowStep = StepRead Instant | CheckLaunch | Refuse AttemptHealthWindowFailure

record HealthWindow =
  hw_ends :: Instant

definition of_length ::
  "Instant \<Rightarrow> Instant \<Rightarrow> Duration \<Rightarrow> AttemptHealthWindowFailure + HealthWindow" where
  "of_length latest ready_read_at span =
     ok_or (map_option (\<lambda>ends. \<lparr> hw_ends = ends \<rparr>) (instant_checked_add latest ready_read_at span))
       Unrepresentable"

text \<open>\<open>longest\<close> is \<open>Duration::MAX\<close>, \<open>latest\<close> the last instant of the clock.\<close>

definition after_ready ::
  "Duration \<Rightarrow> Instant \<Rightarrow> Instant \<Rightarrow> Duration \<Rightarrow> AttemptHealthWindowFailure + HealthWindow" where
  "after_ready longest latest ready_read_at margin =
     and_then (ok_or (if ATTEMPT_HEALTH_WINDOW + margin \<le> longest
                      then Some (ATTEMPT_HEALTH_WINDOW + margin) else None) Unrepresentable)
       (\<lambda>span. of_length latest ready_read_at span)"

definition window_begin :: "HealthWindow \<Rightarrow> Instant \<Rightarrow> WindowStep" where
  "window_begin w now = (if now < hw_ends w then StepRead (hw_ends w) else Refuse NotObserved)"

definition after_read :: "HealthWindow \<Rightarrow> WindowRead \<Rightarrow> Instant \<Rightarrow> WindowStep" where
  "after_read w read now =
     (case read of
        ReadByte \<Rightarrow> Refuse ByteReceived
      | ReadEndOfFile \<Rightarrow> Refuse WfEndOfFile
      | DeadlineElapsed \<Rightarrow> if now < hw_ends w then StepRead (hw_ends w) else CheckLaunch)"

definition after_launch_check :: "bool option \<Rightarrow> AttemptHealthWindowFailure + unit" where
  "after_launch_check launch_exited =
     (case launch_exited of
        Some False \<Rightarrow> Inr ()
      | Some True \<Rightarrow> Inl LaunchExited
      | None \<Rightarrow> Inl LaunchUnverifiable)"

section \<open>The environment\<close>

record 's PipeEnv =
  pe_read_exact :: "nat \<Rightarrow> 's \<Rightarrow> (IoError + bytes) \<times> 's"
  pe_read_byte :: "'s \<Rightarrow> (IoError + bytes) \<times> 's"
  pe_write_all :: "bytes \<Rightarrow> 's \<Rightarrow> (IoError + unit) \<times> 's"
  pe_set_deadline :: "Instant option \<Rightarrow> 's \<Rightarrow> 's"
  pe_now :: "'s \<Rightarrow> Instant \<times> 's"
  pe_has_exited :: "'s \<Rightarrow> (IoError + bool) \<times> 's"

datatype WindowsAttemptExchangeError =
    RecordError AttemptRecordError
  | OutOfSequence string string
  | CandidateFailure AttemptFailureClass
  | HealthWindowError AttemptHealthWindowFailure "IoError option"
  | HealthRolledBack

fun is_end_of_file :: "WindowsAttemptExchangeError \<Rightarrow> bool" where
  "is_end_of_file (RecordError (RecordIo source)) = (io_kind source = UnexpectedEof)"
| "is_end_of_file (HealthWindowError failure _) = (failure = WfEndOfFile)"
| "is_end_of_file _ = False"

definition ERROR_SEM_TIMEOUT :: int where "ERROR_SEM_TIMEOUT = 121"

definition is_deadline :: "IoError \<Rightarrow> bool" where
  "is_deadline e = (raw_os_error e = Some ERROR_SEM_TIMEOUT)"

definition window_refusal :: "AttemptHealthWindowFailure \<Rightarrow> WindowsAttemptExchangeError" where
  "window_refusal failure = HealthWindowError failure None"

definition io_deadline :: "Instant \<Rightarrow> Instant \<Rightarrow> Instant" where
  "io_deadline latest now =
     (case instant_checked_add latest now APP_LINK_IO_DEADLINE of Some d \<Rightarrow> d | None \<Rightarrow> now)"

definition write_record ::
  "'s PipeEnv \<Rightarrow> AttemptRecord \<Rightarrow> 's \<Rightarrow> (AttemptRecordError + unit) \<times> 's" where
  "write_record env r s =
     (case pe_write_all env (encode_record r) s of
        (Inl e, s1) \<Rightarrow> (Inl (RecordIo e), s1)
      | (Inr _, s1) \<Rightarrow> (Inr (), s1))"

definition not_admitted_at :: "AttemptRecord \<Rightarrow> AttemptReadPosition \<Rightarrow> WindowsAttemptExchangeError" where
  "not_admitted_at r position = RecordError (MagicNotAdmitted position (magic (kind_of r)))"

section \<open>The owner\<close>

datatype OwnerPhase = OAccepted | OBooted | OReady Instant | OHealthy | OEnded bool

record OwnerChannel =
  oc_transcript :: AttemptTranscript
  oc_phase :: OwnerPhase

fun describe_owner :: "OwnerPhase \<Rightarrow> string" where
  "describe_owner OAccepted = ''after KELD-AR1''"
| "describe_owner OBooted = ''after KELD-AB1''"
| "describe_owner (OReady _) = ''after KELD-AY1''"
| "describe_owner OHealthy = ''after the health window''"
| "describe_owner (OEnded _) = ''after a failure''"

definition owner_accepted :: "AttemptTranscript \<Rightarrow> OwnerChannel" where
  "owner_accepted t = \<lparr> oc_transcript = t, oc_phase = OAccepted \<rparr>"

definition owner_out_of_sequence :: "OwnerChannel \<Rightarrow> string \<Rightarrow> WindowsAttemptExchangeError" where
  "owner_out_of_sequence c step = OutOfSequence step (describe_owner (oc_phase c))"

definition owner_end :: "WindowsAttemptExchangeError \<Rightarrow> OwnerChannel \<Rightarrow> OwnerChannel" where
  "owner_end e c = c\<lparr> oc_phase := OEnded (is_end_of_file e) \<rparr>"

definition settle ::
  "WindowsAttemptExchangeError + unit \<Rightarrow> OwnerPhase \<Rightarrow> OwnerChannel \<Rightarrow> OwnerChannel" where
  "settle result next_phase c =
     (case result of Inr _ \<Rightarrow> c\<lparr> oc_phase := next_phase \<rparr> | Inl e \<Rightarrow> owner_end e c)"

definition owner_read_record ::
  "'s PipeEnv \<Rightarrow> AttemptReadPosition \<Rightarrow> Instant \<Rightarrow> 's
    \<Rightarrow> (WindowsAttemptExchangeError + AttemptRecord) \<times> 's" where
  "owner_read_record env position deadline s =
     (let (r, s1) = read_from (pe_read_exact env) position (pe_set_deadline env (Some deadline) s)
      in (map_sum RecordError id r, s1))"

definition read_boot ::
  "'s PipeEnv \<Rightarrow> bytes \<Rightarrow> Instant \<Rightarrow> OwnerChannel \<Rightarrow> 's
    \<Rightarrow> (WindowsAttemptExchangeError + unit) \<times> OwnerChannel \<times> 's" where
  "read_boot env health_receipt_digest deadline c s =
     (if oc_phase c \<noteq> OAccepted then (Inl (owner_out_of_sequence c ''read KELD-AB1''), c, s)
      else
        let expected = \<lparr> ba_attempt_id = tr_attempt_id (oc_transcript c),
              ba_health_channel_id = tr_health_channel_id (oc_transcript c),
              ba_health_receipt_digest = health_receipt_digest \<rparr>;
            (rd, s1) = owner_read_record env OwnerBoot deadline s;
            read = and_then rd (\<lambda>r. case r of
                BootAcknowledgementRec received \<Rightarrow>
                  map_sum RecordError id (require_boot expected received)
              | FailureRec class \<Rightarrow> Inl (CandidateFailure class)
              | other \<Rightarrow> Inl (not_admitted_at other OwnerBoot))
        in (read, settle read OBooted c, s1))"

definition read_ready ::
  "'s PipeEnv \<Rightarrow> Instant \<Rightarrow> OwnerChannel \<Rightarrow> 's
    \<Rightarrow> (WindowsAttemptExchangeError + unit) \<times> OwnerChannel \<times> 's" where
  "read_ready env deadline c s =
     (if oc_phase c \<noteq> OBooted then (Inl (owner_out_of_sequence c ''read KELD-AY1''), c, s)
      else
        let (rd, s1) = owner_read_record env OwnerReady deadline s
        in case rd of
             Inl e \<Rightarrow> (Inl e, owner_end e c, s1)
           | Inr ReadyRec \<Rightarrow>
               (let (read_at, s2) = pe_now env s1
                in (Inr (), c\<lparr> oc_phase := OReady read_at \<rparr>, s2))
           | Inr (FailureRec class) \<Rightarrow>
               (Inl (CandidateFailure class), owner_end (CandidateFailure class) c, s1)
           | Inr other \<Rightarrow>
               (Inl (not_admitted_at other OwnerReady), owner_end (not_admitted_at other OwnerReady) c, s1))"

text \<open>The loop of \<open>decide_window\<close>; a pass that reads is followed by one reading of the clock.\<close>

definition window_pass ::
  "'s PipeEnv \<Rightarrow> HealthWindow \<Rightarrow> Instant \<Rightarrow> 's \<Rightarrow> (WindowsAttemptExchangeError + WindowStep) \<times> 's" where
  "window_pass env w until s =
     (let (rd, s1) = pe_read_byte env (pe_set_deadline env (Some until) s) in
      case (case rd of
              Inr [] \<Rightarrow> Inr ReadEndOfFile
            | Inr (_ # _) \<Rightarrow> Inr ReadByte
            | Inl e \<Rightarrow> if is_deadline e then Inr DeadlineElapsed else Inl (RecordError (RecordIo e))) of
        Inl e \<Rightarrow> (Inl e, s1)
      | Inr read \<Rightarrow> (let (now, s2) = pe_now env s1 in (Inr (after_read w read now), s2)))"

partial_function (option) window_loop ::
  "'s PipeEnv \<Rightarrow> HealthWindow \<Rightarrow> WindowStep \<Rightarrow> 's \<Rightarrow> ((WindowsAttemptExchangeError + unit) \<times> 's) option" where
  "window_loop env w step s =
     (case step of
        StepRead until \<Rightarrow>
          (case window_pass env w until s of
             (Inl e, s1) \<Rightarrow> Some (Inl e, s1)
           | (Inr step', s1) \<Rightarrow> window_loop env w step' s1)
      | CheckLaunch \<Rightarrow>
          (case pe_has_exited env s of
             (Inr exited, s1) \<Rightarrow> Some (map_sum window_refusal id (after_launch_check (Some exited)), s1)
           | (Inl source, s1) \<Rightarrow> Some (Inl (HealthWindowError LaunchUnverifiable (Some source)), s1))
      | Refuse failure \<Rightarrow> Some (Inl (window_refusal failure), s))"

definition decide_window ::
  "'s PipeEnv \<Rightarrow> HealthWindow \<Rightarrow> 's \<Rightarrow> ((WindowsAttemptExchangeError + unit) \<times> 's) option" where
  "decide_window env w s =
     (let (now, s1) = pe_now env s in window_loop env w (window_begin w now) s1)"

definition await_window ::
  "'s PipeEnv \<Rightarrow> (Instant \<Rightarrow> AttemptHealthWindowFailure + HealthWindow) \<Rightarrow> OwnerChannel \<Rightarrow> 's
    \<Rightarrow> ((WindowsAttemptExchangeError + unit) \<times> OwnerChannel \<times> 's) option" where
  "await_window env window c s =
     (case oc_phase c of
        OReady read_at \<Rightarrow>
          (case window read_at of
             Inl f \<Rightarrow> Some (Inl (window_refusal f), settle (Inl (window_refusal f)) OHealthy c, s)
           | Inr w \<Rightarrow>
               (case decide_window env w s of
                  None \<Rightarrow> None
                | Some (decided, s1) \<Rightarrow> Some (decided, settle decided OHealthy c, s1)))
      | _ \<Rightarrow> Some (Inl (owner_out_of_sequence c ''await the health window''), c, s))"

definition await_health_window ::
  "Duration \<Rightarrow> Instant \<Rightarrow> 's PipeEnv \<Rightarrow> Duration \<Rightarrow> OwnerChannel \<Rightarrow> 's
    \<Rightarrow> ((WindowsAttemptExchangeError + unit) \<times> OwnerChannel \<times> 's) option" where
  "await_health_window longest latest env margin c s =
     await_window env (\<lambda>read_at. after_ready longest latest read_at margin) c s"

datatype WindowsAttemptCloseWait =
    CandidateClosed | CloseDeadlineElapsed | BytesReceived | ReadFailed IoError
  | CloseWriteFailed AttemptRecordError

definition accept ::
  "'s PipeEnv \<Rightarrow> Instant \<Rightarrow> OwnerChannel \<Rightarrow> 's
    \<Rightarrow> (WindowsAttemptExchangeError + WindowsAttemptCloseWait) \<times> 's" where
  "accept env close_deadline c s =
     (if oc_phase c \<noteq> OHealthy then (Inl (owner_out_of_sequence c ''write KELD-AK1 accepted''), s)
      else
        case write_record env (HealthResultRec Accepted) (pe_set_deadline env (Some close_deadline) s) of
          (Inl e, s1) \<Rightarrow> (Inr (CloseWriteFailed e), s1)
        | (Inr _, s1) \<Rightarrow>
            (case pe_read_byte env s1 of
               (Inr [], s2) \<Rightarrow> (Inr CandidateClosed, s2)
             | (Inr (_ # _), s2) \<Rightarrow> (Inr BytesReceived, s2)
             | (Inl e, s2) \<Rightarrow> (Inr (if is_deadline e then CloseDeadlineElapsed else ReadFailed e), s2)))"

datatype WindowsAttemptRollBack =
    Sent | NotSentAfterEndOfFile | NotSentAfterLaunchExit | RollBackWriteFailed AttemptRecordError

definition roll_back :: "Instant \<Rightarrow> 's PipeEnv \<Rightarrow> OwnerChannel \<Rightarrow> 's \<Rightarrow> WindowsAttemptRollBack \<times> 's" where
  "roll_back latest env c s =
     (if oc_phase c = OEnded True then (NotSentAfterEndOfFile, s)
      else
        let (exited, s1) = pe_has_exited env s in
        if exited = Inr True then (NotSentAfterLaunchExit, s1)
        else
          let (now, s2) = pe_now env s1;
              (w, s3) = write_record env (HealthResultRec RolledBack)
                (pe_set_deadline env (Some (io_deadline latest now)) s2)
          in (case w of Inr _ \<Rightarrow> Sent | Inl e \<Rightarrow> RollBackWriteFailed e, s3))"

section \<open>The candidate\<close>

datatype ClaimantPhase = CAccepted | CBooted | CReported | CEnded

record ClaimantChannel =
  cc_transcript :: AttemptTranscript
  cc_phase :: ClaimantPhase

fun describe_claimant :: "ClaimantPhase \<Rightarrow> string" where
  "describe_claimant CAccepted = ''after KELD-AR1''"
| "describe_claimant CBooted = ''after KELD-AB1''"
| "describe_claimant CReported = ''after KELD-AY1 or KELD-AF1''"
| "describe_claimant CEnded = ''after a failure''"

definition claimant_accepted :: "AttemptTranscript \<Rightarrow> ClaimantChannel" where
  "claimant_accepted t = \<lparr> cc_transcript = t, cc_phase = CAccepted \<rparr>"

definition claimant_out_of_sequence :: "ClaimantChannel \<Rightarrow> string \<Rightarrow> WindowsAttemptExchangeError" where
  "claimant_out_of_sequence c step = OutOfSequence step (describe_claimant (cc_phase c))"

definition claimant_send ::
  "Instant \<Rightarrow> 's PipeEnv \<Rightarrow> AttemptRecord \<Rightarrow> ClaimantPhase \<Rightarrow> ClaimantChannel \<Rightarrow> 's
    \<Rightarrow> (WindowsAttemptExchangeError + unit) \<times> ClaimantChannel \<times> 's" where
  "claimant_send latest env r next_phase c s =
     (let (now, s1) = pe_now env s in
      case write_record env r (pe_set_deadline env (Some (io_deadline latest now)) s1) of
        (Inr _, s2) \<Rightarrow> (Inr (), c\<lparr> cc_phase := next_phase \<rparr>, s2)
      | (Inl e, s2) \<Rightarrow> (Inl (RecordError e), c\<lparr> cc_phase := CEnded \<rparr>, s2))"

definition send_boot ::
  "Instant \<Rightarrow> 's PipeEnv \<Rightarrow> bytes \<Rightarrow> ClaimantChannel \<Rightarrow> 's
    \<Rightarrow> (WindowsAttemptExchangeError + unit) \<times> ClaimantChannel \<times> 's" where
  "send_boot latest env health_receipt_digest c s =
     (if cc_phase c \<noteq> CAccepted then (Inl (claimant_out_of_sequence c ''send KELD-AB1''), c, s)
      else claimant_send latest env (BootAcknowledgementRec
             \<lparr> ba_attempt_id = tr_attempt_id (cc_transcript c),
               ba_health_channel_id = tr_health_channel_id (cc_transcript c),
               ba_health_receipt_digest = health_receipt_digest \<rparr>) CBooted c s)"

definition send_ready ::
  "Instant \<Rightarrow> 's PipeEnv \<Rightarrow> ClaimantChannel \<Rightarrow> 's
    \<Rightarrow> (WindowsAttemptExchangeError + unit) \<times> ClaimantChannel \<times> 's" where
  "send_ready latest env c s =
     (if cc_phase c \<noteq> CBooted then (Inl (claimant_out_of_sequence c ''send KELD-AY1''), c, s)
      else claimant_send latest env ReadyRec CReported c s)"

definition send_failure ::
  "Instant \<Rightarrow> 's PipeEnv \<Rightarrow> AttemptFailureClass \<Rightarrow> ClaimantChannel \<Rightarrow> 's
    \<Rightarrow> (WindowsAttemptExchangeError + unit) \<times> ClaimantChannel \<times> 's" where
  "send_failure latest env class c s =
     (case (case cc_phase c of CAccepted \<Rightarrow> Some OwnerBoot | CBooted \<Rightarrow> Some OwnerReady | _ \<Rightarrow> None) of
        None \<Rightarrow> (Inl (claimant_out_of_sequence c ''send KELD-AF1''), c, s)
      | Some position \<Rightarrow>
          if \<not> admits_failure position class
          then (Inl (RecordError (FailureClassNotAdmitted position class)), c, s)
          else claimant_send latest env (FailureRec class) CReported c s)"

definition await_health_accepted ::
  "'s PipeEnv \<Rightarrow> Instant \<Rightarrow> ClaimantChannel \<Rightarrow> 's \<Rightarrow> (WindowsAttemptExchangeError + unit) \<times> 's" where
  "await_health_accepted env deadline c s =
     (if cc_phase c \<noteq> CReported then (Inl (claimant_out_of_sequence c ''read KELD-AK1''), s)
      else
        case read_from (pe_read_exact env) CandidateHealthResult
               (pe_set_deadline env (Some deadline) s) of
          (Inl e, s1) \<Rightarrow> (Inl (RecordError e), s1)
        | (Inr (HealthResultRec Accepted), s1) \<Rightarrow> (Inr (), s1)
        | (Inr (HealthResultRec RolledBack), s1) \<Rightarrow> (Inl HealthRolledBack, s1)
        | (Inr other, s1) \<Rightarrow> (Inl (not_admitted_at other CandidateHealthResult), s1))"

section \<open>What the window observes\<close>

text \<open>
  \<open>silent_until env ends s s'\<close>: from \<open>s\<close>, reads that each end by their deadline with nothing
  received, the last of them at or after \<open>ends\<close>, lead to \<open>s'\<close>.
\<close>

inductive silent_until :: "'s PipeEnv \<Rightarrow> Instant \<Rightarrow> 's \<Rightarrow> 's \<Rightarrow> bool" for env ends where
  silent_last: "\<lbrakk> pe_read_byte env (pe_set_deadline env (Some ends) s) = (Inl e, s1); is_deadline e;
      pe_now env s1 = (now, s2); ends \<le> now \<rbrakk> \<Longrightarrow> silent_until env ends s s2"
| silent_more: "\<lbrakk> pe_read_byte env (pe_set_deadline env (Some ends) s) = (Inl e, s1); is_deadline e;
      pe_now env s1 = (now, s2); now < ends; silent_until env ends s2 s3 \<rbrakk>
      \<Longrightarrow> silent_until env ends s s3"

lemma window_pass_silent:
  assumes "pe_read_byte env (pe_set_deadline env (Some ends) s) = (Inl e, s1)" "is_deadline e"
    "pe_now env s1 = (now, s2)"
  shows "window_pass env \<lparr> hw_ends = ends \<rparr> ends s
    = (Inr (if now < ends then StepRead ends else CheckLaunch), s2)"
  using assms by (simp add: window_pass_def after_read_def)

lemma window_pass_cases:
  assumes "window_pass env w until s = (Inr step, s2)" "step \<notin> range Refuse"
  obtains e s1 now where "pe_read_byte env (pe_set_deadline env (Some until) s) = (Inl e, s1)"
    "is_deadline e" "pe_now env s1 = (now, s2)"
    "step = (if now < hw_ends w then StepRead (hw_ends w) else CheckLaunch)"
  using assms
  by (auto simp: window_pass_def after_read_def split: prod.splits sum.splits list.splits if_splits)

lemma window_loop_Refuse [simp]: "window_loop env w (Refuse f) s = Some (Inl (window_refusal f), s)"
  by (simp add: window_loop.simps)

lemma silent_window_loop:
  assumes "silent_until env ends s s'" "pe_has_exited env s' = (Inr False, s'')"
  shows "window_loop env \<lparr> hw_ends = ends \<rparr> (StepRead ends) s = Some (Inr (), s'')"
  using assms
proof (induction rule: silent_until.induct)
  case (silent_last s e s1 now s2)
  then have "window_pass env \<lparr> hw_ends = ends \<rparr> ends s = (Inr CheckLaunch, s2)"
    using window_pass_silent [of env ends s e s1 now s2] by simp
  with silent_last.prems show ?case
    by (simp add: window_loop.simps [of env _ "StepRead ends"] window_loop.simps [of env _ CheckLaunch]
        after_launch_check_def)
next
  case (silent_more s e s1 now s2 s3)
  then have "window_pass env \<lparr> hw_ends = ends \<rparr> ends s = (Inr (StepRead ends), s2)"
    using window_pass_silent [of env ends s e s1 now s2] by simp
  with silent_more show ?case by (simp add: window_loop.simps [of env _ _ s])
qed

definition window_passed :: "'s PipeEnv \<Rightarrow> HealthWindow \<Rightarrow> WindowStep \<Rightarrow> 's \<Rightarrow> 's \<Rightarrow> bool" where
  "window_passed env w step s s'' =
     (\<exists>s'. pe_has_exited env s' = (Inr False, s'')
        \<and> (case step of
              StepRead until \<Rightarrow> until = hw_ends w \<longrightarrow> silent_until env (hw_ends w) s s'
            | CheckLaunch \<Rightarrow> s' = s
            | Refuse _ \<Rightarrow> False))"

lemma window_loop_passed:
  assumes "window_loop env w step s = Some y"
  shows "fst y = Inr () \<longrightarrow> window_passed env w step s (snd y)"
  using assms
proof (rule window_loop.raw_induct
    [where P = "\<lambda>env w step s y. fst y = Inr () \<longrightarrow> window_passed env w step s (snd y)", rotated])
  fix loop env w step s and y :: "(WindowsAttemptExchangeError + unit) \<times> _"
  assume IH: "\<And>env w step s y. loop env w step s = Some y
      \<Longrightarrow> fst y = Inr () \<longrightarrow> window_passed env w step s (snd y)"
    and body: "(case step of
        StepRead until \<Rightarrow>
          (case window_pass env w until s of
             (Inl e, s1) \<Rightarrow> Some (Inl e, s1)
           | (Inr step', s1) \<Rightarrow> loop env w step' s1)
      | CheckLaunch \<Rightarrow>
          (case pe_has_exited env s of
             (Inr exited, s1) \<Rightarrow> Some (map_sum window_refusal id (after_launch_check (Some exited)), s1)
           | (Inl source, s1) \<Rightarrow> Some (Inl (HealthWindowError LaunchUnverifiable (Some source)), s1))
      | Refuse failure \<Rightarrow> Some (Inl (window_refusal failure), s)) = Some y"
  show "fst y = Inr () \<longrightarrow> window_passed env w step s (snd y)"
  proof (cases step)
    case (StepRead until)
    show ?thesis
    proof (intro impI)
      assume ok: "fst y = Inr ()"
      obtain q s2 where pass: "window_pass env w until s = (q, s2)" by fastforce
      with body StepRead ok obtain step' where q: "q = Inr step'" and rest: "loop env w step' s2 = Some y"
        by (cases q) auto
      have passed: "window_passed env w step' s2 (snd y)" using IH [OF rest] ok by blast
      then have "step' \<notin> range Refuse" by (auto simp: window_passed_def)
      then obtain e s1 now where rd: "pe_read_byte env (pe_set_deadline env (Some until) s) = (Inl e, s1)"
        "is_deadline e" "pe_now env s1 = (now, s2)"
        "step' = (if now < hw_ends w then StepRead (hw_ends w) else CheckLaunch)"
        using window_pass_cases [of env w until s step' s2] pass q by metis
      show "window_passed env w step s (snd y)"
      proof (cases "now < hw_ends w")
        case True
        with passed rd(4) obtain s' where s': "pe_has_exited env s' = (Inr False, snd y)"
          "silent_until env (hw_ends w) s2 s'" by (auto simp: window_passed_def)
        with rd(1-3) True have "until = hw_ends w \<longrightarrow> silent_until env (hw_ends w) s s'"
          by (auto intro: silent_until.silent_more)
        with s'(1) show ?thesis by (auto simp: window_passed_def StepRead)
      next
        case False
        with passed rd(4) have s': "pe_has_exited env s2 = (Inr False, snd y)"
          by (auto simp: window_passed_def)
        from rd(1-3) False have "until = hw_ends w \<longrightarrow> silent_until env (hw_ends w) s s2"
          by (auto intro: silent_until.silent_last)
        with s' show ?thesis by (auto simp: window_passed_def StepRead)
      qed
    qed
  next
    case CheckLaunch
    with body show ?thesis
      by (auto simp: window_passed_def after_launch_check_def
          split: prod.splits sum.splits bool.splits)
  next
    case (Refuse f)
    with body show ?thesis by auto
  qed
qed

lemma decide_window_iff:
  "decide_window env w s = Some (Inr (), s'') \<longleftrightarrow>
     (\<exists>now s0 s'. pe_now env s = (now, s0) \<and> now < hw_ends w \<and> silent_until env (hw_ends w) s0 s'
        \<and> pe_has_exited env s' = (Inr False, s''))"
proof -
  obtain now s0 where now: "pe_now env s = (now, s0)" by fastforce
  have w: "w = \<lparr> hw_ends = hw_ends w \<rparr>" by simp
  have "window_loop env w (StepRead (hw_ends w)) s0 = Some (Inr (), s'')
      \<longleftrightarrow> (\<exists>s'. silent_until env (hw_ends w) s0 s' \<and> pe_has_exited env s' = (Inr False, s''))"
    using window_loop_passed [of env w "StepRead (hw_ends w)" s0 "(Inr (), s'')"]
      silent_window_loop [of env "hw_ends w" s0] w
    by (auto simp: window_passed_def)
  then show ?thesis using now by (auto simp: decide_window_def window_begin_def)
qed

lemma after_ready_iff:
  "after_ready longest latest at margin = Inr w \<longleftrightarrow>
     30000 + margin \<le> longest \<and> at + (30000 + margin) \<le> latest \<and> w = \<lparr> hw_ends = at + (30000 + margin) \<rparr>"
  by (auto simp: after_ready_def of_length_def ATTEMPT_HEALTH_WINDOW_def instant_checked_add_def
      ok_or_def and_then_def)

text \<open>
  C36. The owner declares a candidate healthy exactly when the ready record was read at some
  instant, the window of thirty seconds and the margin after that instant is representable and
  not over yet, every read until its end ends by the deadline with no byte and no end of file,
  and the launched process is then verified to be still running. The phase is then \<open>Healthy\<close>.
\<close>

theorem health_window_observed:
  "await_health_window longest latest env margin c s = Some (Inr (), c', s'') \<longleftrightarrow>
     (\<exists>read_at now s0 s'. oc_phase c = OReady read_at
        \<and> 30000 + margin \<le> longest \<and> read_at + (30000 + margin) \<le> latest
        \<and> pe_now env s = (now, s0) \<and> now < read_at + (30000 + margin)
        \<and> silent_until env (read_at + (30000 + margin)) s0 s'
        \<and> pe_has_exited env s' = (Inr False, s'')
        \<and> c' = c\<lparr> oc_phase := OHealthy \<rparr>)"
proof (cases "oc_phase c")
  case (OReady read_at)
  show ?thesis
  proof (cases "after_ready longest latest read_at margin")
    case (Inl f)
    then have "\<not> (30000 + margin \<le> longest \<and> read_at + (30000 + margin) \<le> latest)"
      using after_ready_iff [of longest latest read_at margin] by auto
    with Inl OReady show ?thesis by (auto simp: await_health_window_def await_window_def)
  next
    case (Inr w)
    then have w: "30000 + margin \<le> longest" "read_at + (30000 + margin) \<le> latest"
      "hw_ends w = read_at + (30000 + margin)" by (simp_all add: after_ready_iff)
    have "await_health_window longest latest env margin c s = Some (Inr (), c', s'')
        \<longleftrightarrow> decide_window env w s = Some (Inr (), s'') \<and> c' = c\<lparr> oc_phase := OHealthy \<rparr>"
      using Inr OReady
      by (auto simp: await_health_window_def await_window_def settle_def split: option.splits)
    with w OReady show ?thesis by (auto simp: decide_window_iff)
  qed
qed (auto simp: await_health_window_def await_window_def)

text \<open>
  A clock for the loop: between two passes that stay inside the window the clock advances.
\<close>

definition advancing :: "'s PipeEnv \<Rightarrow> Instant \<Rightarrow> ('s \<Rightarrow> Instant) \<Rightarrow> bool" where
  "advancing env ends clock =
     (\<forall>s e s1 now s2. pe_read_byte env (pe_set_deadline env (Some ends) s) = (Inl e, s1) \<longrightarrow>
        is_deadline e \<longrightarrow> pe_now env s1 = (now, s2) \<longrightarrow> clock s < clock s2 \<and> clock s2 \<le> now)"

lemma window_loop_ends:
  assumes "advancing env (hw_ends w) clock"
  shows "\<exists>r. window_loop env w (StepRead (hw_ends w)) s = Some r"
proof (induction "hw_ends w - clock s" arbitrary: s rule: less_induct)
  case less
  obtain q s2 where pass: "window_pass env w (hw_ends w) s = (q, s2)" by fastforce
  show ?case
  proof (cases q)
    case (Inr step')
    show ?thesis
    proof (cases step')
      case (StepRead until)
      then have "step' \<notin> range Refuse" by auto
      then obtain e s1 now where rd: "pe_read_byte env (pe_set_deadline env (Some (hw_ends w)) s) = (Inl e, s1)"
        "is_deadline e" "pe_now env s1 = (now, s2)" "step' = (if now < hw_ends w then StepRead (hw_ends w) else CheckLaunch)"
        using window_pass_cases [of env w "hw_ends w" s step' s2] pass Inr by metis
      with StepRead have "now < hw_ends w" "until = hw_ends w" by (auto split: if_splits)
      moreover have "clock s < clock s2" "clock s2 \<le> now"
        using assms rd(1-3) unfolding advancing_def by blast+
      ultimately have "\<exists>r. window_loop env w (StepRead until) s2 = Some r"
        using less [of s2] by simp
      with pass Inr StepRead show ?thesis by (simp add: window_loop.simps [of env w _ s])
    qed (use pass Inr in \<open>auto simp: window_loop.simps [of env w _ s] window_loop.simps [of env w CheckLaunch]
          split: prod.splits sum.splits\<close>)
  qed (use pass in \<open>simp add: window_loop.simps [of env w _ s]\<close>)
qed

text \<open>
  Where the clock advances over every read of the window, awaiting the window returns:
  the loop cannot run forever, whatever the candidate does.
\<close>

theorem health_window_returns:
  assumes "\<forall>ends. advancing env ends clock"
  shows "\<exists>r. await_health_window longest latest env margin c s = Some r"
proof -
  have "\<exists>r. decide_window env w t = Some r" for w t
    using window_loop_ends [of env w clock] assms
    by (auto simp: decide_window_def window_begin_def split: prod.splits)
  then have decided: "(decide_window env w t = None) = False" for w t by (metis option.distinct(1))
  have "await_health_window longest latest env margin c s \<noteq> None"
    unfolding await_health_window_def await_window_def
    by (simp add: decided split: OwnerPhase.splits sum.splits option.splits prod.splits)
  then show ?thesis by blast
qed

section \<open>The order of the owner's phases\<close>

datatype OwnerOp = ReadBoot bytes Instant | OwnerReadReady Instant | AwaitWindow Duration

text \<open>One call on the owner's channel, and whether it succeeded.\<close>

inductive owner_call ::
  "Duration \<Rightarrow> Instant \<Rightarrow> 's PipeEnv \<Rightarrow> OwnerChannel \<times> 's \<Rightarrow> OwnerOp \<Rightarrow> bool \<Rightarrow> OwnerChannel \<times> 's \<Rightarrow> bool"
  for longest latest env where
  call_boot: "read_boot env digest deadline c s = (r, c', s') \<Longrightarrow>
    owner_call longest latest env (c, s) (ReadBoot digest deadline) (\<not> isl r) (c', s')"
| call_ready: "read_ready env deadline c s = (r, c', s') \<Longrightarrow>
    owner_call longest latest env (c, s) (OwnerReadReady deadline) (\<not> isl r) (c', s')"
| call_window: "await_health_window longest latest env margin c s = Some (r, c', s') \<Longrightarrow>
    owner_call longest latest env (c, s) (AwaitWindow margin) (\<not> isl r) (c', s')"

inductive_cases owner_callE: "owner_call longest latest env cs op ok cs'"

text \<open>A sequence of calls, with the successful ones in order.\<close>

inductive owner_run ::
  "Duration \<Rightarrow> Instant \<Rightarrow> 's PipeEnv \<Rightarrow> OwnerChannel \<times> 's \<Rightarrow> OwnerOp list \<Rightarrow> OwnerChannel \<times> 's \<Rightarrow> bool"
  for longest latest env where
  run_none: "owner_run longest latest env cs [] cs"
| run_ok: "\<lbrakk> owner_run longest latest env cs ops cs'; owner_call longest latest env cs' op True cs'' \<rbrakk>
    \<Longrightarrow> owner_run longest latest env cs (ops @ [op]) cs''"
| run_err: "\<lbrakk> owner_run longest latest env cs ops cs'; owner_call longest latest env cs' op False cs'' \<rbrakk>
    \<Longrightarrow> owner_run longest latest env cs ops cs''"

fun phase_history :: "OwnerPhase \<Rightarrow> OwnerOp list \<Rightarrow> bool" where
  "phase_history OAccepted ops = (ops = [])"
| "phase_history OBooted ops = (\<exists>d t. ops = [ReadBoot d t])"
| "phase_history (OReady _) ops = (\<exists>d t u. ops = [ReadBoot d t, OwnerReadReady u])"
| "phase_history OHealthy ops = (\<exists>d t u m. ops = [ReadBoot d t, OwnerReadReady u, AwaitWindow m])"
| "phase_history (OEnded _) ops = True"

lemma read_boot_effect:
  assumes "read_boot env digest deadline c s = (r, c', s')"
  shows "oc_transcript c' = oc_transcript c
    \<and> (if isl r then c' = c \<or> (\<exists>b. oc_phase c' = OEnded b) else oc_phase c = OAccepted \<and> oc_phase c' = OBooted)"
  using assms
  by (auto simp: read_boot_def Let_def settle_def owner_end_def split: prod.splits if_splits sum.splits)

lemma read_ready_effect:
  assumes "read_ready env deadline c s = (r, c', s')"
  shows "oc_transcript c' = oc_transcript c
    \<and> (if isl r then c' = c \<or> (\<exists>b. oc_phase c' = OEnded b) else oc_phase c = OBooted \<and> (\<exists>at. oc_phase c' = OReady at))"
  using assms
  by (auto simp: read_ready_def Let_def owner_end_def
      split: prod.splits if_splits sum.splits AttemptRecord.splits)

lemma await_health_window_effect:
  assumes "await_health_window longest latest env margin c s = Some (r, c', s')"
  shows "oc_transcript c' = oc_transcript c
    \<and> (if isl r then c' = c \<or> (\<exists>b. oc_phase c' = OEnded b) else (\<exists>at. oc_phase c = OReady at) \<and> oc_phase c' = OHealthy)"
  using assms
  by (auto simp: await_health_window_def await_window_def settle_def owner_end_def
      split: OwnerPhase.splits sum.splits option.splits)

lemma owner_run_history:
  assumes "owner_run longest latest env cs ops cs'" "oc_phase (fst cs) = OAccepted"
  shows "phase_history (oc_phase (fst cs')) ops \<and> oc_transcript (fst cs') = oc_transcript (fst cs)"
  using assms
proof (induction rule: owner_run.induct)
  case (run_ok cs ops cs' op cs'')
  from run_ok.hyps(2) run_ok.IH [OF run_ok.prems] show ?case
    by (auto elim!: owner_callE dest!: read_boot_effect read_ready_effect await_health_window_effect)
next
  case (run_err cs ops cs' op cs'')
  from run_err.hyps(2) run_err.IH [OF run_err.prems] show ?case
    by (auto elim!: owner_callE dest!: read_boot_effect read_ready_effect await_health_window_effect)
qed simp

lemma accept_out_of_sequence:
  "oc_phase c \<noteq> OHealthy \<Longrightarrow> accept env t c s = (Inl (owner_out_of_sequence c ''write KELD-AK1 accepted''), s)"
  by (simp add: accept_def)

text \<open>
  C37. After any sequence of calls on an accepted channel, failed ones included, the owner can
  write \<open>KELD-AK1 accepted\<close> only if exactly a boot acknowledgement, a ready record and a silent
  health window have succeeded, in that order; otherwise the call is refused as out of sequence
  and touches neither pipe nor clock. No call changes the transcript the channel is bound to.
\<close>

theorem owner_accepts_after_health:
  assumes "owner_run longest latest env (owner_accepted t, s0) ops (c, s)"
  shows "oc_transcript c = t
    \<and> (if oc_phase c = OHealthy
       then \<exists>digest d1 d2 margin. ops = [ReadBoot digest d1, OwnerReadReady d2, AwaitWindow margin]
       else accept env close_deadline c s
         = (Inl (OutOfSequence ''write KELD-AK1 accepted'' (describe_owner (oc_phase c))), s))"
  using owner_run_history [OF assms] accept_out_of_sequence [of c env close_deadline s]
  by (auto simp: owner_accepted_def owner_out_of_sequence_def)

section \<open>A concrete environment\<close>

text \<open>
  A pipe with no clock drift: the state is the remaining input and the clock. Every read of a
  byte from an empty pipe takes the clock to the deadline in force, here one day after start.
\<close>

definition quiet_env :: "(bytes \<times> Instant) PipeEnv" where
  "quiet_env =
     \<lparr> pe_read_exact = (\<lambda>n (inp, t). if n \<le> length inp then (Inr (take n inp), drop n inp, t)
           else (Inl (IoError UnexpectedEof None), [], t)),
       pe_read_byte = (\<lambda>(inp, t). case inp of
           [] \<Rightarrow> (Inl (IoError TimedOut (Some 121)), [], t + 86400000)
         | b # bs \<Rightarrow> (Inr [b], bs, t)),
       pe_write_all = (\<lambda>bs s. (Inr (), s)),
       pe_set_deadline = (\<lambda>d s. s),
       pe_now = (\<lambda>(inp, t). (t, inp, t)),
       pe_has_exited = (\<lambda>s. (Inr False, s)) \<rparr>"

lemma quiet_env_advancing: "advancing quiet_env ends snd"
  by (auto simp: advancing_def quiet_env_def split: list.splits)

definition sample_transcript :: AttemptTranscript where
  "sample_transcript =
     \<lparr> tr_installation_id = replicate 32 1, tr_attempt_id = replicate 32 2,
       tr_health_channel_id = replicate 32 3, tr_client_nonce = replicate 32 4,
       tr_server_nonce = replicate 32 5, tr_client_pid = 6, tr_server_pid = 7 \<rparr>"

theorem health_window_returns_witness:
  "(\<forall>ends. advancing quiet_env ends snd)
   \<and> (\<exists>r. await_health_window 1000000 1000000 quiet_env 500
        \<lparr> oc_transcript = sample_transcript, oc_phase = OReady 7 \<rparr> ([], 9) = Some r)"
  using health_window_returns [of quiet_env snd] quiet_env_advancing by blast

text \<open>The candidate's bytes of a boot acknowledgement with a digest of zeros and a ready record.\<close>

definition sample_boot :: bytes where
  "sample_boot = encode_record (BootAcknowledgementRec
     \<lparr> ba_attempt_id = replicate 32 2, ba_health_channel_id = replicate 32 3,
       ba_health_receipt_digest = replicate 32 0 \<rparr>)"

lemma sample_read_boot:
  "read_boot quiet_env (replicate 32 0) 0 (owner_accepted sample_transcript)
     (sample_boot @ encode_record ReadyRec, 9)
   = (Inr (), \<lparr> oc_transcript = sample_transcript, oc_phase = OBooted \<rparr>, encode_record ReadyRec, 9)"
  by code_simp

lemma sample_read_ready:
  "read_ready quiet_env 0 \<lparr> oc_transcript = sample_transcript, oc_phase = OBooted \<rparr> (encode_record ReadyRec, 9)
   = (Inr (), \<lparr> oc_transcript = sample_transcript, oc_phase = OReady 9 \<rparr>, [], 9)"
  by code_simp

lemma sample_silent: "silent_until quiet_env (30509::nat) ([], 9) ([], 86400009)"
  by (rule silent_last [where e = "IoError TimedOut (Some 121)" and now = 86400009
      and ?s1.0 = "([], 86400009)"])
    (simp_all add: quiet_env_def is_deadline_def ERROR_SEM_TIMEOUT_def)

lemma sample_window:
  "await_health_window 100000 100000 quiet_env 500
     \<lparr> oc_transcript = sample_transcript, oc_phase = OReady 9 \<rparr> ([], 9)
   = Some (Inr (), \<lparr> oc_transcript = sample_transcript, oc_phase = OHealthy \<rparr>, [], 86400009)"
proof -
  have "decide_window quiet_env \<lparr> hw_ends = 30509 \<rparr> ([], 9) = Some (Inr (), [], 86400009)"
    unfolding decide_window_iff using sample_silent by (auto simp: quiet_env_def)
  then show ?thesis
    by (simp add: await_health_window_def await_window_def settle_def after_ready_iff
        after_ready_def of_length_def ATTEMPT_HEALTH_WINDOW_def instant_checked_add_def ok_or_def and_then_def)
qed

lemma sample_run:
  "owner_run 100000 100000 quiet_env (owner_accepted sample_transcript, sample_boot @ encode_record ReadyRec, 9)
     ((([] @ [ReadBoot (replicate 32 0) 0]) @ [OwnerReadReady 0]) @ [AwaitWindow 500])
     (\<lparr> oc_transcript = sample_transcript, oc_phase = OHealthy \<rparr>, [], 86400009)"
  using call_boot [OF sample_read_boot] call_ready [OF sample_read_ready] call_window [OF sample_window]
  by (intro run_ok [OF run_ok [OF run_ok [OF run_none]]]) simp_all

theorem owner_accepts_after_health_witness:
  "owner_run 100000 100000 quiet_env (owner_accepted sample_transcript, sample_boot @ encode_record ReadyRec, 9)
     [ReadBoot (replicate 32 0) 0, OwnerReadReady 0, AwaitWindow 500]
     (\<lparr> oc_transcript = sample_transcript, oc_phase = OHealthy \<rparr>, [], 86400009)
   \<and> oc_transcript \<lparr> oc_transcript = sample_transcript, oc_phase = OHealthy \<rparr> = sample_transcript"
  using sample_run owner_accepts_after_health [OF sample_run] by simp

end
