(* ===== verification/Guard_Jsonc.thy ===== *)
theory Guard_Jsonc
  imports Keld_Prelude
begin

text \<open>
  The comment stripper of the permissions manifest (\<open>crates/keld-guard/src/jsonc.rs\<close>). A
  \<open>str\<close> is the list of its UTF-8 bytes, one \<open>char\<close> each; \<open>utf8_from\<close> is the check of
  \<open>String::from_utf8\<close>, written as an automaton that carries the byte ranges the sequence in
  progress still expects.
\<close>

section \<open>UTF-8\<close>

abbreviation byte_val :: "char \<Rightarrow> nat" where "byte_val \<equiv> of_char"

definition utf8_lead :: "nat \<Rightarrow> (nat \<times> nat) list option" where
  "utf8_lead b =
     (if 0xC2 \<le> b \<and> b \<le> 0xDF then Some [(0x80, 0xBF)]
      else if b = 0xE0 then Some [(0xA0, 0xBF), (0x80, 0xBF)]
      else if 0xE1 \<le> b \<and> b \<le> 0xEC \<or> 0xEE \<le> b \<and> b \<le> 0xEF then Some [(0x80, 0xBF), (0x80, 0xBF)]
      else if b = 0xED then Some [(0x80, 0x9F), (0x80, 0xBF)]
      else if b = 0xF0 then Some [(0x90, 0xBF), (0x80, 0xBF), (0x80, 0xBF)]
      else if 0xF1 \<le> b \<and> b \<le> 0xF3 then Some [(0x80, 0xBF), (0x80, 0xBF), (0x80, 0xBF)]
      else if b = 0xF4 then Some [(0x80, 0x8F), (0x80, 0xBF), (0x80, 0xBF)]
      else None)"

fun utf8_from :: "(nat \<times> nat) list \<Rightarrow> string \<Rightarrow> bool" where
  "utf8_from [] [] = True"
| "utf8_from (_ # _) [] = False"
| "utf8_from ((lo, hi) # es) (b # bs) = (lo \<le> byte_val b \<and> byte_val b \<le> hi \<and> utf8_from es bs)"
| "utf8_from [] (b # bs) =
     (if byte_val b < 0x80 then utf8_from [] bs
      else case utf8_lead (byte_val b) of None \<Rightarrow> False | Some es \<Rightarrow> utf8_from es bs)"

abbreviation valid_utf8 :: "string \<Rightarrow> bool" where "valid_utf8 \<equiv> utf8_from []"

section \<open>The stripper\<close>

definition NL :: char where "NL = CHR 0x0A"
definition CR :: char where "CR = CHR 0x0D"
definition SPACE :: char where "SPACE = CHR 0x20"
definition SLASH :: char where "SLASH = CHR 0x2F"
definition BACKSLASH :: char where "BACKSLASH = CHR 0x5C"
definition STAR :: char where "STAR = CHR 0x2A"
definition QUOTE :: char where "QUOTE = CHR 0x22"

lemmas jsonc_chars = NL_def CR_def SPACE_def SLASH_def BACKSLASH_def STAR_def QUOTE_def

text \<open>Both loops return what they write over the comment and the input left.\<close>

fun line_comment :: "string \<Rightarrow> string \<times> string" where
  "line_comment [] = ([], [])"
| "line_comment (b # bs) =
     (if b \<noteq> NL \<and> b \<noteq> CR then (let (out, rest) = line_comment bs in (SPACE # out, rest))
      else ([], b # bs))"

fun block_comment :: "string \<Rightarrow> (string \<times> string) option" where
  "block_comment (a # b # bs) =
     (if a = STAR \<and> b = SLASH then Some ([SPACE, SPACE], bs)
      else map_option (\<lambda>(out, rest). ((if a \<noteq> NL \<and> a \<noteq> CR then SPACE else a) # out, rest))
             (block_comment (b # bs)))"
| "block_comment _ = None"

lemma line_comment_shorter: "line_comment xs = (out, rest) \<Longrightarrow> length rest \<le> length xs"
  by (induction xs arbitrary: out rest) (force split: if_splits prod.splits)+

lemma block_comment_shorter: "block_comment xs = Some (out, rest) \<Longrightarrow> length rest < length xs"
  by (induction xs arbitrary: out rest rule: block_comment.induct) (fastforce split: if_splits)+

function strip_scan :: "nat \<Rightarrow> bool \<Rightarrow> bool \<Rightarrow> string \<Rightarrow> string + string" where
  "strip_scan i in_string escape [] = Inr []"
| "strip_scan i in_string escape (b # bs) =
     (if in_string then
        map_sum id ((#) b)
          (if escape then strip_scan (i + 1) True False bs
           else if b = BACKSLASH then strip_scan (i + 1) True True bs
           else if b = QUOTE then strip_scan (i + 1) False False bs
           else strip_scan (i + 1) True False bs)
      else if b = QUOTE then map_sum id ((#) b) (strip_scan (i + 1) True escape bs)
      else if b = SLASH \<and> bs \<noteq> [] \<and> hd bs = SLASH then
        (let (out, rest) = line_comment (tl bs)
         in map_sum id (\<lambda>r. SPACE # SPACE # out @ r) (strip_scan (i + 2 + length out) False escape rest))
      else if b = SLASH \<and> bs \<noteq> [] \<and> hd bs = STAR then
        (case block_comment (tl bs) of
           None \<Rightarrow> Inl (if i = 0 then ''unterminated block comment at byte 0''
                        else ''unterminated block comment'')
         | Some (out, rest) \<Rightarrow>
             map_sum id (\<lambda>r. SPACE # SPACE # out @ r) (strip_scan (i + 2 + length out) False escape rest))
      else map_sum id ((#) b) (strip_scan (i + 1) False escape bs))"
  by pat_completeness auto

termination
  by (relation "measure (\<lambda>(i, in_string, escape, xs). length xs)")
    (auto dest!: line_comment_shorter [OF sym] block_comment_shorter simp: le_less_trans
      intro: le_less_trans less_trans)

definition strip_jsonc_comments :: "string \<Rightarrow> string + string" where
  "strip_jsonc_comments input =
     and_then (strip_scan 0 False False input) (\<lambda>out.
       if valid_utf8 out then Inr out
       else Inl ''JSONC comment stripping produced invalid UTF-8'')"

section \<open>What stripping keeps\<close>

text \<open>A byte of the output is the byte of the input or a space over a byte that is no newline.\<close>

definition kept_or_blank :: "char \<Rightarrow> char \<Rightarrow> bool" where
  "kept_or_blank b c = (c = b \<or> c = SPACE \<and> b \<noteq> NL \<and> b \<noteq> CR)"

definition gap :: "char \<Rightarrow> bool" where "gap c = (c = SPACE \<or> c = NL \<or> c = CR)"

lemma kept_or_blank_simps [simp]: "kept_or_blank b b" "kept_or_blank SLASH SPACE" "kept_or_blank STAR SPACE"
  by (auto simp: kept_or_blank_def jsonc_chars)

lemma gap_simps [simp]: "gap SPACE" "gap NL" "gap CR" "\<not> gap QUOTE" "\<not> gap SLASH" "\<not> gap BACKSLASH"
  by (auto simp: gap_def jsonc_chars)

lemma jsonc_distinct [simp]: "SLASH \<noteq> QUOTE" "QUOTE \<noteq> SLASH" "SLASH \<noteq> STAR" "STAR \<noteq> SLASH"
  "BACKSLASH \<noteq> QUOTE" "QUOTE \<noteq> BACKSLASH"
  by (auto simp: jsonc_chars)

lemma gap_ascii: "gap c \<Longrightarrow> byte_val c < 0x80"
  by (auto simp: gap_def jsonc_chars)

lemma line_comment_parts:
  assumes "line_comment xs = (out, rest)"
  obtains pre where "xs = pre @ rest" "list_all2 kept_or_blank pre out" "list_all gap out"
    "rest = [] \<or> hd rest = NL \<or> hd rest = CR"
proof -
  have "\<exists>pre. xs = pre @ rest \<and> list_all2 kept_or_blank pre out \<and> list_all gap out
      \<and> (rest = [] \<or> hd rest = NL \<or> hd rest = CR)"
    using assms
  proof (induction xs arbitrary: out)
    case (Cons b bs)
    show ?case
    proof (cases "b = NL \<or> b = CR")
      case False
      with Cons.prems obtain o' where o': "line_comment bs = (o', rest)" "out = SPACE # o'"
        by (auto split: prod.splits)
      with Cons.IH [OF o'(1)] obtain pre where "bs = pre @ rest" "list_all2 kept_or_blank pre o'"
        "list_all gap o'" "rest = [] \<or> hd rest = NL \<or> hd rest = CR" by blast
      moreover from False have "kept_or_blank b SPACE" by (simp add: kept_or_blank_def)
      ultimately show ?thesis using o'(2) by (intro exI [of _ "b # pre"]) auto
    qed (use Cons.prems in auto)
  qed simp
  then show thesis using that by blast
qed

lemma block_comment_parts:
  assumes "block_comment xs = Some (out, rest)"
  obtains pre where "xs = pre @ rest" "list_all2 kept_or_blank pre out" "list_all gap out"
    "\<exists>pre'. pre = pre' @ [STAR, SLASH]"
proof -
  have "\<exists>pre. xs = pre @ rest \<and> list_all2 kept_or_blank pre out \<and> list_all gap out
      \<and> (\<exists>pre'. pre = pre' @ [STAR, SLASH])"
    using assms
  proof (induction xs arbitrary: out rule: block_comment.induct)
    case (1 a b bs)
    show ?case
    proof (cases "a = STAR \<and> b = SLASH")
      case True
      with "1.prems" show ?thesis by (intro exI [of _ "[STAR, SLASH]"]) auto
    next
      case False
      with "1.prems" obtain o' where o': "block_comment (b # bs) = Some (o', rest)"
        "out = (if a \<noteq> NL \<and> a \<noteq> CR then SPACE else a) # o'" by auto
      with "1.IH" [OF False o'(1)] obtain pre pre' where "b # bs = pre @ rest"
        "list_all2 kept_or_blank pre o'" "list_all gap o'" "pre = pre' @ [STAR, SLASH]" by blast
      moreover have "kept_or_blank a (if a \<noteq> NL \<and> a \<noteq> CR then SPACE else a)"
        by (simp add: kept_or_blank_def)
      ultimately show ?thesis using o'(2) by (intro exI [of _ "a # pre"]) auto
    qed
  qed auto
  then show thesis using that by blast
qed

text \<open>A successful scan as a relation, with one rule for each kind of step.\<close>

inductive stripped :: "bool \<Rightarrow> bool \<Rightarrow> string \<Rightarrow> string \<Rightarrow> bool" where
  strip_end: "stripped s e [] []"
| strip_string: "stripped (e \<or> b \<noteq> QUOTE) (\<not> e \<and> b = BACKSLASH) bs ys \<Longrightarrow> stripped True e (b # bs) (b # ys)"
| strip_open: "stripped True e bs ys \<Longrightarrow> stripped False e (QUOTE # bs) (QUOTE # ys)"
| strip_line: "\<lbrakk> line_comment xs = (out, rest); stripped False e rest ys \<rbrakk>
    \<Longrightarrow> stripped False e (SLASH # SLASH # xs) (SPACE # SPACE # out @ ys)"
| strip_block: "\<lbrakk> block_comment xs = Some (out, rest); stripped False e rest ys \<rbrakk>
    \<Longrightarrow> stripped False e (SLASH # STAR # xs) (SPACE # SPACE # out @ ys)"
| strip_plain: "\<lbrakk> b \<noteq> QUOTE; \<not> (b = SLASH \<and> bs \<noteq> [] \<and> (hd bs = SLASH \<or> hd bs = STAR)); stripped False e bs ys \<rbrakk>
    \<Longrightarrow> stripped False e (b # bs) (b # ys)"

lemma map_sum_id_Inr: "map_sum id f x = Inr y \<longleftrightarrow> (\<exists>r. x = Inr r \<and> y = f r)"
  by (cases x) auto

lemma strip_scan_stripped:
  "strip_scan i s e xs = Inr ys \<Longrightarrow> stripped s e xs ys"
proof (induction i s e xs arbitrary: ys rule: strip_scan.induct)
  case (2 i s e b bs)
  consider (string) s | (opens) "\<not> s" "b = QUOTE"
    | (line) cs where "\<not> s" "b = SLASH" "bs = SLASH # cs"
    | (block) cs where "\<not> s" "b = SLASH" "bs = STAR # cs"
    | (plain) "\<not> s" "b \<noteq> QUOTE" "\<not> (b = SLASH \<and> bs \<noteq> [] \<and> (hd bs = SLASH \<or> hd bs = STAR))"
    by (cases bs) auto
  then show ?case
  proof cases
    case string
    with 2 show ?thesis by (auto simp: map_sum_id_Inr split: if_splits intro!: strip_string)
  next
    case opens
    with 2 show ?thesis by (auto simp: map_sum_id_Inr intro!: strip_open)
  next
    case (line cs)
    obtain out rest where "line_comment cs = (out, rest)" by fastforce
    with line 2(6) "2.prems" show ?thesis by (auto simp: map_sum_id_Inr intro!: strip_line)
  next
    case (block cs)
    with 2(7) "2.prems" show ?thesis
      by (auto simp: map_sum_id_Inr split: option.splits intro!: strip_block)
  next
    case plain
    with 2(8) "2.prems" show ?thesis by (auto simp: map_sum_id_Inr intro!: strip_plain)
  qed
qed (auto intro: strip_end)

lemma stripped_kept: "stripped s e xs ys \<Longrightarrow> list_all2 kept_or_blank xs ys"
proof (induction rule: stripped.induct)
  case (strip_line xs out rest e ys)
  from line_comment_parts [OF strip_line.hyps(1)]
  obtain pre where "xs = pre @ rest" "list_all2 kept_or_blank pre out" by blast
  with strip_line.IH show ?case by (simp add: list_all2_appendI)
next
  case (strip_block xs out rest e ys)
  from block_comment_parts [OF strip_block.hyps(1)]
  obtain pre where "xs = pre @ rest" "list_all2 kept_or_blank pre out" by blast
  with strip_block.IH show ?case by (simp add: list_all2_appendI)
qed auto

text \<open>
  Sequences in progress expect bytes above the ASCII range only; \<open>pending\<close> is that invariant.
\<close>

definition pending :: "(nat \<times> nat) list \<Rightarrow> bool" where
  "pending es = list_all (\<lambda>(lo, hi). 0x80 \<le> lo) es"

lemma utf8_lead_pending: "utf8_lead b = Some es \<Longrightarrow> pending es"
  by (auto simp: utf8_lead_def pending_def split: if_splits)

lemma utf8_step:
  assumes "utf8_from es (b # bs)" "pending es"
  obtains "byte_val b < 0x80" "es = []" "valid_utf8 bs"
  | es' where "0x80 \<le> byte_val b" "pending es'" "utf8_from es' bs"
      "\<And>ys. utf8_from es' ys \<Longrightarrow> utf8_from es (b # ys)"
  using assms
proof (cases es)
  case Nil
  show thesis
  proof (cases "byte_val b < 0x80")
    case True
    with Nil assms that(1) show thesis by simp
  next
    case False
    with Nil assms obtain es' where "utf8_lead (byte_val b) = Some es'" "utf8_from es' bs"
      by (auto split: option.splits)
    moreover from this(1) have "pending es'" by (rule utf8_lead_pending)
    ultimately show thesis using that(2) [of es'] Nil False by simp
  qed
qed (auto simp: pending_def)

lemma line_comment_utf8:
  "line_comment xs = (out, rest) \<Longrightarrow> utf8_from es xs \<Longrightarrow> pending es \<Longrightarrow> valid_utf8 rest"
proof (induction xs arbitrary: out es)
  case (Cons b bs)
  from Cons.prems(2,3) show ?case
  proof (cases rule: utf8_step)
    case 1
    with Cons show ?thesis by (cases "b = NL \<or> b = CR") (auto simp: pending_def split: prod.splits)
  next
    case (2 es')
    then have "b \<noteq> NL" "b \<noteq> CR" by (auto simp: jsonc_chars)
    with Cons 2 show ?thesis by (auto split: prod.splits)
  qed
qed (cases es; simp)

lemma block_comment_utf8:
  "block_comment xs = Some (out, rest) \<Longrightarrow> utf8_from es xs \<Longrightarrow> pending es \<Longrightarrow> valid_utf8 rest"
proof (induction xs arbitrary: out es rule: block_comment.induct)
  case (1 a b bs)
  show ?case
  proof (cases "a = STAR \<and> b = SLASH")
    case True
    with "1.prems" show ?thesis by (cases es) (auto simp: pending_def jsonc_chars)
  next
    case False
    with "1.prems"(1) obtain o' where o': "block_comment (b # bs) = Some (o', rest)" by auto
    have "pending []" by (simp add: pending_def)
    with "1.prems"(2,3) obtain es' where "utf8_from es' (b # bs)" "pending es'"
      by (metis utf8_step)
    then show ?thesis using "1.IH" [OF False o'] by blast
  qed
qed auto

lemma utf8_gap: "list_all gap out \<Longrightarrow> valid_utf8 (out @ ys) = valid_utf8 ys"
  by (induction out) (auto dest: gap_ascii)

lemma stripped_utf8: "stripped s e xs ys \<Longrightarrow> utf8_from es xs \<Longrightarrow> pending es \<Longrightarrow> utf8_from es ys"
proof (induction arbitrary: es rule: stripped.induct)
  case (strip_string e b bs ys)
  from strip_string.prems strip_string.IH show ?case by (cases rule: utf8_step) (auto simp: pending_def)
next
  case (strip_open e bs ys)
  from strip_open.prems strip_open.IH show ?case by (cases rule: utf8_step) (auto simp: pending_def)
next
  case (strip_line xs out rest e ys)
  have "byte_val SLASH < 0x80" "byte_val SPACE < 0x80" "byte_val STAR < 0x80" by (simp_all add: jsonc_chars)
  note ascii = this
  then have es: "es = []" "valid_utf8 xs" using strip_line.prems by (cases es; auto simp: pending_def)+
  then have "valid_utf8 rest" using line_comment_utf8 [OF strip_line.hyps(1), of "[]"] by (simp add: pending_def)
  then have "valid_utf8 ys" using strip_line.IH by (simp add: pending_def)
  moreover have "list_all gap out" using line_comment_parts [OF strip_line.hyps(1)] by blast
  ultimately show ?case using es ascii by (simp add: utf8_gap)
next
  case (strip_block xs out rest e ys)
  have "byte_val SLASH < 0x80" "byte_val SPACE < 0x80" "byte_val STAR < 0x80" by (simp_all add: jsonc_chars)
  note ascii = this
  then have es: "es = []" "valid_utf8 xs" using strip_block.prems by (cases es; auto simp: pending_def)+
  then have "valid_utf8 rest" using block_comment_utf8 [OF strip_block.hyps(1), of "[]"] by (simp add: pending_def)
  then have "valid_utf8 ys" using strip_block.IH by (simp add: pending_def)
  moreover have "list_all gap out" using block_comment_parts [OF strip_block.hyps(1)] by blast
  ultimately show ?case using es ascii by (simp add: utf8_gap)
next
  case (strip_plain b bs e ys)
  from strip_plain.prems strip_plain.IH show ?case by (cases rule: utf8_step) (auto simp: pending_def)
qed

lemma strip_scan_gap:
  assumes "list_all gap out" "\<And>i. strip_scan i False e ys = Inr ys"
  shows "strip_scan i False e (out @ ys) = Inr (out @ ys)"
  using assms(1)
proof (induction out arbitrary: i)
  case (Cons b out)
  then have "b \<noteq> QUOTE" "b \<noteq> SLASH" by (auto simp: gap_def jsonc_chars)
  with Cons show ?case by simp
qed (simp add: assms(2))

lemma stripped_again: "stripped s e xs ys \<Longrightarrow> strip_scan i s e ys = Inr ys"
proof (induction arbitrary: i rule: stripped.induct)
  case (strip_line xs out rest e ys)
  have "list_all gap (SPACE # SPACE # out)" using line_comment_parts [OF strip_line.hyps(1)] by auto
  from strip_scan_gap [OF this strip_line.IH] show ?case by (simp only: append_Cons)
next
  case (strip_block xs out rest e ys)
  have "list_all gap (SPACE # SPACE # out)" using block_comment_parts [OF strip_block.hyps(1)] by auto
  from strip_scan_gap [OF this strip_block.IH] show ?case by (simp only: append_Cons)
next
  case (strip_plain b bs e ys)
  have "\<not> (b = SLASH \<and> ys \<noteq> [] \<and> (hd ys = SLASH \<or> hd ys = STAR))"
    using strip_plain.hyps(2) stripped_kept [OF strip_plain.hyps(3)]
    by (cases bs; cases ys) (auto simp: kept_or_blank_def jsonc_chars)
  with strip_plain show ?case by auto
qed auto

section \<open>The lexical reading of a manifest\<close>

text \<open>
  JSONC text read as pieces, without reference to the stripper: a string literal is a quote, a body
  of plain characters and escaped ones, and a quote, or runs unclosed to the end of the text; a
  line comment runs up to the next line end, a block comment up to the first close after its
  opening; every other character stands for itself, and it neither opens a string nor a comment.
\<close>

inductive string_body :: "string \<Rightarrow> bool" where
  body_empty: "string_body []"
| body_plain: "\<lbrakk> c \<noteq> QUOTE; c \<noteq> BACKSLASH; string_body s \<rbrakk> \<Longrightarrow> string_body (c # s)"
| body_escape: "string_body s \<Longrightarrow> string_body (BACKSLASH # c # s)"

datatype JsoncPiece =
    Literal string
  | OpenLiteral string
  | LineComment string
  | BlockComment string
  | PlainChar char

fun piece_text :: "JsoncPiece \<Rightarrow> string" where
  "piece_text (Literal body) = QUOTE # body @ [QUOTE]"
| "piece_text (OpenLiteral s) = QUOTE # s"
| "piece_text (LineComment body) = SLASH # SLASH # body"
| "piece_text (BlockComment body) = SLASH # STAR # body @ [STAR, SLASH]"
| "piece_text (PlainChar c) = [c]"

fun piece_ok :: "JsoncPiece \<Rightarrow> string \<Rightarrow> bool" where
  "piece_ok (Literal body) rest = string_body body"
| "piece_ok (OpenLiteral s) rest = ((string_body s \<or> (\<exists>body. string_body body \<and> s = body @ [BACKSLASH])) \<and> rest = [])"
| "piece_ok (LineComment body) rest = (NL \<notin> set body \<and> CR \<notin> set body \<and> (rest = [] \<or> hd rest = NL \<or> hd rest = CR))"
| "piece_ok (BlockComment body) rest = (\<not> sublist [STAR, SLASH] (body @ [STAR]))"
| "piece_ok (PlainChar c) rest = (c \<noteq> QUOTE \<and> \<not> (c = SLASH \<and> rest \<noteq> [] \<and> (hd rest = SLASH \<or> hd rest = STAR)))"

inductive jsonc_reads :: "string \<Rightarrow> JsoncPiece list \<Rightarrow> bool" where
  reads_end: "jsonc_reads [] []"
| reads_piece: "\<lbrakk> piece_ok p rest; jsonc_reads rest ps \<rbrakk> \<Longrightarrow> jsonc_reads (piece_text p @ rest) (p # ps)"

text \<open>Text whose reading meets a block comment that is never closed.\<close>

inductive unterminated :: "string \<Rightarrow> bool" where
  unterminated_here: "\<not> sublist [STAR, SLASH] rest \<Longrightarrow> unterminated (SLASH # STAR # rest)"
| unterminated_later: "\<lbrakk> piece_ok p rest; unterminated rest \<rbrakk> \<Longrightarrow> unterminated (piece_text p @ rest)"

text \<open>Only comments are written over, byte by byte, with their line ends kept.\<close>

definition blank :: "char \<Rightarrow> char" where
  "blank c = (if c = NL \<or> c = CR then c else SPACE)"

fun piece_shown :: "JsoncPiece \<Rightarrow> string" where
  "piece_shown (LineComment body) = map blank (piece_text (LineComment body))"
| "piece_shown (BlockComment body) = map blank (piece_text (BlockComment body))"
| "piece_shown p = piece_text p"

lemma blank_simps [simp]: "blank SLASH = SPACE" "blank STAR = SPACE"
  by (simp_all add: blank_def jsonc_chars)

lemma map_sum_id_comp [simp]: "map_sum id f (map_sum id g x) = map_sum id (\<lambda>r. f (g r)) x"
  by (cases x) simp_all

lemma append_eta: "(@) [] = (\<lambda>r. r)" "(@) (c # xs) = (\<lambda>r. c # (xs @ r))" "(@) (xs @ ys) = (\<lambda>r. xs @ (ys @ r))"
  by (simp_all add: fun_eq_iff)

lemma line_comment_eq:
  "NL \<notin> set body \<Longrightarrow> CR \<notin> set body \<Longrightarrow> rest = [] \<or> hd rest = NL \<or> hd rest = CR \<Longrightarrow>
   line_comment (body @ rest) = (map blank body, rest)"
proof (induction body)
  case Nil
  then show ?case by (cases rest) auto
qed (auto simp: blank_def)

lemma block_comment_eq:
  "\<not> sublist [STAR, SLASH] (body @ [STAR]) \<Longrightarrow>
   block_comment (body @ STAR # SLASH # rest) = Some (map blank body @ [SPACE, SPACE], rest)"
proof (induction body)
  case (Cons a body)
  then have "\<not> sublist [STAR, SLASH] (body @ [STAR])" by (simp add: sublist_Cons_right)
  with Cons show ?case by (cases body) (auto simp: blank_def sublist_Cons_right)
qed simp

lemma block_comment_none: "\<not> sublist [STAR, SLASH] xs \<Longrightarrow> block_comment xs = None"
  by (induction xs rule: block_comment.induct) (auto simp: sublist_Cons_right)

lemma strip_literal:
  "string_body body \<Longrightarrow> strip_scan i True False (body @ QUOTE # rest)
     = map_sum id ((@) (body @ [QUOTE])) (strip_scan (i + length body + 1) False False rest)"
proof (induction arbitrary: i rule: string_body.induct)
  case body_empty
  show ?case by (cases "strip_scan (i + 1) False False rest") simp_all
qed (simp_all add: append_eta)

lemma strip_open_literal: "string_body s \<Longrightarrow> strip_scan i True False s = Inr s \<and> strip_scan i True False (s @ [BACKSLASH]) = Inr (s @ [BACKSLASH])"
  by (induction arbitrary: i rule: string_body.induct) simp_all

lemma strip_piece:
  assumes "piece_ok p rest"
  shows "strip_scan i False False (piece_text p @ rest)
    = map_sum id ((@) (piece_shown p)) (strip_scan (i + length (piece_text p)) False False rest)"
proof (cases p)
  case (Literal body)
  with assms strip_literal [of body "i + 1" rest] show ?thesis by (simp add: append_eta)
next
  case (OpenLiteral s)
  with assms strip_open_literal show ?thesis by auto
next
  case (LineComment body)
  with assms line_comment_eq [of body rest] show ?thesis by (simp add: append_eta)
next
  case (BlockComment body)
  with assms block_comment_eq [of body rest] show ?thesis by (simp add: append_eta)
next
  case (PlainChar c)
  with assms show ?thesis by (auto simp: append_eta)
qed

lemma reads_strip: "jsonc_reads doc ps \<Longrightarrow> strip_scan i False False doc = Inr (concat (map piece_shown ps))"
  by (induction arbitrary: i rule: jsonc_reads.induct) (simp_all add: strip_piece)

lemma piece_text_nonempty: "piece_text p \<noteq> []"
  by (cases p) simp_all

definition unterminated_message :: "nat \<Rightarrow> string \<Rightarrow> string" where
  "unterminated_message i doc =
     (if i = 0 \<and> (\<exists>rest. doc = SLASH # STAR # rest \<and> \<not> sublist [STAR, SLASH] rest)
      then ''unterminated block comment at byte 0'' else ''unterminated block comment'')"

lemma piece_no_open:
  assumes "piece_ok p rest" "piece_text p @ rest = SLASH # STAR # xs"
  shows "sublist [STAR, SLASH] xs"
proof (cases p)
  case (BlockComment body)
  with assms(2) have "xs = body @ [STAR, SLASH] @ rest" by simp
  then show ?thesis unfolding sublist_def by blast
qed (use assms in auto)

lemma unterminated_strip: "unterminated doc \<Longrightarrow> strip_scan i False False doc = Inl (unterminated_message i doc)"
proof (induction arbitrary: i rule: unterminated.induct)
  case (unterminated_here rest)
  then show ?case by (simp add: block_comment_none unterminated_message_def)
next
  case (unterminated_later p rest)
  have "unterminated_message i (piece_text p @ rest) = unterminated_message (i + length (piece_text p)) rest"
    using piece_no_open [OF unterminated_later.hyps(1)] piece_text_nonempty [of p] by (auto simp: unterminated_message_def)
  with unterminated_later show ?case by (simp add: strip_piece)
qed

lemma string_body_split:
  "(\<exists>body rest. string_body body \<and> s = body @ QUOTE # rest) \<or> string_body s \<or> (\<exists>body. string_body body \<and> s = body @ [BACKSLASH])"
proof (induction s rule: length_induct)
  case (1 s)
  show ?case
  proof (cases s)
    case (Cons c cs)
    consider "c = QUOTE" | "c = BACKSLASH" "cs = []" | d ds where "c = BACKSLASH" "cs = d # ds" | "c \<noteq> QUOTE" "c \<noteq> BACKSLASH"
      by (cases cs) auto
    then show ?thesis
    proof cases
      case (3 d ds)
      with 1 Cons have "(\<exists>body rest. string_body body \<and> ds = body @ QUOTE # rest) \<or> string_body ds \<or> (\<exists>body. string_body body \<and> ds = body @ [BACKSLASH])"
        by simp
      with 3 Cons body_escape [of _ d] show ?thesis by (metis append_Cons)
    next
      case 4
      with 1 Cons have "(\<exists>body rest. string_body body \<and> cs = body @ QUOTE # rest) \<or> string_body cs \<or> (\<exists>body. string_body body \<and> cs = body @ [BACKSLASH])"
        by simp
      with 4 Cons body_plain [of c] show ?thesis by (metis append_Cons)
    qed (use Cons body_empty in \<open>auto intro: exI [of _ "[]"]\<close>)
  qed (simp add: body_empty)
qed

lemma first_close:
  "sublist [STAR, SLASH] xs \<Longrightarrow> \<exists>body rest. xs = body @ [STAR, SLASH] @ rest \<and> \<not> sublist [STAR, SLASH] (body @ [STAR])"
proof (induction xs)
  case (Cons a xs)
  show ?case
  proof (cases "\<exists>rest. a # xs = [STAR, SLASH] @ rest")
    case True
    then obtain rest where "a # xs = [] @ [STAR, SLASH] @ rest" by auto
    then show ?thesis by (intro exI [of _ "[]"] exI [of _ rest]) (simp add: sublist_Cons_right)
  next
    case False
    with Cons obtain body rest where body: "xs = body @ [STAR, SLASH] @ rest" "\<not> sublist [STAR, SLASH] (body @ [STAR])"
      by (auto simp: sublist_Cons_right prefix_def)
    with False have "\<not> sublist [STAR, SLASH] ((a # body) @ [STAR])"
      by (cases body) (auto simp: sublist_Cons_right)
    with body show ?thesis by (metis append_Cons)
  qed
qed simp

lemma next_piece:
  assumes "doc \<noteq> []"
  obtains (piece) p rest where "doc = piece_text p @ rest" "piece_ok p rest"
    | (open_block) rest where "doc = SLASH # STAR # rest" "\<not> sublist [STAR, SLASH] rest"
proof -
  obtain c cs where doc: "doc = c # cs" using assms by (cases doc) auto
  consider "c = QUOTE" | ds where "c = SLASH" "cs = SLASH # ds" | ds where "c = SLASH" "cs = STAR # ds"
    | "c \<noteq> QUOTE" "\<not> (c = SLASH \<and> cs \<noteq> [] \<and> (hd cs = SLASH \<or> hd cs = STAR))"
    by (cases cs) auto
  then show thesis
  proof cases
    case 1
    from string_body_split [of cs] consider body rest where "string_body body" "cs = body @ QUOTE # rest"
      | "piece_ok (OpenLiteral cs) []" by auto
    then show thesis
    proof cases
      case (1 body rest)
      with doc \<open>c = QUOTE\<close> piece [of "Literal body" rest] show thesis by simp
    next
      case 2
      with doc \<open>c = QUOTE\<close> piece [of "OpenLiteral cs" "[]"] show thesis by simp
    qed
  next
    case (2 ds)
    let ?stop = "\<lambda>x. x \<noteq> NL \<and> x \<noteq> CR"
    have "dropWhile ?stop ds = [] \<or> hd (dropWhile ?stop ds) = NL \<or> hd (dropWhile ?stop ds) = CR"
      using hd_dropWhile [of ?stop ds] by blast
    then have "piece_ok (LineComment (takeWhile ?stop ds)) (dropWhile ?stop ds)"
      by (auto dest: set_takeWhileD)
    with 2 doc piece [of "LineComment (takeWhile ?stop ds)" "dropWhile ?stop ds"] show thesis by simp
  next
    case (3 ds)
    show thesis
    proof (cases "sublist [STAR, SLASH] ds")
      case True
      from first_close [OF True] obtain body rest where "ds = body @ [STAR, SLASH] @ rest" "\<not> sublist [STAR, SLASH] (body @ [STAR])"
        by blast
      with 3 doc piece [of "BlockComment body" rest] show thesis by simp
    next
      case False
      with 3 doc open_block [of ds] show thesis by simp
    qed
  next
    case 4
    with doc piece [of "PlainChar c" cs] show thesis by simp
  qed
qed

lemma jsonc_total: "(\<exists>ps. jsonc_reads doc ps) \<or> unterminated doc"
proof (induction doc rule: length_induct)
  case (1 doc)
  show ?case
  proof (cases "doc = []")
    case False
    then show ?thesis
    proof (cases rule: next_piece)
      case (piece p rest)
      with 1 piece_text_nonempty [of p] have "(\<exists>ps. jsonc_reads rest ps) \<or> unterminated rest" by simp
      with piece show ?thesis by (auto intro: reads_piece unterminated_later)
    qed (auto intro: unterminated_here)
  qed (auto intro: reads_end)
qed

lemma strip_scan_utf8:
  assumes "valid_utf8 doc" "strip_scan i False False doc = Inr out"
  shows "valid_utf8 out"
  using assms(1) stripped_utf8 [OF strip_scan_stripped [OF assms(2)], of "[]"] by (simp add: pending_def)

lemma strip_jsonc_scan: "valid_utf8 doc \<Longrightarrow> strip_jsonc_comments doc = strip_scan 0 False False doc"
  using strip_scan_utf8 [of doc 0]
  by (cases "strip_scan 0 False False doc") (auto simp: strip_jsonc_comments_def and_then_def)

lemma strip_jsonc_Inr:
  "valid_utf8 doc \<Longrightarrow> strip_jsonc_comments doc = Inr out \<longleftrightarrow> (\<exists>ps. jsonc_reads doc ps \<and> out = concat (map piece_shown ps))"
  using jsonc_total [of doc] reads_strip [of doc _ 0] unterminated_strip [of doc 0]
  by (metis Inr_not_Inl sum.inject(2) strip_jsonc_scan)

text \<open>
  C38. On UTF-8 text the stripper writes over comments and over nothing else: it succeeds exactly when
  the text has a reading in which every block comment is closed, and its output is then that
  reading with the comments' bytes replaced by spaces, their line ends kept, and every string literal
  and every other character as it was; it fails exactly on a block comment that is never closed, naming byte 0 exactly
  when the comment starts there. The output is UTF-8 of the same length with no comment left:
  stripping it again changes nothing.
\<close>

theorem strip_jsonc_exact:
  assumes "valid_utf8 doc"
  shows "(\<forall>out. strip_jsonc_comments doc = Inr out \<longleftrightarrow> (\<exists>ps. jsonc_reads doc ps \<and> out = concat (map piece_shown ps)))
    \<and> (\<forall>m. strip_jsonc_comments doc = Inl m \<longleftrightarrow> unterminated doc \<and> m = unterminated_message 0 doc)
    \<and> (\<forall>out. strip_jsonc_comments doc = Inr out \<longrightarrow>
         valid_utf8 out \<and> length out = length doc \<and> strip_jsonc_comments out = Inr out)"
proof (intro conjI allI)
  fix out
  show "strip_jsonc_comments doc = Inr out \<longleftrightarrow> (\<exists>ps. jsonc_reads doc ps \<and> out = concat (map piece_shown ps))"
    by (rule strip_jsonc_Inr [OF assms])
  show "strip_jsonc_comments doc = Inr out \<longrightarrow> valid_utf8 out \<and> length out = length doc \<and> strip_jsonc_comments out = Inr out"
  proof
    assume "strip_jsonc_comments doc = Inr out"
    then have scan: "strip_scan 0 False False doc = Inr out" by (simp add: strip_jsonc_scan [OF assms])
    note st = strip_scan_stripped [OF scan] and ok = strip_scan_utf8 [OF assms scan]
    from stripped_again [OF st, of 0] stripped_kept [OF st] ok
    show "valid_utf8 out \<and> length out = length doc \<and> strip_jsonc_comments out = Inr out"
      by (simp add: strip_jsonc_scan list_all2_lengthD)
  qed
next
  fix m
  show "strip_jsonc_comments doc = Inl m \<longleftrightarrow> unterminated doc \<and> m = unterminated_message 0 doc"
    using jsonc_total [of doc] reads_strip [of doc _ 0] unterminated_strip [of doc 0]
    by (metis Inr_not_Inl sum.inject(1) strip_jsonc_scan [OF assms])
qed

text \<open>Two slashes inside a string literal are kept, the two after it open a comment.\<close>

theorem strip_jsonc_exact_witness:
  "strip_jsonc_comments [QUOTE, SLASH, SLASH, QUOTE, SLASH, SLASH, CHR ''c''] = Inr [QUOTE, SLASH, SLASH, QUOTE, SPACE, SPACE, SPACE]
   \<and> (\<exists>ps. jsonc_reads [QUOTE, SLASH, SLASH, QUOTE, SLASH, SLASH, CHR ''c''] ps
        \<and> [QUOTE, SLASH, SLASH, QUOTE, SPACE, SPACE, SPACE] = concat (map piece_shown ps))"
proof -
  have v: "valid_utf8 [QUOTE, SLASH, SLASH, QUOTE, SLASH, SLASH, CHR ''c'']" by code_simp
  moreover have "strip_jsonc_comments [QUOTE, SLASH, SLASH, QUOTE, SLASH, SLASH, CHR ''c'']
      = Inr [QUOTE, SLASH, SLASH, QUOTE, SPACE, SPACE, SPACE]" by code_simp
  ultimately show ?thesis using strip_jsonc_exact [OF v] by blast
qed

end
