(* ===== verification/Guard_Admit.thy ===== *)
theory Guard_Admit
  imports Guard_Jsonc Kipc_Token
begin

text \<open>
  Strict-profile admission (\<open>crates/keld-guard/src/admit.rs\<close>): the request, the observed host
  facts, the archived hostile-probe catalog, and the checks that decide whether a spawn may be
  called strict. The compiled target (\<open>HostOs::current\<close>) is an argument.
\<close>

section \<open>Data\<close>

datatype HostOs = Macos | Windows | Linux

fun os_str :: "HostOs \<Rightarrow> string" where
  "os_str Macos = ''macos''"
| "os_str Windows = ''windows''"
| "os_str Linux = ''linux''"

datatype ProfileState = Unverified | Legacy | Strict

fun as_report_str :: "ProfileState \<Rightarrow> string" where
  "as_report_str Unverified = ''unverified''"
| "as_report_str Legacy = ''legacy''"
| "as_report_str Strict = ''strict''"

record RoleInstance =
  generation :: u32

record ProofIdentity =
  pi_os :: HostOs
  pi_artifact_digest :: bytes
  pi_profile_digest :: bytes
  pi_archive_id :: string

record AdmissionRequest =
  rq_role :: RoleInstance
  requested :: ProfileState
  rq_artifact_digest :: bytes
  rq_profile_digest :: bytes
  proof_id :: "ProofIdentity option"
  electron_sandbox_off :: bool
  inherit_from_host :: bool

datatype ProbeLayer = OsContainment | SupervisorCleanup | HostProtocol | ResourceLimits

fun layer_str :: "ProbeLayer \<Rightarrow> string" where
  "layer_str OsContainment = ''os_containment''"
| "layer_str SupervisorCleanup = ''supervisor_cleanup''"
| "layer_str HostProtocol = ''host_protocol''"
| "layer_str ResourceLimits = ''resource_limits''"

datatype ProbeOracle = OsDeny | NotOsDeny | JsShim | HostProtocolOracle | SupervisorReap | ResourceLimit

fun oracle_str :: "ProbeOracle \<Rightarrow> string" where
  "oracle_str OsDeny = ''os_deny''"
| "oracle_str NotOsDeny = ''not_os_deny''"
| "oracle_str JsShim = ''js_shim''"
| "oracle_str HostProtocolOracle = ''host_protocol''"
| "oracle_str SupervisorReap = ''supervisor_reap''"
| "oracle_str ResourceLimit = ''resource_limit''"

definition admits_os_containment_pass :: "ProbeOracle \<Rightarrow> bool" where
  "admits_os_containment_pass oracle = (oracle = OsDeny)"

datatype ProbeVerdict = Pass | Fail

record ProbeRecord =
  pr_probe :: string
  pr_expected_layer :: ProbeLayer
  pr_recorded_layer :: ProbeLayer
  pr_verdict :: ProbeVerdict
  pr_oracle :: ProbeOracle
  pr_detail :: string

record ProofArchive =
  pa_identity :: ProofIdentity
  pa_rows :: "ProbeRecord list"
  pa_policy_generation :: u64

record HostFacts =
  hf_os :: HostOs
  missing_primitives :: "string list"
  hf_policy_generation :: u64
  handle_leak :: "string option"

definition CURRENT_POLICY_GENERATION :: u64 where "CURRENT_POLICY_GENERATION = 1"

definition OS_CONTAINMENT_PROBES :: "string list" where
  "OS_CONTAINMENT_PROBES =
     [''direct_filesystem'', ''direct_network'', ''direct_spawn'', ''inherited_handles'', ''scm_rights'',
      ''descendants'', ''broker_bypass'', ''token_theft'', ''addon_escape'', ''updater_boundary'']"

definition expected_layer_for :: "string \<Rightarrow> ProbeLayer option" where
  "expected_layer_for probe =
     (if probe = ''crash_cleanup'' then Some SupervisorCleanup
      else if probe = ''protocol_confusion'' then Some HostProtocol
      else if probe = ''resource'' then Some ResourceLimits
      else if probe \<in> set OS_CONTAINMENT_PROBES then Some OsContainment
      else None)"

fun required_primitives :: "HostOs \<Rightarrow> string list" where
  "required_primitives Macos =
     [''macos.app-sandbox'', ''macos.no-inherit-from-host'', ''macos.no-network-entitlement'']"
| "required_primitives Windows =
     [''windows.zero-capability-lpac'', ''windows.all-application-packages-opt-out'',
      ''windows.handle-allowlist'']"
| "required_primitives Linux =
     [''linux.user-mount-pid-net-namespaces'', ''linux.host-path-deny-mount-table'',
      ''linux.no-new-privs'', ''linux.empty-capabilities'', ''linux.seccomp-no-new-userns'']"

definition observe_uncontained :: "HostOs \<Rightarrow> HostFacts" where
  "observe_uncontained current =
     \<lparr> hf_os = current, missing_primitives = required_primitives current,
       hf_policy_generation = CURRENT_POLICY_GENERATION, handle_leak = None \<rparr>"

datatype MismatchField = ArtifactDigestField | ProfileDigestField | OsField | ArchiveIdField

fun field_str :: "MismatchField \<Rightarrow> string" where
  "field_str ArtifactDigestField = ''artifact_digest''"
| "field_str ProfileDigestField = ''profile_digest''"
| "field_str OsField = ''os''"
| "field_str ArchiveIdField = ''archive_id''"

text \<open>The fields of an error in the order of the source; the last one of each is its fix.\<close>

datatype AdmissionError =
    PrimitiveUnavailable HostOs string string
  | UnexpectedGrant HostOs string string
  | HandleLeak string string
  | ProofMissing HostOs string
  | ProofStale HostOs string string string
  | ProofMismatch HostOs MismatchField string string string
  | ProofIncomplete HostOs string string
  | ProofLayerMismatch HostOs string ProbeLayer ProbeLayer ProbeOracle string

fun admission_code :: "AdmissionError \<Rightarrow> string" where
  "admission_code (PrimitiveUnavailable _ _ _) = ''KELD-GUARD008''"
| "admission_code (UnexpectedGrant _ _ _) = ''KELD-GUARD009''"
| "admission_code (HandleLeak _ _) = ''KELD-GUARD010''"
| "admission_code (ProofMissing _ _) = ''KELD-GUARD011''"
| "admission_code (ProofStale _ _ _ _) = ''KELD-GUARD012''"
| "admission_code (ProofMismatch _ _ _ _ _) = ''KELD-GUARD013''"
| "admission_code (ProofIncomplete _ _ _) = ''KELD-GUARD014''"
| "admission_code (ProofLayerMismatch _ _ _ _ _ _) = ''KELD-GUARD015''"

section \<open>Admission\<close>

definition FIX_NO_CHILD :: string where
  "FIX_NO_CHILD = ''Do not start a child and do not restart unsandboxed; keep requested=Strict or ''
     @ ''declare explicit Keld legacy.''"

definition proof_missing :: "HostOs \<Rightarrow> AdmissionError" where
  "proof_missing os = ProofMissing os FIX_NO_CHILD"

definition reject_unexpected :: "AdmissionRequest \<Rightarrow> HostFacts \<Rightarrow> AdmissionError + unit" where
  "reject_unexpected req facts =
     (if electron_sandbox_off req then
        Inl (UnexpectedGrant (hf_os facts) ''electron.appSandbox=off''
          (''Declare the Keld profile key explicitly; Electron sandbox/appSandbox is not Strict or ''
           @ ''Legacy. Do not start.''))
      else if inherit_from_host req then
        Inl (UnexpectedGrant (hf_os facts) ''inherit-from-host''
          (''Sign a separate helper with its own App Sandbox; do not inherit keld-host. Do not start.''))
      else case handle_leak facts of
        Some description \<Rightarrow>
          Inl (HandleLeak description
            (''Strip inherited handles to app-link + log sinks, then retry admission. Do not start.''))
      | None \<Rightarrow> Inr ())"

definition require_primitives :: "HostFacts \<Rightarrow> AdmissionError + unit" where
  "require_primitives facts =
     (case missing_primitives facts of
        primitive # _ \<Rightarrow> Inl (PrimitiveUnavailable (hf_os facts) primitive FIX_NO_CHILD)
      | [] \<Rightarrow> Inr ())"

definition require_nonempty_archive ::
  "HostOs \<Rightarrow> ProofArchive option \<Rightarrow> AdmissionError + ProofArchive" where
  "require_nonempty_archive os archive =
     (case archive of
        Some a \<Rightarrow> if pa_rows a \<noteq> [] then Inr a else Inl (proof_missing os)
      | None \<Rightarrow> Inl (proof_missing os))"

definition mismatch :: "HostOs \<Rightarrow> MismatchField \<Rightarrow> string \<Rightarrow> string \<Rightarrow> AdmissionError" where
  "mismatch os field expected found = ProofMismatch os field expected found FIX_NO_CHILD"

definition hex32 :: "bytes \<Rightarrow> string" where "hex32 bs = concat (map hex_pair bs)"

definition match_identity ::
  "AdmissionRequest \<Rightarrow> HostFacts \<Rightarrow> ProofIdentity \<Rightarrow> ProofArchive \<Rightarrow> AdmissionError + unit" where
  "match_identity req facts proof_of archive =
     (let os = hf_os facts; idn = pa_identity archive in
      if pi_os proof_of \<noteq> os then Inl (mismatch os OsField (os_str os) (os_str (pi_os proof_of)))
      else if pi_artifact_digest proof_of \<noteq> rq_artifact_digest req then
        Inl (mismatch os ArtifactDigestField (hex32 (rq_artifact_digest req)) (hex32 (pi_artifact_digest proof_of)))
      else if pi_profile_digest proof_of \<noteq> rq_profile_digest req then
        Inl (mismatch os ProfileDigestField (hex32 (rq_profile_digest req)) (hex32 (pi_profile_digest proof_of)))
      else if pi_archive_id proof_of \<noteq> pi_archive_id idn then
        Inl (mismatch os ArchiveIdField (pi_archive_id proof_of) (pi_archive_id idn))
      else if idn = proof_of then Inr ()
      else if pi_artifact_digest idn \<noteq> pi_artifact_digest proof_of then
        Inl (mismatch os ArtifactDigestField (hex32 (pi_artifact_digest proof_of)) (hex32 (pi_artifact_digest idn)))
      else if pi_profile_digest idn \<noteq> pi_profile_digest proof_of then
        Inl (mismatch os ProfileDigestField (hex32 (pi_profile_digest proof_of)) (hex32 (pi_profile_digest idn)))
      else Inl (mismatch os OsField (os_str (pi_os proof_of)) (os_str (pi_os idn))))"

fun expected_oracle_for :: "ProbeLayer \<Rightarrow> ProbeOracle" where
  "expected_oracle_for OsContainment = OsDeny"
| "expected_oracle_for SupervisorCleanup = SupervisorReap"
| "expected_oracle_for HostProtocol = HostProtocolOracle"
| "expected_oracle_for ResourceLimits = ResourceLimit"

definition proof_layer_mismatch :: "HostOs \<Rightarrow> ProbeRecord \<Rightarrow> ProbeLayer \<Rightarrow> AdmissionError" where
  "proof_layer_mismatch os row expected =
     ProofLayerMismatch os (pr_probe row) expected (pr_recorded_layer row) (pr_oracle row) FIX_NO_CHILD"

fun layer_mismatch :: "HostOs \<Rightarrow> ProbeRecord list \<Rightarrow> AdmissionError option" where
  "layer_mismatch os [] = None"
| "layer_mismatch os (row # rows) =
     (case expected_layer_for (pr_probe row) of
        None \<Rightarrow> layer_mismatch os rows
      | Some expected \<Rightarrow>
          if pr_expected_layer row \<noteq> expected \<or> pr_recorded_layer row \<noteq> expected
          then Some (proof_layer_mismatch os row expected)
          else if expected = OsContainment \<and> pr_verdict row = Pass
            \<and> \<not> admits_os_containment_pass (pr_oracle row)
          then Some (proof_layer_mismatch os row OsContainment)
          else layer_mismatch os rows)"

definition probe_passed :: "ProbeRecord list \<Rightarrow> string \<Rightarrow> bool" where
  "probe_passed rows probe =
     list_ex (\<lambda>row. pr_probe row = probe \<and> pr_verdict row = Pass
       \<and> pr_recorded_layer row = OsContainment \<and> admits_os_containment_pass (pr_oracle row)) rows"

definition incomplete_os_rows :: "ProbeRecord list \<Rightarrow> string option" where
  "incomplete_os_rows rows =
     (let missing = filter (\<lambda>probe. \<not> probe_passed rows probe) OS_CONTAINMENT_PROBES in
      if missing = [] then None else Some (join_with '', '' missing))"

definition STALE_REASON :: string where
  "STALE_REASON = ''archive predates the current '' @ [CHR 0xC2, CHR 0xA7] @ ''4 policy generation''"

definition admit_strict ::
  "AdmissionRequest \<Rightarrow> HostFacts \<Rightarrow> ProofArchive option \<Rightarrow> AdmissionError + ProfileState" where
  "admit_strict req facts archive =
     and_then (reject_unexpected req facts) (\<lambda>_.
     and_then (require_primitives facts) (\<lambda>_.
     and_then (ok_or (proof_id req) (proof_missing (hf_os facts))) (\<lambda>proof_of.
     and_then (require_nonempty_archive (hf_os facts) archive) (\<lambda>arch.
     and_then (match_identity req facts proof_of arch) (\<lambda>_.
     if pa_policy_generation arch < hf_policy_generation facts
     then Inl (ProofStale (hf_os facts) (pi_archive_id proof_of) STALE_REASON FIX_NO_CHILD)
     else case layer_mismatch (hf_os facts) (pa_rows arch) of
       Some err \<Rightarrow> Inl err
     | None \<Rightarrow>
         (case incomplete_os_rows (pa_rows arch) of
            Some missing \<Rightarrow> Inl (ProofIncomplete (hf_os facts) missing FIX_NO_CHILD)
          | None \<Rightarrow> Inr Strict))))))"

definition admit ::
  "AdmissionRequest \<Rightarrow> HostFacts \<Rightarrow> ProofArchive option \<Rightarrow> AdmissionError + ProfileState" where
  "admit req facts archive =
     (case requested req of
        Unverified \<Rightarrow> Inr Unverified
      | Legacy \<Rightarrow> Inr Legacy
      | Strict \<Rightarrow> admit_strict req facts archive)"

section \<open>What strict means\<close>

text \<open>A row the catalog knows is recorded in its own layer; an OS pass is an OS denial.\<close>

definition row_sound :: "ProbeRecord \<Rightarrow> bool" where
  "row_sound row =
     (case expected_layer_for (pr_probe row) of
        None \<Rightarrow> True
      | Some layer \<Rightarrow> pr_expected_layer row = layer \<and> pr_recorded_layer row = layer
          \<and> (layer = OsContainment \<longrightarrow> pr_verdict row = Pass \<longrightarrow> pr_oracle row = OsDeny))"

lemma layer_mismatch_None: "layer_mismatch os rows = None \<longleftrightarrow> list_all row_sound rows"
  by (induction rows) (auto simp: row_sound_def admits_os_containment_pass_def split: option.splits)

lemma incomplete_None: "incomplete_os_rows rows = None \<longleftrightarrow> list_all (probe_passed rows) OS_CONTAINMENT_PROBES"
  by (auto simp: incomplete_os_rows_def Let_def filter_empty_conv list_all_iff)

lemma match_identity_Inr:
  "match_identity req facts p a = Inr () \<longleftrightarrow>
     pa_identity a = p \<and> pi_os p = hf_os facts \<and> pi_artifact_digest p = rq_artifact_digest req
     \<and> pi_profile_digest p = rq_profile_digest req"
  by (auto simp: match_identity_def Let_def)

lemma passed_nonempty: "list_all (probe_passed rows) OS_CONTAINMENT_PROBES \<Longrightarrow> rows \<noteq> []"
  by (auto simp: probe_passed_def OS_CONTAINMENT_PROBES_def)

lemma reject_unexpected_Inr:
  "reject_unexpected req facts = Inr () \<longleftrightarrow>
     \<not> electron_sandbox_off req \<and> \<not> inherit_from_host req \<and> handle_leak facts = None"
  by (auto simp: reject_unexpected_def split: option.splits)

lemma require_primitives_Inr: "require_primitives facts = Inr () \<longleftrightarrow> missing_primitives facts = []"
  by (auto simp: require_primitives_def split: list.splits)

text \<open>
  Strict is admitted exactly when it was requested, nothing is inherited, leaked or turned
  off, no primitive is missing, and a presented proof and its archive agree with each other, with
  the host's system and with the digests of this spawn, the archive is not older than the policy,
  every row of a known probe is attributed to that probe's layer, and each of the ten containment
  probes has a row that passed in the containment layer by an OS denial. Other requests get
  their own state back.
\<close>

theorem admit_strict_exact:
  "admit req facts archive = Inr state \<longleftrightarrow>
     state = requested req
     \<and> (if requested req = Strict
        then \<not> electron_sandbox_off req \<and> \<not> inherit_from_host req \<and> handle_leak facts = None
          \<and> missing_primitives facts = []
          \<and> (\<exists>p a. proof_id req = Some p \<and> archive = Some a \<and> pa_identity a = p
               \<and> pi_os p = hf_os facts \<and> pi_artifact_digest p = rq_artifact_digest req
               \<and> pi_profile_digest p = rq_profile_digest req
               \<and> hf_policy_generation facts \<le> pa_policy_generation a
               \<and> list_all row_sound (pa_rows a)
               \<and> list_all (probe_passed (pa_rows a)) OS_CONTAINMENT_PROBES)
        else True)"
proof (cases "requested req")
  case Strict
  have checks: "(if pa_policy_generation a < hf_policy_generation facts then Inl e
       else case layer_mismatch os rows of Some err \<Rightarrow> Inl err
         | None \<Rightarrow> (case incomplete_os_rows rows of Some m \<Rightarrow> Inl (f m) | None \<Rightarrow> Inr Strict)) = Inr state
      \<longleftrightarrow> hf_policy_generation facts \<le> pa_policy_generation a \<and> layer_mismatch os rows = None
        \<and> incomplete_os_rows rows = None \<and> state = Strict" for a e os rows f
    by (auto split: option.splits)
  have "admit req facts archive = Inr state \<longleftrightarrow>
      reject_unexpected req facts = Inr () \<and> require_primitives facts = Inr ()
      \<and> (\<exists>p a. proof_id req = Some p \<and> require_nonempty_archive (hf_os facts) archive = Inr a
           \<and> match_identity req facts p a = Inr ()
           \<and> hf_policy_generation facts \<le> pa_policy_generation a
           \<and> layer_mismatch (hf_os facts) (pa_rows a) = None \<and> incomplete_os_rows (pa_rows a) = None)
      \<and> state = Strict"
    by (simp add: admit_def Strict admit_strict_def and_then_eq_Inr checks) auto
  then show ?thesis
    using passed_nonempty
    by (auto simp: Strict reject_unexpected_Inr require_primitives_Inr match_identity_Inr layer_mismatch_None
        incomplete_None require_nonempty_archive_def split: option.splits if_splits)
qed (auto simp: admit_def)

text \<open>
  On a host that observes no containment, which is all the live constructor reports, no
  request and no archive whatsoever is admitted as strict: a strict request is refused with
  GUARD008 or, for an inherited or disabled sandbox, GUARD009.
\<close>

theorem uncontained_never_strict:
  "case admit req (observe_uncontained os) archive of
     Inr state \<Rightarrow> state = requested req \<and> state \<noteq> Strict
   | Inl e \<Rightarrow> requested req = Strict \<and> admission_code e \<in> {''KELD-GUARD008'', ''KELD-GUARD009''}"
proof (cases "requested req")
  case Strict
  have "required_primitives os \<noteq> []" by (cases os) auto
  then show ?thesis
    by (auto simp: admit_def Strict admit_strict_def reject_unexpected_def require_primitives_def
        observe_uncontained_def neq_Nil_conv)
qed (auto simp: admit_def)

end
