(* ===== verification/Virtual_Port.thy ===== *)
theory Virtual_Port
  imports Keld_Prelude
begin

text \<open>
  Host-owned bounded port pairs between role generations
  (\<open>crates/keld-runtime/src/virtual_port.rs\<close>, with the principals of \<open>role.rs\<close>): minting, sending,
  one-shot transfer, closing, receiving, observing a disconnect, and revocation of a generation.
  The hash map of pairs is a finite map; the hash sets of generations are lists without order.
\<close>

section \<open>Data\<close>

datatype RoleOwner = Primary | AppBound

type_synonym RoleGeneration = u64

record RolePrincipal =
  rp_owner :: RoleOwner
  rp_generation :: RoleGeneration

type_synonym VirtualPortGeneration = u64

datatype PortEnd = EndA | EndB

record PortCapability =
  pc_generation :: VirtualPortGeneration
  pc_end :: PortEnd

type_synonym PortMessage = bytes

definition DEFAULT_PORT_QUEUE_CAPACITY :: nat where "DEFAULT_PORT_QUEUE_CAPACITY = 64"
definition MAX_PORT_MESSAGE_LEN :: nat where "MAX_PORT_MESSAGE_LEN = 4096"

datatype PortDisconnectReason = LocalClose | PeerClose | GenerationRevoked

datatype VirtualPortError =
    NotOwner PortCapability RolePrincipal
  | StaleGeneration PortCapability RolePrincipal
  | PortClosed PortCapability
  | SelfTransfer PortCapability RolePrincipal
  | DuplicateTransfer PortCapability
  | SourceTransfer PortCapability RolePrincipal
  | QueueFull PortCapability nat
  | InvalidMessageLen nat nat
  | ForeignDelivery PortCapability RolePrincipal

fun port_error_code :: "VirtualPortError \<Rightarrow> string" where
  "port_error_code (NotOwner _ _) = ''KELD-RUNTIME-004''"
| "port_error_code (StaleGeneration _ _) = ''KELD-RUNTIME-005''"
| "port_error_code (PortClosed _) = ''KELD-RUNTIME-006''"
| "port_error_code (SelfTransfer _ _) = ''KELD-RUNTIME-007''"
| "port_error_code (DuplicateTransfer _) = ''KELD-RUNTIME-008''"
| "port_error_code (SourceTransfer _ _) = ''KELD-RUNTIME-009''"
| "port_error_code (QueueFull _ _) = ''KELD-RUNTIME-010''"
| "port_error_code (InvalidMessageLen _ _) = ''KELD-RUNTIME-011''"
| "port_error_code (ForeignDelivery _ _) = ''KELD-RUNTIME-004''"

record EndState =
  initial_owner :: RolePrincipal
  end_owner :: RolePrincipal
  transferred :: bool
  end_closed :: bool
  disconnect_pending :: bool
  disconnect_observed :: bool
  end_queue :: "PortMessage list"

record PairState =
  end_a :: EndState
  end_b :: EndState
  pair_revoked :: bool

record VirtualPortRegistry =
  next_generation :: u64
  queue_capacity :: nat
  pairs :: "VirtualPortGeneration \<rightharpoonup> PairState"
  live_generations :: "RolePrincipal list"
  revoked_generations :: "RolePrincipal list"

definition end_state_new :: "RolePrincipal \<Rightarrow> EndState" where
  "end_state_new p = \<lparr> initial_owner = p, end_owner = p, transferred = False, end_closed = False,
     disconnect_pending = False, disconnect_observed = False, end_queue = [] \<rparr>"

text \<open>\<open>end_ref\<close>, \<open>ends_ref\<close> and their mutable forms: the end named, and its peer.\<close>

fun opposite :: "PortEnd \<Rightarrow> PortEnd" where
  "opposite EndA = EndB"
| "opposite EndB = EndA"

fun end_ref :: "PairState \<Rightarrow> PortEnd \<Rightarrow> EndState" where
  "end_ref p EndA = end_a p"
| "end_ref p EndB = end_b p"

fun end_mut :: "PortEnd \<Rightarrow> (EndState \<Rightarrow> EndState) \<Rightarrow> PairState \<Rightarrow> PairState" where
  "end_mut EndA f p = p\<lparr> end_a := f (end_a p) \<rparr>"
| "end_mut EndB f p = p\<lparr> end_b := f (end_b p) \<rparr>"

section \<open>Operations\<close>

definition with_queue_capacity :: "nat \<Rightarrow> VirtualPortRegistry" where
  "with_queue_capacity capacity = \<lparr> next_generation = 1, queue_capacity = capacity, pairs = Map.empty,
     live_generations = [], revoked_generations = [] \<rparr>"

definition new_port_registry :: VirtualPortRegistry where
  "new_port_registry = with_queue_capacity DEFAULT_PORT_QUEUE_CAPACITY"

definition is_generation_live :: "VirtualPortRegistry \<Rightarrow> RolePrincipal \<Rightarrow> bool" where
  "is_generation_live r p = (p \<in> set (live_generations r))"

definition is_generation_revoked :: "VirtualPortRegistry \<Rightarrow> RolePrincipal \<Rightarrow> bool" where
  "is_generation_revoked r p = (p \<in> set (revoked_generations r))"

definition register_generation :: "RolePrincipal \<Rightarrow> VirtualPortRegistry \<Rightarrow> VirtualPortRegistry" where
  "register_generation p r =
     (if \<not> is_generation_revoked r p then r\<lparr> live_generations := List.insert p (live_generations r) \<rparr> else r)"

definition live_principals :: "VirtualPortRegistry \<Rightarrow> RolePrincipal list" where
  "live_principals r = live_generations r"

definition stale_principal :: "RolePrincipal \<Rightarrow> RolePrincipal \<Rightarrow> VirtualPortRegistry \<Rightarrow> RolePrincipal option" where
  "stale_principal a b r =
     (if is_generation_revoked r a then Some a else if is_generation_revoked r b then Some b else None)"

definition stale_generation_at_create :: "RolePrincipal \<Rightarrow> VirtualPortError" where
  "stale_generation_at_create presented =
     StaleGeneration \<lparr> pc_generation = 0, pc_end = (if rp_owner presented = AppBound then EndB else EndA) \<rparr> presented"

definition mint_generation :: "VirtualPortRegistry \<Rightarrow> (VirtualPortError + VirtualPortGeneration) \<times> VirtualPortRegistry" where
  "mint_generation r =
     (case checked_add (next_generation r) 1 of
        None \<Rightarrow> (Inl (PortClosed \<lparr> pc_generation = 0, pc_end = EndA \<rparr>), r)
      | Some g \<Rightarrow> (Inr (next_generation r), r\<lparr> next_generation := g \<rparr>))"

definition create_pair ::
  "RolePrincipal \<Rightarrow> RolePrincipal \<Rightarrow> VirtualPortRegistry
    \<Rightarrow> (VirtualPortError + PortCapability \<times> PortCapability) \<times> VirtualPortRegistry" where
  "create_pair a b r =
     (case stale_principal a b r of
        Some presented \<Rightarrow> (Inl (stale_generation_at_create presented), r)
      | None \<Rightarrow>
          if \<not> is_generation_live r a then (Inl (stale_generation_at_create a), r)
          else if \<not> is_generation_live r b then (Inl (stale_generation_at_create b), r)
          else case mint_generation r of
            (Inl e, r1) \<Rightarrow> (Inl e, r1)
          | (Inr g, r1) \<Rightarrow>
              (Inr (\<lparr> pc_generation = g, pc_end = EndA \<rparr>, \<lparr> pc_generation = g, pc_end = EndB \<rparr>),
               r1\<lparr> pairs := (pairs r1)(g \<mapsto>
                 \<lparr> end_a = end_state_new a, end_b = end_state_new b, pair_revoked = False \<rparr>) \<rparr>))"

definition check_end_owner :: "PortCapability \<Rightarrow> RolePrincipal \<Rightarrow> EndState \<Rightarrow> VirtualPortError + unit" where
  "check_end_owner cap presented e =
     (if end_owner e \<noteq> presented then Inl (ForeignDelivery cap presented) else Inr ())"

definition update_pair :: "PortCapability \<Rightarrow> PairState \<Rightarrow> VirtualPortRegistry \<Rightarrow> VirtualPortRegistry" where
  "update_pair cap p r = r\<lparr> pairs := (pairs r)(pc_generation cap \<mapsto> p) \<rparr>"

definition port_send ::
  "PortCapability \<Rightarrow> RolePrincipal \<Rightarrow> bytes \<Rightarrow> VirtualPortRegistry
    \<Rightarrow> (VirtualPortError + unit) \<times> VirtualPortRegistry" where
  "port_send cap sender payload r =
     (if is_generation_revoked r sender then (Inl (StaleGeneration cap sender), r)
      else if length payload > MAX_PORT_MESSAGE_LEN
      then (Inl (InvalidMessageLen (length payload) MAX_PORT_MESSAGE_LEN), r)
      else case pairs r (pc_generation cap) of
        None \<Rightarrow> (Inl (PortClosed cap), r)
      | Some pair \<Rightarrow>
          if pair_revoked pair then (Inl (PortClosed cap), r)
          else let from_end = end_ref pair (pc_end cap); peer_end = end_ref pair (opposite (pc_end cap)) in
            (case check_end_owner cap sender from_end of
               Inl e \<Rightarrow> (Inl e, r)
             | Inr _ \<Rightarrow>
                 if end_closed from_end \<or> end_closed peer_end then (Inl (PortClosed cap), r)
                 else if length (end_queue peer_end) \<ge> queue_capacity r
                 then (Inl (QueueFull cap (queue_capacity r)), r)
                 else (Inr (), update_pair cap
                   (end_mut (opposite (pc_end cap)) (\<lambda>e. e\<lparr> end_queue := end_queue e @ [payload] \<rparr>) pair) r)))"

definition transfer ::
  "PortCapability \<Rightarrow> RolePrincipal \<Rightarrow> RolePrincipal \<Rightarrow> VirtualPortRegistry
    \<Rightarrow> (VirtualPortError + PortCapability) \<times> VirtualPortRegistry" where
  "transfer cap src target r =
     (if is_generation_revoked r src then (Inl (StaleGeneration cap src), r)
      else if is_generation_revoked r target then (Inl (StaleGeneration cap target), r)
      else if \<not> is_generation_live r target then (Inl (StaleGeneration cap target), r)
      else case pairs r (pc_generation cap) of
        None \<Rightarrow> (Inl (PortClosed \<lparr> pc_generation = pc_generation cap, pc_end = EndA \<rparr>), r)
      | Some pair \<Rightarrow>
          if pair_revoked pair then (Inl (PortClosed cap), r)
          else let e = end_ref pair (pc_end cap); peer = end_ref pair (opposite (pc_end cap)) in
            if end_closed e \<or> end_closed peer then (Inl (PortClosed cap), r)
            else if end_owner e \<noteq> src then
              (Inl (if initial_owner e = src then SourceTransfer cap src else NotOwner cap src), r)
            else if target = end_owner e then (Inl (SelfTransfer cap target), r)
            else if transferred e then (Inl (DuplicateTransfer cap), r)
            else (Inr cap, update_pair cap
              (end_mut (pc_end cap) (\<lambda>e. e\<lparr> end_owner := target, transferred := True \<rparr>) pair) r))"

definition port_close ::
  "PortCapability \<Rightarrow> RolePrincipal \<Rightarrow> VirtualPortRegistry \<Rightarrow> (VirtualPortError + unit) \<times> VirtualPortRegistry" where
  "port_close cap who r =
     (case pairs r (pc_generation cap) of
        None \<Rightarrow> (Inl (PortClosed cap), r)
      | Some pair \<Rightarrow>
          if pair_revoked pair then (Inl (PortClosed cap), r)
          else let e = end_ref pair (pc_end cap) in
            (case check_end_owner cap who e of
               Inl err \<Rightarrow> (Inl err, r)
             | Inr _ \<Rightarrow>
                 if end_closed e then (Inl (PortClosed cap), r)
                 else (Inr (), update_pair cap
                   (end_mut (opposite (pc_end cap))
                      (\<lambda>peer. if \<not> end_closed peer \<and> \<not> disconnect_observed peer
                        then peer\<lparr> disconnect_pending := True \<rparr> else peer)
                      (end_mut (pc_end cap) (\<lambda>e. e\<lparr> end_closed := True \<rparr>) pair)) r)))"

definition port_recv ::
  "PortCapability \<Rightarrow> RolePrincipal \<Rightarrow> VirtualPortRegistry
    \<Rightarrow> (VirtualPortError + PortMessage option) \<times> VirtualPortRegistry" where
  "port_recv cap who r =
     (if is_generation_revoked r who then (Inl (StaleGeneration cap who), r)
      else case pairs r (pc_generation cap) of
        None \<Rightarrow> (Inl (PortClosed cap), r)
      | Some pair \<Rightarrow>
          if pair_revoked pair then (Inl (PortClosed cap), r)
          else let e = end_ref pair (pc_end cap) in
            (case check_end_owner cap who e of
               Inl err \<Rightarrow> (Inl err, r)
             | Inr _ \<Rightarrow>
                 (case end_queue e of
                    [] \<Rightarrow> (Inr None, r)
                  | m # ms \<Rightarrow> (Inr (Some m),
                      update_pair cap (end_mut (pc_end cap) (\<lambda>e. e\<lparr> end_queue := ms \<rparr>) pair) r))))"

definition poll_disconnect ::
  "PortCapability \<Rightarrow> RolePrincipal \<Rightarrow> VirtualPortRegistry
    \<Rightarrow> (VirtualPortError + PortDisconnectReason option) \<times> VirtualPortRegistry" where
  "poll_disconnect cap who r =
     (if is_generation_revoked r who then (Inl (StaleGeneration cap who), r)
      else case pairs r (pc_generation cap) of
        None \<Rightarrow> (Inl (PortClosed cap), r)
      | Some pair \<Rightarrow>
          let e = end_ref pair (pc_end cap) in
          (case check_end_owner cap who e of
             Inl err \<Rightarrow> (Inl err, r)
           | Inr _ \<Rightarrow>
               if disconnect_observed e then (Inr None, r)
               else if pair_revoked pair then
                 (Inr (Some GenerationRevoked),
                  update_pair cap (end_mut (pc_end cap) (\<lambda>e. e\<lparr> disconnect_observed := True \<rparr>) pair) r)
               else if disconnect_pending e then
                 (Inr (Some PeerClose), update_pair cap (end_mut (pc_end cap)
                    (\<lambda>e. e\<lparr> disconnect_observed := True, disconnect_pending := False \<rparr>) pair) r)
               else if end_closed e then
                 (Inr (Some LocalClose),
                  update_pair cap (end_mut (pc_end cap) (\<lambda>e. e\<lparr> disconnect_observed := True \<rparr>) pair) r)
               else (Inr None, r)))"

definition revoke_end :: "RolePrincipal \<Rightarrow> EndState \<Rightarrow> EndState" where
  "revoke_end p e =
     (let e1 = (if end_owner e = p then e\<lparr> end_closed := True \<rparr> else e) in
      if (end_owner e1 = p \<or> initial_owner e1 = p) \<and> \<not> disconnect_observed e1
      then e1\<lparr> disconnect_pending := True \<rparr> else e1)"

definition revoke_pair :: "RolePrincipal \<Rightarrow> PairState \<Rightarrow> PairState" where
  "revoke_pair p pair =
     (if pair_revoked pair then pair
      else let a = revoke_end p (end_a pair); b = revoke_end p (end_b pair) in
        if initial_owner a = p \<or> initial_owner b = p \<or> end_owner a = p \<or> end_owner b = p
        then \<lparr> end_a = a\<lparr> end_queue := [] \<rparr>, end_b = b\<lparr> end_queue := [] \<rparr>, pair_revoked = True \<rparr>
        else \<lparr> end_a = a, end_b = b, pair_revoked = False \<rparr>)"

definition revoke_generation :: "RolePrincipal \<Rightarrow> VirtualPortRegistry \<Rightarrow> VirtualPortRegistry" where
  "revoke_generation p r =
     r\<lparr> revoked_generations := List.insert p (revoked_generations r),
        live_generations := removeAll p (live_generations r),
        pairs := (\<lambda>g. map_option (revoke_pair p) (pairs r g)) \<rparr>"

section \<open>The registry as a machine\<close>

datatype PortOp =
    RegisterOp RolePrincipal
  | CreateOp RolePrincipal RolePrincipal
  | SendOp PortCapability RolePrincipal bytes
  | TransferOp PortCapability RolePrincipal RolePrincipal
  | CloseOp PortCapability RolePrincipal
  | RecvOp PortCapability RolePrincipal
  | PollOp PortCapability RolePrincipal
  | RevokeOp RolePrincipal

fun port_step :: "PortOp \<Rightarrow> VirtualPortRegistry \<Rightarrow> VirtualPortRegistry" where
  "port_step (RegisterOp p) r = register_generation p r"
| "port_step (CreateOp a b) r = snd (create_pair a b r)"
| "port_step (SendOp cap p m) r = snd (port_send cap p m r)"
| "port_step (TransferOp cap p q) r = snd (transfer cap p q r)"
| "port_step (CloseOp cap p) r = snd (port_close cap p r)"
| "port_step (RecvOp cap p) r = snd (port_recv cap p r)"
| "port_step (PollOp cap p) r = snd (poll_disconnect cap p r)"
| "port_step (RevokeOp p) r = revoke_generation p r"

definition end_inv :: "nat \<Rightarrow> RolePrincipal set \<Rightarrow> bool \<Rightarrow> EndState \<Rightarrow> bool" where
  "end_inv capacity revoked dead e =
     (length (end_queue e) \<le> capacity
      \<and> list_all (\<lambda>m. length m \<le> MAX_PORT_MESSAGE_LEN) (end_queue e)
      \<and> (if dead then end_queue e = [] else initial_owner e \<notin> revoked \<and> end_owner e \<notin> revoked)
      \<and> (transferred e \<or> end_owner e = initial_owner e))"

definition pair_inv :: "nat \<Rightarrow> RolePrincipal set \<Rightarrow> PairState \<Rightarrow> bool" where
  "pair_inv capacity revoked p =
     (end_inv capacity revoked (pair_revoked p) (end_a p) \<and> end_inv capacity revoked (pair_revoked p) (end_b p)
      \<and> (pair_revoked p \<or> (if disconnect_pending (end_a p) then end_closed (end_b p) else True)
            \<and> (if disconnect_pending (end_b p) then end_closed (end_a p) else True)))"

definition port_inv :: "VirtualPortRegistry \<Rightarrow> bool" where
  "port_inv r =
     (set (live_generations r) \<inter> set (revoked_generations r) = {} \<and> 0 < unat (next_generation r)
      \<and> (\<forall>g p. pairs r g = Some p \<longrightarrow>
           0 < unat g \<and> unat g < unat (next_generation r) \<and> pair_inv (queue_capacity r) (set (revoked_generations r)) p))"

lemma end_ref_inv: "pair_inv c R p \<Longrightarrow> end_inv c R (pair_revoked p) (end_ref p e)"
  by (cases e) (auto simp: pair_inv_def)

lemma pending_peer_closed:
  "pair_inv c R p \<Longrightarrow> \<not> pair_revoked p \<Longrightarrow> disconnect_pending (end_ref p e) \<Longrightarrow> end_closed (end_ref p (opposite e))"
  by (cases e) (auto simp: pair_inv_def)

lemma end_mut_inv:
  assumes "pair_inv c R p" "end_inv c R (pair_revoked p) (f (end_ref p e))"
    and "end_closed (end_ref p e) \<Longrightarrow> end_closed (f (end_ref p e))"
    and "disconnect_pending (f (end_ref p e)) \<Longrightarrow>
      disconnect_pending (end_ref p e) \<or> end_closed (end_ref p (opposite e))"
  shows "pair_inv c R (end_mut e f p)"
  using assms by (cases e) (auto simp: pair_inv_def)

lemma end_mut_simps [simp]:
  "pair_revoked (end_mut e f p) = pair_revoked p"
  "end_ref (end_mut e f p) e = f (end_ref p e)"
  "end_ref (end_mut (opposite e) f p) e = end_ref p e"
  "end_ref (end_mut e f p) (opposite e) = end_ref p (opposite e)"
  "opposite (opposite e) = e"
  by (cases e; simp)+

lemma update_pair_simps [simp]:
  "pairs (update_pair cap p r) = (pairs r)(pc_generation cap \<mapsto> p)"
  "next_generation (update_pair cap p r) = next_generation r"
  "queue_capacity (update_pair cap p r) = queue_capacity r"
  "live_generations (update_pair cap p r) = live_generations r"
  "revoked_generations (update_pair cap p r) = revoked_generations r"
  by (simp_all add: update_pair_def)

lemma update_pair_inv:
  "port_inv r \<Longrightarrow> pairs r (pc_generation cap) = Some p \<Longrightarrow>
   pair_inv (queue_capacity r) (set (revoked_generations r)) p' \<Longrightarrow> port_inv (update_pair cap p' r)"
  by (auto simp: port_inv_def)

text \<open>
  What an operation on a capability does to the pair it names: nothing, or one change of the end
  or of its peer. The guard of each change is what the operation has checked.
\<close>

inductive end_change :: "VirtualPortRegistry \<Rightarrow> PortEnd \<Rightarrow> PairState \<Rightarrow> PairState \<Rightarrow> bool" for r where
  sends: "\<lbrakk> \<not> pair_revoked p; length m \<le> MAX_PORT_MESSAGE_LEN;
      length (end_queue (end_ref p (opposite e))) < queue_capacity r \<rbrakk> \<Longrightarrow>
    end_change r e p (end_mut (opposite e) (\<lambda>x. x\<lparr> end_queue := end_queue x @ [m] \<rparr>) p)"
| transfers: "\<lbrakk> \<not> pair_revoked p; is_generation_live r t; \<not> is_generation_revoked r t; \<not> transferred (end_ref p e) \<rbrakk> \<Longrightarrow>
    end_change r e p (end_mut e (\<lambda>x. x\<lparr> end_owner := t, transferred := True \<rparr>) p)"
| closes: "\<lbrakk> \<not> pair_revoked p; \<not> end_closed (end_ref p e) \<rbrakk> \<Longrightarrow>
    end_change r e p (end_mut (opposite e)
      (\<lambda>x. if \<not> end_closed x \<and> \<not> disconnect_observed x then x\<lparr> disconnect_pending := True \<rparr> else x)
      (end_mut e (\<lambda>x. x\<lparr> end_closed := True \<rparr>) p))"
| receives: "\<lbrakk> \<not> pair_revoked p; end_queue (end_ref p e) = m # ms \<rbrakk> \<Longrightarrow>
    end_change r e p (end_mut e (\<lambda>x. x\<lparr> end_queue := ms \<rparr>) p)"
| observes: "\<not> disconnect_observed (end_ref p e) \<Longrightarrow>
    end_change r e p (end_mut e (\<lambda>x. x\<lparr> disconnect_observed := True \<rparr>) p)"
| observes_close: "\<lbrakk> \<not> pair_revoked p; \<not> disconnect_observed (end_ref p e) \<rbrakk> \<Longrightarrow>
    end_change r e p (end_mut e (\<lambda>x. x\<lparr> disconnect_observed := True, disconnect_pending := False \<rparr>) p)"

lemma end_change_inv:
  assumes "end_change r e p p'" "pair_inv (queue_capacity r) (set (revoked_generations r)) p"
  shows "pair_inv (queue_capacity r) (set (revoked_generations r)) p'"
  using assms
proof (induction rule: end_change.induct)
  case (closes p e)
  from end_ref_inv [OF closes.prems, of e] end_ref_inv [OF closes.prems, of "opposite e"]
  show ?case by (intro end_mut_inv closes.prems) (auto simp: end_inv_def)
next
  case (sends p m e)
  from end_ref_inv [OF sends.prems, of "opposite e"] sends.hyps
  show ?case by (intro end_mut_inv sends.prems) (auto simp: end_inv_def)
next
  case (transfers p t e)
  from end_ref_inv [OF transfers.prems, of e] transfers.hyps
  show ?case by (intro end_mut_inv transfers.prems) (auto simp: end_inv_def is_generation_revoked_def)
next
  case (receives p e m ms)
  from end_ref_inv [OF receives.prems, of e] receives.hyps
  show ?case by (intro end_mut_inv receives.prems) (auto simp: end_inv_def)
next
  case (observes p e)
  from end_ref_inv [OF observes.prems, of e]
  show ?case by (intro end_mut_inv observes.prems) (auto simp: end_inv_def)
next
  case (observes_close p e)
  from end_ref_inv [OF observes_close.prems, of e]
  show ?case by (intro end_mut_inv observes_close.prems) (auto simp: end_inv_def)
qed

text \<open>The capability an operation is about, if it is about one.\<close>

fun op_cap :: "PortOp \<Rightarrow> PortCapability option" where
  "op_cap (SendOp cap _ _) = Some cap"
| "op_cap (TransferOp cap _ _) = Some cap"
| "op_cap (CloseOp cap _) = Some cap"
| "op_cap (RecvOp cap _) = Some cap"
| "op_cap (PollOp cap _) = Some cap"
| "op_cap _ = None"

inductive cap_step :: "PortCapability \<Rightarrow> VirtualPortRegistry \<Rightarrow> VirtualPortRegistry \<Rightarrow> bool" for cap r where
  refused: "cap_step cap r r"
| changed: "\<lbrakk> pairs r (pc_generation cap) = Some p; end_change r (pc_end cap) p p' \<rbrakk>
    \<Longrightarrow> cap_step cap r (update_pair cap p' r)"

lemmas cap_op_defs = port_send_def transfer_def port_close_def port_recv_def poll_disconnect_def
  Let_def check_end_owner_def

lemma port_step_cap:
  assumes "op_cap op = Some cap"
  shows "cap_step cap r (port_step op r)"
proof (cases op)
  case (SendOp c who m)
  with assms show ?thesis
    by (auto simp: cap_op_defs split: option.splits intro!: cap_step.intros sends)
next
  case (TransferOp c a b)
  with assms show ?thesis
    by (auto simp: cap_op_defs split: option.splits intro!: cap_step.intros transfers)
next
  case (CloseOp c who)
  with assms show ?thesis
    by (auto simp: cap_op_defs split: option.splits intro!: cap_step.intros closes)
next
  case (RecvOp c who)
  with assms show ?thesis
    by (auto simp: cap_op_defs split: option.splits list.splits intro!: cap_step.intros receives)
next
  case (PollOp c who)
  with assms show ?thesis
    by (auto simp: cap_op_defs split: option.splits intro!: cap_step.intros observes observes_close)
qed (use assms in auto)

lemma cap_step_inv: "cap_step cap r r' \<Longrightarrow> port_inv r \<Longrightarrow> port_inv r'"
proof (induction rule: cap_step.induct)
  case (changed p p')
  then have "pair_inv (queue_capacity r) (set (revoked_generations r)) p" by (auto simp: port_inv_def)
  with changed show ?case by (auto intro: update_pair_inv end_change_inv)
qed

lemma create_pair_cases:
  obtains (refuse) e where "create_pair a b r = (Inl e, r)"
  | (mint) "create_pair a b r = (Inr (\<lparr> pc_generation = next_generation r, pc_end = EndA \<rparr>,
        \<lparr> pc_generation = next_generation r, pc_end = EndB \<rparr>),
      r\<lparr> next_generation := next_generation r + 1, pairs := (pairs r)(next_generation r \<mapsto>
        \<lparr> end_a = end_state_new a, end_b = end_state_new b, pair_revoked = False \<rparr>) \<rparr>)"
    "unat (next_generation r + 1) = unat (next_generation r) + 1"
    "is_generation_live r a" "is_generation_live r b"
    "\<not> is_generation_revoked r a" "\<not> is_generation_revoked r b"
proof (cases "is_generation_revoked r a \<or> is_generation_revoked r b \<or> \<not> is_generation_live r a
    \<or> \<not> is_generation_live r b \<or> checked_add (next_generation r) 1 = None")
  case True
  then have "\<exists>e. create_pair a b r = (Inl e, r)"
    by (auto simp: create_pair_def mint_generation_def stale_principal_def split: if_splits option.splits)
  with refuse show ?thesis by blast
next
  case False
  then obtain g where "checked_add (next_generation r) 1 = Some g" by auto
  moreover from this have "g = next_generation r + 1"
    "unat (next_generation r + 1) = unat (next_generation r) + 1"
    by (auto simp: checked_add_def unat_word_ariths split: if_splits)
  ultimately show ?thesis using False mint
    by (simp add: create_pair_def mint_generation_def stale_principal_def)
qed

lemma end_state_new_inv: "p \<notin> R \<Longrightarrow> end_inv c R False (end_state_new p)"
  by (simp add: end_inv_def end_state_new_def)

lemma fresh_pair_inv:
  "a \<notin> R \<Longrightarrow> b \<notin> R \<Longrightarrow>
   pair_inv c R \<lparr> end_a = end_state_new a, end_b = end_state_new b, pair_revoked = False \<rparr>"
  by (simp add: pair_inv_def end_state_new_inv) (simp add: end_state_new_def)

lemma create_pair_inv: "port_inv r \<Longrightarrow> port_inv (snd (create_pair a b r))"
proof (cases rule: create_pair_cases [of a b r])
  case mint
  moreover assume "port_inv r"
  ultimately show ?thesis
    by (auto simp: port_inv_def is_generation_revoked_def intro!: fresh_pair_inv dest: less_SucI)
qed simp

lemma revoke_end_simps [simp]:
  "end_queue (revoke_end x e) = end_queue e" "initial_owner (revoke_end x e) = initial_owner e"
  "end_owner (revoke_end x e) = end_owner e" "transferred (revoke_end x e) = transferred e"
  "disconnect_observed (revoke_end x e) = disconnect_observed e"
  by (simp_all add: revoke_end_def Let_def)

lemma revoke_end_other: "initial_owner e \<noteq> x \<Longrightarrow> end_owner e \<noteq> x \<Longrightarrow> revoke_end x e = e"
  by (simp add: revoke_end_def)

lemma revoke_pair_inv: "pair_inv c R p \<Longrightarrow> pair_inv c (insert x R) (revoke_pair x p)"
  by (cases "pair_revoked p") (simp_all add: pair_inv_def end_inv_def revoke_pair_def Let_def revoke_end_other)

lemma revoke_generation_inv: "port_inv r \<Longrightarrow> port_inv (revoke_generation p r)"
  by (auto simp: port_inv_def revoke_generation_def intro: revoke_pair_inv)

lemma register_generation_inv: "port_inv r \<Longrightarrow> port_inv (register_generation p r)"
  by (auto simp: port_inv_def register_generation_def is_generation_revoked_def)

lemma port_step_inv: "port_inv r \<Longrightarrow> port_inv (port_step op r)"
  using cap_step_inv [OF port_step_cap]
  by (cases op) (auto simp: create_pair_inv revoke_generation_inv register_generation_inv simp del: port_step.simps(3-7))

interpretation ports: state_machine port_step port_inv
  by unfold_locales (rule port_step_inv)

lemma new_registry_inv: "port_inv (with_queue_capacity c)"
  by (simp add: port_inv_def with_queue_capacity_def)

section \<open>What the history keeps\<close>

definition end_le :: "EndState \<Rightarrow> EndState \<Rightarrow> bool" where
  "end_le x y =
     (initial_owner y = initial_owner x \<and> (end_closed x \<longrightarrow> end_closed y)
      \<and> (disconnect_observed x \<longrightarrow> disconnect_observed y)
      \<and> (if transferred x then transferred y \<and> end_owner y = end_owner x
         else transferred y \<or> end_owner y = end_owner x))"

definition pair_le :: "PairState \<Rightarrow> PairState \<Rightarrow> bool" where
  "pair_le p q = ((pair_revoked p \<longrightarrow> pair_revoked q) \<and> (\<forall>e. end_le (end_ref p e) (end_ref q e)))"

definition port_le :: "VirtualPortRegistry \<Rightarrow> VirtualPortRegistry \<Rightarrow> bool" where
  "port_le r s =
     (queue_capacity s = queue_capacity r \<and> unat (next_generation r) \<le> unat (next_generation s)
      \<and> set (revoked_generations r) \<subseteq> set (revoked_generations s)
      \<and> (\<forall>g p. pairs r g = Some p \<longrightarrow> (\<exists>q. pairs s g = Some q \<and> pair_le p q)))"

lemma end_le_refl [simp]: "end_le x x"
  by (simp add: end_le_def)

lemma end_le_trans: "end_le x y \<Longrightarrow> end_le y z \<Longrightarrow> end_le x z"
  by (auto simp: end_le_def split: if_splits)

lemma pair_le_refl [simp]: "pair_le p p"
  by (simp add: pair_le_def)

lemma pair_le_trans: "pair_le p q \<Longrightarrow> pair_le q s \<Longrightarrow> pair_le p s"
  by (auto simp: pair_le_def intro: end_le_trans)

lemma port_le_refl: "port_le r r"
  by (simp add: port_le_def)

lemma port_le_trans: "port_le r s \<Longrightarrow> port_le s t \<Longrightarrow> port_le r t"
  unfolding port_le_def by (auto intro: pair_le_trans le_trans) (metis pair_le_trans)

lemma pair_le_mut: "end_le (end_ref p e) (f (end_ref p e)) \<Longrightarrow> pair_le p (end_mut e f p)"
proof -
  assume le: "end_le (end_ref p e) (f (end_ref p e))"
  have "end_le (end_ref p e') (end_ref (end_mut e f p) e')" for e'
    using le by (cases e; cases e') auto
  then show ?thesis by (simp add: pair_le_def)
qed

lemma end_change_le: "end_change r e p p' \<Longrightarrow> pair_le p p'"
proof (induction rule: end_change.induct)
  case (closes p e)
  show ?case
    by (rule pair_le_trans [of _ "end_mut e (\<lambda>x. x\<lparr> end_closed := True \<rparr>) p"])
      (rule pair_le_mut; simp add: end_le_def)+
qed (rule pair_le_mut; auto simp: end_le_def)+

lemma cap_step_le: "cap_step cap r s \<Longrightarrow> port_le r s"
  by (induction rule: cap_step.induct) (auto simp: port_le_def end_change_le)

lemma revoke_pair_le: "pair_le p (revoke_pair x p)"
proof -
  have end_le: "end_le e (revoke_end x e)" "end_le e (revoke_end x e\<lparr> end_queue := [] \<rparr>)" for e
    by (auto simp: end_le_def revoke_end_def Let_def)
  have "end_le (end_ref p e) (end_ref (revoke_pair x p) e)" for e
    by (cases e) (simp_all add: revoke_pair_def Let_def end_le)
  then show ?thesis by (simp add: pair_le_def revoke_pair_def Let_def)
qed

lemma port_step_le: "port_inv r \<Longrightarrow> port_le r (port_step op r)"
proof (cases op)
  case (CreateOp a b)
  moreover assume "port_inv r"
  ultimately show ?thesis
    by (cases rule: create_pair_cases [of a b r])
      (auto simp: port_le_def port_inv_def)
next
  case (RevokeOp p)
  then show ?thesis by (auto simp: port_le_def revoke_generation_def revoke_pair_le)
next
  case (RegisterOp p)
  then show ?thesis by (auto simp: port_le_def register_generation_def)
qed (use cap_step_le [OF port_step_cap] in \<open>auto simp del: port_step.simps\<close>)

interpretation port_history: evolving_machine port_step port_inv port_le
  by unfold_locales (auto intro: port_step_le port_le_refl port_le_trans)

section \<open>What a run sends, delivers and reports\<close>

text \<open>
  The messages a run enqueues for the end a capability names, those it hands to that end's owner,
  and the disconnects it reports there, read off the results of the operations in order.
\<close>

fun sent_to :: "PortCapability \<Rightarrow> PortOp \<Rightarrow> VirtualPortRegistry \<Rightarrow> PortMessage list" where
  "sent_to cap (SendOp c who m) r =
     (if pc_generation c = pc_generation cap \<and> opposite (pc_end c) = pc_end cap
         \<and> fst (port_send c who m r) = Inr () then [m] else [])"
| "sent_to cap _ r = []"

fun received_at :: "PortCapability \<Rightarrow> PortOp \<Rightarrow> VirtualPortRegistry \<Rightarrow> PortMessage list" where
  "received_at cap (RecvOp c who) r =
     (case fst (port_recv c who r) of Inr (Some m) \<Rightarrow> if c = cap then [m] else [] | _ \<Rightarrow> [])"
| "received_at cap _ r = []"

fun reported_at :: "PortCapability \<Rightarrow> PortOp \<Rightarrow> VirtualPortRegistry \<Rightarrow> PortDisconnectReason list" where
  "reported_at cap (PollOp c who) r =
     (case fst (poll_disconnect c who r) of Inr (Some reason) \<Rightarrow> if c = cap then [reason] else [] | _ \<Rightarrow> [])"
| "reported_at cap _ r = []"

fun port_log :: "(PortOp \<Rightarrow> VirtualPortRegistry \<Rightarrow> 'b list) \<Rightarrow> PortOp list \<Rightarrow> VirtualPortRegistry \<Rightarrow> 'b list" where
  "port_log f [] r = []"
| "port_log f (op # ops) r = f op r @ port_log f ops (port_step op r)"

text \<open>The abstract channel into an end: the messages waiting there, or nothing once it is revoked.\<close>

definition inbox :: "PortCapability \<Rightarrow> VirtualPortRegistry \<Rightarrow> PortMessage list option" where
  "inbox cap r =
     (case pairs r (pc_generation cap) of
        None \<Rightarrow> Some []
      | Some p \<Rightarrow> if pair_revoked p then None else Some (end_queue (end_ref p (pc_end cap))))"

inductive channel_step ::
  "PortMessage list option \<Rightarrow> PortMessage list \<Rightarrow> PortMessage list \<Rightarrow> PortMessage list option \<Rightarrow> bool" where
  idle: "channel_step q [] [] q"
| enqueue: "channel_step (Some q) [m] [] (Some (q @ [m]))"
| dequeue: "channel_step (Some (m # q)) [] [m] (Some q)"
| revoke: "channel_step (Some q) [] [] None"

lemma end_ref_mut: "end_ref (end_mut e f p) e' = (if e = e' then f (end_ref p e') else end_ref p e')"
  by (cases e; cases e') simp_all

lemma opposite_neq [simp]: "opposite e \<noteq> e" "e \<noteq> opposite e"
  by (cases e; simp)+

lemma opposite_eq_iff: "opposite e = e' \<longleftrightarrow> e \<noteq> e'"
  by (cases e; cases e') simp_all

lemma inbox_update:
  "inbox cap (update_pair c p r) =
     (if pc_generation c = pc_generation cap
      then if pair_revoked p then None else Some (end_queue (end_ref p (pc_end cap))) else inbox cap r)"
  by (simp add: inbox_def)

lemma inbox_create: "port_inv r \<Longrightarrow> inbox cap (snd (create_pair a b r)) = inbox cap r"
  by (cases rule: create_pair_cases [of a b r])
    (cases "pc_end cap"; auto simp: inbox_def port_inv_def end_state_new_def split: option.splits)+

lemma inbox_revoke:
  "inbox cap (revoke_generation p r) = inbox cap r \<or> (\<exists>q. inbox cap r = Some q) \<and> inbox cap (revoke_generation p r) = None"
  by (cases "pc_end cap")
    (auto simp: inbox_def revoke_generation_def revoke_pair_def Let_def split: option.splits if_splits)

lemma PortCapability_eq_iff: "c = cap \<longleftrightarrow> pc_generation c = pc_generation cap \<and> pc_end c = pc_end (cap::PortCapability)"
  by auto

lemma port_step_channel:
  assumes "port_inv r"
  shows "channel_step (inbox cap r) (sent_to cap op r) (received_at cap op r) (inbox cap (port_step op r))"
proof (cases op)
  case (SendOp c who m)
  then show ?thesis
    by (auto simp: cap_op_defs inbox_update end_ref_mut opposite_eq_iff split: option.splits intro: channel_step.intros)
      (auto simp: inbox_def intro: channel_step.intros)
next
  case (RecvOp c who)
  then show ?thesis
    by (auto simp: cap_op_defs inbox_update end_ref_mut PortCapability_eq_iff split: option.splits list.splits
        intro: channel_step.intros)
      (auto simp: inbox_def intro: channel_step.intros)
next
  case (RevokeOp p)
  then show ?thesis using inbox_revoke [of cap p r] by (auto intro: channel_step.intros)
next
  case (CreateOp a b)
  with assms show ?thesis by (simp add: inbox_create idle)
next
  case (RegisterOp p)
  then show ?thesis by (simp add: register_generation_def inbox_def idle)
next
  case (TransferOp c a b)
  then show ?thesis
    by (auto simp: cap_op_defs inbox_update end_ref_mut split: option.splits intro: channel_step.intros)
      (auto simp: inbox_def intro: channel_step.intros)
next
  case (CloseOp c who)
  then show ?thesis
    by (auto simp: cap_op_defs inbox_update end_ref_mut split: option.splits intro: channel_step.intros)
      (auto simp: inbox_def intro: channel_step.intros)
next
  case (PollOp c who)
  then show ?thesis
    by (auto simp: cap_op_defs inbox_update end_ref_mut split: option.splits intro: channel_step.intros)
      (auto simp: inbox_def intro: channel_step.intros)
qed

lemma channel_log:
  assumes "port_inv r"
  shows "case inbox cap r of
      None \<Rightarrow> port_log (sent_to cap) ops r = [] \<and> port_log (received_at cap) ops r = []
        \<and> inbox cap (fold port_step ops r) = None
    | Some q \<Rightarrow> (case inbox cap (fold port_step ops r) of
        None \<Rightarrow> prefix (port_log (received_at cap) ops r) (q @ port_log (sent_to cap) ops r)
      | Some q' \<Rightarrow> q @ port_log (sent_to cap) ops r = port_log (received_at cap) ops r @ q')"
  using assms
proof (induction ops arbitrary: r)
  case Nil
  then show ?case by (simp split: option.split)
next
  case (Cons op ops)
  note IH = Cons.IH [OF port_step_inv [OF Cons.prems], of op]
  from port_step_channel [OF Cons.prems, of cap op] show ?case
    by cases (use IH in \<open>simp_all split: option.splits\<close>)
qed

lemma unminted_silent:
  "pairs (fold port_step ops r) (pc_generation cap) = None \<Longrightarrow> port_inv r \<Longrightarrow>
   port_log (received_at cap) ops r = []"
proof (induction ops arbitrary: r)
  case (Cons op ops)
  have "port_le r (fold port_step (op # ops) r)" by (rule port_history.run_le [OF Cons.prems(2)])
  with Cons.prems(1) have "pairs r (pc_generation cap) = None"
    by (cases "pairs r (pc_generation cap)") (force simp: port_le_def)+
  then have "received_at cap op r = []" by (cases op) (auto simp: port_recv_def split: sum.split option.split)
  with Cons show ?case by (simp add: port_step_inv)
qed simp

lemma with_queue_capacity_empty [simp]: "pairs (with_queue_capacity c) = Map.empty"
  by (simp add: with_queue_capacity_def)

lemma run_capacity: "queue_capacity (fold port_step ops (with_queue_capacity c)) = c"
  using port_history.run_le [OF new_registry_inv, of c ops] by (simp add: port_le_def with_queue_capacity_def)

lemma run_port_inv: "port_inv (fold port_step ops (with_queue_capacity c))"
  by (rule ports.run_inv [OF new_registry_inv])

text \<open>
  C20. Each direction of a port pair is a first-in first-out channel with one consumer: after any
  sequence of operations on a fresh registry, the messages accepted for an end are those already
  received there followed by those still queued, in order; nothing is lost, repeated or reordered
  while the pair lives, and once it is revoked what was received is a prefix of what was sent.
\<close>

theorem port_pair_fifo:
  "let r0 = with_queue_capacity c; sent = port_log (sent_to cap) ops r0; received = port_log (received_at cap) ops r0 in
   case pairs (fold port_step ops r0) (pc_generation cap) of
     None \<Rightarrow> sent = [] \<and> received = []
   | Some p \<Rightarrow> if pair_revoked p then prefix received sent
       else sent = received @ end_queue (end_ref p (pc_end cap))"
proof -
  have "inbox cap (with_queue_capacity c) = Some []" by (simp add: inbox_def)
  with channel_log [OF new_registry_inv [of c], of cap ops] unminted_silent [OF _ new_registry_inv] show ?thesis
    by (auto simp: inbox_def Let_def split: option.splits if_splits)
qed

text \<open>
  Every registry reached from a fresh one keeps its bounds: no queue is longer than the
  capacity the registry was built with, no queued message is longer than 4096 bytes, a revoked pair
  holds no messages, no end of a live pair belongs to (or was minted for) a revoked generation, an
  end that was not transferred still has its first owner, and no generation is both live and revoked.
\<close>

theorem port_registry_bounds:
  "let r = fold port_step ops (with_queue_capacity c) in
   set (live_generations r) \<inter> set (revoked_generations r) = {}
   \<and> (case pairs r g of
        None \<Rightarrow> True
      | Some p \<Rightarrow> 0 < unat g \<and> unat g < unat (next_generation r)
          \<and> length (end_queue (end_ref p e)) \<le> c
          \<and> list_all (\<lambda>m. length m \<le> 4096) (end_queue (end_ref p e))
          \<and> (if pair_revoked p then end_queue (end_ref p e) = []
             else \<not> is_generation_revoked r (end_owner (end_ref p e))
               \<and> \<not> is_generation_revoked r (initial_owner (end_ref p e)))
          \<and> (if transferred (end_ref p e) then True
             else end_owner (end_ref p e) = initial_owner (end_ref p e)))"
  using run_port_inv [of ops c] end_ref_inv [of c "set (revoked_generations (fold port_step ops (with_queue_capacity c)))" _ e]
  by (auto simp: Let_def port_inv_def end_inv_def run_capacity is_generation_revoked_def MAX_PORT_MESSAGE_LEN_def
      split: option.split)

text \<open>
  The disconnect history of an end: nothing reported and nothing marked, or exactly one report,
  whose reason the state still justifies.
\<close>

definition report_ok :: "PortCapability \<Rightarrow> VirtualPortRegistry \<Rightarrow> PortDisconnectReason list \<Rightarrow> bool" where
  "report_ok cap r reports =
     (case pairs r (pc_generation cap) of
        None \<Rightarrow> reports = []
      | Some p \<Rightarrow>
          if disconnect_observed (end_ref p (pc_end cap))
          then reports \<in> {[reason] | reason. case reason of
                 GenerationRevoked \<Rightarrow> pair_revoked p
               | PeerClose \<Rightarrow> end_closed (end_ref p (opposite (pc_end cap)))
               | LocalClose \<Rightarrow> end_closed (end_ref p (pc_end cap))}
          else reports = [])"

lemma pair_le_closed:
  "pair_le p q \<Longrightarrow> end_closed (end_ref p e) \<Longrightarrow> end_closed (end_ref q e)"
  "pair_le p q \<Longrightarrow> pair_revoked p \<Longrightarrow> pair_revoked q"
  by (auto simp: pair_le_def end_le_def)

lemma report_ok_mono:
  assumes "report_ok cap r reports" "port_le r s"
    and "\<And>p q. pairs r (pc_generation cap) = Some p \<Longrightarrow> pairs s (pc_generation cap) = Some q \<Longrightarrow>
      disconnect_observed (end_ref q (pc_end cap)) = disconnect_observed (end_ref p (pc_end cap))"
    and "\<And>q. pairs r (pc_generation cap) = None \<Longrightarrow> pairs s (pc_generation cap) = Some q \<Longrightarrow>
      \<not> disconnect_observed (end_ref q (pc_end cap))"
  shows "report_ok cap s reports"
proof (cases "pairs r (pc_generation cap)")
  case None
  with assms show ?thesis by (auto simp: report_ok_def split: option.split)
next
  case (Some p)
  with assms(2) obtain q where q: "pairs s (pc_generation cap) = Some q" "pair_le p q"
    unfolding port_le_def by blast
  show ?thesis
  proof (cases "disconnect_observed (end_ref p (pc_end cap))")
    case True
    then obtain reason where "reports = [reason]" "case reason of GenerationRevoked \<Rightarrow> pair_revoked p
        | PeerClose \<Rightarrow> end_closed (end_ref p (opposite (pc_end cap)))
        | LocalClose \<Rightarrow> end_closed (end_ref p (pc_end cap))"
      using assms(1) Some by (auto simp: report_ok_def)
    with True q Some assms(3) [OF Some q(1)] pair_le_closed [OF q(2)] show ?thesis
      by (auto simp: report_ok_def split: PortDisconnectReason.splits)
  next
    case False
    with q Some assms(1) assms(3) [OF Some q(1)] show ?thesis by (auto simp: report_ok_def)
  qed
qed

lemma revoke_pair_observed [simp]:
  "disconnect_observed (end_ref (revoke_pair x p) e) = disconnect_observed (end_ref p e)"
  by (cases e) (simp_all add: revoke_pair_def Let_def)

lemma port_step_observed:
  assumes "port_inv r" "\<And>c who. op \<noteq> PollOp c who"
  shows "pairs (port_step op r) g = Some q \<Longrightarrow>
    disconnect_observed (end_ref q e) = (case pairs r g of None \<Rightarrow> False | Some p \<Rightarrow> disconnect_observed (end_ref p e))"
proof (cases op)
  case (CreateOp a b)
  moreover assume "pairs (port_step op r) g = Some q"
  ultimately show ?thesis using assms(1)
    by (cases rule: create_pair_cases [of a b r]; cases e)
      (auto simp: port_inv_def end_state_new_def split: option.splits if_splits)
qed (use assms(2) in \<open>auto simp: cap_op_defs end_ref_mut register_generation_def revoke_generation_def
    split: option.splits list.splits if_splits\<close>)

lemma poll_cases:
  assumes "port_inv r"
  obtains (silent) "snd (poll_disconnect c who r) = r" "\<And>cap. reported_at cap (PollOp c who) r = []"
  | (reports) p f reason where "pairs r (pc_generation c) = Some p"
      "\<not> disconnect_observed (end_ref p (pc_end c))" "fst (poll_disconnect c who r) = Inr (Some reason)"
      "snd (poll_disconnect c who r) = update_pair c (end_mut (pc_end c) f p) r"
      "\<And>e. end_closed (f e) = end_closed e" "\<And>e. disconnect_observed (f e)"
      "case reason of GenerationRevoked \<Rightarrow> pair_revoked p
        | PeerClose \<Rightarrow> end_closed (end_ref p (opposite (pc_end c)))
        | LocalClose \<Rightarrow> end_closed (end_ref p (pc_end c))"
proof (cases "pairs r (pc_generation c)")
  case None
  then show ?thesis by (intro silent) (simp_all add: poll_disconnect_def)
next
  case (Some p)
  with assms have "pair_inv (queue_capacity r) (set (revoked_generations r)) p" by (auto simp: port_inv_def)
  note peer = pending_peer_closed [OF this, of "pc_end c"]
  let ?e = "end_ref p (pc_end c)"
  let ?refused = "is_generation_revoked r who \<or> end_owner ?e \<noteq> who \<or> disconnect_observed ?e"
  note defs = poll_disconnect_def check_end_owner_def Let_def
  consider (no) "?refused \<or> \<not> pair_revoked p \<and> \<not> disconnect_pending ?e \<and> \<not> end_closed ?e"
    | (dead) "\<not> ?refused" "pair_revoked p"
    | (pending) "\<not> ?refused" "\<not> pair_revoked p" "disconnect_pending ?e"
    | (own) "\<not> ?refused" "\<not> pair_revoked p" "\<not> disconnect_pending ?e" "end_closed ?e" by blast
  then show ?thesis
  proof cases
    case no
    with Some show ?thesis by (intro silent) (auto simp: defs)
  next
    case dead
    with Some show ?thesis
      by (intro reports [of p GenerationRevoked "\<lambda>e. e\<lparr> disconnect_observed := True \<rparr>"]) (simp_all add: defs)
  next
    case pending
    with Some peer show ?thesis
      by (intro reports [of p PeerClose "\<lambda>e. e\<lparr> disconnect_observed := True, disconnect_pending := False \<rparr>"])
        (simp_all add: defs)
  next
    case own
    with Some show ?thesis
      by (intro reports [of p LocalClose "\<lambda>e. e\<lparr> disconnect_observed := True \<rparr>"]) (simp_all add: defs)
  qed
qed

lemma poll_report:
  assumes "port_inv r" "report_ok cap r logged"
  shows "report_ok cap (snd (poll_disconnect c who r)) (logged @ reported_at cap (PollOp c who) r)"
proof (rule poll_cases [OF assms(1), of c who], goal_cases)
  case 1
  with assms show ?thesis by simp
next
  case reports: (2 p f reason)
  show ?thesis
  proof (cases "pc_generation c = pc_generation cap")
    case True
    show ?thesis
    proof (cases "pc_end c = pc_end cap")
      case same: True
      with True reports assms(2) show ?thesis
        by (auto simp: report_ok_def end_ref_mut PortCapability_eq_iff split: PortDisconnectReason.splits)
    next
      case False
      with True reports assms(2) show ?thesis
        by (auto simp: report_ok_def end_ref_mut opposite_eq_iff split: PortDisconnectReason.splits if_splits)
    qed
  next
    case False
    then have "c \<noteq> cap" by auto
    with False reports assms(2) show ?thesis by (simp add: report_ok_def)
  qed
qed

lemma port_step_report:
  assumes "port_inv r" "report_ok cap r logged"
  shows "report_ok cap (port_step op r) (logged @ reported_at cap op r)"
proof (cases "\<exists>c who. op = PollOp c who")
  case True
  with poll_report [OF assms] show ?thesis by (auto simp del: reported_at.simps)
next
  case False
  then have "reported_at cap op r = []" by (cases op) auto
  moreover have "report_ok cap (port_step op r) logged"
    using port_step_observed [OF assms(1), of op] False
    by (intro report_ok_mono [OF assms(2) port_step_le [OF assms(1)]]) auto
  ultimately show ?thesis by simp
qed

lemma run_report:
  "port_inv r \<Longrightarrow> report_ok cap r logged \<Longrightarrow>
   report_ok cap (fold port_step ops r) (logged @ port_log (reported_at cap) ops r)"
proof (induction ops arbitrary: r logged)
  case (Cons op ops)
  from Cons.IH [OF port_step_inv [OF Cons.prems(1)] port_step_report [OF Cons.prems]] show ?case by simp
qed simp

text \<open>
  C21. An end learns of its disconnect at most once and truthfully: over any sequence of operations
  the polls of an end report either nothing, leaving it unmarked, or exactly one reason, which
  holds of the pair: the generation was revoked, the peer closed, or the end closed itself.
\<close>

theorem port_disconnect_once:
  "let r0 = with_queue_capacity c; reports = port_log (reported_at cap) ops r0 in
   case pairs (fold port_step ops r0) (pc_generation cap) of
     None \<Rightarrow> reports = []
   | Some p \<Rightarrow>
       (case reports of
          [] \<Rightarrow> \<not> disconnect_observed (end_ref p (pc_end cap))
        | [GenerationRevoked] \<Rightarrow> pair_revoked p
        | [PeerClose] \<Rightarrow> end_closed (end_ref p (opposite (pc_end cap)))
        | [LocalClose] \<Rightarrow> end_closed (end_ref p (pc_end cap))
        | _ \<Rightarrow> False)"
proof -
  have "report_ok cap (with_queue_capacity c) []" by (simp add: report_ok_def)
  from run_report [OF new_registry_inv this, of ops]
  have ok: "report_ok cap (fold port_step ops (with_queue_capacity c))
      (port_log (reported_at cap) ops (with_queue_capacity c))" by simp
  show ?thesis
  proof (cases "pairs (fold port_step ops (with_queue_capacity c)) (pc_generation cap)")
    case (Some p)
    show ?thesis
    proof (cases "disconnect_observed (end_ref p (pc_end cap))")
      case True
      with ok Some obtain reason where "port_log (reported_at cap) ops (with_queue_capacity c) = [reason]"
          "case reason of GenerationRevoked \<Rightarrow> pair_revoked p
            | PeerClose \<Rightarrow> end_closed (end_ref p (opposite (pc_end cap)))
            | LocalClose \<Rightarrow> end_closed (end_ref p (pc_end cap))"
        by (auto simp: report_ok_def)
      with Some show ?thesis by (cases reason) (simp_all add: Let_def)
    next
      case False
      with ok Some show ?thesis by (simp add: report_ok_def Let_def)
    qed
  qed (use ok in \<open>simp add: report_ok_def Let_def\<close>)
qed

text \<open>
  Revocation is final for the principal: in every reachable registry each operation a revoked
  generation presents, as sender, receiver, poller, closer, source or target of a transfer or
  member of a new pair, is an error that changes nothing. Except for closing, which finds the port
  closed or owned by another, the error is the stale-generation code.
\<close>

theorem revoked_generation_refused:
  "let r = fold port_step ops (with_queue_capacity c); stale = (\<lambda>e. port_error_code e = ''KELD-RUNTIME-005'') in
   if is_generation_revoked r p then
     register_generation p r = r
     \<and> (\<exists>e. port_send cap p m r = (Inl e, r) \<and> stale e)
     \<and> (\<exists>e. port_recv cap p r = (Inl e, r) \<and> stale e)
     \<and> (\<exists>e. poll_disconnect cap p r = (Inl e, r) \<and> stale e)
     \<and> (\<exists>e. transfer cap p q r = (Inl e, r) \<and> stale e)
     \<and> (\<exists>e. transfer cap q p r = (Inl e, r) \<and> stale e)
     \<and> (\<exists>e. create_pair p q r = (Inl e, r) \<and> stale e)
     \<and> (\<exists>e. create_pair q p r = (Inl e, r) \<and> stale e)
     \<and> (\<exists>e. port_close cap p r = (Inl e, r) \<and> port_error_code e \<in> {''KELD-RUNTIME-004'', ''KELD-RUNTIME-006''})
   else True"
proof -
  let ?r = "fold port_step ops (with_queue_capacity c)"
  have "\<exists>e. port_close cap p ?r = (Inl e, ?r) \<and> port_error_code e \<in> {''KELD-RUNTIME-004'', ''KELD-RUNTIME-006''}"
    if "is_generation_revoked ?r p"
  proof (cases "pairs ?r (pc_generation cap)")
    case (Some pair)
    with run_port_inv [of ops c] have "pair_inv (queue_capacity ?r) (set (revoked_generations ?r)) pair"
      by (auto simp: port_inv_def)
    from end_ref_inv [OF this, of "pc_end cap"] that Some show ?thesis
      by (auto simp: port_close_def check_end_owner_def Let_def end_inv_def is_generation_revoked_def split: if_splits)
  qed (simp add: port_close_def)
  then show ?thesis
    by (auto simp: Let_def register_generation_def port_send_def port_recv_def poll_disconnect_def transfer_def
        create_pair_def stale_principal_def stale_generation_at_create_def)
qed

text \<open>
  What a run has settled stays settled: later operations never reuse a port generation, never
  change an end's first owner, never reopen a closed end or a revoked pair, and never move an end
  that was already transferred; revoked generations stay revoked.
\<close>

theorem port_history_kept:
  "let r = fold port_step ops (with_queue_capacity c); s = fold port_step later r in
   set (revoked_generations r) \<subseteq> set (revoked_generations s)
   \<and> unat (next_generation r) \<le> unat (next_generation s)
   \<and> (case pairs r g of
        None \<Rightarrow> True
      | Some p \<Rightarrow> \<exists>q. pairs s g = Some q \<and> pair_revoked p \<le> pair_revoked q
          \<and> end_closed (end_ref p e) \<le> end_closed (end_ref q e)
          \<and> initial_owner (end_ref q e) = initial_owner (end_ref p e)
          \<and> (if transferred (end_ref p e) then transferred (end_ref q e) \<and> end_owner (end_ref q e) = end_owner (end_ref p e)
             else True))"
proof -
  let ?r = "fold port_step ops (with_queue_capacity c)"
  have le: "port_le ?r (fold port_step later ?r)" by (rule port_history.run_le [OF run_port_inv])
  have "\<exists>q. pairs (fold port_step later ?r) g = Some q \<and> pair_le p q" if "pairs ?r g = Some p" for p
    using le that unfolding port_le_def by blast
  note kept = this
  have "set (revoked_generations ?r) \<subseteq> set (revoked_generations (fold port_step later ?r))"
    "unat (next_generation ?r) \<le> unat (next_generation (fold port_step later ?r))"
    using le by (simp_all add: port_le_def)
  note history = this
  show ?thesis
  proof (cases "pairs ?r g")
    case None
    with history show ?thesis by (simp add: Let_def)
  next
    case (Some p)
    obtain q where q: "pairs (fold port_step later ?r) g = Some q" "pair_le p q" using kept [OF Some] by blast
    from q(2) have "end_le (end_ref p e) (end_ref q e)" "pair_revoked p \<le> pair_revoked q"
      by (simp_all add: pair_le_def)
    with Some q(1) history show ?thesis by (simp add: Let_def end_le_def)
  qed
qed

end
