(* ===== verification/Window_Registry.thy ===== *)
theory Window_Registry
  imports Kipc_Frame Virtual_Port "HOL-Library.Multiset"
begin

text \<open>
  The window payloads of \<open>crates/keld-ipc/src/window.rs\<close> and the app session's window registry
  (\<open>crates/keld-core/src/app_session/window_registry.rs\<close>): identities, native facts, adoption by a
  successor generation and the two-phase close. The ordered map of entries is an association list
  kept sorted by \<open>btree_insert\<close>; the callbacks \<open>abandoned\<close> and \<open>emit\<close> are lists of what they
  are called with, in order. Diagnostics printed to standard error are left out.
\<close>

section \<open>Payloads\<close>

type_synonym i32 = "32 word"
type_synonym WindowId = u32
type_synonym WindowGeneration = u64

record WindowRef =
  ref_id :: WindowId
  ref_incarnation :: WindowGeneration

record Rect =
  rect_x :: i32
  rect_y :: i32
  rect_width :: u32
  rect_height :: u32

record WindowState =
  st_bounds :: Rect
  st_focused :: bool
  st_maximized :: bool
  st_full_screen :: bool

datatype WindowEvent =
    EvCreated WindowRef WindowState "u64 option"
  | EvBounds WindowRef Rect
  | EvFocus WindowRef bool
  | EvMaximized WindowRef bool
  | EvFullScreen WindowRef bool
  | EvCloseRequested WindowRef u64
  | EvDestroyed WindowRef

datatype CloseVerdict = CloseAllow | CloseVeto

datatype WindowRequest =
    ReqCreate u32 u32 "i32 option" "i32 option"
  | ReqSetMaximized WindowRef bool
  | ReqSetFullScreen WindowRef bool
  | ReqRequestClose WindowRef
  | ReqCloseReply WindowRef u64 CloseVerdict
  | ReqDestroy WindowRef

datatype WindowResponse =
    RespCreated WindowRef
  | RespAccepted
  | RespCloseRequested u64
  | RespMerged u64
  | RespAlreadyClosing
  | RespReplyApplied
  | RespReplyStale
  | RespDestroyed
  | RespAdopted WindowRef

section \<open>Registry data\<close>

datatype PrimaryLinkIdentity = LinkRole RolePrincipal

type_synonym WebviewId = u32

record WindowOwner =
  wo_identity :: PrimaryLinkIdentity
  wo_attempt :: u32

datatype WindowCounter = CounterId | CounterIncarnation | CounterCloseSequence

datatype WindowError =
    StaleWindow
  | WindowExhausted WindowCounter
  | WindowNotReady
  | WrongOwner
  | PendingDestroyCapacity
  | SessionWindowCapacity

fun window_error_code :: "WindowError \<Rightarrow> string" where
  "window_error_code StaleWindow = ''KELD-CORE-038''"
| "window_error_code (WindowExhausted _) = ''KELD-CORE-039''"
| "window_error_code WindowNotReady = ''KELD-CORE-040''"
| "window_error_code WrongOwner = ''KELD-CORE-043''"
| "window_error_code PendingDestroyCapacity = ''KELD-CORE-046''"
| "window_error_code SessionWindowCapacity = ''KELD-CORE-047''"

fun window_error_detail :: "WindowError \<Rightarrow> string" where
  "window_error_detail StaleWindow =
     ''stale or unavailable window; drop the reference in the 'closed' listener''"
| "window_error_detail (WindowExhausted CounterId) = ''WindowId exhausted; start a new app session''"
| "window_error_detail (WindowExhausted CounterIncarnation) =
     ''WindowGeneration exhausted; start a new app session''"
| "window_error_detail (WindowExhausted CounterCloseSequence) =
     ''close_seq exhausted; destroy the window or start a new app session''"
| "window_error_detail WindowNotReady =
     ''window registry is not serviceable; wait for Ready on a live app session''"
| "window_error_detail WrongOwner =
     ''window belongs to another or retired role generation; use the successor's subscribed replay''"
| "window_error_detail PendingDestroyCapacity =
     ''this window has too many Destroy calls waiting for physical release; wait for Released or drop a timed-out call''"
| "window_error_detail SessionWindowCapacity =
     ''this Host session has reached its cumulative distinct-window admission limit; end the session to mint another identity''"

definition window_error_display :: "WindowError \<Rightarrow> string" where
  "window_error_display e = window_error_code e @ '': '' @ window_error_detail e"

record PendingWindowCall =
  call_owner :: WindowOwner
  call_correlation :: CorrelationId

record OwnedWindowEvent =
  oe_owner :: WindowOwner
  oe_event :: WindowEvent

record WindowReply =
  wr_owner :: WindowOwner
  wr_correlation :: CorrelationId
  wr_response :: WindowResponse

datatype CreateOutcome =
    Build u64 WindowRef u32 u32 "i32 option" "i32 option"
  | Adopted WindowRef

record Teardown =
  td_window :: WindowRef
  td_view :: WebviewId

datatype BuildOutcome =
    BuildCreated OwnedWindowEvent WindowReply
  | BuildCleanup Teardown
  | BuildIgnored

record BuildFailureOutcome =
  bf_call :: "PendingWindowCall option"
  bf_last_window :: "WindowOwner option"
  bf_diagnostic :: bool

datatype NativeSetter =
    SetterMaximized WebviewId bool
  | SetterFullScreen WebviewId bool

datatype FactOutcome =
    FactEvent OwnedWindowEvent
  | FactCoalesced
  | FactSuppressed
  | FactUnmapped
  | FactDropped

datatype CloseOutcome =
    CloseRequested u64 "OwnedWindowEvent option"
  | CloseMerged u64
  | CloseTeardown Teardown
  | CloseVetoed
  | CloseStale
  | CloseAlreadyClosing
  | CloseUnmapped
  | CloseExhausted

record ReleaseOutcome =
  ro_fact :: "OwnedWindowEvent option"
  ro_last_window :: "WindowOwner option"
  ro_dropped_facts :: u64
  ro_diagnostic :: bool
  ro_destroy_calls :: "PendingWindowCall list"

record AbandonedClose =
  ac_window :: WindowRef
  ac_close_seq :: u64

datatype SessionEffect =
    EffectTeardown Teardown
  | CreateInterrupted PendingWindowCall
  | CloseAbandoned AbandonedClose

record NativeWindow =
  nw_view :: WebviewId
  nw_state :: WindowState

datatype Phase =
    Opening PendingWindowCall
  | Open NativeWindow
  | ClosePending NativeWindow u64
  | Closing "NativeWindow option"
  | Destroyed "WebviewId option"

record Entry =
  en_window :: WindowRef
  en_owner :: WindowOwner
  owner_live :: bool
  adoptable :: bool
  created :: bool
  dropped :: u64
  last_close_seq :: u64
  destroy_calls :: "PendingWindowCall list"
  phase :: Phase

definition MAX_PENDING_DESTROYS_PER_WINDOW :: nat where "MAX_PENDING_DESTROYS_PER_WINDOW = 64"
definition PROPOSED_MAX_CUMULATIVE_WINDOW_IDS :: nat where "PROPOSED_MAX_CUMULATIVE_WINDOW_IDS = 1024"

fun phase_view :: "Phase \<Rightarrow> WebviewId option" where
  "phase_view (Open native) = Some (nw_view native)"
| "phase_view (ClosePending native _) = Some (nw_view native)"
| "phase_view (Closing (Some native)) = Some (nw_view native)"
| "phase_view (Destroyed view) = view"
| "phase_view (Opening _) = None"
| "phase_view (Closing None) = None"

definition entry_view :: "Entry \<Rightarrow> WebviewId option" where
  "entry_view e = phase_view (phase e)"

fun is_destroyed :: "Phase \<Rightarrow> bool" where
  "is_destroyed (Destroyed _) = True"
| "is_destroyed _ = False"

fun is_opening :: "Phase \<Rightarrow> bool" where
  "is_opening (Opening _) = True"
| "is_opening _ = False"

fun is_open :: "Phase \<Rightarrow> bool" where
  "is_open (Open _) = True"
| "is_open _ = False"

text \<open>\<open>matches!(phase, Open(_) | ClosePending(_, _))\<close>: the phases with a usable native window.\<close>

fun is_shown :: "Phase \<Rightarrow> bool" where
  "is_shown (Open _) = True"
| "is_shown (ClosePending _ _) = True"
| "is_shown _ = False"

text \<open>The ordered map of entries: \<open>BTreeMap::insert\<close>, \<open>get_mut\<close> and the search of \<open>values_mut\<close>.\<close>

type_synonym Entries = "(u32 \<times> Entry) list"

fun btree_insert :: "u32 \<Rightarrow> Entry \<Rightarrow> Entries \<Rightarrow> Entries" where
  "btree_insert k e [] = [(k, e)]"
| "btree_insert k e ((k', e') # es) =
     (if k < k' then (k, e) # (k', e') # es
      else if k = k' then (k, e) # es
      else (k', e') # btree_insert k e es)"

definition find_entry :: "(Entry \<Rightarrow> bool) \<Rightarrow> Entries \<Rightarrow> (u32 \<times> Entry) option" where
  "find_entry P es = List.find (\<lambda>(_, e). P e) es"

definition entry_values :: "Entries \<Rightarrow> Entry list" where
  "entry_values es = map snd es"

definition map_entries :: "(Entry \<Rightarrow> Entry) \<Rightarrow> Entries \<Rightarrow> Entries" where
  "map_entries f es = map (\<lambda>(k, e). (k, f e)) es"

record WindowRegistry =
  reg_ready :: bool
  reg_ending :: bool
  last_id :: u32
  last_incarnation :: u64
  entries :: Entries
  deferred_last_window :: bool
  destroyed_fact_drops :: u64

definition put_entry :: "u32 \<Rightarrow> Entry \<Rightarrow> WindowRegistry \<Rightarrow> WindowRegistry" where
  "put_entry k e r = r\<lparr> entries := btree_insert k e (entries r) \<rparr>"

section \<open>Operations\<close>

definition new_window_registry :: WindowRegistry where
  "new_window_registry = \<lparr> reg_ready = False, reg_ending = False, last_id = 0, last_incarnation = 0,
     entries = [], deferred_last_window = False, destroyed_fact_drops = 0 \<rparr>"

definition mark_ready :: "WindowRegistry \<Rightarrow> bool \<times> WindowRegistry" where
  "mark_ready r = (if reg_ending r then (False, r) else (True, r\<lparr> reg_ready := True \<rparr>))"

definition require_ready :: "WindowRegistry \<Rightarrow> WindowError + unit" where
  "require_ready r = (if reg_ready r \<and> \<not> reg_ending r then Inr () else Inl WindowNotReady)"

definition create ::
  "WindowOwner \<Rightarrow> CorrelationId \<Rightarrow> u32 \<Rightarrow> u32 \<Rightarrow> i32 option \<Rightarrow> i32 option \<Rightarrow> WindowRegistry
    \<Rightarrow> (WindowError + CreateOutcome) \<times> WindowRegistry" where
  "create owner correlation width height x y r =
     (case require_ready r of
        Inl e \<Rightarrow> (Inl e, r)
      | Inr _ \<Rightarrow>
          (case find_entry (\<lambda>e. owner_live e \<and> en_owner e = owner \<and> adoptable e \<and> is_shown (phase e)) (entries r) of
             Some (k, e) \<Rightarrow> (Inr (Adopted (en_window e)), put_entry k (e\<lparr> adoptable := False \<rparr>) r)
           | None \<Rightarrow>
               (case checked_add (last_id r) 1 of
                  None \<Rightarrow> (Inl (WindowExhausted CounterId), r)
                | Some i \<Rightarrow>
                    (case checked_add (last_incarnation r) 1 of
                       None \<Rightarrow> (Inl (WindowExhausted CounterIncarnation), r)
                     | Some incarnation \<Rightarrow>
                         if length (entries r) \<ge> PROPOSED_MAX_CUMULATIVE_WINDOW_IDS
                         then (Inl SessionWindowCapacity, r)
                         else let window = \<lparr> ref_id = i, ref_incarnation = incarnation \<rparr> in
                           (Inr (Build incarnation window width height x y),
                            put_entry i
                              \<lparr> en_window = window, en_owner = owner, owner_live = True, adoptable = False,
                                created = False, dropped = 0, last_close_seq = 0, destroy_calls = [],
                                phase = Opening \<lparr> call_owner = owner, call_correlation = correlation \<rparr> \<rparr>
                              (r\<lparr> last_id := i, last_incarnation := incarnation \<rparr>))))))"

definition has_live_windows :: "WindowRegistry \<Rightarrow> bool" where
  "has_live_windows r = list_ex (\<lambda>e. \<not> is_destroyed (phase e)) (entry_values (entries r))"

definition only_opening_windows :: "WindowRegistry \<Rightarrow> bool" where
  "only_opening_windows r =
     (list_ex (\<lambda>e. is_opening (phase e)) (entry_values (entries r))
      \<and> list_all (\<lambda>e. is_opening (phase e) \<or> is_destroyed (phase e)) (entry_values (entries r)))"

definition native_built :: "u64 \<Rightarrow> WebviewId \<Rightarrow> WindowState \<Rightarrow> WindowRegistry \<Rightarrow> BuildOutcome \<times> WindowRegistry" where
  "native_built build view state r =
     (case find_entry (\<lambda>e. ref_incarnation (en_window e) = build) (entries r) of
        None \<Rightarrow> (BuildIgnored, r)
      | Some (k, e) \<Rightarrow>
          let native = \<lparr> nw_view = view, nw_state = state \<rparr> in
          (case phase e of
             Opening call \<Rightarrow>
               (BuildCreated
                  \<lparr> oe_owner = call_owner call, oe_event = EvCreated (en_window e) state None \<rparr>
                  \<lparr> wr_owner = call_owner call, wr_correlation = call_correlation call,
                    wr_response = RespCreated (en_window e) \<rparr>,
                (put_entry k (e\<lparr> phase := Open native, created := True \<rparr>) r)\<lparr> deferred_last_window := False \<rparr>)
           | Closing None \<Rightarrow>
               (BuildCleanup \<lparr> td_window = en_window e, td_view = view \<rparr>,
                put_entry k (e\<lparr> phase := Closing (Some native) \<rparr>) r)
           | _ \<Rightarrow> (BuildIgnored, r)))"

definition native_failed :: "u64 \<Rightarrow> WindowRegistry \<Rightarrow> BuildFailureOutcome \<times> WindowRegistry" where
  "native_failed build r =
     (let unexpected = \<lparr> bf_call = None, bf_last_window = None, bf_diagnostic = True \<rparr>;
          fail = (\<lambda>k e call.
            let r1 = put_entry k (e\<lparr> phase := Destroyed None \<rparr>) r;
                live_call = (if owner_live e \<and> \<not> reg_ending r then call else None) in
            if deferred_last_window r1 \<and> live_call \<noteq> None \<and> \<not> has_live_windows r1
            then (\<lparr> bf_call = live_call, bf_last_window = map_option call_owner live_call, bf_diagnostic = False \<rparr>,
                  r1\<lparr> deferred_last_window := False \<rparr>)
            else (\<lparr> bf_call = live_call, bf_last_window = None, bf_diagnostic = False \<rparr>, r1)) in
      case find_entry (\<lambda>e. ref_incarnation (en_window e) = build) (entries r) of
        None \<Rightarrow> (unexpected, r)
      | Some (k, e) \<Rightarrow>
          (case phase e of
             Opening call \<Rightarrow> fail k e (Some call)
           | Closing None \<Rightarrow> fail k e None
           | _ \<Rightarrow> (unexpected, r)))"

definition has_pending_call :: "WindowOwner \<Rightarrow> CorrelationId \<Rightarrow> WindowRegistry \<Rightarrow> bool" where
  "has_pending_call owner correlation r =
     (let is_call = (\<lambda>call. call_owner call = owner \<and> call_correlation call = correlation) in
      list_ex (\<lambda>e. (case phase e of Opening call \<Rightarrow> is_call call | _ \<Rightarrow> False) \<or> list_ex is_call (destroy_calls e))
        (entry_values (entries r)))"

text \<open>
  \<open>admitted_entry\<close> returns a mutable reference to the entry, whose adoption mark it has cleared:
  here the key, the entry so changed, and the registry with it stored.
\<close>

definition admitted_entry ::
  "WindowOwner \<Rightarrow> WindowRef \<Rightarrow> WindowRegistry \<Rightarrow> WindowError + (u32 \<times> Entry \<times> WindowRegistry)" where
  "admitted_entry owner window r =
     (case require_ready r of
        Inl e \<Rightarrow> Inl e
      | Inr _ \<Rightarrow>
          (case map_of (entries r) (ref_id window) of
             None \<Rightarrow> Inl StaleWindow
           | Some e \<Rightarrow>
               if \<not> (en_window e = window \<and> \<not> is_destroyed (phase e)) then Inl StaleWindow
               else if \<not> owner_live e \<or> en_owner e \<noteq> owner then Inl WrongOwner
               else let e' = e\<lparr> adoptable := False \<rparr> in
                 Inr (ref_id window, e', put_entry (ref_id window) e' r)))"

definition admitted_view ::
  "WindowOwner \<Rightarrow> WindowRef \<Rightarrow> WindowRegistry \<Rightarrow> (WindowError + WebviewId) \<times> WindowRegistry" where
  "admitted_view owner window r =
     (case admitted_entry owner window r of
        Inl e \<Rightarrow> (Inl e, r)
      | Inr (k, e, r1) \<Rightarrow>
          (case phase e of
             Open native \<Rightarrow> (Inr (nw_view native), r1)
           | ClosePending native _ \<Rightarrow> (Inr (nw_view native), r1)
           | _ \<Rightarrow> (Inl StaleWindow, r1)))"

definition set_maximized ::
  "WindowOwner \<Rightarrow> WindowRef \<Rightarrow> bool \<Rightarrow> WindowRegistry \<Rightarrow> (WindowError + NativeSetter) \<times> WindowRegistry" where
  "set_maximized owner window maximized r =
     (case admitted_view owner window r of
        (Inl e, r1) \<Rightarrow> (Inl e, r1)
      | (Inr view, r1) \<Rightarrow> (Inr (SetterMaximized view maximized), r1))"

definition set_full_screen ::
  "WindowOwner \<Rightarrow> WindowRef \<Rightarrow> bool \<Rightarrow> WindowRegistry \<Rightarrow> (WindowError + NativeSetter) \<times> WindowRegistry" where
  "set_full_screen owner window full_screen r =
     (case admitted_view owner window r of
        (Inl e, r1) \<Rightarrow> (Inl e, r1)
      | (Inr view, r1) \<Rightarrow> (Inr (SetterFullScreen view full_screen), r1))"

definition native_fact ::
  "WebviewId \<Rightarrow> (WindowRef \<Rightarrow> WindowState \<Rightarrow> WindowEvent option \<times> WindowState) \<Rightarrow> WindowRegistry
    \<Rightarrow> FactOutcome \<times> WindowRegistry" where
  "native_fact view update r =
     (let outcome = (\<lambda>e ev. case ev of
            Some event \<Rightarrow> if owner_live e then FactEvent \<lparr> oe_owner = en_owner e, oe_event = event \<rparr> else FactSuppressed
          | None \<Rightarrow> FactCoalesced) in
      case find_entry (\<lambda>e. entry_view e = Some view) (entries r) of
        None \<Rightarrow> (FactUnmapped, r)
      | Some (k, e) \<Rightarrow>
          (case phase e of
             Open native \<Rightarrow>
               (case update (en_window e) (nw_state native) of
                  (ev, s) \<Rightarrow> (outcome e ev, put_entry k (e\<lparr> phase := Open (native\<lparr> nw_state := s \<rparr>) \<rparr>) r))
           | ClosePending native n \<Rightarrow>
               (case update (en_window e) (nw_state native) of
                  (ev, s) \<Rightarrow> (outcome e ev, put_entry k (e\<lparr> phase := ClosePending (native\<lparr> nw_state := s \<rparr>) n \<rparr>) r))
           | Closing _ \<Rightarrow> (FactDropped, put_entry k (e\<lparr> dropped := saturating_add (dropped e) 1 \<rparr>) r)
           | Destroyed _ \<Rightarrow> (FactDropped, r\<lparr> destroyed_fact_drops := saturating_add (destroyed_fact_drops r) 1 \<rparr>)
           | Opening _ \<Rightarrow> (FactUnmapped, r)))"

text \<open>The closures passed to \<open>native_fact\<close>: the change to the mirrored state and its fact.\<close>

definition update_bounds :: "Rect \<Rightarrow> WindowRef \<Rightarrow> WindowState \<Rightarrow> WindowEvent option \<times> WindowState" where
  "update_bounds bounds window s =
     (if st_bounds s = bounds then (None, s) else (Some (EvBounds window bounds), s\<lparr> st_bounds := bounds \<rparr>))"

definition update_focus :: "bool \<Rightarrow> WindowRef \<Rightarrow> WindowState \<Rightarrow> WindowEvent option \<times> WindowState" where
  "update_focus focused window s =
     (if st_focused s = focused then (None, s) else (Some (EvFocus window focused), s\<lparr> st_focused := focused \<rparr>))"

definition update_maximized :: "bool \<Rightarrow> WindowRef \<Rightarrow> WindowState \<Rightarrow> WindowEvent option \<times> WindowState" where
  "update_maximized maximized window s =
     (if st_maximized s = maximized then (None, s)
      else (Some (EvMaximized window maximized), s\<lparr> st_maximized := maximized \<rparr>))"

definition update_full_screen :: "bool \<Rightarrow> WindowRef \<Rightarrow> WindowState \<Rightarrow> WindowEvent option \<times> WindowState" where
  "update_full_screen full_screen window s =
     (if st_full_screen s = full_screen then (None, s)
      else (Some (EvFullScreen window full_screen), s\<lparr> st_full_screen := full_screen \<rparr>))"

definition native_bounds :: "WebviewId \<Rightarrow> Rect \<Rightarrow> WindowRegistry \<Rightarrow> FactOutcome \<times> WindowRegistry" where
  "native_bounds view bounds r = native_fact view (update_bounds bounds) r"

definition native_focus :: "WebviewId \<Rightarrow> bool \<Rightarrow> WindowRegistry \<Rightarrow> FactOutcome \<times> WindowRegistry" where
  "native_focus view focused r = native_fact view (update_focus focused) r"

definition native_maximized :: "WebviewId \<Rightarrow> bool \<Rightarrow> WindowRegistry \<Rightarrow> FactOutcome \<times> WindowRegistry" where
  "native_maximized view maximized r = native_fact view (update_maximized maximized) r"

definition native_full_screen :: "WebviewId \<Rightarrow> bool \<Rightarrow> WindowRegistry \<Rightarrow> FactOutcome \<times> WindowRegistry" where
  "native_full_screen view full_screen r = native_fact view (update_full_screen full_screen) r"

definition begin_close :: "Entry \<Rightarrow> CloseOutcome \<times> Entry" where
  "begin_close e =
     (case phase e of
        Open native \<Rightarrow>
          (case checked_add (last_close_seq e) 1 of
             None \<Rightarrow> (CloseExhausted, e)
           | Some close_seq \<Rightarrow>
               (CloseRequested close_seq
                  (if owner_live e
                   then Some \<lparr> oe_owner = en_owner e, oe_event = EvCloseRequested (en_window e) close_seq \<rparr> else None),
                e\<lparr> last_close_seq := close_seq, phase := ClosePending native close_seq \<rparr>))
      | ClosePending _ close_seq \<Rightarrow> (CloseMerged close_seq, e)
      | Closing _ \<Rightarrow> (CloseAlreadyClosing, e)
      | Destroyed _ \<Rightarrow> (CloseAlreadyClosing, e)
      | Opening _ \<Rightarrow> (CloseUnmapped, e))"

definition native_close :: "WebviewId \<Rightarrow> WindowRegistry \<Rightarrow> CloseOutcome \<times> WindowRegistry" where
  "native_close view r =
     (case find_entry (\<lambda>e. entry_view e = Some view) (entries r) of
        None \<Rightarrow> (CloseUnmapped, r)
      | Some (k, e) \<Rightarrow> (case begin_close e of (outcome, e') \<Rightarrow> (outcome, put_entry k e' r)))"

definition request_close ::
  "WindowOwner \<Rightarrow> WindowRef \<Rightarrow> WindowRegistry \<Rightarrow> (WindowError + CloseOutcome) \<times> WindowRegistry" where
  "request_close owner window r =
     (case admitted_entry owner window r of
        Inl e \<Rightarrow> (Inl e, r)
      | Inr (k, e, r1) \<Rightarrow>
          if is_opening (phase e) then (Inl StaleWindow, r1)
          else (case begin_close e of
            (CloseExhausted, e') \<Rightarrow> (Inl (WindowExhausted CounterCloseSequence), put_entry k e' r1)
          | (outcome, e') \<Rightarrow> (Inr outcome, put_entry k e' r1)))"

definition close_reply ::
  "WindowOwner \<Rightarrow> WindowRef \<Rightarrow> u64 \<Rightarrow> CloseVerdict \<Rightarrow> WindowRegistry
    \<Rightarrow> (WindowError + CloseOutcome) \<times> WindowRegistry" where
  "close_reply owner window close_seq verdict r =
     (case admitted_entry owner window r of
        Inl e \<Rightarrow> (Inl e, r)
      | Inr (k, e, r1) \<Rightarrow>
          (case phase e of
             ClosePending native pending \<Rightarrow>
               if close_seq \<noteq> pending then (Inr CloseStale, r1)
               else (case verdict of
                 CloseVeto \<Rightarrow> (Inr CloseVetoed, put_entry k (e\<lparr> phase := Open native \<rparr>) r1)
               | CloseAllow \<Rightarrow> (Inr (CloseTeardown \<lparr> td_window = window, td_view = nw_view native \<rparr>),
                   put_entry k (e\<lparr> phase := Closing (Some native) \<rparr>) r1))
           | _ \<Rightarrow> (Inr CloseStale, r1)))"

text \<open>The first component of the result lists the calls of \<open>abandoned\<close>.\<close>

definition destroy ::
  "WindowOwner \<Rightarrow> WindowRef \<Rightarrow> CorrelationId \<Rightarrow> WindowRegistry
    \<Rightarrow> AbandonedClose list \<times> (WindowError + CloseOutcome) \<times> WindowRegistry" where
  "destroy owner window correlation r =
     (case admitted_entry owner window r of
        Inl e \<Rightarrow> ([], Inl e, r)
      | Inr (k, e, r1) \<Rightarrow>
          if length (destroy_calls e) \<ge> MAX_PENDING_DESTROYS_PER_WINDOW then ([], Inl PendingDestroyCapacity, r1)
          else
            let push = e\<lparr> destroy_calls := destroy_calls e @ [\<lparr> call_owner = owner, call_correlation = correlation \<rparr>] \<rparr>;
                tear = (\<lambda>abandoned native.
                  (abandoned, Inr (CloseTeardown \<lparr> td_window = window, td_view = nw_view native \<rparr>),
                   put_entry k (push\<lparr> phase := Closing (Some native) \<rparr>) r1)) in
            (case phase e of
               Open native \<Rightarrow> tear [] native
             | ClosePending native close_seq \<Rightarrow> tear [\<lparr> ac_window = window, ac_close_seq = close_seq \<rparr>] native
             | Closing _ \<Rightarrow> ([], Inr CloseAlreadyClosing, put_entry k push r1)
             | _ \<Rightarrow> ([], Inl StaleWindow, r1)))"

definition native_released :: "WebviewId \<Rightarrow> WindowRegistry \<Rightarrow> ReleaseOutcome \<times> WindowRegistry" where
  "native_released view r =
     (let unexpected = \<lparr> ro_fact = None, ro_last_window = None, ro_dropped_facts = 0, ro_diagnostic = True,
            ro_destroy_calls = [] \<rparr> in
      case find_entry (\<lambda>e. entry_view e = Some view) (entries r) of
        None \<Rightarrow> (unexpected, r)
      | Some (k, e) \<Rightarrow>
          (case phase e of
             Closing (Some _) \<Rightarrow>
               let r1 = put_entry k (e\<lparr> phase := Destroyed (Some view), adoptable := False, dropped := 0,
                     destroy_calls := [] \<rparr>) r;
                   fact = (if created e \<and> owner_live e
                     then Some \<lparr> oe_owner = en_owner e, oe_event = EvDestroyed (en_window e) \<rparr> else None);
                   out = (\<lambda>last. \<lparr> ro_fact = fact, ro_last_window = last, ro_dropped_facts = dropped e,
                     ro_diagnostic = False, ro_destroy_calls = destroy_calls e \<rparr>) in
               (case (if reg_ending r then None else map_option oe_owner fact) of
                  None \<Rightarrow> (out None, r1)
                | Some owner \<Rightarrow>
                    if has_live_windows r1 then
                      (out None, if only_opening_windows r1 then r1\<lparr> deferred_last_window := True \<rparr> else r1)
                    else (out (Some owner), r1\<lparr> deferred_last_window := False \<rparr>))
           | _ \<Rightarrow> (unexpected, r)))"

definition lose_entry :: "Entry \<Rightarrow> Entry" where
  "lose_entry e =
     (let e1 = e\<lparr> owner_live := False, adoptable := False, destroy_calls := [] \<rparr> in
      case phase e of
        Opening _ \<Rightarrow> e1\<lparr> phase := Closing None \<rparr>
      | ClosePending native _ \<Rightarrow> e1\<lparr> phase := Open native \<rparr>
      | _ \<Rightarrow> e1)"

definition abandoned_close :: "Entry \<Rightarrow> AbandonedClose list" where
  "abandoned_close e =
     (case phase e of
        ClosePending _ close_seq \<Rightarrow> [\<lparr> ac_window = en_window e, ac_close_seq = close_seq \<rparr>]
      | _ \<Rightarrow> [])"

definition role_lost :: "WindowOwner \<Rightarrow> WindowRegistry \<Rightarrow> AbandonedClose list \<times> WindowRegistry" where
  "role_lost owner r =
     (let lost = (\<lambda>e. en_owner e = owner \<and> owner_live e);
          r1 = r\<lparr> entries := map_entries (\<lambda>e. if lost e then lose_entry e else e) (entries r) \<rparr> in
      (concat (map abandoned_close (filter lost (entry_values (entries r)))),
       if list_ex lost (entry_values (entries r)) then r1\<lparr> deferred_last_window := False \<rparr> else r1))"

definition subscribe_successor :: "WindowOwner \<Rightarrow> WindowRegistry \<Rightarrow> WindowRegistry" where
  "subscribe_successor owner r =
     r\<lparr> entries := map_entries
        (\<lambda>e. if \<not> owner_live e \<and> is_shown (phase e)
          then e\<lparr> en_owner := owner, owner_live := True, adoptable := is_open (phase e) \<rparr> else e) (entries r) \<rparr>"

definition replay_entry :: "WindowOwner \<Rightarrow> Entry \<Rightarrow> WindowEvent option" where
  "replay_entry owner e =
     (if owner_live e \<and> en_owner e = owner
      then (case phase e of
         Open native \<Rightarrow> Some (EvCreated (en_window e) (nw_state native) None)
       | ClosePending native close_seq \<Rightarrow> Some (EvCreated (en_window e) (nw_state native) (Some close_seq))
       | _ \<Rightarrow> None)
      else None)"

definition replay :: "WindowOwner \<Rightarrow> WindowRegistry \<Rightarrow> WindowEvent list" where
  "replay owner r = List.map_filter (replay_entry owner) (entry_values (entries r))"

definition take_destroyed_fact_drops :: "WindowRegistry \<Rightarrow> u64 \<times> WindowRegistry" where
  "take_destroyed_fact_drops r = (destroyed_fact_drops r, r\<lparr> destroyed_fact_drops := 0 \<rparr>)"

definition end_entry :: "Entry \<Rightarrow> SessionEffect list \<times> Entry" where
  "end_entry e =
     (let e1 = e\<lparr> adoptable := False \<rparr>;
          tear = (\<lambda>native. EffectTeardown \<lparr> td_window = en_window e, td_view = nw_view native \<rparr>) in
      case phase e of
        Opening call \<Rightarrow> ([CreateInterrupted call], e1\<lparr> phase := Closing None \<rparr>)
      | Open native \<Rightarrow> ([tear native], e1\<lparr> phase := Closing (Some native) \<rparr>)
      | ClosePending native close_seq \<Rightarrow>
          ([CloseAbandoned \<lparr> ac_window = en_window e, ac_close_seq = close_seq \<rparr>, tear native],
           e1\<lparr> phase := Closing (Some native) \<rparr>)
      | _ \<Rightarrow> ([], e1))"

definition session_end :: "WindowRegistry \<Rightarrow> SessionEffect list \<times> WindowRegistry" where
  "session_end r =
     (concat (map (\<lambda>e. fst (end_entry e)) (entry_values (entries r))),
      r\<lparr> reg_ending := True, reg_ready := False, deferred_last_window := False,
         entries := map_entries (\<lambda>e. snd (end_entry e)) (entries r) \<rparr>)"

section \<open>Entries as an ordered map\<close>

definition entries_sorted :: "Entries \<Rightarrow> bool" where
  "entries_sorted es = sorted_wrt (<) (map fst es)"

lemma entries_sorted_simps [simp]:
  "entries_sorted []"
  "entries_sorted ((k, e) # es) \<longleftrightarrow> (\<forall>k' \<in> fst ` set es. k < k') \<and> entries_sorted es"
  by (auto simp: entries_sorted_def)

lemma btree_insert_keys: "fst ` set (btree_insert k e es) = insert k (fst ` set es)"
  by (induction k e es rule: btree_insert.induct) auto

lemma btree_insert_sorted: "entries_sorted es \<Longrightarrow> entries_sorted (btree_insert k e es)"
  by (induction k e es rule: btree_insert.induct) (auto simp: btree_insert_keys image_iff)

lemma map_of_btree_insert:
  "entries_sorted es \<Longrightarrow> map_of (btree_insert k e es) = (map_of es)(k \<mapsto> e)"
proof (induction k e es rule: btree_insert.induct)
  case (2 k e k' e' es)
  have "k \<noteq> k'' \<or> map_of es k'' = None" if "k < k'" for k''
    using 2(2) that by (auto simp: map_of_eq_None_iff image_iff)
  with 2 show ?case by (auto simp: fun_eq_iff)
qed auto

lemma btree_insert_twice [simp]: "btree_insert k e (btree_insert k e0 es) = btree_insert k e es"
  by (induction k e es rule: btree_insert.induct) auto

lemma btree_insert_split:
  assumes "entries_sorted es" "map_of es k = Some e"
  obtains xs ys where "es = xs @ (k, e) # ys" "\<And>e'. btree_insert k e' es = xs @ (k, e') # ys"
proof -
  have "\<exists>xs ys. es = xs @ (k, e) # ys \<and> (\<forall>e'. btree_insert k e' es = xs @ (k, e') # ys)"
    using assms
  proof (induction es)
    case (Cons p es)
    obtain k0 e0 where p: "p = (k0, e0)" by (cases p)
    show ?case
    proof (cases "k = k0")
      case True
      with Cons p show ?thesis by (intro exI [of _ "[]"] exI [of _ es]) auto
    next
      case False
      with Cons.prems p have in_es: "map_of es k = Some e" "entries_sorted es" by auto
      with Cons.prems p have "k0 < k" by (metis entries_sorted_simps(2) image_eqI map_of_SomeD fst_conv)
      moreover obtain xs ys where "es = xs @ (k, e) # ys" "\<forall>e'. btree_insert k e' es = xs @ (k, e') # ys"
        using Cons.IH [OF in_es(2,1)] by blast
      ultimately show ?thesis using p False by (intro exI [of _ "(k0, e0) # xs"] exI [of _ ys]) auto
    qed
  qed simp
  with that show ?thesis by blast
qed

lemma btree_insert_last:
  "(\<And>k'. k' \<in> fst ` set es \<Longrightarrow> k' < k) \<Longrightarrow> btree_insert k e es = es @ [(k, e)]"
  by (induction k e es rule: btree_insert.induct) (auto dest: order.asym)

lemma map_of_map_entries [simp]: "map_of (map_entries f es) k = map_option f (map_of es k)"
  by (induction es) (auto simp: map_entries_def)

lemma entries_sorted_map [simp]: "entries_sorted (map_entries f es) = entries_sorted es"
  by (simp add: entries_sorted_def map_entries_def comp_def case_prod_beta)

lemma entry_values_map [simp]: "entry_values (map_entries f es) = map f (entry_values es)"
  by (simp add: entry_values_def map_entries_def comp_def case_prod_beta)

lemma length_map_entries [simp]: "length (map_entries f es) = length es"
  by (simp add: map_entries_def)

lemma entries_sorted_distinct: "entries_sorted es \<Longrightarrow> distinct (map fst es)"
  by (auto simp: entries_sorted_def sorted_wrt_iff_nth_less distinct_conv_nth) (metis less_irrefl nat_neq_iff)

lemma find_entry_Some:
  "entries_sorted es \<Longrightarrow> find_entry P es = Some (k, e) \<Longrightarrow> map_of es k = Some e \<and> P e"
  using entries_sorted_distinct [of es] find_Some_in [of "\<lambda>(_, e). P e" es "(k, e)"]
  by (auto simp: find_entry_def)

lemma entry_values_iff: "entries_sorted es \<Longrightarrow> e \<in> set (entry_values es) \<longleftrightarrow> (\<exists>k. map_of es k = Some e)"
  using entries_sorted_distinct [of es] by (force simp: entry_values_def)

lemma put_entry_simps [simp]:
  "reg_ready (put_entry k e r) = reg_ready r" "reg_ending (put_entry k e r) = reg_ending r"
  "last_id (put_entry k e r) = last_id r" "last_incarnation (put_entry k e r) = last_incarnation r"
  "deferred_last_window (put_entry k e r) = deferred_last_window r"
  "destroyed_fact_drops (put_entry k e r) = destroyed_fact_drops r"
  "entries (put_entry k e r) = btree_insert k e (entries r)"
  by (simp_all add: put_entry_def)

lemma put_put [simp]: "put_entry k e (put_entry k e0 r) = put_entry k e r"
  by (simp add: put_entry_def)

section \<open>The registry as a machine\<close>

text \<open>
  The operations the router performs on the registry. Subscribing is the transfer of the survivors
  followed by their replay, as the router composes them.
\<close>

datatype WindowOp =
    WReady
  | WCreate WindowOwner CorrelationId u32 u32 "i32 option" "i32 option"
  | WBuilt u64 WebviewId WindowState
  | WFailed u64
  | WSetMaximized WindowOwner WindowRef bool
  | WSetFullScreen WindowOwner WindowRef bool
  | WBounds WebviewId Rect
  | WFocus WebviewId bool
  | WMaximized WebviewId bool
  | WFullScreen WebviewId bool
  | WNativeClose WebviewId
  | WRequestClose WindowOwner WindowRef
  | WCloseReply WindowOwner WindowRef u64 CloseVerdict
  | WDestroy WindowOwner WindowRef CorrelationId
  | WReleased WebviewId
  | WRoleLost WindowOwner
  | WSubscribe WindowOwner
  | WTakeDrops
  | WSessionEnd

fun window_step :: "WindowOp \<Rightarrow> WindowRegistry \<Rightarrow> WindowRegistry" where
  "window_step WReady r = snd (mark_ready r)"
| "window_step (WCreate owner corr w h x y) r = snd (create owner corr w h x y r)"
| "window_step (WBuilt build view s) r = snd (native_built build view s r)"
| "window_step (WFailed build) r = snd (native_failed build r)"
| "window_step (WSetMaximized owner window b) r = snd (set_maximized owner window b r)"
| "window_step (WSetFullScreen owner window b) r = snd (set_full_screen owner window b r)"
| "window_step (WBounds view bounds) r = snd (native_bounds view bounds r)"
| "window_step (WFocus view b) r = snd (native_focus view b r)"
| "window_step (WMaximized view b) r = snd (native_maximized view b r)"
| "window_step (WFullScreen view b) r = snd (native_full_screen view b r)"
| "window_step (WNativeClose view) r = snd (native_close view r)"
| "window_step (WRequestClose owner window) r = snd (request_close owner window r)"
| "window_step (WCloseReply owner window n verdict) r = snd (close_reply owner window n verdict r)"
| "window_step (WDestroy owner window corr) r = snd (snd (destroy owner window corr r))"
| "window_step (WReleased view) r = snd (native_released view r)"
| "window_step (WRoleLost owner) r = snd (role_lost owner r)"
| "window_step (WSubscribe owner) r = subscribe_successor owner r"
| "window_step WTakeDrops r = snd (take_destroyed_fact_drops r)"
| "window_step WSessionEnd r = snd (session_end r)"

text \<open>
  What an operation makes known: a fact told to an owner, a close verdict applied, a call taken to
  be answered later, such a call answered, and such a call given up because its link or the
  session is gone. All but the last are read off the operation's result.
\<close>

datatype WindowObs =
    Told OwnedWindowEvent
  | Verdict WindowRef u64
  | Took PendingWindowCall
  | Answered PendingWindowCall
  | Forgot PendingWindowCall

text \<open>The calls an entry still owes an answer, as \<open>has_pending_call\<close> looks for them.\<close>

definition entry_calls :: "Entry \<Rightarrow> PendingWindowCall list" where
  "entry_calls e = (case phase e of Opening call \<Rightarrow> [call] | _ \<Rightarrow> []) @ destroy_calls e"

definition reply_call :: "WindowReply \<Rightarrow> PendingWindowCall" where
  "reply_call reply = \<lparr> call_owner = wr_owner reply, call_correlation = wr_correlation reply \<rparr>"

fun told_fact :: "FactOutcome \<Rightarrow> WindowObs list" where
  "told_fact (FactEvent told) = [Told told]"
| "told_fact _ = []"

fun told_close :: "CloseOutcome \<Rightarrow> WindowObs list" where
  "told_close (CloseRequested _ (Some told)) = [Told told]"
| "told_close _ = []"

fun window_obs :: "WindowOp \<Rightarrow> WindowRegistry \<Rightarrow> WindowObs list" where
  "window_obs (WCreate owner corr w h x y) r =
     (case fst (create owner corr w h x y r) of
        Inr (Build _ _ _ _ _ _) \<Rightarrow> [Took \<lparr> call_owner = owner, call_correlation = corr \<rparr>] | _ \<Rightarrow> [])"
| "window_obs (WBuilt build view s) r =
     (case fst (native_built build view s r) of
        BuildCreated told reply \<Rightarrow> [Told told, Answered (reply_call reply)] | _ \<Rightarrow> [])"
| "window_obs (WFailed build) r =
     (case bf_call (fst (native_failed build r)) of Some call \<Rightarrow> [Answered call] | None \<Rightarrow> [])"
| "window_obs (WBounds view bounds) r = told_fact (fst (native_bounds view bounds r))"
| "window_obs (WFocus view b) r = told_fact (fst (native_focus view b r))"
| "window_obs (WMaximized view b) r = told_fact (fst (native_maximized view b r))"
| "window_obs (WFullScreen view b) r = told_fact (fst (native_full_screen view b r))"
| "window_obs (WNativeClose view) r = told_close (fst (native_close view r))"
| "window_obs (WRequestClose owner window) r =
     (case fst (request_close owner window r) of Inr outcome \<Rightarrow> told_close outcome | Inl _ \<Rightarrow> [])"
| "window_obs (WCloseReply owner window n verdict) r =
     (case fst (close_reply owner window n verdict r) of
        Inr CloseVetoed \<Rightarrow> [Verdict window n]
      | Inr (CloseTeardown _) \<Rightarrow> [Verdict window n]
      | _ \<Rightarrow> [])"
| "window_obs (WDestroy owner window corr) r =
     (case fst (snd (destroy owner window corr r)) of
        Inr _ \<Rightarrow> [Took \<lparr> call_owner = owner, call_correlation = corr \<rparr>] | Inl _ \<Rightarrow> [])"
| "window_obs (WReleased view) r =
     (case fst (native_released view r) of out \<Rightarrow>
        (case ro_fact out of Some told \<Rightarrow> [Told told] | None \<Rightarrow> []) @ map Answered (ro_destroy_calls out))"
| "window_obs (WRoleLost owner) r =
     concat (map (\<lambda>e. if en_owner e = owner \<and> owner_live e then map Forgot (entry_calls e) else [])
       (entry_values (entries r)))"
| "window_obs (WSubscribe owner) r =
     map (\<lambda>ev. Told \<lparr> oe_owner = owner, oe_event = ev \<rparr>) (replay owner (subscribe_successor owner r))"
| "window_obs WSessionEnd r =
     concat (map (\<lambda>eff. case eff of CreateInterrupted call \<Rightarrow> [Forgot call] | _ \<Rightarrow> []) (fst (session_end r)))"
| "window_obs _ r = []"

text \<open>
  The local mirror an app keeps: it applies the facts it is told, in order.
\<close>

fun event_window :: "WindowEvent \<Rightarrow> WindowRef" where
  "event_window (EvCreated w _ _) = w"
| "event_window (EvBounds w _) = w"
| "event_window (EvFocus w _) = w"
| "event_window (EvMaximized w _) = w"
| "event_window (EvFullScreen w _) = w"
| "event_window (EvCloseRequested w _) = w"
| "event_window (EvDestroyed w) = w"

fun mirror_state :: "WindowEvent \<Rightarrow> WindowState option \<Rightarrow> WindowState option" where
  "mirror_state (EvCreated _ s _) m = Some s"
| "mirror_state (EvBounds _ bounds) m = map_option (\<lambda>s. s\<lparr> st_bounds := bounds \<rparr>) m"
| "mirror_state (EvFocus _ focused) m = map_option (\<lambda>s. s\<lparr> st_focused := focused \<rparr>) m"
| "mirror_state (EvMaximized _ maximized) m = map_option (\<lambda>s. s\<lparr> st_maximized := maximized \<rparr>) m"
| "mirror_state (EvFullScreen _ full_screen) m = map_option (\<lambda>s. s\<lparr> st_full_screen := full_screen \<rparr>) m"
| "mirror_state (EvCloseRequested _ _) m = m"
| "mirror_state (EvDestroyed _) m = None"

definition mirror_event :: "WindowEvent \<Rightarrow> (WindowRef \<rightharpoonup> WindowState) \<Rightarrow> (WindowRef \<rightharpoonup> WindowState)" where
  "mirror_event ev m = m(event_window ev := mirror_state ev (m (event_window ev)))"

fun events_to :: "WindowOwner \<Rightarrow> WindowObs list \<Rightarrow> WindowEvent list" where
  "events_to owner [] = []"
| "events_to owner (Told told # obs) =
     (if oe_owner told = owner then oe_event told # events_to owner obs else events_to owner obs)"
| "events_to owner (_ # obs) = events_to owner obs"

section \<open>What an operation does to one entry\<close>

definition told_if :: "bool \<Rightarrow> WindowOwner \<Rightarrow> WindowEvent \<Rightarrow> WindowObs list" where
  "told_if b owner ev = (if b then [Told \<lparr> oe_owner = owner, oe_event = ev \<rparr>] else [])"

text \<open>
  The changes of a single entry, with what they make known. The two flags say whether the session
  was ending before and is ending after.
\<close>

inductive entry_step :: "bool \<Rightarrow> bool \<Rightarrow> Entry \<Rightarrow> WindowObs list \<Rightarrow> Entry \<Rightarrow> bool" where
  stay: "entry_step b b e [] e"
| unmark: "entry_step b b e [] (e\<lparr> adoptable := False \<rparr>)"
| built: "phase e = Opening call \<Longrightarrow> entry_step b b e
      [Told \<lparr> oe_owner = call_owner call, oe_event = EvCreated (en_window e) (nw_state n) None \<rparr>, Answered call]
      (e\<lparr> phase := Open n, created := True \<rparr>)"
| cleanup: "phase e = Closing None \<Longrightarrow> entry_step b b e [] (e\<lparr> phase := Closing (Some n) \<rparr>)"
| failed: "phase e = Opening call \<Longrightarrow> entry_step b b e [Answered call] (e\<lparr> phase := Destroyed None \<rparr>)"
| failed_late: "phase e = Closing None \<Longrightarrow> entry_step b b e [] (e\<lparr> phase := Destroyed None \<rparr>)"
| fact_open: "\<lbrakk> phase e = Open n; case ev of None \<Rightarrow> s = nw_state n
        | Some ev' \<Rightarrow> event_window ev' = en_window e \<and> mirror_state ev' (Some (nw_state n)) = Some s \<rbrakk> \<Longrightarrow>
    entry_step b b e (case ev of None \<Rightarrow> [] | Some ev' \<Rightarrow> told_if (owner_live e) (en_owner e) ev')
      (e\<lparr> phase := Open (n\<lparr> nw_state := s \<rparr>) \<rparr>)"
| fact_pending: "\<lbrakk> phase e = ClosePending n q; case ev of None \<Rightarrow> s = nw_state n
        | Some ev' \<Rightarrow> event_window ev' = en_window e \<and> mirror_state ev' (Some (nw_state n)) = Some s \<rbrakk> \<Longrightarrow>
    entry_step b b e (case ev of None \<Rightarrow> [] | Some ev' \<Rightarrow> told_if (owner_live e) (en_owner e) ev')
      (e\<lparr> phase := ClosePending (n\<lparr> nw_state := s \<rparr>) q \<rparr>)"
| drops: "phase e = Closing n \<Longrightarrow> entry_step b b e [] (e\<lparr> dropped := d \<rparr>)"
| asks: "\<lbrakk> phase e = Open n; checked_add (last_close_seq e) 1 = Some q; a \<longrightarrow> adoptable e \<rbrakk> \<Longrightarrow>
    entry_step b b e (told_if (owner_live e) (en_owner e) (EvCloseRequested (en_window e) q))
      (e\<lparr> adoptable := a, last_close_seq := q, phase := ClosePending n q \<rparr>)"
| vetoes: "phase e = ClosePending n q \<Longrightarrow> entry_step b b e [Verdict (en_window e) q]
      (e\<lparr> adoptable := False, phase := Open n \<rparr>)"
| allows: "phase e = ClosePending n q \<Longrightarrow> entry_step b b e [Verdict (en_window e) q]
      (e\<lparr> adoptable := False, phase := Closing (Some n) \<rparr>)"
| destroys_again: "\<lbrakk> phase e = Closing (Some n); \<not> b; owner_live e; en_owner e = call_owner call;
      length (destroy_calls e) < MAX_PENDING_DESTROYS_PER_WINDOW \<rbrakk> \<Longrightarrow>
    entry_step b b e [Took call] (e\<lparr> adoptable := False, destroy_calls := destroy_calls e @ [call] \<rparr>)"
| destroys: "\<lbrakk> phase e = Open n \<or> phase e = ClosePending n q;
      \<not> b; owner_live e; en_owner e = call_owner call;
      length (destroy_calls e) < MAX_PENDING_DESTROYS_PER_WINDOW \<rbrakk> \<Longrightarrow>
    entry_step b b e [Took call]
      (e\<lparr> adoptable := False, destroy_calls := destroy_calls e @ [call], phase := Closing (Some n) \<rparr>)"
| releases: "phase e = Closing (Some n) \<Longrightarrow>
    entry_step b b e (told_if (created e \<and> owner_live e) (en_owner e) (EvDestroyed (en_window e))
        @ map Answered (destroy_calls e))
      (e\<lparr> phase := Destroyed (Some v), adoptable := False, dropped := 0, destroy_calls := [] \<rparr>)"
| loses: "owner_live e \<Longrightarrow> entry_step b b e (map Forgot (entry_calls e)) (lose_entry e)"
| resumes: "\<lbrakk> \<not> owner_live e; phase e = Open n \<rbrakk> \<Longrightarrow>
    entry_step b b e [Told \<lparr> oe_owner = owner, oe_event = EvCreated (en_window e) (nw_state n) None \<rparr>]
      (e\<lparr> en_owner := owner, owner_live := True, adoptable := True \<rparr>)"
| resumes_pending: "\<lbrakk> \<not> owner_live e; phase e = ClosePending n q \<rbrakk> \<Longrightarrow>
    entry_step b b e [Told \<lparr> oe_owner = owner, oe_event = EvCreated (en_window e) (nw_state n) (Some q) \<rparr>]
      (e\<lparr> en_owner := owner, owner_live := True, adoptable := False \<rparr>)"
| repeats: "\<lbrakk> owner_live e; phase e = Open n \<or> phase e = ClosePending n q \<rbrakk> \<Longrightarrow>
    entry_step b b e [Told \<lparr> oe_owner = en_owner e, oe_event = EvCreated (en_window e) (nw_state n) p \<rparr>] e"
| ends: "entry_step b True e (case phase e of Opening call \<Rightarrow> [Forgot call] | _ \<Rightarrow> []) (snd (end_entry e))"

definition entry_inv :: "bool \<Rightarrow> Entry \<Rightarrow> bool" where
  "entry_inv ending e =
     (length (destroy_calls e) \<le> MAX_PENDING_DESTROYS_PER_WINDOW
      \<and> list_all (\<lambda>call. call_owner call = en_owner e) (entry_calls e)
      \<and> (entry_calls e \<noteq> [] \<longrightarrow> owner_live e)
      \<and> (adoptable e \<longrightarrow> owner_live e \<and> is_shown (phase e))
      \<and> (destroy_calls e \<noteq> [] \<longrightarrow> (\<exists>n. phase e = Closing (Some n)))
      \<and> (case phase e of
           Opening call \<Rightarrow> \<not> ending \<and> \<not> created e
         | Open n \<Rightarrow> created e
         | ClosePending n q \<Rightarrow> created e \<and> q = last_close_seq e
         | Closing None \<Rightarrow> \<not> created e \<and> (owner_live e \<longrightarrow> ending)
         | Closing (Some n) \<Rightarrow> True
         | Destroyed None \<Rightarrow> \<not> created e
         | Destroyed (Some v) \<Rightarrow> True))"

lemmas entry_change_defs = entry_inv_def entry_calls_def lose_entry_def end_entry_def Let_def told_if_def

lemma entry_step_inv: "entry_step b b' e obs e' \<Longrightarrow> entry_inv b e \<Longrightarrow> entry_inv b' e'"
  by (induction rule: entry_step.induct)
    (auto simp: entry_change_defs split: Phase.splits option.splits)

lemma entry_step_window: "entry_step b b' e obs e' \<Longrightarrow> en_window e' = en_window e"
  by (induction rule: entry_step.induct) (auto simp: lose_entry_def end_entry_def Let_def split: Phase.split)

lemma entry_step_destroyed:
  "entry_step b b' e obs e' \<Longrightarrow> is_destroyed (phase e) \<Longrightarrow> entry_inv b e \<Longrightarrow> obs = [] \<and> phase e' = phase e"
  by (induction rule: entry_step.induct)
    (auto simp: entry_change_defs split: Phase.splits option.splits)

text \<open>Projections of what a run makes known.\<close>

fun obs_window :: "WindowObs \<Rightarrow> WindowRef option" where
  "obs_window (Told told) = Some (event_window (oe_event told))"
| "obs_window (Verdict w _) = Some w"
| "obs_window _ = None"

fun calls_taken :: "WindowObs list \<Rightarrow> PendingWindowCall list" where
  "calls_taken [] = []"
| "calls_taken (Took call # obs) = call # calls_taken obs"
| "calls_taken (_ # obs) = calls_taken obs"

fun calls_answered :: "WindowObs list \<Rightarrow> PendingWindowCall list" where
  "calls_answered [] = []"
| "calls_answered (Answered call # obs) = call # calls_answered obs"
| "calls_answered (_ # obs) = calls_answered obs"

fun calls_forgotten :: "WindowObs list \<Rightarrow> PendingWindowCall list" where
  "calls_forgotten [] = []"
| "calls_forgotten (Forgot call # obs) = call # calls_forgotten obs"
| "calls_forgotten (_ # obs) = calls_forgotten obs"

fun verdicts_on :: "WindowRef \<Rightarrow> WindowObs list \<Rightarrow> u64 list" where
  "verdicts_on w [] = []"
| "verdicts_on w (Verdict w' q # obs) = (if w' = w then q # verdicts_on w obs else verdicts_on w obs)"
| "verdicts_on w (_ # obs) = verdicts_on w obs"

lemma obs_append [simp]:
  "events_to owner (xs @ ys) = events_to owner xs @ events_to owner ys"
  "calls_taken (xs @ ys) = calls_taken xs @ calls_taken ys"
  "calls_answered (xs @ ys) = calls_answered xs @ calls_answered ys"
  "calls_forgotten (xs @ ys) = calls_forgotten xs @ calls_forgotten ys"
  "verdicts_on w (xs @ ys) = verdicts_on w xs @ verdicts_on w ys"
proof (induction xs)
  case (Cons x xs)
  { case 1 from Cons(1) show ?case by (cases x) simp_all }
  { case 2 from Cons(2) show ?case by (cases x) simp_all }
  { case 3 from Cons(3) show ?case by (cases x) simp_all }
  { case 4 from Cons(4) show ?case by (cases x) simp_all }
  { case 5 from Cons(5) show ?case by (cases x) simp_all }
qed simp_all

lemma obs_map [simp]:
  "events_to owner (map Answered cs) = []" "events_to owner (map Forgot cs) = []"
  "calls_taken (map Answered cs) = []" "calls_taken (map Forgot cs) = []"
  "calls_answered (map Answered cs) = cs" "calls_answered (map Forgot cs) = []"
  "calls_forgotten (map Answered cs) = []" "calls_forgotten (map Forgot cs) = cs"
  "verdicts_on w (map Answered cs) = []" "verdicts_on w (map Forgot cs) = []"
  by (induction cs; simp)+

lemma told_if_simps [simp]:
  "calls_taken (told_if b owner ev) = []" "calls_answered (told_if b owner ev) = []"
  "calls_forgotten (told_if b owner ev) = []" "verdicts_on w (told_if b owner ev) = []"
  "events_to o' (told_if b owner ev) = (if b \<and> owner = o' then [ev] else [])"
  by (simp_all add: told_if_def)

lemma entry_step_obs_window:
  "entry_step b b' e obs e' \<Longrightarrow> obs_window ` set obs \<subseteq> {None, Some (en_window e)}"
  by (induction rule: entry_step.induct)
    (auto simp: told_if_def split: Phase.splits option.splits if_splits)

lemma entry_step_calls:
  "entry_step b b' e obs e' \<Longrightarrow> entry_inv b e \<Longrightarrow>
   mset (entry_calls e) + mset (calls_taken obs)
     = mset (calls_answered obs) + mset (calls_forgotten obs) + mset (entry_calls e')"
  by (induction rule: entry_step.induct)
    (auto simp: entry_change_defs split: Phase.splits option.splits)

definition verdicts_ok :: "Entry \<Rightarrow> u64 list \<Rightarrow> bool" where
  "verdicts_ok e qs =
     (distinct qs \<and> list_all (\<lambda>q. unat q \<le> unat (last_close_seq e)) qs
      \<and> (case phase e of ClosePending _ p \<Rightarrow> list_all (\<lambda>q. unat q < unat p) qs | _ \<Rightarrow> True))"

lemma list_all_less_distinct: "list_all (\<lambda>q. unat q < unat p) qs \<Longrightarrow> p \<notin> set qs"
  by (auto simp: list_all_iff)

lemma entry_step_verdicts:
  "entry_step b b' e obs e' \<Longrightarrow> entry_inv b e \<Longrightarrow> verdicts_ok e qs \<Longrightarrow>
   verdicts_ok e' (qs @ verdicts_on (en_window e) obs)"
proof (induction rule: entry_step.induct)
  case (asks e n q a b)
  then have "unat q = unat (last_close_seq e) + 1"
    by (auto simp: checked_add_def unat_word_ariths split: if_splits)
  with asks show ?case by (auto simp: verdicts_ok_def list_all_iff split: Phase.splits)
next
  case (vetoes e n q b)
  then show ?case by (auto simp: verdicts_ok_def entry_inv_def dest: list_all_less_distinct)
next
  case (allows e n q b)
  then show ?case by (auto simp: verdicts_ok_def entry_inv_def dest: list_all_less_distinct)
next
  case (loses e b)
  then show ?case by (auto simp: verdicts_ok_def lose_entry_def Let_def split: Phase.splits)
next
  case (ends b e)
  then show ?case by (auto simp: verdicts_ok_def end_entry_def Let_def split: Phase.splits)
qed (auto simp: verdicts_ok_def split: Phase.splits option.splits)

text \<open>The mirror of one window at one owner, against the entry.\<close>

definition mirror_ok :: "WindowOwner \<Rightarrow> Entry \<Rightarrow> WindowState option \<Rightarrow> bool" where
  "mirror_ok owner e m =
     ((created e \<or> m = None)
      \<and> (owner_live e \<and> en_owner e = owner \<longrightarrow>
          (case phase e of
             Open n \<Rightarrow> m = Some (nw_state n)
           | ClosePending n _ \<Rightarrow> m = Some (nw_state n)
           | Destroyed _ \<Rightarrow> m = None
           | _ \<Rightarrow> True)))"

lemma entry_step_mirror:
  "entry_step b b' e obs e' \<Longrightarrow> entry_inv b e \<Longrightarrow> mirror_ok owner e m \<Longrightarrow>
   mirror_ok owner e' (fold mirror_state (events_to owner obs) m)"
proof (induction rule: entry_step.induct)
  case (loses e b)
  then show ?case by (auto simp: mirror_ok_def lose_entry_def Let_def split: Phase.splits)
next
  case (ends b e)
  then show ?case by (auto simp: mirror_ok_def end_entry_def Let_def split: Phase.splits)
qed (auto simp: mirror_ok_def entry_inv_def entry_calls_def split: Phase.splits option.splits)

section \<open>What an operation does to the registry\<close>

definition window_inv :: "WindowRegistry \<Rightarrow> bool" where
  "window_inv r =
     (entries_sorted (entries r) \<and> length (entries r) = unat (last_id r)
      \<and> length (entries r) \<le> PROPOSED_MAX_CUMULATIVE_WINDOW_IDS
      \<and> unat (last_incarnation r) = unat (last_id r) \<and> \<not> (reg_ending r \<and> reg_ready r)
      \<and> (\<forall>k e. map_of (entries r) k = Some e \<longrightarrow>
           ref_id (en_window e) = k \<and> unat (ref_incarnation (en_window e)) = unat k
           \<and> 0 < unat k \<and> unat k \<le> unat (last_id r) \<and> entry_inv (reg_ending r) e))"

definition same_frame :: "WindowRegistry \<Rightarrow> WindowRegistry \<Rightarrow> bool" where
  "same_frame r r' =
     (last_id r' = last_id r \<and> last_incarnation r' = last_incarnation r
      \<and> (reg_ending r' = reg_ending r \<and> (reg_ready r' \<longrightarrow> reg_ready r \<or> \<not> reg_ending r)
         \<or> reg_ending r' \<and> \<not> reg_ready r'))"

inductive reg_step :: "WindowRegistry \<Rightarrow> WindowObs list \<Rightarrow> WindowRegistry \<Rightarrow> bool" where
  reg_one: "\<lbrakk> map_of (entries r) k = Some e; entry_step (reg_ending r) (reg_ending r) e obs e';
      entries r' = btree_insert k e' (entries r); same_frame r r'; reg_ending r' = reg_ending r \<rbrakk>
    \<Longrightarrow> reg_step r obs r'"
| reg_all: "\<lbrakk> \<And>e. entry_step (reg_ending r) (reg_ending r') e (g e) (f e);
      entries r' = map_entries f (entries r); same_frame r r' \<rbrakk>
    \<Longrightarrow> reg_step r (concat (map g (entry_values (entries r)))) r'"
| reg_mint: "\<lbrakk> \<not> reg_ending r; length (entries r) < PROPOSED_MAX_CUMULATIVE_WINDOW_IDS;
      unat (last_id r + 1) = unat (last_id r) + 1; unat (last_incarnation r + 1) = unat (last_incarnation r) + 1;
      r' = put_entry (last_id r + 1)
        \<lparr> en_window = \<lparr> ref_id = last_id r + 1, ref_incarnation = last_incarnation r + 1 \<rparr>,
          en_owner = call_owner call, owner_live = True, adoptable = False, created = False, dropped = 0,
          last_close_seq = 0, destroy_calls = [], phase = Opening call \<rparr>
        (r\<lparr> last_id := last_id r + 1, last_incarnation := last_incarnation r + 1 \<rparr>) \<rbrakk>
    \<Longrightarrow> reg_step r [Took call] r'"

lemma reg_same:
  assumes "entries r' = entries r" "same_frame r r'" "reg_ending r' = reg_ending r"
  shows "reg_step r [] r'"
proof -
  have "map_entries (\<lambda>e. e) (entries r) = entries r" by (simp add: map_entries_def)
  with assms reg_all [of r r' "\<lambda>_. []" "\<lambda>e. e"] stay show ?thesis
    by (simp add: concat_eq_Nil_conv [THEN iffD2])
qed

lemma same_frame_refl [simp]: "same_frame r r"
  by (auto simp: same_frame_def)

lemma same_frame_put [simp]: "same_frame r (put_entry k e r)" "same_frame r (put_entry k e r\<lparr> deferred_last_window := b \<rparr>)"
  by (auto simp: same_frame_def)

lemma reg_put:
  "map_of (entries r) k = Some e \<Longrightarrow> entry_step (reg_ending r) (reg_ending r) e obs e' \<Longrightarrow>
   reg_step r obs (put_entry k e' r)"
  by (rule reg_one) auto

lemma reg_put_deferred:
  "map_of (entries r) k = Some e \<Longrightarrow> entry_step (reg_ending r) (reg_ending r) e obs e' \<Longrightarrow>
   reg_step r obs (put_entry k e' r\<lparr> deferred_last_window := b \<rparr>)"
  by (rule reg_one) auto

lemma reg_stay [simp, intro]: "reg_step r [] r"
  by (rule reg_same) auto

lemma admitted_entry_Inr:
  assumes "admitted_entry owner window r = Inr (k, e, r1)"
  obtains e0 where "map_of (entries r) (ref_id window) = Some e0" "k = ref_id window" "e = e0\<lparr> adoptable := False \<rparr>"
    "r1 = put_entry k e r" "en_window e0 = window" "\<not> is_destroyed (phase e0)" "owner_live e0" "en_owner e0 = owner"
    "reg_ready r" "\<not> reg_ending r"
  using assms by (auto simp: admitted_entry_def require_ready_def Let_def split: option.splits if_splits)

lemma checked_add_one:
  "checked_add (n :: 'a::len word) 1 = Some m \<Longrightarrow> m = n + 1 \<and> unat (n + 1) = unat n + 1"
  by (auto simp: checked_add_def unat_word_ariths split: if_splits)

lemma call_eta [simp]:
  "\<lparr> call_owner = call_owner call, call_correlation = call_correlation call \<rparr> = (call :: PendingWindowCall)"
  by (cases call) simp

lemma window_inv_entry:
  assumes "window_inv r" "map_of (entries r) k = Some e"
  shows "entry_inv (reg_ending r) e" "ref_id (en_window e) = k" "unat (ref_incarnation (en_window e)) = unat k"
    "0 < unat k" "unat k \<le> unat (last_id r)"
  using assms by (auto simp: window_inv_def)

lemma window_inv_find:
  "window_inv r \<Longrightarrow> find_entry P (entries r) = Some (k, e) \<Longrightarrow> map_of (entries r) k = Some e \<and> P e"
  by (rule find_entry_Some) (auto simp: window_inv_def)

lemma reg_mint_checked:
  assumes "\<not> reg_ending r" "\<not> PROPOSED_MAX_CUMULATIVE_WINDOW_IDS \<le> length (entries r)"
    and "checked_add (last_id r) 1 = Some i" "checked_add (last_incarnation r) 1 = Some j"
  shows "reg_step r [Took \<lparr> call_owner = owner, call_correlation = corr \<rparr>]
    (put_entry i
      \<lparr> en_window = \<lparr> ref_id = i, ref_incarnation = j \<rparr>, en_owner = owner, owner_live = True, adoptable = False,
        created = False, dropped = 0, last_close_seq = 0, destroy_calls = [],
        phase = Opening \<lparr> call_owner = owner, call_correlation = corr \<rparr> \<rparr>
      (r\<lparr> last_id := i, last_incarnation := j \<rparr>))"
  using assms(1,2) checked_add_one [OF assms(3)] checked_add_one [OF assms(4)] by (intro reg_mint) auto

lemma create_step: "window_inv r \<Longrightarrow> reg_step r (window_obs (WCreate owner corr w h x y) r) (window_step (WCreate owner corr w h x y) r)"
proof -
  assume inv: "window_inv r"
  let ?P = "\<lambda>e. owner_live e \<and> en_owner e = owner \<and> adoptable e \<and> is_shown (phase e)"
  show ?thesis
  proof (cases "reg_ready r \<and> \<not> reg_ending r")
    case ready: True
    show ?thesis
    proof (cases "find_entry ?P (entries r)")
      case None
      with ready show ?thesis
        by (auto simp: create_def require_ready_def Let_def split: option.split intro: reg_mint_checked)
    next
      case (Some ke)
      obtain k e where "ke = (k, e)" by (cases ke)
      with Some ready window_inv_find [OF inv, of ?P k e] show ?thesis
        by (auto simp: create_def require_ready_def intro: reg_put unmark)
    qed
  qed (auto simp: create_def require_ready_def)
qed

lemma native_built_step: "window_inv r \<Longrightarrow> reg_step r (window_obs (WBuilt build view s) r) (window_step (WBuilt build view s) r)"
proof (cases "find_entry (\<lambda>e. ref_incarnation (en_window e) = build) (entries r)")
  case (Some ke)
  obtain k e where ke: "ke = (k, e)" by (cases ke)
  assume "window_inv r"
  with Some ke window_inv_find have e: "map_of (entries r) k = Some e" by blast
  let ?n = "\<lparr> nw_view = view, nw_state = s \<rparr>"
  from reg_put_deferred [OF e built [where n = ?n]] reg_put [OF e cleanup [where n = ?n]] Some ke show ?thesis
    by (auto simp: native_built_def reply_call_def Let_def split: Phase.split option.split)
qed (simp add: native_built_def)

lemma native_failed_step: "window_inv r \<Longrightarrow> reg_step r (window_obs (WFailed build) r) (window_step (WFailed build) r)"
proof (cases "find_entry (\<lambda>e. ref_incarnation (en_window e) = build) (entries r)")
  case (Some ke)
  obtain k e where ke: "ke = (k, e)" by (cases ke)
  assume inv: "window_inv r"
  with Some ke window_inv_find have e: "map_of (entries r) k = Some e" by blast
  have live: "owner_live e \<and> \<not> reg_ending r" if "phase e = Opening call" for call
    using window_inv_entry(1) [OF inv e] that by (auto simp: entry_inv_def entry_calls_def)
  from reg_put_deferred [OF e failed] reg_put_deferred [OF e failed_late] reg_put [OF e failed] reg_put [OF e failed_late]
    Some ke live show ?thesis
    by (auto simp: native_failed_def Let_def split: Phase.split option.split)
qed (simp add: native_failed_def)

lemma setter_step:
  "reg_step r [] (snd (admitted_view owner window r))"
proof (cases "admitted_entry owner window r")
  case (Inr p)
  obtain k e r1 where p: "p = (k, e, r1)" by (cases p)
  with Inr obtain e0 where "map_of (entries r) k = Some e0" "e = e0\<lparr> adoptable := False \<rparr>" "r1 = put_entry k e r"
    by (auto elim: admitted_entry_Inr)
  with Inr p show ?thesis by (auto simp: admitted_view_def split: Phase.split intro: reg_put unmark)
qed (auto simp: admitted_view_def)

definition update_ok :: "(WindowRef \<Rightarrow> WindowState \<Rightarrow> WindowEvent option \<times> WindowState) \<Rightarrow> bool" where
  "update_ok upd =
     (\<forall>w s. case upd w s of (None, s') \<Rightarrow> s' = s
        | (Some ev, s') \<Rightarrow> event_window ev = w \<and> mirror_state ev (Some s) = Some s')"

lemma updates_ok:
  "update_ok (update_bounds bounds)" "update_ok (update_focus b)"
  "update_ok (update_maximized b)" "update_ok (update_full_screen b)"
  by (simp_all add: update_ok_def update_bounds_def update_focus_def update_maximized_def update_full_screen_def)

lemma native_fact_step:
  assumes "window_inv r" "update_ok upd"
  shows "reg_step r (told_fact (fst (native_fact view upd r))) (snd (native_fact view upd r))"
proof (cases "find_entry (\<lambda>e. entry_view e = Some view) (entries r)")
  case (Some ke)
  obtain k e where ke: "ke = (k, e)" by (cases ke)
  with Some window_inv_find [OF assms(1)] have e: "map_of (entries r) k = Some e" by blast
  have upd: "case fst (upd (en_window e) s) of None \<Rightarrow> snd (upd (en_window e) s) = s
      | Some ev \<Rightarrow> event_window ev = en_window e \<and> mirror_state ev (Some s) = Some (snd (upd (en_window e) s))" for s
    using assms(2) unfolding update_ok_def
    by (metis (mono_tags, lifting) case_prod_conv option.case_eq_if prod.collapse)
  note opens = reg_put [OF e fact_open [OF _ upd]] and pends = reg_put [OF e fact_pending [OF _ upd]]
    and drop = reg_put [OF e drops]
  show ?thesis
  proof (cases "phase e")
    case (Open n)
    from opens [OF Open] Open Some ke show ?thesis
      by (cases "upd (en_window e) (nw_state n)")
        (auto simp: native_fact_def told_if_def split: option.splits)
  next
    case (ClosePending n q)
    from pends [OF ClosePending] ClosePending Some ke show ?thesis
      by (cases "upd (en_window e) (nw_state n)")
        (auto simp: native_fact_def told_if_def split: option.splits)
  next
    case (Closing n)
    with drop Some ke show ?thesis by (auto simp: native_fact_def)
  next
    case (Destroyed v)
    with Some ke show ?thesis by (auto simp: native_fact_def same_frame_def intro!: reg_same)
  qed (use Some ke in \<open>auto simp: native_fact_def\<close>)
qed (simp add: native_fact_def)

lemma begin_close_step:
  assumes "map_of (entries r) k = Some e" "a \<longrightarrow> adoptable e"
    and "begin_close (e\<lparr> adoptable := a \<rparr>) = (outcome, e')"
  shows "reg_step r (told_close outcome) (put_entry k e' r)"
proof -
  have "e\<lparr> adoptable := a \<rparr> = (if a then e else e\<lparr> adoptable := False \<rparr>)"
    using assms(2) by (cases e) auto
  then have same: "reg_step r [] (put_entry k (e\<lparr> adoptable := a \<rparr>) r)"
    using reg_put [OF assms(1) stay] reg_put [OF assms(1) unmark] by simp
  show ?thesis
  proof (cases "\<exists>n q. phase e = Open n \<and> checked_add (last_close_seq e) 1 = Some q")
    case True
    then obtain n q where n: "phase e = Open n" "checked_add (last_close_seq e) 1 = Some q" by blast
    from reg_put [OF assms(1) asks [OF n assms(2)]] n assms(3) show ?thesis
      by (auto simp: begin_close_def told_if_def split: if_splits)
  next
    case False
    then have "e' = e\<lparr> adoptable := a \<rparr> \<and> told_close outcome = []"
      using assms(3) by (cases "phase e") (auto simp: begin_close_def split: option.splits)
    with same show ?thesis by simp
  qed
qed

lemma native_close_step:
  assumes "window_inv r"
  shows "reg_step r (window_obs (WNativeClose view) r) (window_step (WNativeClose view) r)"
proof (cases "find_entry (\<lambda>e. entry_view e = Some view) (entries r)")
  case (Some ke)
  obtain k e where ke: "ke = (k, e)" by (cases ke)
  with Some window_inv_find [OF assms] have e: "map_of (entries r) k = Some e" by blast
  obtain outcome e' where "begin_close e = (outcome, e')" by fastforce
  with begin_close_step [OF e, of "adoptable e" outcome e'] Some ke show ?thesis by (simp add: native_close_def)
qed (simp add: native_close_def)

lemma request_close_step:
  "reg_step r (window_obs (WRequestClose owner window) r) (window_step (WRequestClose owner window) r)"
proof (cases "admitted_entry owner window r")
  case (Inr p)
  obtain k e r1 where p: "p = (k, e, r1)" by (cases p)
  with Inr obtain e0 where e: "map_of (entries r) k = Some e0" "e = e0\<lparr> adoptable := False \<rparr>" "r1 = put_entry k e r"
    by (auto elim: admitted_entry_Inr)
  obtain outcome e' where close: "begin_close e = (outcome, e')" by fastforce
  with e begin_close_step [OF e(1), of False outcome e'] reg_put [OF e(1) unmark] Inr p show ?thesis
    by (cases outcome) (auto simp: request_close_def)
qed (auto simp: request_close_def)

lemma close_reply_step:
  "reg_step r (window_obs (WCloseReply owner window q verdict) r) (window_step (WCloseReply owner window q verdict) r)"
proof (cases "admitted_entry owner window r")
  case (Inr p)
  obtain k e r1 where p: "p = (k, e, r1)" by (cases p)
  with Inr obtain e0 where e: "map_of (entries r) k = Some e0" "e = e0\<lparr> adoptable := False \<rparr>" "r1 = put_entry k e r"
      "en_window e0 = window"
    by (auto elim: admitted_entry_Inr)
  from reg_put [OF e(1) unmark] reg_put [OF e(1) vetoes] reg_put [OF e(1) allows] e Inr p show ?thesis
    by (cases "phase e"; cases verdict) (auto simp: close_reply_def)
qed (auto simp: close_reply_def)

lemma destroy_step:
  assumes "window_inv r"
  shows "reg_step r (window_obs (WDestroy owner window corr) r) (window_step (WDestroy owner window corr) r)"
proof (cases "admitted_entry owner window r")
  case (Inr p)
  obtain k e r1 where p: "p = (k, e, r1)" by (cases p)
  with Inr obtain e0 where e: "map_of (entries r) k = Some e0" "e = e0\<lparr> adoptable := False \<rparr>" "r1 = put_entry k e r"
      "owner_live e0" "en_owner e0 = owner" "\<not> reg_ending r"
    by (auto elim: admitted_entry_Inr)
  have some: "\<exists>n. c = Some n" if "phase e0 = Closing c" for c
    using window_inv_entry(1) [OF assms e(1)] that e(4,6) by (cases c) (auto simp: entry_inv_def)
  let ?call = "\<lparr> call_owner = owner, call_correlation = corr \<rparr>"
  note destroy = reg_put [OF e(1) destroys [where call = ?call]] reg_put [OF e(1) destroys_again [where call = ?call]]
  show ?thesis
  proof (cases "length (destroy_calls e0) < MAX_PENDING_DESTROYS_PER_WINDOW")
    case True
    with destroy reg_put [OF e(1) unmark] e Inr p some show ?thesis
      by (cases "phase e0") (auto simp: destroy_def Let_def)
  next
    case False
    with reg_put [OF e(1) unmark] e Inr p show ?thesis by (auto simp: destroy_def)
  qed
qed (auto simp: destroy_def)

lemma native_released_step:
  assumes "window_inv r"
  shows "reg_step r (window_obs (WReleased view) r) (window_step (WReleased view) r)"
proof (cases "find_entry (\<lambda>e. entry_view e = Some view) (entries r)")
  case (Some ke)
  obtain k e where ke: "ke = (k, e)" by (cases ke)
  with Some window_inv_find [OF assms] have e: "map_of (entries r) k = Some e" by blast
  show ?thesis
  proof (cases "\<exists>n. phase e = Closing (Some n)")
    case True
    then obtain n where n: "phase e = Closing (Some n)" by blast
    from reg_put [OF e releases [OF n, of _ view]] reg_put_deferred [OF e releases [OF n, of _ view]] Some ke n
    show ?thesis by (auto simp: native_released_def Let_def told_if_def)
  next
    case False
    with Some ke show ?thesis by (auto simp: native_released_def Let_def split: Phase.split option.split)
  qed
qed (simp add: native_released_def)

lemma role_lost_step: "reg_step r (window_obs (WRoleLost owner) r) (window_step (WRoleLost owner) r)"
proof -
  let ?lost = "\<lambda>e. en_owner e = owner \<and> owner_live e"
  let ?g = "\<lambda>e. if ?lost e then map Forgot (entry_calls e) else []"
  have "reg_step r (concat (map ?g (entry_values (entries r)))) (snd (role_lost owner r))"
    by (rule reg_all [where f = "\<lambda>e. if ?lost e then lose_entry e else e"])
      (auto simp: role_lost_def Let_def same_frame_def intro: loses stay)
  then show ?thesis by simp
qed

lemma map_filter_concat: "List.map_filter f xs = concat (map (\<lambda>x. case f x of None \<Rightarrow> [] | Some y \<Rightarrow> [y]) xs)"
  by (induction xs) (auto simp: List.map_filter_simps split: option.split)

lemma subscribe_step: "reg_step r (window_obs (WSubscribe owner) r) (window_step (WSubscribe owner) r)"
proof -
  let ?f = "\<lambda>e. if \<not> owner_live e \<and> is_shown (phase e)
    then e\<lparr> en_owner := owner, owner_live := True, adoptable := is_open (phase e) \<rparr> else e"
  let ?g = "\<lambda>e. case replay_entry owner (?f e) of None \<Rightarrow> [] | Some ev \<Rightarrow> [Told \<lparr> oe_owner = owner, oe_event = ev \<rparr>]"
  have "entry_step b b e (?g e) (?f e)" for b e
  proof (cases "owner_live e")
    case True
    then show ?thesis
      by (cases "phase e") (auto simp: replay_entry_def intro: stay repeats [where n = n for n])
  next
    case False
    then show ?thesis
      using resumes [OF False, of _ b owner] resumes_pending [OF False, of _ _ b owner]
      by (cases "phase e") (auto simp: replay_entry_def intro: stay)
  qed
  then have "reg_step r (concat (map ?g (entry_values (entries r)))) (subscribe_successor owner r)"
    by (intro reg_all) (auto simp: subscribe_successor_def same_frame_def)
  moreover have "window_obs (WSubscribe owner) r = concat (map ?g (entry_values (entries r)))"
    by (simp add: replay_def subscribe_successor_def map_filter_concat map_concat comp_def)
      (intro arg_cong [where f = concat] map_cong refl, auto split: option.split)
  ultimately show ?thesis by simp
qed

lemma concat_map_concat:
  "concat (map h (concat (map f xs))) = concat (map (\<lambda>x. concat (map h (f x))) xs)"
  by (induction xs) simp_all

lemma session_end_step: "reg_step r (window_obs WSessionEnd r) (window_step WSessionEnd r)"
proof -
  let ?g = "\<lambda>e. case phase e of Opening call \<Rightarrow> [Forgot call] | _ \<Rightarrow> []"
  have forgot: "concat (map (\<lambda>eff. case eff of CreateInterrupted call \<Rightarrow> [Forgot call] | _ \<Rightarrow> []) (fst (end_entry e))) = ?g e"
    for e by (auto simp: end_entry_def Let_def split: Phase.split)
  have "reg_step r (concat (map ?g (entry_values (entries r)))) (snd (session_end r))"
    by (rule reg_all [where f = "\<lambda>e. snd (end_entry e)"]) (auto simp: session_end_def same_frame_def intro: ends)
  moreover have "window_obs WSessionEnd r = concat (map ?g (entry_values (entries r)))"
    by (simp add: session_end_def concat_map_concat forgot)
  ultimately show ?thesis by simp
qed

lemma window_reg_step:
  assumes "window_inv r"
  shows "reg_step r (window_obs op r) (window_step op r)"
proof (cases op)
  case WReady
  then show ?thesis by (auto simp: mark_ready_def same_frame_def intro: reg_same)
next
  case (WSetMaximized owner window b)
  with setter_step [of r owner window] show ?thesis by (auto simp: set_maximized_def split: prod.splits sum.splits)
next
  case (WSetFullScreen owner window b)
  with setter_step [of r owner window] show ?thesis by (auto simp: set_full_screen_def split: prod.splits sum.splits)
next
  case WTakeDrops
  then show ?thesis by (auto simp: take_destroyed_fact_drops_def same_frame_def intro: reg_same)
qed (use assms create_step native_built_step native_failed_step native_fact_step updates_ok native_close_step
    request_close_step close_reply_step destroy_step native_released_step role_lost_step subscribe_step session_end_step
    in \<open>auto simp: native_bounds_def native_focus_def native_maximized_def native_full_screen_def
      simp del: window_obs.simps(1-3) window_obs.simps(8-15) window_step.simps(2-4) window_step.simps(11-17) window_step.simps(19)\<close>)

end
