(* ===== verification/Window_History.thy ===== *)
theory Window_History
  imports Window_Registry
begin

text \<open>
  The window registry over whole runs: its invariant as a \<open>state_machine\<close>, and what holds of the
  facts told, the verdicts applied and the calls taken and answered along any sequence of
  operations.
\<close>

section \<open>The invariant\<close>

lemma btree_insert_length:
  "entries_sorted es \<Longrightarrow> map_of es k = Some e \<Longrightarrow> length (btree_insert k e' es) = length es"
  by (elim btree_insert_split) auto

lemma fresh_key: "window_inv r \<Longrightarrow> unat (last_id r) < unat k \<Longrightarrow> map_of (entries r) k = None"
  by (rule ccontr) (auto dest: window_inv_entry(5))

lemma mint_entries:
  assumes "window_inv r" "unat k = unat (last_id r) + 1"
  shows "btree_insert k e (entries r) = entries r @ [(k, e)]"
proof (rule btree_insert_last)
  fix k' assume "k' \<in> fst ` set (entries r)"
  then obtain e' where "map_of (entries r) k' = Some e'"
    using assms(1) entries_sorted_distinct [of "entries r"] by (auto simp: window_inv_def)
  from window_inv_entry(5) [OF assms(1) this] assms(2) show "k' < k" by (simp add: word_less_nat_alt)
qed

lemma same_frame_ready: "same_frame r r' \<Longrightarrow> \<not> (reg_ending r \<and> reg_ready r) \<Longrightarrow> \<not> (reg_ending r' \<and> reg_ready r')"
  by (auto simp: same_frame_def)

lemma reg_step_inv: "reg_step r obs r' \<Longrightarrow> window_inv r \<Longrightarrow> window_inv r'"
proof (induction rule: reg_step.induct)
  case (reg_one r k e obs e' r')
  note e = window_inv_entry [OF reg_one.prems reg_one.hyps(1)]
  have "entry_inv (reg_ending r) e'" using entry_step_inv [OF reg_one.hyps(2) e(1)] .
  moreover have "en_window e' = en_window e" by (rule entry_step_window [OF reg_one.hyps(2)])
  ultimately show ?case using reg_one same_frame_ready [OF reg_one.hyps(4)] e
    by (auto simp: window_inv_def same_frame_def btree_insert_sorted btree_insert_length map_of_btree_insert)
next
  case (reg_all r r' g f)
  have "entry_inv (reg_ending r') (f e) \<and> en_window (f e) = en_window e" if "entry_inv (reg_ending r) e" for e
    using entry_step_inv [OF reg_all.hyps(1) that] entry_step_window [OF reg_all.hyps(1)] by blast
  with reg_all same_frame_ready [OF reg_all.hyps(3)] show ?case
    by (auto simp: window_inv_def same_frame_def)
next
  case (reg_mint r r' call)
  let ?k = "last_id r + 1"
  let ?e = "\<lparr> en_window = \<lparr> ref_id = ?k, ref_incarnation = last_incarnation r + 1 \<rparr>,
      en_owner = call_owner call, owner_live = True, adoptable = False, created = False, dropped = 0,
      last_close_seq = 0, destroy_calls = [], phase = Opening call \<rparr>"
  have sorted: "entries_sorted (entries r)" using reg_mint.prems by (simp add: window_inv_def)
  have "length (btree_insert ?k ?e (entries r)) = Suc (unat (last_id r))"
    using mint_entries [OF reg_mint.prems reg_mint.hyps(3), of ?e] reg_mint.prems by (simp add: window_inv_def)
  moreover have "entry_inv False ?e" by (simp add: entry_inv_def entry_calls_def)
  ultimately show ?case
    using reg_mint btree_insert_sorted [OF sorted] map_of_btree_insert [OF sorted]
    by (auto simp: window_inv_def intro: le_SucI)
qed

lemma window_step_inv: "window_inv r \<Longrightarrow> window_inv (window_step op r)"
  by (rule reg_step_inv [OF window_reg_step])

interpretation windows: state_machine window_step window_inv
  by unfold_locales (rule window_step_inv)

lemma new_window_registry_inv: "window_inv new_window_registry"
  by (simp add: window_inv_def new_window_registry_def)

lemma run_window_inv: "window_inv (fold window_step ops new_window_registry)"
  by (rule windows.run_inv [OF new_window_registry_inv])

section \<open>Logs of a run\<close>

fun window_log :: "WindowOp list \<Rightarrow> WindowRegistry \<Rightarrow> WindowObs list" where
  "window_log [] r = []"
| "window_log (op # ops) r = window_obs op r @ window_log ops (window_step op r)"

definition pending_calls :: "WindowRegistry \<Rightarrow> PendingWindowCall list" where
  "pending_calls r = concat (map entry_calls (entry_values (entries r)))"

lemma has_pending_call_iff:
  "has_pending_call owner corr r \<longleftrightarrow> \<lparr> call_owner = owner, call_correlation = corr \<rparr> \<in> set (pending_calls r)"
  (is "_ \<longleftrightarrow> ?call \<in> _")
proof -
  have "call_owner c = owner \<and> call_correlation c = corr \<longleftrightarrow> c = ?call" for c :: PendingWindowCall
    by (cases c) simp
  then have "(case phase e of Opening call \<Rightarrow> call_owner call = owner \<and> call_correlation call = corr | _ \<Rightarrow> False)
      \<or> (\<exists>call\<in>set (destroy_calls e). call_owner call = owner \<and> call_correlation call = corr)
      \<longleftrightarrow> ?call \<in> set (entry_calls e)" for e
    by (cases "phase e") (auto simp: entry_calls_def)
  then show ?thesis by (simp add: has_pending_call_def pending_calls_def Let_def list_ex_iff)
qed

lemma entry_values_split:
  assumes "entries_sorted es" "map_of es k = Some e"
  obtains xs ys where "entry_values es = xs @ e # ys" "\<And>e'. entry_values (btree_insert k e' es) = xs @ e' # ys"
  using btree_insert_split [OF assms]
  by (metis (no_types, lifting) entry_values_def list.simps(9) map_append snd_conv)

lemma concat_calls:
  assumes "\<And>e. e \<in> set es \<Longrightarrow> mset (entry_calls e) + mset (calls_taken (g e))
      = mset (calls_answered (g e)) + mset (calls_forgotten (g e)) + mset (entry_calls (f e))"
  shows "mset (concat (map entry_calls es)) + mset (calls_taken (concat (map g es)))
    = mset (calls_answered (concat (map g es))) + mset (calls_forgotten (concat (map g es)))
      + mset (concat (map (\<lambda>e. entry_calls (f e)) es))"
  using assms
proof (induction es)
  case (Cons e es)
  from Cons.prems [of e] Cons.IH Cons.prems show ?case by (simp add: ac_simps)
qed simp

lemma reg_step_calls:
  "reg_step r obs r' \<Longrightarrow> window_inv r \<Longrightarrow>
   mset (pending_calls r) + mset (calls_taken obs)
     = mset (calls_answered obs) + mset (calls_forgotten obs) + mset (pending_calls r')"
proof (induction rule: reg_step.induct)
  case (reg_one r k e obs e' r')
  have sorted: "entries_sorted (entries r)" using reg_one.prems by (simp add: window_inv_def)
  obtain xs ys where "entry_values (entries r) = xs @ e # ys"
      "entry_values (btree_insert k e' (entries r)) = xs @ e' # ys"
    using entry_values_split [OF sorted reg_one.hyps(1)] by metis
  with entry_step_calls [OF reg_one.hyps(2) window_inv_entry(1) [OF reg_one.prems reg_one.hyps(1)]] reg_one.hyps(3)
  show ?case by (simp add: pending_calls_def ac_simps)
next
  case (reg_all r r' g f)
  have "entry_inv (reg_ending r) e" if "e \<in> set (entry_values (entries r))" for e
    using that reg_all.prems window_inv_entry(1) [OF reg_all.prems] entry_values_iff [of "entries r" e]
    by (auto simp: window_inv_def)
  with concat_calls [of "entry_values (entries r)" g f] entry_step_calls [OF reg_all.hyps(1)] reg_all.hyps(2)
  show ?case by (simp add: pending_calls_def comp_def)
next
  case (reg_mint r r' call)
  from mint_entries [OF reg_mint.prems reg_mint.hyps(3)] reg_mint.hyps(5) show ?case
    by (simp add: pending_calls_def entry_values_def entry_calls_def)
qed

lemma calls_trans:
  fixes p :: "'a multiset"
  assumes "p + t1 = a1 + f1 + p1" "p1 + t2 = a2 + f2 + p2"
  shows "p + (t1 + t2) = (a1 + a2) + (f1 + f2) + p2"
proof -
  have "p + (t1 + t2) = (p + t1) + t2" by (simp only: add.assoc)
  also have "\<dots> = a1 + f1 + (p1 + t2)" by (simp only: assms(1) add.assoc)
  also have "\<dots> = a1 + f1 + (a2 + f2 + p2)" by (simp only: assms(2))
  finally show ?thesis by (simp add: ac_simps)
qed

lemma run_calls:
  "window_inv r \<Longrightarrow>
   mset (pending_calls r) + mset (calls_taken (window_log ops r))
     = mset (calls_answered (window_log ops r)) + mset (calls_forgotten (window_log ops r))
       + mset (pending_calls (fold window_step ops r))"
proof (induction ops arbitrary: r)
  case (Cons op ops)
  from reg_step_calls [OF window_reg_step [OF Cons.prems] Cons.prems, of op] Cons.IH [OF window_step_inv [OF Cons.prems], of op]
  show ?case by (simp add: calls_trans)
qed simp

section \<open>One window along a run\<close>

abbreviation about :: "WindowRef \<Rightarrow> WindowObs list \<Rightarrow> WindowObs list" where
  "about w obs \<equiv> filter (\<lambda>ob. obs_window ob = Some w) obs"

lemma entry_step_about: "entry_step b b' e obs e' \<Longrightarrow> en_window e \<noteq> w \<Longrightarrow> about w obs = []"
  using entry_step_obs_window [of b b' e obs e'] by (auto simp: filter_empty_conv)

lemma about_concat: "about w (concat obss) = concat (map (about w) obss)"
  by (simp add: filter_concat)

lemma other_windows:
  assumes "window_inv r" "entries r = xs @ (k, e) # ys" "e' \<in> snd ` set (xs @ ys)"
  shows "en_window e' \<noteq> en_window e"
proof -
  from assms(3) obtain k' where k': "(k', e') \<in> set (xs @ ys)" by force
  have distinct: "distinct (map fst (entries r))" using assms(1) by (simp add: window_inv_def entries_sorted_distinct)
  with assms(2) have "k \<notin> fst ` set (xs @ ys)" by auto
  moreover from k' have "k' \<in> fst ` set (xs @ ys)" by (metis fst_conv image_eqI)
  ultimately have "k' \<noteq> k" by blast
  moreover from k' assms(2) have "(k', e') \<in> set (entries r)" "(k, e) \<in> set (entries r)" by auto
  then have "map_of (entries r) k' = Some e'" "map_of (entries r) k = Some e"
    using distinct by (simp_all add: map_of_is_SomeI)
  then have "ref_id (en_window e') = k'" "ref_id (en_window e) = k" using window_inv_entry(2) [OF assms(1)] by blast+
  ultimately show ?thesis by auto
qed

lemma reg_step_entry:
  assumes "reg_step r obs r'" "window_inv r" "map_of (entries r') k = Some e'"
  obtains (old) e oe where "map_of (entries r) k = Some e" "entry_step (reg_ending r) (reg_ending r') e oe e'"
      "about (en_window e) obs = about (en_window e) oe"
  | (new) call where "map_of (entries r) k = None" "obs = [Took call]" "phase e' = Opening call" "\<not> created e'"
      "en_window e' = \<lparr> ref_id = last_id r + 1, ref_incarnation = last_incarnation r + 1 \<rparr>"
  using assms(1)
proof cases
  case (reg_one j e0 f)
  have sorted: "entries_sorted (entries r)" using assms(2) by (simp add: window_inv_def)
  show ?thesis
  proof (cases "j = k")
    case True
    with reg_one assms(3) show ?thesis
      by (intro old [of e0 obs]) (auto simp: map_of_btree_insert [OF sorted])
  next
    case False
    with reg_one assms(3) have e': "map_of (entries r) k = Some e'" by (simp add: map_of_btree_insert [OF sorted])
    moreover have "en_window e0 \<noteq> en_window e'"
      using window_inv_entry(2) [OF assms(2)] reg_one(1) e' False by metis
    ultimately show ?thesis using reg_one(5) entry_step_about [OF reg_one(2)]
      by (intro old [of e' "[]"]) (auto intro: stay)
  qed
next
  case (reg_all g f)
  with assms(3) obtain e where e: "map_of (entries r) k = Some e" "e' = f e" by auto
  have sorted: "entries_sorted (entries r)" using assms(2) by (simp add: window_inv_def)
  obtain xs ys where es: "entries r = xs @ (k, e) # ys" using btree_insert_split [OF sorted e(1)] by metis
  have "about (en_window e) (g x) = []" if "x \<in> snd ` set (xs @ ys)" for x
    using entry_step_about [OF reg_all(2)] other_windows [OF assms(2) es that] by blast
  then have "about (en_window e) obs = about (en_window e) (g e)"
    unfolding reg_all(1) about_concat entry_values_def es by (auto simp: concat_eq_Nil_conv [THEN iffD2])
  with e reg_all(2) show ?thesis by (intro old [of e "g e"]) auto
next
  case (reg_mint call)
  have "map_of (entries r) (last_id r + 1) = None" using fresh_key [OF assms(2)] reg_mint(4) by simp
  moreover have sorted: "entries_sorted (entries r)" using assms(2) by (simp add: window_inv_def)
  ultimately show ?thesis
  proof (cases "k = last_id r + 1")
    case True
    with reg_mint assms(3) \<open>map_of (entries r) (last_id r + 1) = None\<close> show ?thesis
      by (intro new [of call]) (auto simp: map_of_btree_insert [OF sorted])
  next
    case False
    with reg_mint assms(3) show ?thesis
      by (intro old [of e' "[]"]) (auto simp: map_of_btree_insert [OF sorted] intro: stay)
  qed
qed

lemma verdicts_about: "verdicts_on w (about w obs) = verdicts_on w obs"
proof (induction obs)
  case (Cons ob obs)
  then show ?case by (cases ob) auto
qed simp



lemma window_log_snoc: "window_log (ops @ [op]) r = window_log ops r @ window_obs op (fold window_step ops r)"
  by (induction ops arbitrary: r) simp_all

lemma reg_step_obs_minted:
  assumes "reg_step r obs r'" "window_inv r" "about w obs \<noteq> []"
  shows "\<exists>e. map_of (entries r) (ref_id w) = Some e \<and> en_window e = w"
  using assms(1)
proof cases
  case (reg_one k e e')
  with entry_step_about [OF reg_one(2)] assms(3) have "en_window e = w" by blast
  with window_inv_entry(2) [OF assms(2) reg_one(1)] reg_one(1) show ?thesis by auto
next
  case (reg_all g f)
  with assms(3) obtain e where "e \<in> set (entry_values (entries r))" "about w (g e) \<noteq> []"
    by (auto simp: about_concat concat_eq_Nil_conv)
  moreover from this entry_step_about [OF reg_all(2)] have "en_window e = w" by blast
  moreover have "entries_sorted (entries r)" using assms(2) by (simp add: window_inv_def)
  ultimately show ?thesis using entry_values_iff window_inv_entry(2) [OF assms(2)] by metis
qed (use assms(3) in auto)

lemma reg_step_keeps:
  assumes "reg_step r obs r'" "window_inv r" "map_of (entries r) k = Some e"
  shows "\<exists>oe e'. map_of (entries r') k = Some e' \<and> entry_step (reg_ending r) (reg_ending r') e oe e'"
proof -
  have sorted: "entries_sorted (entries r)" using assms(2) by (simp add: window_inv_def)
  have "map_of (entries r') k \<noteq> None" using assms(1)
    by cases (use assms(3) in \<open>auto simp: map_of_btree_insert [OF sorted]\<close>)
  then obtain e' where e': "map_of (entries r') k = Some e'" by blast
  from assms(1,2) e' show ?thesis
    by (rule reg_step_entry) (use assms(3) e' in auto)
qed

lemma log_minted:
  "about w (window_log ops new_window_registry) \<noteq> [] \<Longrightarrow>
   \<exists>e. map_of (entries (fold window_step ops new_window_registry)) (ref_id w) = Some e \<and> en_window e = w"
proof (induction ops rule: rev_induct)
  case (snoc op ops)
  let ?r = "fold window_step ops new_window_registry"
  note step = window_reg_step [OF run_window_inv, of ops op]
  have "\<exists>e. map_of (entries ?r) (ref_id w) = Some e \<and> en_window e = w"
    using snoc reg_step_obs_minted [OF step run_window_inv, of w]
    by (cases "about w (window_obs op ?r) = []") (auto simp: window_log_snoc)
  then obtain e where e: "map_of (entries ?r) (ref_id w) = Some e" "en_window e = w" by blast
  from reg_step_keeps [OF step run_window_inv e(1)] e(2) entry_step_window show ?case by fastforce
qed simp

text \<open>
  Induction over a run, seen from one window: what holds of a fresh entry with an empty log, and is
  kept by every change of the entry together with what the change makes known about its window,
  holds of the entry and of the run's log about the window.
\<close>

lemma run_window_induct [consumes 1, case_names fresh change]:
  assumes "map_of (entries (fold window_step ops new_window_registry)) k = Some e"
    and "\<And>e call. phase e = Opening call \<Longrightarrow> \<not> created e \<Longrightarrow> P e []"
    and "\<And>b b' e oe e' log. \<lbrakk> entry_step b b' e oe e'; entry_inv b e; P e log \<rbrakk> \<Longrightarrow> P e' (log @ about (en_window e) oe)"
  shows "P e (about (en_window e) (window_log ops new_window_registry))"
  using assms(1)
proof (induction ops arbitrary: e rule: rev_induct)
  case Nil
  then show ?case by (simp add: new_window_registry_def)
next
  case (snoc op ops)
  let ?r = "fold window_step ops new_window_registry" and ?log = "window_log ops new_window_registry"
  have step: "reg_step ?r (window_obs op ?r) (window_step op ?r)" by (rule window_reg_step [OF run_window_inv])
  from snoc.prems have "map_of (entries (window_step op ?r)) k = Some e" by simp
  with step run_window_inv show ?case
  proof (rule reg_step_entry)
    fix e0 oe
    assume e0: "map_of (entries ?r) k = Some e0" "entry_step (reg_ending ?r) (reg_ending (window_step op ?r)) e0 oe e"
      "about (en_window e0) (window_obs op ?r) = about (en_window e0) oe"
    have "P e (about (en_window e0) ?log @ about (en_window e0) oe)"
      by (rule assms(3) [OF e0(2) window_inv_entry(1) [OF run_window_inv e0(1)] snoc.IH [OF e0(1)]])
    with e0(3) entry_step_window [OF e0(2)] show ?thesis by (simp add: window_log_snoc)
  next
    fix call
    assume new: "map_of (entries ?r) k = None" "window_obs op ?r = [Took call]" "phase e = Opening call" "\<not> created e"
      "en_window e = \<lparr> ref_id = last_id ?r + 1, ref_incarnation = last_incarnation ?r + 1 \<rparr>"
    from snoc.prems window_inv_entry(2) [OF run_window_inv, of "ops @ [op]" k e] have "ref_id (en_window e) = k" by simp
    then have "about (en_window e) ?log = []" using log_minted [of "en_window e" ops] new(1) by fastforce
    with new assms(2) [OF new(3,4)] show ?thesis by (simp add: window_log_snoc)
  qed
qed

lemma sorted_positive_keys:
  assumes "sorted_wrt (<) (ks :: nat list)" "\<And>k. k \<in> set ks \<Longrightarrow> 0 < k \<and> k \<le> n" "length ks = n"
  shows "ks = [1..<Suc n]"
proof -
  have "set ks \<subseteq> {1..n}" using assms(2) by fastforce
  moreover have "card (set ks) = n" using assms(1,3) by (simp add: distinct_card strict_sorted_iff)
  ultimately have "set ks = {1..n}" by (simp add: card_subset_eq)
  then have "set ks = set [1..<Suc n]" by (simp only: atLeastLessThanSuc_atLeastAtMost set_upt)
  with assms(1) show ?thesis by (intro strict_sorted_equal) (simp_all add: sorted_wrt_upt del: upt_Suc)
qed

lemma window_keys:
  assumes "window_inv r"
  shows "map (unat \<circ> fst) (entries r) = [1..<Suc (unat (last_id r))]"
proof (rule sorted_positive_keys)
  show "sorted_wrt (<) (map (unat \<circ> fst) (entries r))"
    using assms by (simp add: window_inv_def entries_sorted_def sorted_wrt_map word_less_nat_alt)
  show "length (map (unat \<circ> fst) (entries r)) = unat (last_id r)" using assms by (simp add: window_inv_def)
  fix n assume "n \<in> set (map (unat \<circ> fst) (entries r))"
  then obtain k e where "n = unat k" "(k, e) \<in> set (entries r)" by auto
  moreover have "distinct (map fst (entries r))" using assms by (simp add: window_inv_def entries_sorted_distinct)
  ultimately show "0 < n \<and> n \<le> unat (last_id r)" using window_inv_entry(4,5) [OF assms] by simp
qed

lemma ucast_of_unat: "unat (j :: u64) = unat (i :: u32) \<Longrightarrow> j = ucast i"
proof -
  assume "unat j = unat i"
  then have "(word_of_nat (unat j) :: u64) = word_of_nat (unat i)" by simp
  then show ?thesis by simp
qed

lemma window_ref_ucast:
  "unat (ref_incarnation w) = unat (ref_id w) \<Longrightarrow> w = \<lparr> ref_id = ref_id w, ref_incarnation = ucast (ref_id w) \<rparr>"
  by (cases w) (simp add: ucast_of_unat)

lemma create_not_exhausted:
  assumes "window_inv r"
  shows "fst (create owner corr w h x y r) \<notin> {Inl (WindowExhausted CounterId), Inl (WindowExhausted CounterIncarnation)}"
proof -
  have "unat (last_id r) \<le> 1024" "unat (last_incarnation r) \<le> 1024"
    using assms by (simp_all add: window_inv_def PROPOSED_MAX_CUMULATIVE_WINDOW_IDS_def)
  then have "checked_add (last_id r) 1 \<noteq> None" "checked_add (last_incarnation r) 1 \<noteq> None"
    by (simp_all add: checked_add_def)
  then show ?thesis
    by (auto simp: create_def require_ready_def Let_def split: option.splits)
qed


lemma run_verdicts_ok:
  assumes "map_of (entries (fold window_step ops new_window_registry)) k = Some e"
  shows "verdicts_ok e (verdicts_on (en_window e) (window_log ops new_window_registry))"
proof -
  have "verdicts_ok e (verdicts_on (en_window e) (about (en_window e) (window_log ops new_window_registry)))"
    using assms
  proof (induction rule: run_window_induct)
    case (fresh e call)
    then show ?case by (simp add: verdicts_ok_def)
  next
    case (change b b' e oe e' log)
    from entry_step_verdicts [OF change] entry_step_window [OF change(1)] show ?case by (simp add: verdicts_about)
  qed
  then show ?thesis by (simp add: verdicts_about)
qed


lemma entries_all:
  assumes "\<And>k e. map_of (entries r) k = Some e \<Longrightarrow> P k e" "window_inv r"
  shows "list_all (\<lambda>(k, e). P k e) (entries r)"
proof -
  have "distinct (map fst (entries r))" using assms(2) by (simp add: window_inv_def entries_sorted_distinct)
  with assms(1) show ?thesis by (auto simp: list_all_iff)
qed

section \<open>Properties of every run\<close>


text \<open>
  C15. No call is lost and none is answered twice: along any run the Create and Destroy calls taken
  to be answered later are, counted with multiplicity, those answered, those given up because
  their role or the session ended, and those still pending; and the registry reports a call as
  pending exactly when it is among the latter.
\<close>

theorem window_calls_conserved:
  "let r = fold window_step ops new_window_registry; log = window_log ops new_window_registry in
   mset (calls_taken log) = mset (calls_answered log) + mset (calls_forgotten log) + mset (pending_calls r)
   \<and> has_pending_call owner corr r
     = (\<lparr> call_owner = owner, call_correlation = corr \<rparr> \<in> set (pending_calls r))"
proof -
  have "pending_calls new_window_registry = []"
    by (simp add: pending_calls_def new_window_registry_def entry_values_def)
  with run_calls [OF new_window_registry_inv, of ops] show ?thesis by (simp add: has_pending_call_iff)
qed

text \<open>
  C16. A close verdict is applied at most once: along any run no window has two verdicts applied
  with the same close sequence, and the sequence of a pending close has had no verdict yet.
\<close>

theorem close_verdict_once:
  "let r = fold window_step ops new_window_registry;
       applied = verdicts_on w (window_log ops new_window_registry) in
   distinct applied
   \<and> (case map_of (entries r) (ref_id w) of
        None \<Rightarrow> applied = []
      | Some e \<Rightarrow>
          if en_window e = w
          then (case phase e of ClosePending _ q \<Rightarrow> q = last_close_seq e \<and> q \<notin> set applied | _ \<Rightarrow> True)
          else applied = [])"
proof -
  let ?r = "fold window_step ops new_window_registry" and ?log = "window_log ops new_window_registry"
  show ?thesis
  proof (cases "about w ?log = []")
    case True
    then have "verdicts_on w ?log = []" using verdicts_about [of w ?log] by simp
    moreover have "q = last_close_seq e" if "map_of (entries ?r) (ref_id w) = Some e" "phase e = ClosePending n q" for e n q
      using window_inv_entry(1) [OF run_window_inv that(1)] that(2) by (simp add: entry_inv_def)
    ultimately show ?thesis by (auto simp: Let_def split: option.split Phase.split)
  next
    case False
    from log_minted [OF this] obtain e where e: "map_of (entries ?r) (ref_id w) = Some e" "en_window e = w" by blast
    from run_verdicts_ok [OF e(1)] e(2) window_inv_entry(1) [OF run_window_inv e(1)] e(1) show ?thesis
      by (auto simp: verdicts_ok_def entry_inv_def Let_def list_all_iff split: Phase.splits)
  qed
qed

text \<open>
  C17. Identities and bounds: after any run the entries are the windows 1 to \<open>last_id\<close> in order,
  each with the incarnation equal to its number, so that no identity is ever reused; there are at
  most 1024 of them, each with at most 64 Destroy calls waiting, all from its owner and only while
  it is closing natively; and minting another window never fails for an exhausted counter.
\<close>

theorem window_identities:
  "let r = fold window_step ops new_window_registry in
   map (unat \<circ> fst) (entries r) = [1..<Suc (unat (last_id r))] \<and> unat (last_id r) \<le> 1024
   \<and> list_all (\<lambda>(k, e).
        en_window e = \<lparr> ref_id = k, ref_incarnation = ucast k \<rparr>
        \<and> length (destroy_calls e) \<le> 64 \<and> list_all (\<lambda>call. call_owner call = en_owner e) (entry_calls e)
        \<and> (case phase e of Closing (Some _) \<Rightarrow> True | _ \<Rightarrow> destroy_calls e = [])) (entries r)
   \<and> fst (create owner corr w h x y r) \<notin> {Inl (WindowExhausted CounterId), Inl (WindowExhausted CounterIncarnation)}"
proof -
  let ?r = "fold window_step ops new_window_registry"
  note inv = run_window_inv [of ops]
  have keys: "map (unat \<circ> fst) (entries ?r) = [1..<Suc (unat (last_id ?r))]" by (rule window_keys [OF inv])
  have "en_window e = \<lparr> ref_id = k, ref_incarnation = ucast k \<rparr>
      \<and> length (destroy_calls e) \<le> 64 \<and> list_all (\<lambda>call. call_owner call = en_owner e) (entry_calls e)
      \<and> (case phase e of Closing (Some _) \<Rightarrow> True | _ \<Rightarrow> destroy_calls e = [])"
    if "map_of (entries ?r) k = Some e" for k e
    using window_inv_entry [OF inv that] window_ref_ucast [of "en_window e"]
    by (auto simp: entry_inv_def MAX_PENDING_DESTROYS_PER_WINDOW_def split: Phase.splits option.splits)
  from entries_all [OF this inv] keys create_not_exhausted [OF inv] inv show ?thesis
    by (simp add: Let_def window_inv_def PROPOSED_MAX_CUMULATIVE_WINDOW_IDS_def)
qed

end
