(* ===== verification/Guard_Policy.thy ===== *)
theory Guard_Policy
  imports Guard_Jsonc Kipc_Token
begin

text \<open>
  The capability engine (\<open>crates/keld-guard/src/lib.rs\<close>, \<open>unique_json.rs\<close> and
  \<open>verified_manifest.rs\<close>): the permissions manifest, its bounded and digest-verified loading,
  the default-deny check \<open>evaluate\<close>, the path and URL matcher, and the filesystem scope grammar.
  Text is the list of its UTF-8 bytes. Code selected by \<open>cfg(windows)\<close> takes a flag. The JSON
  reader and deriver of serde, SHA-256 and the reader's bytes are arguments.
\<close>

section \<open>Data\<close>

datatype Principal = AppProcess | Webview u32 u32 | Plugin u16

fun label :: "Principal \<Rightarrow> string" where
  "label AppProcess = ''app''"
| "label (Webview _ _) = ''webview''"
| "label (Plugin _) = ''plugin''"

record ScopePermit =
  grant_index :: nat

datatype PathScopeKind = Exact | Subtree

record PathScope =
  ps_grant_index :: nat
  ps_pattern :: string
  ps_kind :: PathScopeKind

datatype ScopeSetError = TooMany nat nat | Duplicate nat nat | InvalidPath nat string

definition MAX_PATH_SCOPES :: nat where "MAX_PATH_SCOPES = 64"
definition MAX_MANIFEST_BYTES :: nat where "MAX_MANIFEST_BYTES = 64 * 1024"

definition FS_READ :: string where "FS_READ = ''fs.read''"
definition FS_WRITE :: string where "FS_WRITE = ''fs.write''"
definition AUTH_BEGIN :: string where "AUTH_BEGIN = ''auth.begin''"
definition AUTH_TOKEN :: string where "AUTH_TOKEN = ''auth.token''"

text \<open>The fields of a reason, in the order of the source.\<close>

datatype DenyReason =
    NotGranted string string string
  | OutOfScope string string string string
  | ChannelForbidden string
  | NotAppProcess Principal
  | MediaPrincipalRequired string "Principal option"

datatype Decision = Allow ScopePermit | Deny DenyReason

fun deny_code :: "DenyReason \<Rightarrow> string" where
  "deny_code (NotGranted _ _ _) = ''KELD-GUARD001''"
| "deny_code (OutOfScope _ _ _ _) = ''KELD-GUARD002''"
| "deny_code (ChannelForbidden _) = ''KELD-GUARD003''"
| "deny_code (NotAppProcess _) = ''KELD-GUARD006''"
| "deny_code (MediaPrincipalRequired _ _) = ''KELD-GUARD007''"

fun deny_kind :: "DenyReason \<Rightarrow> string" where
  "deny_kind (NotGranted _ _ _) = ''not_granted''"
| "deny_kind (OutOfScope _ _ _ _) = ''out_of_scope''"
| "deny_kind (ChannelForbidden _) = ''channel_forbidden''"
| "deny_kind (NotAppProcess _) = ''not_app_process''"
| "deny_kind (MediaPrincipalRequired _ _) = ''media_principal_required''"

definition TICK :: string where "TICK = [CHR 0x60]"
definition DASH :: string where "DASH = [CHR 0xE2, CHR 0x80, CHR 0x94]"

fun deny_fix :: "DenyReason \<Rightarrow> string" where
  "deny_fix (NotGranted _ json_pointer requested) =
     (if requested = [] then ''Add a grant at '' @ TICK @ json_pointer @ TICK @ '' in keld.permissions.jsonc.''
      else ''Append '' @ [QUOTE] @ requested @ [QUOTE] @ '' to '' @ TICK @ json_pointer @ TICK
             @ '' in keld.permissions.jsonc.'')"
| "deny_fix (OutOfScope _ _ json_pointer requested) =
     ''Widen '' @ TICK @ json_pointer @ TICK @ '' in keld.permissions.jsonc so it includes '' @ TICK
       @ requested @ TICK @ ''.''"
| "deny_fix (ChannelForbidden channel) =
     ''Add '' @ TICK @ channel @ TICK @ '' to this principal'' @ [CHR 0x27] @ ''s channels list in keld.permissions.jsonc.''"
| "deny_fix (NotAppProcess who) =
     ''v0 keld-guard only evaluates AppProcess grants; '' @ TICK @ label who @ TICK
       @ '' principals are denied. Do not apply '' @ TICK @ ''/app'' @ TICK
       @ '' scopes to a webview or plugin '' @ DASH @ '' window-level grants are not in this slice.''"
| "deny_fix (MediaPrincipalRequired capability _) =
     ''Mint the requesting webview principal before evaluating '' @ TICK @ capability @ TICK
       @ ''. Do not present AppProcess '' @ DASH @ '' that would apply '' @ TICK @ ''/app'' @ TICK
       @ '' media grants to every webview.''"

fun deny_display :: "DenyReason \<Rightarrow> string" where
  "deny_display (NotGranted capability p r) =
     ''KELD-GUARD001: capability '' @ TICK @ capability @ TICK @ '' is not granted. ''
       @ deny_fix (NotGranted capability p r)"
| "deny_display (OutOfScope capability scope p r) =
     ''KELD-GUARD002: capability '' @ TICK @ capability @ TICK @ '' denied by scope '' @ TICK @ scope
       @ TICK @ ''. '' @ deny_fix (OutOfScope capability scope p r)"
| "deny_display (ChannelForbidden channel) =
     ''KELD-GUARD003: channel '' @ TICK @ channel @ TICK @ '' is not granted to this principal. ''
       @ deny_fix (ChannelForbidden channel)"
| "deny_display (NotAppProcess who) =
     ''KELD-GUARD006: v0 evaluate does not apply app grants to principal '' @ TICK @ label who
       @ TICK @ ''. '' @ deny_fix (NotAppProcess who)"
| "deny_display (MediaPrincipalRequired capability presented) =
     ''KELD-GUARD007: '' @ TICK @ capability @ TICK @ '' requires a minted webview principal (presented ''
       @ TICK @ (case presented of None \<Rightarrow> ''none'' | Some p \<Rightarrow> label p) @ TICK @ ''). ''
       @ deny_fix (MediaPrincipalRequired capability presented)"

datatype Value =
    VNull | VBool bool | VNumber string | VString string | VArray "Value list"
  | VObject "(string \<times> Value) list"

fun as_array :: "Value \<Rightarrow> Value list option" where
  "as_array (VArray vs) = Some vs"
| "as_array _ = None"

fun as_object :: "Value \<Rightarrow> (string \<times> Value) list option" where
  "as_object (VObject kvs) = Some kvs"
| "as_object _ = None"

fun as_str :: "Value \<Rightarrow> string option" where
  "as_str (VString s) = Some s"
| "as_str _ = None"

definition is_string :: "Value \<Rightarrow> bool" where "is_string v = (as_str v \<noteq> None)"

record PermissionsManifest =
  pm_app :: "(string \<times> Value) list"

section \<open>Grants\<close>

definition DOT :: char where "DOT = CHR 0x2E"

definition json_pointer_for :: "string \<Rightarrow> string" where
  "json_pointer_for capability =
     (if capability = [] then ''/app''
      else ''/app'' @ concat (map (\<lambda>segment. SLASH # segment) (split_on (\<lambda>c. c = DOT) capability)))"

fun descend :: "Value \<Rightarrow> string list \<Rightarrow> Value option" where
  "descend node [] = Some node"
| "descend node (segment # segments) =
     Option.bind (as_object node) (\<lambda>obj. Option.bind (map_of obj segment) (\<lambda>next_node. descend next_node segments))"

definition grant_node :: "PermissionsManifest \<Rightarrow> string \<Rightarrow> Value option" where
  "grant_node manifest capability =
     (if capability = [] then None
      else case split_on (\<lambda>c. c = DOT) capability of
        [] \<Rightarrow> None
      | first # segments \<Rightarrow>
          Option.bind (map_of (pm_app manifest) first) (\<lambda>node. descend node segments))"

definition deny_not_granted :: "string \<Rightarrow> string \<Rightarrow> Decision" where
  "deny_not_granted operation path =
     Deny (NotGranted operation (json_pointer_for operation) path)"

definition deny_out_of_scope :: "string \<Rightarrow> string \<Rightarrow> Value list \<Rightarrow> Decision" where
  "deny_out_of_scope operation path arr =
     Deny (OutOfScope operation (join_with '', '' (List.map_filter as_str arr))
       (json_pointer_for operation) path)"

definition path_has_dotdot :: "string \<Rightarrow> bool" where
  "path_has_dotdot path =
     list_ex (\<lambda>segment. segment = ''..'') (split_on (\<lambda>c. c = SLASH \<or> c = BACKSLASH) path)"

definition COLON :: char where "COLON = CHR 0x3A"

text \<open>\<open>u8::is_ascii_whitespace\<close>: space, tab, line feed, form feed and carriage return.\<close>

definition is_ascii_whitespace :: "char \<Rightarrow> bool" where
  "is_ascii_whitespace c = (c = SPACE \<or> c = CHR 0x09 \<or> c = NL \<or> c = CHR 0x0C \<or> c = CR)"

definition names_no_destination :: "string \<Rightarrow> bool" where
  "names_no_destination pfx =
     (case find_index (\<lambda>c. c = COLON) pfx of
        None \<Rightarrow> False
      | Some colon \<Rightarrow>
          if list_ex (\<lambda>c. c = SLASH \<or> c = BACKSLASH) (take colon pfx) then False
          else if \<not> list_all (\<lambda>c. c = SLASH \<or> c = BACKSLASH \<or> is_ascii_whitespace c) (drop (colon + 1) pfx)
          then False
          else colon \<noteq> 1 \<or> length pfx > colon + 1)"

definition GLOB :: string where "GLOB = [SLASH, STAR, STAR]"

definition path_in_scope :: "string \<Rightarrow> string \<Rightarrow> bool" where
  "path_in_scope path pattern =
     (case strip_suffix pattern GLOB of
        None \<Rightarrow> path = pattern
      | Some pfx \<Rightarrow>
          if names_no_destination pfx then False
          else if path = pfx then True
          else prefix pfx path \<and> length pfx < length path \<and> path ! length pfx = SLASH)"

definition evaluate :: "PermissionsManifest \<Rightarrow> Principal \<Rightarrow> string \<Rightarrow> string \<Rightarrow> Decision" where
  "evaluate manifest who operation path =
     (if who \<noteq> AppProcess then Deny (NotAppProcess who)
      else case grant_node manifest operation of
        None \<Rightarrow> deny_not_granted operation path
      | Some node \<Rightarrow>
          (case as_array node of
             None \<Rightarrow> deny_not_granted operation path
           | Some arr \<Rightarrow>
               if arr = [] \<or> list_ex (\<lambda>v. \<not> is_string v) arr then deny_not_granted operation path
               else if path_has_dotdot path then deny_out_of_scope operation path arr
               else case find_index (\<lambda>v. case as_str v of None \<Rightarrow> False | Some scope \<Rightarrow> path_in_scope path scope) arr of
                 None \<Rightarrow> deny_out_of_scope operation path arr
               | Some i \<Rightarrow> Allow \<lparr> grant_index = i \<rparr>))"

section \<open>What a grant allows\<close>

lemma all_strings_iff: "list_ex (\<lambda>v. \<not> is_string v) arr \<longleftrightarrow> (\<nexists>scopes. arr = map VString scopes)"
proof -
  have str: "is_string v \<longleftrightarrow> (\<exists>s. v = VString s)" for v by (cases v) (auto simp: is_string_def)
  have "list_all is_string arr \<longleftrightarrow> (\<exists>scopes. arr = map VString scopes)"
    by (induction arr) (auto simp: str Cons_eq_map_conv)
  then show ?thesis by (auto simp: list_ex_iff list_all_iff)
qed

text \<open>The scope a permit may name: the first of the declared ones that matches.\<close>

definition first_match :: "string list \<Rightarrow> string \<Rightarrow> nat \<Rightarrow> bool" where
  "first_match scopes path i =
     (i < length scopes \<and> path_in_scope path (scopes ! i) \<and> (\<forall>j < i. \<not> path_in_scope path (scopes ! j)))"

definition declared :: "PermissionsManifest \<Rightarrow> string \<Rightarrow> string list \<Rightarrow> bool" where
  "declared manifest operation scopes =
     (scopes \<noteq> [] \<and> grant_node manifest operation = Some (VArray (map VString scopes)))"

lemma declared_unique: "declared m op a \<Longrightarrow> declared m op b \<Longrightarrow> a = b"
  by (auto simp: declared_def inj_map_eq_map inj_def)

lemma find_scope:
  "find_index (\<lambda>v. case as_str v of None \<Rightarrow> False | Some scope \<Rightarrow> path_in_scope path scope) (map VString scopes)
   = find_index (path_in_scope path) scopes"
  by (simp add: find_index_map)

lemma map_filter_strings [simp]: "List.map_filter as_str (map VString scopes) = scopes"
  by (induction scopes) (auto simp: map_filter_simps)

lemma evaluate_declared:
  assumes "declared manifest operation scopes"
  shows "evaluate manifest AppProcess operation path =
    (if path_has_dotdot path then deny_out_of_scope operation path (map VString scopes)
     else case find_index (path_in_scope path) scopes of
       None \<Rightarrow> deny_out_of_scope operation path (map VString scopes)
     | Some i \<Rightarrow> Allow \<lparr> grant_index = i \<rparr>)"
  using assms all_strings_iff [of "map VString scopes"]
  by (auto simp: evaluate_def declared_def find_scope)

lemma evaluate_undeclared:
  assumes "\<nexists>scopes. declared manifest operation scopes"
  shows "evaluate manifest AppProcess operation path = deny_not_granted operation path"
proof (cases "Option.bind (grant_node manifest operation) as_array")
  case (Some arr)
  then have "grant_node manifest operation = Some (VArray arr)"
    by (auto simp: bind_eq_Some_conv elim!: as_array.elims)
  moreover from this assms have "arr = [] \<or> list_ex (\<lambda>v. \<not> is_string v) arr"
    unfolding all_strings_iff by (auto simp: declared_def)
  ultimately show ?thesis by (auto simp: evaluate_def)
qed (auto simp: evaluate_def bind_eq_None_conv split: option.splits)

text \<open>
  C8. The guard allows an operation exactly when the principal is the app process, the manifest
  has at the capability's node a non-empty array of strings only, the path has no \<open>..\<close> segment,
  and some scope of the array matches; the permit names the first such scope. Everything else is
  denied: another principal always with GUARD006, a missing or malformed grant with GUARD001, a
  path outside the grant with GUARD002.
\<close>

theorem evaluate_default_deny:
  "case evaluate manifest who operation path of
     Allow permit \<Rightarrow> who = AppProcess \<and> \<not> path_has_dotdot path
       \<and> (\<exists>scopes. declared manifest operation scopes \<and> first_match scopes path (grant_index permit))
   | Deny reason \<Rightarrow>
       (if who \<noteq> AppProcess then reason = NotAppProcess who
        else if \<exists>scopes. declared manifest operation scopes
        then \<exists>scopes. declared manifest operation scopes
          \<and> (\<nexists>i. \<not> path_has_dotdot path \<and> first_match scopes path i)
          \<and> reason = OutOfScope operation (join_with '', '' scopes) (json_pointer_for operation) path
        else reason = NotGranted operation (json_pointer_for operation) path)"
proof (cases "who = AppProcess \<and> (\<exists>scopes. declared manifest operation scopes)")
  case True
  then obtain scopes where d: "declared manifest operation scopes" by blast
  have "find_index (path_in_scope path) scopes = None \<longleftrightarrow> (\<nexists>i. first_match scopes path i)"
    by (metis find_index_Some_iff first_match_def not_Some_eq)
  then show ?thesis using True d
    by (auto simp: evaluate_declared [OF d] deny_out_of_scope_def first_match_def find_index_Some_iff
        split: option.splits)
next
  case False
  then show ?thesis
    by (cases "who = AppProcess") (simp_all add: evaluate_undeclared deny_not_granted_def, simp add: evaluate_def)
qed

section \<open>What a scope covers\<close>

text \<open>
  Lexical resolution of a path: empty and \<open>.\<close> segments are dropped, \<open>..\<close> removes the segment
  before it.
\<close>

definition enter :: "string \<Rightarrow> string list \<Rightarrow> string list" where
  "enter segment stack =
     (if segment = [] \<or> segment = ''.'' then stack
      else if segment = ''..'' then drop 1 stack else segment # stack)"

definition resolve :: "string \<Rightarrow> string list" where
  "resolve path = rev (fold enter (split_on (\<lambda>c. c = SLASH) path) [])"

lemma no_dotdot_segment:
  assumes "\<not> path_has_dotdot path"
  shows "''..'' \<notin> set (split_on (\<lambda>c. c = SLASH) path)"
  using assms split_on_refine [of "''..''" "\<lambda>c. c = SLASH" path "\<lambda>c. c = BACKSLASH"]
  by (auto simp: path_has_dotdot_def list_ex_iff jsonc_chars)

lemma fold_enter: "''..'' \<notin> set segs \<Longrightarrow> \<exists>xs. fold enter segs stack = xs @ stack"
proof (induction segs arbitrary: stack)
  case (Cons s segs)
  from Cons.prems have "\<exists>ys. enter s stack = ys @ stack" by (auto simp: enter_def)
  then show ?case using Cons.IH [of "enter s stack"] Cons.prems by auto
qed simp

lemma strip_suffix_append [simp]: "strip_suffix (pfx @ sfx) sfx = Some pfx"
  by (simp add: strip_suffix_def suffix_def)

lemma path_in_glob_iff:
  "path_in_scope path (pfx @ GLOB) \<longleftrightarrow>
     \<not> names_no_destination pfx \<and> (path = pfx \<or> (\<exists>rest. path = pfx @ SLASH # rest))"
  by (auto simp: path_in_scope_def prefix_def nth_append hd_conv_nth [symmetric] neq_Nil_conv)

lemma path_in_exact:
  "\<nexists>pfx. pattern = pfx @ GLOB \<Longrightarrow> path_in_scope path pattern \<longleftrightarrow> path = pattern"
  by (auto simp: path_in_scope_def strip_suffix_def suffix_def split: option.splits)

lemma glob_resolves_below:
  assumes "path_in_scope path (pfx @ GLOB)" "\<not> path_has_dotdot path"
  shows "prefix (resolve pfx) (resolve path)"
proof -
  from assms(1) consider "path = pfx" | rest where "path = pfx @ SLASH # rest"
    unfolding path_in_glob_iff by blast
  then show ?thesis
  proof cases
    case (2 rest)
    then have segs: "split_on (\<lambda>c. c = SLASH) path
        = split_on (\<lambda>c. c = SLASH) pfx @ split_on (\<lambda>c. c = SLASH) rest"
      by (simp add: split_on_append)
    with no_dotdot_segment [OF assms(2)] obtain xs where
      "fold enter (split_on (\<lambda>c. c = SLASH) rest) (fold enter (split_on (\<lambda>c. c = SLASH) pfx) [])
        = xs @ fold enter (split_on (\<lambda>c. c = SLASH) pfx) []"
      using fold_enter [of "split_on (\<lambda>c. c = SLASH) rest"] by auto
    with segs show ?thesis by (simp add: resolve_def)
  qed simp
qed

text \<open>
  C9. Confinement: an allowed path either is a declared scope to the letter, or lies in the
  subtree of a declared \<open>/**\<close> scope, and then resolving its segments, parent references included,
  stays below the node the scope names.
\<close>

theorem evaluate_confined:
  assumes "evaluate manifest who operation path = Allow permit"
  shows "\<exists>scopes. declared manifest operation scopes
    \<and> (path = scopes ! grant_index permit
       \<or> (\<exists>pfx. scopes ! grant_index permit = pfx @ GLOB \<and> prefix (resolve pfx) (resolve path)))"
proof -
  have "who = AppProcess"
    using assms by (cases "who = AppProcess") (auto simp: evaluate_def)
  moreover have d: "\<exists>scopes. declared manifest operation scopes"
    using assms calculation evaluate_undeclared [of manifest operation path]
    by (auto simp: deny_not_granted_def)
  then obtain scopes where decl: "declared manifest operation scopes" by blast
  ultimately have s: "find_index (path_in_scope path) scopes = Some (grant_index permit)"
    "\<not> path_has_dotdot path"
    using assms evaluate_declared [OF decl, of path]
    by (auto simp: deny_out_of_scope_def split: if_splits option.splits)
  then have "path_in_scope path (scopes ! grant_index permit)" by (simp add: find_index_Some_iff)
  then show ?thesis
    using decl s(2) glob_resolves_below [of path] path_in_exact [of "scopes ! grant_index permit" path]
    by metis
qed

definition sample_manifest :: PermissionsManifest where
  "sample_manifest = \<lparr> pm_app = [(''fs'', VObject [(''read'', VArray [VString ''/etc/x'', VString ''/srv/**''])])] \<rparr>"

theorem evaluate_confined_witness:
  "evaluate sample_manifest AppProcess ''fs.read'' ''/srv/a/./b'' = Allow \<lparr> grant_index = 1 \<rparr>
   \<and> (\<exists>scopes. declared sample_manifest ''fs.read'' scopes
        \<and> (''/srv/a/./b'' = scopes ! 1
           \<or> (\<exists>pfx. scopes ! 1 = pfx @ GLOB \<and> prefix (resolve pfx) (resolve ''/srv/a/./b''))))"
proof -
  have e: "evaluate sample_manifest AppProcess ''fs.read'' ''/srv/a/./b'' = Allow \<lparr> grant_index = 1 \<rparr>"
    by code_simp
  then show ?thesis using evaluate_confined [OF e] by simp
qed

lemma append_before:
  "xs @ ys = pfx @ c # t \<Longrightarrow> c \<notin> set xs \<Longrightarrow> \<exists>zs. pfx = xs @ zs \<and> ys = zs @ c # t"
proof (induction xs arbitrary: pfx)
  case (Cons x xs)
  then show ?case by (cases pfx) auto
qed simp

text \<open>
  A \<open>/**\<close> grant never hands over an authority: when a resource \<open>scheme://authority...\<close>
  with a scheme of two or more characters is in the scope of a \<open>/**\<close> pattern, the pattern
  itself spells that scheme and that whole authority, up to a separator or its end.
\<close>

theorem glob_pins_authority:
  assumes "path_in_scope (scheme @ ''://'' @ authority @ rest) (pfx @ GLOB)"
    and "2 \<le> length scheme" "list_all (\<lambda>c. c \<noteq> COLON \<and> c \<noteq> SLASH \<and> c \<noteq> BACKSLASH) scheme"
    and "SLASH \<notin> set authority" "rest = [] \<or> hd rest = SLASH"
  shows "\<exists>below. pfx = scheme @ ''://'' @ authority @ below \<and> (below = [] \<or> hd below = SLASH)"
proof -
  let ?path = "scheme @ [COLON, SLASH, SLASH] @ authority @ rest"
  have url: "scheme @ ''://'' @ authority @ rest = ?path" by (simp add: COLON_def SLASH_def)
  from assms(1) consider "?path = pfx" | tail where "?path = pfx @ SLASH # tail" "\<not> names_no_destination pfx"
    unfolding url path_in_glob_iff by blast
  then show ?thesis
  proof cases
    case 1
    with assms(5) show ?thesis by (auto simp: COLON_def SLASH_def)
  next
    case (2 tail)
    have find: "find_index (\<lambda>c. c = COLON) (scheme @ COLON # ys) = Some (length scheme)" for ys
      using assms(3) by (intro find_index_append) (auto simp: list_all_iff)
    have "pfx \<noteq> scheme @ [COLON]" "pfx \<noteq> scheme @ [COLON, SLASH]"
      using 2(2) assms(2,3) find by (auto simp: names_no_destination_def list_ex_iff list_all_iff)
    moreover have "SLASH \<notin> set (scheme @ [COLON])"
      using assms(3) by (auto simp: list_all_iff COLON_def SLASH_def)
    then obtain z where z: "pfx = (scheme @ [COLON]) @ z" "[SLASH, SLASH] @ authority @ rest = z @ SLASH # tail"
      using append_before [of "scheme @ [COLON]" "[SLASH, SLASH] @ authority @ rest" pfx SLASH tail] 2(1) by auto
    ultimately obtain y where y: "z = [SLASH, SLASH] @ y" "authority @ rest = y @ SLASH # tail"
      by (cases z; cases "tl z") auto
    obtain below where "y = authority @ below" "rest = below @ SLASH # tail"
      using append_before [OF y(2) assms(4)] by blast
    with z(1) y(1) assms(5) show ?thesis by (cases below) (auto simp: COLON_def SLASH_def)
  qed
qed

theorem glob_pins_authority_witness:
  "path_in_scope (''https'' @ ''://'' @ ''a.b'' @ ''/c'') (''https://a.b'' @ GLOB)
   \<and> (\<exists>below. ''https://a.b'' = ''https'' @ ''://'' @ ''a.b'' @ below \<and> (below = [] \<or> hd below = SLASH))"
proof -
  have s: "path_in_scope (''https'' @ ''://'' @ ''a.b'' @ ''/c'') (''https://a.b'' @ GLOB)" by code_simp
  moreover have "list_all (\<lambda>c. c \<noteq> COLON \<and> c \<noteq> SLASH \<and> c \<noteq> BACKSLASH) ''https''" by code_simp
  moreover have "SLASH \<notin> set ''a.b''" "hd ''/c'' = SLASH" by (simp_all add: SLASH_def)
  ultimately show ?thesis using glob_pins_authority [OF s] by simp
qed

end
