(* ===== verification/Guard_Manifest.thy ===== *)
theory Guard_Manifest
  imports Guard_Policy
begin

text \<open>
  Loading of the permissions manifest (\<open>crates/keld-guard/src/lib.rs\<close>, \<open>unique_json.rs\<close>,
  \<open>verified_manifest.rs\<close>) and the filesystem scope grammar of \<open>lib.rs\<close>. What serde_json's
  deserializer reports to a visitor is a \<open>RawJson\<close> event tree, in which a failure of the
  deserializer is an event; the visitor of \<open>unique_json.rs\<close> is \<open>unique_value\<close>. The deserializer,
  its rendering of errors, serde's derived \<open>from_value\<close>, SHA-256 and the display of standard
  library errors are arguments.
\<close>

section \<open>JSON with unique keys\<close>

datatype RawJson =
    RNull | RBool bool | RInt string | RF64 "string option" | RStr string | RSeq RawSeq | RMap RawMap
  | RFail string
and RawSeq = SeqEnd | SeqFail string | SeqNext RawJson RawSeq
and RawMap = MapEnd | MapFail string | MapNext string RawJson RawMap

text \<open>\<open>custom\<close> is \<open>Error::custom\<close> of the deserializer; \<open>values\<close> is the map built so far.\<close>

primrec unique_value :: "(string \<Rightarrow> string) \<Rightarrow> RawJson \<Rightarrow> string + Value"
  and visit_seq :: "(string \<Rightarrow> string) \<Rightarrow> RawSeq \<Rightarrow> Value list \<Rightarrow> string + Value"
  and visit_map :: "(string \<Rightarrow> string) \<Rightarrow> RawMap \<Rightarrow> (string \<times> Value) list \<Rightarrow> string + Value" where
  "unique_value custom RNull = Inr VNull"
| "unique_value custom (RBool b) = Inr (VBool b)"
| "unique_value custom (RInt n) = Inr (VNumber n)"
| "unique_value custom (RF64 v) =
     (case v of None \<Rightarrow> Inl (custom ''JSON number is not finite'') | Some n \<Rightarrow> Inr (VNumber n))"
| "unique_value custom (RStr s) = Inr (VString s)"
| "unique_value custom (RSeq s) = visit_seq custom s []"
| "unique_value custom (RMap m) = visit_map custom m []"
| "unique_value custom (RFail e) = Inl e"
| "visit_seq custom SeqEnd values = Inr (VArray values)"
| "visit_seq custom (SeqFail e) values = Inl e"
| "visit_seq custom (SeqNext r s) values =
     and_then (unique_value custom r) (\<lambda>v. visit_seq custom s (values @ [v]))"
| "visit_map custom MapEnd values = Inr (VObject values)"
| "visit_map custom (MapFail e) values = Inl e"
| "visit_map custom (MapNext key r m) values =
     (if map_of values key \<noteq> None
      then Inl (custom (''duplicate object key '' @ TICK @ key @ TICK @ '' is ambiguous''))
      else and_then (unique_value custom r) (\<lambda>v. visit_map custom m (values @ [(key, v)])))"

definition unique_parse ::
  "(string \<Rightarrow> string) \<Rightarrow> (string \<Rightarrow> RawJson \<times> string option) \<Rightarrow> string \<Rightarrow> string + Value" where
  "unique_parse custom from_str text =
     (let (raw, at_end) = from_str text in
      and_then (unique_value custom raw) (\<lambda>v. case at_end of None \<Rightarrow> Inr v | Some e \<Rightarrow> Inl e))"

section \<open>Loading\<close>

datatype ManifestError =
    NotFound string
  | Read string string
  | Parse "string option" string
  | InvalidAuthScope "string option" string
  | TooLarge "string option" nat
  | InvalidUtf8 string string
  | IntegrityMismatch string bytes bytes

fun manifest_code :: "ManifestError \<Rightarrow> string" where
  "manifest_code (NotFound _) = ''KELD-GUARD004''"
| "manifest_code (Read _ _) = ''KELD-GUARD004''"
| "manifest_code (Parse _ _) = ''KELD-GUARD005''"
| "manifest_code (InvalidUtf8 _ _) = ''KELD-GUARD005''"
| "manifest_code (InvalidAuthScope _ _) = ''KELD-GUARD005''"
| "manifest_code (IntegrityMismatch _ _ _) = ''KELD-GUARD016''"
| "manifest_code (TooLarge _ _) = ''KELD-GUARD017''"

definition ensure_manifest_size :: "nat \<Rightarrow> string option \<Rightarrow> ManifestError + unit" where
  "ensure_manifest_size len path =
     (if len > MAX_MANIFEST_BYTES then Inl (TooLarge path MAX_MANIFEST_BYTES) else Inr ())"

text \<open>
  A reader is the bytes it delivers and, if reading then fails instead of ending, the error's text.
  \<open>take\<close> stops after one byte more than the ceiling, so an error past that point is never met.
\<close>

type_synonym Reader = "string \<times> string option"

definition read_manifest_bytes :: "Reader \<Rightarrow> string \<Rightarrow> ManifestError + string" where
  "read_manifest_bytes reader path =
     (case reader of (content, failure) \<Rightarrow>
        let bytes = take (MAX_MANIFEST_BYTES + 1) content in
        and_then
          (case failure of
             Some detail \<Rightarrow> if length content < MAX_MANIFEST_BYTES + 1 then Inl (Read path detail) else Inr ()
           | None \<Rightarrow> Inr ())
          (\<lambda>_. and_then (ensure_manifest_size (length bytes) (Some path)) (\<lambda>_. Inr bytes)))"

text \<open>
  \<open>chars().any(...)\<close> for C0, DEL and C1: in UTF-8 the C1 controls are the bytes \<open>C2 80\<close> to \<open>C2 9F\<close>.
\<close>

fun has_control :: "string \<Rightarrow> bool" where
  "has_control [] = False"
| "has_control (c # cs) =
     (byte_val c \<le> 0x1F \<or> byte_val c = 0x7F
      \<or> byte_val c = 0xC2 \<and> cs \<noteq> [] \<and> 0x80 \<le> byte_val (hd cs) \<and> byte_val (hd cs) \<le> 0x9F
      \<or> has_control cs)"

definition bad_auth_scope :: "string \<Rightarrow> bool" where
  "bad_auth_scope scope = (sublist [STAR, STAR] scope \<or> has_control scope)"

fun check_auth :: "string option \<Rightarrow> PermissionsManifest \<Rightarrow> string list \<Rightarrow> ManifestError + PermissionsManifest" where
  "check_auth path manifest [] = Inr manifest"
| "check_auth path manifest (capability # rest) =
     (case Option.bind (grant_node manifest capability) as_array of
        None \<Rightarrow> check_auth path manifest rest
      | Some scopes \<Rightarrow>
          if list_ex bad_auth_scope (List.map_filter as_str scopes)
          then Inl (InvalidAuthScope path capability)
          else check_auth path manifest rest)"

record JsonLib =
  jl_custom :: "string \<Rightarrow> string"
  jl_from_str :: "string \<Rightarrow> RawJson \<times> string option"
  jl_from_value :: "Value \<Rightarrow> string + PermissionsManifest"

definition parse_manifest_at :: "JsonLib \<Rightarrow> string \<Rightarrow> string option \<Rightarrow> ManifestError + PermissionsManifest" where
  "parse_manifest_at lib text path =
     and_then (map_sum (Parse path) id (strip_jsonc_comments text)) (\<lambda>stripped.
     and_then (map_sum (Parse path) id (unique_parse (jl_custom lib) (jl_from_str lib) stripped)) (\<lambda>value.
     and_then (map_sum (Parse path) id (jl_from_value lib value)) (\<lambda>manifest.
     check_auth path manifest [AUTH_BEGIN, AUTH_TOKEN])))"

definition parse_manifest :: "JsonLib \<Rightarrow> string \<Rightarrow> ManifestError + PermissionsManifest" where
  "parse_manifest lib text =
     and_then (ensure_manifest_size (length text) None) (\<lambda>_. parse_manifest_at lib text None)"

text \<open>
  \<open>File::open\<close> gives the reader or an error (\<open>Inl (True, _)\<close> when the file does not exist);
  \<open>utf8_detail\<close> is the display of the decoder's error.
\<close>

definition load_manifest ::
  "JsonLib \<Rightarrow> (string \<Rightarrow> string) \<Rightarrow> (bool \<times> string) + Reader \<Rightarrow> string
    \<Rightarrow> ManifestError + PermissionsManifest" where
  "load_manifest lib utf8_detail opened path =
     (case opened of
        Inl (not_found, detail) \<Rightarrow> Inl (if not_found then NotFound path else Read path detail)
      | Inr file \<Rightarrow>
          and_then (read_manifest_bytes file path) (\<lambda>bytes.
            if valid_utf8 bytes then parse_manifest_at lib bytes (Some path)
            else Inl (Read path (utf8_detail bytes))))"

record VerifiedManifest =
  vm_manifest :: PermissionsManifest
  vm_verified_sha256 :: bytes

definition load_verified_reader ::
  "JsonLib \<Rightarrow> (string \<Rightarrow> string) \<Rightarrow> (string \<Rightarrow> bytes) \<Rightarrow> Reader \<Rightarrow> string \<Rightarrow> bytes
    \<Rightarrow> ManifestError + VerifiedManifest" where
  "load_verified_reader lib utf8_detail sha256 reader display_path expected =
     and_then (read_manifest_bytes reader display_path) (\<lambda>bytes.
       let actual = sha256 bytes in
       if actual \<noteq> expected then Inl (IntegrityMismatch display_path expected actual)
       else if \<not> valid_utf8 bytes then Inl (InvalidUtf8 display_path (utf8_detail bytes))
       else and_then (parse_manifest_at lib bytes (Some display_path)) (\<lambda>manifest.
         Inr \<lparr> vm_manifest = manifest, vm_verified_sha256 = actual \<rparr>))"

section \<open>Filesystem scopes\<close>

definition validate_portable_component :: "string \<Rightarrow> string + unit" where
  "validate_portable_component component =
     (if component = [] \<or> component = ''.'' \<or> component = ''..''
      then Inl (''empty, '' @ TICK @ ''.'' @ TICK @ '' and '' @ TICK @ ''..'' @ TICK @ '' components are not normal names'')
      else if list_ex (\<lambda>c. c = CHR 0x00 \<or> c = SLASH \<or> c = BACKSLASH) component
      then Inl ''components cannot contain NUL or a path separator''
      else Inr ())"

definition is_filesystem_capability :: "string \<Rightarrow> bool" where
  "is_filesystem_capability operation = (operation = FS_READ \<or> operation = FS_WRITE)"

text \<open>ASCII case of the standard library.\<close>

definition ascii_lower :: "char \<Rightarrow> char" where
  "ascii_lower c = (if 0x41 \<le> byte_val c \<and> byte_val c \<le> 0x5A then char_of (byte_val c + 0x20) else c)"

definition eq_ignore_ascii_case :: "string \<Rightarrow> string \<Rightarrow> bool" where
  "eq_ignore_ascii_case a b = (map ascii_lower a = map ascii_lower b)"

definition is_ascii_uppercase :: "char \<Rightarrow> bool" where
  "is_ascii_uppercase c = (0x41 \<le> byte_val c \<and> byte_val c \<le> 0x5A)"

definition strip_ascii_prefix :: "string \<Rightarrow> string \<Rightarrow> string option" where
  "strip_ascii_prefix text pfx =
     (if length pfx \<le> length text \<and> eq_ignore_ascii_case (take (length pfx) text) pfx
      then Some (drop (length pfx) text) else None)"

text \<open>The last three suffixes are the superscript digits one, two and three.\<close>

definition is_windows_reserved_basename :: "string \<Rightarrow> bool" where
  "is_windows_reserved_basename basename =
     (list_ex (eq_ignore_ascii_case basename) [''CON'', ''PRN'', ''AUX'', ''NUL'']
      \<or> list_ex (\<lambda>pfx. case strip_ascii_prefix basename pfx of None \<Rightarrow> False
          | Some sfx \<Rightarrow> sfx \<in> set [''1'', ''2'', ''3'', ''4'', ''5'', ''6'', ''7'', ''8'', ''9'',
              [CHR 0xC2, CHR 0xB9], [CHR 0xC2, CHR 0xB2], [CHR 0xC2, CHR 0xB3]]) [''COM'', ''LPT''])"

definition validate_windows_component :: "string \<Rightarrow> string + unit" where
  "validate_windows_component component =
     (if COLON \<in> set component then Inl ''alternate data streams are not serviceable''
      else if list_ex (\<lambda>c. c \<in> set [CHR 0x3C, CHR 0x3E, QUOTE, CHR 0x7C, CHR 0x3F, STAR]) component
        \<or> list_ex (\<lambda>c. 0x01 \<le> byte_val c \<and> byte_val c \<le> 0x1F) component
      then Inl ''Windows components contain forbidden characters''
      else if component \<noteq> [] \<and> (last component = DOT \<or> last component = SPACE)
      then Inl ''Windows components cannot end with dot or space''
      else if is_windows_reserved_basename (hd (split_on (\<lambda>c. c = DOT) component))
      then Inl ''Windows reserved device basename is not serviceable''
      else Inr ())"

definition validate_fs_component :: "bool \<Rightarrow> string \<Rightarrow> string + unit" where
  "validate_fs_component windows component =
     and_then (validate_portable_component component) (\<lambda>_.
       if windows then validate_windows_component component else Inr ())"

definition validate_windows_package_component :: "string \<Rightarrow> string + unit" where
  "validate_windows_package_component component =
     and_then (validate_portable_component component) (\<lambda>_.
     and_then (validate_windows_component component) (\<lambda>_.
       if CHR 0x7E \<in> set component then Inl ''Windows package components cannot contain tilde''
       else Inr ()))"

definition is_fs_root :: "bool \<Rightarrow> string \<Rightarrow> bool" where
  "is_fs_root windows path =
     (if windows then length path = 3 \<and> tl path = [COLON, SLASH] else path = [SLASH])"

fun validate_components :: "bool \<Rightarrow> string list \<Rightarrow> string + unit" where
  "validate_components windows [] = Inr ()"
| "validate_components windows (c # cs) =
     and_then (validate_fs_component windows c) (\<lambda>_. validate_components windows cs)"

definition fs_remainder :: "bool \<Rightarrow> string \<Rightarrow> string option" where
  "fs_remainder windows path =
     (if windows then
        (if length path < 3 \<or> \<not> is_ascii_uppercase (path ! 0) \<or> path ! 1 \<noteq> COLON \<or> path ! 2 \<noteq> SLASH
         then None else Some (drop 3 path))
      else strip_prefix path [SLASH])"

definition validate_fs_path :: "bool \<Rightarrow> string \<Rightarrow> string + unit" where
  "validate_fs_path windows path =
     (if path = [] then Inl ''path is empty''
      else if list_ex (\<lambda>c. c = CHR 0x00 \<or> c = BACKSLASH) path
      then Inl ''path contains NUL or a non-portable backslash separator''
      else case fs_remainder windows path of
        None \<Rightarrow> Inl (if windows then ''path must begin with an uppercase drive and '' @ TICK @ '':/'' @ TICK
                     else ''path must be absolute'')
      | Some remainder \<Rightarrow>
          if remainder = [] then Inr ()
          else validate_components windows (split_on (\<lambda>c. c = SLASH) remainder))"

definition scope_target :: "string \<Rightarrow> string \<times> PathScopeKind" where
  "scope_target pattern =
     (case strip_suffix pattern GLOB of
        Some root \<Rightarrow> (if root = [] then [SLASH] else root, Subtree)
      | None \<Rightarrow> (pattern, Exact))"

definition service_path :: "bool \<Rightarrow> string \<Rightarrow> PathScopeKind \<Rightarrow> string" where
  "service_path windows path kind =
     (if windows \<and> kind = Subtree \<and> length path = 2 \<and> is_ascii_uppercase (path ! 0) \<and> path ! 1 = COLON
      then path @ [SLASH] else path)"

fun collect_scopes :: "bool \<Rightarrow> nat \<Rightarrow> Value list \<Rightarrow> PathScope list \<Rightarrow> ScopeSetError + PathScope list" where
  "collect_scopes windows i [] scopes = Inr scopes"
| "collect_scopes windows i (v # vs) scopes =
     (case as_str v of
        None \<Rightarrow> Inl (InvalidPath i ''scope must be a string'')
      | Some pattern \<Rightarrow>
          (case find (\<lambda>scope. ps_pattern scope = pattern) scopes of
             Some scope \<Rightarrow> Inl (Duplicate (ps_grant_index scope) i)
           | None \<Rightarrow>
               if CHR 0x24 \<in> set pattern
               then Inl (InvalidPath i (''unexpanded '' @ TICK @ ''$VAR'' @ TICK @ '' scopes are not serviceable''))
               else let (path, kind) = scope_target pattern in
                 and_then (map_sum (InvalidPath i) id (validate_fs_path windows (service_path windows path kind))) (\<lambda>_.
                 if kind = Exact \<and> is_fs_root windows path
                 then Inl (InvalidPath i ''an exact scope must name a final file component'')
                 else collect_scopes windows (i + 1) vs
                   (scopes @ [\<lparr> ps_grant_index = i, ps_pattern = pattern, ps_kind = kind \<rparr>]))))"

definition path_scopes :: "bool \<Rightarrow> PermissionsManifest \<Rightarrow> string \<Rightarrow> ScopeSetError + PathScope list" where
  "path_scopes windows manifest operation =
     (if \<not> is_filesystem_capability operation
      then Inl (InvalidPath 0 (TICK @ operation @ TICK @ '' is not a filesystem capability''))
      else case grant_node manifest operation of
        None \<Rightarrow> Inr []
      | Some node \<Rightarrow>
          (case as_array node of
             None \<Rightarrow> Inl (InvalidPath 0 ''capability must be an array of path strings'')
           | Some values \<Rightarrow>
               if length values > MAX_PATH_SCOPES then Inl (TooMany (length values) MAX_PATH_SCOPES)
               else collect_scopes windows 0 values []))"

section \<open>Unambiguous JSON\<close>

fun keys_unique :: "Value \<Rightarrow> bool" where
  "keys_unique (VArray vs) = list_all keys_unique vs"
| "keys_unique (VObject kvs) = (distinct (map fst kvs) \<and> list_all (\<lambda>(k, v). keys_unique v) kvs)"
| "keys_unique _ = True"

text \<open>The value of an event tree read without any check on keys.\<close>

primrec plain_value :: "RawJson \<Rightarrow> Value option"
  and plain_seq :: "RawSeq \<Rightarrow> Value list option"
  and plain_map :: "RawMap \<Rightarrow> (string \<times> Value) list option" where
  "plain_value RNull = Some VNull"
| "plain_value (RBool b) = Some (VBool b)"
| "plain_value (RInt n) = Some (VNumber n)"
| "plain_value (RF64 v) = map_option VNumber v"
| "plain_value (RStr s) = Some (VString s)"
| "plain_value (RSeq s) = map_option VArray (plain_seq s)"
| "plain_value (RMap m) = map_option VObject (plain_map m)"
| "plain_value (RFail e) = None"
| "plain_seq SeqEnd = Some []"
| "plain_seq (SeqFail e) = None"
| "plain_seq (SeqNext r s) =
     Option.bind (plain_value r) (\<lambda>v. map_option ((#) v) (plain_seq s))"
| "plain_map MapEnd = Some []"
| "plain_map (MapFail e) = None"
| "plain_map (MapNext key r m) =
     Option.bind (plain_value r) (\<lambda>v. map_option ((#) (key, v)) (plain_map m))"

lemma unique_value_plain:
  "unique_value custom r = Inr v \<longleftrightarrow> plain_value r = Some v \<and> keys_unique v"
  "visit_seq custom s vs = Inr v \<longleftrightarrow>
     (\<exists>ws. plain_seq s = Some ws \<and> v = VArray (vs @ ws) \<and> list_all keys_unique ws)"
  "distinct (map fst kvs) \<Longrightarrow> visit_map custom m kvs = Inr v \<longleftrightarrow>
     (\<exists>ws. plain_map m = Some ws \<and> v = VObject (kvs @ ws) \<and> distinct (map fst (kvs @ ws))
        \<and> list_all (\<lambda>(k, v). keys_unique v) ws)"
proof (induction r and s and m arbitrary: v and vs v and kvs v
    rule: RawJson.induct RawSeq.induct RawMap.induct)
  case (MapNext key r m)
  show ?case
  proof (cases "key \<in> fst ` set kvs")
    case True
    then have "map_of kvs key \<noteq> None" by (simp add: map_of_eq_None_iff)
    with True show ?thesis by (auto simp: bind_eq_Some_conv)
  next
    case False
    then have "map_of kvs key = None" by (simp add: map_of_eq_None_iff)
    moreover have "distinct (map fst (kvs @ [(key, w)]))" for w using False MapNext.prems by auto
    ultimately show ?thesis using MapNext.IH
      by (fastforce simp: and_then_eq_Inr bind_eq_Some_conv)
  qed
qed (fastforce simp: and_then_eq_Inr bind_eq_Some_conv split: option.splits)+

text \<open>
  The manifest's JSON is read without ambiguity: parsing succeeds with a value exactly when
  the document decodes to that value, nothing follows it, and no object in it, at any depth,
  repeats a key.
\<close>

theorem unique_json_exact:
  "unique_parse custom from_str text = Inr v \<longleftrightarrow>
     plain_value (fst (from_str text)) = Some v \<and> snd (from_str text) = None \<and> keys_unique v"
  by (auto simp: unique_parse_def and_then_eq_Inr unique_value_plain split: prod.splits option.splits)

section \<open>Verified loading\<close>

lemma check_auth_Inr:
  "check_auth path m caps = Inr m' \<longleftrightarrow>
     m' = m \<and> (\<forall>cap \<in> set caps. \<forall>scopes. grant_node m cap = Some (VArray scopes)
        \<longrightarrow> list_all (\<lambda>s. \<not> bad_auth_scope s) (List.map_filter as_str scopes))"
proof (induction caps)
  case (Cons cap caps)
  show ?case
  proof (cases "Option.bind (grant_node m cap) as_array")
    case None
    then have "\<forall>scopes. grant_node m cap \<noteq> Some (VArray scopes)" by auto
    with None Cons show ?thesis by auto
  next
    case (Some arr)
    then have "grant_node m cap = Some (VArray arr)"
      by (auto simp: bind_eq_Some_conv elim!: as_array.elims)
    with Some Cons show ?thesis by (auto simp: list_ex_iff list_all_iff)
  qed
qed auto

lemma map_sum_left_Inr [simp]: "map_sum f id r = Inr a \<longleftrightarrow> r = Inr a"
  by (cases r) auto

lemma parse_manifest_at_auth:
  assumes "parse_manifest_at lib text path = Inr m" "cap = AUTH_BEGIN \<or> cap = AUTH_TOKEN"
    and "grant_node m cap = Some (VArray (map VString scopes))" "s \<in> set scopes"
  shows "\<not> sublist [STAR, STAR] s \<and> \<not> has_control s"
proof -
  from assms(1) obtain m' where c: "check_auth path m' [AUTH_BEGIN, AUTH_TOKEN] = Inr m"
    unfolding parse_manifest_at_def and_then_eq_Inr map_sum_left_Inr by blast
  then have "m' = m" unfolding check_auth_Inr by simp
  with c have "check_auth path m [AUTH_BEGIN, AUTH_TOKEN] = Inr m" by simp
  with assms(2-4) have "\<not> bad_auth_scope s" unfolding check_auth_Inr
    by (auto simp: list_all_iff)
  then show ?thesis by (simp add: bad_auth_scope_def)
qed

text \<open>What the grants of authentication capabilities may name.\<close>

definition auth_grants_ok :: "PermissionsManifest \<Rightarrow> bool" where
  "auth_grants_ok m =
     (\<forall>cap \<in> {AUTH_BEGIN, AUTH_TOKEN}. \<forall>scopes s. grant_node m cap = Some (VArray scopes) \<longrightarrow> VString s \<in> set scopes
        \<longrightarrow> \<not> sublist [STAR, STAR] s \<and> \<not> has_control s)"

lemma as_str_strings: "s \<in> set (List.map_filter as_str scopes) \<longleftrightarrow> VString s \<in> set scopes"
proof (induction scopes)
  case (Cons v vs)
  then show ?case by (cases v) (auto simp: List.map_filter_simps)
qed (simp add: List.map_filter_simps)

lemma check_auth_ok: "check_auth path m [AUTH_BEGIN, AUTH_TOKEN] = Inr m' \<longleftrightarrow> m' = m \<and> auth_grants_ok m"
proof -
  have "list_all (\<lambda>s. \<not> bad_auth_scope s) (List.map_filter as_str scopes)
      \<longleftrightarrow> (\<forall>s. VString s \<in> set scopes \<longrightarrow> \<not> sublist [STAR, STAR] s \<and> \<not> has_control s)" for scopes
    unfolding list_all_iff Ball_def as_str_strings bad_auth_scope_def by blast
  then show ?thesis unfolding check_auth_Inr auth_grants_ok_def by simp
qed

text \<open>A document that a manifest can be read from, by the lexical reading of its text.\<close>

definition document_holds :: "JsonLib \<Rightarrow> string \<Rightarrow> PermissionsManifest \<Rightarrow> bool" where
  "document_holds lib doc m \<longleftrightarrow>
     (\<exists>ps v. jsonc_reads doc ps \<and> plain_value (fst (jl_from_str lib (concat (map piece_shown ps)))) = Some v
        \<and> snd (jl_from_str lib (concat (map piece_shown ps))) = None \<and> keys_unique v \<and> jl_from_value lib v = Inr m)"

lemma parse_manifest_at_iff:
  assumes "valid_utf8 doc"
  shows "parse_manifest_at lib doc path = Inr m \<longleftrightarrow> document_holds lib doc m \<and> auth_grants_ok m"
  unfolding parse_manifest_at_def and_then_eq_Inr map_sum_left_Inr strip_jsonc_Inr [OF assms] unique_json_exact check_auth_ok
    document_holds_def by blast

lemma read_manifest_Inr:
  "read_manifest_bytes reader path = Inr bytes \<longleftrightarrow> reader = (bytes, None) \<and> length bytes \<le> 65536"
  by (cases reader)
    (auto simp: read_manifest_bytes_def and_then_eq_Inr ensure_manifest_size_def MAX_MANIFEST_BYTES_def Let_def
      split: if_splits option.splits)

text \<open>
  C39. A verified manifest is loaded exactly from a document that deserves it: the reader ends without
  an error within 64 KiB, its bytes have the expected digest and are UTF-8, and in the lexical
  reading of these very bytes, with nothing but comments blanked, they decode to one JSON value in
  which no object at any depth repeats a key and after which nothing follows, that value is the
  manifest, and no string granted at \<open>auth.begin\<close> or \<open>auth.token\<close> has a doubled wildcard or a
  control character; the result carries that manifest and that digest.
\<close>

theorem verified_manifest_exact:
  "load_verified_reader lib utf8_detail sha256 reader path expected = Inr vm \<longleftrightarrow>
     (\<exists>bytes. reader = (bytes, None) \<and> length bytes \<le> 65536 \<and> sha256 bytes = expected \<and> valid_utf8 bytes
        \<and> document_holds lib bytes (vm_manifest vm) \<and> auth_grants_ok (vm_manifest vm) \<and> vm_verified_sha256 vm = expected)"
proof -
  have vm: "\<lparr> vm_manifest = m, vm_verified_sha256 = d \<rparr> = vm \<longleftrightarrow> vm_manifest vm = m \<and> vm_verified_sha256 vm = d" for m d
    by (cases vm) auto
  have loaded: "load_verified_reader lib utf8_detail sha256 (bytes, None) path expected = Inr vm \<longleftrightarrow>
      sha256 bytes = expected \<and> valid_utf8 bytes \<and> document_holds lib bytes (vm_manifest vm)
      \<and> auth_grants_ok (vm_manifest vm) \<and> vm_verified_sha256 vm = expected" if "length bytes \<le> 65536" for bytes
  proof -
    have "read_manifest_bytes (bytes, None) path = Inr bytes" using that by (simp add: read_manifest_Inr)
    then show ?thesis by (auto simp: load_verified_reader_def Let_def and_then_eq_Inr parse_manifest_at_iff vm)
  qed
  show ?thesis
  proof (cases "\<exists>bytes. reader = (bytes, None) \<and> length bytes \<le> 65536")
    case True
    with loaded show ?thesis by blast
  next
    case False
    then show ?thesis unfolding load_verified_reader_def and_then_eq_Inr read_manifest_Inr by blast
  qed
qed

text \<open>
  No manifest that parses grants authentication to an issuer pattern: at \<open>auth.begin\<close> and
  \<open>auth.token\<close>, every string of a granted array is free of doubled wildcards and of C0, DEL and
  C1 control characters.
\<close>

theorem auth_grants_literal:
  assumes "parse_manifest lib text = Inr m" "cap \<in> {''auth.begin'', ''auth.token''}"
    and "grant_node m cap = Some (VArray (map VString scopes))" "s \<in> set scopes"
  shows "length text \<le> 65536 \<and> \<not> sublist ''**'' s \<and> \<not> has_control s"
proof -
  have "length text \<le> 65536" "parse_manifest_at lib text None = Inr m"
    using assms(1)
    by (auto simp: parse_manifest_def and_then_eq_Inr ensure_manifest_size_def MAX_MANIFEST_BYTES_def
        split: if_splits)
  then show ?thesis
    using parse_manifest_at_auth [of lib "text" None m cap scopes s] assms(2-4)
    by (auto simp: AUTH_BEGIN_def AUTH_TOKEN_def STAR_def)
qed

text \<open>A JSON library that knows one document.\<close>

definition sample_lib :: JsonLib where
  "sample_lib = \<lparr> jl_custom = id,
     jl_from_str = (\<lambda>t. (RMap (MapNext ''app'' (RMap (MapNext ''auth''
         (RMap (MapNext ''token'' (RSeq (SeqNext (RStr ''idp'') SeqEnd)) MapEnd)) MapEnd)) MapEnd), None)),
     jl_from_value = (\<lambda>v. case v of VObject [(k, VObject kvs)] \<Rightarrow> Inr \<lparr> pm_app = kvs \<rparr> | _ \<Rightarrow> Inl []) \<rparr>"

theorem auth_grants_literal_witness:
  "parse_manifest sample_lib ''{}'' = Inr \<lparr> pm_app = [(''auth'', VObject [(''token'', VArray [VString ''idp''])])] \<rparr>
   \<and> \<not> sublist ''**'' ''idp'' \<and> \<not> has_control ''idp''"
proof -
  have p: "parse_manifest sample_lib ''{}''
      = Inr \<lparr> pm_app = [(''auth'', VObject [(''token'', VArray [VString ''idp''])])] \<rparr>" (is "_ = Inr ?m")
    by code_simp
  moreover have "grant_node ?m ''auth.token'' = Some (VArray (map VString [''idp'']))" by code_simp
  ultimately show ?thesis using auth_grants_literal [OF p, of "''auth.token''" "[''idp'']" "''idp''"] by simp
qed

section \<open>Retained filesystem scopes\<close>

definition serviceable :: "bool \<Rightarrow> string \<Rightarrow> bool" where
  "serviceable windows pattern =
     (CHR 0x24 \<notin> set pattern
      \<and> (let (path, kind) = scope_target pattern in
           validate_fs_path windows (service_path windows path kind) = Inr ()
           \<and> \<not> (kind = Exact \<and> is_fs_root windows path)))"

definition scope_at :: "nat \<Rightarrow> string \<Rightarrow> PathScope" where
  "scope_at i pattern =
     \<lparr> ps_grant_index = i, ps_pattern = pattern, ps_kind = snd (scope_target pattern) \<rparr>"

lemma scope_at_simps [simp]:
  "ps_pattern (scope_at i p) = p" "ps_grant_index (scope_at i p) = i"
  by (simp_all add: scope_at_def)

lemma collect_scopes_step:
  "collect_scopes windows i (VString p # vs) scopes = Inr out \<longleftrightarrow>
     p \<notin> ps_pattern ` set scopes \<and> serviceable windows p
     \<and> collect_scopes windows (i + 1) vs (scopes @ [scope_at i p]) = Inr out"
proof (cases "find (\<lambda>scope. ps_pattern scope = p) scopes")
  case (Some scope)
  then have "p \<in> ps_pattern ` set scopes" using find_Some_in [OF Some] by auto
  with Some show ?thesis by simp
next
  case None
  then have "p \<notin> ps_pattern ` set scopes" by (auto simp: find_None_iff)
  with None show ?thesis
    by (cases "scope_target p")
      (auto simp: serviceable_def scope_at_def and_then_eq_Inr split: if_splits)
qed

fun scopes_from :: "nat \<Rightarrow> string list \<Rightarrow> PathScope list" where
  "scopes_from i [] = []"
| "scopes_from i (p # ps) = scope_at i p # scopes_from (i + 1) ps"

lemma scopes_from_nth: "scopes_from i pats = map (\<lambda>k. scope_at (i + k) (pats ! k)) [0..<length pats]"
proof (induction pats arbitrary: i)
  case (Cons p pats)
  have "[0..<length (p # pats)] = 0 # map Suc [0..<length pats]"
    by (simp add: map_Suc_upt upt_conv_Cons del: upt_Suc)
  with Cons show ?case by (simp add: comp_def)
qed simp

lemma collect_scopes_Inr:
  "collect_scopes windows i (map VString pats) scopes = Inr out \<longleftrightarrow>
     list_all (serviceable windows) pats \<and> distinct pats
     \<and> set pats \<inter> ps_pattern ` set scopes = {} \<and> out = scopes @ scopes_from i pats"
proof (induction pats arbitrary: i scopes)
  case (Cons p pats)
  show ?case unfolding list.map collect_scopes_step Cons.IH by auto
qed auto

lemma collect_scopes_strings:
  "collect_scopes windows i vs scopes = Inr out \<Longrightarrow> \<exists>pats. vs = map VString pats"
proof (induction vs arbitrary: i scopes)
  case (Cons v vs)
  then obtain p where v: "v = VString p" by (cases v) auto
  with Cons.prems obtain pats where "vs = map VString pats"
    using Cons.IH unfolding v collect_scopes_step by blast
  with v show ?case by (intro exI [of _ "p # pats"]) simp
qed simp

lemma map_VString_inject [simp]: "map VString a = map VString b \<longleftrightarrow> a = b"
  by (simp add: inj_map_eq_map inj_def)

text \<open>
  The scope set handed to the filesystem broker is exact: it is built if and only if the
  capability is a filesystem one and its grant is absent or an array of at most 64 distinct,
  variable-free, absolute and normalized path patterns of which no exact one is the root; then it
  lists precisely those patterns, in manifest order and each under its manifest index.
\<close>

theorem path_scopes_exact:
  "path_scopes windows manifest operation = Inr scopes \<longleftrightarrow>
     operation \<in> {''fs.read'', ''fs.write''}
     \<and> (grant_node manifest operation = None \<and> scopes = []
        \<or> (\<exists>pats. grant_node manifest operation = Some (VArray (map VString pats))
             \<and> length pats \<le> 64 \<and> distinct pats \<and> list_all (serviceable windows) pats
             \<and> scopes = map (\<lambda>i. scope_at i (pats ! i)) [0..<length pats]))"
proof (cases "Option.bind (grant_node manifest operation) as_array")
  case None
  then show ?thesis
    by (auto simp: path_scopes_def is_filesystem_capability_def FS_READ_def FS_WRITE_def split: option.splits)
next
  case (Some arr)
  then have "grant_node manifest operation = Some (VArray arr)"
    by (auto simp: bind_eq_Some_conv elim!: as_array.elims)
  then have "path_scopes windows manifest operation = Inr scopes \<longleftrightarrow>
      operation \<in> {''fs.read'', ''fs.write''} \<and> length arr \<le> 64 \<and> collect_scopes windows 0 arr [] = Inr scopes"
    by (auto simp: path_scopes_def is_filesystem_capability_def FS_READ_def FS_WRITE_def MAX_PATH_SCOPES_def)
  moreover have "collect_scopes windows 0 arr [] = Inr scopes \<longleftrightarrow>
      (\<exists>pats. arr = map VString pats \<and> distinct pats \<and> list_all (serviceable windows) pats
         \<and> scopes = map (\<lambda>i. scope_at i (pats ! i)) [0..<length pats])"
    using collect_scopes_strings [of windows 0 arr "[]" scopes]
    by (auto simp: collect_scopes_Inr scopes_from_nth)
  ultimately show ?thesis using \<open>grant_node manifest operation = Some (VArray arr)\<close> by auto
qed

text \<open>
  C40. The permit of an allowed filesystem operation names a retained scope: at the permit's
  index the broker's scope set has an entry under that very index whose pattern covers the path.
\<close>

theorem permit_names_retained_scope:
  assumes "evaluate manifest who operation path = Allow permit"
    and "path_scopes windows manifest operation = Inr scopes"
  shows "grant_index permit < length scopes
    \<and> ps_grant_index (scopes ! grant_index permit) = grant_index permit
    \<and> path_in_scope path (ps_pattern (scopes ! grant_index permit))"
proof -
  have "who = AppProcess" using assms(1) by (cases "who = AppProcess") (auto simp: evaluate_def)
  moreover obtain decl where decl: "declared manifest operation decl"
    using assms(1) calculation evaluate_undeclared [of manifest operation path]
    by (auto simp: deny_not_granted_def)
  ultimately have "find_index (path_in_scope path) decl = Some (grant_index permit)"
    using assms(1) evaluate_declared [OF decl, of path]
    by (auto simp: deny_out_of_scope_def split: if_splits option.splits)
  then have "grant_index permit < length decl \<and> path_in_scope path (decl ! grant_index permit)"
    by (simp add: find_index_Some_iff)
  moreover have "grant_node manifest operation = Some (VArray (map VString decl))"
    using decl by (simp add: declared_def)
  with assms(2) have "collect_scopes windows 0 (map VString decl) [] = Inr scopes"
    by (auto simp: path_scopes_def split: if_splits)
  then have "scopes = map (\<lambda>i. scope_at i (decl ! i)) [0..<length decl]"
    by (simp add: collect_scopes_Inr scopes_from_nth)
  ultimately show ?thesis by simp
qed

theorem permit_names_retained_scope_witness:
  "evaluate sample_manifest AppProcess ''fs.read'' ''/srv/a'' = Allow \<lparr> grant_index = 1 \<rparr>
   \<and> path_scopes False sample_manifest ''fs.read'' = Inr [scope_at 0 ''/etc/x'', scope_at 1 ''/srv/**'']
   \<and> path_in_scope ''/srv/a'' (ps_pattern ([scope_at 0 ''/etc/x'', scope_at 1 ''/srv/**''] ! 1))"
proof -
  have e: "evaluate sample_manifest AppProcess ''fs.read'' ''/srv/a'' = Allow \<lparr> grant_index = 1 \<rparr>" by code_simp
  moreover have p: "path_scopes False sample_manifest ''fs.read''
      = Inr [scope_at 0 ''/etc/x'', scope_at 1 ''/srv/**'']" by code_simp
  ultimately show ?thesis using permit_names_retained_scope [OF e p] by simp
qed

end
