(* ===== verification/Guard_Dispatch.thy ===== *)
theory Guard_Dispatch
  imports Guard_Manifest Kipc_Session
begin

text \<open>
  Guarded dispatch of privileged calls (\<open>crates/keld-ipc/src/guard_dispatch.rs\<close>) and the
  structured \<open>ERR\<close> payload that answers a failed call (\<open>call_error.rs\<close>). The handler is a
  function on the state of the host it acts on, so that \<open>not running it\<close> is leaving that state
  alone; the postcard encoder is an argument.
\<close>

section \<open>Dispatch\<close>

definition filesystem_dispatch_path_is_valid :: "bool \<Rightarrow> string \<Rightarrow> string \<Rightarrow> bool" where
  "filesystem_dispatch_path_is_valid windows operation path =
     (if \<not> (operation = FS_READ \<or> operation = FS_WRITE) then True
      else if path = [] \<or> list_ex (\<lambda>c. c = CHR 0x00 \<or> c = BACKSLASH) path then False
      else case fs_remainder windows path of
        None \<Rightarrow> False
      | Some remainder \<Rightarrow>
          remainder = []
          \<or> list_all (\<lambda>component. is_ok (validate_fs_component windows component))
              (split_on (\<lambda>c. c = SLASH) remainder))"

definition dispatch_privileged ::
  "bool \<Rightarrow> PermissionsManifest \<Rightarrow> Principal \<Rightarrow> string \<Rightarrow> string \<Rightarrow> (ScopePermit \<Rightarrow> 's \<Rightarrow> 'a \<times> 's) \<Rightarrow> 's
    \<Rightarrow> (DenyReason + 'a) \<times> 's" where
  "dispatch_privileged windows manifest who operation path handler s =
     (case evaluate manifest who operation path of
        Deny (NotAppProcess p) \<Rightarrow> (Inl (NotAppProcess p), s)
      | decision \<Rightarrow>
          if \<not> filesystem_dispatch_path_is_valid windows operation path
          then (Inl (OutOfScope operation ''absolute normalized filesystem request''
                  (json_pointer_for operation) path), s)
          else (case decision of
              Allow permit \<Rightarrow> (let (a, s') = handler permit s in (Inr a, s'))
            | Deny reason \<Rightarrow> (Inl reason, s)))"

section \<open>Call errors\<close>

record CallError =
  ce_code :: string
  ce_message :: string

definition call_error_display :: "CallError \<Rightarrow> string" where
  "call_error_display e =
     (if prefix (ce_code e) (ce_message e) then ce_message e else ce_code e @ '': '' @ ce_message e)"

definition admission_capacity :: CallError where
  "admission_capacity = \<lparr> ce_code = ''KELD-IPC-005'',
     ce_message = ''KELD-IPC-005: guarded call capacity is exhausted; this call was not admitted. ''
       @ ''Wait for admitted work to finish before issuing new work; the link remains usable.'' \<rparr>"

definition generation_retired :: CallError where
  "generation_retired = \<lparr> ce_code = ''KELD-IPC-023'',
     ce_message = ''KELD-IPC-023: role generation retired before this call completed. The ''
       @ ''role instance is being replaced or stopped, and the call'' @ [CHR 0x27] @ ''s host effect is ''
       @ ''unknown: its handler may have run. Do not replay it, here or from the ''
       @ ''successor generation, without an idempotency contract for that call.'' \<rparr>"

definition quit_drained :: CallError where
  "quit_drained = \<lparr> ce_code = ''KELD-IPC-024'',
     ce_message = ''KELD-IPC-024: session ended by an accepted Quit before this call ''
       @ ''completed. The application is quitting: do not issue new work; finish ''
       @ ''only the shutdown path.'' \<rparr>"

definition call_error_from_deny :: "DenyReason \<Rightarrow> CallError" where
  "call_error_from_deny reason = \<lparr> ce_code = deny_code reason, ce_message = deny_display reason \<rparr>"

definition write_call_error ::
  "(CallError \<Rightarrow> bytes option) \<Rightarrow> ChannelId \<Rightarrow> CorrelationId \<Rightarrow> CallError \<Rightarrow> unit io" where
  "write_call_error to_allocvec channel corr err =
     io_bind (io_lift (encode_payload to_allocvec err)) (\<lambda>payload.
       write_frame Err 0 channel corr payload)"

section \<open>A dispatched path is resolved\<close>

lemma fold_enter_normal:
  "list_all (\<lambda>c. is_ok (validate_fs_component windows c)) segs \<Longrightarrow> fold enter segs stack = rev segs @ stack"
proof (induction segs arbitrary: stack)
  case (Cons s segs)
  then have "enter s stack = s # stack"
    by (auto simp: enter_def is_ok_iff validate_fs_component_def validate_portable_component_def
        and_then_eq_Inr split: if_splits)
  with Cons show ?case by simp
qed simp

text \<open>A filesystem path that is rooted and whose segments have nothing left to resolve.\<close>

definition fs_resolved :: "bool \<Rightarrow> string \<Rightarrow> bool" where
  "fs_resolved windows path =
     (case fs_remainder windows path of
        None \<Rightarrow> False
      | Some remainder \<Rightarrow>
          resolve remainder = (if remainder = [] then [] else split_on (\<lambda>c. c = SLASH) remainder))"

lemma dispatch_path_resolved:
  assumes "filesystem_dispatch_path_is_valid windows operation path"
    and "operation = ''fs.read'' \<or> operation = ''fs.write''"
  shows "fs_resolved windows path"
proof -
  obtain remainder where r: "fs_remainder windows path = Some remainder"
    "remainder = [] \<or> list_all (\<lambda>c. is_ok (validate_fs_component windows c)) (split_on (\<lambda>c. c = SLASH) remainder)"
    using assms
    by (auto simp: filesystem_dispatch_path_is_valid_def FS_READ_def FS_WRITE_def
        split: if_splits option.splits)
  then show ?thesis using fold_enter_normal [of windows "split_on (\<lambda>c. c = SLASH) remainder" "[]"]
    by (auto simp: fs_resolved_def resolve_def enter_def)
qed

lemma evaluate_app_deny: "evaluate manifest AppProcess operation path \<noteq> Deny (NotAppProcess p)"
  by (cases "\<exists>scopes. declared manifest operation scopes")
    (auto simp: evaluate_undeclared evaluate_declared deny_not_granted_def deny_out_of_scope_def
      split: if_splits option.splits)

text \<open>
  C10. A privileged handler runs only on the guard's permit, and on a filesystem operation only
  for a path below the root whose segments are already in normal form, so that nothing is left
  to resolve. In every other case the host state is untouched and the caller gets the reason:
  GUARD006 for a principal that is not the app, GUARD002 for a path not in normal form, else the
  guard's own reason.
\<close>

theorem dispatch_guarded:
  "case dispatch_privileged windows manifest who operation path handler s of
     (Inr a, s') \<Rightarrow>
       (\<exists>permit. evaluate manifest who operation path = Allow permit \<and> handler permit s = (a, s'))
       \<and> (if operation \<in> {''fs.read'', ''fs.write''} then fs_resolved windows path else True)
   | (Inl reason, s') \<Rightarrow> s' = s
       \<and> (if who \<noteq> AppProcess then reason = NotAppProcess who
          else if \<not> filesystem_dispatch_path_is_valid windows operation path
          then reason = OutOfScope operation ''absolute normalized filesystem request''
                 (json_pointer_for operation) path
          else evaluate manifest who operation path = Deny reason)"
proof (cases "who = AppProcess")
  case True
  show ?thesis
  proof (cases "evaluate manifest who operation path")
    case (Allow permit)
    obtain a s' where "handler permit s = (a, s')" by fastforce
    with True Allow dispatch_path_resolved [of windows operation path] show ?thesis
      by (simp add: dispatch_privileged_def)
  next
    case (Deny reason)
    with True evaluate_app_deny [of manifest operation path] show ?thesis
      by (cases reason) (auto simp: dispatch_privileged_def)
  qed
next
  case False
  then show ?thesis by (simp add: dispatch_privileged_def evaluate_def)
qed

lemma deny_display_code: "prefix (deny_code reason) (deny_display reason)"
  by (cases reason) (simp_all add: prefix_def)

text \<open>
  A denial is answered on its call: the reply is one \<open>ERR\<close> frame, without flags, on the
  channel and correlation of the call, whose payload carries the reason's stable code and its
  full text, and that text shows the code.
\<close>

theorem denial_answers_call:
  assumes "to_allocvec (call_error_from_deny reason) = Some payload" "length payload \<le> MAX_FRAME_LEN"
    and "list_all (\<lambda>w. w = Wrote) (lk_writes l)"
  shows "\<exists>l'. write_call_error to_allocvec channel corr (call_error_from_deny reason) l = Some (Inr (), l')
    \<and> lk_in l' = lk_in l
    \<and> lk_out l' = lk_out l @ encode \<lparr> fh_kind = Err, fh_flags = 0, fh_channel = channel, fh_corr = corr,
        fh_len = of_nat (length payload) \<rparr> @ payload
    \<and> call_error_display (call_error_from_deny reason) = deny_display reason"
proof -
  have "call_error_display (call_error_from_deny reason) = deny_display reason"
    by (simp add: call_error_display_def call_error_from_deny_def deny_display_code)
  then show ?thesis
    using assms write_frame_ok [OF assms(2,3), of Err 0 channel corr]
    by (auto simp: write_call_error_def encode_payload_def io_bind_def io_lift_def)
qed

theorem denial_answers_call_witness:
  "\<exists>l'. write_call_error (\<lambda>e. Some (bytes_of (ce_code e))) 9 4 (call_error_from_deny (NotAppProcess (Plugin 2)))
      \<lparr> lk_in = [], lk_ticks = [], lk_writes = [], lk_out = [] \<rparr> = Some (Inr (), l')
    \<and> lk_in l' = []
    \<and> lk_out l' = encode \<lparr> fh_kind = Err, fh_flags = 0, fh_channel = 9, fh_corr = 4, fh_len = 13 \<rparr>
        @ bytes_of ''KELD-GUARD006''"
  using denial_answers_call [of "\<lambda>e. Some (bytes_of (ce_code e))" "NotAppProcess (Plugin 2)"
      "bytes_of ''KELD-GUARD006''" "\<lparr> lk_in = [], lk_ticks = [], lk_writes = [], lk_out = [] \<rparr>" 9 4]
  by (auto simp: call_error_from_deny_def bytes_of_def MAX_FRAME_LEN_def)

end
