(* ===== verification/Window_Router.thy ===== *)
theory Window_Router
  imports Window_History Guard_Dispatch
begin

text \<open>
  The window service of the primary app link
  (\<open>crates/keld-core/src/app_session/window_router.rs\<close>), which drives the registry from calls of
  the app and events of the UI and writes facts and replies on the one ordered link. The locks are
  held in a fixed order and are not modelled, poisoning included: an operation is one transition
  of the whole state. Postcard, the Runtime owner and the other services retired with a generation
  are fields of an environment. An error keeps its structure instead of its text; diagnostics are
  left out.
\<close>

section \<open>Data\<close>

datatype SubscribeRefusal = UnknownChannel | NotSubscribable | GuardedNotSupported | RoleNotAdmitted

datatype LifecycleEvent = LifecycleReady | LastWindowClosed

datatype LifecycleResponse = LifecycleQuit | Subscribed | SubscribeRefused SubscribeRefusal

datatype AppWindowCommand =
    CmdQuit
  | CmdFatal
  | CmdCreateWindow u64 u32 u32 "i32 option" "i32 option"
  | CmdSetMaximized WebviewId bool
  | CmdSetFullScreen WebviewId bool
  | CmdDestroyWindow WebviewId

datatype BuildStage = StageWindow | StageWebview

record WindowSnapshot =
  sn_x :: i32
  sn_y :: i32
  sn_width :: u32
  sn_height :: u32
  sn_focused :: bool
  sn_maximized :: bool
  sn_full_screen :: bool

datatype AppWindowEvent =
    UiNavigationReady
  | UiHostInitialized
  | UiLastWindowClosed
  | UiWindowBuilt u64 WebviewId WindowSnapshot
  | UiWindowBuildFailed u64 BuildStage
  | UiWindowCloseRequested WebviewId
  | UiWindowBounds WebviewId i32 i32 u32 u32
  | UiWindowFocus WebviewId bool
  | UiWindowMaximized WebviewId bool
  | UiWindowFullScreen WebviewId bool
  | UiWindowReleased WebviewId

datatype HostAppError =
    AppDetail string string
  | AppIpc string IpcError
  | AppCleanup HostAppError "HostAppError list"
  | SessionCleanup "HostAppError list"

text \<open>
  The current generation of the app link. The reader's stop flag is shared with the caller
  contexts of the same link; \<open>ag_link\<close> is the identity of that shared flag.
\<close>

record ActivePrimaryGeneration =
  ag_attempt :: u32
  ag_identity :: PrimaryLinkIdentity
  ag_writer :: Link
  ag_reader_stop :: bool
  ag_link :: nat

record PrimaryCallerContext =
  cc_attempt :: u32
  cc_identity :: PrimaryLinkIdentity
  cc_link :: nat

record WindowSession =
  ws_registry :: WindowRegistry
  ws_native_supported :: bool
  ws_subscribed :: "WindowOwner option"

text \<open>
  The fields of the router handle the window service uses: the current generation, the optional
  window session, whether the session is running and has published Ready, the commands sent to the
  UI and whether it still takes them, the local \<open>failed\<close> marker of an operation, and the
  generations reported to the Runtime owner.
\<close>

record Router =
  rt_current :: "ActivePrimaryGeneration option"
  rt_windows :: "WindowSession option"
  rt_running :: bool
  rt_window_ready :: bool
  rt_commands :: "AppWindowCommand list"
  rt_ui_open :: bool
  rt_failed :: "u32 option"
  rt_link_failures :: "u32 list"

record WindowEnv =
  we_event :: "WindowEvent \<Rightarrow> bytes option"
  we_response :: "WindowResponse \<Rightarrow> bytes option"
  we_lifecycle_event :: "LifecycleEvent \<Rightarrow> bytes option"
  we_lifecycle :: "LifecycleResponse \<Rightarrow> bytes option"
  we_error :: "CallError \<Rightarrow> bytes option"
  we_request :: "bytes \<Rightarrow> (WindowRequest \<times> bytes) option"
  we_fail_generation :: "u32 \<Rightarrow> HostAppError + unit"
  we_retire_others :: "u32 \<Rightarrow> (HostAppError + unit) list"

type_synonym route = "Router \<Rightarrow> (HostAppError + unit) \<times> Router"

definition route_ok :: route where "route_ok rt = (Inr (), rt)"

definition route_then :: "route \<Rightarrow> route \<Rightarrow> route" where
  "route_then m n rt = (case m rt of (Inl e, rt1) \<Rightarrow> (Inl e, rt1) | (Inr _, rt1) \<Rightarrow> n rt1)"

fun route_all :: "route list \<Rightarrow> route" where
  "route_all [] = route_ok"
| "route_all (m # ms) = route_then m (route_all ms)"

section \<open>Results\<close>

fun errors_of :: "(HostAppError + unit) list \<Rightarrow> HostAppError list" where
  "errors_of [] = []"
| "errors_of (Inl e # rs) = e # errors_of rs"
| "errors_of (Inr _ # rs) = errors_of rs"

definition collapse_app_results :: "(HostAppError + unit) list \<Rightarrow> HostAppError + unit" where
  "collapse_app_results results =
     (case errors_of results of
        [] \<Rightarrow> Inr ()
      | [e] \<Rightarrow> Inl e
      | es \<Rightarrow> Inl (SessionCleanup es))"

definition append_app_cleanup :: "HostAppError \<Rightarrow> (HostAppError + unit) list \<Rightarrow> HostAppError" where
  "append_app_cleanup primary cleanup =
     (case errors_of cleanup of [] \<Rightarrow> primary | es \<Rightarrow> AppCleanup primary es)"

section \<open>Ordered writes\<close>

definition WINDOW_PAYLOAD_STORAGE_BYTES :: nat where "WINDOW_PAYLOAD_STORAGE_BYTES = 64"

definition window_session_new :: "bool \<Rightarrow> WindowSession" where
  "window_session_new native_supported =
     \<lparr> ws_registry = new_window_registry, ws_native_supported = native_supported, ws_subscribed = None \<rparr>"

definition encode_into :: "('a \<Rightarrow> bytes option) \<Rightarrow> nat \<Rightarrow> 'a \<Rightarrow> IpcError + bytes" where
  "encode_into to_slice capacity value =
     (case to_slice value of
        None \<Rightarrow> Inl Codec
      | Some bs \<Rightarrow> if length bs \<le> capacity then Inr bs else Inl Codec)"

definition subscription_refusal :: "ReceiveClass \<Rightarrow> Authority \<Rightarrow> bool \<Rightarrow> bool \<Rightarrow> SubscribeRefusal option" where
  "subscription_refusal class authority lifecycle primary =
     (if \<not> carries_host_events class \<or> lifecycle then Some NotSubscribable
      else if authority \<noteq> HostInternal then Some GuardedNotSupported
      else if \<not> primary then Some RoleNotAdmitted
      else None)"

fun is_primary :: "PrimaryLinkIdentity \<Rightarrow> bool" where
  "is_primary (LinkRole p) = (rp_owner p = Primary)"

definition generation_owner :: "ActivePrimaryGeneration \<Rightarrow> WindowOwner" where
  "generation_owner a = \<lparr> wo_identity = ag_identity a, wo_attempt = ag_attempt a \<rparr>"

definition caller_owner :: "PrimaryCallerContext \<Rightarrow> WindowOwner" where
  "caller_owner c = \<lparr> wo_identity = cc_identity c, wo_attempt = cc_attempt c \<rparr>"

definition active_owner :: "WindowOwner \<Rightarrow> Router \<Rightarrow> bool" where
  "active_owner expected rt =
     (case rt_current rt of
        None \<Rightarrow> False
      | Some a \<Rightarrow> generation_owner a = expected \<and> \<not> ag_reader_stop a)"

text \<open>Every caller of a write has found the generation it writes to.\<close>

definition write_payload :: "FrameKind \<Rightarrow> ChannelId \<Rightarrow> CorrelationId \<Rightarrow> bytes \<Rightarrow> route" where
  "write_payload kind channel correlation payload rt =
     (case rt_current rt of
        None \<Rightarrow> (Inr (), rt)
      | Some a \<Rightarrow>
          (case the (write_frame kind 0 channel correlation payload (ag_writer a)) of
             (Inr _, l) \<Rightarrow> (Inr (), rt\<lparr> rt_current := Some (a\<lparr> ag_writer := l \<rparr>) \<rparr>)
           | (Inl source, l) \<Rightarrow>
               (Inl (AppIpc ''window ordered writer'' source),
                rt\<lparr> rt_current := Some (a\<lparr> ag_writer := l \<rparr>), rt_failed := Some (ag_attempt a) \<rparr>)))"

definition write_encoded :: "string \<Rightarrow> IpcError + bytes \<Rightarrow> FrameKind \<Rightarrow> ChannelId \<Rightarrow> CorrelationId \<Rightarrow> route" where
  "write_encoded what encoded kind channel correlation rt =
     (case encoded of
        Inl source \<Rightarrow> (Inl (AppIpc what source), rt)
      | Inr bs \<Rightarrow> write_payload kind channel correlation bs rt)"

definition window_reply :: "WindowEnv \<Rightarrow> CorrelationId \<Rightarrow> WindowResponse \<Rightarrow> route" where
  "window_reply env correlation reply =
     write_encoded ''window reply encode'' (encode_into (we_response env) WINDOW_PAYLOAD_STORAGE_BYTES reply)
       Reply (ce_id WINDOW) correlation"

definition lifecycle_reply :: "WindowEnv \<Rightarrow> CorrelationId \<Rightarrow> LifecycleResponse \<Rightarrow> route" where
  "lifecycle_reply env correlation reply =
     write_encoded ''window Subscribe reply encode''
       (encode_into (we_lifecycle env) WINDOW_PAYLOAD_STORAGE_BYTES reply) Reply LIFECYCLE_CHANNEL correlation"

definition window_call_error :: "WindowEnv \<Rightarrow> CorrelationId \<Rightarrow> string \<Rightarrow> string \<Rightarrow> route" where
  "window_call_error env correlation code message =
     write_encoded ''window error encode''
       (encode_payload (we_error env) \<lparr> ce_code = code, ce_message = message \<rparr>) Err (ce_id WINDOW) correlation"

definition window_event :: "WindowEnv \<Rightarrow> WindowEvent \<Rightarrow> route" where
  "window_event env told =
     write_encoded ''window fact encode'' (encode_into (we_event env) WINDOW_PAYLOAD_STORAGE_BYTES told)
       Event (ce_id WINDOW) 0"

definition owned_event :: "WindowEnv \<Rightarrow> WindowOwner option \<Rightarrow> OwnedWindowEvent \<Rightarrow> route" where
  "owned_event env subscribed told rt =
     (if subscribed = Some (oe_owner told) \<and> active_owner (oe_owner told) rt
      then window_event env (oe_event told) rt else (Inr (), rt))"

definition owned_reply :: "WindowEnv \<Rightarrow> WindowOwner option \<Rightarrow> WindowReply \<Rightarrow> route" where
  "owned_reply env subscribed reply rt =
     (if subscribed = Some (wr_owner reply) \<and> active_owner (wr_owner reply) rt
      then window_reply env (wr_correlation reply) (wr_response reply) rt else (Inr (), rt))"

definition last_window_locked :: "WindowEnv \<Rightarrow> WindowOwner option \<Rightarrow> WindowOwner option \<Rightarrow> route" where
  "last_window_locked env subscribed recipient rt =
     (case recipient of
        None \<Rightarrow> (Inr (), rt)
      | Some who \<Rightarrow>
          if subscribed = Some who \<and> active_owner who rt
          then write_encoded ''window last-window encode''
            (encode_into (we_lifecycle_event env) WINDOW_PAYLOAD_STORAGE_BYTES LastWindowClosed)
            Event LIFECYCLE_CHANNEL 0 rt
          else (Inr (), rt))"

fun stage_name :: "BuildStage \<Rightarrow> string" where
  "stage_name StageWindow = ''window''"
| "stage_name StageWebview = ''webview''"

definition window_build_failed_locked ::
  "WindowEnv \<Rightarrow> WindowOwner option \<Rightarrow> BuildFailureOutcome \<Rightarrow> BuildStage \<Rightarrow> route" where
  "window_build_failed_locked env subscribed outcome stage =
     route_then
       (\<lambda>rt. case bf_call outcome of
          None \<Rightarrow> (Inr (), rt)
        | Some call \<Rightarrow>
            if subscribed = Some (call_owner call) \<and> active_owner (call_owner call) rt
            then window_call_error env (call_correlation call) ''KELD-CORE-041''
              (''KELD-CORE-041: native '' @ stage_name stage @
               '' creation failed. Inspect the UI owner's typed error and correct the requested window resources.'') rt
            else (Inr (), rt))
       (last_window_locked env subscribed (bf_last_window outcome))"

definition window_released_locked :: "WindowEnv \<Rightarrow> WindowOwner option \<Rightarrow> ReleaseOutcome \<Rightarrow> route" where
  "window_released_locked env subscribed outcome =
     route_then (case ro_fact outcome of None \<Rightarrow> route_ok | Some told \<Rightarrow> owned_event env subscribed told)
    (route_then (last_window_locked env subscribed (ro_last_window outcome))
      (route_all (map (\<lambda>call. owned_reply env subscribed
         \<lparr> wr_owner = call_owner call, wr_correlation = call_correlation call, wr_response = RespDestroyed \<rparr>)
         (ro_destroy_calls outcome))))"

definition native_state :: "WindowSnapshot \<Rightarrow> WindowState" where
  "native_state snapshot =
     \<lparr> st_bounds = \<lparr> rect_x = sn_x snapshot, rect_y = sn_y snapshot,
         rect_width = sn_width snapshot, rect_height = sn_height snapshot \<rparr>,
       st_focused = sn_focused snapshot, st_maximized = sn_maximized snapshot,
       st_full_screen = sn_full_screen snapshot \<rparr>"

section \<open>Operations\<close>

definition put_registry :: "WindowSession \<Rightarrow> WindowRegistry \<Rightarrow> Router \<Rightarrow> Router" where
  "put_registry s r rt = rt\<lparr> rt_windows := Some (s\<lparr> ws_registry := r \<rparr>) \<rparr>"

definition mark_window_registry_ready :: "Router \<Rightarrow> bool \<times> Router" where
  "mark_window_registry_ready rt =
     (case rt_windows rt of
        None \<Rightarrow> (True, rt)
      | Some s \<Rightarrow> (case mark_ready (ws_registry s) of (ready, r) \<Rightarrow> (ready, put_registry s r rt)))"

definition retire_window_owner :: "WindowOwner \<Rightarrow> Router \<Rightarrow> Router" where
  "retire_window_owner retired rt =
     (case rt_windows rt of
        None \<Rightarrow> rt
      | Some s \<Rightarrow>
          rt\<lparr> rt_windows := Some (s\<lparr> ws_subscribed := (if ws_subscribed s = Some retired then None else ws_subscribed s),
            ws_registry := snd (role_lost retired (ws_registry s)) \<rparr>) \<rparr>)"

definition retire_current_generation_locked :: "WindowEnv \<Rightarrow> u32 \<Rightarrow> route" where
  "retire_current_generation_locked env attempt rt =
     (case rt_current rt of
        None \<Rightarrow> (Inr (), rt)
      | Some a \<Rightarrow>
          if ag_attempt a \<noteq> attempt then (Inr (), rt)
          else (collapse_app_results (we_retire_others env attempt),
                retire_window_owner (generation_owner a) (rt\<lparr> rt_current := None \<rparr>)))"

definition finish_window_write :: "WindowEnv \<Rightarrow> route \<Rightarrow> route" where
  "finish_window_write env operation rt =
     (case operation rt of (result, rt1) \<Rightarrow>
        (case (rt_failed rt1, result) of
           (Some attempt, Inl primary) \<Rightarrow>
             (case retire_current_generation_locked env attempt rt1 of
                (retirement, rt2) \<Rightarrow> (Inl (append_app_cleanup primary [retirement]), rt2))
         | _ \<Rightarrow> (result, rt1)))"

definition with_primary_caller_locked :: "PrimaryCallerContext \<Rightarrow> route \<Rightarrow> route" where
  "with_primary_caller_locked caller dispatch rt =
     (if \<not> rt_running rt then (Inr (), rt)
      else case rt_current rt of
        None \<Rightarrow> (Inr (), rt)
      | Some a \<Rightarrow>
          if ag_attempt a \<noteq> cc_attempt caller \<or> ag_identity a \<noteq> cc_identity caller
             \<or> ag_link a \<noteq> cc_link caller \<or> ag_reader_stop a
          then (Inr (), rt) else dispatch rt)"

definition link_failed :: "WindowEnv \<Rightarrow> u32 \<Rightarrow> route" where
  "link_failed env attempt rt =
     (we_fail_generation env attempt, rt\<lparr> rt_link_failures := rt_link_failures rt @ [attempt] \<rparr>)"

definition with_link_failure :: "WindowEnv \<Rightarrow> route \<Rightarrow> route" where
  "with_link_failure env operation rt =
     (case operation (rt\<lparr> rt_failed := None \<rparr>) of (result, rt1) \<Rightarrow>
        (case rt_failed rt1 of
           None \<Rightarrow> (result, rt1)
         | Some attempt \<Rightarrow>
             (case link_failed env attempt rt1 of
                (owner_result, rt2) \<Rightarrow> (collapse_app_results [result, owner_result], rt2))))"

definition subscribe_window_locked :: "WindowEnv \<Rightarrow> PrimaryCallerContext \<Rightarrow> CorrelationId \<Rightarrow> u16 \<Rightarrow> route" where
  "subscribe_window_locked env caller correlation channel rt =
     (let refusal = (case find (\<lambda>e. ce_id e = channel) CHANNEL_TABLE of
            None \<Rightarrow> Some UnknownChannel
          | Some e \<Rightarrow> subscription_refusal (ce_class e) (ce_authority e) (ce_id e = LIFECYCLE_CHANNEL)
              (is_primary (cc_identity caller))) in
      if rt_current rt = None then (Inl (AppDetail ''window Subscribe'' ''validated generation disappeared''), rt)
      else case refusal of
        Some reason \<Rightarrow> lifecycle_reply env correlation (SubscribeRefused reason) rt
      | None \<Rightarrow>
          (case rt_windows rt of
             None \<Rightarrow> lifecycle_reply env correlation (SubscribeRefused NotSubscribable) rt
           | Some s \<Rightarrow>
               if channel \<noteq> ce_id WINDOW then lifecycle_reply env correlation (SubscribeRefused NotSubscribable) rt
               else if ws_subscribed s = Some (caller_owner caller) then lifecycle_reply env correlation Subscribed rt
               else let r = subscribe_successor (caller_owner caller) (ws_registry s) in
                 route_then (route_all (map (window_event env) (replay (caller_owner caller) r)))
                   (lifecycle_reply env correlation Subscribed)
                   (rt\<lparr> rt_windows := Some (s\<lparr> ws_registry := r, ws_subscribed := Some (caller_owner caller) \<rparr>) \<rparr>)))"

definition subscribe_window :: "WindowEnv \<Rightarrow> PrimaryCallerContext \<Rightarrow> CorrelationId \<Rightarrow> u16 \<Rightarrow> route" where
  "subscribe_window env caller correlation channel =
     with_link_failure env (with_primary_caller_locked caller
       (finish_window_write env (subscribe_window_locked env caller correlation channel)))"

definition send_command :: "string \<Rightarrow> AppWindowCommand \<Rightarrow> route" where
  "send_command what command rt =
     (if rt_ui_open rt then (Inr (), rt\<lparr> rt_commands := rt_commands rt @ [command] \<rparr>)
      else (Inl (AppDetail what ''UI command owner is unavailable''), rt))"

definition send_window_teardown :: "Teardown \<Rightarrow> string \<Rightarrow> route" where
  "send_window_teardown teardown what = send_command what (CmdDestroyWindow (td_view teardown))"

definition window_error_reply :: "WindowEnv \<Rightarrow> CorrelationId \<Rightarrow> WindowError \<Rightarrow> route" where
  "window_error_reply env correlation e =
     window_call_error env correlation (window_error_code e) (window_error_display e)"

definition window_create_result :: "WindowEnv \<Rightarrow> CorrelationId \<Rightarrow> WindowError + CreateOutcome \<Rightarrow> route" where
  "window_create_result env correlation outcome =
     (case outcome of
        Inr (Build build _ width height x y) \<Rightarrow>
          send_command ''window native build'' (CmdCreateWindow build width height x y)
      | Inr (Adopted window) \<Rightarrow> window_reply env correlation (RespAdopted window)
      | Inl e \<Rightarrow> window_error_reply env correlation e)"

definition send_window_setter :: "WindowEnv \<Rightarrow> CorrelationId \<Rightarrow> NativeSetter \<Rightarrow> route" where
  "send_window_setter env correlation setter =
     route_then
       (send_command ''window setter''
          (case setter of
             SetterMaximized view maximized \<Rightarrow> CmdSetMaximized view maximized
           | SetterFullScreen view full_screen \<Rightarrow> CmdSetFullScreen view full_screen))
       (window_reply env correlation RespAccepted)"

definition window_setter_result :: "WindowEnv \<Rightarrow> CorrelationId \<Rightarrow> WindowError + NativeSetter \<Rightarrow> route" where
  "window_setter_result env correlation outcome =
     (case outcome of
        Inr setter \<Rightarrow> send_window_setter env correlation setter
      | Inl e \<Rightarrow> window_error_reply env correlation e)"

definition window_close_call_locked :: "WindowEnv \<Rightarrow> CorrelationId \<Rightarrow> CloseOutcome \<Rightarrow> route" where
  "window_close_call_locked env correlation outcome rt =
     (let invalid = (Inl (AppDetail ''window close reply'' ''admitted call returned a native-only close outcome''), rt) in
      case outcome of
        CloseRequested close_seq (Some told) \<Rightarrow>
          route_then (window_event env (oe_event told)) (window_reply env correlation (RespCloseRequested close_seq)) rt
      | CloseMerged close_seq \<Rightarrow> window_reply env correlation (RespMerged close_seq) rt
      | CloseAlreadyClosing \<Rightarrow> window_reply env correlation RespAlreadyClosing rt
      | CloseVetoed \<Rightarrow> window_reply env correlation RespReplyApplied rt
      | CloseStale \<Rightarrow> window_reply env correlation RespReplyStale rt
      | CloseTeardown teardown \<Rightarrow>
          (case window_reply env correlation RespReplyApplied rt of (acknowledgement, rt1) \<Rightarrow>
             (case send_window_teardown teardown ''window teardown'' rt1 of (release, rt2) \<Rightarrow>
                (collapse_app_results [acknowledgement, release], rt2)))
      | CloseRequested _ None \<Rightarrow> invalid
      | CloseUnmapped \<Rightarrow> invalid
      | CloseExhausted \<Rightarrow> invalid)"

definition window_close_result :: "WindowEnv \<Rightarrow> CorrelationId \<Rightarrow> WindowError + CloseOutcome \<Rightarrow> route" where
  "window_close_result env correlation outcome =
     (case outcome of
        Inr close \<Rightarrow> window_close_call_locked env correlation close
      | Inl e \<Rightarrow> window_error_reply env correlation e)"

definition window_destroy_result :: "WindowEnv \<Rightarrow> CorrelationId \<Rightarrow> WindowError + CloseOutcome \<Rightarrow> route" where
  "window_destroy_result env correlation outcome rt =
     (case outcome of
        Inr (CloseTeardown teardown) \<Rightarrow> send_window_teardown teardown ''window teardown'' rt
      | Inr CloseAlreadyClosing \<Rightarrow> (Inr (), rt)
      | Inr _ \<Rightarrow> (Inl (AppDetail ''window Destroy'' ''registry returned an invalid destruction effect''), rt)
      | Inl e \<Rightarrow> window_error_reply env correlation e rt)"

definition window_request_locked ::
  "WindowEnv \<Rightarrow> WindowSession \<Rightarrow> WindowOwner \<Rightarrow> CorrelationId \<Rightarrow> WindowRequest \<Rightarrow> route" where
  "window_request_locked env s caller correlation request rt =
     (case request of
        ReqCreate width height x y \<Rightarrow>
          (case create caller correlation width height x y (ws_registry s) of
             (outcome, r) \<Rightarrow> window_create_result env correlation outcome (put_registry s r rt))
      | ReqSetMaximized window maximized \<Rightarrow>
          (case set_maximized caller window maximized (ws_registry s) of
             (outcome, r) \<Rightarrow> window_setter_result env correlation outcome (put_registry s r rt))
      | ReqSetFullScreen window full_screen \<Rightarrow>
          (case set_full_screen caller window full_screen (ws_registry s) of
             (outcome, r) \<Rightarrow> window_setter_result env correlation outcome (put_registry s r rt))
      | ReqRequestClose window \<Rightarrow>
          (case request_close caller window (ws_registry s) of
             (outcome, r) \<Rightarrow> window_close_result env correlation outcome (put_registry s r rt))
      | ReqCloseReply window close_seq verdict \<Rightarrow>
          (case close_reply caller window close_seq verdict (ws_registry s) of
             (outcome, r) \<Rightarrow> window_close_result env correlation outcome (put_registry s r rt))
      | ReqDestroy window \<Rightarrow>
          (case destroy caller window correlation (ws_registry s) of
             (_, outcome, r) \<Rightarrow> window_destroy_result env correlation outcome (put_registry s r rt)))"

definition unavailable_message :: string where
  "unavailable_message = ''KELD-CORE-045: window link is not subscribed. Complete the accepted window subscription and replay before issuing window calls.''"

definition dispatch_window_locked :: "WindowEnv \<Rightarrow> PrimaryCallerContext \<Rightarrow> CorrelationId \<Rightarrow> bytes \<Rightarrow> route" where
  "dispatch_window_locked env caller correlation payload rt =
     (case rt_current rt of
        None \<Rightarrow> (Inl (AppDetail ''window request'' ''validated generation disappeared''), rt)
      | Some a \<Rightarrow>
          (case rt_windows rt of
             None \<Rightarrow> window_call_error env correlation ''KELD-CORE-045'' unavailable_message rt
           | Some s \<Rightarrow>
               if ws_subscribed s \<noteq> Some (caller_owner caller)
               then window_call_error env correlation ''KELD-CORE-045'' unavailable_message rt
               else if \<not> rt_window_ready rt
               then window_call_error env correlation ''KELD-CORE-040''
                 ''KELD-CORE-040: registry is not ready. Wait for host Ready and accepted subscription/replay.'' rt
               else if \<not> ws_native_supported s
               then window_call_error env correlation ''KELD-CORE-042''
                 ''KELD-CORE-042: native window calls are unsupported by this platform adapter. Use a qualified window backend.'' rt
               else if has_pending_call (caller_owner caller) correlation (ws_registry s)
               then (Inl (AppIpc ''window correlation admission''
                       (Protocol ''window CALL reuses an already-pending correlation'')),
                     rt\<lparr> rt_failed := Some (ag_attempt a) \<rparr>)
               else (case decode_payload (we_request env) payload of
                 Inl source \<Rightarrow> (Inl (AppIpc ''window request decode'' source), rt)
               | Inr request \<Rightarrow> window_request_locked env s (generation_owner a) correlation request rt)))"

definition dispatch_window :: "WindowEnv \<Rightarrow> PrimaryCallerContext \<Rightarrow> CorrelationId \<Rightarrow> bytes \<Rightarrow> route" where
  "dispatch_window env caller correlation payload =
     with_link_failure env (with_primary_caller_locked caller
       (finish_window_write env (dispatch_window_locked env caller correlation payload)))"

definition window_build_outcome_locked :: "WindowEnv \<Rightarrow> WindowOwner option \<Rightarrow> BuildOutcome \<Rightarrow> route" where
  "window_build_outcome_locked env subscribed outcome =
     (case outcome of
        BuildCreated told reply \<Rightarrow> route_then (owned_event env subscribed told) (owned_reply env subscribed reply)
      | BuildCleanup teardown \<Rightarrow> send_window_teardown teardown ''window late-build cleanup''
      | BuildIgnored \<Rightarrow> route_ok)"

definition window_native_close_locked :: "WindowEnv \<Rightarrow> WindowOwner option \<Rightarrow> CloseOutcome \<Rightarrow> route" where
  "window_native_close_locked env subscribed outcome rt =
     (let invalid = (Inl (AppDetail ''window native close'' ''registry returned a call-only close outcome''), rt) in
      case outcome of
        CloseRequested _ (Some told) \<Rightarrow> owned_event env subscribed told rt
      | CloseTeardown _ \<Rightarrow> invalid
      | CloseVetoed \<Rightarrow> invalid
      | CloseStale \<Rightarrow> invalid
      | _ \<Rightarrow> (Inr (), rt))"

definition window_fact_locked :: "WindowEnv \<Rightarrow> WindowOwner option \<Rightarrow> FactOutcome \<Rightarrow> route" where
  "window_fact_locked env subscribed outcome =
     (case outcome of FactEvent told \<Rightarrow> owned_event env subscribed told | _ \<Rightarrow> route_ok)"

definition window_native_event_locked :: "WindowEnv \<Rightarrow> WindowSession \<Rightarrow> AppWindowEvent \<Rightarrow> route" where
  "window_native_event_locked env s native_event rt =
     (let subscribed = ws_subscribed s in
      case native_event of
        UiWindowBuilt build view snapshot \<Rightarrow>
          (case native_built build view (native_state snapshot) (ws_registry s) of
             (outcome, r) \<Rightarrow> window_build_outcome_locked env subscribed outcome (put_registry s r rt))
      | UiWindowBuildFailed build stage \<Rightarrow>
          (case native_failed build (ws_registry s) of
             (outcome, r) \<Rightarrow> window_build_failed_locked env subscribed outcome stage (put_registry s r rt))
      | UiWindowCloseRequested view \<Rightarrow>
          (case native_close view (ws_registry s) of
             (outcome, r) \<Rightarrow> window_native_close_locked env subscribed outcome (put_registry s r rt))
      | UiWindowReleased view \<Rightarrow>
          (case native_released view (ws_registry s) of
             (outcome, r) \<Rightarrow> window_released_locked env subscribed outcome (put_registry s r rt))
      | UiWindowBounds view x y width height \<Rightarrow>
          (case native_bounds view \<lparr> rect_x = x, rect_y = y, rect_width = width, rect_height = height \<rparr> (ws_registry s) of
             (outcome, r) \<Rightarrow> window_fact_locked env subscribed outcome (put_registry s r rt))
      | UiWindowFocus view focused \<Rightarrow>
          (case native_focus view focused (ws_registry s) of
             (outcome, r) \<Rightarrow> window_fact_locked env subscribed outcome (put_registry s r rt))
      | UiWindowMaximized view maximized \<Rightarrow>
          (case native_maximized view maximized (ws_registry s) of
             (outcome, r) \<Rightarrow> window_fact_locked env subscribed outcome (put_registry s r rt))
      | UiWindowFullScreen view full_screen \<Rightarrow>
          (case native_full_screen view full_screen (ws_registry s) of
             (outcome, r) \<Rightarrow> window_fact_locked env subscribed outcome (put_registry s r rt))
      | UiHostInitialized \<Rightarrow>
          (Inl (AppDetail ''window native event''
             ''the first host Init milestone belongs only to the lifecycle coordinator''), rt)
      | _ \<Rightarrow> (Inl (AppDetail ''window native event''
             ''legacy lifecycle fact entered managed registry dispatch''), rt))"

definition window_native_event :: "WindowEnv \<Rightarrow> AppWindowEvent \<Rightarrow> route" where
  "window_native_event env native_event rt =
     (case finish_window_write env
         (\<lambda>rt. case rt_windows rt of
            None \<Rightarrow> (Inl (AppDetail ''window native event'' ''managed native fact arrived without a window registry''), rt)
          | Some s \<Rightarrow> window_native_event_locked env s native_event rt) (rt\<lparr> rt_failed := None \<rparr>) of
        (result, rt1) \<Rightarrow>
          (case rt_failed rt1 of
             None \<Rightarrow> (result, rt1)
           | Some attempt \<Rightarrow>
               (case link_failed env attempt rt1 of
                  (Inr _, rt2) \<Rightarrow> (Inr (), rt2)
                | (Inl e, rt2) \<Rightarrow> (collapse_app_results [result, Inl e], rt2))))"

text \<open>\<open>end_window_session_guarded\<close>: the effects of the registry's end, in order, with their errors collapsed.\<close>

fun end_effects :: "SessionEffect list \<Rightarrow> HostAppError + unit \<Rightarrow> route" where
  "end_effects [] result rt = (result, rt)"
| "end_effects (EffectTeardown teardown # effects) result rt =
     (case send_window_teardown teardown ''window session teardown'' rt of
        (nxt, rt1) \<Rightarrow> end_effects effects (collapse_app_results [result, nxt]) rt1)"
| "end_effects (_ # effects) result rt = end_effects effects result rt"

definition end_window_session_guarded :: route where
  "end_window_session_guarded rt =
     (case rt_windows rt of
        None \<Rightarrow> (Inr (), rt)
      | Some s \<Rightarrow>
          (case session_end (ws_registry s) of
             (effects, r) \<Rightarrow> end_effects effects (Inr ()) (put_registry s r rt)))"

definition finish_window_facts :: route where
  "finish_window_facts rt =
     (case rt_windows rt of
        None \<Rightarrow> (Inr (), rt)
      | Some s \<Rightarrow> (Inr (), put_registry s (snd (take_destroyed_fact_drops (ws_registry s))) rt))"

section \<open>What a locked operation leaves alone\<close>

lemma write_frame_returns: "write_frame kind flags channel corr payload l \<noteq> None"
  by (auto simp: write_frame_def io_bind_def io_lift_def io_return_def write_all_def flush_def
      split: option.split sum.split prod.split list.split WriteEvent.split)

text \<open>
  Inside an operation the generation keeps its identity and nobody is reported; a marked failure is
  that of the generation and comes with an error, and without one every write the link's writer
  performed succeeded; the window session is left to the registry.
\<close>

definition same_generation :: "ActivePrimaryGeneration option \<Rightarrow> ActivePrimaryGeneration option \<Rightarrow> bool" where
  "same_generation g h =
     (map_option (\<lambda>a. (ag_attempt a, ag_identity a, ag_reader_stop a, ag_link a)) g
      = map_option (\<lambda>a. (ag_attempt a, ag_identity a, ag_reader_stop a, ag_link a)) h)"

definition clean_writer :: "ActivePrimaryGeneration option \<Rightarrow> ActivePrimaryGeneration option \<Rightarrow> bool" where
  "clean_writer g h =
     (case (g, h) of
        (Some a, Some b) \<Rightarrow>
          (\<exists>used. lk_writes (ag_writer a) = used @ lk_writes (ag_writer b) \<and> list_all (\<lambda>w. w = Wrote) used)
      | _ \<Rightarrow> True)"

definition within_generation :: "Router \<Rightarrow> HostAppError + unit \<Rightarrow> Router \<Rightarrow> bool" where
  "within_generation rt res rt' =
     (same_generation (rt_current rt) (rt_current rt')
      \<and> rt_link_failures rt' = rt_link_failures rt \<and> rt_running rt' = rt_running rt
      \<and> rt_window_ready rt' = rt_window_ready rt \<and> rt_ui_open rt' = rt_ui_open rt
      \<and> (case rt_failed rt' of
           None \<Rightarrow> clean_writer (rt_current rt) (rt_current rt')
         | Some attempt \<Rightarrow> map_option ag_attempt (rt_current rt) = Some attempt \<and> \<not> is_ok res))"

definition disciplined :: "route \<Rightarrow> bool" where
  "disciplined m = (\<forall>rt. rt_failed rt = None \<longrightarrow> within_generation rt (fst (m rt)) (snd (m rt)))"

definition keeps_windows :: "route \<Rightarrow> bool" where
  "keeps_windows m = (\<forall>rt. rt_windows (snd (m rt)) = rt_windows rt)"

named_theorems route_intros \<open>operations that are disciplined or keep the window session\<close>

lemma same_generation_refl [simp]: "same_generation g g"
  by (simp add: same_generation_def)

lemma same_generation_trans: "same_generation g h \<Longrightarrow> same_generation h i \<Longrightarrow> same_generation g i"
  by (simp add: same_generation_def)

lemma same_generation_attempt: "same_generation g h \<Longrightarrow> map_option ag_attempt g = map_option ag_attempt h"
  by (cases g; cases h) (auto simp: same_generation_def)

lemma clean_writer_refl [simp]: "clean_writer g g"
  by (cases g) (simp_all add: clean_writer_def)

lemma clean_writer_trans:
  assumes "same_generation g h" "clean_writer g h" "clean_writer h i"
  shows "clean_writer g i"
proof (cases "\<exists>a b c. g = Some a \<and> h = Some b \<and> i = Some c")
  case True
  with assms(2,3) obtain a c used more where "g = Some a" "i = Some c"
      "lk_writes (ag_writer a) = used @ more @ lk_writes (ag_writer c)" "list_all (\<lambda>w. w = Wrote) used"
      "list_all (\<lambda>w. w = Wrote) more"
    by (auto simp: clean_writer_def)
  then show ?thesis by (auto simp: clean_writer_def intro!: exI [of _ "used @ more"])
next
  case False
  with assms(1) show ?thesis by (cases g; cases h; cases i) (auto simp: clean_writer_def same_generation_def)
qed

lemma within_generation_refl: "rt_failed rt = None \<Longrightarrow> within_generation rt res rt"
  by (simp add: within_generation_def)

lemma within_generation_trans:
  assumes "within_generation rt res rt1" "is_ok res" "within_generation rt1 res' rt2"
  shows "rt_failed rt1 = None" "within_generation rt res' rt2"
  using assms same_generation_attempt [of "rt_current rt" "rt_current rt1"]
  by (auto simp: within_generation_def split: option.splits intro: same_generation_trans clean_writer_trans)

lemma disciplinedI: "(\<And>rt. rt_failed rt = None \<Longrightarrow> within_generation rt (fst (m rt)) (snd (m rt))) \<Longrightarrow> disciplined m"
  by (simp add: disciplined_def)

lemma disciplinedD: "disciplined m \<Longrightarrow> rt_failed rt = None \<Longrightarrow> m rt = (res, rt') \<Longrightarrow> within_generation rt res rt'"
  unfolding disciplined_def by (metis fst_conv snd_conv)

lemma disciplined_ok [route_intros]: "disciplined route_ok" "keeps_windows route_ok"
  by (auto simp: disciplined_def route_ok_def keeps_windows_def within_generation_refl)

lemma disciplined_then [route_intros]:
  assumes "disciplined m" "disciplined n"
  shows "disciplined (route_then m n)"
  unfolding disciplined_def
proof (intro allI impI)
  fix rt :: Router
  assume start: "rt_failed rt = None"
  obtain res rt1 where m: "m rt = (res, rt1)" by fastforce
  note first = disciplinedD [OF assms(1) start m]
  show "within_generation rt (fst (route_then m n rt)) (snd (route_then m n rt))"
  proof (cases res)
    case (Inl e)
    with m first show ?thesis by (simp add: route_then_def)
  next
    case (Inr u)
    obtain res2 rt2 where n: "n rt1 = (res2, rt2)" by fastforce
    have "rt_failed rt1 = None" using first Inr by (auto simp: within_generation_def split: option.splits)
    from disciplinedD [OF assms(2) this n] first Inr have "within_generation rt res2 rt2"
      by (auto intro: within_generation_trans)
    with m n Inr show ?thesis by (simp add: route_then_def)
  qed
qed

lemma keeps_then [route_intros]: "keeps_windows m \<Longrightarrow> keeps_windows n \<Longrightarrow> keeps_windows (route_then m n)"
  by (auto simp: keeps_windows_def route_then_def split: prod.split sum.split) (metis snd_conv)+

lemma route_all_intros [route_intros]:
  "(\<And>m. m \<in> set ms \<Longrightarrow> disciplined m) \<Longrightarrow> disciplined (route_all ms)"
  "(\<And>m. m \<in> set ms \<Longrightarrow> keeps_windows m) \<Longrightarrow> keeps_windows (route_all ms)"
  by (induction ms) (auto intro!: route_intros)

lemma disciplined_write [route_intros]: "disciplined (write_payload kind channel corr payload)"
proof (rule disciplinedI)
  fix rt :: Router
  assume start: "rt_failed rt = None"
  show "within_generation rt (fst (write_payload kind channel corr payload rt)) (snd (write_payload kind channel corr payload rt))"
  proof (cases "rt_current rt")
    case (Some a)
    obtain res l where wrote: "write_frame kind 0 channel corr payload (ag_writer a) = Some (res, l)"
      using write_frame_returns [of kind 0 channel corr payload "ag_writer a"] by fastforce
    obtain used where "lk_writes (ag_writer a) = used @ lk_writes l" "\<And>u. res = Inr u \<Longrightarrow> list_all (\<lambda>w. w = Wrote) used"
      using writes_onlyD [OF write_frame_writes_only wrote] by metis
    with Some wrote start show ?thesis
      by (cases res) (auto simp: within_generation_def write_payload_def same_generation_def clean_writer_def)
  qed (use start in \<open>simp add: write_payload_def within_generation_refl\<close>)
qed

lemma keeps_write [route_intros]: "keeps_windows (write_payload kind channel corr payload)"
  by (auto simp: keeps_windows_def write_payload_def split: option.split prod.split sum.split)

lemma disciplined_cond:
  "disciplined m \<Longrightarrow> disciplined n \<Longrightarrow> disciplined (\<lambda>rt. if c rt then m rt else n rt)"
  "keeps_windows m \<Longrightarrow> keeps_windows n \<Longrightarrow> keeps_windows (\<lambda>rt. if c rt then m rt else n rt)"
  by (auto simp: disciplined_def keeps_windows_def)

lemma disciplined_error: "disciplined (\<lambda>rt. (Inl e, rt))" "keeps_windows (\<lambda>rt. (Inl e, rt))"
  "disciplined (\<lambda>rt. (Inr (), rt))" "keeps_windows (\<lambda>rt. (Inr (), rt))"
  by (auto simp: disciplined_def keeps_windows_def within_generation_refl)

lemma write_encoded_cases:
  "write_encoded what encoded kind channel corr
     = (case encoded of Inl e \<Rightarrow> (\<lambda>rt. (Inl (AppIpc what e), rt)) | Inr bs \<Rightarrow> write_payload kind channel corr bs)"
  by (auto simp: write_encoded_def fun_eq_iff split: sum.split)

lemma encoded_routes [route_intros]:
  "disciplined (write_encoded what encoded kind channel corr)" "keeps_windows (write_encoded what encoded kind channel corr)"
  by (cases encoded; simp add: write_encoded_cases disciplined_error disciplined_write keeps_write)+

lemma reply_routes [route_intros]:
  "disciplined (window_reply env corr reply)" "keeps_windows (window_reply env corr reply)"
  "disciplined (lifecycle_reply env corr resp)" "keeps_windows (lifecycle_reply env corr resp)"
  "disciplined (window_call_error env corr code msg)" "keeps_windows (window_call_error env corr code msg)"
  "disciplined (window_event env told)" "keeps_windows (window_event env told)"
  "disciplined (window_error_reply env corr err)" "keeps_windows (window_error_reply env corr err)"
  by (auto simp: window_reply_def lifecycle_reply_def window_call_error_def window_event_def window_error_reply_def
      intro!: route_intros)

lemma disciplined_put:
  "disciplined m \<Longrightarrow> disciplined (\<lambda>rt. m (rt\<lparr> rt_windows := w \<rparr>))"
  unfolding disciplined_def
proof (intro allI impI)
  fix rt :: Router
  assume m: "\<forall>rt. rt_failed rt = None \<longrightarrow> within_generation rt (fst (m rt)) (snd (m rt))" and "rt_failed rt = None"
  then have "within_generation (rt\<lparr> rt_windows := w \<rparr>) (fst (m (rt\<lparr> rt_windows := w \<rparr>))) (snd (m (rt\<lparr> rt_windows := w \<rparr>)))"
    using m [rule_format, of "rt\<lparr> rt_windows := w \<rparr>"] by simp
  then show "within_generation rt (fst (m (rt\<lparr> rt_windows := w \<rparr>))) (snd (m (rt\<lparr> rt_windows := w \<rparr>)))"
    by (simp add: within_generation_def split: option.splits)
qed

lemma send_routes [route_intros]:
  "disciplined (send_command what command)" "keeps_windows (send_command what command)"
  by (auto simp: disciplined_def within_generation_def keeps_windows_def send_command_def)

lemma teardown_routes [route_intros]:
  "disciplined (send_window_teardown teardown what)" "keeps_windows (send_window_teardown teardown what)"
  by (auto simp: send_window_teardown_def intro!: route_intros)

lemma owned_routes [route_intros]:
  "disciplined (owned_event env subscribed told)" "keeps_windows (owned_event env subscribed told)"
  "disciplined (owned_reply env subscribed reply)" "keeps_windows (owned_reply env subscribed reply)"
  "disciplined (last_window_locked env subscribed recipient)" "keeps_windows (last_window_locked env subscribed recipient)"
proof -
  have "owned_event env subscribed told = (\<lambda>rt. if subscribed = Some (oe_owner told) \<and> active_owner (oe_owner told) rt
      then window_event env (oe_event told) rt else (Inr (), rt))"
    by (simp add: fun_eq_iff owned_event_def)
  then show "disciplined (owned_event env subscribed told)" "keeps_windows (owned_event env subscribed told)"
    by (auto intro!: disciplined_cond disciplined_error route_intros)
  have "owned_reply env subscribed reply = (\<lambda>rt. if subscribed = Some (wr_owner reply) \<and> active_owner (wr_owner reply) rt
      then window_reply env (wr_correlation reply) (wr_response reply) rt else (Inr (), rt))"
    by (simp add: fun_eq_iff owned_reply_def)
  then show "disciplined (owned_reply env subscribed reply)" "keeps_windows (owned_reply env subscribed reply)"
    by (auto intro!: disciplined_cond disciplined_error route_intros)
  have "last_window_locked env subscribed recipient = (\<lambda>rt.
      if recipient \<noteq> None \<and> subscribed = recipient \<and> active_owner (the recipient) rt
      then write_encoded ''window last-window encode''
        (encode_into (we_lifecycle_event env) WINDOW_PAYLOAD_STORAGE_BYTES LastWindowClosed) Event LIFECYCLE_CHANNEL 0 rt
      else (Inr (), rt))"
    by (auto simp: fun_eq_iff last_window_locked_def split: option.split)
  then show "disciplined (last_window_locked env subscribed recipient)"
      "keeps_windows (last_window_locked env subscribed recipient)"
    by (auto intro!: disciplined_cond disciplined_error route_intros)
qed

lemma collapse_not_ok: "\<not> is_ok res \<Longrightarrow> \<not> is_ok (collapse_app_results [res, res2])"
  by (cases res; cases res2) (auto simp: collapse_app_results_def)

lemma acknowledged_teardown [route_intros]:
  "disciplined (\<lambda>rt. case window_reply env corr reply rt of (acknowledgement, rt1) \<Rightarrow>
     (case send_window_teardown teardown what rt1 of (release, rt2) \<Rightarrow>
        (collapse_app_results [acknowledgement, release], rt2)))" (is "disciplined ?m")
  unfolding disciplined_def
proof (intro allI impI)
  fix rt :: Router
  assume start: "rt_failed rt = None"
  obtain res rt1 where m: "window_reply env corr reply rt = (res, rt1)" by fastforce
  note disciplinedD [OF reply_routes(1) start m]
  then show "within_generation rt (fst (?m rt)) (snd (?m rt))" using m
    by (auto simp: send_window_teardown_def send_command_def within_generation_def collapse_not_ok split: option.splits)
qed

lemma acknowledged_keeps [route_intros]:
  "keeps_windows (\<lambda>rt. case window_reply env corr reply rt of (acknowledgement, rt1) \<Rightarrow>
     (case send_window_teardown teardown what rt1 of (release, rt2) \<Rightarrow>
        (collapse_app_results [acknowledgement, release], rt2)))"
  using reply_routes(2) [of env corr reply] teardown_routes(2) [of teardown what]
  by (auto simp: keeps_windows_def split: prod.split) (metis snd_conv)

lemma window_close_call_simps [simp]:
  "window_close_call_locked env corr (CloseRequested q (Some told))
     = route_then (window_event env (oe_event told)) (window_reply env corr (RespCloseRequested q))"
  "window_close_call_locked env corr (CloseMerged q) = window_reply env corr (RespMerged q)"
  "window_close_call_locked env corr CloseAlreadyClosing = window_reply env corr RespAlreadyClosing"
  "window_close_call_locked env corr CloseVetoed = window_reply env corr RespReplyApplied"
  "window_close_call_locked env corr CloseStale = window_reply env corr RespReplyStale"
  "window_close_call_locked env corr (CloseTeardown teardown)
     = (\<lambda>rt. case window_reply env corr RespReplyApplied rt of (acknowledgement, rt1) \<Rightarrow>
         (case send_window_teardown teardown ''window teardown'' rt1 of (release, rt2) \<Rightarrow>
            (collapse_app_results [acknowledgement, release], rt2)))"
  "outcome \<in> {CloseRequested q None, CloseUnmapped, CloseExhausted} \<Longrightarrow> window_close_call_locked env corr outcome
     = (\<lambda>rt. (Inl (AppDetail ''window close reply'' ''admitted call returned a native-only close outcome''), rt))"
  by (auto simp: fun_eq_iff window_close_call_locked_def Let_def)

lemma close_call_routes [route_intros]:
  "disciplined (window_close_call_locked env corr outcome)" "keeps_windows (window_close_call_locked env corr outcome)"
proof -
  have "disciplined (window_close_call_locked env corr outcome) \<and> keeps_windows (window_close_call_locked env corr outcome)"
  proof (cases outcome)
    case (CloseRequested q told)
    then show ?thesis by (cases told) (auto intro!: route_intros disciplined_error)
  qed (auto intro!: route_intros disciplined_error)
  then show "disciplined (window_close_call_locked env corr outcome)" "keeps_windows (window_close_call_locked env corr outcome)"
    by simp_all
qed

lemma result_routes [route_intros]:
  "disciplined (window_create_result env corr co)" "keeps_windows (window_create_result env corr co)"
  "disciplined (window_setter_result env corr so)" "keeps_windows (window_setter_result env corr so)"
  "disciplined (window_close_result env corr cl)" "keeps_windows (window_close_result env corr cl)"
  "disciplined (window_build_outcome_locked env subscribed bo)" "keeps_windows (window_build_outcome_locked env subscribed bo)"
  "disciplined (window_fact_locked env subscribed fo)" "keeps_windows (window_fact_locked env subscribed fo)"
  "disciplined (window_released_locked env subscribed ro)" "keeps_windows (window_released_locked env subscribed ro)"
  by (auto simp: window_create_result_def window_setter_result_def send_window_setter_def window_close_result_def
      window_build_outcome_locked_def window_fact_locked_def window_released_locked_def
      intro!: route_intros split: sum.split CreateOutcome.split BuildOutcome.split FactOutcome.split option.split)

lemma window_destroy_simps [simp]:
  "window_destroy_result env corr (Inr (CloseTeardown teardown)) = send_window_teardown teardown ''window teardown''"
  "window_destroy_result env corr (Inr CloseAlreadyClosing) = route_ok"
  "window_destroy_result env corr (Inl e) = window_error_reply env corr e"
  "outcome \<in> {CloseRequested q f, CloseMerged q, CloseVetoed, CloseStale, CloseUnmapped, CloseExhausted} \<Longrightarrow>
   window_destroy_result env corr (Inr outcome)
     = (\<lambda>rt. (Inl (AppDetail ''window Destroy'' ''registry returned an invalid destruction effect''), rt))"
  by (auto simp: fun_eq_iff window_destroy_result_def route_ok_def)

lemma window_native_close_simps [simp]:
  "window_native_close_locked env subscribed (CloseRequested q (Some told)) = owned_event env subscribed told"
  "outcome \<in> {CloseTeardown t, CloseVetoed, CloseStale} \<Longrightarrow> window_native_close_locked env subscribed outcome
     = (\<lambda>rt. (Inl (AppDetail ''window native close'' ''registry returned a call-only close outcome''), rt))"
  "outcome \<in> {CloseRequested q None, CloseMerged q, CloseAlreadyClosing, CloseUnmapped, CloseExhausted} \<Longrightarrow>
   window_native_close_locked env subscribed outcome = route_ok"
  by (auto simp: fun_eq_iff window_native_close_locked_def Let_def route_ok_def)

lemma late_routes [route_intros]:
  "disciplined (window_destroy_result env corr outcome)" "keeps_windows (window_destroy_result env corr outcome)"
  "disciplined (window_native_close_locked env subscribed close)" "keeps_windows (window_native_close_locked env subscribed close)"
  "disciplined (window_build_failed_locked env subscribed bf stage)" "keeps_windows (window_build_failed_locked env subscribed bf stage)"
proof -
  have "disciplined (window_destroy_result env corr (Inr c)) \<and> keeps_windows (window_destroy_result env corr (Inr c))" for c
    by (cases c) (auto intro!: route_intros disciplined_error)
  moreover have "disciplined (window_destroy_result env corr (Inl e)) \<and> keeps_windows (window_destroy_result env corr (Inl e))" for e
    by (auto intro!: route_intros)
  ultimately show "disciplined (window_destroy_result env corr outcome)" "keeps_windows (window_destroy_result env corr outcome)"
    by (cases outcome; blast)+
  have "disciplined (window_native_close_locked env subscribed close) \<and> keeps_windows (window_native_close_locked env subscribed close)"
  proof (cases close)
    case (CloseRequested q told)
    then show ?thesis by (cases told) (auto intro!: route_intros)
  qed (auto intro!: route_intros disciplined_error)
  then show "disciplined (window_native_close_locked env subscribed close)"
      "keeps_windows (window_native_close_locked env subscribed close)" by simp_all
  let ?error = "\<lambda>call rt. window_call_error env (call_correlation call) ''KELD-CORE-041''
      (''KELD-CORE-041: native '' @ stage_name stage @
       '' creation failed. Inspect the UI owner's typed error and correct the requested window resources.'') rt"
  have first: "(\<lambda>rt. case bf_call bf of None \<Rightarrow> (Inr (), rt)
      | Some call \<Rightarrow> if subscribed = Some (call_owner call) \<and> active_owner (call_owner call) rt then ?error call rt else (Inr (), rt))
    = (\<lambda>rt. if bf_call bf \<noteq> None \<and> subscribed = Some (call_owner (the (bf_call bf)))
          \<and> active_owner (call_owner (the (bf_call bf))) rt then ?error (the (bf_call bf)) rt else (Inr (), rt))"
    by (auto simp: fun_eq_iff split: option.split)
  show "disciplined (window_build_failed_locked env subscribed bf stage)"
      "keeps_windows (window_build_failed_locked env subscribed bf stage)"
    unfolding window_build_failed_locked_def first
    by (auto intro!: disciplined_cond disciplined_error route_intros)
qed

section \<open>The registry operation behind each router operation\<close>

fun request_op :: "WindowOwner \<Rightarrow> CorrelationId \<Rightarrow> WindowRequest \<Rightarrow> WindowOp" where
  "request_op owner corr (ReqCreate w h x y) = WCreate owner corr w h x y"
| "request_op owner corr (ReqSetMaximized window b) = WSetMaximized owner window b"
| "request_op owner corr (ReqSetFullScreen window b) = WSetFullScreen owner window b"
| "request_op owner corr (ReqRequestClose window) = WRequestClose owner window"
| "request_op owner corr (ReqCloseReply window q verdict) = WCloseReply owner window q verdict"
| "request_op owner corr (ReqDestroy window) = WDestroy owner window corr"

fun native_op :: "AppWindowEvent \<Rightarrow> WindowOp option" where
  "native_op (UiWindowBuilt build view snapshot) = Some (WBuilt build view (native_state snapshot))"
| "native_op (UiWindowBuildFailed build stage) = Some (WFailed build)"
| "native_op (UiWindowCloseRequested view) = Some (WNativeClose view)"
| "native_op (UiWindowReleased view) = Some (WReleased view)"
| "native_op (UiWindowBounds view x y w h) =
     Some (WBounds view \<lparr> rect_x = x, rect_y = y, rect_width = w, rect_height = h \<rparr>)"
| "native_op (UiWindowFocus view b) = Some (WFocus view b)"
| "native_op (UiWindowMaximized view b) = Some (WMaximized view b)"
| "native_op (UiWindowFullScreen view b) = Some (WFullScreen view b)"
| "native_op _ = None"

text \<open>A locked operation is a registry operation followed by writes and commands.\<close>

lemma request_shape:
  "\<exists>m. window_request_locked env s caller corr request rt
       = m (put_registry s (window_step (request_op caller corr request) (ws_registry s)) rt)
     \<and> disciplined m \<and> keeps_windows m"
proof (cases request)
  case (ReqCreate w h x y)
  then show ?thesis
    by (intro exI [of _ "window_create_result env corr (fst (create caller corr w h x y (ws_registry s)))"])
      (simp add: window_request_locked_def case_prod_beta route_intros)
next
  case (ReqSetMaximized window b)
  then show ?thesis
    by (intro exI [of _ "window_setter_result env corr (fst (set_maximized caller window b (ws_registry s)))"])
      (simp add: window_request_locked_def case_prod_beta route_intros)
next
  case (ReqSetFullScreen window b)
  then show ?thesis
    by (intro exI [of _ "window_setter_result env corr (fst (set_full_screen caller window b (ws_registry s)))"])
      (simp add: window_request_locked_def case_prod_beta route_intros)
next
  case (ReqRequestClose window)
  then show ?thesis
    by (intro exI [of _ "window_close_result env corr (fst (request_close caller window (ws_registry s)))"])
      (simp add: window_request_locked_def case_prod_beta route_intros)
next
  case (ReqCloseReply window q verdict)
  then show ?thesis
    by (intro exI [of _ "window_close_result env corr (fst (close_reply caller window q verdict (ws_registry s)))"])
      (simp add: window_request_locked_def case_prod_beta route_intros)
next
  case (ReqDestroy window)
  then show ?thesis
    by (intro exI [of _ "window_destroy_result env corr (fst (snd (destroy caller window corr (ws_registry s))))"])
      (simp add: window_request_locked_def case_prod_beta route_intros)
qed

lemma native_shape:
  assumes "native_op ev = Some op"
  shows "\<exists>m. window_native_event_locked env s ev rt = m (put_registry s (window_step op (ws_registry s)) rt)
     \<and> disciplined m \<and> keeps_windows m"
proof -
  have "window_native_event_locked env s ev rt =
      (case ev of
         UiWindowBuilt build view snapshot \<Rightarrow>
           window_build_outcome_locked env (ws_subscribed s) (fst (native_built build view (native_state snapshot) (ws_registry s)))
       | UiWindowBuildFailed build stage \<Rightarrow>
           window_build_failed_locked env (ws_subscribed s) (fst (native_failed build (ws_registry s))) stage
       | UiWindowCloseRequested view \<Rightarrow> window_native_close_locked env (ws_subscribed s) (fst (native_close view (ws_registry s)))
       | UiWindowReleased view \<Rightarrow> window_released_locked env (ws_subscribed s) (fst (native_released view (ws_registry s)))
       | UiWindowBounds view x y w h \<Rightarrow> window_fact_locked env (ws_subscribed s)
           (fst (native_bounds view \<lparr> rect_x = x, rect_y = y, rect_width = w, rect_height = h \<rparr> (ws_registry s)))
       | UiWindowFocus view b \<Rightarrow> window_fact_locked env (ws_subscribed s) (fst (native_focus view b (ws_registry s)))
       | UiWindowMaximized view b \<Rightarrow> window_fact_locked env (ws_subscribed s) (fst (native_maximized view b (ws_registry s)))
       | UiWindowFullScreen view b \<Rightarrow> window_fact_locked env (ws_subscribed s) (fst (native_full_screen view b (ws_registry s)))
       | _ \<Rightarrow> route_ok) (put_registry s (window_step op (ws_registry s)) rt)"
    using assms by (cases ev) (auto simp: window_native_event_locked_def Let_def case_prod_beta)
  then show ?thesis by (cases ev) (auto intro!: exI route_intros)
qed

section \<open>Whole operations\<close>

lemma disciplined_at: "disciplined m \<Longrightarrow> rt_failed rt = None \<Longrightarrow> within_generation rt (fst (m rt)) (snd (m rt))"
  unfolding disciplined_def by metis

lemma disciplined_at_put:
  "disciplined m \<Longrightarrow> rt_failed rt = None \<Longrightarrow>
   within_generation rt (fst (m (put_registry s r rt))) (snd (m (put_registry s r rt)))"
  using disciplined_at [OF disciplined_put, of m rt "Some (s\<lparr> ws_registry := r \<rparr>)"] by (simp add: put_registry_def)

lemma request_disciplined:
  "rt_failed rt = None \<Longrightarrow>
   within_generation rt (fst (window_request_locked env s caller corr request rt))
     (snd (window_request_locked env s caller corr request rt))"
  using request_shape [of env s caller corr request rt] disciplined_at_put by metis

lemma pending_call_failure:
  "rt_failed rt = None \<Longrightarrow> rt_current rt = Some a \<Longrightarrow>
   within_generation rt (Inl e) (rt\<lparr> rt_failed := Some (ag_attempt a) \<rparr>)"
  by (simp add: within_generation_def)

lemma dispatch_disciplined: "disciplined (dispatch_window_locked env caller corr payload)"
proof (rule disciplinedI)
  fix rt :: Router
  assume start: "rt_failed rt = None"
  show "within_generation rt (fst (dispatch_window_locked env caller corr payload rt))
      (snd (dispatch_window_locked env caller corr payload rt))"
    using start disciplined_at [OF reply_routes(5) start] request_disciplined [OF start] pending_call_failure [OF start]
    by (simp add: dispatch_window_locked_def within_generation_refl split: option.split sum.split)
qed

lemma subscribe_disciplined: "disciplined (subscribe_window_locked env caller corr channel)"
proof (rule disciplinedI)
  fix rt :: Router
  assume start: "rt_failed rt = None"
  have "disciplined (route_then (route_all (map (window_event env) evs)) (lifecycle_reply env corr Subscribed))" for evs
    by (auto intro!: route_intros)
  from disciplined_at [OF disciplined_put [OF this] start] disciplined_at [OF reply_routes(3) start] start
  show "within_generation rt (fst (subscribe_window_locked env caller corr channel rt))
      (snd (subscribe_window_locked env caller corr channel rt))"
    by (simp add: subscribe_window_locked_def Let_def within_generation_refl split: option.split)
qed

definition native_event_operation :: "WindowEnv \<Rightarrow> AppWindowEvent \<Rightarrow> route" where
  "native_event_operation env ev rt =
     (case rt_windows rt of
        None \<Rightarrow> (Inl (AppDetail ''window native event'' ''managed native fact arrived without a window registry''), rt)
      | Some s \<Rightarrow> window_native_event_locked env s ev rt)"

lemma native_no_op:
  "native_op ev = None \<Longrightarrow> \<exists>e. window_native_event_locked env s ev rt = (Inl e, rt)"
  by (cases ev) (auto simp: window_native_event_locked_def Let_def)

lemma native_disciplined: "disciplined (native_event_operation env ev)"
proof (rule disciplinedI)
  fix rt :: Router
  assume start: "rt_failed rt = None"
  show "within_generation rt (fst (native_event_operation env ev rt)) (snd (native_event_operation env ev rt))"
  proof (cases "rt_windows rt")
    case (Some s)
    show ?thesis
    proof (cases "native_op ev")
      case None
      with native_no_op [OF None, of env s rt] Some start show ?thesis
        by (auto simp: native_event_operation_def within_generation_refl)
    next
      case op: (Some op)
      obtain m where "window_native_event_locked env s ev rt = m (put_registry s (window_step op (ws_registry s)) rt)"
          "disciplined m"
        using native_shape [OF op, of env s rt] by blast
      with disciplined_at_put [OF _ start, of m] Some show ?thesis by (simp add: native_event_operation_def)
    qed
  qed (use start in \<open>simp add: native_event_operation_def within_generation_refl\<close>)
qed

text \<open>The owner of a link has no subscription and no live window.\<close>

definition owner_retired :: "WindowOwner \<Rightarrow> Router \<Rightarrow> bool" where
  "owner_retired owner rt =
     (case rt_windows rt of
        None \<Rightarrow> True
      | Some s \<Rightarrow> ws_subscribed s \<noteq> Some owner
          \<and> list_all (\<lambda>(k, e). \<not> (owner_live e \<and> en_owner e = owner)) (entries (ws_registry s)))"

lemma lose_entry_live: "\<not> owner_live (lose_entry e)"
  by (simp add: lose_entry_def Let_def split: Phase.split)

lemma retire_window_owner_retired: "owner_retired owner (retire_window_owner owner rt)"
proof (cases "rt_windows rt")
  case (Some s)
  have "\<not> (owner_live e \<and> en_owner e = owner)" if "(k, e) \<in> set (entries (snd (role_lost owner (ws_registry s))))" for k e
    using that lose_entry_live by (auto simp: role_lost_def Let_def map_entries_def split: if_splits)
  with Some show ?thesis by (auto simp: owner_retired_def retire_window_owner_def list_all_iff)
qed (simp add: owner_retired_def retire_window_owner_def)

lemma same_generation_owner:
  "same_generation (Some a) h \<Longrightarrow> \<exists>a'. h = Some a' \<and> generation_owner a' = generation_owner a \<and> ag_attempt a' = ag_attempt a"
  by (cases h) (auto simp: same_generation_def generation_owner_def)

text \<open>How an operation may leave the router: with the same generation, or with it fenced off.\<close>

definition fenced_or_same :: "Router \<Rightarrow> Router \<Rightarrow> bool" where
  "fenced_or_same rt rt' =
     (case rt_failed rt' of
        None \<Rightarrow> same_generation (rt_current rt) (rt_current rt') \<and> clean_writer (rt_current rt) (rt_current rt')
          \<and> rt_link_failures rt' = rt_link_failures rt
      | Some attempt \<Rightarrow>
          (case rt_current rt of
             None \<Rightarrow> False
           | Some a \<Rightarrow> attempt = ag_attempt a \<and> rt_current rt' = None \<and> owner_retired (generation_owner a) rt'
               \<and> rt_link_failures rt' = rt_link_failures rt @ [attempt]))"

lemma finish_cases:
  assumes "disciplined m" "rt_failed rt = None" "finish_window_write env m rt = (res, rt')"
  obtains (kept) "rt' = snd (m rt)" "rt_failed rt' = None" "same_generation (rt_current rt) (rt_current rt')"
      "clean_writer (rt_current rt) (rt_current rt')" "rt_link_failures rt' = rt_link_failures rt"
    | (fenced) a where "rt_current rt = Some a" "rt_failed rt' = Some (ag_attempt a)"
      "rt' = retire_window_owner (generation_owner a) ((snd (m rt))\<lparr> rt_current := None \<rparr>)"
      "rt_current rt' = None" "rt_link_failures rt' = rt_link_failures rt"
proof -
  obtain res1 rt1 where m: "m rt = (res1, rt1)" by fastforce
  note within = disciplinedD [OF assms(1,2) m]
  show thesis
  proof (cases "rt_failed rt1")
    case None
    with m assms(3) have "rt' = rt1" by (auto simp: finish_window_write_def)
    with within None m kept show thesis by (simp add: within_generation_def)
  next
    case (Some attempt)
    with within have "map_option ag_attempt (rt_current rt) = Some attempt" "\<not> is_ok res1"
      by (simp_all add: within_generation_def)
    then obtain a e where a: "rt_current rt = Some a" "attempt = ag_attempt a" "res1 = Inl e"
      by (cases "rt_current rt"; cases res1) simp_all
    with within have "same_generation (Some a) (rt_current rt1)" by (simp add: within_generation_def)
    from same_generation_owner [OF this] obtain a' where
      a': "rt_current rt1 = Some a'" "generation_owner a' = generation_owner a" "ag_attempt a' = ag_attempt a" by blast
    let ?rt2 = "retire_window_owner (generation_owner a) (rt1\<lparr> rt_current := None \<rparr>)"
    from m Some a a' assms(3) have rt': "rt' = ?rt2"
      by (auto simp: finish_window_write_def retire_current_generation_locked_def split: prod.splits)
    have "rt_current ?rt2 = None" "rt_failed ?rt2 = Some attempt" "rt_link_failures ?rt2 = rt_link_failures rt1"
      using Some by (auto simp: retire_window_owner_def split: option.split)
    with rt' a m within show thesis by (intro fenced [of a]) (simp_all add: within_generation_def)
  qed
qed

lemma finish_fences:
  assumes "disciplined m" "rt_failed rt = None" "finish_window_write env m rt = (res, rt')"
  shows "case rt_failed rt' of
      None \<Rightarrow> same_generation (rt_current rt) (rt_current rt') \<and> clean_writer (rt_current rt) (rt_current rt')
        \<and> rt_link_failures rt' = rt_link_failures rt
    | Some attempt \<Rightarrow> \<exists>a. rt_current rt = Some a \<and> attempt = ag_attempt a \<and> rt_current rt' = None
        \<and> owner_retired (generation_owner a) rt' \<and> rt_link_failures rt' = rt_link_failures rt"
  using assms by (rule finish_cases) (auto simp: retire_window_owner_retired)

lemma native_event_eq:
  "window_native_event env ev rt =
     (case finish_window_write env (native_event_operation env ev) (rt\<lparr> rt_failed := None \<rparr>) of
        (result, rt1) \<Rightarrow>
          (case rt_failed rt1 of
             None \<Rightarrow> (result, rt1)
           | Some attempt \<Rightarrow>
               (case link_failed env attempt rt1 of
                  (Inr _, rt2) \<Rightarrow> (Inr (), rt2)
                | (Inl e, rt2) \<Rightarrow> (collapse_app_results [result, Inl e], rt2))))"
  by (simp add: window_native_event_def native_event_operation_def [abs_def])

lemma fenced_reported:
  assumes "disciplined m" "finish_window_write env m (rt\<lparr> rt_failed := None \<rparr>) = (res, rt1)"
  shows "fenced_or_same rt (case rt_failed rt1 of None \<Rightarrow> rt1 | Some attempt \<Rightarrow> snd (link_failed env attempt rt1))"
  using finish_fences [OF assms(1) _ assms(2)]
  by (cases "rt_failed rt1") (auto simp: fenced_or_same_def link_failed_def owner_retired_def)

text \<open>
  C19. A link that fails is fenced before anything else can use it: whatever a subscription, a
  window call or a native event does, either every write it made on the link succeeded, the current
  generation stays in place and nobody is reported, or it marks a failure, and then the generation
  it found is gone, its owner holds no subscription and no live window, and that generation alone
  is reported to the Runtime owner, once. In particular a failed write never leaves the generation
  in use.
\<close>

theorem failed_writer_fenced:
  "fenced_or_same rt (snd (subscribe_window env caller corr channel rt))
   \<and> fenced_or_same rt (snd (dispatch_window env caller corr payload rt))
   \<and> fenced_or_same rt (snd (window_native_event env ev rt))"
proof -
  have same: "fenced_or_same rt (rt\<lparr> rt_failed := None \<rparr>)" by (simp add: fenced_or_same_def)
  have call: "fenced_or_same rt (snd (with_link_failure env (with_primary_caller_locked caller (finish_window_write env m)) rt))"
    if "disciplined m" for m
  proof -
    obtain res rt1 where finish: "finish_window_write env m (rt\<lparr> rt_failed := None \<rparr>) = (res, rt1)" by fastforce
    show ?thesis using fenced_reported [OF that finish] finish same
      by (auto simp: with_link_failure_def with_primary_caller_locked_def split: option.splits prod.splits)
  qed
  obtain res rt1 where finish: "finish_window_write env (native_event_operation env ev) (rt\<lparr> rt_failed := None \<rparr>) = (res, rt1)"
    by fastforce
  have "fenced_or_same rt (snd (window_native_event env ev rt))"
    using fenced_reported [OF native_disciplined finish] finish
    by (auto simp: native_event_eq link_failed_def split: option.splits sum.splits)
  with call [OF subscribe_disciplined] call [OF dispatch_disciplined] show ?thesis
    by (simp add: subscribe_window_def dispatch_window_def)
qed

datatype RouterOp =
    RReady
  | RSubscribe PrimaryCallerContext CorrelationId u16
  | RDispatch PrimaryCallerContext CorrelationId bytes
  | RNative AppWindowEvent
  | RRetire u32
  | REnd
  | RFinishFacts

fun router_step :: "WindowEnv \<Rightarrow> RouterOp \<Rightarrow> Router \<Rightarrow> Router" where
  "router_step env RReady rt = snd (mark_window_registry_ready rt)"
| "router_step env (RSubscribe caller corr channel) rt = snd (subscribe_window env caller corr channel rt)"
| "router_step env (RDispatch caller corr payload) rt = snd (dispatch_window env caller corr payload rt)"
| "router_step env (RNative ev) rt = snd (window_native_event env ev rt)"
| "router_step env (RRetire attempt) rt = snd (retire_current_generation_locked env attempt rt)"
| "router_step env REnd rt = snd (end_window_session_guarded rt)"
| "router_step env RFinishFacts rt = snd (finish_window_facts rt)"

text \<open>
  What an operation asks of the registry, by the router's own state: the caller of a subscription
  or a call must be the running session's current generation on its live link; a subscription is
  for the window channel, by the primary role, and new; a call needs the accepted subscription, the
  published Ready, a native backend, a fresh correlation and a payload that decodes. Whenever an
  operation ends the current generation, the loss of its owner follows.
\<close>

definition admitted :: "PrimaryCallerContext \<Rightarrow> Router \<Rightarrow> bool" where
  "admitted caller rt =
     (rt_running rt
      \<and> (case rt_current rt of
           None \<Rightarrow> False
         | Some a \<Rightarrow> ag_attempt a = cc_attempt caller \<and> ag_identity a = cc_identity caller
             \<and> ag_link a = cc_link caller \<and> \<not> ag_reader_stop a))"

definition subscribes :: "PrimaryCallerContext \<Rightarrow> u16 \<Rightarrow> Router \<Rightarrow> bool" where
  "subscribes caller channel rt =
     (admitted caller rt \<and> channel = ce_id WINDOW \<and> is_primary (cc_identity caller)
      \<and> (case rt_windows rt of None \<Rightarrow> False | Some s \<Rightarrow> ws_subscribed s \<noteq> Some (caller_owner caller)))"

definition call_taken :: "PrimaryCallerContext \<Rightarrow> CorrelationId \<Rightarrow> Router \<Rightarrow> bool" where
  "call_taken caller corr rt =
     (admitted caller rt \<and> rt_window_ready rt
      \<and> (case rt_windows rt of
           None \<Rightarrow> False
         | Some s \<Rightarrow> ws_subscribed s = Some (caller_owner caller) \<and> ws_native_supported s
             \<and> \<not> has_pending_call (caller_owner caller) corr (ws_registry s)))"

fun registry_request :: "WindowEnv \<Rightarrow> RouterOp \<Rightarrow> Router \<Rightarrow> WindowOp list" where
  "registry_request env RReady rt = [WReady]"
| "registry_request env (RSubscribe caller corr channel) rt =
     (if subscribes caller channel rt then [WSubscribe (caller_owner caller)] else [])"
| "registry_request env (RDispatch caller corr payload) rt =
     (if call_taken caller corr rt
      then case decode_payload (we_request env) payload of
        Inl _ \<Rightarrow> [] | Inr request \<Rightarrow> [request_op (caller_owner caller) corr request]
      else [])"
| "registry_request env (RNative ev) rt = (case native_op ev of None \<Rightarrow> [] | Some op \<Rightarrow> [op])"
| "registry_request env (RRetire attempt) rt = []"
| "registry_request env REnd rt = [WSessionEnd]"
| "registry_request env RFinishFacts rt = [WTakeDrops]"

definition owner_loss :: "Router \<Rightarrow> Router \<Rightarrow> WindowOp list" where
  "owner_loss rt rt' =
     (case rt_current rt of
        None \<Rightarrow> []
      | Some a \<Rightarrow> if rt_current rt' = None then [WRoleLost (generation_owner a)] else [])"

definition driven :: "WindowEnv \<Rightarrow> RouterOp \<Rightarrow> Router \<Rightarrow> WindowOp list" where
  "driven env op rt = registry_request env op rt @ owner_loss rt (router_step env op rt)"

fun driven_run :: "WindowEnv \<Rightarrow> RouterOp list \<Rightarrow> Router \<Rightarrow> WindowOp list" where
  "driven_run env [] rt = []"
| "driven_run env (op # ops) rt = driven env op rt @ driven_run env ops (router_step env op rt)"

text \<open>The registries of two router states, related by registry operations.\<close>

definition registry_goes :: "WindowOp list \<Rightarrow> Router \<Rightarrow> Router \<Rightarrow> bool" where
  "registry_goes wops rt rt' =
     (map_option ws_registry (rt_windows rt') = map_option (\<lambda>s. fold window_step wops (ws_registry s)) (rt_windows rt))"

lemma goes_same: "rt_windows rt' = rt_windows rt \<Longrightarrow> registry_goes [] rt rt'"
  by (simp add: registry_goes_def)

lemma goes_op:
  "rt_windows rt = Some s \<Longrightarrow> map_option ws_registry (rt_windows rt') = Some (window_step op (ws_registry s)) \<Longrightarrow>
   registry_goes [op] rt rt'"
  by (simp add: registry_goes_def)

lemma goes_no_session: "rt_windows rt = None \<Longrightarrow> rt_windows rt' = None \<Longrightarrow> registry_goes wops rt rt'"
  by (simp add: registry_goes_def)

lemma goes_trans: "registry_goes xs rt rt1 \<Longrightarrow> registry_goes ys rt1 rt2 \<Longrightarrow> registry_goes (xs @ ys) rt rt2"
  by (cases "rt_windows rt"; cases "rt_windows rt1") (auto simp: registry_goes_def)

lemma goes_frame [simp]:
  "registry_goes wops (rt\<lparr> rt_failed := f \<rparr>) rt1 = registry_goes wops rt rt1"
  "registry_goes wops (rt\<lparr> rt_current := c \<rparr>) rt1 = registry_goes wops rt rt1"
  "registry_goes wops rt (rt1\<lparr> rt_link_failures := ls \<rparr>) = registry_goes wops rt rt1"
  "registry_goes wops rt (rt1\<lparr> rt_failed := f \<rparr>) = registry_goes wops rt rt1"
  "registry_goes wops rt (rt1\<lparr> rt_current := c \<rparr>) = registry_goes wops rt rt1"
  by (simp_all add: registry_goes_def)

lemma keeps_goes: "keeps_windows m \<Longrightarrow> registry_goes [] rt (snd (m rt))"
  by (rule goes_same) (simp add: keeps_windows_def)

lemma keeps_put: "keeps_windows m \<Longrightarrow> rt_windows (snd (m (rt\<lparr> rt_windows := w \<rparr>))) = w"
  by (simp add: keeps_windows_def)

lemma retire_goes: "registry_goes [WRoleLost owner] rt (retire_window_owner owner rt)"
  by (cases "rt_windows rt") (simp_all add: registry_goes_def retire_window_owner_def)

lemma owner_loss_same: "same_generation (rt_current rt) (rt_current rt') \<Longrightarrow> owner_loss rt rt' = []"
  by (cases "rt_current rt'") (auto simp: owner_loss_def same_generation_def split: option.split)

lemma finish_goes:
  assumes "disciplined m" "rt_failed rt = None" "registry_goes wops rt (snd (m rt))" "finish_window_write env m rt = (res, rt')"
  shows "registry_goes (wops @ owner_loss rt rt') rt rt'"
  using assms(1,2,4)
proof (cases rule: finish_cases)
  case kept
  with assms(3) show ?thesis by (simp add: owner_loss_same)
next
  case (fenced a)
  then have "owner_loss rt rt' = [WRoleLost (generation_owner a)]" by (simp add: owner_loss_def)
  with goes_trans [OF assms(3), of "[WRoleLost (generation_owner a)]" rt'] retire_goes [of "generation_owner a" "(snd (m rt))\<lparr> rt_current := None \<rparr>"]
    fenced(3) show ?thesis by simp
qed

lemma admitted_owner:
  assumes "admitted caller rt"
  obtains a where "rt_current rt = Some a" "generation_owner a = caller_owner caller"
  using assms by (auto simp: admitted_def generation_owner_def caller_owner_def split: option.splits)

lemma request_goes:
  assumes "rt_windows rt = Some s"
  shows "registry_goes [request_op caller corr request] rt (snd (window_request_locked env s caller corr request rt))"
proof -
  obtain m where "window_request_locked env s caller corr request rt
      = m (put_registry s (window_step (request_op caller corr request) (ws_registry s)) rt)" "keeps_windows m"
    using request_shape [of env s caller corr request rt] by blast
  with assms show ?thesis by (intro goes_op [of _ s]) (simp_all add: put_registry_def keeps_put)
qed

lemma dispatch_goes:
  assumes "admitted caller rt"
  shows "registry_goes (registry_request env (RDispatch caller corr payload) rt) rt
    (snd (dispatch_window_locked env caller corr payload rt))"
proof -
  obtain a where a: "rt_current rt = Some a" "generation_owner a = caller_owner caller" using assms by (rule admitted_owner)
  have refused: "registry_goes [] rt (snd (window_call_error env corr code msg rt))" for code msg
    by (rule keeps_goes [OF reply_routes(6)])
  show ?thesis
  proof (cases "call_taken caller corr rt")
    case True
    then obtain s where s: "rt_windows rt = Some s" by (auto simp: call_taken_def split: option.splits)
    with True a assms request_goes [OF s, of "caller_owner caller" corr _ env] show ?thesis
      by (simp add: call_taken_def dispatch_window_locked_def goes_same split: sum.split)
  next
    case False
    with a assms refused show ?thesis
      by (auto simp: call_taken_def dispatch_window_locked_def goes_same split: option.splits)
  qed
qed

text \<open>Only the window channel can be subscribed to.\<close>

lemma window_channel_subscribable:
  "(case find (\<lambda>e. ce_id e = ce_id WINDOW) CHANNEL_TABLE of
      None \<Rightarrow> Some UnknownChannel
    | Some e \<Rightarrow> subscription_refusal (ce_class e) (ce_authority e) (ce_id e = LIFECYCLE_CHANNEL) primary)
   = (if primary then None else Some RoleNotAdmitted)"
  by (simp add: channel_table_defs subscription_refusal_def carries_host_events_def LIFECYCLE_CHANNEL_def)

lemma subscribe_goes:
  assumes "admitted caller rt"
  shows "registry_goes (registry_request env (RSubscribe caller corr channel) rt) rt
    (snd (subscribe_window_locked env caller corr channel rt))"
proof -
  let ?owner = "caller_owner caller"
  obtain a where a: "rt_current rt = Some a" using assms by (rule admitted_owner)
  have replays: "keeps_windows (route_then (route_all (map (window_event env) evs)) (lifecycle_reply env corr Subscribed))" for evs
    by (auto intro!: route_intros)
  have refused: "registry_goes [] rt (snd (lifecycle_reply env corr resp rt))" for resp
    by (rule keeps_goes [OF reply_routes(4)])
  show ?thesis
  proof (cases "subscribes caller channel rt")
    case True
    then obtain s where s: "rt_windows rt = Some s" by (auto simp: subscribes_def split: option.splits)
    have "registry_goes [WSubscribe ?owner] rt (snd (route_then (route_all (map (window_event env)
          (replay ?owner (subscribe_successor ?owner (ws_registry s))))) (lifecycle_reply env corr Subscribed)
        (rt\<lparr> rt_windows := Some (s\<lparr> ws_registry := subscribe_successor ?owner (ws_registry s), ws_subscribed := Some ?owner \<rparr>) \<rparr>)))"
      by (rule goes_op [OF s]) (simp add: keeps_put [OF replays])
    with True s a show ?thesis
      by (simp add: subscribes_def subscribe_window_locked_def window_channel_subscribable Let_def)
  next
    case False
    show ?thesis
    proof (cases "channel = ce_id WINDOW")
      case True
      with False a assms refused show ?thesis
        by (auto simp: subscribes_def subscribe_window_locked_def window_channel_subscribable goes_same split: option.splits)
    next
      case other: False
      with False a refused show ?thesis by (simp add: subscribe_window_locked_def Let_def split: option.split)
    qed
  qed
qed

lemma native_goes: "registry_goes (registry_request env (RNative ev) rt0) rt (snd (native_event_operation env ev rt))"
proof (cases "rt_windows rt")
  case (Some s)
  show ?thesis
  proof (cases "native_op ev")
    case None
    with native_no_op [OF None, of env s rt] Some show ?thesis by (auto simp: native_event_operation_def goes_same)
  next
    case op: (Some op)
    obtain m where "window_native_event_locked env s ev rt = m (put_registry s (window_step op (ws_registry s)) rt)"
        "keeps_windows m"
      using native_shape [OF op, of env s rt] by blast
    with Some op show ?thesis
      by (simp add: native_event_operation_def put_registry_def keeps_put goes_op)
  qed
qed (simp add: native_event_operation_def goes_no_session)

lemma send_windows: "rt_windows (snd (send_window_teardown teardown what rt)) = rt_windows rt"
  using teardown_routes(2) [of teardown what] by (simp add: keeps_windows_def)

lemma end_effects_kept:
  "rt_windows (snd (end_effects effects result rt)) = rt_windows rt \<and> rt_current (snd (end_effects effects result rt)) = rt_current rt"
proof (induction effects result rt rule: end_effects.induct)
  case (2 teardown effects result rt)
  then show ?case by (auto simp: send_window_teardown_def send_command_def)
qed simp_all

lemma owner_loss_frame [simp]:
  "owner_loss (rt\<lparr> rt_failed := f \<rparr>) rt' = owner_loss rt rt'"
  "owner_loss rt (rt'\<lparr> rt_link_failures := ls \<rparr>) = owner_loss rt rt'"
  by (cases "rt_current rt"; simp add: owner_loss_def)+

lemma admitted_frame [simp]: "admitted caller (rt\<lparr> rt_failed := f \<rparr>) = admitted caller rt"
  by (simp add: admitted_def)

lemma call_goes:
  assumes "disciplined m" "admitted caller rt \<Longrightarrow> registry_goes wops rt (snd (m (rt\<lparr> rt_failed := None \<rparr>)))"
    and "\<not> admitted caller rt \<Longrightarrow> wops = []"
    and "rt' = snd (with_link_failure env (with_primary_caller_locked caller (finish_window_write env m)) rt)"
  shows "registry_goes (wops @ owner_loss rt rt') rt rt'"
proof (cases "admitted caller rt")
  case True
  let ?rt = "rt\<lparr> rt_failed := None \<rparr>"
  obtain res rt1 where finish: "finish_window_write env m ?rt = (res, rt1)" by fastforce
  have "registry_goes (wops @ owner_loss rt rt1) rt rt1"
    using finish_goes [OF assms(1) _ _ finish] assms(2) [OF True] by simp
  moreover from True finish assms(4) have "rt' = rt1 \<or> (\<exists>ls. rt' = rt1\<lparr> rt_link_failures := ls \<rparr>)"
    by (auto simp: admitted_def with_link_failure_def with_primary_caller_locked_def link_failed_def split: option.splits)
  ultimately show ?thesis by auto
next
  case False
  with assms(4) have "rt' = rt\<lparr> rt_failed := None \<rparr>"
    by (auto simp: admitted_def with_link_failure_def with_primary_caller_locked_def split: option.splits)
  with assms(3) [OF False] show ?thesis by (auto simp: goes_same owner_loss_def split: option.split)
qed

lemma request_frame [simp]: "registry_request env op (rt\<lparr> rt_failed := f \<rparr>) = registry_request env op rt"
  by (cases op) (simp_all add: subscribes_def call_taken_def)

lemma router_step_goes: "registry_goes (driven env op rt) rt (router_step env op rt)"
proof (cases op)
  case RReady
  then show ?thesis
    by (cases "rt_windows rt") (auto simp: driven_def registry_goes_def mark_window_registry_ready_def put_registry_def
        case_prod_beta owner_loss_def split: option.split)
next
  case (RSubscribe caller corr channel)
  have "registry_goes (registry_request env op rt) rt (snd (subscribe_window_locked env caller corr channel (rt\<lparr> rt_failed := None \<rparr>)))"
    if "admitted caller rt"
    using subscribe_goes [of caller "rt\<lparr> rt_failed := None \<rparr>" env corr channel] that RSubscribe
    by (simp del: registry_request.simps)
  then show ?thesis unfolding driven_def
    by (rule call_goes [OF subscribe_disciplined]) (simp_all add: RSubscribe subscribes_def subscribe_window_def)
next
  case (RDispatch caller corr payload)
  have "registry_goes (registry_request env op rt) rt (snd (dispatch_window_locked env caller corr payload (rt\<lparr> rt_failed := None \<rparr>)))"
    if "admitted caller rt"
    using dispatch_goes [of caller "rt\<lparr> rt_failed := None \<rparr>" env corr payload] that RDispatch
    by (simp del: registry_request.simps)
  then show ?thesis unfolding driven_def
    by (rule call_goes [OF dispatch_disciplined]) (simp_all add: RDispatch call_taken_def dispatch_window_def)
next
  case (RNative ev)
  let ?rt = "rt\<lparr> rt_failed := None \<rparr>"
  obtain res rt1 where finish: "finish_window_write env (native_event_operation env ev) ?rt = (res, rt1)" by fastforce
  have "registry_goes (registry_request env op rt @ owner_loss rt rt1) rt rt1"
    using finish_goes [OF native_disciplined _ native_goes finish, of rt] RNative by simp
  moreover have "router_step env op rt = rt1 \<or> (\<exists>ls. router_step env op rt = rt1\<lparr> rt_link_failures := ls \<rparr>)"
    using RNative finish by (auto simp: native_event_eq link_failed_def split: option.splits sum.splits)
  ultimately show ?thesis by (auto simp: driven_def)
next
  case (RRetire attempt)
  have "registry_goes [WRoleLost owner] rt (retire_window_owner owner (rt\<lparr> rt_current := None \<rparr>))" for owner
    using retire_goes [of owner "rt\<lparr> rt_current := None \<rparr>"] by simp
  moreover have "rt_current (retire_window_owner owner (rt\<lparr> rt_current := None \<rparr>)) = None" for owner
    by (simp add: retire_window_owner_def split: option.split)
  ultimately show ?thesis using RRetire
    by (auto simp: driven_def retire_current_generation_locked_def owner_loss_def goes_same split: option.split)
next
  case REnd
  then show ?thesis
    by (cases "rt_windows rt") (auto simp: driven_def registry_goes_def end_window_session_guarded_def end_effects_kept
        put_registry_def case_prod_beta owner_loss_def split: option.split)
next
  case RFinishFacts
  then show ?thesis
    by (cases "rt_windows rt") (auto simp: driven_def registry_goes_def finish_window_facts_def put_registry_def
        owner_loss_def split: option.split)
qed

lemma router_run_goes: "registry_goes (driven_run env ops rt) rt (fold (router_step env) ops rt)"
proof (induction ops arbitrary: rt)
  case (Cons op ops)
  from goes_trans [OF router_step_goes Cons.IH] show ?case by simp
qed (simp add: goes_same)

text \<open>
  C18. The router does to the registry exactly what its operations call for: after any sequence of router
  operations the registry of the window session is the one it started with after the driven
  registry operations, in order: readiness, the session's end and the fact drops as asked; a
  subscription for an admitted primary caller that is not subscribed yet; the one operation a
  call's payload decodes to, for an admitted and subscribed caller of a ready session with a native
  backend and no pending call of that correlation; the operation of each native event; and the loss
  of the owner whenever the current generation ends. Nothing else reaches the registry, and
  a session that started new satisfies the registry's invariant.
\<close>

theorem router_drives_registry:
  "map_option ws_registry (rt_windows (fold (router_step env) ops rt))
      = map_option (\<lambda>s. fold window_step (driven_run env ops rt) (ws_registry s)) (rt_windows rt)
   \<and> (case rt_windows (fold (router_step env) ops (rt\<lparr> rt_windows := Some (window_session_new native) \<rparr>)) of
        None \<Rightarrow> False
      | Some s \<Rightarrow> window_inv (ws_registry s))"
proof -
  let ?new = "rt\<lparr> rt_windows := Some (window_session_new native) \<rparr>"
  have "map_option ws_registry (rt_windows (fold (router_step env) ops ?new))
      = Some (fold window_step (driven_run env ops ?new) new_window_registry)"
    using router_run_goes [of env ops ?new] by (simp add: registry_goes_def window_session_new_def)
  with run_window_inv [of "driven_run env ops ?new"] router_run_goes [of env ops rt] show ?thesis
    by (auto simp: registry_goes_def split: option.split)
qed

definition refused_only :: "WindowOwner \<Rightarrow> Router \<Rightarrow> Router \<Rightarrow> bool" where
  "refused_only owner rt rt' =
     (rt_commands rt' = rt_commands rt
      \<and> (case rt_failed rt' of
           None \<Rightarrow> rt_windows rt' = rt_windows rt
         | Some _ \<Rightarrow> rt_windows rt' = rt_windows (retire_window_owner owner rt)))"

lemma call_error_commands:
  "window_call_error env corr code msg rt = (res, rt1) \<Longrightarrow> rt_commands rt1 = rt_commands rt \<and> rt_windows rt1 = rt_windows rt"
  by (auto simp: window_call_error_def write_encoded_def write_payload_def split: sum.splits option.splits prod.splits)

lemma retire_window_owner_windows:
  "rt_windows rt1 = rt_windows rt \<Longrightarrow> rt_windows (retire_window_owner owner (rt1\<lparr> rt_current := c \<rparr>)) = rt_windows (retire_window_owner owner rt)"
  "rt_commands (retire_window_owner owner rt1) = rt_commands rt1"
  "rt_failed (retire_window_owner owner rt1) = rt_failed rt1"
  by (auto simp: retire_window_owner_def split: option.split)

lemma refused_finish:
  assumes "rt_failed rt = None" "rt_current rt = Some a" "generation_owner a = owner"
    and "finish_window_write env (window_call_error env corr code msg) rt = (res, rt')"
  shows "refused_only owner rt rt'"
proof -
  obtain res1 rt1 where err: "window_call_error env corr code msg rt = (res1, rt1)" by fastforce
  note within = disciplinedD [OF reply_routes(5) assms(1) err] and kept = call_error_commands [OF err]
  show ?thesis
  proof (cases "rt_failed rt1")
    case None
    with err assms(4) have "rt' = rt1" by (auto simp: finish_window_write_def)
    with kept None show ?thesis by (simp add: refused_only_def)
  next
    case (Some attempt)
    with within assms(2) have attempt: "attempt = ag_attempt a" "\<not> is_ok res1" by (auto simp: within_generation_def)
    from within assms(2) have "same_generation (Some a) (rt_current rt1)" by (simp add: within_generation_def)
    from same_generation_owner [OF this] obtain a' where
      "rt_current rt1 = Some a'" "generation_owner a' = owner" "ag_attempt a' = attempt" using assms(3) attempt by auto
    with err Some attempt assms(4) have "rt' = retire_window_owner owner (rt1\<lparr> rt_current := None \<rparr>)"
      by (cases res1) (auto simp: finish_window_write_def retire_current_generation_locked_def split: prod.splits)
    with kept Some show ?thesis by (simp add: refused_only_def retire_window_owner_windows)
  qed
qed

text \<open>
  A call before subscription does nothing but be refused: when the caller is not the subscribed
  owner, dispatching its call sends no command to the UI and leaves the window session as it was,
  whatever the payload; at most, if the refusal cannot be written, the caller's own windows are
  retired with its link.
\<close>

theorem unsubscribed_call_refused:
  "if (case rt_windows rt of None \<Rightarrow> True | Some s \<Rightarrow> ws_subscribed s \<noteq> Some (caller_owner caller))
   then refused_only (caller_owner caller) rt (snd (dispatch_window env caller corr payload rt)) else True"
proof (cases "case rt_windows rt of None \<Rightarrow> True | Some s \<Rightarrow> ws_subscribed s \<noteq> Some (caller_owner caller)")
  case unsubscribed: True
  let ?rt = "rt\<lparr> rt_failed := None \<rparr>"
  let ?refuse = "window_call_error env corr ''KELD-CORE-045'' unavailable_message"
  have idle: "refused_only (caller_owner caller) rt ?rt" by (simp add: refused_only_def)
  have refused: "refused_only (caller_owner caller) rt (case rt_failed rt1 of None \<Rightarrow> rt1 | Some attempt \<Rightarrow> snd (link_failed env attempt rt1))"
    if "rt_current rt = Some a" "ag_attempt a = cc_attempt caller" "ag_identity a = cc_identity caller"
      "finish_window_write env (dispatch_window_locked env caller corr payload) ?rt = (res, rt1)" for a res rt1
  proof -
    have "dispatch_window_locked env caller corr payload ?rt = ?refuse ?rt"
      using unsubscribed that(1) by (auto simp: dispatch_window_locked_def split: option.split)
    with that(4) have "finish_window_write env ?refuse ?rt = (res, rt1)" by (simp add: finish_window_write_def)
    from refused_finish [OF _ _ _ this, of a] that(1-3) have "refused_only (caller_owner caller) ?rt rt1"
      by (simp add: generation_owner_def caller_owner_def)
    then show ?thesis
      by (auto simp: refused_only_def link_failed_def retire_window_owner_def split: option.splits)
  qed
  obtain res rt1 where finish: "finish_window_write env (dispatch_window_locked env caller corr payload) ?rt = (res, rt1)" by fastforce
  with idle refused [OF _ _ _ finish] unsubscribed show ?thesis
    by (auto simp: dispatch_window_def with_link_failure_def with_primary_caller_locked_def split: option.splits prod.splits)
qed simp

section \<open>Order on the link\<close>

definition frame_bytes :: "FrameKind \<Rightarrow> ChannelId \<Rightarrow> CorrelationId \<Rightarrow> bytes \<Rightarrow> bytes" where
  "frame_bytes kind channel corr payload =
     encode \<lparr> fh_kind = kind, fh_flags = 0, fh_channel = channel, fh_corr = corr, fh_len = of_nat (length payload) \<rparr> @ payload"

text \<open>On a link of this owner that takes what is written, the operation succeeds having written exactly these bytes.\<close>

definition writes :: "WindowOwner \<Rightarrow> route \<Rightarrow> bytes \<Rightarrow> bool" where
  "writes owner m bs =
     (\<forall>rt a. rt_current rt = Some a \<and> generation_owner a = owner \<and> \<not> ag_reader_stop a
        \<and> list_all (\<lambda>w. w = Wrote) (lk_writes (ag_writer a)) \<longrightarrow>
        (\<exists>a'. m rt = (Inr (), rt\<lparr> rt_current := Some a' \<rparr>) \<and> generation_owner a' = owner \<and> \<not> ag_reader_stop a'
           \<and> list_all (\<lambda>w. w = Wrote) (lk_writes (ag_writer a'))
           \<and> lk_out (ag_writer a') = lk_out (ag_writer a) @ bs))"

lemma writesD:
  assumes "writes owner m bs" "rt_current rt = Some a" "generation_owner a = owner" "\<not> ag_reader_stop a"
    and "list_all (\<lambda>w. w = Wrote) (lk_writes (ag_writer a))"
  obtains a' where "m rt = (Inr (), rt\<lparr> rt_current := Some a' \<rparr>)" "generation_owner a' = owner" "\<not> ag_reader_stop a'"
    "list_all (\<lambda>w. w = Wrote) (lk_writes (ag_writer a'))" "lk_out (ag_writer a') = lk_out (ag_writer a) @ bs"
proof -
  have "\<exists>a'. m rt = (Inr (), rt\<lparr> rt_current := Some a' \<rparr>) \<and> generation_owner a' = owner \<and> \<not> ag_reader_stop a'
      \<and> list_all (\<lambda>w. w = Wrote) (lk_writes (ag_writer a')) \<and> lk_out (ag_writer a') = lk_out (ag_writer a) @ bs"
    using assms(1) [unfolded writes_def, THEN spec, THEN spec, of rt a] assms(2-5) by simp
  with that show thesis by blast
qed

lemma writes_same: "(\<And>rt. m rt = (Inr (), rt)) \<Longrightarrow> writes owner m []"
  unfolding writes_def
proof (intro allI impI, elim conjE)
  fix rt :: Router and a
  assume m: "\<And>rt. m rt = (Inr (), rt)" and a: "rt_current rt = Some a" "generation_owner a = owner" "\<not> ag_reader_stop a"
    "list_all (\<lambda>w. w = Wrote) (lk_writes (ag_writer a))"
  have "rt\<lparr> rt_current := Some a \<rparr> = rt" using a(1) by (cases rt) simp
  with m a show "\<exists>a'. m rt = (Inr (), rt\<lparr> rt_current := Some a' \<rparr>) \<and> generation_owner a' = owner \<and> \<not> ag_reader_stop a'
      \<and> list_all (\<lambda>w. w = Wrote) (lk_writes (ag_writer a')) \<and> lk_out (ag_writer a') = lk_out (ag_writer a) @ []"
    by (intro exI [of _ a]) simp
qed

lemma writes_ok: "writes owner route_ok []"
  by (rule writes_same) (simp add: route_ok_def)

lemma writes_then:
  assumes "writes owner m xs" "writes owner n ys"
  shows "writes owner (route_then m n) (xs @ ys)"
  unfolding writes_def
proof (intro allI impI, elim conjE)
  fix rt :: Router and a
  assume a: "rt_current rt = Some a" "generation_owner a = owner" "\<not> ag_reader_stop a"
    "list_all (\<lambda>w. w = Wrote) (lk_writes (ag_writer a))"
  from writesD [OF assms(1) a] obtain a1 where
    a1: "m rt = (Inr (), rt\<lparr> rt_current := Some a1 \<rparr>)" "generation_owner a1 = owner" "\<not> ag_reader_stop a1"
      "list_all (\<lambda>w. w = Wrote) (lk_writes (ag_writer a1))" "lk_out (ag_writer a1) = lk_out (ag_writer a) @ xs" .
  from writesD [OF assms(2), of "rt\<lparr> rt_current := Some a1 \<rparr>" a1] a1(2-4) obtain a2 where
    a2: "n (rt\<lparr> rt_current := Some a1 \<rparr>) = (Inr (), rt\<lparr> rt_current := Some a2 \<rparr>)" "generation_owner a2 = owner" "\<not> ag_reader_stop a2"
      "list_all (\<lambda>w. w = Wrote) (lk_writes (ag_writer a2))" "lk_out (ag_writer a2) = lk_out (ag_writer a1) @ ys" by auto
  with a1 show "\<exists>a'. route_then m n rt = (Inr (), rt\<lparr> rt_current := Some a' \<rparr>) \<and> generation_owner a' = owner \<and> \<not> ag_reader_stop a'
      \<and> list_all (\<lambda>w. w = Wrote) (lk_writes (ag_writer a')) \<and> lk_out (ag_writer a') = lk_out (ag_writer a) @ xs @ ys"
    by (intro exI [of _ a2]) (simp add: route_then_def)
qed

lemma writes_all:
  "(\<And>x. x \<in> set xs \<Longrightarrow> writes owner (m x) (b x)) \<Longrightarrow> writes owner (route_all (map m xs)) (concat (map b xs))"
proof (induction xs)
  case (Cons x xs)
  then show ?case by (simp add: writes_then)
qed (simp add: writes_ok)

lemma writes_payload:
  assumes "length payload \<le> MAX_FRAME_LEN"
  shows "writes owner (write_payload kind channel corr payload) (frame_bytes kind channel corr payload)"
  unfolding writes_def
proof (intro allI impI, elim conjE)
  fix rt :: Router and a
  assume a: "rt_current rt = Some a" "generation_owner a = owner" "\<not> ag_reader_stop a"
    "list_all (\<lambda>w. w = Wrote) (lk_writes (ag_writer a))"
  from write_frame_ok [OF assms a(4), of kind 0 channel corr] obtain ws where
    ws: "write_frame kind 0 channel corr payload (ag_writer a) = Some (Inr (), (ag_writer a)\<lparr> lk_writes := ws,
        lk_out := lk_out (ag_writer a) @ frame_bytes kind channel corr payload \<rparr>)" "list_all (\<lambda>w. w = Wrote) ws"
    by (auto simp: frame_bytes_def)
  let ?a = "a\<lparr> ag_writer := (ag_writer a)\<lparr> lk_writes := ws, lk_out := lk_out (ag_writer a) @ frame_bytes kind channel corr payload \<rparr> \<rparr>"
  from ws a show "\<exists>a'. write_payload kind channel corr payload rt = (Inr (), rt\<lparr> rt_current := Some a' \<rparr>)
      \<and> generation_owner a' = owner \<and> \<not> ag_reader_stop a' \<and> list_all (\<lambda>w. w = Wrote) (lk_writes (ag_writer a'))
      \<and> lk_out (ag_writer a') = lk_out (ag_writer a) @ frame_bytes kind channel corr payload"
    by (intro exI [of _ ?a]) (simp add: write_payload_def generation_owner_def)
qed

lemma writes_encoded:
  assumes "to_slice v = Some bs" "length bs \<le> 64"
  shows "writes owner (write_encoded what (encode_into to_slice WINDOW_PAYLOAD_STORAGE_BYTES v) kind channel corr)
    (frame_bytes kind channel corr bs)"
  using assms writes_payload [of bs owner kind channel corr]
  by (simp add: write_encoded_cases encode_into_def WINDOW_PAYLOAD_STORAGE_BYTES_def MAX_FRAME_LEN_def)

lemma writes_owned:
  "writes owner (window_event env ev) bs \<Longrightarrow> writes owner (owned_event env (Some owner) \<lparr> oe_owner = owner, oe_event = ev \<rparr>) bs"
  "writes owner (window_reply env corr resp) bs \<Longrightarrow>
   writes owner (owned_reply env (Some owner) \<lparr> wr_owner = owner, wr_correlation = corr, wr_response = resp \<rparr>) bs"
  unfolding writes_def by (simp_all add: owned_event_def owned_reply_def active_owner_def)

lemma writes_last_window:
  assumes "we_lifecycle_event env LastWindowClosed = Some bs" "length bs \<le> 64"
  shows "writes owner (last_window_locked env (Some owner) (Some owner)) (frame_bytes Event LIFECYCLE_CHANNEL 0 bs)"
    "writes owner (last_window_locked env (Some owner) None) []"
proof -
  from writes_encoded [where to_slice = "we_lifecycle_event env" and owner = owner and kind = Event
      and what = "''window last-window encode''" and channel = LIFECYCLE_CHANNEL and corr = 0, OF assms]
  show "writes owner (last_window_locked env (Some owner) (Some owner)) (frame_bytes Event LIFECYCLE_CHANNEL 0 bs)"
    unfolding writes_def by (simp add: last_window_locked_def active_owner_def)
  show "writes owner (last_window_locked env (Some owner) None) []"
    by (rule writes_same) (simp add: last_window_locked_def)
qed

lemma released_live_windows:
  assumes "window_inv r" "map_of (entries r) k = Some e" "is_destroyed (phase e')"
  shows "has_live_windows (put_entry k e' r) \<longleftrightarrow> \<not> list_all (\<lambda>(k', x). k' = k \<or> is_destroyed (phase x)) (entries r)"
proof -
  have sorted: "entries_sorted (entries r)" using assms(1) by (simp add: window_inv_def)
  obtain xs ys where es: "entries r = xs @ (k, e) # ys" "btree_insert k e' (entries r) = xs @ (k, e') # ys"
    using btree_insert_split [OF sorted assms(2)] by metis
  have "distinct (map fst (entries r))" using sorted by (rule entries_sorted_distinct)
  with es(1) have "k \<notin> fst ` set (xs @ ys)" by auto
  with es assms(3) show ?thesis
    by (force simp: has_live_windows_def entry_values_def list_ex_iff list_all_iff)
qed

text \<open>
  Release is told in a fixed order: on a link that takes what is written, when the UI reports
  the release of a window of the subscribed owner, the host writes the \<open>Destroyed\<close> fact, then, if
  it was the last window of a session that is not ending, \<open>LastWindowClosed\<close>, and then one
  \<open>Destroyed\<close> reply per waiting Destroy call in the order they were taken, and nothing else.
\<close>

theorem release_written_in_order:
  assumes "rt_windows rt = Some s" "window_inv (ws_registry s)" "ws_subscribed s = Some owner"
    and "rt_current rt = Some a" "generation_owner a = owner" "\<not> ag_reader_stop a"
      "list_all (\<lambda>w. w = Wrote) (lk_writes (ag_writer a))"
    and "find_entry (\<lambda>x. entry_view x = Some view) (entries (ws_registry s)) = Some (k, e)"
      "phase e = Closing (Some n)" "created e" "owner_live e" "en_owner e = owner"
    and "we_event env (EvDestroyed (en_window e)) = Some ev" "length ev \<le> 64"
      "we_lifecycle_event env LastWindowClosed = Some lw" "length lw \<le> 64"
      "we_response env RespDestroyed = Some rp" "length rp \<le> 64"
  shows "\<exists>rt' a'. window_native_event env (UiWindowReleased view) rt = (Inr (), rt') \<and> rt_current rt' = Some a'
    \<and> lk_out (ag_writer a') = lk_out (ag_writer a)
      @ frame_bytes Event (ce_id WINDOW) 0 ev
      @ (if \<not> reg_ending (ws_registry s)
            \<and> list_all (\<lambda>(k', x). k' = k \<or> is_destroyed (phase x)) (entries (ws_registry s))
         then frame_bytes Event LIFECYCLE_CHANNEL 0 lw else [])
      @ concat (map (\<lambda>call. frame_bytes Reply (ce_id WINDOW) (call_correlation call) rp) (destroy_calls e))"
proof -
  let ?r = "ws_registry s"
  have e: "map_of (entries ?r) k = Some e" using window_inv_find [OF assms(2,8)] by blast
  let ?e' = "e\<lparr> phase := Destroyed (Some view), adoptable := False, dropped := 0, destroy_calls := [] \<rparr>"
  let ?last = "\<not> reg_ending ?r \<and> list_all (\<lambda>(k', x). k' = k \<or> is_destroyed (phase x)) (entries ?r)"
  let ?out = "\<lparr> ro_fact = Some \<lparr> oe_owner = owner, oe_event = EvDestroyed (en_window e) \<rparr>,
      ro_last_window = (if ?last then Some owner else None), ro_dropped_facts = dropped e, ro_diagnostic = False,
      ro_destroy_calls = destroy_calls e \<rparr>"
  have out: "fst (native_released view ?r) = ?out"
    using assms(8-12) released_live_windows [OF assms(2) e, of ?e'] by (simp add: native_released_def Let_def)
  have calls: "call_owner call = owner" if "call \<in> set (destroy_calls e)" for call
    using window_inv_entry(1) [OF assms(2) e] that assms(12) by (auto simp: entry_inv_def entry_calls_def list_all_iff)
  let ?last_bytes = "if ?last then frame_bytes Event LIFECYCLE_CHANNEL 0 lw else []"
  let ?replies = "concat (map (\<lambda>call. frame_bytes Reply (ce_id WINDOW) (call_correlation call) rp) (destroy_calls e))"
  have event: "writes owner (window_event env (EvDestroyed (en_window e))) (frame_bytes Event (ce_id WINDOW) 0 ev)"
    unfolding window_event_def by (rule writes_encoded [where to_slice = "we_event env", OF assms(13,14)])
  have last: "writes owner (last_window_locked env (Some owner) (ro_last_window ?out)) ?last_bytes"
    using writes_last_window [where env = env, OF assms(15,16)] by simp
  have replies: "writes owner (route_all (map (\<lambda>call. owned_reply env (Some owner)
      \<lparr> wr_owner = call_owner call, wr_correlation = call_correlation call, wr_response = RespDestroyed \<rparr>) (destroy_calls e))) ?replies"
    using calls writes_owned(2) writes_encoded [where to_slice = "we_response env", OF assms(17,18)]
    by (intro writes_all) (simp add: window_reply_def)
  from writes_then [OF writes_owned(1) [OF event] writes_then [OF last replies]]
  have "writes owner (window_released_locked env (Some owner) ?out)
      (frame_bytes Event (ce_id WINDOW) 0 ev @ ?last_bytes @ ?replies)"
    by (simp only: window_released_locked_def ReleaseOutcome.simps option.case)
  then obtain a' where
    wrote: "window_released_locked env (Some owner) ?out (put_registry s (snd (native_released view ?r)) (rt\<lparr> rt_failed := None \<rparr>))
        = (Inr (), (put_registry s (snd (native_released view ?r)) (rt\<lparr> rt_failed := None \<rparr>))\<lparr> rt_current := Some a' \<rparr>)"
      "lk_out (ag_writer a') = lk_out (ag_writer a) @ frame_bytes Event (ce_id WINDOW) 0 ev @ ?last_bytes @ ?replies"
    using assms(4-7) by (elim writesD [where rt = "put_registry s (snd (native_released view ?r)) (rt\<lparr> rt_failed := None \<rparr>)"])
      (auto simp: put_registry_def)
  then show ?thesis using assms(1,3) out
    by (auto simp: native_event_eq finish_window_write_def native_event_operation_def window_native_event_locked_def
        case_prod_beta put_registry_def)
qed

definition sample_owner :: WindowOwner where
  "sample_owner = \<lparr> wo_identity = LinkRole \<lparr> rp_owner = Primary, rp_generation = 1 \<rparr>, wo_attempt = 1 \<rparr>"

definition sample_entry :: Entry where
  "sample_entry = \<lparr> en_window = \<lparr> ref_id = 1, ref_incarnation = 1 \<rparr>, en_owner = sample_owner, owner_live = True,
     adoptable = False, created = True, dropped = 0, last_close_seq = 0,
     destroy_calls = [\<lparr> call_owner = sample_owner, call_correlation = 6 \<rparr>],
     phase = Closing (Some \<lparr> nw_view = 7, nw_state = \<lparr> st_bounds = \<lparr> rect_x = 0, rect_y = 0, rect_width = 9, rect_height = 9 \<rparr>,
       st_focused = True, st_maximized = False, st_full_screen = False \<rparr> \<rparr>) \<rparr>"

definition sample_session :: WindowSession where
  "sample_session = \<lparr> ws_registry = \<lparr> reg_ready = True, reg_ending = False, last_id = 1, last_incarnation = 1,
     entries = [(1, sample_entry)], deferred_last_window = False, destroyed_fact_drops = 0 \<rparr>,
     ws_native_supported = True, ws_subscribed = Some sample_owner \<rparr>"

definition sample_generation :: ActivePrimaryGeneration where
  "sample_generation = \<lparr> ag_attempt = 1, ag_identity = LinkRole \<lparr> rp_owner = Primary, rp_generation = 1 \<rparr>,
     ag_writer = \<lparr> lk_in = [], lk_ticks = [], lk_writes = [], lk_out = [] \<rparr>, ag_reader_stop = False, ag_link = 0 \<rparr>"

definition sample_router :: Router where
  "sample_router = \<lparr> rt_current = Some sample_generation, rt_windows = Some sample_session, rt_running = True,
     rt_window_ready = True, rt_commands = [], rt_ui_open = True, rt_failed = None, rt_link_failures = [] \<rparr>"

definition sample_env :: WindowEnv where
  "sample_env = \<lparr> we_event = (\<lambda>_. Some [6, 1, 1]), we_response = (\<lambda>_. Some [7]), we_lifecycle_event = (\<lambda>_. Some [1]),
     we_lifecycle = (\<lambda>_. Some [0]), we_error = (\<lambda>_. Some [0]), we_request = (\<lambda>_. None),
     we_fail_generation = (\<lambda>_. Inr ()), we_retire_others = (\<lambda>_. []) \<rparr>"

lemma sample_session_inv: "window_inv (ws_registry sample_session)"
  by (auto simp: window_inv_def sample_session_def sample_entry_def entry_inv_def entry_calls_def
      MAX_PENDING_DESTROYS_PER_WINDOW_def PROPOSED_MAX_CUMULATIVE_WINDOW_IDS_def split: if_splits)

theorem release_written_in_order_witness:
  "\<exists>rt' a'. window_native_event sample_env (UiWindowReleased 7) sample_router = (Inr (), rt') \<and> rt_current rt' = Some a'
    \<and> lk_out (ag_writer a') = frame_bytes Event (ce_id WINDOW) 0 [6, 1, 1] @ frame_bytes Event LIFECYCLE_CHANNEL 0 [1]
      @ frame_bytes Reply (ce_id WINDOW) 6 [7]"
proof -
  have find: "find_entry (\<lambda>x. entry_view x = Some 7) (entries (ws_registry sample_session)) = Some (1, sample_entry)"
    by (simp add: find_entry_def sample_session_def sample_entry_def entry_view_def)
  have "\<exists>rt' a'. window_native_event sample_env (UiWindowReleased 7) sample_router = (Inr (), rt') \<and> rt_current rt' = Some a'
    \<and> lk_out (ag_writer a') = lk_out (ag_writer sample_generation)
      @ frame_bytes Event (ce_id WINDOW) 0 [6, 1, 1]
      @ (if \<not> reg_ending (ws_registry sample_session)
            \<and> list_all (\<lambda>(k', x). k' = 1 \<or> is_destroyed (phase x)) (entries (ws_registry sample_session))
         then frame_bytes Event LIFECYCLE_CHANNEL 0 [1] else [])
      @ concat (map (\<lambda>call. frame_bytes Reply (ce_id WINDOW) (call_correlation call) [7]) (destroy_calls sample_entry))"
    by (rule release_written_in_order [OF _ sample_session_inv _ _ _ _ _ find, where owner = sample_owner])
      (simp_all add: sample_router_def sample_session_def sample_generation_def sample_owner_def sample_entry_def
        sample_env_def generation_owner_def)
  then show ?thesis by (simp add: sample_generation_def sample_session_def sample_entry_def)
qed

end
