(* ===== verification/Runtime_Marker.thy ===== *)
theory Runtime_Marker
  imports Keld_Prelude "HOL-Library.Sublist"
begin

text \<open>
  The stdout marker matcher of the child supervisor (\<open>CaptureState::new\<close>, \<open>begin_generation\<close> and
  the marker half of \<open>push_raw\<close> in \<open>crates/keld-runtime/src/lib.rs\<close>): a failure table per marker, and
  an incremental scan that spans reads but never child generations. A slice access out of range
  panics and a fall-back loop could run forever; both are the value \<open>None\<close> here, and the theorems
  show that the code returns. \<open>usize\<close> counters are naturals with the saturation written out.
\<close>

section \<open>The matcher\<close>

definition USIZE_MAX :: nat where "USIZE_MAX = 2 ^ 64 - 1"

definition usize_saturating_add :: "nat \<Rightarrow> nat \<Rightarrow> nat" where
  "usize_saturating_add a b = min (a + b) USIZE_MAX"

record StdoutMarker =
  mk_bytes :: bytes
  mk_prefix :: "nat list"
  mk_matched :: nat
  mk_first_end :: "nat option"

text \<open>\<open>while matched > 0 && byte != bytes[matched] { matched = prefix[matched - 1]; }\<close>\<close>

partial_function (option) fall_back :: "bytes \<Rightarrow> nat list \<Rightarrow> byte \<Rightarrow> nat \<Rightarrow> nat option" where
  "fall_back bs pre c m =
     (if m = 0 then Some m
      else if length bs \<le> m then None
      else if c = bs ! m then Some m
      else if length pre < m then None
      else fall_back bs pre c (pre ! (m - 1)))"

declare fall_back.simps [code]

definition marker_advance :: "bytes \<Rightarrow> nat list \<Rightarrow> byte \<Rightarrow> nat \<Rightarrow> nat option" where
  "marker_advance bs pre c m =
     (case fall_back bs pre c m of
        None \<Rightarrow> None
      | Some m1 \<Rightarrow> if length bs \<le> m1 then None else Some (if c = bs ! m1 then m1 + 1 else m1))"

fun marker_prefix_from :: "bytes \<Rightarrow> nat list \<Rightarrow> nat list \<Rightarrow> nat \<Rightarrow> nat list option" where
  "marker_prefix_from bs [] pre m = Some pre"
| "marker_prefix_from bs (i # is) pre m =
     (case marker_advance bs pre (bs ! i) m of
        None \<Rightarrow> None
      | Some m1 \<Rightarrow> marker_prefix_from bs is (pre[i := m1]) m1)"

definition marker_prefix :: "bytes \<Rightarrow> nat list option" where
  "marker_prefix bs = marker_prefix_from bs [1..<length bs] (replicate (length bs) 0) 0"

definition marker_new :: "bytes \<Rightarrow> StdoutMarker option" where
  "marker_new bs = map_option (\<lambda>pre. \<lparr> mk_bytes = bs, mk_prefix = pre, mk_matched = 0, mk_first_end = None \<rparr>)
     (marker_prefix bs)"

text \<open>
  The inner loop of \<open>push_raw\<close> over one read: \<open>seen\<close> (the index of the loop) counts the bytes of the read already seen,
  \<open>base\<close> is \<open>stdout_total_bytes\<close> before the read.
\<close>

fun marker_scan :: "nat \<Rightarrow> nat \<Rightarrow> bytes \<Rightarrow> StdoutMarker \<Rightarrow> StdoutMarker option" where
  "marker_scan base seen [] mk = Some mk"
| "marker_scan base seen (c # cs) mk =
     (case marker_advance (mk_bytes mk) (mk_prefix mk) c (mk_matched mk) of
        None \<Rightarrow> None
      | Some m \<Rightarrow>
          if m = length (mk_bytes mk)
          then Some (mk\<lparr> mk_matched := m,
            mk_first_end := Some (usize_saturating_add (usize_saturating_add base seen) 1) \<rparr>)
          else marker_scan base (seen + 1) cs (mk\<lparr> mk_matched := m \<rparr>))"

definition marker_push :: "nat \<Rightarrow> bytes \<Rightarrow> StdoutMarker \<Rightarrow> StdoutMarker option" where
  "marker_push base bs mk = (if mk_first_end mk \<noteq> None then Some mk else marker_scan base 0 bs mk)"

definition marker_begin_generation :: "StdoutMarker \<Rightarrow> StdoutMarker" where
  "marker_begin_generation mk = mk\<lparr> mk_matched := 0 \<rparr>"

section \<open>Longest overlaps\<close>

text \<open>\<open>m\<close> is the length of the longest prefix of \<open>w\<close> that ends the text \<open>t\<close>.\<close>

definition overlap :: "'a list \<Rightarrow> 'a list \<Rightarrow> nat \<Rightarrow> bool" where
  "overlap w t m \<longleftrightarrow> m \<le> length w \<and> suffix (take m w) t
     \<and> (\<forall>k \<le> length w. suffix (take k w) t \<longrightarrow> k \<le> m)"

definition table_ok :: "'a list \<Rightarrow> nat list \<Rightarrow> nat \<Rightarrow> bool" where
  "table_ok w pre n \<longleftrightarrow> length pre = length w \<and> n \<le> length w
     \<and> (\<forall>i < n. overlap w (tl (take (Suc i) w)) (pre ! i))"

lemma suffix_take_Suc:
  assumes "k < length w"
  shows "suffix (take (Suc k) w) (t @ [c]) \<longleftrightarrow> suffix (take k w) t \<and> w ! k = c"
  using assms by (auto simp: take_Suc_conv_app_nth suffix_def)

lemma overlap_length: "overlap w t m \<Longrightarrow> m \<le> length t"
  unfolding overlap_def by (metis length_take min.absorb2 suffix_length_le)

lemma overlap_nil: "overlap w [] 0"
  unfolding overlap_def by (auto simp: suffix_def)

lemma overlap_full: "overlap w t m \<Longrightarrow> m = length w \<longleftrightarrow> suffix w t"
  unfolding overlap_def by (metis dual_order.antisym order_refl take_all)

lemma suffix_tl: "suffix x (tl y) \<longleftrightarrow> suffix x y \<and> (length x < length y \<or> x = [])"
  by (cases y) (auto simp: suffix_Cons dest: suffix_length_le)

lemma table_border:
  assumes "table_ok w pre n" "0 < m" "m \<le> n"
  shows "overlap w (tl (take m w)) (pre ! (m - 1))" "pre ! (m - 1) < m"
proof -
  show o: "overlap w (tl (take m w)) (pre ! (m - 1))"
    using assms by (cases m) (auto simp: table_ok_def)
  from overlap_length [OF this] assms show "pre ! (m - 1) < m" by (auto simp: table_ok_def)
qed

lemma border_next:
  assumes "table_ok w pre n" "0 < m" "m \<le> n" "suffix (take m w) t"
  shows "suffix (take (pre ! (m - 1)) w) t"
    and "k < m \<Longrightarrow> suffix (take k w) t \<Longrightarrow> k \<le> pre ! (m - 1)"
proof -
  note border = table_border [OF assms(1-3)]
  have "suffix (take (pre ! (m - 1)) w) (tl (take m w))" using border by (simp add: overlap_def)
  then show "suffix (take (pre ! (m - 1)) w) t"
    using assms(4) by (meson suffix_order.trans suffix_tl)
  assume k: "k < m" "suffix (take k w) t"
  from assms have "m \<le> length w" by (simp add: table_ok_def)
  with k have "suffix (take k w) (take m w)" using suffix_length_suffix [OF k(2) assms(4)] by simp
  with k \<open>m \<le> length w\<close> have "suffix (take k w) (tl (take m w))" unfolding suffix_tl by simp
  with border(1) k \<open>m \<le> length w\<close> show "k \<le> pre ! (m - 1)" unfolding overlap_def by simp
qed

lemma fall_back_finds:
  assumes "table_ok w pre n" "m \<le> n" "m < length w" "suffix (take m w) t"
  shows "\<exists>m'. fall_back w pre c m = Some m' \<and> m' \<le> m \<and> suffix (take m' w) t \<and> (m' = 0 \<or> c = w ! m')
    \<and> (\<forall>k \<le> m. suffix (take k w) t \<longrightarrow> w ! k = c \<longrightarrow> k \<le> m')"
  using assms(2-)
proof (induction m rule: less_induct)
  case (less m)
  show ?case
  proof (cases "m = 0 \<or> c = w ! m")
    case True
    with less.prems show ?thesis by (subst fall_back.simps) auto
  next
    case False
    with less.prems have m: "0 < m" "m \<le> n" by auto
    note border = border_next [OF assms(1) m less.prems(3)]
    have smaller: "pre ! (m - 1) < m" using table_border [OF assms(1) m] by simp
    with less.prems less.IH [OF smaller] border(1) obtain m' where
      m': "fall_back w pre c (pre ! (m - 1)) = Some m'" "m' \<le> pre ! (m - 1)" "suffix (take m' w) t"
        "m' = 0 \<or> c = w ! m'" "\<forall>k \<le> pre ! (m - 1). suffix (take k w) t \<longrightarrow> w ! k = c \<longrightarrow> k \<le> m'" by auto
    have "fall_back w pre c m = Some m'"
      using False less.prems assms(1) m'(1) by (subst fall_back.simps) (auto simp: table_ok_def)
    moreover have "k \<le> m'" if "k \<le> m" "suffix (take k w) t" "w ! k = c" for k
    proof -
      from that False have "k < m" by (cases "k = m") auto
      with border(2) m'(5) that show ?thesis by blast
    qed
    ultimately show ?thesis using m'(2,3,4) smaller by (intro exI [of _ m']) auto
  qed
qed

lemma marker_advance_overlap:
  assumes "table_ok w pre n" "m \<le> n" "m < length w" "overlap w t m"
  shows "\<exists>m'. marker_advance w pre c m = Some m' \<and> overlap w (t @ [c]) m'"
proof -
  from assms(4) have suf: "suffix (take m w) t" and top: "\<And>k. k \<le> length w \<Longrightarrow> suffix (take k w) t \<Longrightarrow> k \<le> m"
    by (auto simp: overlap_def)
  obtain m1 where m1: "fall_back w pre c m = Some m1" "m1 \<le> m" "suffix (take m1 w) t" "m1 = 0 \<or> c = w ! m1"
      "\<And>k. k \<le> m \<Longrightarrow> suffix (take k w) t \<Longrightarrow> w ! k = c \<Longrightarrow> k \<le> m1"
    using fall_back_finds [OF assms(1-3) suf, of c] by blast
  let ?m' = "if c = w ! m1 then m1 + 1 else m1"
  have "overlap w (t @ [c]) ?m'"
    unfolding overlap_def
  proof (intro conjI allI impI)
    show "?m' \<le> length w" using m1(2) assms(3) by auto
    show "suffix (take ?m' w) (t @ [c])"
    proof (cases "c = w ! m1")
      case True
      with suffix_take_Suc [of m1 w t c] m1 assms(3) show ?thesis by simp
    qed (use m1(4) in simp)
    fix k assume k: "k \<le> length w" "suffix (take k w) (t @ [c])"
    show "k \<le> ?m'"
    proof (cases k)
      case (Suc j)
      with k suffix_take_Suc [of j w t c] have "suffix (take j w) t" "w ! j = c" by simp_all
      with m1(5) top k Suc have "j \<le> m1" by auto
      with \<open>w ! j = c\<close> m1(4) Suc show ?thesis by auto
    qed simp
  qed
  moreover have "marker_advance w pre c m = Some ?m'"
    using m1(1,2) assms(3) by (simp add: marker_advance_def)
  ultimately show ?thesis by blast
qed

lemma tl_take_Suc: "0 < i \<Longrightarrow> i < length w \<Longrightarrow> tl (take (Suc i) w) = tl (take i w) @ [w ! i]"
  by (cases i; cases w) (auto simp: take_Suc_conv_app_nth)

lemma marker_prefix_from_ok:
  assumes "0 < i" "i \<le> length w" "table_ok w pre i" "overlap w (tl (take i w)) m"
  shows "\<exists>pre'. marker_prefix_from w [i..<length w] pre m = Some pre' \<and> table_ok w pre' (length w)"
  using assms
proof (induction "length w - i" arbitrary: i pre m)
  case 0
  then show ?case by simp
next
  case (Suc d)
  from Suc.hyps(2) have i: "i < length w" by simp
  from overlap_length [OF Suc.prems(4)] i have m: "m \<le> i" "m < length w" by auto
  obtain m1 where m1: "marker_advance w pre (w ! i) m = Some m1" "overlap w (tl (take (Suc i) w)) m1"
    using marker_advance_overlap [OF Suc.prems(3) m Suc.prems(4), of "w ! i"] tl_take_Suc [OF Suc.prems(1) i]
    by auto
  have "table_ok w (pre[i := m1]) (Suc i)"
    using Suc.prems(3) i m1(2) by (auto simp: table_ok_def less_Suc_eq nth_list_update)
  moreover have "d = length w - Suc i" using Suc.hyps(2) by arith
  ultimately obtain pre' where "marker_prefix_from w [Suc i..<length w] (pre[i := m1]) m1 = Some pre'"
    "table_ok w pre' (length w)" using Suc.hyps(1) [of "Suc i" "pre[i := m1]" m1] m1 i by auto
  with m1(1) i show ?case by (simp add: upt_conv_Cons)
qed

lemma marker_prefix_ok:
  assumes "w \<noteq> []"
  shows "\<exists>pre. marker_prefix w = Some pre \<and> table_ok w pre (length w)"
  unfolding marker_prefix_def
proof (rule marker_prefix_from_ok)
  from assms show "0 < (1 :: nat)" "1 \<le> length w" by (simp_all add: Suc_le_eq)
  from assms show "table_ok w (replicate (length w) 0) 1"
    by (cases w) (simp_all add: table_ok_def overlap_nil)
  from assms show "overlap w (tl (take 1 w)) 0" by (cases w) (simp_all add: overlap_nil)
qed

section \<open>The scan against its reference\<close>

text \<open>
  The reference: the end of the first occurrence of a marker in one text, and over the texts of
  successive generations, where an occurrence may not span two of them.
\<close>

definition first_end :: "'a list \<Rightarrow> 'a list \<Rightarrow> nat option" where
  "first_end w t = find (\<lambda>k. suffix w (take k t)) [1..<Suc (length t)]"

fun marker_reference :: "'a list \<Rightarrow> nat \<Rightarrow> 'a list list \<Rightarrow> nat option" where
  "marker_reference w base [] = None"
| "marker_reference w base (g # gs) =
     (case first_end w g of
        Some k \<Rightarrow> Some (base + k)
      | None \<Rightarrow> marker_reference w (base + length g) gs)"

lemma find_append: "find P (xs @ ys) = (case find P xs of Some x \<Rightarrow> Some x | None \<Rightarrow> find P ys)"
  by (induction xs) auto

lemma first_end_snoc:
  "first_end w (t @ [c]) =
     (case first_end w t of
        Some k \<Rightarrow> Some k
      | None \<Rightarrow> if suffix w (t @ [c]) then Some (Suc (length t)) else None)"
proof -
  have "find (\<lambda>k. suffix w (take k (t @ [c]))) [1..<Suc (length t)] = first_end w t"
    unfolding first_end_def by (rule find_cong) auto
  moreover have "[1..<Suc (length (t @ [c]))] = [1..<Suc (length t)] @ [Suc (length t)]" by simp
  ultimately show ?thesis
    by (simp only: first_end_def [of w "t @ [c]"] find_append) (simp split: option.split)
qed

lemma first_end_Nil [simp]: "first_end w [] = None"
  by (simp add: first_end_def)

lemma first_end_keep: "first_end w t = Some k \<Longrightarrow> first_end w (t @ cs) = Some k"
  by (induction cs rule: rev_induct) (simp_all add: first_end_snoc flip: append_assoc)

lemma marker_reference_snoc:
  "marker_reference w base (gs @ [g]) =
     (case marker_reference w base gs of
        Some k \<Rightarrow> Some k
      | None \<Rightarrow> map_option ((+) (base + length (concat gs))) (first_end w g))"
  by (induction gs arbitrary: base) (auto simp: add.assoc split: option.split)

lemma marker_scan_end:
  assumes "table_ok (mk_bytes mk) (mk_prefix mk) (length (mk_bytes mk))"
    and "overlap (mk_bytes mk) gen (mk_matched mk)" "mk_matched mk < length (mk_bytes mk)"
    and "first_end (mk_bytes mk) gen = None" "mk_first_end mk = None"
    and "seen \<le> length gen" "base = min (before + (length gen - seen)) USIZE_MAX"
  shows "\<exists>mk'. marker_scan base seen cs mk = Some mk' \<and> mk_bytes mk' = mk_bytes mk \<and> mk_prefix mk' = mk_prefix mk
    \<and> (case first_end (mk_bytes mk) (gen @ cs) of
         Some k \<Rightarrow> mk_first_end mk' = Some (min (before + k) USIZE_MAX)
       | None \<Rightarrow> mk_first_end mk' = None \<and> overlap (mk_bytes mk) (gen @ cs) (mk_matched mk')
           \<and> mk_matched mk' < length (mk_bytes mk))"
  using assms
proof (induction cs arbitrary: mk gen seen)
  case Nil
  then show ?case by simp
next
  case (Cons c cs)
  let ?w = "mk_bytes mk"
  obtain m where m: "marker_advance ?w (mk_prefix mk) c (mk_matched mk) = Some m" "overlap ?w (gen @ [c]) m"
    using marker_advance_overlap [OF Cons.prems(1) _ Cons.prems(3,2)] Cons.prems(3) by auto
  show ?case
  proof (cases "m = length ?w")
    case True
    with overlap_full [OF m(2)] Cons.prems(4) have "first_end ?w (gen @ [c]) = Some (Suc (length gen))"
      by (simp add: first_end_snoc)
    from first_end_keep [OF this, of cs] have "first_end ?w (gen @ c # cs) = Some (Suc (length gen))" by simp
    moreover have "usize_saturating_add (usize_saturating_add base seen) 1 = min (Suc (before + length gen)) USIZE_MAX"
      using Cons.prems(6,7) by (auto simp: usize_saturating_add_def)
    ultimately show ?thesis using m(1) True by simp
  next
    case False
    let ?mk = "mk\<lparr> mk_matched := m \<rparr>"
    from False m(2) have less: "m < length ?w" by (simp add: overlap_def)
    have none: "first_end ?w (gen @ [c]) = None"
      using False overlap_full [OF m(2)] Cons.prems(4) by (simp add: first_end_snoc)
    have "\<exists>mk'. marker_scan base (Suc seen) cs ?mk = Some mk' \<and> mk_bytes mk' = mk_bytes ?mk \<and> mk_prefix mk' = mk_prefix ?mk
      \<and> (case first_end (mk_bytes ?mk) ((gen @ [c]) @ cs) of
           Some k \<Rightarrow> mk_first_end mk' = Some (min (before + k) USIZE_MAX)
         | None \<Rightarrow> mk_first_end mk' = None \<and> overlap (mk_bytes ?mk) ((gen @ [c]) @ cs) (mk_matched mk')
             \<and> mk_matched mk' < length (mk_bytes ?mk))"
      by (rule Cons.IH) (use Cons.prems m(2) less none in simp_all)
    with m(1) False show ?thesis by (simp cong: option.case_cong)
  qed
qed

text \<open>
  The state of a marker after the finished generations \<open>gs\<close> and the part \<open>gen\<close> of the current one.
\<close>

definition marker_tracks :: "bytes \<Rightarrow> bytes list \<Rightarrow> bytes \<Rightarrow> StdoutMarker \<Rightarrow> bool" where
  "marker_tracks w gs gen mk \<longleftrightarrow>
     mk_bytes mk = w \<and> w \<noteq> [] \<and> table_ok w (mk_prefix mk) (length w)
     \<and> mk_first_end mk = map_option (\<lambda>k. min k USIZE_MAX) (marker_reference w 0 (gs @ [gen]))
     \<and> (mk_first_end mk = None \<longrightarrow> overlap w gen (mk_matched mk) \<and> mk_matched mk < length w)"

lemma marker_new_tracks: "w \<noteq> [] \<Longrightarrow> \<exists>mk. marker_new w = Some mk \<and> marker_tracks w [] [] mk"
  using marker_prefix_ok [of w] by (auto simp: marker_new_def marker_tracks_def overlap_nil)

lemma marker_begin_tracks:
  "marker_tracks w gs gen mk \<Longrightarrow> marker_tracks w (gs @ [gen]) [] (marker_begin_generation mk)"
  using marker_reference_snoc [of w 0 "gs @ [gen]" "[]"]
  by (auto simp: marker_tracks_def marker_begin_generation_def overlap_nil split: option.splits)

lemma marker_push_tracks:
  assumes "marker_tracks w gs gen mk"
  shows "\<exists>mk'. marker_push (min (length (concat gs) + length gen) USIZE_MAX) bs mk = Some mk'
    \<and> marker_tracks w gs (gen @ bs) mk'"
proof (cases "mk_first_end mk")
  case (Some k)
  with assms first_end_keep [of w gen _ bs] have "marker_tracks w gs (gen @ bs) mk"
    by (cases "first_end w gen") (auto simp: marker_tracks_def marker_reference_snoc split: option.splits)
  with Some show ?thesis by (simp add: marker_push_def)
next
  case None
  with assms have mk: "mk_bytes mk = w" "w \<noteq> []" "table_ok w (mk_prefix mk) (length w)" "overlap w gen (mk_matched mk)"
      "mk_matched mk < length w" "marker_reference w 0 gs = None" "first_end w gen = None"
    by (auto simp: marker_tracks_def marker_reference_snoc split: option.splits)
  let ?before = "length (concat gs)"
  have "\<exists>mk'. marker_scan (min (?before + length gen) USIZE_MAX) 0 bs mk = Some mk'
    \<and> mk_bytes mk' = mk_bytes mk \<and> mk_prefix mk' = mk_prefix mk
    \<and> (case first_end (mk_bytes mk) (gen @ bs) of
         Some k \<Rightarrow> mk_first_end mk' = Some (min (?before + k) USIZE_MAX)
       | None \<Rightarrow> mk_first_end mk' = None \<and> overlap (mk_bytes mk) (gen @ bs) (mk_matched mk')
           \<and> mk_matched mk' < length (mk_bytes mk))"
    by (rule marker_scan_end) (use mk None in simp_all)
  then obtain mk' where "marker_scan (min (?before + length gen) USIZE_MAX) 0 bs mk = Some mk'"
      "mk_bytes mk' = w" "mk_prefix mk' = mk_prefix mk"
      "case first_end w (gen @ bs) of
         Some k \<Rightarrow> mk_first_end mk' = Some (min (?before + k) USIZE_MAX)
       | None \<Rightarrow> mk_first_end mk' = None \<and> overlap w (gen @ bs) (mk_matched mk') \<and> mk_matched mk' < length w"
    unfolding mk(1) by blast
  with mk None show ?thesis
    by (auto simp: marker_push_def marker_tracks_def marker_reference_snoc split: option.splits)
qed

end
