(* ===== verification/Runtime_Utf8.thy ===== *)
theory Runtime_Utf8
  imports Keld_Prelude
begin

text \<open>
  What the capture code uses of Rust's strings: a \<open>String\<close> is the list of its UTF-8 bytes,
  \<open>from_utf8_lossy\<close> replaces each maximal ill-formed part by U+FFFD, and \<open>is_char_boundary\<close> looks for a
  byte that does not continue a character. The lemmas say that cutting at boundaries keeps a string
  well formed and that a boundary is never more than three bytes away.
\<close>

section \<open>Decoding\<close>

definition is_cont :: "byte \<Rightarrow> bool" where
  "is_cont b \<longleftrightarrow> 0x80 \<le> b \<and> b < 0xC0"

definition utf8_char_width :: "byte \<Rightarrow> nat" where
  "utf8_char_width b =
     (if b < 0x80 then 1
      else if 0xC2 \<le> b \<and> b \<le> 0xDF then 2
      else if 0xE0 \<le> b \<and> b \<le> 0xEF then 3
      else if 0xF0 \<le> b \<and> b \<le> 0xF4 then 4
      else 0)"

definition second_ok :: "byte \<Rightarrow> byte \<Rightarrow> bool" where
  "second_ok b0 b1 =
     (if b0 = 0xE0 then 0xA0 \<le> b1 \<and> b1 \<le> 0xBF
      else if b0 = 0xED then 0x80 \<le> b1 \<and> b1 \<le> 0x9F
      else if b0 = 0xF0 then 0x90 \<le> b1 \<and> b1 \<le> 0xBF
      else if b0 = 0xF4 then 0x80 \<le> b1 \<and> b1 \<le> 0x8F
      else is_cont b1)"

definition byte_at :: "bytes \<Rightarrow> nat \<Rightarrow> byte" where
  "byte_at bs i = (if i < length bs then bs ! i else 0)"

text \<open>The character or the ill-formed part at the front: whether it is a character, and its length.\<close>

definition utf8_chunk :: "bytes \<Rightarrow> bool \<times> nat" where
  "utf8_chunk bs =
     (let b0 = byte_at bs 0; b1 = byte_at bs 1; b2 = byte_at bs 2; b3 = byte_at bs 3; w = utf8_char_width b0 in
      if w = 1 then (True, 1)
      else if w = 2 then (if is_cont b1 then (True, 2) else (False, 1))
      else if w = 3 then
        (if \<not> second_ok b0 b1 then (False, 1) else if is_cont b2 then (True, 3) else (False, 2))
      else if w = 4 then
        (if \<not> second_ok b0 b1 then (False, 1) else if \<not> is_cont b2 then (False, 2)
         else if is_cont b3 then (True, 4) else (False, 3))
      else (False, 1))"

lemma utf8_chunk_pos: "0 < snd (utf8_chunk bs)"
  by (simp add: utf8_chunk_def Let_def)

lemma utf8_chunk_shrinks: "bs \<noteq> [] \<Longrightarrow> (ok, n) = utf8_chunk bs \<Longrightarrow> length bs - n < length bs"
  using utf8_chunk_pos [of bs] by (cases bs) (auto dest: arg_cong [of _ _ snd])

definition REPLACEMENT :: bytes where "REPLACEMENT = [0xEF, 0xBF, 0xBD]"

function from_utf8_lossy :: "bytes \<Rightarrow> bytes" where
  "from_utf8_lossy bs =
     (if bs = [] then []
      else case utf8_chunk bs of (ok, n) \<Rightarrow>
        (if ok then take n bs else REPLACEMENT) @ from_utf8_lossy (drop n bs))"
  by pat_completeness auto
termination
  by (relation "measure length") (auto dest: utf8_chunk_shrinks)

declare from_utf8_lossy.simps [simp del]

function utf8_valid :: "bytes \<Rightarrow> bool" where
  "utf8_valid bs =
     (if bs = [] then True
      else case utf8_chunk bs of (ok, n) \<Rightarrow> ok \<and> utf8_valid (drop n bs))"
  by pat_completeness auto
termination
  by (relation "measure length") (auto dest: utf8_chunk_shrinks)

declare utf8_valid.simps [simp del]

definition is_char_boundary :: "bytes \<Rightarrow> nat \<Rightarrow> bool" where
  "is_char_boundary s i = (if i = 0 \<or> i = length s then True else i < length s \<and> \<not> is_cont (s ! i))"

section \<open>Characters\<close>

definition utf8_char :: "bytes \<Rightarrow> bool" where
  "utf8_char c \<longleftrightarrow> c \<noteq> [] \<and> utf8_chunk c = (True, length c)"

lemma not_cont_ascii: "b < 0x80 \<Longrightarrow> \<not> is_cont b"
  by (auto simp: is_cont_def)

lemma second_ok_cont: "second_ok b0 b1 \<Longrightarrow> is_cont b1"
  by (auto simp: second_ok_def is_cont_def word_le_nat_alt word_less_nat_alt split: if_splits)

lemma width_not_cont: "utf8_char_width b \<noteq> 0 \<Longrightarrow> \<not> is_cont b"
  by (auto simp: utf8_char_width_def is_cont_def word_le_nat_alt word_less_nat_alt split: if_splits)

lemma cont_at: "is_cont (byte_at bs i) \<Longrightarrow> i < length bs"
  by (auto simp: byte_at_def is_cont_def split: if_splits)

lemma utf8_chunk_le: "bs \<noteq> [] \<Longrightarrow> snd (utf8_chunk bs) \<le> length bs"
  using cont_at [of bs 1] cont_at [of bs 2] cont_at [of bs 3] second_ok_cont [of "byte_at bs 0" "byte_at bs 1"]
  by (auto simp: utf8_chunk_def Let_def Suc_le_eq)

lemma byte_at_append: "i < length c \<Longrightarrow> byte_at (c @ x) i = byte_at c i"
  by (simp add: byte_at_def nth_append)

lemma utf8_chunk_local:
  assumes "utf8_chunk bs = (True, n)" "\<And>i. i < n \<Longrightarrow> byte_at cs i = byte_at bs i"
  shows "utf8_chunk cs = (True, n)"
proof -
  have "0 < n" using utf8_chunk_pos [of bs] assms(1) by simp
  with assms(2) have b0: "byte_at cs 0 = byte_at bs 0" by simp
  have b1: "1 < n \<Longrightarrow> byte_at cs 1 = byte_at bs 1" and b2: "2 < n \<Longrightarrow> byte_at cs 2 = byte_at bs 2"
    and b3: "3 < n \<Longrightarrow> byte_at cs 3 = byte_at bs 3" using assms(2) by auto
  show ?thesis using assms(1) b0 b1 b2 b3 by (auto simp: utf8_chunk_def Let_def split: if_splits)
qed

lemma utf8_char_append:
  assumes "utf8_char c"
  shows "utf8_chunk (c @ x) = (True, length c)"
  by (rule utf8_chunk_local [of c]) (use assms in \<open>auto simp: utf8_char_def byte_at_append\<close>)

lemma utf8_chunk_char:
  assumes "bs \<noteq> []" "utf8_chunk bs = (True, n)"
  shows "utf8_char (take n bs)"
proof -
  have n: "0 < n" "n \<le> length bs" using utf8_chunk_pos [of bs] utf8_chunk_le [OF assms(1)] assms(2) by simp_all
  have "utf8_chunk (take n bs) = (True, n)"
    by (rule utf8_chunk_local [OF assms(2)]) (use n in \<open>simp add: byte_at_def\<close>)
  with n assms(1) show ?thesis by (auto simp: utf8_char_def)
qed

lemma utf8_char_shape:
  assumes "utf8_char c"
  shows "length c \<le> 4" "c \<noteq> []" "\<not> is_cont (c ! 0)" "0 < i \<Longrightarrow> i < length c \<Longrightarrow> is_cont (c ! i)"
proof -
  from assms have c: "c \<noteq> []" "utf8_chunk c = (True, length c)" by (auto simp: utf8_char_def)
  then show "length c \<le> 4" "c \<noteq> []" by (auto simp: utf8_chunk_def Let_def split: if_splits)
  from c have "utf8_char_width (byte_at c 0) \<noteq> 0" by (auto simp: utf8_chunk_def Let_def split: if_splits)
  with c(1) width_not_cont show "\<not> is_cont (c ! 0)" by (simp add: byte_at_def)
  assume "0 < i" "i < length c"
  then consider "i = 1" "1 < length c" | "i = 2" "2 < length c" | "i = 3" "3 < length c" | "4 \<le> i" by linarith
  then show "is_cont (c ! i)"
    using c \<open>length c \<le> 4\<close> \<open>i < length c\<close> second_ok_cont [of "byte_at c 0" "byte_at c 1"]
    by cases (auto simp: utf8_chunk_def Let_def byte_at_def split: if_splits)
qed

lemma utf8_valid_Nil [simp]: "utf8_valid []"
  by (simp add: utf8_valid.simps)

lemma utf8_valid_char: "utf8_char c \<Longrightarrow> utf8_valid (c @ s) \<longleftrightarrow> utf8_valid s"
  using utf8_char_append [of c s] utf8_char_shape(2) [of c] by (subst utf8_valid.simps) auto

lemma utf8_valid_concat: "list_all utf8_char cs \<Longrightarrow> utf8_valid (concat cs)"
  by (induction cs) (simp_all add: utf8_valid_char)

lemma utf8_valid_chars:
  assumes "utf8_valid s"
  obtains cs where "list_all utf8_char cs" "s = concat cs"
  using assms
proof (induction s arbitrary: thesis rule: utf8_valid.induct)
  case (1 s)
  show ?case
  proof (cases "s = []")
    case True
    then show ?thesis by (intro 1(2) [of "[]"]) simp_all
  next
    case False
    with 1(3) obtain n where n: "utf8_chunk s = (True, n)" "utf8_valid (drop n s)"
      by (subst (asm) utf8_valid.simps) (auto split: prod.splits)
    obtain cs where "list_all utf8_char cs" "drop n s = concat cs"
      using 1(1) [OF False n(1) [symmetric] _ n(2)] by blast
    with utf8_chunk_char [OF False n(1)] show ?thesis
      by (intro 1(2) [of "take n s # cs"]) (simp_all, metis append_take_drop_id)
  qed
qed

lemma utf8_valid_append: "utf8_valid s \<Longrightarrow> utf8_valid t \<Longrightarrow> utf8_valid (s @ t)"
proof -
  assume "utf8_valid s" "utf8_valid t"
  then obtain cs ds where "list_all utf8_char cs" "s = concat cs" "list_all utf8_char ds" "t = concat ds"
    by (metis utf8_valid_chars)
  then show ?thesis using utf8_valid_concat [of "cs @ ds"] by simp
qed

lemma utf8_valid_ascii: "b < 0x80 \<Longrightarrow> utf8_valid [b]"
  by (simp add: utf8_valid.simps utf8_chunk_def byte_at_def utf8_char_width_def)

lemma utf8_valid_replacement: "utf8_valid REPLACEMENT"
  by (simp add: utf8_valid.simps REPLACEMENT_def utf8_chunk_def byte_at_def utf8_char_width_def second_ok_def
      is_cont_def)

lemma lossy_valid: "utf8_valid (from_utf8_lossy bs)"
proof (induction bs rule: from_utf8_lossy.induct)
  case (1 bs)
  show ?case
  proof (cases "bs = []")
    case True
    then show ?thesis by (simp add: from_utf8_lossy.simps)
  next
    case False
    obtain ok n where n: "utf8_chunk bs = (ok, n)" by fastforce
    have "utf8_valid (if ok then take n bs else REPLACEMENT)"
      using utf8_chunk_char [OF False, of n] n utf8_valid_char [of "take n bs" "[]"]
      by (auto simp: utf8_valid_replacement)
    with 1 False n show ?thesis by (subst from_utf8_lossy.simps) (simp add: utf8_valid_append)
  qed
qed

lemma lossy_id: "utf8_valid bs \<Longrightarrow> from_utf8_lossy bs = bs"
proof (induction bs rule: from_utf8_lossy.induct)
  case (1 bs)
  show ?case
  proof (cases "bs = []")
    case False
    with 1(2) obtain n where "utf8_chunk bs = (True, n)" "utf8_valid (drop n bs)"
      by (subst (asm) utf8_valid.simps) (auto split: prod.splits)
    with 1(1) False show ?thesis by (subst from_utf8_lossy.simps) simp
  qed (simp add: from_utf8_lossy.simps)
qed

section \<open>Boundaries\<close>

lemma concat_cut:
  assumes "list_all utf8_char cs" "i < length (concat cs)" "\<not> is_cont (concat cs ! i)"
  shows "\<exists>as bs. cs = as @ bs \<and> length (concat as) = i"
  using assms
proof (induction cs arbitrary: i)
  case (Cons c cs)
  show ?case
  proof (cases "i < length c")
    case True
    with Cons.prems utf8_char_shape(4) [of c i] have "i = 0" by (cases "i = 0") (auto simp: nth_append)
    then show ?thesis by (intro exI [of _ "[]"] exI [of _ "c # cs"]) simp
  next
    case False
    with Cons.prems(2) have "i - length c < length (concat cs)" by simp
    with False Cons.prems Cons.IH [of "i - length c"] obtain as bs
      where "cs = as @ bs" "length (concat as) = i - length c" by (auto simp: nth_append)
    with False show ?thesis by (intro exI [of _ "c # as"] exI [of _ bs]) simp
  qed
qed simp

lemma boundary_cut:
  assumes "utf8_valid s" "is_char_boundary s i"
  shows "utf8_valid (take i s)" "utf8_valid (drop i s)"
proof -
  obtain cs where cs: "list_all utf8_char cs" "s = concat cs" using utf8_valid_chars [OF assms(1)] by blast
  have "utf8_valid (take i s) \<and> utf8_valid (drop i s)"
  proof (cases "i = 0 \<or> i = length s")
    case True
    with assms(1) show ?thesis by auto
  next
    case False
    with assms(2) cs obtain as bs where "cs = as @ bs" "length (concat as) = i"
      using concat_cut [OF cs(1), of i] by (auto simp: is_char_boundary_def)
    with cs utf8_valid_concat [of as] utf8_valid_concat [of bs] show ?thesis by auto
  qed
  then show "utf8_valid (take i s)" "utf8_valid (drop i s)" by simp_all
qed

lemma boundary_near:
  assumes "utf8_valid s" "i + 3 < length s"
  shows "\<exists>k \<le> 3. \<not> is_cont (s ! (i + k))"
proof -
  obtain cs where "list_all utf8_char cs" "s = concat cs" using utf8_valid_chars [OF assms(1)] by blast
  with assms(2) show ?thesis
  proof (induction cs arbitrary: i s)
    case (Cons c cs)
    show ?case
    proof (cases "length c \<le> i")
      case True
      obtain k where "k \<le> 3" "\<not> is_cont (concat cs ! (i - length c + k))"
        using True Cons.prems Cons.IH [OF _ _ refl, of "i - length c"] by (auto simp: less_diff_conv2)
      with True Cons.prems show ?thesis by (intro exI [of _ k]) (auto simp: nth_append)
    next
      case inside: False
      show ?thesis
      proof (cases "i = 0")
        case True
        with inside Cons.prems utf8_char_shape(3) [of c] show ?thesis
          by (intro exI [of _ 0]) (auto simp: nth_append)
      next
        case False
        from Cons.prems have c: "length c \<le> 4" using utf8_char_shape(1) by auto
        with False inside Cons.prems(1,3) have "0 < length (concat cs)"
          by (simp del: length_0_conv length_greater_0_conv)
        then have "concat cs \<noteq> []" by blast
        then have "\<not> is_cont (concat cs ! 0)"
          using Cons.prems(2) utf8_char_shape(2,3) by (cases cs) (auto simp: nth_append)
        with inside c False Cons.prems(3) show ?thesis
          by (intro exI [of _ "length c - i"]) (auto simp: nth_append)
      qed
    qed
  qed simp
qed

end
