(* ===== verification/Runtime_Capture.thy ===== *)
theory Runtime_Capture
  imports Kipc_Error Runtime_Marker Runtime_Utf8
begin

text \<open>
  Captured child output (\<open>CapturedOutput\<close> and \<open>CaptureState\<close> in \<open>crates/keld-runtime/src/lib.rs\<close>): a
  bounded transcript per stream, with a pinned head, an elided middle and a sliding tail, the
  counters that account for it, and the registered stdout markers. A slice or drain at a bad index
  panics, which is the value \<open>None\<close>.
\<close>

section \<open>Errors of the runtime\<close>

datatype RuntimeError =
    Spawn IoError
  | Lifecycle string IoError
  | CrashLoop "8 word" u16 "int option" bytes
  | ChildCrashed u32 "int option" bytes
  | GuardianExited u32 "int option" "IoError option"

fun runtime_error_code :: "RuntimeError \<Rightarrow> string" where
  "runtime_error_code (Spawn _) = ''KELD-RUNTIME-001''"
| "runtime_error_code (Lifecycle _ _) = ''KELD-RUNTIME-003''"
| "runtime_error_code (CrashLoop _ _ _ _) = ''KELD-RUNTIME-002''"
| "runtime_error_code (ChildCrashed _ _ _) = ''KELD-RUNTIME-012''"
| "runtime_error_code (GuardianExited _ _ _) = ''KELD-RUNTIME-013''"

section \<open>The transcript\<close>

definition CAPTURE_HEAD_BYTES :: nat where "CAPTURE_HEAD_BYTES = 64 * 1024"
definition CAPTURE_TAIL_BYTES :: nat where "CAPTURE_TAIL_BYTES = 192 * 1024"
definition CAPTURE_RETENTION_BYTES :: nat where
  "CAPTURE_RETENTION_BYTES = CAPTURE_HEAD_BYTES + CAPTURE_TAIL_BYTES"
definition CAPTURE_COMPACTION_SLACK_BYTES :: nat where "CAPTURE_COMPACTION_SLACK_BYTES = 64 * 1024"
definition CAPTURE_MAX_RETAINED_BYTES :: nat where
  "CAPTURE_MAX_RETAINED_BYTES = CAPTURE_RETENTION_BYTES + CAPTURE_COMPACTION_SLACK_BYTES"

record CapturedOutput =
  co_stdout :: bytes
  co_stderr :: bytes
  stdout_total_bytes :: nat
  stderr_total_bytes :: nat
  stdout_dropped_bytes :: nat
  stderr_dropped_bytes :: nat
  stdout_separator_bytes :: nat
  stderr_separator_bytes :: nat

definition captured_default :: CapturedOutput where
  "captured_default = \<lparr> co_stdout = [], co_stderr = [], stdout_total_bytes = 0, stderr_total_bytes = 0,
     stdout_dropped_bytes = 0, stderr_dropped_bytes = 0, stdout_separator_bytes = 0, stderr_separator_bytes = 0 \<rparr>"

abbreviation NEWLINE :: byte where "NEWLINE \<equiv> 10"

text \<open>\<open>s.chars()\<close>, each character as its bytes, and the diagnostic tail.\<close>

function chars :: "bytes \<Rightarrow> bytes list" where
  "chars s =
     (if s = [] then []
      else case utf8_chunk s of (ok, n) \<Rightarrow> take n s # chars (drop n s))"
  by pat_completeness auto
termination
  by (relation "measure length") (auto dest: utf8_chunk_shrinks)

declare chars.simps [simp del]

definition captured_tail :: "bytes \<Rightarrow> nat \<Rightarrow> bytes" where
  "captured_tail s max_chars = concat (drop (length (chars s) - max_chars) (chars s))"

definition stderr_tail :: "nat \<Rightarrow> CapturedOutput \<Rightarrow> bytes" where
  "stderr_tail max_chars co = captured_tail (co_stderr co) max_chars"

function boundary_from :: "bytes \<Rightarrow> nat \<Rightarrow> nat" where
  "boundary_from stream b =
     (if b < length stream \<and> \<not> is_char_boundary stream b then boundary_from stream (b + 1) else b)"
  by pat_completeness auto
termination
  by (relation "measure (\<lambda>(stream, b). length stream - b)") auto

declare boundary_from.simps [simp del]

definition boundary_at_or_after :: "bytes \<Rightarrow> nat \<Rightarrow> nat" where
  "boundary_at_or_after stream i = (if length stream \<le> i then length stream else boundary_from stream i)"

definition head_cut :: "bytes \<Rightarrow> (nat \<times> bool) option" where
  "head_cut stream =
     (let b = boundary_at_or_after stream CAPTURE_HEAD_BYTES;
          limit = CAPTURE_MAX_RETAINED_BYTES - CAPTURE_TAIL_BYTES in
      if b \<le> limit \<and> limit \<le> length stream
      then Some (case find_index (\<lambda>c. c = NEWLINE) (take (limit - b) (drop b stream)) of
             None \<Rightarrow> (b, False)
           | Some offset \<Rightarrow> (b + offset + 1, True))
      else None)"

definition tail_cut :: "bytes \<Rightarrow> nat option" where
  "tail_cut stream =
     (let b = boundary_at_or_after stream (length stream - CAPTURE_TAIL_BYTES) in
      if is_char_boundary stream b
      then Some (case find_index (\<lambda>c. c = NEWLINE) (drop b stream) of
             None \<Rightarrow> b
           | Some offset \<Rightarrow> if b + offset + 1 < length stream then b + offset + 1 else b)
      else None)"

type_synonym StreamAccount = "bytes \<times> nat \<times> nat \<times> nat"

definition capture_append :: "bytes \<Rightarrow> nat \<Rightarrow> StreamAccount \<Rightarrow> StreamAccount option" where
  "capture_append chunk raw_len = (\<lambda>(stream0, total0, dropped, separators).
     let written = usize_saturating_add total0 raw_len; stream = stream0 @ chunk in
     if length stream \<le> CAPTURE_MAX_RETAINED_BYTES then Some (stream, written, dropped, separators)
     else case head_cut stream of
       None \<Rightarrow> None
     | Some (head_end, head_is_line_aligned) \<Rightarrow>
         (case tail_cut stream of
            None \<Rightarrow> None
          | Some tail_start \<Rightarrow>
              if \<not> (head_end \<le> tail_start \<and> is_char_boundary stream head_end \<and> is_char_boundary stream tail_start)
              then None
              else let kept = take head_end stream @ drop tail_start stream;
                       elided = usize_saturating_add dropped (tail_start - head_end) in
                if head_is_line_aligned then Some (kept, written, elided, separators)
                else if is_char_boundary kept head_end
                then Some (take head_end kept @ [NEWLINE] @ drop head_end kept, written, elided,
                  usize_saturating_add separators 1)
                else None))"

definition push_chunk :: "bytes \<Rightarrow> nat \<Rightarrow> bool \<Rightarrow> CapturedOutput \<Rightarrow> CapturedOutput option" where
  "push_chunk chunk raw_len is_stdout co =
     (if is_stdout then
        map_option (\<lambda>(s, n, d, p). co\<lparr> co_stdout := s, stdout_total_bytes := n, stdout_dropped_bytes := d,
            stdout_separator_bytes := p \<rparr>)
          (capture_append chunk raw_len
            (co_stdout co, stdout_total_bytes co, stdout_dropped_bytes co, stdout_separator_bytes co))
      else
        map_option (\<lambda>(s, n, d, p). co\<lparr> co_stderr := s, stderr_total_bytes := n, stderr_dropped_bytes := d,
            stderr_separator_bytes := p \<rparr>)
          (capture_append chunk raw_len
            (co_stderr co, stderr_total_bytes co, stderr_dropped_bytes co, stderr_separator_bytes co)))"

section \<open>Capture state\<close>

record CaptureState =
  cs_transcript :: CapturedOutput
  cs_markers :: "StdoutMarker list"

fun marker_len_sum :: "nat \<Rightarrow> bytes list \<Rightarrow> nat option" where
  "marker_len_sum n [] = Some n"
| "marker_len_sum n (w # ws) =
     (if n + length w > USIZE_MAX then None else marker_len_sum (n + length w) ws)"

definition markers_refused :: "bytes list \<Rightarrow> bool" where
  "markers_refused ws \<longleftrightarrow>
     length ws > 32
     \<or> (case marker_len_sum 0 ws of None \<Rightarrow> True | Some n \<Rightarrow> n > 4096)
     \<or> list_ex (\<lambda>i. ws ! i = [] \<or> ws ! i \<in> set (take i ws)) [0..<length ws]"

definition capture_new :: "bytes list \<Rightarrow> (RuntimeError + CaptureState) option" where
  "capture_new ws =
     (if markers_refused ws
      then Some (Inl (Lifecycle ''stdout marker registration'' (IoError InvalidInput None)))
      else map_option (\<lambda>mks. Inr \<lparr> cs_transcript = captured_default, cs_markers = mks \<rparr>)
        (those (map marker_new ws)))"

definition begin_generation :: "CaptureState \<Rightarrow> CaptureState" where
  "begin_generation s = s\<lparr> cs_markers := map marker_begin_generation (cs_markers s) \<rparr>"

definition push_raw :: "bytes \<Rightarrow> bool \<Rightarrow> CaptureState \<Rightarrow> CaptureState option" where
  "push_raw bs is_stdout s =
     (case (if is_stdout then those (map (marker_push (stdout_total_bytes (cs_transcript s)) bs) (cs_markers s))
            else Some (cs_markers s)) of
        None \<Rightarrow> None
      | Some mks \<Rightarrow>
          map_option (\<lambda>co. s\<lparr> cs_transcript := co, cs_markers := mks \<rparr>)
            (push_chunk (from_utf8_lossy bs) (length bs) is_stdout (cs_transcript s)))"

definition stdout_marker_offset :: "bytes \<Rightarrow> CaptureState \<Rightarrow> nat option option" where
  "stdout_marker_offset w s = map_option mk_first_end (find (\<lambda>mk. mk_bytes mk = w) (cs_markers s))"

fun show_decimal :: "nat \<Rightarrow> string" where
  "show_decimal n =
     (if n < 10 then [char_of (48 + n)] else show_decimal (n div 10) @ [char_of (48 + n mod 10)])"

declare show_decimal.simps [simp del]

definition elision_notice :: "nat \<Rightarrow> string option" where
  "elision_notice dropped =
     (if dropped > 0
      then Some (''[keld: '' @ show_decimal dropped @ '' bytes of child output elided between the retained head and tail (KELD-RUNTIME capture bound)]'' @ [CHR 0x0A])
      else None)"

text \<open>What the supervisor and its two reader threads do to the capture state, in lock order.\<close>

datatype CaptureOp = BeginGeneration | PushRaw bytes bool

fun capture_op :: "CaptureOp \<Rightarrow> CaptureState \<Rightarrow> CaptureState option" where
  "capture_op BeginGeneration s = Some (begin_generation s)"
| "capture_op (PushRaw bs is_stdout) s = push_raw bs is_stdout s"

fun capture_run :: "CaptureOp list \<Rightarrow> CaptureState \<Rightarrow> CaptureState option" where
  "capture_run [] s = Some s"
| "capture_run (op # ops) s = Option.bind (capture_op op s) (capture_run ops)"

section \<open>Cuts\<close>

lemmas capture_sizes = CAPTURE_HEAD_BYTES_def CAPTURE_TAIL_BYTES_def CAPTURE_RETENTION_BYTES_def
  CAPTURE_COMPACTION_SLACK_BYTES_def CAPTURE_MAX_RETAINED_BYTES_def

lemma after_ascii:
  assumes "utf8_valid s" "i + 1 < length s" "s ! i < 0x80"
  shows "\<not> is_cont (s ! (i + 1))"
proof -
  obtain cs where cs: "list_all utf8_char cs" "s = concat cs" using utf8_valid_chars [OF assms(1)] by blast
  have "i < length (concat cs)" "\<not> is_cont (concat cs ! i)" using assms cs not_cont_ascii by auto
  from concat_cut [OF cs(1) this] obtain as bs where split: "cs = as @ bs" "length (concat as) = i" by blast
  with assms cs obtain c bs' where bs: "bs = c # bs'" by (cases bs) auto
  with cs split have c: "utf8_char c" and bs': "list_all utf8_char bs'" by auto
  have "c ! 0 = s ! i" using cs split bs utf8_char_shape(2) [OF c] by (simp add: nth_append)
  with assms(3) c have "length c = 1"
    by (auto simp: utf8_char_def utf8_chunk_def Let_def byte_at_def utf8_char_width_def)
  with cs split bs assms(2) have "s ! (i + 1) = concat bs' ! 0" "concat bs' \<noteq> []"
    by (auto simp: nth_append simp del: concat_eq_Nil_conv)
  then show ?thesis using bs' utf8_char_shape(2,3) by (cases bs') (auto simp: nth_append)
qed

lemma boundary_from_stop:
  assumes "b \<le> e" "e < length s" "0 < b" "\<not> is_cont (s ! e)" "\<And>i. b \<le> i \<Longrightarrow> i < e \<Longrightarrow> is_cont (s ! i)"
  shows "boundary_from s b = e"
  using assms
proof (induction "e - b" arbitrary: b)
  case 0
  then show ?case by (subst boundary_from.simps) (simp add: is_char_boundary_def)
next
  case (Suc d)
  then have "boundary_from s (b + 1) = e" by simp
  with Suc show ?case by (subst boundary_from.simps) (simp add: is_char_boundary_def)
qed

lemma boundary_found:
  assumes "utf8_valid s" "0 < i" "i + 3 < length s"
  shows "\<exists>b. boundary_at_or_after s i = b \<and> i \<le> b \<and> b \<le> i + 3 \<and> \<not> is_cont (s ! b)
    \<and> (\<forall>j. i \<le> j \<longrightarrow> j < b \<longrightarrow> is_cont (s ! j))"
proof -
  define least where "least = (LEAST k. \<not> is_cont (s ! (i + k)))"
  obtain k where k: "k \<le> 3" "\<not> is_cont (s ! (i + k))" using boundary_near [OF assms(1,3)] by blast
  then have stop: "\<not> is_cont (s ! (i + least))" "least \<le> 3"
    unfolding least_def by (metis (mono_tags, lifting) LeastI, metis (mono_tags, lifting) Least_le le_trans)
  have before: "is_cont (s ! j)" if j: "i \<le> j" "j < i + least" for j
  proof -
    from j have "j - i < least" by arith
    from not_less_Least [OF this [unfolded least_def]] j(1) show ?thesis by simp
  qed
  have "boundary_from s i = i + least"
    by (rule boundary_from_stop) (use assms stop before in simp_all)
  with assms stop before show ?thesis
    by (intro exI [of _ "i + least"]) (simp add: boundary_at_or_after_def)
qed

lemma find_index_drop:
  assumes "find_index P (take n (drop b s)) = Some k"
  shows "b + k < length s" "k < n" "P (s ! (b + k))" "\<And>j. b \<le> j \<Longrightarrow> j < b + k \<Longrightarrow> \<not> P (s ! j)"
proof -
  note found = find_index_Some_iff [THEN iffD1, OF assms]
  show k: "b + k < length s" "k < n" using found by auto
  show "P (s ! (b + k))" using found k by auto
  fix j assume "b \<le> j" "j < b + k"
  then show "\<not> P (s ! j)" using found k by (auto dest: spec [of _ "j - b"])
qed

lemma tail_cut_found:
  assumes "utf8_valid s" "CAPTURE_MAX_RETAINED_BYTES < length s"
  shows "\<exists>t. tail_cut s = Some t \<and> length s - CAPTURE_TAIL_BYTES \<le> t \<and> t < length s \<and> is_char_boundary s t"
proof -
  let ?i = "length s - CAPTURE_TAIL_BYTES"
  obtain b where b: "boundary_at_or_after s ?i = b" "?i \<le> b" "b \<le> ?i + 3" "\<not> is_cont (s ! b)"
    using boundary_found [OF assms(1), of ?i] assms(2) by (auto simp: capture_sizes)
  with assms(2) have less: "b < length s" by (auto simp: capture_sizes)
  with b(4) have edge: "is_char_boundary s b" by (simp add: is_char_boundary_def)
  show ?thesis
  proof (cases "find_index (\<lambda>c. c = NEWLINE) (drop b s)")
    case None
    with b edge less show ?thesis by (simp add: tail_cut_def Let_def)
  next
    case (Some off)
    then have "find_index (\<lambda>c. c = NEWLINE) (take (length s) (drop b s)) = Some off" by simp
    note nl = find_index_drop [OF this]
    show ?thesis
    proof (cases "b + off + 1 < length s")
      case True
      have "\<not> is_cont (s ! (b + off + 1))"
        by (rule after_ascii [OF assms(1)]) (use True nl(3) in simp_all)
      with True have "is_char_boundary s (b + off + 1)" by (simp add: is_char_boundary_def)
      with True Some b edge show ?thesis by (simp add: tail_cut_def Let_def)
    next
      case False
      with Some b edge less show ?thesis by (simp add: tail_cut_def Let_def)
    qed
  qed
qed

text \<open>
  A pinned head: it ends with the first newline at or after the first character boundary past the
  head size, inside the search limit. Any longer stream that starts with it is cut right after it.
\<close>

definition pinned :: "bytes \<Rightarrow> bool" where
  "pinned h0 \<longleftrightarrow> (\<exists>b. CAPTURE_HEAD_BYTES \<le> b \<and> b < length h0
     \<and> length h0 \<le> CAPTURE_MAX_RETAINED_BYTES - CAPTURE_TAIL_BYTES
     \<and> \<not> is_cont (h0 ! b) \<and> (\<forall>i. CAPTURE_HEAD_BYTES \<le> i \<longrightarrow> i < b \<longrightarrow> is_cont (h0 ! i))
     \<and> h0 ! (length h0 - 1) = NEWLINE \<and> (\<forall>i. b \<le> i \<longrightarrow> i < length h0 - 1 \<longrightarrow> h0 ! i \<noteq> NEWLINE))"

lemma head_cut_pinned:
  assumes "pinned h0" "CAPTURE_MAX_RETAINED_BYTES < length (h0 @ x)"
  shows "head_cut (h0 @ x) = Some (length h0, True)"
proof -
  obtain b where b: "CAPTURE_HEAD_BYTES \<le> b" "b < length h0" "length h0 \<le> CAPTURE_MAX_RETAINED_BYTES - CAPTURE_TAIL_BYTES"
      "\<not> is_cont (h0 ! b)" "\<And>i. CAPTURE_HEAD_BYTES \<le> i \<Longrightarrow> i < b \<Longrightarrow> is_cont (h0 ! i)"
      "h0 ! (length h0 - 1) = NEWLINE" "\<And>i. b \<le> i \<Longrightarrow> i < length h0 - 1 \<Longrightarrow> h0 ! i \<noteq> NEWLINE"
    using assms(1) unfolding pinned_def by blast
  let ?s = "h0 @ x" and ?limit = "CAPTURE_MAX_RETAINED_BYTES - CAPTURE_TAIL_BYTES"
  have "boundary_from ?s CAPTURE_HEAD_BYTES = b"
    by (rule boundary_from_stop) (use b in \<open>auto simp: nth_append capture_sizes\<close>)
  moreover have "CAPTURE_HEAD_BYTES < length ?s" using b by simp
  ultimately have at: "boundary_at_or_after ?s CAPTURE_HEAD_BYTES = b" by (simp add: boundary_at_or_after_def)
  have "find_index (\<lambda>c. c = NEWLINE) (take (?limit - b) (drop b ?s)) = Some (length h0 - 1 - b)"
    using b assms(2) by (auto simp: find_index_Some_iff nth_append capture_sizes)
  moreover have "?limit \<le> length ?s" using assms(2) by simp
  ultimately show ?thesis using at b(2,3) by (auto simp: head_cut_def Let_def)
qed

lemma head_cut_fresh:
  assumes "utf8_valid s" "CAPTURE_MAX_RETAINED_BYTES < length s"
  obtains h where "head_cut s = Some (h, True)" "pinned (take h s)" "h \<le> length s" "CAPTURE_HEAD_BYTES \<le> h"
      "is_char_boundary s h"
  | h where "head_cut s = Some (h, False)" "pinned (take h s @ [NEWLINE])" "h \<le> length s" "CAPTURE_HEAD_BYTES \<le> h"
      "is_char_boundary s h"
proof -
  let ?limit = "CAPTURE_MAX_RETAINED_BYTES - CAPTURE_TAIL_BYTES"
  obtain b where b: "boundary_at_or_after s CAPTURE_HEAD_BYTES = b" "CAPTURE_HEAD_BYTES \<le> b"
      "b \<le> CAPTURE_HEAD_BYTES + 3" "\<not> is_cont (s ! b)" "\<And>j. CAPTURE_HEAD_BYTES \<le> j \<Longrightarrow> j < b \<Longrightarrow> is_cont (s ! j)"
    using boundary_found [OF assms(1), of CAPTURE_HEAD_BYTES] assms(2) by (auto simp: capture_sizes)
  have limit: "b < ?limit" "?limit \<le> length s" "b < length s" using b(3) assms(2) by (auto simp: capture_sizes)
  show ?thesis
  proof (cases "find_index (\<lambda>c. c = NEWLINE) (take (?limit - b) (drop b s))")
    case None
    have "pinned (take b s @ [NEWLINE])"
      unfolding pinned_def
      by (rule exI [of _ b]) (use b limit in \<open>auto simp: nth_append is_cont_def\<close>)
    with None b limit that(2) [of b] show ?thesis by (simp add: head_cut_def Let_def is_char_boundary_def)
  next
    case (Some off)
    note nl = find_index_drop [OF Some]
    have "pinned (take (b + off + 1) s)"
      unfolding pinned_def
    proof (intro exI conjI)
      show "CAPTURE_HEAD_BYTES \<le> b" by (rule b)
      show "b < length (take (b + off + 1) s)" "length (take (b + off + 1) s) \<le> ?limit"
        using nl(1,2) limit by auto
      show "\<not> is_cont (take (b + off + 1) s ! b)" using b(4) by simp
      show "\<forall>i. CAPTURE_HEAD_BYTES \<le> i \<longrightarrow> i < b \<longrightarrow> is_cont (take (b + off + 1) s ! i)" using b(5) by simp
      show "take (b + off + 1) s ! (length (take (b + off + 1) s) - 1) = NEWLINE" using nl(1,3) by simp
      show "\<forall>i. b \<le> i \<longrightarrow> i < length (take (b + off + 1) s) - 1 \<longrightarrow> take (b + off + 1) s ! i \<noteq> NEWLINE"
        using nl(1,4) by auto
    qed
    moreover have "is_char_boundary s (b + off + 1)"
    proof (cases "b + off + 1 < length s")
      case True
      have "\<not> is_cont (s ! (b + off + 1))"
        by (rule after_ascii [OF assms(1)]) (use True nl(3) in simp_all)
      with True show ?thesis by (simp add: is_char_boundary_def)
    qed (use nl(1) in \<open>simp add: is_char_boundary_def\<close>)
    ultimately show ?thesis
      using that(1) [of "b + off + 1"] Some b limit nl(1) by (simp add: head_cut_def Let_def)
  qed
qed

section \<open>The transcript against the text written\<close>

text \<open>
  \<open>w\<close> is all the text decoded so far and \<open>raw\<close> the bytes it came from. Before the first compaction
  the stream is the text; afterwards it is a prefix, possibly one separator, and a suffix of it.
\<close>

definition transcript_of :: "bytes \<Rightarrow> nat \<Rightarrow> StreamAccount \<Rightarrow> bool" where
  "transcript_of w raw = (\<lambda>(stream, written, dropped, separators).
     utf8_valid stream \<and> length stream \<le> CAPTURE_MAX_RETAINED_BYTES \<and> written = min raw USIZE_MAX
     \<and> (stream = w \<and> dropped = 0 \<and> separators = 0
        \<or> (\<exists>h t. CAPTURE_HEAD_BYTES \<le> h \<and> h \<le> t \<and> t < length w \<and> separators \<le> 1
             \<and> pinned (take h w @ replicate separators NEWLINE)
             \<and> stream = take h w @ replicate separators NEWLINE @ drop t w
             \<and> dropped = min (t - h) USIZE_MAX)))"

lemma transcript_start: "transcript_of [] 0 ([], 0, 0, 0)"
  by (simp add: transcript_of_def)

lemma pinned_length: "pinned h0 \<Longrightarrow> length h0 \<le> CAPTURE_MAX_RETAINED_BYTES - CAPTURE_TAIL_BYTES"
  by (auto simp: pinned_def)

lemma cut_valid:
  assumes "utf8_valid s" "is_char_boundary s h" "is_char_boundary s t"
  shows "utf8_valid (take h s @ drop t s)" "utf8_valid (take h s @ NEWLINE # drop t s)"
proof -
  note parts = boundary_cut(1) [OF assms(1,2)] boundary_cut(2) [OF assms(1,3)]
  from utf8_valid_append [OF parts] show "utf8_valid (take h s @ drop t s)" .
  have "utf8_valid ([NEWLINE] @ drop t s)" by (rule utf8_valid_append [OF utf8_valid_ascii parts(2)]) simp
  from utf8_valid_append [OF parts(1) this] show "utf8_valid (take h s @ NEWLINE # drop t s)" by simp
qed

lemma valid_front: "utf8_valid (b # bs) \<Longrightarrow> \<not> is_cont b"
  using width_not_cont [of b]
  by (subst (asm) utf8_valid.simps) (auto simp: utf8_chunk_def Let_def byte_at_def split: if_splits)

lemma cut_inner_boundary:
  "h \<le> length s \<Longrightarrow> utf8_valid x \<Longrightarrow> is_char_boundary (take h s @ x) h"
  by (cases x) (auto simp: is_char_boundary_def nth_append dest: valid_front)

lemma transcript_cut:
  "utf8_valid (take h w @ replicate seps NEWLINE @ drop t w) \<Longrightarrow> CAPTURE_HEAD_BYTES \<le> h \<Longrightarrow> h \<le> t \<Longrightarrow> t < length w \<Longrightarrow>
   seps \<le> 1 \<Longrightarrow> pinned (take h w @ replicate seps NEWLINE) \<Longrightarrow>
   length (take h w @ replicate seps NEWLINE @ drop t w) \<le> CAPTURE_MAX_RETAINED_BYTES \<Longrightarrow>
   transcript_of w raw (take h w @ replicate seps NEWLINE @ drop t w, min raw USIZE_MAX, min (t - h) USIZE_MAX, seps)"
  unfolding transcript_of_def by blast

lemma pinned_boundary:
  assumes "utf8_valid (h0 @ x)" "pinned h0"
  shows "is_char_boundary (h0 @ x) (length h0)"
proof (cases "x = []")
  case False
  from assms(2) have last: "h0 \<noteq> []" "h0 ! (length h0 - 1) = NEWLINE" by (auto simp: pinned_def)
  then have "Suc (length h0 - 1) = length h0" by simp
  with after_ascii [OF assms(1), of "length h0 - 1"] last False
  have "\<not> is_cont ((h0 @ x) ! length h0)" by (simp add: nth_append)
  with False show ?thesis by (simp add: is_char_boundary_def)
qed (simp add: is_char_boundary_def)

lemma append_first_compaction:
  assumes "utf8_valid s" "CAPTURE_MAX_RETAINED_BYTES < length s" "s0 @ chunk = s"
  shows "\<exists>a. capture_append chunk n (s0, min raw USIZE_MAX, 0, 0) = Some a \<and> transcript_of s (raw + n) a"
proof -
  obtain t where t: "tail_cut s = Some t" "length s - CAPTURE_TAIL_BYTES \<le> t" "t < length s" "is_char_boundary s t"
    using tail_cut_found [OF assms(1,2)] by blast
  have len: "length s0 + length chunk = length s" using assms(3) by auto
  have sat: "usize_saturating_add (min raw USIZE_MAX) n = min (raw + n) USIZE_MAX" by (auto simp: usize_saturating_add_def)
  show ?thesis
  proof (rule head_cut_fresh [OF assms(1,2)])
    fix h assume h: "head_cut s = Some (h, True)" "pinned (take h s)" "h \<le> length s" "CAPTURE_HEAD_BYTES \<le> h"
      "is_char_boundary s h"
    from pinned_length [OF h(2)] h(3) t(2) assms(2) have le: "h \<le> t" by (auto simp: capture_sizes)
    have "capture_append chunk n (s0, min raw USIZE_MAX, 0, 0) =
        Some (take h s @ drop t s, min (raw + n) USIZE_MAX, min (t - h) USIZE_MAX, 0)"
      using h t le assms by (simp add: capture_append_def Let_def sat len) (simp add: usize_saturating_add_def)
    moreover have "transcript_of s (raw + n)
        (take h s @ replicate 0 NEWLINE @ drop t s, min (raw + n) USIZE_MAX, min (t - h) USIZE_MAX, 0)"
      by (rule transcript_cut)
        (use h t le pinned_length [OF h(2)] assms(2) cut_valid(1) [OF assms(1) h(5) t(4)] in \<open>auto simp: capture_sizes\<close>)
    ultimately show ?thesis by simp
  next
    fix h assume h: "head_cut s = Some (h, False)" "pinned (take h s @ [NEWLINE])" "h \<le> length s" "CAPTURE_HEAD_BYTES \<le> h"
      "is_char_boundary s h"
    from pinned_length [OF h(2)] h(3) t(2) assms(2) have le: "h \<le> t" by (auto simp: capture_sizes)
    have "is_char_boundary (take h s @ drop t s) h"
      by (rule cut_inner_boundary [OF h(3) boundary_cut(2) [OF assms(1) t(4)]])
    then have "capture_append chunk n (s0, min raw USIZE_MAX, 0, 0) =
        Some (take h s @ NEWLINE # drop t s, min (raw + n) USIZE_MAX, min (t - h) USIZE_MAX, 1)"
      using h t le assms by (simp add: capture_append_def Let_def sat len) (simp add: usize_saturating_add_def USIZE_MAX_def)
    moreover have "transcript_of s (raw + n)
        (take h s @ replicate 1 NEWLINE @ drop t s, min (raw + n) USIZE_MAX, min (t - h) USIZE_MAX, 1)"
      by (rule transcript_cut)
        (use h t le pinned_length [OF h(2)] assms(2) cut_valid(2) [OF assms(1) h(5) t(4)] in \<open>auto simp: capture_sizes\<close>)
    ultimately show ?thesis by simp
  qed
qed

lemma append_later_compaction:
  assumes "utf8_valid s" "CAPTURE_MAX_RETAINED_BYTES < length s"
    and "s = s0 @ chunk" "s = h0 @ drop t w" "pinned h0" "t \<le> length w"
  shows "\<exists>t'. capture_append chunk n (s0, total0, dropped, seps) =
      Some (h0 @ drop t' w, usize_saturating_add total0 n, usize_saturating_add dropped (t' - t), seps)
    \<and> t \<le> t' \<and> t' < length w \<and> utf8_valid (h0 @ drop t' w)
    \<and> length (h0 @ drop t' w) \<le> CAPTURE_MAX_RETAINED_BYTES"
proof -
  obtain c where c: "tail_cut s = Some c" "length s - CAPTURE_TAIL_BYTES \<le> c" "c < length s" "is_char_boundary s c"
    using tail_cut_found [OF assms(1,2)] by blast
  have head: "head_cut s = Some (length h0, True)" using head_cut_pinned [OF assms(5)] assms(2,4) by simp
  have edge: "is_char_boundary s (length h0)" using pinned_boundary [OF _ assms(5)] assms(1,4) by simp
  from pinned_length [OF assms(5)] c(2) assms(2) have le: "length h0 \<le> c" by (auto simp: capture_sizes)
  let ?t = "t + (c - length h0)"
  have kept: "take (length h0) s @ drop c s = h0 @ drop ?t w" using assms(4) le by (simp add: add.commute)
  have "?t < length w" using c(3) le assms(4,6) by auto
  moreover have "length (h0 @ drop ?t w) \<le> CAPTURE_MAX_RETAINED_BYTES"
    using kept [symmetric] pinned_length [OF assms(5)] c(2) assms(2) le by (auto simp: capture_sizes)
  moreover have "utf8_valid (h0 @ drop ?t w)" using cut_valid(1) [OF assms(1) edge c(4)] kept by simp
  moreover have "capture_append chunk n (s0, total0, dropped, seps) =
      Some (h0 @ drop ?t w, usize_saturating_add total0 n, usize_saturating_add dropped (?t - t), seps)"
    using head c edge le kept assms(2,3) by (simp add: capture_append_def Let_def)
  ultimately show ?thesis by (intro exI [of _ ?t]) simp
qed

lemma append_short:
  "length (stream @ chunk) \<le> CAPTURE_MAX_RETAINED_BYTES \<Longrightarrow>
   capture_append chunk n (stream, written, dropped, seps) =
     Some (stream @ chunk, usize_saturating_add written n, dropped, seps)"
  by (simp add: capture_append_def)

lemma append_transcript:
  assumes "transcript_of w raw a" "utf8_valid chunk"
  shows "\<exists>a'. capture_append chunk n a = Some a' \<and> transcript_of (w @ chunk) (raw + n) a'"
proof -
  obtain stream written dropped seps where a: "a = (stream, written, dropped, seps)" by (cases a)
  from assms(1) a have valid: "utf8_valid stream" and bound: "length stream \<le> CAPTURE_MAX_RETAINED_BYTES"
    and written: "written = min raw USIZE_MAX" by (simp_all add: transcript_of_def)
  let ?s = "stream @ chunk"
  have s: "utf8_valid ?s" by (rule utf8_valid_append [OF valid assms(2)])
  have sat: "usize_saturating_add (min raw USIZE_MAX) n = min (raw + n) USIZE_MAX" by (auto simp: usize_saturating_add_def)
  consider (whole) "stream = w" "dropped = 0" "seps = 0"
    | (cut) h t where "CAPTURE_HEAD_BYTES \<le> h" "h \<le> t" "t < length w" "seps \<le> 1"
        "pinned (take h w @ replicate seps NEWLINE)" "stream = take h w @ replicate seps NEWLINE @ drop t w"
        "dropped = min (t - h) USIZE_MAX"
    using assms(1) a unfolding transcript_of_def by auto
  then show ?thesis
  proof cases
    case whole
    show ?thesis
    proof (cases "length ?s \<le> CAPTURE_MAX_RETAINED_BYTES")
      case True
      with whole a s sat written show ?thesis by (simp add: append_short transcript_of_def)
    next
      case False
      with append_first_compaction [OF s _ refl, of n raw] whole a written show ?thesis by simp
    qed
  next
    case cut
    have w: "take h (w @ chunk) = take h w" "drop t (w @ chunk) = drop t w @ chunk" using cut by simp_all
    let ?h0 = "take h w @ replicate seps NEWLINE"
    show ?thesis
    proof (cases "length ?s \<le> CAPTURE_MAX_RETAINED_BYTES")
      case True
      have "transcript_of (w @ chunk) (raw + n) (take h (w @ chunk) @ replicate seps NEWLINE @ drop t (w @ chunk),
          min (raw + n) USIZE_MAX, min (t - h) USIZE_MAX, seps)"
        by (rule transcript_cut) (use cut s True in \<open>simp_all add: w\<close>)
      with append_short [OF True, of n written dropped seps] cut a written sat show ?thesis by (simp add: w)
    next
      case False
      have "?s = ?h0 @ drop t (w @ chunk)" using cut by simp
      moreover have "CAPTURE_MAX_RETAINED_BYTES < length ?s" "t \<le> length (w @ chunk)" using False cut by simp_all
      ultimately obtain t' where t': "capture_append chunk n (stream, written, dropped, seps) =
          Some (?h0 @ drop t' (w @ chunk), usize_saturating_add written n, usize_saturating_add dropped (t' - t), seps)"
          "t \<le> t'" "t' < length (w @ chunk)" "utf8_valid (?h0 @ drop t' (w @ chunk))"
          "length (?h0 @ drop t' (w @ chunk)) \<le> CAPTURE_MAX_RETAINED_BYTES"
        using append_later_compaction [OF s _ refl _ cut(5)] by blast
      have "transcript_of (w @ chunk) (raw + n) (take h (w @ chunk) @ replicate seps NEWLINE @ drop t' (w @ chunk),
          min (raw + n) USIZE_MAX, min (t' - h) USIZE_MAX, seps)"
        by (rule transcript_cut) (use cut t' in \<open>simp_all add: w\<close>)
      moreover have "usize_saturating_add dropped (t' - t) = min (t' - h) USIZE_MAX"
        using cut t'(2) by (auto simp: usize_saturating_add_def)
      ultimately show ?thesis using t'(1) a written sat cut by (simp add: w)
    qed
  qed
qed

text \<open>The account of one stream inside the transcript, and what an operation writes to it.\<close>

definition stream_account :: "bool \<Rightarrow> CapturedOutput \<Rightarrow> StreamAccount" where
  "stream_account is_stdout co =
     (if is_stdout then (co_stdout co, stdout_total_bytes co, stdout_dropped_bytes co, stdout_separator_bytes co)
      else (co_stderr co, stderr_total_bytes co, stderr_dropped_bytes co, stderr_separator_bytes co))"

fun op_reads :: "bool \<Rightarrow> CaptureOp \<Rightarrow> bytes list" where
  "op_reads is_stdout BeginGeneration = []"
| "op_reads is_stdout (PushRaw bs out) = (if out = is_stdout then [bs] else [])"

definition reads_of :: "bool \<Rightarrow> CaptureOp list \<Rightarrow> bytes list" where
  "reads_of is_stdout ops = concat (map (op_reads is_stdout) ops)"

definition decoded :: "bool \<Rightarrow> CaptureOp list \<Rightarrow> bytes" where
  "decoded is_stdout ops = concat (map from_utf8_lossy (reads_of is_stdout ops))"

definition raw_count :: "bool \<Rightarrow> CaptureOp list \<Rightarrow> nat" where
  "raw_count is_stdout ops = length (concat (reads_of is_stdout ops))"

text \<open>The stdout text of each child generation.\<close>

fun stdout_generations :: "CaptureOp list \<Rightarrow> bytes list \<times> bytes \<Rightarrow> bytes list \<times> bytes" where
  "stdout_generations [] g = g"
| "stdout_generations (BeginGeneration # ops) (gs, gen) = stdout_generations ops (gs @ [gen], [])"
| "stdout_generations (PushRaw bs out # ops) (gs, gen) =
     stdout_generations ops (if out then (gs, gen @ bs) else (gs, gen))"

definition generations :: "CaptureOp list \<Rightarrow> bytes list" where
  "generations ops = (case stdout_generations ops ([], []) of (gs, gen) \<Rightarrow> gs @ [gen])"

lemma stdout_generations_append:
  "stdout_generations (ops @ ops') g = stdout_generations ops' (stdout_generations ops g)"
  by (induction ops g rule: stdout_generations.induct) auto

definition capture_tracks :: "bytes list \<Rightarrow> CaptureOp list \<Rightarrow> CaptureState \<Rightarrow> bool" where
  "capture_tracks ws ops s \<longleftrightarrow>
     (\<forall>out. transcript_of (decoded out ops) (raw_count out ops) (stream_account out (cs_transcript s)))
     \<and> (case stdout_generations ops ([], []) of (gs, gen) \<Rightarrow>
          length (concat gs) + length gen = raw_count True ops
          \<and> list_all2 (\<lambda>w mk. marker_tracks w gs gen mk) ws (cs_markers s))"

lemma reads_snoc:
  "decoded out (ops @ [op]) = decoded out ops @ concat (map from_utf8_lossy (op_reads out op))"
  "raw_count out (ops @ [op]) = raw_count out ops + length (concat (op_reads out op))"
  by (simp_all add: decoded_def raw_count_def reads_of_def)

lemma push_chunk_account:
  assumes "transcript_of w raw (stream_account out co)" "utf8_valid chunk"
  shows "\<exists>co'. push_chunk chunk n out co = Some co' \<and> transcript_of (w @ chunk) (raw + n) (stream_account out co')
    \<and> stream_account (\<not> out) co' = stream_account (\<not> out) co"
proof -
  obtain s t d p where "capture_append chunk n (stream_account out co) = Some (s, t, d, p)"
      "transcript_of (w @ chunk) (raw + n) (s, t, d, p)"
    using append_transcript [OF assms, of n] by (metis prod_cases4)
  then show ?thesis by (cases out) (auto simp: push_chunk_def stream_account_def)
qed

lemma those_map_all2:
  assumes "list_all2 P ws xs" "\<And>w x. P w x \<Longrightarrow> \<exists>y. f x = Some y \<and> Q w y"
  shows "\<exists>ys. those (map f xs) = Some ys \<and> list_all2 Q ws ys"
  using assms(1) by (induction rule: list_all2_induct) (auto dest: assms(2))

lemma capture_op_tracks:
  assumes "capture_tracks ws ops s"
  shows "\<exists>s'. capture_op op s = Some s' \<and> capture_tracks ws (ops @ [op]) s'"
proof -
  obtain gs gen where g: "stdout_generations ops ([], []) = (gs, gen)" by fastforce
  with assms have account: "\<And>out. transcript_of (decoded out ops) (raw_count out ops) (stream_account out (cs_transcript s))"
    and count: "length (concat gs) + length gen = raw_count True ops"
    and markers: "list_all2 (\<lambda>w mk. marker_tracks w gs gen mk) ws (cs_markers s)"
    by (auto simp: capture_tracks_def)
  show ?thesis
  proof (cases op)
    case BeginGeneration
    have "list_all2 (\<lambda>w mk. marker_tracks w (gs @ [gen]) [] mk) ws (map marker_begin_generation (cs_markers s))"
      using markers by (auto simp: list_all2_map2 elim!: list_all2_mono intro: marker_begin_tracks)
    with BeginGeneration account count g show ?thesis
      by (simp add: capture_tracks_def begin_generation_def reads_snoc stdout_generations_append)
  next
    case (PushRaw bs out)
    obtain co where co: "push_chunk (from_utf8_lossy bs) (length bs) out (cs_transcript s) = Some co"
        "transcript_of (decoded out ops @ from_utf8_lossy bs) (raw_count out ops + length bs) (stream_account out co)"
        "stream_account (\<not> out) co = stream_account (\<not> out) (cs_transcript s)"
      using push_chunk_account [OF account lossy_valid] by blast
    have all: "transcript_of (decoded o' (ops @ [op])) (raw_count o' (ops @ [op])) (stream_account o' co)" for o'
      using co(2,3) account [of o'] PushRaw by (cases "o' = out") (auto simp: reads_snoc)
    show ?thesis
    proof (cases out)
      case True
      have "stdout_total_bytes (cs_transcript s) = min (length (concat gs) + length gen) USIZE_MAX"
        using account [of True] count by (simp add: transcript_of_def stream_account_def)
      then have "\<exists>mks. those (map (marker_push (stdout_total_bytes (cs_transcript s)) bs) (cs_markers s)) = Some mks
          \<and> list_all2 (\<lambda>w mk. marker_tracks w gs (gen @ bs) mk) ws mks"
        by (intro those_map_all2 [OF markers]) (simp only: marker_push_tracks)
      then obtain mks where "those (map (marker_push (stdout_total_bytes (cs_transcript s)) bs) (cs_markers s)) = Some mks"
          "list_all2 (\<lambda>w mk. marker_tracks w gs (gen @ bs) mk) ws mks" by blast
      with True PushRaw all co(1) count g show ?thesis
        by (simp add: capture_tracks_def push_raw_def reads_snoc stdout_generations_append)
    next
      case False
      with PushRaw all co(1) count g markers show ?thesis
        by (simp add: capture_tracks_def push_raw_def reads_snoc stdout_generations_append)
    qed
  qed
qed

lemma capture_run_snoc: "capture_run (ops @ [op]) s = Option.bind (capture_run ops s) (capture_op op)"
proof (induction ops arbitrary: s)
  case (Cons o' ops)
  then show ?case by (cases "capture_op o' s") simp_all
next
  case Nil
  then show ?case by (cases "capture_op op s") simp_all
qed

lemma capture_run_tracks:
  assumes "capture_tracks ws [] s"
  shows "\<exists>s'. capture_run ops s = Some s' \<and> capture_tracks ws ops s'"
proof (induction ops rule: rev_induct)
  case (snoc op ops)
  then obtain s' where "capture_run ops s = Some s'" "capture_tracks ws ops s'" by blast
  with capture_op_tracks [of ws ops s' op] show ?case by (simp add: capture_run_snoc)
qed (use assms in simp)

lemma capture_new_tracks:
  assumes "\<not> markers_refused ws"
  shows "\<exists>s. capture_new ws = Some (Inr s) \<and> capture_tracks ws [] s"
proof -
  have "list_all2 (\<lambda>w w'. w \<noteq> [] \<and> w' = w) ws ws"
    using assms by (auto simp: markers_refused_def list_ex_iff list_all2_conv_all_nth)
  then have "\<exists>mks. those (map marker_new ws) = Some mks \<and> list_all2 (\<lambda>w mk. marker_tracks w [] [] mk) ws mks"
    by (rule those_map_all2) (use marker_new_tracks in blast)
  then obtain mks where "those (map marker_new ws) = Some mks" "list_all2 (\<lambda>w mk. marker_tracks w [] [] mk) ws mks"
    by blast
  with assms show ?thesis
    by (simp add: capture_new_def capture_tracks_def decoded_def raw_count_def reads_of_def stream_account_def
        captured_default_def transcript_start)
qed

lemma captured_run:
  assumes "\<not> markers_refused ws"
  shows "\<exists>s0 s. capture_new ws = Some (Inr s0) \<and> capture_run ops s0 = Some s \<and> capture_tracks ws ops s"
  using capture_new_tracks [OF assms] capture_run_tracks by blast

lemma chars_concat: "concat (chars s) = s"
proof (induction s rule: chars.induct)
  case (1 s)
  then show ?case by (subst chars.simps) (auto split: prod.split)
qed

lemma captured_tail_suffix: "suffix (captured_tail s n) s"
proof -
  have "s = concat (take (length (chars s) - n) (chars s)) @ captured_tail s n"
    unfolding captured_tail_def by (metis append_take_drop_id chars_concat concat_append)
  then show ?thesis unfolding suffix_def by blast
qed

section \<open>Properties\<close>

lemma tracked_marker:
  assumes "list_all2 (\<lambda>w mk. marker_tracks w gs gen mk) ws mks"
  shows "map_option mk_first_end (find (\<lambda>mk. mk_bytes mk = w) mks) =
    (if w \<in> set ws then Some (map_option (\<lambda>k. min k USIZE_MAX) (marker_reference w 0 (gs @ [gen]))) else None)"
  using assms by (induction rule: list_all2_induct) (auto simp: marker_tracks_def)

text \<open>
  C32. Registered markers are found exactly, whatever way the child's output is cut into reads: after
  any interleaving of stdout reads, stderr reads and child restarts the offset of a registered
  marker is the end of its first occurrence inside one generation, counted in raw stdout bytes from
  the first spawn, and absent when there is none. Registration and matching always return; the only
  refusal is the documented one.
\<close>

theorem marker_offsets_exact:
  "case capture_new ws of
     None \<Rightarrow> False
   | Some (Inl e) \<Rightarrow> markers_refused ws \<and> runtime_error_code e = ''KELD-RUNTIME-003''
   | Some (Inr s0) \<Rightarrow>
       (\<exists>s. capture_run ops s0 = Some s
          \<and> stdout_marker_offset w s =
              (if w \<in> set ws
               then Some (map_option (\<lambda>k. min k USIZE_MAX) (marker_reference w 0 (generations ops)))
               else None))"
proof (cases "markers_refused ws")
  case True
  then show ?thesis by (simp add: capture_new_def)
next
  case False
  from captured_run [OF this, of ops] obtain s0 s where s0: "capture_new ws = Some (Inr s0)"
    and s: "capture_run ops s0 = Some s" "capture_tracks ws ops s" by blast
  obtain gs gen where g: "stdout_generations ops ([], []) = (gs, gen)" by fastforce
  with s(2) have "list_all2 (\<lambda>w mk. marker_tracks w gs gen mk) ws (cs_markers s)" by (simp add: capture_tracks_def)
  from tracked_marker [OF this, of w] s s0 g show ?thesis by (simp add: stdout_marker_offset_def generations_def)
qed

text \<open>
  C33. The transcript of an untrusted child is bounded and honest: after any sequence of reads and
  restarts each stream holds at most 320 KiB of well-formed UTF-8 and no cut panics. It is all the
  decoded text, or a prefix of at least 64 KiB of it, at most one separator, and a nonempty suffix;
  the dropped counter is the size of the gap and the written counter the raw bytes read.
\<close>

theorem transcript_bounded:
  "case capture_new ws of
     Some (Inr s0) \<Rightarrow>
       (\<exists>s stream dropped seps. capture_run ops s0 = Some s
          \<and> stream_account out (cs_transcript s) = (stream, min (raw_count out ops) USIZE_MAX, dropped, seps)
          \<and> utf8_valid stream \<and> length stream \<le> 320 * 1024 \<and> seps \<le> 1
          \<and> (let written = decoded out ops in
             stream = written \<and> dropped = 0 \<and> seps = 0
             \<or> (\<exists>h t. 64 * 1024 \<le> h \<and> h \<le> t \<and> t < length written
                  \<and> stream = take h written @ replicate seps NEWLINE @ drop t written
                  \<and> dropped = min (t - h) USIZE_MAX)))
   | _ \<Rightarrow> markers_refused ws"
proof (cases "markers_refused ws")
  case True
  then show ?thesis by (simp add: capture_new_def)
next
  case False
  from captured_run [OF this, of ops] obtain s0 s where s0: "capture_new ws = Some (Inr s0)"
    and s: "capture_run ops s0 = Some s" "capture_tracks ws ops s" by blast
  obtain stream written dropped seps where a: "stream_account out (cs_transcript s) = (stream, written, dropped, seps)"
    by (cases "stream_account out (cs_transcript s)")
  from s(2) have "transcript_of (decoded out ops) (raw_count out ops) (stream_account out (cs_transcript s))"
    by (simp add: capture_tracks_def)
  with a s0 s(1) show ?thesis by (auto simp: transcript_of_def capture_sizes Let_def)
qed

text \<open>
  The documented accounting holds when every read is well-formed UTF-8 by itself: total bytes
  less dropped bytes plus separators is the length of the retained text.
\<close>

theorem transcript_accounting:
  "case capture_new ws of
     Some (Inr s0) \<Rightarrow>
       (case capture_run ops s0 of
          None \<Rightarrow> False
        | Some s \<Rightarrow>
            (case stream_account out (cs_transcript s) of (stream, written, dropped, seps) \<Rightarrow>
               if list_all utf8_valid (reads_of out ops) \<and> raw_count out ops \<le> USIZE_MAX
               then written - dropped + seps = length stream else True))
   | _ \<Rightarrow> markers_refused ws"
proof (cases "markers_refused ws")
  case True
  then show ?thesis by (simp add: capture_new_def)
next
  case False
  from captured_run [OF this, of ops] obtain s0 s where s0: "capture_new ws = Some (Inr s0)"
    and s: "capture_run ops s0 = Some s" "capture_tracks ws ops s" by blast
  have "length (decoded out ops) = raw_count out ops" if "list_all utf8_valid (reads_of out ops)"
    using that unfolding decoded_def raw_count_def by (induction "reads_of out ops") (auto simp: list_all_iff lossy_id cong: map_cong)
  moreover from s(2) have "transcript_of (decoded out ops) (raw_count out ops) (stream_account out (cs_transcript s))"
    by (simp add: capture_tracks_def)
  ultimately show ?thesis using s0 s(1) by (auto simp: transcript_of_def)
qed

text \<open>
  The documented accounting is claimed for any child that writes valid UTF-8. It fails when a read
  ends inside a character: each half is decoded by itself.
\<close>

theorem split_character_accounting:
  "utf8_valid [0xC3, 0xA9]
   \<and> (case capture_new [] of
        Some (Inr s0) \<Rightarrow>
          (case capture_run [PushRaw [0xC3] True, PushRaw [0xA9] True] s0 of
             Some s \<Rightarrow> stream_account True (cs_transcript s) = (REPLACEMENT @ REPLACEMENT, 2, 0, 0)
           | None \<Rightarrow> False)
      | _ \<Rightarrow> False)"
proof -
  have lossy: "from_utf8_lossy [0xC3] = REPLACEMENT" "from_utf8_lossy [0xA9] = REPLACEMENT"
    by (simp_all add: from_utf8_lossy.simps utf8_chunk_def byte_at_def utf8_char_width_def is_cont_def)
  show ?thesis
    by (simp add: utf8_valid.simps utf8_chunk_def byte_at_def utf8_char_width_def is_cont_def
        capture_new_def markers_refused_def push_raw_def lossy push_chunk_def append_short captured_default_def
        capture_sizes REPLACEMENT_def usize_saturating_add_def USIZE_MAX_def stream_account_def)
qed

end
