(* ===== verification/Runtime_Supervisor.thy ===== *)
theory Runtime_Supervisor
  imports Runtime_Capture Kipc_Receive
begin

text \<open>
  The child supervisor (\<open>crates/keld-runtime/src/lib.rs\<close>): restart policy and backoff, the wait loop,
  the crash ledger, one generation from spawn to retirement, the crash-loop breaker, and the
  terminal outcome a host reads. What the operating system, the clock, the host's flags and the
  generation lease answer at each call is the environment: a record per generation, with a list of
  answers where the code polls. A poll list that runs out means the supervisor is still waiting: the
  run is then \<open>Running\<close> in the state reached. The trace records what the supervisor does to leases and children and the events it
  sends, in program order. Clock readings are milliseconds.
\<close>

section \<open>Policy\<close>

definition POLL_INTERVAL :: Duration where "POLL_INTERVAL = 20"
definition BACKOFF_BASE :: Duration where "BACKOFF_BASE = 20"

record RestartPolicy =
  max_crashes :: "8 word"
  window_secs :: u16

definition default_policy :: RestartPolicy where
  "default_policy = \<lparr> max_crashes = 3, window_secs = 30 \<rparr>"

definition backoff_delay :: "8 word \<Rightarrow> Duration" where
  "backoff_delay attempt = BACKOFF_BASE * 2 ^ min (unat attempt - 1) 16"

section \<open>Events and the ledger\<close>

datatype SupervisorEvent =
    Started u32 u32
  | Exited u32 "int option"
  | RespawnFailed
  | Failed u32
  | CrashLoopTripped
  | Stopped

record SelfTerminationRecord =
  str_pid :: u32
  str_exit_code :: "int option"
  str_stdout_len :: nat

record CrashLedger =
  cl_count :: u32
  cl_last :: "RuntimeError option"
  stdout_len_at_last_crash :: nat
  self_termination_count :: u32
  last_self_termination :: "SelfTerminationRecord option"

definition ledger_default :: CrashLedger where
  "ledger_default = \<lparr> cl_count = 0, cl_last = None, stdout_len_at_last_crash = 0, self_termination_count = 0,
     last_self_termination = None \<rparr>"

datatype SupervisorOutcome = OutcomeStopped | OutcomeCrashLoop RuntimeError | OutcomeFailed RuntimeError

datatype RevocationCause =
    ChildExited | ShutdownCause | LinkFailed | CaptureFailed | AdmissionFailed | SpawnFailed | WaitFailed

definition record_self_termination :: "CapturedOutput \<Rightarrow> u32 \<Rightarrow> int option \<Rightarrow> CrashLedger \<Rightarrow> CrashLedger" where
  "record_self_termination co pid code ledger =
     (let stdout_len = stdout_total_bytes co;
          l1 = ledger\<lparr> self_termination_count := saturating_add (self_termination_count ledger) 1,
            last_self_termination := Some \<lparr> str_pid = pid, str_exit_code = code, str_stdout_len = stdout_len \<rparr> \<rparr> in
      if code \<noteq> Some 0
      then l1\<lparr> cl_count := saturating_add (cl_count l1) 1, stdout_len_at_last_crash := stdout_len,
             cl_last := Some (ChildCrashed pid code (stderr_tail 2000 co)) \<rparr>
      else l1)"

section \<open>Waiting for the child\<close>

text \<open>An exit status is the exit code it carries, absent for a signal.\<close>

type_synonym ExitStatus = "int option"
type_synonym TryWait = "IoError + ExitStatus option"

datatype WaitResult =
    WaitExited ExitStatus
  | ShutdownRequested
  | RestartRequested
  | LeaseFailed RuntimeError

definition SELF_TERMINATION_GRACE :: Duration where "SELF_TERMINATION_GRACE = 250"

fun await_self_termination :: "Instant \<Rightarrow> (TryWait \<times> Instant) list \<Rightarrow> ExitStatus option option" where
  "await_self_termination deadline [] = None"
| "await_self_termination deadline ((tried, now) # ts) =
     (case tried of
        Inr (Some status) \<Rightarrow> Some (Some status)
      | Inr None \<Rightarrow> if deadline \<le> now then Some None else await_self_termination deadline ts
      | Inl _ \<Rightarrow> Some None)"

definition wait_for_self_termination :: "Instant \<Rightarrow> (TryWait \<times> Instant) list \<Rightarrow> ExitStatus option option" where
  "wait_for_self_termination now ts = await_self_termination (now + SELF_TERMINATION_GRACE) ts"

text \<open>
  One pass of the wait loop: the first \<open>try_wait\<close>, the shutdown flag, the value the restart request
  held when it was taken, the second \<open>try_wait\<close>, the grace period with its start, and the lease poll.
\<close>

record WaitTick =
  wt_first :: TryWait
  wt_shutdown :: bool
  wt_restart :: u32
  wt_second :: TryWait
  wt_grace_start :: Instant
  wt_grace :: "(TryWait \<times> Instant) list"
  wt_poll :: "RuntimeError option"

definition take_restart_for_attempt :: "u32 \<Rightarrow> u32 \<Rightarrow> bool" where
  "take_restart_for_attempt requested attempt = (requested = attempt)"

fun wait_or_shutdown :: "u32 \<Rightarrow> WaitTick list \<Rightarrow> (IoError + WaitResult) option" where
  "wait_or_shutdown attempt [] = None"
| "wait_or_shutdown attempt (t # ts) =
     (case wt_first t of
        Inl e \<Rightarrow> Some (Inl e)
      | Inr (Some status) \<Rightarrow> Some (Inr (WaitExited status))
      | Inr None \<Rightarrow>
          if wt_shutdown t then
            (case wt_second t of
               Inr (Some status) \<Rightarrow> Some (Inr (WaitExited status))
             | _ \<Rightarrow> Some (Inr ShutdownRequested))
          else if take_restart_for_attempt (wt_restart t) attempt then
            (case wt_second t of
               Inr (Some status) \<Rightarrow> Some (Inr (WaitExited status))
             | Inr None \<Rightarrow>
                 map_option (\<lambda>ended. Inr (case ended of None \<Rightarrow> RestartRequested | Some status \<Rightarrow> WaitExited status))
                   (wait_for_self_termination (wt_grace_start t) (wt_grace t))
             | Inl e \<Rightarrow> Some (Inl e))
          else (case wt_poll t of
                  Some e \<Rightarrow> Some (Inr (LeaseFailed e))
                | None \<Rightarrow> wait_or_shutdown attempt ts))"

text \<open>A pass of the backoff wait: the stop flags, the time elapsed, and the stop flags again.\<close>

fun wait_backoff_or_stop :: "Duration \<Rightarrow> (bool \<times> Duration \<times> bool) list \<Rightarrow> bool option" where
  "wait_backoff_or_stop delay [] = None"
| "wait_backoff_or_stop delay ((stop, elapsed, stop_later) # ts) =
     (if stop then Some True
      else if delay \<le> elapsed then Some stop_later
      else wait_backoff_or_stop delay ts)"

section \<open>Supervision\<close>

text \<open>What the environment answers during one generation and on the way to the next.\<close>

record GenEnv =
  ge_pid :: u32
  ge_child_spawned :: "RuntimeError option"
  ge_capture_start :: "IoError option"
  ge_wait :: "WaitTick list"
  ge_grace_start :: Instant
  ge_grace :: "(TryWait \<times> Instant) list"
  ge_revoke :: "RuntimeError option"
  ge_reap :: "IoError option"
  ge_capture_finish :: "IoError option"
  ge_accepted :: bool
  ge_output :: CapturedOutput
  ge_now :: Instant
  ge_backoff :: "(bool \<times> Duration \<times> bool) list"
  ge_allow_restart :: "RuntimeError + bool"
  ge_stop_gate :: bool
  ge_prepare :: "RuntimeError option"
  ge_stop_prepared :: bool
  ge_next_revoke :: "RuntimeError option"
  ge_spawn :: "RuntimeError option"
  ge_stop_spawned :: bool
  ge_owned_interruption :: bool

datatype SupAct =
    Prepared u32
  | SpawnedChild u32
  | RevokedLease u32 RevocationCause
  | KilledChild u32
  | ReapedChild u32
  | SentEvent SupervisorEvent

record Sup =
  sv_trace :: "SupAct list"
  sv_current_pid :: "u32 option"
  sv_crash_loop_error :: "RuntimeError option"
  sv_terminal_error :: "RuntimeError option"
  sv_ledger :: CrashLedger
  sv_crash_times :: "Instant list"

definition sup_start :: "SupAct list \<Rightarrow> Sup" where
  "sup_start tr = \<lparr> sv_trace = tr, sv_current_pid = None, sv_crash_loop_error = None, sv_terminal_error = None,
     sv_ledger = ledger_default, sv_crash_times = [] \<rparr>"

definition act :: "SupAct list \<Rightarrow> Sup \<Rightarrow> Sup" where
  "act as s = s\<lparr> sv_trace := sv_trace s @ as \<rparr>"

definition cleanup_error_by_priority ::
  "RuntimeError option \<Rightarrow> RuntimeError option \<Rightarrow> RuntimeError option \<Rightarrow> RuntimeError option" where
  "cleanup_error_by_priority primary_error revocation_error capture_error =
     (case revocation_error of Some e \<Rightarrow> Some e
      | None \<Rightarrow> (case capture_error of Some e \<Rightarrow> Some e | None \<Rightarrow> primary_error))"

definition capture_finish_error :: "IoError option \<Rightarrow> RuntimeError option" where
  "capture_finish_error = map_option (Lifecycle ''capture retirement'')"

text \<open>Revocation of a live child's lease, then kill and reap.\<close>

definition retire :: "u32 \<Rightarrow> RevocationCause \<Rightarrow> Sup \<Rightarrow> Sup" where
  "retire attempt cause = act [RevokedLease attempt cause, KilledChild attempt, ReapedChild attempt]"

definition fail_with :: "RuntimeError option \<Rightarrow> u32 \<Rightarrow> Sup \<Rightarrow> Sup" where
  "fail_with e attempt s = act [SentEvent (Failed attempt)] (s\<lparr> sv_terminal_error := e \<rparr>)"

datatype GenResult = GenWaiting Sup | GenDone Sup | GenCrashed "int option" Sup

definition after_wait :: "bool \<Rightarrow> u32 \<Rightarrow> GenEnv \<Rightarrow> WaitResult \<Rightarrow> Sup \<Rightarrow> GenResult" where
  "after_wait windows attempt g wait s =
     (let capture_error = capture_finish_error (ge_capture_finish g) in
      case wait of
        LeaseFailed error \<Rightarrow>
          GenDone (fail_with (cleanup_error_by_priority (Some error) (ge_revoke g) capture_error) attempt
            ((retire attempt AdmissionFailed s)\<lparr> sv_current_pid := None \<rparr>))
      | ShutdownRequested \<Rightarrow>
          (case wait_for_self_termination (ge_grace_start g) (ge_grace g) of
             None \<Rightarrow> GenWaiting s
           | Some self_terminated \<Rightarrow>
               let s1 = retire attempt ShutdownCause s;
                   wait_error = map_option (Lifecycle ''child shutdown wait'') (ge_reap g);
                   s2 = (case self_terminated of
                           Some status \<Rightarrow>
                             if \<not> ge_accepted g
                             then s1\<lparr> sv_ledger := record_self_termination (ge_output g) (ge_pid g) status (sv_ledger s1) \<rparr>
                             else s1
                         | None \<Rightarrow> s1)\<lparr> sv_current_pid := None \<rparr> in
               (case cleanup_error_by_priority wait_error (ge_revoke g) capture_error of
                  Some error \<Rightarrow> GenDone (fail_with (Some error) attempt s2)
                | None \<Rightarrow> GenDone (act [SentEvent Stopped] s2)))
      | RestartRequested \<Rightarrow>
          (let s1 = (retire attempt (if windows then LinkFailed else AdmissionFailed) s)\<lparr> sv_current_pid := None \<rparr>;
               wait_error = map_option (Lifecycle ''child restart wait'') (ge_reap g) in
           case cleanup_error_by_priority wait_error (ge_revoke g) capture_error of
             Some error \<Rightarrow> GenDone (fail_with (Some error) attempt s1)
           | None \<Rightarrow> GenCrashed None s1)
      | WaitExited code \<Rightarrow>
          (let s1 = act [SentEvent (Exited (ge_pid g) code)] (s\<lparr> sv_current_pid := None \<rparr>);
               s2 = (if \<not> ge_accepted g
                     then s1\<lparr> sv_ledger := record_self_termination (ge_output g) (ge_pid g) code (sv_ledger s1) \<rparr>
                     else s1);
               s3 = act [RevokedLease attempt ChildExited] s2 in
           case cleanup_error_by_priority None (ge_revoke g) capture_error of
             Some error \<Rightarrow> GenDone (fail_with (Some error) attempt s3)
           | None \<Rightarrow>
               if ge_accepted g \<or> code = Some 0 then GenDone (act [SentEvent Stopped] s3)
               else GenCrashed code s3))"

definition serve_generation :: "bool \<Rightarrow> u32 \<Rightarrow> GenEnv \<Rightarrow> Sup \<Rightarrow> GenResult" where
  "serve_generation windows attempt g s =
     (case ge_child_spawned g of
        Some error \<Rightarrow>
          GenDone (fail_with (Some (case ge_revoke g of None \<Rightarrow> error | Some e \<Rightarrow> e)) attempt
            ((retire attempt AdmissionFailed s)\<lparr> sv_current_pid := None \<rparr>))
      | None \<Rightarrow>
          (let s1 = act [SentEvent (Started (ge_pid g) attempt)] (s\<lparr> sv_current_pid := Some (ge_pid g) \<rparr>);
               capture_error = capture_finish_error (ge_capture_finish g) in
           case ge_capture_start g of
             Some source \<Rightarrow>
               GenDone (fail_with
                 (cleanup_error_by_priority (Some (Lifecycle ''capture thread'' source)) (ge_revoke g) capture_error)
                 attempt ((retire attempt CaptureFailed s1)\<lparr> sv_current_pid := None \<rparr>))
           | None \<Rightarrow>
               (case wait_or_shutdown attempt (ge_wait g) of
                  None \<Rightarrow> GenWaiting s1
                | Some (Inl source) \<Rightarrow>
                    GenDone (fail_with
                      (cleanup_error_by_priority (Some (Lifecycle ''child wait'' source)) (ge_revoke g) capture_error)
                      attempt ((retire attempt WaitFailed s1)\<lparr> sv_current_pid := None \<rparr>))
                | Some (Inr wait) \<Rightarrow> after_wait windows attempt g wait s1)))"

text \<open>The breaker, the backoff, the successor gate and the successor's preparation and spawn.\<close>

datatype Successor = SupWaiting Sup | SupDone Sup | SupNext Sup

definition crash_times_after :: "RestartPolicy \<Rightarrow> Instant \<Rightarrow> Instant list \<Rightarrow> Instant list" where
  "crash_times_after policy now ts =
     filter (\<lambda>t. now - t \<le> unat (window_secs policy) * 1000) ts @ [now]"

definition crash_count :: "Instant list \<Rightarrow> 8 word" where
  "crash_count ts = of_nat (min (length ts) 255)"

definition prepare_successor :: "bool \<Rightarrow> u32 \<Rightarrow> GenEnv \<Rightarrow> Sup \<Rightarrow> Successor" where
  "prepare_successor macos attempt g s =
     (case ge_prepare g of
        Some error \<Rightarrow>
          if macos \<and> ge_stop_prepared g \<and> ge_owned_interruption g then SupDone (act [SentEvent Stopped] s)
          else SupDone (fail_with (Some error) attempt s)
      | None \<Rightarrow>
          (let s1 = act [Prepared attempt] s in
           if ge_stop_prepared g then
             (let s2 = act [RevokedLease attempt ShutdownCause] s1 in
              case ge_next_revoke g of
                Some error \<Rightarrow> SupDone (fail_with (Some error) attempt s2)
              | None \<Rightarrow> SupDone (act [SentEvent Stopped] s2))
           else case ge_spawn g of
             Some error \<Rightarrow>
               SupDone (fail_with (Some (case ge_next_revoke g of Some e \<Rightarrow> e | None \<Rightarrow> error)) attempt
                 (act [RevokedLease attempt SpawnFailed] s1))
           | None \<Rightarrow>
               (let s2 = act [SpawnedChild attempt] s1 in
                if ge_stop_spawned g then
                  (let s3 = retire attempt ShutdownCause s2 in
                   case ge_next_revoke g of
                     Some error \<Rightarrow> SupDone (fail_with (Some error) attempt s3)
                   | None \<Rightarrow> SupDone (act [SentEvent Stopped] s3))
                else SupNext s2)))"

definition after_crash :: "RestartPolicy \<Rightarrow> bool \<Rightarrow> u32 \<Rightarrow> GenEnv \<Rightarrow> int option \<Rightarrow> Sup \<Rightarrow> Successor" where
  "after_crash policy macos attempt g code s0 =
     (let s = s0\<lparr> sv_crash_times := crash_times_after policy (ge_now g) (sv_crash_times s0) \<rparr>;
          count = crash_count (sv_crash_times s) in
      if max_crashes policy \<le> count then
        SupDone (act [SentEvent CrashLoopTripped]
          (s\<lparr> sv_crash_loop_error := Some (CrashLoop count (window_secs policy) code (stderr_tail 2000 (ge_output g))) \<rparr>))
      else case wait_backoff_or_stop (backoff_delay count) (ge_backoff g) of
        None \<Rightarrow> SupWaiting s
      | Some True \<Rightarrow> SupDone (act [SentEvent Stopped] s)
      | Some False \<Rightarrow>
          (case ge_allow_restart g of
             Inl error \<Rightarrow> SupDone (fail_with (Some error) (saturating_add attempt 1) s)
           | Inr False \<Rightarrow> SupDone (act [SentEvent Stopped] s)
           | Inr True \<Rightarrow>
               if ge_stop_gate g then SupDone (act [SentEvent Stopped] s)
               else prepare_successor macos (attempt + 1) g s))"

datatype SupRun = Running Sup | Finished Sup

fun supervise :: "RestartPolicy \<Rightarrow> bool \<Rightarrow> bool \<Rightarrow> u32 \<Rightarrow> GenEnv list \<Rightarrow> Sup \<Rightarrow> SupRun" where
  "supervise policy windows macos attempt [] s = Running s"
| "supervise policy windows macos attempt (g # gs) s =
     (case serve_generation windows attempt g s of
        GenWaiting s1 \<Rightarrow> Running s1
      | GenDone s1 \<Rightarrow> Finished s1
      | GenCrashed code s1 \<Rightarrow>
          (case after_crash policy macos attempt g code s1 of
             SupWaiting s2 \<Rightarrow> Running s2
           | SupDone s2 \<Rightarrow> Finished s2
           | SupNext s2 \<Rightarrow> supervise policy windows macos (attempt + 1) gs s2))"



section \<open>Outcomes\<close>

definition no_crash_loop_diagnostic :: RuntimeError where
  "no_crash_loop_diagnostic = CrashLoop 0 0 None []"

definition no_failure_diagnostic :: RuntimeError where
  "no_failure_diagnostic = Lifecycle ''unknown'' (IoError OtherKind None)"

definition outcome_of_errors :: "Sup \<Rightarrow> SupervisorOutcome" where
  "outcome_of_errors s =
     (case sv_crash_loop_error s of
        Some e \<Rightarrow> OutcomeCrashLoop e
      | None \<Rightarrow> (case sv_terminal_error s of Some e \<Rightarrow> OutcomeFailed e | None \<Rightarrow> OutcomeStopped))"

definition or_default :: "'a option \<Rightarrow> 'a \<Rightarrow> 'a" where
  "or_default x d = (case x of Some a \<Rightarrow> a | None \<Rightarrow> d)"

text \<open>\<open>wait_for_outcome\<close> over the events still queued when the worker has ended.\<close>

fun wait_for_outcome :: "SupervisorEvent list \<Rightarrow> Sup \<Rightarrow> SupervisorOutcome" where
  "wait_for_outcome [] s = outcome_of_errors s"
| "wait_for_outcome (ev # evs) s =
     (case ev of
        CrashLoopTripped \<Rightarrow> OutcomeCrashLoop (or_default (sv_crash_loop_error s) no_crash_loop_diagnostic)
      | Failed _ \<Rightarrow> OutcomeFailed (or_default (sv_terminal_error s) no_failure_diagnostic)
      | Stopped \<Rightarrow> outcome_of_errors s
      | _ \<Rightarrow> wait_for_outcome evs s)"

text \<open>\<open>try_wait_for_outcome\<close>; \<open>ended\<close> says whether the worker has hung up.\<close>

fun try_wait_for_outcome :: "bool \<Rightarrow> SupervisorEvent list \<Rightarrow> Sup \<Rightarrow> SupervisorOutcome option" where
  "try_wait_for_outcome ended [] s = (if ended then Some (outcome_of_errors s) else None)"
| "try_wait_for_outcome ended (ev # evs) s =
     (case ev of
        CrashLoopTripped \<Rightarrow> Some (OutcomeCrashLoop (or_default (sv_crash_loop_error s) no_crash_loop_diagnostic))
      | Failed _ \<Rightarrow> Some (OutcomeFailed (or_default (sv_terminal_error s) no_failure_diagnostic))
      | Stopped \<Rightarrow> Some OutcomeStopped
      | _ \<Rightarrow> try_wait_for_outcome ended evs s)"

fun sent_events :: "SupAct list \<Rightarrow> SupervisorEvent list" where
  "sent_events [] = []"
| "sent_events (SentEvent ev # as) = ev # sent_events as"
| "sent_events (_ # as) = sent_events as"

section \<open>Authority of a generation\<close>

text \<open>
  The discipline of leases and children, as an automaton over the trace: at most one lease is live
  and at most one child is unreaped; a lease is prepared only when neither is left; a child is
  spawned and announced only under its own live lease; a child that did not exit by itself is killed
  only after its lease was revoked, and waited for after it was killed; a terminal event is sent only
  when no lease is live and no child is left. The state is the live lease and the child.
\<close>

datatype ChildState = NoChild | Alive u32 | Killed u32

type_synonym LeaseState = "u32 option \<times> ChildState"

fun terminal_event :: "SupervisorEvent \<Rightarrow> bool" where
  "terminal_event (Failed _) = True"
| "terminal_event CrashLoopTripped = True"
| "terminal_event Stopped = True"
| "terminal_event _ = False"

fun event_step :: "SupervisorEvent \<Rightarrow> LeaseState \<Rightarrow> LeaseState option" where
  "event_step (Started _ n) (live, child) = (if live = Some n \<and> child = Alive n then Some (live, child) else None)"
| "event_step (Exited _ _) (live, child) = (case child of Alive n \<Rightarrow> Some (live, NoChild) | _ \<Rightarrow> None)"
| "event_step RespawnFailed st = Some st"
| "event_step (Failed _) st = (if st = (None, NoChild) then Some st else None)"
| "event_step CrashLoopTripped st = (if st = (None, NoChild) then Some st else None)"
| "event_step Stopped st = (if st = (None, NoChild) then Some st else None)"

fun lease_step :: "SupAct \<Rightarrow> LeaseState \<Rightarrow> LeaseState option" where
  "lease_step (Prepared n) st = (if st = (None, NoChild) then Some (Some n, NoChild) else None)"
| "lease_step (SpawnedChild n) st = (if st = (Some n, NoChild) then Some (Some n, Alive n) else None)"
| "lease_step (RevokedLease n _) (live, child) = (if live = Some n then Some (None, child) else None)"
| "lease_step (KilledChild n) st = (if st = (None, Alive n) then Some (None, Killed n) else None)"
| "lease_step (ReapedChild n) st = (if st = (None, Killed n) then Some (None, NoChild) else None)"
| "lease_step (SentEvent ev) st = event_step ev st"

fun lease_run :: "SupAct list \<Rightarrow> LeaseState \<Rightarrow> LeaseState option" where
  "lease_run [] st = Some st"
| "lease_run (a # as) st = Option.bind (lease_step a st) (lease_run as)"

abbreviation no_authority :: LeaseState where
  "no_authority \<equiv> (None, NoChild)"

abbreviation serving :: "u32 \<Rightarrow> LeaseState" where
  "serving n \<equiv> (Some n, Alive n)"

lemma lease_run_append: "lease_run (as @ bs) st = Option.bind (lease_run as st) (lease_run bs)"
proof (induction as arbitrary: st)
  case (Cons a as)
  then show ?case by (cases "lease_step a st") simp_all
qed simp

lemma sent_events_append [simp]: "sent_events (as @ bs) = sent_events as @ sent_events bs"
  by (induction as rule: sent_events.induct) simp_all

text \<open>
  Under way nothing terminal has happened; at the end no lease is live, no child is left and exactly
  one terminal event was sent, last, with the diagnostic it announces.
\<close>

definition under_way :: "LeaseState \<Rightarrow> Sup \<Rightarrow> bool" where
  "under_way st s \<longleftrightarrow> lease_run (sv_trace s) no_authority = Some st
     \<and> sv_crash_loop_error s = None \<and> sv_terminal_error s = None
     \<and> list_all (\<lambda>ev. \<not> terminal_event ev) (sent_events (sv_trace s))"

definition trip_count :: "RestartPolicy \<Rightarrow> 8 word" where
  "trip_count policy = (if max_crashes policy = 0 then 1 else max_crashes policy)"

definition ended :: "RestartPolicy \<Rightarrow> Sup \<Rightarrow> bool" where
  "ended policy s \<longleftrightarrow> lease_run (sv_trace s) no_authority = Some no_authority
     \<and> (\<exists>evs ev. sent_events (sv_trace s) = evs @ [ev] \<and> list_all (\<lambda>ev. \<not> terminal_event ev) evs
          \<and> (case ev of
               CrashLoopTripped \<Rightarrow> sv_terminal_error s = None
                 \<and> (\<exists>code tail. sv_crash_loop_error s = Some (CrashLoop (trip_count policy) (window_secs policy) code tail))
             | Failed _ \<Rightarrow> sv_terminal_error s \<noteq> None \<and> sv_crash_loop_error s = None
             | Stopped \<Rightarrow> sv_terminal_error s = None \<and> sv_crash_loop_error s = None
             | _ \<Rightarrow> False))"

lemma act_fields [simp]:
  "sv_crash_times (act as s) = sv_crash_times s" "sv_ledger (act as s) = sv_ledger s"
  "sv_current_pid (act as s) = sv_current_pid s" "sv_trace (act as s) = sv_trace s @ as"
  "sv_crash_loop_error (act as s) = sv_crash_loop_error s" "sv_terminal_error (act as s) = sv_terminal_error s"
  by (simp_all add: act_def)

lemma under_way_pid [simp]:
  "under_way live (s\<lparr> sv_current_pid := p \<rparr>) = under_way live s"
  "under_way live (s\<lparr> sv_ledger := l \<rparr>) = under_way live s"
  "under_way live (s\<lparr> sv_crash_times := ts \<rparr>) = under_way live s"
  by (simp_all add: under_way_def)

lemma under_way_act:
  assumes "under_way live s" "lease_run as live = Some live'" "list_all (\<lambda>ev. \<not> terminal_event ev) (sent_events as)"
  shows "under_way live' (act as s)"
  using assms by (simp add: under_way_def lease_run_append)

lemma under_way_retire: "under_way (serving n) s \<Longrightarrow> under_way no_authority (retire n cause s)"
  unfolding retire_def by (erule under_way_act) simp_all

lemma ended_stopped: "under_way no_authority s \<Longrightarrow> ended policy (act [SentEvent Stopped] s)"
  by (auto simp: under_way_def ended_def lease_run_append)

lemma ended_failed: "under_way no_authority s \<Longrightarrow> e \<noteq> None \<Longrightarrow> ended policy (fail_with e n s)"
  by (auto simp: under_way_def ended_def fail_with_def lease_run_append)

lemma cleanup_some: "cleanup_error_by_priority (Some e) r c \<noteq> None"
  by (simp add: cleanup_error_by_priority_def split: option.split)

lemmas sup_rules = under_way_retire ended_stopped ended_failed cleanup_some

lemma after_wait_ends:
  assumes "under_way (serving n) s" "after_wait windows n g wait s = r"
  shows "case r of GenWaiting s' \<Rightarrow> under_way (serving n) s' | GenDone s' \<Rightarrow> ended policy s'
    | GenCrashed code s' \<Rightarrow> under_way no_authority s' \<and> sv_crash_times s' = sv_crash_times s"
proof -
  have retired: "under_way no_authority ((retire n c s)\<lparr> sv_current_pid := None \<rparr>)" for c
    using under_way_retire [OF assms(1)] by simp
  show ?thesis
  proof (cases wait)
    case (WaitExited code)
    let ?s1 = "act [SentEvent (Exited (ge_pid g) code)] (s\<lparr> sv_current_pid := None \<rparr>)"
    let ?s2 = "if \<not> ge_accepted g
      then ?s1\<lparr> sv_ledger := record_self_termination (ge_output g) (ge_pid g) code (sv_ledger ?s1) \<rparr> else ?s1"
    from assms(1) have "under_way (serving n) (s\<lparr> sv_current_pid := None \<rparr>)" by simp
    then have "under_way (Some n, NoChild) ?s1" by (rule under_way_act) simp_all
    then have "under_way (Some n, NoChild) ?s2" by simp
    then have "under_way no_authority (act [RevokedLease n ChildExited] ?s2)" by (rule under_way_act) simp_all
    moreover have "sv_crash_times (act [RevokedLease n ChildExited] ?s2) = sv_crash_times s" by simp
    ultimately show ?thesis
      using assms(2) WaitExited ended_stopped ended_failed
      by (auto simp: after_wait_def Let_def split: option.splits if_splits)
  next
    case (LeaseFailed e)
    with assms(2) retired sup_rules show ?thesis by (auto simp: after_wait_def Let_def)
  next
    case ShutdownRequested
    with assms show ?thesis
      by (auto simp: after_wait_def Let_def under_way_retire [OF assms(1)] intro!: ended_stopped ended_failed
          split: option.splits if_splits)
  next
    case RestartRequested
    with assms(2) retired show ?thesis
      by (auto simp: after_wait_def Let_def retire_def intro!: ended_failed split: option.splits if_splits)
  qed
qed

lemma serve_generation_ends:
  assumes "under_way (serving n) s" "serve_generation windows n g s = r"
  shows "case r of GenWaiting s' \<Rightarrow> under_way (serving n) s' | GenDone s' \<Rightarrow> ended policy s'
    | GenCrashed code s' \<Rightarrow> under_way no_authority s' \<and> sv_crash_times s' = sv_crash_times s"
proof -
  let ?s1 = "act [SentEvent (Started (ge_pid g) n)] (s\<lparr> sv_current_pid := Some (ge_pid g) \<rparr>)"
  from assms(1) have "under_way (serving n) (s\<lparr> sv_current_pid := Some (ge_pid g) \<rparr>)" by simp
  then have started: "under_way (serving n) ?s1" by (rule under_way_act) simp_all
  have "case r of GenWaiting s' \<Rightarrow> under_way (serving n) s' | GenDone s' \<Rightarrow> ended policy s'
      | GenCrashed code s' \<Rightarrow> under_way no_authority s' \<and> sv_crash_times s' = sv_crash_times s"
    if "after_wait windows n g wait ?s1 = r" for wait
    using after_wait_ends [OF started that, of policy] by (cases r) simp_all
  then show ?thesis
    using assms(2) started sup_rules(1) [OF assms(1)] sup_rules(1) [OF started] sup_rules(3,4)
    by (auto simp: serve_generation_def Let_def split: option.splits sum.splits)
qed

definition within_policy :: "RestartPolicy \<Rightarrow> Sup \<Rightarrow> bool" where
  "within_policy policy s \<longleftrightarrow> sv_crash_times s = [] \<or> length (sv_crash_times s) < unat (max_crashes policy)"

lemma crash_count_unat: "unat (crash_count ts) = min (length ts) 255"
  by (simp add: crash_count_def unat_of_nat take_bit_nat_eq_self_iff flip: take_bit_eq_mod)

lemma crash_times_after_length: "length (crash_times_after policy now ts) \<le> Suc (length ts)"
  by (simp add: crash_times_after_def)

lemma prepare_successor_ends:
  assumes "under_way no_authority s"
  shows "case prepare_successor macos n g s of SupWaiting s' \<Rightarrow> False | SupDone s' \<Rightarrow> ended policy s'
    | SupNext s' \<Rightarrow> under_way (serving n) s' \<and> sv_crash_times s' = sv_crash_times s"
proof -
  have prepared: "under_way (Some n, NoChild) (act [Prepared n] s)" by (rule under_way_act [OF assms]) simp_all
  have revoked: "under_way no_authority (act [RevokedLease n c] (act [Prepared n] s))" for c
    by (rule under_way_act [OF prepared]) simp_all
  have spawned: "under_way (serving n) (act [SpawnedChild n] (act [Prepared n] s))"
    by (rule under_way_act [OF prepared]) simp_all
  show ?thesis
    using assms revoked spawned under_way_retire [OF spawned]
    by (auto simp: prepare_successor_def Let_def intro!: ended_stopped ended_failed split: option.split)
qed

lemma trips_at_limit:
  assumes "within_policy policy s" "max_crashes policy \<le> crash_count (crash_times_after policy now (sv_crash_times s))"
  shows "crash_count (crash_times_after policy now (sv_crash_times s)) = trip_count policy"
proof -
  let ?ts = "crash_times_after policy now (sv_crash_times s)"
  have pos: "0 < length ?ts" by (simp add: crash_times_after_def)
  have le: "unat (max_crashes policy) \<le> min (length ?ts) 255"
    using assms(2) by (simp add: word_le_nat_alt crash_count_unat)
  have "unat (crash_count ?ts) = unat (trip_count policy)"
  proof (cases "sv_crash_times s")
    case Nil
    then have "length ?ts = 1" by (simp add: crash_times_after_def)
    with le show ?thesis
      by (cases "unat (max_crashes policy)") (auto simp: crash_count_unat trip_count_def unat_eq_0)
  next
    case (Cons t ts)
    with assms(1) have "length (sv_crash_times s) < unat (max_crashes policy)" by (auto simp: within_policy_def)
    moreover from this have "max_crashes policy \<noteq> 0" by auto
    ultimately show ?thesis
      using le crash_times_after_length [of policy now "sv_crash_times s"]
      by (simp add: crash_count_unat trip_count_def)
  qed
  then show ?thesis by (simp add: word_unat_eq_iff)
qed

lemma below_limit:
  assumes "\<not> max_crashes policy \<le> crash_count ts"
  shows "length ts < unat (max_crashes policy)"
proof -
  have "unat (max_crashes policy) \<le> 255"
    using unsigned_less [of "max_crashes policy", where 'a = nat] by simp
  with assms show ?thesis by (simp add: word_le_nat_alt crash_count_unat)
qed

lemma after_crash_ends:
  assumes "under_way no_authority s" "within_policy policy s" "after_crash policy macos n g code s = r"
  shows "case r of SupWaiting s' \<Rightarrow> under_way no_authority s' | SupDone s' \<Rightarrow> ended policy s' | SupNext s' \<Rightarrow> under_way (serving (n + 1)) s' \<and> within_policy policy s'"
proof -
  let ?ts = "crash_times_after policy (ge_now g) (sv_crash_times s)"
  let ?s = "s\<lparr> sv_crash_times := ?ts \<rparr>"
  have s: "under_way no_authority ?s" using assms(1) by simp
  show ?thesis
  proof (cases "max_crashes policy \<le> crash_count ?ts")
    case True
    with trips_at_limit [OF assms(2) True] assms(1,3) show ?thesis
      by (auto simp: after_crash_def Let_def ended_def under_way_def lease_run_append)
  next
    case False
    have "within_policy policy s'" if "sv_crash_times s' = ?ts" for s'
      using below_limit [OF False] that by (simp add: within_policy_def)
    with prepare_successor_ends [OF s, where policy = policy and macos = macos and n = "n + 1" and g = g] have
      "case prepare_successor macos (n + 1) g ?s of SupWaiting s' \<Rightarrow> under_way no_authority s' | SupDone s' \<Rightarrow> ended policy s'
        | SupNext s' \<Rightarrow> under_way (serving (n + 1)) s' \<and> within_policy policy s'"
      by (auto split: Successor.splits)
    with False assms(3) s ended_stopped [OF s] ended_failed [OF s] show ?thesis
      by (auto simp: after_crash_def Let_def split: option.splits bool.splits sum.splits if_splits)
  qed
qed

lemma supervise_ends:
  "under_way (serving n) s \<Longrightarrow> within_policy policy s \<Longrightarrow>
   case supervise policy windows macos n gs s of Running s' \<Rightarrow> \<exists>live. under_way live s' | Finished s' \<Rightarrow> ended policy s'"
proof (induction gs arbitrary: n s)
  case (Cons g gs)
  note served = serve_generation_ends [OF Cons.prems(1) refl, where policy = policy and windows = windows and g = g]
  show ?case
  proof (cases "serve_generation windows n g s")
    case (GenCrashed code s1)
    with served Cons.prems(2) have s1: "under_way no_authority s1" "within_policy policy s1"
      by (simp_all add: within_policy_def)
    from after_crash_ends [OF s1 refl, where macos = macos and n = n and g = g and code = code] Cons.IH GenCrashed show ?thesis
      by (auto split: Successor.splits)
  qed (use served in auto)
qed auto

lemma started_under_way: "under_way (serving 1) (sup_start [Prepared 1, SpawnedChild 1])"
  by (simp add: under_way_def sup_start_def)

lemma supervised_run:
  "case supervise policy windows macos 1 gs (sup_start [Prepared 1, SpawnedChild 1]) of
     Running s \<Rightarrow> \<exists>live. under_way live s | Finished s \<Rightarrow> ended policy s"
  by (rule supervise_ends [OF started_under_way]) (simp add: within_policy_def sup_start_def)


lemma quiet_outcome:
  assumes "list_all (\<lambda>ev. \<not> terminal_event ev) evs"
  shows "wait_for_outcome (evs @ rest) s = wait_for_outcome rest s"
    "try_wait_for_outcome hung_up (evs @ rest) s = try_wait_for_outcome hung_up rest s"
  using assms by (induction evs) (auto split: SupervisorEvent.splits)

lemma ended_outcome:
  assumes "ended policy s"
  shows "wait_for_outcome (drop k (sent_events (sv_trace s))) s = outcome_of_errors s"
    and "try_wait_for_outcome True (drop k (sent_events (sv_trace s))) s = Some (outcome_of_errors s)"
proof -
  from assms obtain evs ev where ev: "sent_events (sv_trace s) = evs @ [ev]" "list_all (\<lambda>ev. \<not> terminal_event ev) evs"
    "case ev of
       CrashLoopTripped \<Rightarrow> sv_terminal_error s = None
         \<and> (\<exists>code tail. sv_crash_loop_error s = Some (CrashLoop (trip_count policy) (window_secs policy) code tail))
     | Failed _ \<Rightarrow> sv_terminal_error s \<noteq> None \<and> sv_crash_loop_error s = None
     | Stopped \<Rightarrow> sv_terminal_error s = None \<and> sv_crash_loop_error s = None
     | _ \<Rightarrow> False" by (auto simp: ended_def)
  have "list_all (\<lambda>ev. \<not> terminal_event ev) (drop k evs)" using ev(2) by (auto simp: list_all_iff dest: in_set_dropD)
  note quiet = quiet_outcome [OF this]
  show "wait_for_outcome (drop k (sent_events (sv_trace s))) s = outcome_of_errors s"
    "try_wait_for_outcome True (drop k (sent_events (sv_trace s))) s = Some (outcome_of_errors s)"
    using ev quiet by (auto simp: outcome_of_errors_def or_default_def drop_Cons' split: SupervisorEvent.splits option.splits)
qed

text \<open>
  The terminal outcome is never lost or made up: however many events a host drained before,
  both waits return the outcome the worker recorded, the breaker's error carries exactly the
  policy's crash limit (one for a limit of zero) and its window, and a failure carries its own
  diagnostic, never the placeholder.
\<close>

theorem outcome_survives_draining:
  "case supervise policy windows macos 1 gs (sup_start [Prepared 1, SpawnedChild 1]) of
     Running s \<Rightarrow> outcome_of_errors s = OutcomeStopped \<and> list_all (\<lambda>ev. \<not> terminal_event ev) (sent_events (sv_trace s))
   | Finished s \<Rightarrow>
       (let queued = drop k (sent_events (sv_trace s)); outcome = wait_for_outcome queued s in
        try_wait_for_outcome True queued s = Some outcome
        \<and> (case last (sent_events (sv_trace s)) of
             CrashLoopTripped \<Rightarrow>
               (\<exists>code tail. outcome = OutcomeCrashLoop (CrashLoop
                  (if max_crashes policy = 0 then 1 else max_crashes policy) (window_secs policy) code tail))
           | Failed _ \<Rightarrow> (\<exists>e. sv_terminal_error s = Some e \<and> outcome = OutcomeFailed e)
           | Stopped \<Rightarrow> outcome = OutcomeStopped
           | _ \<Rightarrow> False))"
proof (cases "supervise policy windows macos 1 gs (sup_start [Prepared 1, SpawnedChild 1])")
  case (Running s)
  with supervised_run [of policy windows macos gs] show ?thesis
    by (auto simp: under_way_def outcome_of_errors_def)
next
  case (Finished s)
  with supervised_run [of policy windows macos gs] have e: "ended policy s" by simp
  note outcome = ended_outcome [OF e, of k]
  from e obtain ev where ev: "last (sent_events (sv_trace s)) = ev"
    "case ev of
       CrashLoopTripped \<Rightarrow> sv_terminal_error s = None
         \<and> (\<exists>code tail. sv_crash_loop_error s = Some (CrashLoop (trip_count policy) (window_secs policy) code tail))
     | Failed _ \<Rightarrow> sv_terminal_error s \<noteq> None \<and> sv_crash_loop_error s = None
     | Stopped \<Rightarrow> sv_terminal_error s = None \<and> sv_crash_loop_error s = None
     | _ \<Rightarrow> False" unfolding ended_def by (metis last_snoc)
  have "case last (sent_events (sv_trace s)) of
      CrashLoopTripped \<Rightarrow>
        (\<exists>code tail. outcome_of_errors s = OutcomeCrashLoop (CrashLoop (trip_count policy) (window_secs policy) code tail))
    | Failed _ \<Rightarrow> (\<exists>e. sv_terminal_error s = Some e \<and> outcome_of_errors s = OutcomeFailed e)
    | Stopped \<Rightarrow> outcome_of_errors s = OutcomeStopped
    | _ \<Rightarrow> False"
    using ev by (cases ev) (auto simp: outcome_of_errors_def)
  then show ?thesis unfolding Finished SupRun.case Let_def outcome trip_count_def by blast
qed

section \<open>The breaker ends a burst\<close>

text \<open>The polls of a generation settle: the child is eventually seen to exit and the clock goes on.\<close>

definition MAX_BACKOFF :: Duration where "MAX_BACKOFF = BACKOFF_BASE * 2 ^ 16"

definition grace_settles :: "Instant \<Rightarrow> (TryWait \<times> Instant) list \<Rightarrow> bool" where
  "grace_settles start ts = list_ex (\<lambda>(tried, now). tried \<noteq> Inr None \<or> start + SELF_TERMINATION_GRACE \<le> now) ts"

definition wait_settles :: "WaitTick list \<Rightarrow> bool" where
  "wait_settles ts \<longleftrightarrow> list_all (\<lambda>t. grace_settles (wt_grace_start t) (wt_grace t)) ts
     \<and> list_ex (\<lambda>t. wt_first t \<noteq> Inr None) ts"

definition backoff_settles :: "(bool \<times> Duration \<times> bool) list \<Rightarrow> bool" where
  "backoff_settles ts = list_ex (\<lambda>(stop, elapsed, _). stop \<or> MAX_BACKOFF \<le> elapsed) ts"

definition settles :: "GenEnv \<Rightarrow> bool" where
  "settles g \<longleftrightarrow> wait_settles (ge_wait g) \<and> grace_settles (ge_grace_start g) (ge_grace g) \<and> backoff_settles (ge_backoff g)"

lemma grace_returns: "grace_settles start ts \<Longrightarrow> wait_for_self_termination start ts \<noteq> None"
  unfolding wait_for_self_termination_def grace_settles_def
  by (induction ts) (auto split: sum.splits option.splits)

lemma wait_returns: "wait_settles ts \<Longrightarrow> wait_or_shutdown attempt ts \<noteq> None"
proof (induction ts)
  case (Cons t ts)
  have "wait_for_self_termination (wt_grace_start t) (wt_grace t) \<noteq> None"
    using Cons.prems by (intro grace_returns) (simp add: wait_settles_def)
  moreover have "wait_settles ts" if "wt_first t = Inr None" using Cons.prems that by (simp add: wait_settles_def)
  ultimately show ?case using Cons.IH by (auto split: sum.split option.split)
qed (simp add: wait_settles_def)

lemma backoff_bound: "backoff_delay count \<le> MAX_BACKOFF"
  unfolding backoff_delay_def MAX_BACKOFF_def by (intro mult_le_mono2 power_increasing) simp_all

lemma backoff_returns: "backoff_settles ts \<Longrightarrow> wait_backoff_or_stop (backoff_delay count) ts \<noteq> None"
  using backoff_bound [of count] unfolding backoff_settles_def by (induction ts) auto

lemma serve_returns: "settles g \<Longrightarrow> serve_generation windows n g s \<noteq> GenWaiting s'"
  using wait_returns [of "ge_wait g" n] grace_returns [of "ge_grace_start g" "ge_grace g"]
  by (auto simp: settles_def serve_generation_def after_wait_def Let_def split: option.splits sum.splits WaitResult.splits)

lemma prepare_returns: "prepare_successor macos n g s \<noteq> SupWaiting s'"
  by (auto simp: prepare_successor_def Let_def split: option.splits)

lemma after_crash_returns: "settles g \<Longrightarrow> after_crash policy macos n g code s \<noteq> SupWaiting s'"
  using backoff_returns [of "ge_backoff g" "crash_count (crash_times_after policy (ge_now g) (sv_crash_times s))"]
    prepare_returns
  by (auto simp: settles_def after_crash_def Let_def split: option.splits sum.splits bool.splits)

lemma serve_keeps_times: "serve_generation windows n g s = GenCrashed code s' \<Longrightarrow> sv_crash_times s' = sv_crash_times s"
  by (auto simp: serve_generation_def after_wait_def Let_def retire_def split: option.splits sum.splits WaitResult.splits if_splits)

lemma after_crash_times:
  "after_crash policy macos n g code s = SupNext s' \<Longrightarrow>
   sv_crash_times s' = crash_times_after policy (ge_now g) (sv_crash_times s)
   \<and> length (sv_crash_times s') < unat (max_crashes policy)"
  using below_limit [of policy "crash_times_after policy (ge_now g) (sv_crash_times s)"]
  by (auto simp: after_crash_def prepare_successor_def Let_def split: option.splits sum.splits bool.splits if_splits)

lemma burst_finishes:
  assumes "list_all settles gs"
    and "list_all (\<lambda>g. lo \<le> ge_now g \<and> ge_now g \<le> lo + unat (window_secs policy) * 1000) gs"
    and "list_all (\<lambda>t. lo \<le> t) (sv_crash_times s)"
    and "within_policy policy s" "max 1 (unat (max_crashes policy)) \<le> length (sv_crash_times s) + length gs"
  shows "\<exists>s'. supervise policy windows macos n gs s = Finished s'"
  using assms
proof (induction gs arbitrary: n s)
  case Nil
  then show ?case by (auto simp: within_policy_def)
next
  case (Cons g gs)
  have g: "settles g" "lo \<le> ge_now g" "ge_now g \<le> lo + unat (window_secs policy) * 1000" using Cons.prems by simp_all
  show ?case
  proof (cases "serve_generation windows n g s")
    case (GenCrashed code s1)
    note times = serve_keeps_times [OF GenCrashed]
    have kept: "crash_times_after policy (ge_now g) (sv_crash_times s) = sv_crash_times s @ [ge_now g]"
      using Cons.prems(3) g by (auto simp: crash_times_after_def list_all_iff filter_id_conv)
    show ?thesis
    proof (cases "after_crash policy macos n g code s1")
      case (SupNext s2)
      from after_crash_times [OF this] times kept
      have s2: "sv_crash_times s2 = sv_crash_times s @ [ge_now g]" "length (sv_crash_times s2) < unat (max_crashes policy)"
        by auto
      have "\<exists>s'. supervise policy windows macos (n + 1) gs s2 = Finished s'"
        by (rule Cons.IH) (use Cons.prems g s2 in \<open>simp_all add: within_policy_def\<close>)
      with GenCrashed SupNext show ?thesis by simp
    qed (use GenCrashed after_crash_returns [OF g(1)] in simp_all)
  qed (use serve_returns [OF g(1)] in simp_all)
qed

text \<open>
  C30. A crash burst ends: when every generation's polls settle and all the crashes fall inside one
  policy window, supervision finishes within as many generations as the policy tolerates crashes.
\<close>

theorem burst_terminates:
  assumes "list_all settles gs" "max 1 (unat (max_crashes policy)) \<le> length gs"
    and "list_all (\<lambda>g. lo \<le> ge_now g \<and> ge_now g \<le> lo + unat (window_secs policy) * 1000) gs"
  shows "\<exists>s. supervise policy windows macos 1 gs (sup_start [Prepared 1, SpawnedChild 1]) = Finished s \<and> ended policy s"
proof -
  have "\<exists>s. supervise policy windows macos 1 gs (sup_start [Prepared 1, SpawnedChild 1]) = Finished s"
    by (rule burst_finishes) (use assms in \<open>simp_all add: sup_start_def within_policy_def\<close>)
  with supervised_run [of policy windows macos gs] show ?thesis by auto
qed

text \<open>A generation that exits with a code at a given time, with nothing else going wrong.\<close>

definition exit_tick :: "int option \<Rightarrow> WaitTick" where
  "exit_tick code = \<lparr> wt_first = Inr (Some code), wt_shutdown = False, wt_restart = 0, wt_second = Inr None,
     wt_grace_start = 0, wt_grace = [(Inr None, SELF_TERMINATION_GRACE)], wt_poll = None \<rparr>"

definition plain_exit :: "int option \<Rightarrow> Instant \<Rightarrow> GenEnv" where
  "plain_exit code now = \<lparr> ge_pid = 7, ge_child_spawned = None, ge_capture_start = None, ge_wait = [exit_tick code],
     ge_grace_start = 0, ge_grace = [(Inr None, SELF_TERMINATION_GRACE)], ge_revoke = None, ge_reap = None,
     ge_capture_finish = None, ge_accepted = False, ge_output = captured_default, ge_now = now,
     ge_backoff = [(False, MAX_BACKOFF, False)], ge_allow_restart = Inr True, ge_stop_gate = False, ge_prepare = None,
     ge_stop_prepared = False, ge_next_revoke = None, ge_spawn = None, ge_stop_spawned = False,
     ge_owned_interruption = False \<rparr>"

lemma plain_exit_settles: "settles (plain_exit code now)"
  by (simp add: settles_def plain_exit_def wait_settles_def grace_settles_def backoff_settles_def exit_tick_def)

theorem burst_terminates_witness:
  "\<exists>s. supervise default_policy False False 1 (map (plain_exit (Some 1)) [0, 500, 29000])
         (sup_start [Prepared 1, SpawnedChild 1]) = Finished s \<and> ended default_policy s"
  by (rule burst_terminates [where lo = 0])
    (simp_all add: plain_exit_settles default_policy_def, simp_all add: plain_exit_def)

section \<open>Spaced crashes\<close>

fun is_started :: "SupervisorEvent \<Rightarrow> bool" where
  "is_started (Started _ _) = True"
| "is_started _ = False"

abbreviation starts :: "Sup \<Rightarrow> nat" where
  "starts s \<equiv> length (filter is_started (sent_events (sv_trace s)))"

definition slow_crashes :: "RestartPolicy \<Rightarrow> nat \<Rightarrow> nat \<Rightarrow> GenEnv list" where
  "slow_crashes policy k n =
     map (\<lambda>i. plain_exit (Some 1) (i * (unat (window_secs policy) * 1000 + 1))) [k..<k + n]"

lemma serve_plain_crash:
  "serve_generation windows n (plain_exit (Some 1) now) s =
     GenCrashed (Some 1) (act [RevokedLease n ChildExited]
       (act [SentEvent (Exited 7 (Some 1))] (act [SentEvent (Started 7 n)] s))
       \<lparr> sv_current_pid := None, sv_ledger := record_self_termination captured_default 7 (Some 1) (sv_ledger s) \<rparr>)"
  by (simp add: serve_generation_def after_wait_def plain_exit_def exit_tick_def Let_def act_def
      cleanup_error_by_priority_def capture_finish_error_def)

lemma plain_crash_restarts:
  assumes "2 \<le> max_crashes policy" "\<And>t. t \<in> set (sv_crash_times s) \<Longrightarrow> unat (window_secs policy) * 1000 < now - t"
  shows "after_crash policy macos n (plain_exit (Some 1) now) (Some 1) s =
    SupNext (act [SpawnedChild (n + 1)] (act [Prepared (n + 1)] (s\<lparr> sv_crash_times := [now] \<rparr>)))"
proof -
  have "crash_times_after policy now (sv_crash_times s) = [now]"
    using assms(2) by (fastforce simp: crash_times_after_def filter_empty_conv)
  moreover have "\<not> max_crashes policy \<le> 1" using assms(1) by (auto simp: word_le_nat_alt)
  ultimately show ?thesis
    using backoff_bound [of 1]
    by (simp add: after_crash_def prepare_successor_def plain_exit_def Let_def crash_count_def)
qed

lemma slow_crashes_run:
  assumes "2 \<le> max_crashes policy"
    and "\<And>t. t \<in> set (sv_crash_times s) \<Longrightarrow> t + unat (window_secs policy) * 1000 < k * (unat (window_secs policy) * 1000 + 1)"
  shows "\<exists>s'. supervise policy windows macos n (slow_crashes policy k j @ gs) s = supervise policy windows macos (n + of_nat j) gs s'
    \<and> starts s' = starts s + j \<and> sv_crash_loop_error s' = sv_crash_loop_error s \<and> sv_terminal_error s' = sv_terminal_error s
    \<and> filter terminal_event (sent_events (sv_trace s')) = filter terminal_event (sent_events (sv_trace s))"
  using assms(2)
proof (induction j arbitrary: k n s)
  case 0
  show ?case by (rule exI [of _ s]) (simp add: slow_crashes_def)
next
  case (Suc j)
  define w where "w = unat (window_secs policy) * 1000"
  let ?g = "plain_exit (Some 1) (k * (w + 1))"
  have first: "slow_crashes policy k (Suc j) = ?g # slow_crashes policy (Suc k) j"
    by (simp add: slow_crashes_def upt_conv_Cons w_def del: upt_Suc)
  obtain s1 where s1: "serve_generation windows n ?g s = GenCrashed (Some 1) s1" "starts s1 = Suc (starts s)"
      "sv_crash_times s1 = sv_crash_times s" "sv_crash_loop_error s1 = sv_crash_loop_error s"
      "sv_terminal_error s1 = sv_terminal_error s"
      "filter terminal_event (sent_events (sv_trace s1)) = filter terminal_event (sent_events (sv_trace s))"
    by (simp add: serve_plain_crash)
  let ?s2 = "act [SpawnedChild (n + 1)] (act [Prepared (n + 1)] (s1\<lparr> sv_crash_times := [k * (w + 1)] \<rparr>))"
  have "after_crash policy macos n ?g (Some 1) s1 = SupNext ?s2"
    by (rule plain_crash_restarts [OF assms(1)])
      (use Suc.prems s1(3) in \<open>auto simp: less_diff_conv add.commute simp flip: w_def\<close>)
  moreover have "\<exists>s'. supervise policy windows macos (n + 1) (slow_crashes policy (Suc k) j @ gs) ?s2
        = supervise policy windows macos (n + 1 + of_nat j) gs s'
    \<and> starts s' = starts ?s2 + j \<and> sv_crash_loop_error s' = sv_crash_loop_error ?s2 \<and> sv_terminal_error s' = sv_terminal_error ?s2
    \<and> filter terminal_event (sent_events (sv_trace s')) = filter terminal_event (sent_events (sv_trace ?s2))"
    by (rule Suc.IH) (simp flip: w_def)
  ultimately show ?case using first s1 by (simp add: add.assoc [symmetric])
qed

text \<open>
  The breaker does not bound the number of generations: with any policy that tolerates at least two
  crashes, crashes spaced by more than the window are restarted however many they are.
\<close>

theorem slow_crashes_never_trip:
  "if 2 \<le> max_crashes policy
   then \<exists>s. supervise policy windows macos 1 (slow_crashes policy 0 n) (sup_start [Prepared 1, SpawnedChild 1]) = Running s
     \<and> starts s = n \<and> sv_crash_loop_error s = None
   else True"
proof -
  have "\<exists>s. supervise policy windows macos 1 (slow_crashes policy 0 n @ []) (sup_start [Prepared 1, SpawnedChild 1]) = Running s
     \<and> starts s = n \<and> sv_crash_loop_error s = None" if max: "2 \<le> max_crashes policy"
    using slow_crashes_run [OF max, of "sup_start [Prepared 1, SpawnedChild 1]" 0 windows macos 1 n "[]"]
    by (auto simp: sup_start_def)
  then show ?thesis by simp
qed

section \<open>The ledger\<close>

text \<open>
  What a generation's environment shows of its child's death: the exit the wait loop sees, or the
  one first seen in the grace period of a requested shutdown. A child the host retires has none.
\<close>

definition seen_exit :: "u32 \<Rightarrow> GenEnv \<Rightarrow> ExitStatus option" where
  "seen_exit n g =
     (if ge_child_spawned g \<noteq> None \<or> ge_capture_start g \<noteq> None then None
      else case wait_or_shutdown n (ge_wait g) of
        Some (Inr (WaitExited status)) \<Rightarrow> Some status
      | Some (Inr ShutdownRequested) \<Rightarrow> Option.bind (wait_for_self_termination (ge_grace_start g) (ge_grace g)) (\<lambda>ended. ended)
      | _ \<Rightarrow> None)"

text \<open>An unrequested exit is one the host had not accepted a shutdown for.\<close>

type_synonym Death = "u32 \<times> ExitStatus \<times> CapturedOutput"

definition unrequested_exit :: "u32 \<Rightarrow> GenEnv \<Rightarrow> Death list" where
  "unrequested_exit n g =
     (case seen_exit n g of Some status \<Rightarrow> if ge_accepted g then [] else [(ge_pid g, status, ge_output g)] | None \<Rightarrow> [])"

fun unrequested_exits :: "u32 \<Rightarrow> GenEnv list \<Rightarrow> Death list" where
  "unrequested_exits n [] = []"
| "unrequested_exits n (g # gs) = unrequested_exit n g @ unrequested_exits (n + 1) gs"

text \<open>The ledger that records exactly these deaths, in order.\<close>

definition crashes_in :: "Death list \<Rightarrow> Death list" where
  "crashes_in deaths = filter (\<lambda>(pid, code, co). code \<noteq> Some 0) deaths"

definition saturated :: "nat \<Rightarrow> u32" where
  "saturated n = of_nat (min n (2 ^ 32 - 1))"

definition last_of :: "'a list \<Rightarrow> 'a option" where
  "last_of xs = (if xs = [] then None else Some (last xs))"

definition ledger_of :: "Death list \<Rightarrow> CrashLedger" where
  "ledger_of deaths =
     \<lparr> cl_count = saturated (length (crashes_in deaths)),
       cl_last = map_option (\<lambda>(pid, code, co). ChildCrashed pid code (stderr_tail 2000 co)) (last_of (crashes_in deaths)),
       stdout_len_at_last_crash = (case last_of (crashes_in deaths) of None \<Rightarrow> 0 | Some (pid, code, co) \<Rightarrow> stdout_total_bytes co),
       self_termination_count = saturated (length deaths),
       last_self_termination = map_option (\<lambda>(pid, code, co). \<lparr> str_pid = pid, str_exit_code = code, str_stdout_len = stdout_total_bytes co \<rparr>)
         (last_of deaths) \<rparr>"

lemma saturated_Suc: "saturating_add (saturated n) 1 = saturated (Suc n)"
proof -
  have "unat (saturated n) = min n (2 ^ 32 - 1)"
    by (simp add: saturated_def unat_of_nat take_bit_nat_eq_self_iff flip: take_bit_eq_mod)
  moreover have "unat (- 1 :: u32) = 2 ^ 32 - 1" by (simp add: unsigned_minus_1_eq_mask mask_eq_exp_minus_1)
  ultimately show ?thesis by (auto simp: saturating_add_def saturated_def word_unat_eq_iff unat_word_ariths unat_of_nat)
qed

lemma ledger_of_snoc:
  "ledger_of (deaths @ [(pid, code, co)]) = record_self_termination co pid code (ledger_of deaths)"
  by (simp add: ledger_of_def record_self_termination_def Let_def crashes_in_def last_of_def saturated_Suc)

lemma ledger_of_Nil: "ledger_of [] = ledger_default"
  by (simp add: ledger_of_def ledger_default_def crashes_in_def last_of_def saturated_def)

text \<open>The exits announced to the host are those the wait loop saw, requested or not.\<close>

definition announced_exit :: "u32 \<Rightarrow> GenEnv \<Rightarrow> (u32 \<times> ExitStatus) list" where
  "announced_exit n g =
     (if ge_child_spawned g \<noteq> None \<or> ge_capture_start g \<noteq> None then []
      else case wait_or_shutdown n (ge_wait g) of Some (Inr (WaitExited status)) \<Rightarrow> [(ge_pid g, status)] | _ \<Rightarrow> [])"

fun announced_exits :: "u32 \<Rightarrow> GenEnv list \<Rightarrow> (u32 \<times> ExitStatus) list" where
  "announced_exits n [] = []"
| "announced_exits n (g # gs) = announced_exit n g @ announced_exits (n + 1) gs"

fun exits :: "SupAct list \<Rightarrow> (u32 \<times> ExitStatus) list" where
  "exits [] = []"
| "exits (SentEvent (Exited pid code) # as) = (pid, code) # exits as"
| "exits (_ # as) = exits as"

lemma exits_append [simp]: "exits (as @ bs) = exits as @ exits bs"
  by (induction as rule: exits.induct) simp_all

text \<open>What a stretch of supervision adds: starts announced, exits announced and deaths recorded.\<close>

definition adds :: "nat \<Rightarrow> (u32 \<times> ExitStatus) list \<Rightarrow> Death list \<Rightarrow> Sup \<Rightarrow> Sup \<Rightarrow> bool" where
  "adds k announced deaths s s' \<longleftrightarrow> starts s' = starts s + k \<and> exits (sv_trace s') = exits (sv_trace s) @ announced
     \<and> (\<forall>old. sv_ledger s = ledger_of old \<longrightarrow> sv_ledger s' = ledger_of (old @ deaths))"

lemma adds_refl: "adds 0 [] [] s s"
  by (simp add: adds_def)

lemma adds_trans: "adds k as ds s s1 \<Longrightarrow> adds k' as' ds' s1 s2 \<Longrightarrow> adds (k + k') (as @ as') (ds @ ds') s s2"
  by (simp add: adds_def)

lemma adds_act [simp]:
  "adds k as ds s (retire n c s') = adds k as ds s s'"
  "adds k as ds s (act [RevokedLease n c] s') = adds k as ds s s'"
  "adds k as ds s (act [Prepared n] s') = adds k as ds s s'"
  "adds k as ds s (act [SpawnedChild n] s') = adds k as ds s s'"
  "adds k as ds s (act [SentEvent Stopped] s') = adds k as ds s s'"
  "adds k as ds s (act [SentEvent CrashLoopTripped] s') = adds k as ds s s'"
  "adds k as ds s (fail_with e n s') = adds k as ds s s'"
  "adds k as ds s (s'\<lparr> sv_current_pid := p \<rparr>) = adds k as ds s s'"
  "adds k as ds s (s'\<lparr> sv_crash_times := ts \<rparr>) = adds k as ds s s'"
  "adds k as ds s (s'\<lparr> sv_crash_loop_error := ce \<rparr>) = adds k as ds s s'"
  by (simp_all add: adds_def retire_def fail_with_def)

lemma adds_started: "adds 1 [] [] s (act [SentEvent (Started pid n)] (s\<lparr> sv_current_pid := Some pid \<rparr>))"
  by (simp add: adds_def)

lemma adds_exited:
  "adds 0 [(pid, code)] [] s (act [SentEvent (Exited pid code)] (s\<lparr> sv_current_pid := None \<rparr>))"
  "adds 0 [(pid, code)] [(pid, code, co)] s ((act [SentEvent (Exited pid code)] (s\<lparr> sv_current_pid := None \<rparr>))
     \<lparr> sv_ledger := record_self_termination co pid code (sv_ledger s) \<rparr>)"
  by (simp_all add: adds_def ledger_of_snoc)

lemma adds_seen:
  "adds 0 [] [(pid, code, co)] s ((retire n c s)\<lparr> sv_ledger := record_self_termination co pid code (sv_ledger (retire n c s)) \<rparr>)"
  by (simp add: adds_def ledger_of_snoc retire_def)

fun gen_state :: "GenResult \<Rightarrow> Sup" where
  "gen_state (GenWaiting s) = s"
| "gen_state (GenDone s) = s"
| "gen_state (GenCrashed code s) = s"

fun successor_state :: "Successor \<Rightarrow> Sup" where
  "successor_state (SupWaiting s) = s"
| "successor_state (SupDone s) = s"
| "successor_state (SupNext s) = s"

fun run_state :: "SupRun \<Rightarrow> Sup" where
  "run_state (Running s) = s"
| "run_state (Finished s) = s"

definition exit_announced :: "WaitResult \<Rightarrow> GenEnv \<Rightarrow> (u32 \<times> ExitStatus) list" where
  "exit_announced wait g = (case wait of WaitExited status \<Rightarrow> [(ge_pid g, status)] | _ \<Rightarrow> [])"

definition exit_recorded :: "WaitResult \<Rightarrow> GenEnv \<Rightarrow> Death list" where
  "exit_recorded wait g =
     (if ge_accepted g then []
      else case wait of
        WaitExited status \<Rightarrow> [(ge_pid g, status, ge_output g)]
      | ShutdownRequested \<Rightarrow>
          (case wait_for_self_termination (ge_grace_start g) (ge_grace g) of
             Some (Some status) \<Rightarrow> [(ge_pid g, status, ge_output g)] | _ \<Rightarrow> [])
      | _ \<Rightarrow> [])"

lemma after_wait_adds: "adds 0 (exit_announced wait g) (exit_recorded wait g) s (gen_state (after_wait windows n g wait s))"
proof (cases wait)
  case (WaitExited code)
  then show ?thesis
    using adds_exited(1) [of "ge_pid g" code s] adds_exited(2) [of "ge_pid g" code "ge_output g" s]
    by (auto simp: after_wait_def Let_def exit_announced_def exit_recorded_def split: option.split)
next
  case ShutdownRequested
  then show ?thesis
    using adds_refl [of s] adds_seen [of "ge_pid g" _ "ge_output g" s n ShutdownCause]
    by (simp add: after_wait_def Let_def exit_announced_def exit_recorded_def split: option.split)
qed (simp_all add: after_wait_def Let_def adds_refl exit_announced_def exit_recorded_def split: option.split)

lemma serve_generation_adds:
  "adds (if ge_child_spawned g = None then 1 else 0) (announced_exit n g) (unrequested_exit n g) s
     (gen_state (serve_generation windows n g s))"
proof -
  let ?s1 = "act [SentEvent (Started (ge_pid g) n)] (s\<lparr> sv_current_pid := Some (ge_pid g) \<rparr>)"
  note started = adds_started [of s "ge_pid g" n]
  have waited: "adds 1 (exit_announced wait g) (exit_recorded wait g) s (gen_state (after_wait windows n g wait ?s1))" for wait
    using adds_trans [OF started after_wait_adds] by simp
  show ?thesis
  proof (cases "ge_child_spawned g = None \<and> ge_capture_start g = None")
    case False
    with started adds_refl [of s] show ?thesis
      by (auto simp: serve_generation_def Let_def announced_exit_def unrequested_exit_def seen_exit_def split: option.split)
  next
    case True
    show ?thesis
    proof (cases "\<exists>wait. wait_or_shutdown n (ge_wait g) = Some (Inr wait)")
      case False
      with True started show ?thesis
        by (auto simp: serve_generation_def Let_def announced_exit_def unrequested_exit_def seen_exit_def split: option.split sum.split)
    next
      case waits: True
      then obtain wait where wait: "wait_or_shutdown n (ge_wait g) = Some (Inr wait)" by blast
      have "announced_exit n g = exit_announced wait g" "unrequested_exit n g = exit_recorded wait g"
        using True wait
        by (auto simp: announced_exit_def exit_announced_def unrequested_exit_def exit_recorded_def seen_exit_def
            split: option.split WaitResult.split)
      with True wait waited [of wait] show ?thesis by (simp add: serve_generation_def Let_def)
    qed
  qed
qed

lemma crashed_was_started: "serve_generation windows n g s = GenCrashed code s' \<Longrightarrow> ge_child_spawned g = None"
  by (auto simp: serve_generation_def split: option.splits)

lemma after_crash_adds: "adds 0 [] [] s (successor_state (after_crash policy macos n g code s))"
  by (simp add: after_crash_def prepare_successor_def Let_def adds_refl split: option.split sum.split bool.split)

lemma supervise_adds:
  "\<exists>k. adds k (announced_exits n (take k gs)) (unrequested_exits n (take k gs)) s
     (run_state (supervise policy windows macos n gs s))"
proof (induction gs arbitrary: n s)
  case Nil
  show ?case by (rule exI [of _ 0]) (simp add: adds_refl)
next
  case (Cons g gs)
  let ?k = "if ge_child_spawned g = None then 1 else 0 :: nat"
  have one: "announced_exits n (take ?k (g # gs)) = announced_exit n g" "unrequested_exits n (take ?k (g # gs)) = unrequested_exit n g"
    by (simp_all add: announced_exit_def unrequested_exit_def seen_exit_def)
  note served = serve_generation_adds [of g n s windows]
  show ?case
  proof (cases "serve_generation windows n g s")
    case (GenCrashed code s1)
    from served crashed_was_started [OF GenCrashed] GenCrashed
    have "adds 1 (announced_exit n g) (unrequested_exit n g) s s1" by simp
    note crashed = adds_trans [OF this after_crash_adds [of s1 policy macos n g code]]
    show ?thesis
    proof (cases "after_crash policy macos n g code s1")
      case (SupNext s2)
      obtain k where "adds k (announced_exits (n + 1) (take k gs)) (unrequested_exits (n + 1) (take k gs)) s2
          (run_state (supervise policy windows macos (n + 1) gs s2))" using Cons.IH by blast
      from adds_trans [OF crashed [unfolded SupNext successor_state.simps] this] GenCrashed SupNext show ?thesis
        by (intro exI [of _ "Suc k"]) simp
    qed (use crashed GenCrashed in \<open>auto intro!: exI [of _ 1]\<close>)
  qed (use served one in \<open>auto intro!: exI [of _ ?k] simp del: take_Suc_Cons\<close>)
qed

text \<open>
  C31. The ledger holds exactly the deaths nobody asked for: at every point of supervision, under way
  or ended, it is the ledger of the exits seen in the generations started so far for which the
  host had accepted no shutdown, in order: their number and the number of failing ones, saturating
  at the counter's width, the last one's pid, code and output length, and the last failing one's
  diagnostic. An exit the host had accepted and a child the supervisor retired itself are not
  counted, while an exit first seen in the grace period of a shutdown nobody accepted is. The exits
  announced to the host are those the wait loop saw, accepted or not.
\<close>

theorem ledger_exact:
  "let s = run_state (supervise policy windows macos 1 gs (sup_start [Prepared 1, SpawnedChild 1]));
       served = take (starts s) gs in
   sv_ledger s = ledger_of (unrequested_exits 1 served) \<and> exits (sv_trace s) = announced_exits 1 served"
proof -
  let ?s0 = "sup_start [Prepared 1, SpawnedChild 1]"
  obtain k where "adds k (announced_exits 1 (take k gs)) (unrequested_exits 1 (take k gs)) ?s0
      (run_state (supervise policy windows macos 1 gs ?s0))" using supervise_adds by blast
  moreover have "starts ?s0 = 0" "exits (sv_trace ?s0) = []" "sv_ledger ?s0 = ledger_of []"
    by (simp_all add: sup_start_def ledger_of_Nil)
  ultimately show ?thesis unfolding adds_def Let_def by (metis add_0 append_Nil)
qed

end
