(* ===== verification/Runtime_Role.thy ===== *)
theory Runtime_Role
  imports Runtime_Supervisor Kipc_Token Virtual_Port
begin

text \<open>
  The authenticated role coordinator (\<open>crates/keld-runtime/src/role.rs\<close>): staged launch admission, the
  child's command, the recovery gate, fresh bootstrap selection, and the lease of one generation with
  the events it sends. The filesystem's answers, the listeners the system binds, the admission
  thread's result and the stream clone are arguments. A stream is a handle number.
\<close>

section \<open>Staged launch admission\<close>

record Metadata =
  md_link :: bool
  md_dir :: bool
  md_file :: bool

type_synonym SymlinkMetadata = "string \<Rightarrow> IoError + Metadata"

definition STAGED_LAUNCH_PHASE :: string where "STAGED_LAUNCH_PHASE = ''staged Bun launch admission''"

definition staged_launch_refusal :: RuntimeError where
  "staged_launch_refusal = Lifecycle STAGED_LAUNCH_PHASE (IoError InvalidData None)"

text \<open>\<open>Path::join\<close> of a relative component.\<close>

definition join_path :: "bool \<Rightarrow> string \<Rightarrow> string \<Rightarrow> string" where
  "join_path windows root name =
     (let sep = (if windows then CHR 0x5C else CHR ''/'') in
      if root = [] \<or> last root = sep then root @ name else root @ [sep] @ name)"

definition not_found :: "IoError + Metadata \<Rightarrow> bool" where
  "not_found m = (case m of Inl e \<Rightarrow> io_kind e = NotFound | Inr _ \<Rightarrow> False)"

definition admit_staged_transport_sidecar ::
  "bool \<Rightarrow> SymlinkMetadata \<Rightarrow> string \<Rightarrow> RuntimeError + string option" where
  "admit_staged_transport_sidecar windows symlink_metadata root =
     (if \<not> list_all (\<lambda>config. not_found (symlink_metadata (join_path windows root config))) [''bunfig.toml'', ''.bunfig.toml'']
      then Inl staged_launch_refusal
      else let directory = join_path windows root ''src'' in
        (case symlink_metadata directory of
           Inl e \<Rightarrow> if io_kind e = NotFound then Inr None else Inl staged_launch_refusal
         | Inr md \<Rightarrow>
             if md_link md \<or> \<not> md_dir md then Inl staged_launch_refusal
             else let sidecar = join_path windows directory ''kipc-transport.ts'' in
               (case symlink_metadata sidecar of
                  Inr sm \<Rightarrow>
                    if md_link sm then Inl staged_launch_refusal
                    else if md_file sm then Inr (Some sidecar)
                    else Inl staged_launch_refusal
                | Inl e \<Rightarrow> if io_kind e = NotFound then Inr None else Inl staged_launch_refusal)))"

text \<open>The path text is valid UTF-8 here; a path that is not is returned as it is.\<close>

definition strip_verbatim_prefix :: "string \<Rightarrow> string" where
  "strip_verbatim_prefix s =
     (let b = CHR 0x5C in
      case strip_prefix ([b, b, CHR ''?'', b] @ ''UNC'' @ [b]) s of
        Some rest \<Rightarrow> [b, b] @ rest
      | None \<Rightarrow> (case strip_prefix [b, b, CHR ''?'', b] s of Some rest \<Rightarrow> rest | None \<Rightarrow> s))"

definition facade_define :: "bool \<Rightarrow> string" where
  "facade_define native_facade =
     ''--define=process.env.KELD_NATIVE_WINDOW_FACADE:'' @ [CHR 0x22, if native_facade then CHR ''1'' else CHR ''0'', CHR 0x22]"

definition staged_bun_launch_args ::
  "bool \<Rightarrow> SymlinkMetadata \<Rightarrow> string \<Rightarrow> bool \<Rightarrow> RuntimeError + string list" where
  "staged_bun_launch_args windows symlink_metadata root native_facade =
     and_then (admit_staged_transport_sidecar windows symlink_metadata root) (\<lambda>sidecar.
       Inr (facade_define native_facade #
         (case sidecar of None \<Rightarrow> [] | Some path \<Rightarrow> [''--preload='' @ strip_verbatim_prefix path])))"

section \<open>The child's command\<close>

record RoleConfig =
  rc_owner :: RoleOwner
  rc_program :: string
  rc_args :: "string list"
  rc_env :: "(string \<times> string) list"
  rc_env_remove :: "string list"
  rc_current_dir :: "string option"
  rc_staged :: "(string \<times> bool) option"
  rc_restart_policy :: RestartPolicy
  rc_admission_timeout :: Duration

definition DEFAULT_ADMISSION_TIMEOUT :: Duration where "DEFAULT_ADMISSION_TIMEOUT = 10000"

definition config_for_owner :: "RoleOwner \<Rightarrow> string \<Rightarrow> RoleConfig" where
  "config_for_owner o' program = \<lparr> rc_owner = o', rc_program = program, rc_args = [], rc_env = [], rc_env_remove = [],
     rc_current_dir = None, rc_staged = None, rc_restart_policy = default_policy,
     rc_admission_timeout = DEFAULT_ADMISSION_TIMEOUT \<rparr>"

text \<open>
  A command: its arguments in order, its directory, and its environment changes in call order, where
  \<open>None\<close> removes the key. The child sees the last change of a key, or what the host has.
\<close>

record ChildCommand =
  cm_program :: string
  cm_args :: "string list"
  cm_dir :: "string option"
  cm_env :: "(string \<times> string option) list"

fun command_env :: "(string \<times> string option) list \<Rightarrow> (string \<rightharpoonup> string) \<Rightarrow> (string \<rightharpoonup> string)" where
  "command_env [] m = m"
| "command_env ((key, change) # rest) m = command_env rest (m(key := change))"

definition BUN_OPTIONS_ENV :: string where "BUN_OPTIONS_ENV = ''BUN_OPTIONS''"

text \<open>The direct command of \<open>RolePreparer::prepare\<close> once the generation is provisioned.\<close>

definition role_command :: "RoleConfig \<Rightarrow> string list option \<Rightarrow> string \<Rightarrow> ChildCommand" where
  "role_command config staged_launch app_link =
     \<lparr> cm_program = rc_program config,
       cm_args = (case staged_launch of None \<Rightarrow> [] | Some args \<Rightarrow> args) @ rc_args config,
       cm_dir = rc_current_dir config,
       cm_env = (case staged_launch of None \<Rightarrow> [] | Some _ \<Rightarrow> [(BUN_OPTIONS_ENV, None)])
         @ map (\<lambda>key. (key, None)) (rc_env_remove config)
         @ map (\<lambda>(key, v). (key, Some v)) (rc_env config)
         @ [(''KELD_APP_LINK'', Some app_link)] \<rparr>"

section \<open>Recovery gate\<close>

definition RECOVERY_PENDING :: "8 word" where "RECOVERY_PENDING = 0"
definition RECOVERY_ARMED :: "8 word" where "RECOVERY_ARMED = 1"
definition RECOVERY_DENIED :: "8 word" where "RECOVERY_DENIED = 2"

definition compare_exchange :: "8 word \<Rightarrow> 8 word \<Rightarrow> 8 word \<Rightarrow> bool \<times> 8 word" where
  "compare_exchange expected new v = (if v = expected then (True, new) else (False, v))"

definition gate_arm :: "8 word \<Rightarrow> bool \<times> 8 word" where
  "gate_arm decision =
     (case compare_exchange RECOVERY_PENDING RECOVERY_ARMED decision of
        (swapped, v) \<Rightarrow> (swapped \<or> v = RECOVERY_ARMED, v))"

definition gate_deny :: "8 word \<Rightarrow> bool \<times> 8 word" where
  "gate_deny decision = (True, RECOVERY_DENIED)"

definition gate_drop :: "8 word \<Rightarrow> 8 word" where
  "gate_drop decision = snd (compare_exchange RECOVERY_PENDING RECOVERY_DENIED decision)"

text \<open>Each pass reads the two stop flags and the decision.\<close>

fun await_recovery_decision :: "(bool \<times> bool \<times> 8 word) list \<Rightarrow> (RuntimeError + bool) option" where
  "await_recovery_decision [] = None"
| "await_recovery_decision ((shutdown, accepted, decision) # ts) =
     (if shutdown \<or> accepted then Some (Inr False)
      else if decision = RECOVERY_ARMED then Some (Inr True)
      else if decision = RECOVERY_DENIED then Some (Inr False)
      else if decision = RECOVERY_PENDING then await_recovery_decision ts
      else Some (Inl (Lifecycle ''primary recovery decision'' (IoError InvalidData None))))"

definition allow_restart :: "(bool \<times> bool \<times> 8 word) list option \<Rightarrow> (RuntimeError + bool) option" where
  "allow_restart recovery = (case recovery of None \<Rightarrow> Some (Inr True) | Some ts \<Rightarrow> await_recovery_decision ts)"

section \<open>Fresh bootstrap\<close>

definition FRESH_BOOTSTRAP_ATTEMPTS :: nat where "FRESH_BOOTSTRAP_ATTEMPTS = 8"

record BootstrapCandidate =
  bc_resource :: nat
  bc_app_link :: string
  bc_endpoint :: string
  bc_token :: SessionToken

fun select_fresh_candidate ::
  "nat \<Rightarrow> string option \<Rightarrow> SessionToken option \<Rightarrow> (nat \<Rightarrow> 'e + BootstrapCandidate) \<Rightarrow> nat
    \<Rightarrow> ('e + BootstrapCandidate option) \<times> nat" where
  "select_fresh_candidate 0 last_endpoint last_token mint minted = (Inr None, minted)"
| "select_fresh_candidate (Suc n) last_endpoint last_token mint minted =
     (case mint minted of
        Inl e \<Rightarrow> (Inl e, Suc minted)
      | Inr candidate \<Rightarrow>
          if last_endpoint \<noteq> Some (bc_endpoint candidate) \<and> last_token \<noteq> Some (bc_token candidate)
          then (Inr (Some candidate), Suc minted)
          else select_fresh_candidate n last_endpoint last_token mint (Suc minted))"

fun role_owner_str :: "RoleOwner \<Rightarrow> string" where
  "role_owner_str Primary = ''primary''"
| "role_owner_str AppBound = ''app-bound''"

definition generation_phase :: "RoleOwner \<Rightarrow> string" where
  "generation_phase o' = role_owner_str o' @ '' role generation''"
definition bootstrap_bind_phase :: "RoleOwner \<Rightarrow> string" where
  "bootstrap_bind_phase o' = role_owner_str o' @ '' bootstrap bind''"
definition bootstrap_admission_phase :: "RoleOwner \<Rightarrow> string" where
  "bootstrap_admission_phase o' = role_owner_str o' @ '' bootstrap admission''"
definition admission_thread_phase :: "RoleOwner \<Rightarrow> string" where
  "admission_thread_phase o' = role_owner_str o' @ '' bootstrap admission thread''"

datatype RoleRevocationCause =
    RoleChildExited | RoleShutdown | RoleLinkFailed | RoleCaptureFailed | RoleAdmissionFailed
  | RoleSpawnFailed | RoleWaitFailed

fun role_cause :: "RevocationCause \<Rightarrow> RoleRevocationCause" where
  "role_cause ChildExited = RoleChildExited"
| "role_cause ShutdownCause = RoleShutdown"
| "role_cause LinkFailed = RoleLinkFailed"
| "role_cause CaptureFailed = RoleCaptureFailed"
| "role_cause AdmissionFailed = RoleAdmissionFailed"
| "role_cause SpawnFailed = RoleSpawnFailed"
| "role_cause WaitFailed = RoleWaitFailed"

datatype RoleEvent =
    RoleProvisioned RoleGeneration u32
  | RoleSpawned RoleGeneration u32 u32
  | LinkBound RoleGeneration u32
  | BootstrapRejected RoleGeneration u32 string
  | RoleRevoked RoleGeneration u32 RoleRevocationCause

record RoleGenerationOwner =
  go_owner :: RoleOwner
  go_next_generation :: u64
  go_last_endpoint :: "string option"
  go_last_token :: "SessionToken option"
  go_minted :: nat

definition generation_owner_new :: "RoleOwner \<Rightarrow> RoleGenerationOwner" where
  "generation_owner_new o' = \<lparr> go_owner = o', go_next_generation = 1, go_last_endpoint = None, go_last_token = None,
     go_minted = 0 \<rparr>"

text \<open>
  \<open>bound i\<close> is the link text of the \<open>i\<close>-th listener the coordinator binds, or why binding failed; the
  handle of a listener is its number.
\<close>

definition mint_bootstrap :: "RoleOwner \<Rightarrow> (nat \<Rightarrow> IoError + string) \<Rightarrow> nat \<Rightarrow> RuntimeError + BootstrapCandidate" where
  "mint_bootstrap o' bound i =
     (case bound i of
        Inl source \<Rightarrow> Inl (Lifecycle (bootstrap_bind_phase o') source)
      | Inr app_link \<Rightarrow>
          (case parse_app_link app_link of
             Inl _ \<Rightarrow> Inl (Lifecycle (bootstrap_bind_phase o') (IoError OtherKind None))
           | Inr (endpoint, token) \<Rightarrow>
               Inr \<lparr> bc_resource = i, bc_app_link = app_link, bc_endpoint = endpoint, bc_token = token \<rparr>))"

definition bind_fresh_bootstrap ::
  "(nat \<Rightarrow> IoError + string) \<Rightarrow> RoleGenerationOwner \<Rightarrow> (RuntimeError + nat \<times> string) \<times> RoleGenerationOwner" where
  "bind_fresh_bootstrap bound g =
     (case select_fresh_candidate FRESH_BOOTSTRAP_ATTEMPTS (go_last_endpoint g) (go_last_token g)
             (mint_bootstrap (go_owner g) bound) (go_minted g) of
        (Inl e, minted) \<Rightarrow> (Inl e, g\<lparr> go_minted := minted \<rparr>)
      | (Inr None, minted) \<Rightarrow>
          (Inl (Lifecycle (bootstrap_bind_phase (go_owner g)) (IoError OtherKind None)), g\<lparr> go_minted := minted \<rparr>)
      | (Inr (Some c), minted) \<Rightarrow>
          (Inr (bc_resource c, bc_app_link c),
           g\<lparr> go_minted := minted, go_last_endpoint := Some (bc_endpoint c), go_last_token := Some (bc_token c) \<rparr>))"

section \<open>The lease of a generation\<close>

record RoleGenerationLease =
  ls_owner :: RoleOwner
  ls_generation :: RoleGeneration
  ls_attempt :: u32
  ls_listener :: "nat option"
  ls_admission_tx :: bool
  ls_admission_thread :: bool
  ls_admission_done :: bool
  ls_link :: "nat option"
  ls_hands_over :: bool

definition provision ::
  "(nat \<Rightarrow> IoError + string) \<Rightarrow> bool \<Rightarrow> u32 \<Rightarrow> RoleGenerationOwner
    \<Rightarrow> (RuntimeError + string \<times> RoleGenerationLease) \<times> RoleGenerationOwner \<times> RoleEvent list" where
  "provision bound hands_over attempt g =
     (case checked_add (go_next_generation g) 1 of
        None \<Rightarrow> (Inl (Lifecycle (generation_phase (go_owner g)) (IoError OtherKind None)), g, [])
      | Some next \<Rightarrow>
          (case bind_fresh_bootstrap bound (g\<lparr> go_next_generation := next \<rparr>) of
             (Inl e, g1) \<Rightarrow> (Inl e, g1, [])
           | (Inr (listener, app_link), g1) \<Rightarrow>
               (Inr (app_link, \<lparr> ls_owner = go_owner g, ls_generation = go_next_generation g, ls_attempt = attempt,
                  ls_listener = Some listener, ls_admission_tx = True, ls_admission_thread = False,
                  ls_admission_done = False, ls_link = None, ls_hands_over = hands_over \<rparr>),
                g1, [RoleProvisioned (go_next_generation g) attempt])))"

definition admission_error :: "RoleGenerationLease \<Rightarrow> ErrorKind \<Rightarrow> RuntimeError" where
  "admission_error l kind = Lifecycle (bootstrap_admission_phase (ls_owner l)) (IoError kind None)"

definition lease_child_spawned ::
  "u32 \<Rightarrow> u32 \<Rightarrow> IoError option \<Rightarrow> RoleGenerationLease
    \<Rightarrow> RuntimeError option \<times> RoleGenerationLease \<times> RoleEvent list" where
  "lease_child_spawned pid attempt thread_error l =
     (case ls_listener l of
        None \<Rightarrow> (Some (admission_error l OtherKind), l, [])
      | Some _ \<Rightarrow>
          (let l1 = l\<lparr> ls_listener := None \<rparr> in
           if \<not> ls_admission_tx l1 then (Some (admission_error l OtherKind), l1, [])
           else let l2 = l1\<lparr> ls_admission_tx := False \<rparr> in
             (case thread_error of
                Some source \<Rightarrow> (Some (Lifecycle (admission_thread_phase (ls_owner l)) source), l2, [])
              | None \<Rightarrow>
                  (None, l2\<lparr> ls_admission_thread := True \<rparr>, [RoleSpawned (ls_generation l) pid attempt]))))"

text \<open>What the admission channel holds when it is polled.\<close>

datatype AdmissionPoll =
    AdmBound nat
  | AdmCancelled
  | AdmDeadlineElapsed
  | AdmFailed RuntimeError
  | AdmEmpty
  | AdmDisconnected

type_synonym BoundRoleGeneration = "RolePrincipal \<times> u32 \<times> nat"

text \<open>
  \<open>clone\<close> is what cloning the retained stream answers; \<open>host_gone\<close> says that the receiver of bound
  generations was dropped.
\<close>

definition poll_admission ::
  "AdmissionPoll \<Rightarrow> IoError + nat \<Rightarrow> bool \<Rightarrow> RoleGenerationLease
    \<Rightarrow> RuntimeError option \<times> RoleGenerationLease \<times> RoleEvent list \<times> BoundRoleGeneration list" where
  "poll_admission answer clone host_gone l =
     (if ls_admission_done l then (None, l, [], [])
      else case answer of
        AdmBound stream \<Rightarrow>
          (let l1 = l\<lparr> ls_link := Some stream, ls_admission_done := True \<rparr>;
               bound_event = [LinkBound (ls_generation l) (ls_attempt l)] in
           if \<not> ls_hands_over l1 then (None, l1, bound_event, [])
           else case clone of
             Inl source \<Rightarrow> (Some (Lifecycle (bootstrap_admission_phase (ls_owner l)) source), l1, [], [])
           | Inr copy \<Rightarrow>
               if host_gone then (Some (admission_error l OtherKind), l1, [], [])
               else (None, l1, bound_event,
                 [(\<lparr> rp_owner = ls_owner l, rp_generation = ls_generation l \<rparr>, ls_attempt l, copy)]))
      | AdmCancelled \<Rightarrow> (None, l\<lparr> ls_admission_done := True \<rparr>, [], [])
      | AdmDeadlineElapsed \<Rightarrow> (Some (admission_error l TimedOut), l\<lparr> ls_admission_done := True \<rparr>, [], [])
      | AdmFailed e \<Rightarrow> (Some e, l\<lparr> ls_admission_done := True \<rparr>, [], [])
      | AdmEmpty \<Rightarrow> (None, l, [], [])
      | AdmDisconnected \<Rightarrow> (Some (admission_error l OtherKind), l\<lparr> ls_admission_done := True \<rparr>, [], []))"

record PollAnswer =
  pa_channel :: AdmissionPoll
  pa_clone :: "IoError + nat"
  pa_host_gone :: bool

definition lease_poll ::
  "PollAnswer \<Rightarrow> RoleGenerationLease
    \<Rightarrow> RuntimeError option \<times> RoleGenerationLease \<times> RoleEvent list \<times> BoundRoleGeneration list" where
  "lease_poll a l = poll_admission (pa_channel a) (pa_clone a) (pa_host_gone a) l"

text \<open>
  \<open>revoke\<close>: cancel, poll, join the admission thread, poll again unless an error is already held, shut
  the retained stream down, and announce the revocation. The result names the stream shut down.
\<close>

definition lease_revoke ::
  "RevocationCause \<Rightarrow> PollAnswer \<Rightarrow> bool \<Rightarrow> PollAnswer \<Rightarrow> RoleGenerationLease
    \<Rightarrow> RuntimeError option \<times> nat option \<times> RoleGenerationLease \<times> RoleEvent list \<times> BoundRoleGeneration list" where
  "lease_revoke cause first_answer thread_panicked second_answer l =
     (case lease_poll first_answer l of (e1, l1, evs1, hand1) \<Rightarrow>
        let e2 = (if ls_admission_thread l1 \<and> thread_panicked \<and> e1 = None
                  then Some (Lifecycle (admission_thread_phase (ls_owner l1)) (IoError OtherKind None)) else e1);
            l2 = l1\<lparr> ls_admission_thread := False \<rparr> in
        (case (if e2 = None then lease_poll second_answer l2 else (e2, l2, [], [])) of (e3, l3, evs3, hand3) \<Rightarrow>
           (e3, ls_link l3, l3\<lparr> ls_link := None \<rparr>,
            evs1 @ evs3 @ [RoleRevoked (ls_generation l3) (ls_attempt l3) (role_cause cause)], hand1 @ hand3)))"

section \<open>Rejected peers\<close>

fun rejection_shift :: "BootstrapRejection \<Rightarrow> nat" where
  "rejection_shift RejIo = 0"
| "rejection_shift RejHeader = 1"
| "rejection_shift RejPayloadTooLarge = 2"
| "rejection_shift RejProtocol = 3"
| "rejection_shift RejTimeout = 4"
| "rejection_shift RejHelloAuth = 5"

definition rejection_bit :: "BootstrapRejection \<Rightarrow> 8 word" where
  "rejection_bit rejection = push_bit (rejection_shift rejection) 1"

unbundle bit_operations_syntax

definition rejected ::
  "RoleGeneration \<Rightarrow> u32 \<Rightarrow> BootstrapRejection \<Rightarrow> 8 word \<times> RoleEvent list \<Rightarrow> 8 word \<times> RoleEvent list" where
  "rejected generation attempt rejection = (\<lambda>(seen, events).
     let bit' = rejection_bit rejection in
     if seen AND bit' \<noteq> 0 then (seen OR bit', events)
     else (seen OR bit', events @ [BootstrapRejected generation attempt (rejection_code rejection)]))"

text \<open>\<open>RolePreparer::prepare\<close> without a strict profile: admission first, then provisioning, then the command.\<close>

definition role_prepare ::
  "bool \<Rightarrow> SymlinkMetadata \<Rightarrow> (nat \<Rightarrow> IoError + string) \<Rightarrow> bool \<Rightarrow> RoleConfig \<Rightarrow> u32 \<Rightarrow> RoleGenerationOwner
    \<Rightarrow> (RuntimeError + ChildCommand \<times> RoleGenerationLease) \<times> RoleGenerationOwner \<times> RoleEvent list" where
  "role_prepare windows symlink_metadata bound hands_over config attempt g =
     (case (case rc_staged config of
              None \<Rightarrow> Inr None
            | Some (root, native_facade) \<Rightarrow>
                and_then (staged_bun_launch_args windows symlink_metadata root native_facade) (\<lambda>args. Inr (Some args))) of
        Inl e \<Rightarrow> (Inl e, g, [])
      | Inr staged_launch \<Rightarrow>
          (case provision bound hands_over attempt g of
             (Inl e, g1, evs) \<Rightarrow> (Inl e, g1, evs)
           | (Inr (app_link, lease), g1, evs) \<Rightarrow> (Inr (role_command config staged_launch app_link, lease), g1, evs)))"

section \<open>Launch\<close>

lemma command_env_append: "command_env (as @ bs) m = command_env bs (command_env as m)"
  by (induction as arbitrary: m) auto

text \<open>
  Staged launch admission is exact: a preload is granted only for a stage with no Bun runtime
  config whose \<open>src\<close> is a real directory and whose transport is a regular file there, neither of
  them a link; it is absent only when one of the two is not found; everything else is the typed
  refusal, before a generation is provisioned.
\<close>

theorem staged_admission_exact:
  "let src = join_path windows root ''src''; sidecar = join_path windows src ''kipc-transport.ts'';
       clean = not_found (meta (join_path windows root ''bunfig.toml'')) \<and> not_found (meta (join_path windows root ''.bunfig.toml''));
       real_dir = (case meta src of Inr md \<Rightarrow> md_dir md \<and> \<not> md_link md | Inl _ \<Rightarrow> False);
       real_file = (case meta sidecar of Inr sm \<Rightarrow> md_file sm \<and> \<not> md_link sm | Inl _ \<Rightarrow> False) in
   case admit_staged_transport_sidecar windows meta root of
     Inr (Some path) \<Rightarrow> clean \<and> real_dir \<and> real_file \<and> path = sidecar
   | Inr None \<Rightarrow> clean \<and> (not_found (meta src) \<or> real_dir \<and> not_found (meta sidecar))
   | Inl e \<Rightarrow> runtime_error_code e = ''KELD-RUNTIME-003''
       \<and> \<not> (clean \<and> (not_found (meta src) \<or> real_dir \<and> (real_file \<or> not_found (meta sidecar))))
       \<and> fst (role_prepare windows meta bound hands_over (config\<lparr> rc_staged := Some (root, facade) \<rparr>) attempt g) = Inl e
       \<and> snd (role_prepare windows meta bound hands_over (config\<lparr> rc_staged := Some (root, facade) \<rparr>) attempt g) = (g, [])"
  by (auto simp: Let_def admit_staged_transport_sidecar_def role_prepare_def staged_bun_launch_args_def
      staged_launch_refusal_def not_found_def split: sum.split)

text \<open>
  The link a child finds in its environment is the one minted for its own generation, whatever
  the role's configuration or the host's environment say, and a staged launch puts its own arguments
  first and never passes the host's \<open>BUN_OPTIONS\<close> on.
\<close>

theorem child_gets_own_link:
  "case role_prepare windows meta bound hands_over config attempt g of
     (Inl e, _) \<Rightarrow> True
   | (Inr (command, lease), g', evs) \<Rightarrow>
       (\<exists>link. fst (provision bound hands_over attempt g) = Inr (link, lease)
          \<and> command_env (cm_env command) host ''KELD_APP_LINK'' = Some link)
       \<and> evs = [RoleProvisioned (ls_generation lease) attempt]
       \<and> (case rc_staged config of
            None \<Rightarrow> cm_args command = rc_args config
          | Some (root, facade) \<Rightarrow>
              (\<exists>staged. staged_bun_launch_args windows meta root facade = Inr staged \<and> cm_args command = staged @ rc_args config)
              \<and> (if BUN_OPTIONS_ENV \<in> fst ` set (rc_env config) then True
                 else command_env (cm_env command) host BUN_OPTIONS_ENV = None))"
proof -
  have removed: "command_env (map (\<lambda>key. (key, None)) keys) m key = (if key \<in> set keys then None else m key)" for keys m and key :: string
    by (induction keys arbitrary: m) auto
  have untouched: "key \<notin> fst ` set kvs \<Longrightarrow> command_env (map (\<lambda>(key, v). (key, Some v)) kvs) m key = m key" for kvs m and key :: string
    by (induction kvs arbitrary: m) auto
  show ?thesis
    by (auto simp: role_prepare_def role_command_def provision_def command_env_append removed untouched BUN_OPTIONS_ENV_def and_then_eq_Inr
        split: option.splits sum.splits prod.splits)
qed

section \<open>Fresh generations\<close>

lemma select_fresh_differs:
  "select_fresh_candidate n le lt mint minted = (Inr (Some c), minted') \<Longrightarrow>
   le \<noteq> Some (bc_endpoint c) \<and> lt \<noteq> Some (bc_token c) \<and> (\<exists>i. mint i = Inr c)"
  by (induction n arbitrary: minted) (auto split: sum.splits if_splits)

lemma mint_bootstrap_parses:
  "mint_bootstrap o' bound i = Inr c \<Longrightarrow> parse_app_link (bc_app_link c) = Inr (bc_endpoint c, bc_token c)"
  by (auto simp: mint_bootstrap_def split: sum.splits)

lemma provision_grants:
  assumes "provision bound h attempt g = (Inr (link, lease), g', evs)"
  shows "ls_generation lease = go_next_generation g" "ls_owner lease = go_owner g" "ls_attempt lease = attempt"
    "unat (go_next_generation g') = Suc (unat (go_next_generation g))" "go_owner g' = go_owner g"
    "\<exists>e t. parse_app_link link = Inr (e, t) \<and> go_last_endpoint g \<noteq> Some e \<and> go_last_token g \<noteq> Some t
       \<and> go_last_endpoint g' = Some e \<and> go_last_token g' = Some t"
proof -
  from assms obtain nxt where "checked_add (go_next_generation g) 1 = Some nxt" by (auto simp: provision_def split: option.splits)
  note nxt = this checked_add_Some [OF this]
  from assms nxt(1) obtain c minted where c: "select_fresh_candidate FRESH_BOOTSTRAP_ATTEMPTS (go_last_endpoint g) (go_last_token g)
      (mint_bootstrap (go_owner g) bound) (go_minted g) = (Inr (Some c), minted)" "link = bc_app_link c"
      "g' = g\<lparr> go_next_generation := nxt, go_minted := minted, go_last_endpoint := Some (bc_endpoint c), go_last_token := Some (bc_token c) \<rparr>"
      "ls_generation lease = go_next_generation g" "ls_owner lease = go_owner g" "ls_attempt lease = attempt"
    by (auto simp: provision_def bind_fresh_bootstrap_def split: sum.splits option.splits prod.splits)
  note fresh = select_fresh_differs [OF c(1)]
  then have "parse_app_link (bc_app_link c) = Inr (bc_endpoint c, bc_token c)" using mint_bootstrap_parses by blast
  with fresh c nxt show "ls_generation lease = go_next_generation g" "ls_owner lease = go_owner g" "ls_attempt lease = attempt"
    "unat (go_next_generation g') = Suc (unat (go_next_generation g))" "go_owner g' = go_owner g"
    "\<exists>e t. parse_app_link link = Inr (e, t) \<and> go_last_endpoint g \<noteq> Some e \<and> go_last_token g \<noteq> Some t
       \<and> go_last_endpoint g' = Some e \<and> go_last_token g' = Some t" by auto
qed

lemma provision_fails:
  assumes "provision bound h attempt g = (Inl e, g', evs)"
  shows "unat (go_next_generation g) \<le> unat (go_next_generation g')" "go_last_endpoint g' = go_last_endpoint g"
    "go_last_token g' = go_last_token g" "go_owner g' = go_owner g"
proof -
  have "unat (go_next_generation g) \<le> unat (go_next_generation g') \<and> go_last_endpoint g' = go_last_endpoint g
    \<and> go_last_token g' = go_last_token g \<and> go_owner g' = go_owner g"
    using assms by (auto simp: provision_def bind_fresh_bootstrap_def split: sum.splits option.splits prod.splits dest: checked_add_Some)
  then show "unat (go_next_generation g) \<le> unat (go_next_generation g')" "go_last_endpoint g' = go_last_endpoint g"
    "go_last_token g' = go_last_token g" "go_owner g' = go_owner g" by simp_all
qed

text \<open>The grants of successive preparations of one role.\<close>

fun provisions ::
  "(nat \<Rightarrow> IoError + string) \<Rightarrow> bool \<Rightarrow> u32 list \<Rightarrow> RoleGenerationOwner \<Rightarrow> (string \<times> RoleGenerationLease) list" where
  "provisions bound h [] g = []"
| "provisions bound h (attempt # attempts) g =
     (case provision bound h attempt g of
        (Inl _, g1, _) \<Rightarrow> provisions bound h attempts g1
      | (Inr grant, g1, _) \<Rightarrow> grant # provisions bound h attempts g1)"

definition fresh_link :: "string option \<Rightarrow> SessionToken option \<Rightarrow> string \<Rightarrow> bool" where
  "fresh_link le lt link = (\<exists>e t. parse_app_link link = Inr (e, t) \<and> le \<noteq> Some e \<and> lt \<noteq> Some t)"

definition links_differ :: "string \<Rightarrow> string \<Rightarrow> bool" where
  "links_differ link link' =
     (\<exists>e t e' t'. parse_app_link link = Inr (e, t) \<and> parse_app_link link' = Inr (e', t') \<and> e \<noteq> e' \<and> t \<noteq> t')"

lemma provisions_fresh:
  "sorted_wrt (<) (map (unat \<circ> ls_generation \<circ> snd) (provisions bound h attempts g))
   \<and> (\<forall>grant \<in> set (provisions bound h attempts g).
        unat (go_next_generation g) \<le> unat (ls_generation (snd grant)) \<and> ls_owner (snd grant) = go_owner g)
   \<and> successively links_differ (map fst (provisions bound h attempts g))
   \<and> (case provisions bound h attempts g of [] \<Rightarrow> True | grant # _ \<Rightarrow> fresh_link (go_last_endpoint g) (go_last_token g) (fst grant))"
proof (induction attempts arbitrary: g)
  case (Cons attempt attempts)
  obtain r g1 evs where p: "provision bound h attempt g = (r, g1, evs)" by (cases "provision bound h attempt g") auto
  note IH = Cons.IH [of g1]
  show ?case
  proof (cases r)
    case (Inl e)
    note kept = provision_fails [OF p [unfolded Inl]]
    from p Inl have "provisions bound h (attempt # attempts) g = provisions bound h attempts g1" by simp
    with IH kept show ?thesis by (auto intro: le_trans split: list.splits)
  next
    case (Inr grant)
    obtain link lease where grant: "grant = (link, lease)" by (cases grant)
    note granted = provision_grants [OF p [unfolded Inr grant]]
    then obtain e t where et: "parse_app_link link = Inr (e, t)" "go_last_endpoint g \<noteq> Some e" "go_last_token g \<noteq> Some t"
      "go_last_endpoint g1 = Some e" "go_last_token g1 = Some t" by blast
    have "fresh_link (go_last_endpoint g) (go_last_token g) link" using et by (auto simp: fresh_link_def)
    moreover have "successively links_differ (link # map fst (provisions bound h attempts g1))"
      using IH et by (cases "provisions bound h attempts g1") (auto simp: fresh_link_def links_differ_def)
    moreover have "unat (ls_generation lease) < unat (ls_generation (snd later)) \<and> ls_owner (snd later) = go_owner g"
      if "later \<in> set (provisions bound h attempts g1)" for later
      using IH that granted by fastforce
    ultimately show ?thesis using IH p Inr grant granted by auto
  qed
qed simp

text \<open>
  C26. Every generation of a role is new: over any sequence of preparations, whatever listeners the
  system binds, the generations granted are strictly increasing from one, so no principal is ever
  granted twice, and each link differs from the one granted before it in both endpoint and token.
\<close>

theorem fresh_generations:
  "let grants = provisions bound h attempts (generation_owner_new o') in
   sorted_wrt (<) (map (\<lambda>(link, lease). unat (ls_generation lease)) grants)
   \<and> list_all (\<lambda>(link, lease). 1 \<le> unat (ls_generation lease) \<and> ls_owner lease = o') grants
   \<and> successively (\<lambda>(link, _) (link', _). links_differ link link') grants"
proof -
  note fresh = provisions_fresh [of bound h attempts "generation_owner_new o'"]
  have gens: "(\<lambda>(link :: string, lease). unat (ls_generation lease)) = unat \<circ> ls_generation \<circ> snd" by auto
  have "successively (\<lambda>(link, _) (link', _). links_differ link link') gs = successively links_differ (map fst gs)"
    for gs :: "(string \<times> RoleGenerationLease) list"
    by (simp add: successively_map case_prod_beta)
  with fresh show ?thesis unfolding Let_def gens by (auto simp: list_all_iff generation_owner_new_def)
qed

section \<open>Life of a lease\<close>

fun lease_polls ::
  "PollAnswer list \<Rightarrow> RoleGenerationLease
    \<Rightarrow> RuntimeError option \<times> RoleGenerationLease \<times> RoleEvent list \<times> BoundRoleGeneration list" where
  "lease_polls [] l = (None, l, [], [])"
| "lease_polls (a # as) l =
     (case lease_poll a l of
        (Some e, l1, evs, hs) \<Rightarrow> (Some e, l1, evs, hs)
      | (None, l1, evs, hs) \<Rightarrow>
          (case lease_polls as l1 of (e, l2, evs', hs') \<Rightarrow> (e, l2, evs @ evs', hs @ hs')))"

text \<open>
  As the supervisor drives it: the spawn is announced, the lease is polled until the child ends or a
  poll fails, and it is revoked once.
\<close>

definition lease_life ::
  "u32 \<Rightarrow> u32 \<Rightarrow> IoError option \<Rightarrow> PollAnswer list \<Rightarrow> RevocationCause \<Rightarrow> PollAnswer \<Rightarrow> bool \<Rightarrow> PollAnswer \<Rightarrow> RoleGenerationLease
    \<Rightarrow> RoleGenerationLease \<times> nat option \<times> RoleEvent list \<times> BoundRoleGeneration list" where
  "lease_life pid attempt thread_error polls cause a1 panicked a2 l =
     (case lease_child_spawned pid attempt thread_error l of (e, l1, evs1) \<Rightarrow>
        case (if e = None then lease_polls polls l1 else (e, l1, [], [])) of (_, l2, evs2, hs2) \<Rightarrow>
          case lease_revoke cause a1 panicked a2 l2 of (_, closed, l3, evs3, hs3) \<Rightarrow>
            (l3, closed, evs1 @ evs2 @ evs3, hs2 @ hs3))"

text \<open>
  One poll: nothing once admission is decided; otherwise at most one bind, announced and handed over
  together, after which admission is decided.
\<close>

definition poll_effect :: "RoleGenerationLease \<Rightarrow> RoleGenerationLease \<Rightarrow> RoleEvent list \<Rightarrow> BoundRoleGeneration list \<Rightarrow> bool" where
  "poll_effect l l' evs hs \<longleftrightarrow>
     ls_generation l' = ls_generation l \<and> ls_attempt l' = ls_attempt l \<and> ls_owner l' = ls_owner l
     \<and> ls_hands_over l' = ls_hands_over l \<and> (ls_admission_done l \<longrightarrow> ls_admission_done l' \<and> ls_link l' = ls_link l \<and> evs = [] \<and> hs = [])
     \<and> evs \<in> {[], [LinkBound (ls_generation l) (ls_attempt l)]}
     \<and> (evs \<noteq> [] \<longrightarrow> ls_admission_done l' \<and> ls_link l' \<noteq> None)
     \<and> (if evs = [] \<or> \<not> ls_hands_over l then hs = []
        else \<exists>copy. hs = [(\<lparr> rp_owner = ls_owner l, rp_generation = ls_generation l \<rparr>, ls_attempt l, copy)])"

lemma lease_poll_effect: "lease_poll a l = (e, l', evs, hs) \<Longrightarrow> poll_effect l l' evs hs"
  by (auto simp: lease_poll_def poll_admission_def poll_effect_def Let_def split: if_splits AdmissionPoll.splits sum.splits)

lemma poll_effect_refl: "poll_effect l l [] []"
  by (simp add: poll_effect_def)

lemma poll_effect_thread [simp]:
  "poll_effect (l\<lparr> ls_admission_thread := b \<rparr>) l' evs hs = poll_effect l l' evs hs"
  "poll_effect l (l'\<lparr> ls_admission_thread := b \<rparr>) evs hs = poll_effect l l' evs hs"
  by (simp_all add: poll_effect_def)

lemma poll_effect_trans:
  "poll_effect l l1 evs hs \<Longrightarrow> poll_effect l1 l2 evs' hs' \<Longrightarrow> poll_effect l l2 (evs @ evs') (hs @ hs')"
  unfolding poll_effect_def by (cases "evs = []") auto

lemma lease_polls_effect: "lease_polls as l = (e, l', evs, hs) \<Longrightarrow> poll_effect l l' evs hs"
proof (induction as arbitrary: l e l' evs hs)
  case (Cons a as)
  obtain e1 l1 evs1 hs1 where p: "lease_poll a l = (e1, l1, evs1, hs1)" by (cases "lease_poll a l")
  obtain e2 l2 evs2 hs2 where q: "lease_polls as l1 = (e2, l2, evs2, hs2)" by (cases "lease_polls as l1")
  from Cons.prems p q poll_effect_trans [OF lease_poll_effect [OF p] Cons.IH [OF q]] lease_poll_effect [OF p]
  show ?case by (cases e1) auto
qed (simp add: poll_effect_refl)

lemma lease_revoke_effect:
  assumes "lease_revoke cause a1 panicked a2 l = (e, closed, l', evs, hs)"
  shows "\<exists>l3 evs0. poll_effect l l3 evs0 hs \<and> closed = ls_link l3 \<and> l' = l3\<lparr> ls_link := None \<rparr>
    \<and> evs = evs0 @ [RoleRevoked (ls_generation l) (ls_attempt l) (role_cause cause)]"
proof -
  obtain e1 l1 evs1 hs1 where p: "lease_poll a1 l = (e1, l1, evs1, hs1)" by (cases "lease_poll a1 l")
  define l2 where "l2 = l1\<lparr> ls_admission_thread := False \<rparr>"
  obtain e3 l3 evs3 hs3 where q: "lease_poll a2 l2 = (e3, l3, evs3, hs3)" by (cases "lease_poll a2 l2")
  have first: "poll_effect l l2 evs1 hs1" using lease_poll_effect [OF p] by (simp add: l2_def)
  have both: "poll_effect l l3 (evs1 @ evs3) (hs1 @ hs3)" by (rule poll_effect_trans [OF first lease_poll_effect [OF q]])
  consider "closed = ls_link l3" "l' = l3\<lparr> ls_link := None \<rparr>" "hs = hs1 @ hs3"
      "evs = evs1 @ evs3 @ [RoleRevoked (ls_generation l3) (ls_attempt l3) (role_cause cause)]"
    | "closed = ls_link l2" "l' = l2\<lparr> ls_link := None \<rparr>" "hs = hs1"
      "evs = evs1 @ [RoleRevoked (ls_generation l2) (ls_attempt l2) (role_cause cause)]"
    using assms p q by (auto simp: lease_revoke_def Let_def l2_def split: if_splits)
  then show ?thesis
  proof cases
    case 1
    with both show ?thesis by (intro exI [of _ l3] exI [of _ "evs1 @ evs3"]) (simp add: poll_effect_def)
  next
    case 2
    with first show ?thesis by (intro exI [of _ l2] exI [of _ evs1]) (simp add: poll_effect_def)
  qed
qed

text \<open>
  A generation's public life is well formed: whatever the admission thread, the stream clone and
  the host answer, a lease sends at most one spawn, then at most one bind, then exactly one
  revocation, last, all with its own generation and attempt; the authenticated stream is handed over
  at most once, only when the bind is announced and only under the lease's own principal; and after
  revocation the lease holds no stream.
\<close>

theorem lease_life_events:
  "case lease_life pid attempt thread_error polls cause a1 panicked a2 l of (l', closed, evs, hands) \<Rightarrow>
     (\<exists>spawned bound.
        evs = spawned @ bound @ [RoleRevoked (ls_generation l) (ls_attempt l) (role_cause cause)]
        \<and> spawned \<in> {[], [RoleSpawned (ls_generation l) pid attempt]}
        \<and> bound \<in> {[], [LinkBound (ls_generation l) (ls_attempt l)]}
        \<and> (if bound \<noteq> [] \<and> ls_hands_over l
           then \<exists>copy. hands = [(\<lparr> rp_owner = ls_owner l, rp_generation = ls_generation l \<rparr>, ls_attempt l, copy)]
           else hands = [])
        \<and> (if bound = [] then True else closed \<noteq> None))
     \<and> ls_link l' = None"
proof -
  obtain e l1 evs1 where s: "lease_child_spawned pid attempt thread_error l = (e, l1, evs1)"
    by (cases "lease_child_spawned pid attempt thread_error l")
  have spawned: "evs1 \<in> {[], [RoleSpawned (ls_generation l) pid attempt]}" "ls_generation l1 = ls_generation l"
    "ls_attempt l1 = ls_attempt l" "ls_owner l1 = ls_owner l" "ls_hands_over l1 = ls_hands_over l"
    using s by (auto simp: lease_child_spawned_def Let_def split: option.splits if_splits)
  obtain e2 l2 evs2 hs2 where p: "(if e = None then lease_polls polls l1 else (e, l1, [], [])) = (e2, l2, evs2, hs2)"
    by (metis prod_cases4)
  then have polled: "poll_effect l1 l2 evs2 hs2" by (auto simp: lease_polls_effect poll_effect_refl split: if_splits)
  obtain e3 closed l3 evs3 hs3 where v: "lease_revoke cause a1 panicked a2 l2 = (e3, closed, l3, evs3, hs3)"
    by (metis prod_cases5)
  from lease_revoke_effect [OF v] obtain lr evr where revoked: "poll_effect l2 lr evr hs3" "closed = ls_link lr"
    "l3 = lr\<lparr> ls_link := None \<rparr>" "evs3 = evr @ [RoleRevoked (ls_generation l2) (ls_attempt l2) (role_cause cause)]" by blast
  have life: "lease_life pid attempt thread_error polls cause a1 panicked a2 l = (l3, closed, evs1 @ evs2 @ evs3, hs2 @ hs3)"
    using s p v by (simp add: lease_life_def)
  note total_effect = poll_effect_trans [OF polled revoked(1)]
  have "ls_generation l2 = ls_generation l" "ls_attempt l2 = ls_attempt l"
    using polled spawned(2,3) by (simp_all add: poll_effect_def)
  then have evs: "evs1 @ evs2 @ evs3 = evs1 @ (evs2 @ evr) @ [RoleRevoked (ls_generation l) (ls_attempt l) (role_cause cause)]"
    using revoked(4) by simp
  have link: "ls_link l3 = None" using revoked(3) by simp
  have bound: "evs2 @ evr \<in> {[], [LinkBound (ls_generation l) (ls_attempt l)]}"
      "if evs2 @ evr = [] then True else closed \<noteq> None"
      "if evs2 @ evr \<noteq> [] \<and> ls_hands_over l
        then \<exists>copy. hs2 @ hs3 = [(\<lparr> rp_owner = ls_owner l, rp_generation = ls_generation l \<rparr>, ls_attempt l, copy)]
        else hs2 @ hs3 = []"
    using total_effect spawned(2-) revoked(2) by (simp_all only: poll_effect_def) (simp_all split: if_splits)
  show ?thesis unfolding life prod.case using evs spawned(1) bound link by blast
qed

section \<open>Recovery decisions\<close>

datatype GateOp = ArmOp | DenyOp | DropOp

fun gate_step :: "GateOp \<Rightarrow> 8 word \<Rightarrow> 8 word" where
  "gate_step ArmOp d = snd (gate_arm d)"
| "gate_step DenyOp d = snd (gate_deny d)"
| "gate_step DropOp d = gate_drop d"

lemmas recovery_values = RECOVERY_PENDING_def RECOVERY_ARMED_def RECOVERY_DENIED_def

lemma gate_decided:
  "fold gate_step ops RECOVERY_DENIED = RECOVERY_DENIED"
  "fold gate_step ops RECOVERY_ARMED = (if DenyOp \<in> set ops then RECOVERY_DENIED else RECOVERY_ARMED)"
proof -
  have "gate_step op RECOVERY_DENIED = RECOVERY_DENIED"
    "gate_step op RECOVERY_ARMED = (if op = DenyOp then RECOVERY_DENIED else RECOVERY_ARMED)" for op
    by (cases op; simp add: gate_arm_def gate_deny_def gate_drop_def compare_exchange_def recovery_values)+
  note step = this
  show denied: "fold gate_step ops RECOVERY_DENIED = RECOVERY_DENIED" for ops by (induction ops) (simp_all add: step)
  show "fold gate_step ops RECOVERY_ARMED = (if DenyOp \<in> set ops then RECOVERY_DENIED else RECOVERY_ARMED)"
    by (induction ops) (simp_all add: step denied)
qed

text \<open>
  The recovery decision is a one-way latch: after any sequence of arming, denying and dropping
  the gate, recovery is denied when it was ever denied or the gate was dropped before it was armed,
  armed when it was armed first and never denied, and pending only when nothing happened; arming
  reports truthfully, and a crash successor is allowed only on an armed decision with no stop flag up.
\<close>

theorem recovery_gate_exact:
  "let d = fold gate_step ops RECOVERY_PENDING in
   d = (if DenyOp \<in> set ops then RECOVERY_DENIED
        else case ops of [] \<Rightarrow> RECOVERY_PENDING | ArmOp # _ \<Rightarrow> RECOVERY_ARMED | _ \<Rightarrow> RECOVERY_DENIED)
   \<and> fst (gate_arm d) = (snd (gate_arm d) = RECOVERY_ARMED)
   \<and> (case await_recovery_decision ((shutdown, accepted, d) # later) of
        Some (Inr True) \<Rightarrow> \<not> shutdown \<and> \<not> accepted \<and> (d = RECOVERY_ARMED \<or> d = RECOVERY_PENDING \<and> await_recovery_decision later = Some (Inr True))
      | Some (Inr False) \<Rightarrow> shutdown \<or> accepted \<or> d = RECOVERY_DENIED \<or> d = RECOVERY_PENDING \<and> await_recovery_decision later = Some (Inr False)
      | r \<Rightarrow> d = RECOVERY_PENDING \<and> r = await_recovery_decision later)"
proof -
  let ?d = "fold gate_step ops RECOVERY_PENDING"
  have d: "?d = (if DenyOp \<in> set ops then RECOVERY_DENIED
      else case ops of [] \<Rightarrow> RECOVERY_PENDING | ArmOp # _ \<Rightarrow> RECOVERY_ARMED | _ \<Rightarrow> RECOVERY_DENIED)"
  proof (cases ops)
    case (Cons op rest)
    have "gate_step ArmOp RECOVERY_PENDING = RECOVERY_ARMED" "gate_step DenyOp RECOVERY_PENDING = RECOVERY_DENIED"
      "gate_step DropOp RECOVERY_PENDING = RECOVERY_DENIED"
      by (simp_all add: gate_arm_def gate_deny_def gate_drop_def compare_exchange_def)
    with Cons show ?thesis by (cases op) (simp_all add: gate_decided del: gate_step.simps)
  qed simp
  then have "?d \<in> {RECOVERY_PENDING, RECOVERY_ARMED, RECOVERY_DENIED}"
    by (auto split: list.split GateOp.split)
  then have "fst (gate_arm ?d) = (snd (gate_arm ?d) = RECOVERY_ARMED)"
    by (auto simp: gate_arm_def compare_exchange_def recovery_values)
  moreover from \<open>?d \<in> _\<close> have "case await_recovery_decision ((shutdown, accepted, ?d) # later) of
        Some (Inr True) \<Rightarrow> \<not> shutdown \<and> \<not> accepted \<and> (?d = RECOVERY_ARMED \<or> ?d = RECOVERY_PENDING \<and> await_recovery_decision later = Some (Inr True))
      | Some (Inr False) \<Rightarrow> shutdown \<or> accepted \<or> ?d = RECOVERY_DENIED \<or> ?d = RECOVERY_PENDING \<and> await_recovery_decision later = Some (Inr False)
      | r \<Rightarrow> ?d = RECOVERY_PENDING \<and> r = await_recovery_decision later"
    by (auto simp: recovery_values split: option.split sum.split bool.split)
  ultimately show ?thesis using d unfolding Let_def by blast
qed

text \<open>
  Each class of rejected peer is reported once per generation: the events are the codes of the
  rejections in the order they were first seen.
\<close>

fun first_seen :: "'a list \<Rightarrow> 'a list \<Rightarrow> 'a list" where
  "first_seen seen [] = []"
| "first_seen seen (x # xs) = (if x \<in> set seen then first_seen seen xs else x # first_seen (x # seen) xs)"

definition seen_mask :: "BootstrapRejection list \<Rightarrow> 8 word \<Rightarrow> bool" where
  "seen_mask seen w \<longleftrightarrow> (\<forall>r. (w AND rejection_bit r \<noteq> 0) = (r \<in> set seen))"

lemma seen_mask_insert:
  assumes "seen_mask seen w"
  shows "seen_mask (x # seen) (w OR rejection_bit x)"
proof -
  have same: "rejection_shift a = rejection_shift b \<longleftrightarrow> a = b" for a b by (cases a; cases b) simp_all
  have small: "rejection_shift a < 8" for a by (cases a) simp_all
  have mask: "v AND rejection_bit a \<noteq> 0 \<longleftrightarrow> bit v (rejection_shift a)" for v :: "8 word" and a
    using small [of a] by (auto simp: rejection_bit_def bit_eq_iff [where 'a = "8 word"] bit_simps)
  have "bit (w OR rejection_bit x) (rejection_shift a) \<longleftrightarrow> bit w (rejection_shift a) \<or> a = x" for a
    using small [of a] by (auto simp: rejection_bit_def bit_simps same dest: sym)
  with assms show ?thesis by (simp add: seen_mask_def mask) blast
qed

lemma rejections_run:
  assumes "seen_mask seen w"
  shows "snd (fold (rejected g n) rs (w, evs)) = evs @ map (\<lambda>r. BootstrapRejected g n (rejection_code r)) (first_seen seen rs)"
  using assms
proof (induction rs arbitrary: seen w evs)
  case (Cons r rs)
  note later = Cons.IH [OF seen_mask_insert [OF Cons.prems, of r]]
  show ?case
  proof (cases "r \<in> set seen")
    case True
    then have "seen_mask seen (w OR rejection_bit r)"
      using seen_mask_insert [OF Cons.prems, of r] by (auto simp: seen_mask_def)
    with Cons.IH True Cons.prems show ?thesis by (auto simp: rejected_def Let_def seen_mask_def)
  next
    case False
    then have "w AND rejection_bit r = 0" using Cons.prems unfolding seen_mask_def by blast
    with later False show ?thesis by (simp add: rejected_def Let_def)
  qed
qed simp

lemma rejections_reported_once:
  "snd (fold (rejected g n) rs (0, [])) = map (\<lambda>r. BootstrapRejected g n (rejection_code r)) (first_seen [] rs)"
  using rejections_run [of "[]" 0 g n rs "[]"] by (simp add: seen_mask_def)

end
