(* ===== verification/Role_Registry.thy ===== *)
theory Role_Registry
  imports Runtime_Role
begin

text \<open>
  The pair of supervised roles (\<open>crates/keld-runtime/src/registry.rs\<close>): one primary and one app-bound
  supervisor whose lifecycle events the registry drains before every port operation, revoking the
  ports of a revoked generation and keeping the events for the host. A supervisor is the queue of
  events its worker has sent and not yet had drained, and whether its shutdown was requested.
\<close>

section \<open>Operations\<close>

record RoleRegistry =
  rr_primary :: "RoleEvent list"
  rr_app_bound :: "RoleEvent list"
  rr_virtual_ports :: VirtualPortRegistry
  rr_primary_buffered :: "RoleEvent list"
  rr_app_bound_buffered :: "RoleEvent list"
  rr_primary_shutdown :: bool
  rr_app_bound_shutdown :: bool

definition owner_error :: RuntimeError where
  "owner_error = Lifecycle ''role registry owner'' (IoError OtherKind None)"

definition new_role_registry :: RoleRegistry where
  "new_role_registry = \<lparr> rr_primary = [], rr_app_bound = [], rr_virtual_ports = new_port_registry,
     rr_primary_buffered = [], rr_app_bound_buffered = [], rr_primary_shutdown = False,
     rr_app_bound_shutdown = False \<rparr>"

text \<open>
  \<open>start\<close>: the results of starting the two supervisors are arguments. The second component says
  whether a started primary was shut down again.
\<close>

definition registry_start ::
  "RoleConfig \<Rightarrow> RoleConfig \<Rightarrow> RuntimeError option \<Rightarrow> RuntimeError option \<Rightarrow> (RuntimeError + RoleRegistry) \<times> bool" where
  "registry_start primary app_bound primary_error app_bound_error =
     (if rc_owner primary \<noteq> Primary then (Inl owner_error, False)
      else if rc_owner app_bound \<noteq> AppBound then (Inl owner_error, False)
      else case primary_error of
        Some e \<Rightarrow> (Inl e, False)
      | None \<Rightarrow>
          (case app_bound_error of
             Some e \<Rightarrow> (Inl e, True)
           | None \<Rightarrow> (Inr new_role_registry, False)))"

fun drain_supervisor_role_events ::
  "RoleOwner \<Rightarrow> RoleEvent list \<Rightarrow> VirtualPortRegistry \<Rightarrow> RoleEvent list \<Rightarrow> VirtualPortRegistry \<times> RoleEvent list" where
  "drain_supervisor_role_events owner [] ports buffered = (ports, buffered)"
| "drain_supervisor_role_events owner (event # queued) ports buffered =
     drain_supervisor_role_events owner queued
       (case event of
          RoleRevoked generation _ _ \<Rightarrow> revoke_generation \<lparr> rp_owner = owner, rp_generation = generation \<rparr> ports
        | _ \<Rightarrow> ports)
       (buffered @ [event])"

definition sync_role_events :: "RoleRegistry \<Rightarrow> RoleRegistry" where
  "sync_role_events r =
     (case drain_supervisor_role_events Primary (rr_primary r) (rr_virtual_ports r) (rr_primary_buffered r) of
        (ports1, primary_buffered) \<Rightarrow>
      case drain_supervisor_role_events AppBound (rr_app_bound r) ports1 (rr_app_bound_buffered r) of
        (ports2, app_bound_buffered) \<Rightarrow>
          r\<lparr> rr_primary := [], rr_app_bound := [], rr_virtual_ports := ports2,
             rr_primary_buffered := primary_buffered, rr_app_bound_buffered := app_bound_buffered \<rparr>)"

definition with_synchronized_virtual_ports ::
  "(VirtualPortRegistry \<Rightarrow> 'a \<times> VirtualPortRegistry) \<Rightarrow> RoleRegistry \<Rightarrow> 'a \<times> RoleRegistry" where
  "with_synchronized_virtual_ports operation r =
     (let s = sync_role_events r in
      case operation (rr_virtual_ports s) of (result, ports) \<Rightarrow> (result, s\<lparr> rr_virtual_ports := ports \<rparr>))"

definition create_role_port_pair ::
  "RolePrincipal \<Rightarrow> RolePrincipal \<Rightarrow> RoleRegistry \<Rightarrow> (VirtualPortError + PortCapability \<times> PortCapability) \<times> RoleRegistry" where
  "create_role_port_pair a b = with_synchronized_virtual_ports (create_pair a b)"

definition send_role_port ::
  "PortCapability \<Rightarrow> RolePrincipal \<Rightarrow> bytes \<Rightarrow> RoleRegistry \<Rightarrow> (VirtualPortError + unit) \<times> RoleRegistry" where
  "send_role_port cap sender payload = with_synchronized_virtual_ports (port_send cap sender payload)"

definition transfer_role_port ::
  "PortCapability \<Rightarrow> RolePrincipal \<Rightarrow> RolePrincipal \<Rightarrow> RoleRegistry \<Rightarrow> (VirtualPortError + PortCapability) \<times> RoleRegistry" where
  "transfer_role_port cap src target = with_synchronized_virtual_ports (transfer cap src target)"

definition close_role_port ::
  "PortCapability \<Rightarrow> RolePrincipal \<Rightarrow> RoleRegistry \<Rightarrow> (VirtualPortError + unit) \<times> RoleRegistry" where
  "close_role_port cap owner = with_synchronized_virtual_ports (port_close cap owner)"

definition recv_role_port ::
  "PortCapability \<Rightarrow> RolePrincipal \<Rightarrow> RoleRegistry \<Rightarrow> (VirtualPortError + PortMessage option) \<times> RoleRegistry" where
  "recv_role_port cap owner = with_synchronized_virtual_ports (port_recv cap owner)"

definition poll_role_port_disconnect ::
  "PortCapability \<Rightarrow> RolePrincipal \<Rightarrow> RoleRegistry \<Rightarrow> (VirtualPortError + PortDisconnectReason option) \<times> RoleRegistry" where
  "poll_role_port_disconnect cap owner = with_synchronized_virtual_ports (poll_disconnect cap owner)"

definition revoke_role_ports :: "RolePrincipal \<Rightarrow> RoleRegistry \<Rightarrow> RoleRegistry" where
  "revoke_role_ports p r =
     (let s = sync_role_events r in s\<lparr> rr_virtual_ports := revoke_generation p (rr_virtual_ports s) \<rparr>)"

definition registry_shutdown :: "RoleRegistry \<Rightarrow> RoleRegistry" where
  "registry_shutdown r =
     (let s = sync_role_events r;
          s1 = s\<lparr> rr_virtual_ports := fold revoke_generation (live_principals (rr_virtual_ports s)) (rr_virtual_ports s) \<rparr> in
      sync_role_events (s1\<lparr> rr_primary_shutdown := True, rr_app_bound_shutdown := True \<rparr>))"

definition register_bound_principal :: "RolePrincipal \<Rightarrow> RoleRegistry \<Rightarrow> RoleRegistry" where
  "register_bound_principal p r = r\<lparr> rr_virtual_ports := register_generation p (rr_virtual_ports r) \<rparr>"

definition poll_role_events :: "RoleRegistry \<Rightarrow> RoleRegistry" where
  "poll_role_events r = sync_role_events r"

fun pop_front :: "'a list \<Rightarrow> 'a option \<times> 'a list" where
  "pop_front [] = (None, [])"
| "pop_front (x # xs) = (Some x, xs)"

definition try_recv_primary_event :: "RoleRegistry \<Rightarrow> RoleEvent option \<times> RoleRegistry" where
  "try_recv_primary_event r =
     (let s = sync_role_events r in
      case pop_front (rr_primary_buffered s) of (event, rest) \<Rightarrow> (event, s\<lparr> rr_primary_buffered := rest \<rparr>))"

definition try_recv_app_bound_event :: "RoleRegistry \<Rightarrow> RoleEvent option \<times> RoleRegistry" where
  "try_recv_app_bound_event r =
     (let s = sync_role_events r in
      case pop_front (rr_app_bound_buffered s) of (event, rest) \<Rightarrow> (event, s\<lparr> rr_app_bound_buffered := rest \<rparr>))"

section \<open>The registry as a machine\<close>

text \<open>The host's operations, and the event a supervisor's worker sends.\<close>

datatype RegistryOp =
    PortCall PortOp
  | ShutdownRoles
  | PollEvents
  | RecvEvent RoleOwner
  | Emit RoleOwner RoleEvent

fun registry_port :: "PortOp \<Rightarrow> RoleRegistry \<Rightarrow> RoleRegistry" where
  "registry_port (RegisterOp p) r = register_bound_principal p r"
| "registry_port (CreateOp a b) r = snd (create_role_port_pair a b r)"
| "registry_port (SendOp cap p m) r = snd (send_role_port cap p m r)"
| "registry_port (TransferOp cap p q) r = snd (transfer_role_port cap p q r)"
| "registry_port (CloseOp cap p) r = snd (close_role_port cap p r)"
| "registry_port (RecvOp cap p) r = snd (recv_role_port cap p r)"
| "registry_port (PollOp cap p) r = snd (poll_role_port_disconnect cap p r)"
| "registry_port (RevokeOp p) r = revoke_role_ports p r"

fun registry_step :: "RegistryOp \<Rightarrow> RoleRegistry \<Rightarrow> RoleRegistry" where
  "registry_step (PortCall op) r = registry_port op r"
| "registry_step ShutdownRoles r = registry_shutdown r"
| "registry_step PollEvents r = poll_role_events r"
| "registry_step (RecvEvent Primary) r = snd (try_recv_primary_event r)"
| "registry_step (RecvEvent AppBound) r = snd (try_recv_app_bound_event r)"
| "registry_step (Emit Primary event) r = r\<lparr> rr_primary := rr_primary r @ [event] \<rparr>"
| "registry_step (Emit AppBound event) r = r\<lparr> rr_app_bound := rr_app_bound r @ [event] \<rparr>"

text \<open>
  The registry also lends out its supervisors: through \<open>primary()\<close> and \<open>app_bound()\<close> a host reads the
  next queued event of a role, or requests its shutdown, past the registry. Such a read takes the
  event from the queue the registry would have drained, and touches no port.
\<close>

definition direct_recv_event :: "RoleOwner \<Rightarrow> RoleRegistry \<Rightarrow> RoleEvent option \<times> RoleRegistry" where
  "direct_recv_event owner r =
     (case owner of
        Primary \<Rightarrow> (case pop_front (rr_primary r) of (event, rest) \<Rightarrow> (event, r\<lparr> rr_primary := rest \<rparr>))
      | AppBound \<Rightarrow> (case pop_front (rr_app_bound r) of (event, rest) \<Rightarrow> (event, r\<lparr> rr_app_bound := rest \<rparr>)))"

definition direct_shutdown :: "RoleOwner \<Rightarrow> RoleRegistry \<Rightarrow> RoleRegistry" where
  "direct_shutdown owner r =
     (case owner of Primary \<Rightarrow> r\<lparr> rr_primary_shutdown := True \<rparr> | AppBound \<Rightarrow> r\<lparr> rr_app_bound_shutdown := True \<rparr>)"

datatype HostOp =
    ThroughRegistry RegistryOp
  | DirectRecv RoleOwner
  | DirectShutdown RoleOwner

fun host_step :: "HostOp \<Rightarrow> RoleRegistry \<Rightarrow> RoleRegistry" where
  "host_step (ThroughRegistry op) r = registry_step op r"
| "host_step (DirectRecv owner) r = snd (direct_recv_event owner r)"
| "host_step (DirectShutdown owner) r = direct_shutdown owner r"

text \<open>What the workers sent, and what the host took past the registry.\<close>

fun sent_by :: "RoleOwner \<Rightarrow> HostOp list \<Rightarrow> RoleEvent list" where
  "sent_by owner [] = []"
| "sent_by owner (ThroughRegistry (Emit o' event) # ops) = (if o' = owner then [event] else []) @ sent_by owner ops"
| "sent_by owner (_ # ops) = sent_by owner ops"

fun taken_directly :: "RoleOwner \<Rightarrow> HostOp list \<Rightarrow> RoleRegistry \<Rightarrow> RoleEvent list" where
  "taken_directly owner [] r = []"
| "taken_directly owner (op # ops) r =
     (case op of
        DirectRecv o' \<Rightarrow> if o' = owner then (case fst (direct_recv_event o' r) of Some event \<Rightarrow> [event] | None \<Rightarrow> []) else []
      | _ \<Rightarrow> []) @ taken_directly owner ops (host_step op r)"

definition emitted :: "RoleOwner \<Rightarrow> RegistryOp list \<Rightarrow> RoleEvent list" where
  "emitted owner ops = concat (map (\<lambda>op. case op of Emit o' event \<Rightarrow> if o' = owner then [event] else [] | _ \<Rightarrow> []) ops)"

definition received_at :: "RoleOwner \<Rightarrow> RegistryOp \<Rightarrow> RoleRegistry \<Rightarrow> RoleEvent list" where
  "received_at owner op r =
     (case op of
        RecvEvent o' \<Rightarrow>
          if o' \<noteq> owner then []
          else case fst (if o' = Primary then try_recv_primary_event r else try_recv_app_bound_event r) of
            Some event \<Rightarrow> [event] | None \<Rightarrow> []
      | _ \<Rightarrow> [])"

fun received :: "RoleOwner \<Rightarrow> RegistryOp list \<Rightarrow> RoleRegistry \<Rightarrow> RoleEvent list" where
  "received owner [] r = []"
| "received owner (op # ops) r = received_at owner op r @ received owner ops (registry_step op r)"

definition held :: "RoleOwner \<Rightarrow> RoleRegistry \<Rightarrow> RoleEvent list" where
  "held owner r = (case owner of Primary \<Rightarrow> rr_primary_buffered r @ rr_primary r
     | AppBound \<Rightarrow> rr_app_bound_buffered r @ rr_app_bound r)"

section \<open>Draining\<close>

fun revoked_by :: "RoleOwner \<Rightarrow> RoleEvent list \<Rightarrow> RolePrincipal list" where
  "revoked_by owner [] = []"
| "revoked_by owner (RoleRevoked g _ _ # evs) = \<lparr> rp_owner = owner, rp_generation = g \<rparr> # revoked_by owner evs"
| "revoked_by owner (_ # evs) = revoked_by owner evs"

lemma drain_eq:
  "drain_supervisor_role_events owner queued ports buffered = (fold revoke_generation (revoked_by owner queued) ports, buffered @ queued)"
  by (induction queued arbitrary: ports buffered) (auto split: RoleEvent.split)

lemma revoked_by_append [simp]: "revoked_by owner (xs @ ys) = revoked_by owner xs @ revoked_by owner ys"
  by (induction xs rule: revoked_by.induct) simp_all

lemma sync_fields [simp]:
  "rr_primary (sync_role_events r) = []" "rr_app_bound (sync_role_events r) = []"
  "rr_primary_buffered (sync_role_events r) = rr_primary_buffered r @ rr_primary r"
  "rr_app_bound_buffered (sync_role_events r) = rr_app_bound_buffered r @ rr_app_bound r"
  "rr_primary_shutdown (sync_role_events r) = rr_primary_shutdown r"
  "rr_app_bound_shutdown (sync_role_events r) = rr_app_bound_shutdown r"
  "rr_virtual_ports (sync_role_events r) =
     fold revoke_generation (revoked_by Primary (rr_primary r) @ revoked_by AppBound (rr_app_bound r)) (rr_virtual_ports r)"
  by (simp_all add: sync_role_events_def drain_eq)

lemma with_ports_fields [simp]:
  "fst (with_synchronized_virtual_ports f r) = fst (f (rr_virtual_ports (sync_role_events r)))"
  "rr_virtual_ports (snd (with_synchronized_virtual_ports f r)) = snd (f (rr_virtual_ports (sync_role_events r)))"
  "held owner (snd (with_synchronized_virtual_ports f r)) = held owner (sync_role_events r)"
  by (simp_all add: with_synchronized_virtual_ports_def Let_def held_def split: prod.split RoleOwner.split)

lemma held_ports [simp]: "held owner (r\<lparr> rr_virtual_ports := ports \<rparr>) = held owner r"
  by (simp add: held_def split: RoleOwner.split)

lemma held_sync [simp]: "held owner (sync_role_events r) = held owner r"
  by (simp add: held_def split: RoleOwner.split)

lemmas role_port_defs = create_role_port_pair_def send_role_port_def transfer_role_port_def close_role_port_def
  recv_role_port_def poll_role_port_disconnect_def

section \<open>Conservation of events\<close>

lemma step_held:
  "held owner r @ emitted owner [op] = received_at owner op r @ held owner (registry_step op r)"
proof (cases op)
  case (PortCall p)
  then show ?thesis
    by (cases p) (simp_all add: emitted_def received_at_def role_port_defs revoke_role_ports_def register_bound_principal_def
        Let_def)
next
  case (RecvEvent o')
  have pop: "(case pop_front xs of (Some x, _) \<Rightarrow> [x] | (None, _) \<Rightarrow> []) @ snd (pop_front xs) = xs" for xs :: "RoleEvent list"
    by (cases xs) simp_all
  show ?thesis
    using RecvEvent pop [of "held o' r"]
    by (cases o'; cases owner)
      (auto simp: emitted_def received_at_def try_recv_primary_event_def try_recv_app_bound_event_def Let_def held_def
        split: prod.splits option.splits)
next
  case (Emit o' e)
  then show ?thesis by (cases o'; cases owner) (simp_all add: emitted_def received_at_def held_def)
qed (simp_all add: emitted_def received_at_def registry_shutdown_def poll_role_events_def Let_def held_def split: RoleOwner.split)

lemma run_held: "held owner r @ emitted owner ops = received owner ops r @ held owner (fold registry_step ops r)"
proof (induction ops arbitrary: r)
  case (Cons op ops)
  have "emitted owner (op # ops) = emitted owner [op] @ emitted owner ops" by (simp add: emitted_def)
  with step_held [of owner r op] Cons.IH [of "registry_step op r"] show ?case by (metis append.assoc fold_simps(2) received.simps(2))
qed (simp add: emitted_def)

text \<open>
  C29. Draining the supervisors for the ports hides nothing from the host: whatever the interleaving of
  port operations, event reads, a shutdown and the two workers' events, the events of each role that
  the host has read through the registry, followed by those the registry still holds, are exactly
  the events its worker sent, in order; the two roles never mix.
\<close>

theorem role_events_conserved:
  "emitted owner ops =
     received owner ops new_role_registry @ held owner (fold registry_step ops new_role_registry)"
  using run_held [of owner new_role_registry ops]
  by (simp add: held_def new_role_registry_def split: RoleOwner.splits)

section \<open>Ports under the registry\<close>

text \<open>
  What the history of a pair of roles does to its ports, read off the operations alone: revocations
  wait, per role, from the event that announces them; a direct read takes the oldest event of its
  role away; a registration goes straight to the ports; every other call of the registry first
  applies the waiting revocations, the primary's before the app-bound role's, and then does what it
  was asked; a shutdown also revokes whoever is live. The port operations so far are accumulated.
\<close>

type_synonym Waiting = "RoleEvent list \<times> RoleEvent list"

definition waiting_revocations :: "Waiting \<Rightarrow> PortOp list" where
  "waiting_revocations w = map RevokeOp (revoked_by Primary (fst w) @ revoked_by AppBound (snd w))"

fun port_history :: "HostOp list \<Rightarrow> Waiting \<Rightarrow> PortOp list \<Rightarrow> PortOp list" where
  "port_history [] w pops = pops"
| "port_history (ThroughRegistry (Emit Primary event) # ops) w pops = port_history ops (fst w @ [event], snd w) pops"
| "port_history (ThroughRegistry (Emit AppBound event) # ops) w pops = port_history ops (fst w, snd w @ [event]) pops"
| "port_history (DirectRecv Primary # ops) w pops = port_history ops (tl (fst w), snd w) pops"
| "port_history (DirectRecv AppBound # ops) w pops = port_history ops (fst w, tl (snd w)) pops"
| "port_history (DirectShutdown _ # ops) w pops = port_history ops w pops"
| "port_history (ThroughRegistry (PortCall (RegisterOp p)) # ops) w pops = port_history ops w (pops @ [RegisterOp p])"
| "port_history (ThroughRegistry (PortCall op) # ops) w pops = port_history ops ([], []) (pops @ waiting_revocations w @ [op])"
| "port_history (ThroughRegistry ShutdownRoles # ops) w pops =
     (let applied = pops @ waiting_revocations w in
      port_history ops ([], []) (applied @ map RevokeOp (live_principals (fold port_step applied (with_queue_capacity 64)))))"
| "port_history (ThroughRegistry _ # ops) w pops = port_history ops ([], []) (pops @ waiting_revocations w)"

text \<open>The port operations one registry operation performs, in order.\<close>

fun port_ops :: "RegistryOp \<Rightarrow> RoleRegistry \<Rightarrow> PortOp list" where
  "port_ops (PortCall (RegisterOp p)) r = [RegisterOp p]"
| "port_ops (PortCall op) r = waiting_revocations (rr_primary r, rr_app_bound r) @ [op]"
| "port_ops ShutdownRoles r =
     waiting_revocations (rr_primary r, rr_app_bound r) @ map RevokeOp (live_principals (rr_virtual_ports (sync_role_events r)))"
| "port_ops (Emit _ _) r = []"
| "port_ops _ r = waiting_revocations (rr_primary r, rr_app_bound r)"

lemma fold_revokes: "fold port_step (map RevokeOp ps) ports = fold revoke_generation ps ports"
  by (induction ps arbitrary: ports) simp_all

lemma sync_ports:
  "rr_virtual_ports (sync_role_events r) = fold port_step (waiting_revocations (rr_primary r, rr_app_bound r)) (rr_virtual_ports r)"
  by (simp add: waiting_revocations_def fold_revokes del: map_append)

lemma step_ports: "rr_virtual_ports (registry_step op r) = fold port_step (port_ops op r) (rr_virtual_ports r)"
proof (cases op)
  case (PortCall p)
  then show ?thesis
    by (cases p) (simp_all add: sync_ports role_port_defs revoke_role_ports_def register_bound_principal_def Let_def
        del: sync_fields(7))
next
  case (RecvEvent o')
  then show ?thesis
    by (cases o') (simp_all add: sync_ports try_recv_primary_event_def try_recv_app_bound_event_def Let_def
        del: sync_fields(7) split: prod.split)
next
  case (Emit o' e)
  then show ?thesis by (cases o') simp_all
next
  case ShutdownRoles
  have none_left: "waiting_revocations ([], []) = []" by (simp add: waiting_revocations_def)
  show ?thesis
    by (simp add: ShutdownRoles registry_shutdown_def Let_def sync_ports none_left fold_revokes del: sync_fields(7))
qed (simp add: sync_ports poll_role_events_def del: sync_fields(7))

lemma step_queues:
  "(rr_primary (registry_step op r), rr_app_bound (registry_step op r)) =
     (case op of
        Emit Primary event \<Rightarrow> (rr_primary r @ [event], rr_app_bound r)
      | Emit AppBound event \<Rightarrow> (rr_primary r, rr_app_bound r @ [event])
      | PortCall (RegisterOp _) \<Rightarrow> (rr_primary r, rr_app_bound r)
      | _ \<Rightarrow> ([], []))"
proof (cases op)
  case (PortCall p)
  then show ?thesis
    by (cases p) (simp_all add: role_port_defs with_synchronized_virtual_ports_def revoke_role_ports_def
        register_bound_principal_def Let_def split: prod.split)
next
  case (RecvEvent o')
  then show ?thesis
    by (cases o') (simp_all add: try_recv_primary_event_def try_recv_app_bound_event_def Let_def split: prod.split)
next
  case (Emit o' e)
  then show ?thesis by (cases o') simp_all
qed (simp_all add: registry_shutdown_def poll_role_events_def Let_def)

lemma direct_fields [simp]:
  "rr_virtual_ports (snd (direct_recv_event owner r)) = rr_virtual_ports r"
  "rr_primary (snd (direct_recv_event owner r)) = (if owner = Primary then tl (rr_primary r) else rr_primary r)"
  "rr_app_bound (snd (direct_recv_event owner r)) = (if owner = AppBound then tl (rr_app_bound r) else rr_app_bound r)"
  "rr_virtual_ports (direct_shutdown owner r) = rr_virtual_ports r"
  "rr_primary (direct_shutdown owner r) = rr_primary r" "rr_app_bound (direct_shutdown owner r) = rr_app_bound r"
proof -
  have "snd (pop_front xs) = tl xs" for xs :: "RoleEvent list" by (cases xs) simp_all
  then show "rr_virtual_ports (snd (direct_recv_event owner r)) = rr_virtual_ports r"
    "rr_primary (snd (direct_recv_event owner r)) = (if owner = Primary then tl (rr_primary r) else rr_primary r)"
    "rr_app_bound (snd (direct_recv_event owner r)) = (if owner = AppBound then tl (rr_app_bound r) else rr_app_bound r)"
    by (cases owner; simp add: direct_recv_event_def split: prod.split; metis snd_conv)+
qed (simp_all add: direct_shutdown_def split: RoleOwner.split)

lemma history_ports:
  assumes "rr_virtual_ports r = fold port_step pops (with_queue_capacity 64)"
  shows "rr_virtual_ports (fold host_step ops r)
    = fold port_step (port_history ops (rr_primary r, rr_app_bound r) pops) (with_queue_capacity 64)"
  using assms
proof (induction ops arbitrary: r pops)
  case (Cons op ops)
  have ports: "rr_virtual_ports (registry_step op' r) = fold port_step (pops @ port_ops op' r) (with_queue_capacity 64)" for op'
    using Cons.prems by (simp add: step_ports)
  show ?case
  proof (cases op)
    case (ThroughRegistry op')
    note IH = Cons.IH [OF ports [of op'], unfolded step_queues]
    show ?thesis
    proof (cases op')
      case (PortCall p)
      with IH ThroughRegistry show ?thesis by (cases p) (simp_all del: fold_append)
    next
      case (Emit o' e)
      with IH ThroughRegistry show ?thesis by (cases o') (simp_all del: fold_append)
    next
      case ShutdownRoles
      have "rr_virtual_ports (sync_role_events r)
          = fold port_step (pops @ waiting_revocations (rr_primary r, rr_app_bound r)) (with_queue_capacity 64)"
        using Cons.prems by (simp add: sync_ports del: sync_fields(7))
      with IH ThroughRegistry ShutdownRoles show ?thesis by (simp add: Let_def del: fold_append sync_fields(7))
    qed (use IH ThroughRegistry in \<open>simp_all del: fold_append\<close>)
  next
    case (DirectRecv o')
    with Cons.IH [of "snd (direct_recv_event o' r)" pops] Cons.prems show ?thesis by (cases o') simp_all
  next
    case (DirectShutdown o')
    with Cons.IH [of "direct_shutdown o' r" pops] Cons.prems show ?thesis by simp
  qed
qed simp

lemma new_registry_ports: "rr_virtual_ports new_role_registry = fold port_step [] (with_queue_capacity 64)"
  "rr_primary new_role_registry = []" "rr_app_bound new_role_registry = []"
  by (simp_all add: new_role_registry_def new_port_registry_def DEFAULT_PORT_QUEUE_CAPACITY_def)

text \<open>
  C27. The registry does to its ports exactly what its history says: after any interleaving of the
  host's calls, the workers' events and direct reads of the lent supervisors, the port registry is
  the one made by the port operations read off that history, in which every revocation a worker
  announced and no direct read took stands right before the first synchronising call after it, and
  the calls the host made follow in order.
\<close>

theorem registry_refines_ports:
  "rr_virtual_ports (fold host_step ops new_role_registry)
     = fold port_step (port_history ops ([], []) []) (with_queue_capacity 64)"
  using history_ports [OF new_registry_ports(1)] by (simp add: new_registry_ports)

lemma fold_revoked:
  "set (revoked_generations (fold revoke_generation ps ports)) = set ps \<union> set (revoked_generations ports)"
  by (induction ps arbitrary: ports) (auto simp: revoke_generation_def)

lemma revoked_mono: "set (revoked_generations ports) \<subseteq> set (revoked_generations (port_step op ports))"
proof (cases "op_cap op")
  case (Some cap)
  from port_step_cap [OF this, of ports] show ?thesis by (auto elim!: cap_step.cases)
next
  case None
  then show ?thesis
  proof (cases op)
    case (CreateOp a b)
    then show ?thesis by (cases rule: create_pair_cases [of a b ports]) simp_all
  qed (auto simp: register_generation_def revoke_generation_def)
qed

lemma run_revoked_mono: "set (revoked_generations ports) \<subseteq> set (revoked_generations (fold port_step ops ports))"
proof (induction ops arbitrary: ports)
  case (Cons op ops)
  from revoked_mono [of ports op] Cons.IH [of "port_step op ports"] show ?case by (simp add: subset_trans)
qed simp

lemma revoke_in_run:
  "RevokeOp p \<in> set pops \<Longrightarrow> p \<in> set (revoked_generations (fold port_step pops ports))"
proof (induction pops arbitrary: ports)
  case (Cons op pops)
  show ?case
  proof (cases "op = RevokeOp p")
    case True
    then show ?thesis
      using run_revoked_mono [of "revoke_generation p ports" pops] by (auto simp: revoke_generation_def)
  qed (use Cons in auto)
qed simp

lemma waiting_in: "RevokeOp p \<in> set (waiting_revocations w) \<longleftrightarrow> p \<in> set (revoked_by Primary (fst w)) \<union> set (revoked_by AppBound (snd w))"
  by (auto simp: waiting_revocations_def)

definition queued :: "RoleOwner \<Rightarrow> RoleRegistry \<Rightarrow> RoleEvent list" where
  "queued owner r = (case owner of Primary \<Rightarrow> rr_primary r | AppBound \<Rightarrow> rr_app_bound r)"

lemma queued_waits: "p \<in> set (revoked_by owner (queued owner r)) \<Longrightarrow> RevokeOp p \<in> set (waiting_revocations (rr_primary r, rr_app_bound r))"
  by (cases owner) (simp_all add: queued_def waiting_in)

lemma queued_step:
  "queued owner (registry_step op r) =
     (case op of
        Emit o' event \<Rightarrow> queued owner r @ (if o' = owner then [event] else [])
      | PortCall (RegisterOp _) \<Rightarrow> queued owner r
      | _ \<Rightarrow> [])"
  using step_queues [of op r]
  by (cases owner) (auto simp: queued_def split: RegistryOp.splits PortOp.splits RoleOwner.splits)

text \<open>A revocation announced to the registry is queued, applied or was taken past it.\<close>

abbreviation accounted :: "RoleOwner \<Rightarrow> RolePrincipal \<Rightarrow> RoleRegistry \<Rightarrow> bool" where
  "accounted owner p r \<equiv> p \<in> set (revoked_by owner (queued owner r)) \<or> p \<in> set (revoked_generations (rr_virtual_ports r))"

lemma revoked_kept:
  "p \<in> set (revoked_generations (rr_virtual_ports r)) \<Longrightarrow> p \<in> set (revoked_generations (rr_virtual_ports (registry_step op r)))"
  using run_revoked_mono by (auto simp: step_ports)

lemma registry_step_accounted:
  assumes "accounted owner p r"
  shows "accounted owner p (registry_step op r)"
proof -
  consider (keeps) rest where "queued owner (registry_step op r) = queued owner r @ rest"
    | (applies) "set (waiting_revocations (rr_primary r, rr_app_bound r)) \<subseteq> set (port_ops op r)"
  proof (cases op)
    case (PortCall q)
    then show ?thesis using that queued_step [of owner op r] by (cases q) auto
  next
    case (Emit o' e)
    then show ?thesis using that(1) queued_step [of owner op r] by auto
  qed (use that(2) in auto)
  then show ?thesis
  proof cases
    case keeps
    with assms revoked_kept show ?thesis by auto
  next
    case applies
    with assms revoked_kept queued_waits [of p owner r] revoke_in_run [of p "port_ops op r"] show ?thesis
      by (auto simp: step_ports)
  qed
qed

lemma accounted_emit:
  "p \<in> set (revoked_by owner [event]) \<Longrightarrow> accounted owner p (registry_step (Emit owner event) r)"
  by (simp add: queued_step)

lemma queued_direct:
  "queued owner (snd (direct_recv_event o' r)) = (if o' = owner then tl (queued owner r) else queued owner r)"
  by (cases owner; cases o') (simp_all add: queued_def)

lemma taken_head:
  "taken_directly owner [DirectRecv o'] r = (if o' = owner then take 1 (queued owner r) else [])"
proof -
  have "(case fst (case pop_front xs of (event, rest) \<Rightarrow> (event, f rest)) of Some x \<Rightarrow> [x] | None \<Rightarrow> []) = take 1 xs"
    for xs :: "RoleEvent list" and f :: "RoleEvent list \<Rightarrow> RoleRegistry" by (cases xs) simp_all
  then show ?thesis by (cases o') (simp_all add: queued_def direct_recv_event_def)
qed

lemma accounted_direct:
  assumes "accounted owner p r" "p \<notin> set (revoked_by owner (taken_directly owner [DirectRecv o'] r))"
  shows "accounted owner p (snd (direct_recv_event o' r))"
proof -
  have "revoked_by owner (queued owner r) = revoked_by owner (take 1 (queued owner r)) @ revoked_by owner (tl (queued owner r))"
    by (cases "queued owner r") (simp_all flip: revoked_by_append)
  with assms show ?thesis unfolding queued_direct taken_head by (auto split: if_splits)
qed

lemma host_accounted:
  assumes "accounted owner p r \<or> p \<in> set (revoked_by owner (sent_by owner ops))"
    and "p \<notin> set (revoked_by owner (taken_directly owner ops r))"
  shows "accounted owner p (fold host_step ops r)"
  using assms
proof (induction ops arbitrary: r)
  case (Cons op ops)
  have rest: "p \<notin> set (revoked_by owner (taken_directly owner ops (host_step op r)))"
    using Cons.prems(2) by simp
  have "accounted owner p (host_step op r) \<or> p \<in> set (revoked_by owner (sent_by owner ops))"
  proof (cases op)
    case (ThroughRegistry op')
    with Cons.prems(1) registry_step_accounted [of p owner r op'] accounted_emit [of p owner _ r] show ?thesis
      by (cases op') (auto simp del: registry_step.simps split: if_splits)
  next
    case (DirectRecv o')
    with Cons.prems accounted_direct [of p owner r o'] show ?thesis by auto
  next
    case (DirectShutdown o')
    with Cons.prems(1) show ?thesis by (cases owner) (auto simp: queued_def)
  qed
  with Cons.IH [OF _ rest] show ?case by simp
qed simp

definition refused_stale :: "VirtualPortError + 'a \<Rightarrow> bool" where
  "refused_stale answer = (case answer of Inl e \<Rightarrow> port_error_code e = ''KELD-RUNTIME-005'' | Inr _ \<Rightarrow> False)"

text \<open>Closing is refused because the port is closed or the closer does not own it.\<close>

definition refused_close :: "VirtualPortError + 'a \<Rightarrow> bool" where
  "refused_close answer =
     (case answer of Inl e \<Rightarrow> port_error_code e \<in> {''KELD-RUNTIME-004'', ''KELD-RUNTIME-006''} | Inr _ \<Rightarrow> False)"

lemma revoked_after_sync:
  assumes "accounted owner p r"
  shows "is_generation_revoked (rr_virtual_ports (sync_role_events r)) p"
  using assms by (cases owner) (auto simp: is_generation_revoked_def fold_revoked queued_def simp del: fold_append)

text \<open>
  C28. A revocation reaches the ports before any port call is answered: once a role's worker has
  announced that a generation is revoked, however much the host has read through the registry, and
  unless it took that very announcement past the registry, every later call on behalf of that
  generation is refused: creating, sending, receiving, polling and transferring, on either side, with the
  stale-generation code, and closing because the port is closed or owned by another.
\<close>

theorem revoked_role_refused:
  assumes "\<lparr> rp_owner = owner, rp_generation = g \<rparr> \<in> set (revoked_by owner (sent_by owner ops))"
    and "\<lparr> rp_owner = owner, rp_generation = g \<rparr> \<notin> set (revoked_by owner (taken_directly owner ops new_role_registry))"
  shows "let r = fold host_step ops new_role_registry; p = \<lparr> rp_owner = owner, rp_generation = g \<rparr> in
    refused_stale (fst (create_role_port_pair p q r)) \<and> refused_stale (fst (create_role_port_pair q p r))
    \<and> refused_stale (fst (send_role_port cap p m r)) \<and> refused_stale (fst (recv_role_port cap p r))
    \<and> refused_stale (fst (poll_role_port_disconnect cap p r))
    \<and> refused_stale (fst (transfer_role_port cap p q r)) \<and> refused_stale (fst (transfer_role_port cap q p r))
    \<and> refused_close (fst (close_role_port cap p r))"
proof -
  let ?r = "fold host_step ops new_role_registry" and ?p = "\<lparr> rp_owner = owner, rp_generation = g \<rparr>"
  let ?ports = "rr_virtual_ports (sync_role_events ?r)"
  have "accounted owner ?p ?r" by (rule host_accounted) (use assms in simp_all)
  then have revoked: "is_generation_revoked ?ports ?p" by (rule revoked_after_sync)
  have "?ports = rr_virtual_ports (fold host_step (ops @ [ThroughRegistry PollEvents]) new_role_registry)"
    by (simp add: poll_role_events_def)
  also have "\<dots> = fold port_step (port_history (ops @ [ThroughRegistry PollEvents]) ([], []) []) (with_queue_capacity 64)"
    using history_ports [OF new_registry_ports(1)] by (simp only: new_registry_ports)
  finally obtain pops where "?ports = fold port_step pops (with_queue_capacity 64)" by blast
  with revoked_generation_refused [of pops 64 ?p cap m q] revoked show ?thesis
    unfolding Let_def role_port_defs refused_stale_def refused_close_def
    by (auto simp del: sync_fields(7))
qed

text \<open>
  A primary generation exits; the host has read the events through the registry, and a direct read of
  the app-bound role lies between.
\<close>

definition exited_primary :: "HostOp list" where
  "exited_primary =
     [ThroughRegistry (PortCall (RegisterOp \<lparr> rp_owner = Primary, rp_generation = 1 \<rparr>)),
      ThroughRegistry (Emit AppBound (RoleRevoked 2 1 RoleChildExited)), DirectRecv AppBound,
      ThroughRegistry (Emit Primary (RoleRevoked 1 1 RoleChildExited)), ThroughRegistry (RecvEvent Primary)]"

theorem revoked_role_refused_witness:
  "refused_stale (fst (send_role_port \<lparr> pc_generation = 1, pc_end = EndA \<rparr> \<lparr> rp_owner = Primary, rp_generation = 1 \<rparr> [1]
     (fold host_step exited_primary new_role_registry)))"
  using revoked_role_refused [of Primary 1 exited_primary "\<lparr> rp_owner = AppBound, rp_generation = 2 \<rparr>"
      "\<lparr> pc_generation = 1, pc_end = EndA \<rparr>" "[1]"]
  by (simp add: exited_primary_def direct_recv_event_def register_bound_principal_def try_recv_primary_event_def
      new_role_registry_def Let_def)

text \<open>
  A direct read of a revocation is the exception the statement makes: the ports never learn of it,
  and the generation whose retirement the host has just read can still open a port.
\<close>

definition read_past_registry :: "HostOp list" where
  "read_past_registry =
     [ThroughRegistry (PortCall (RegisterOp \<lparr> rp_owner = Primary, rp_generation = 1 \<rparr>)),
      ThroughRegistry (PortCall (RegisterOp \<lparr> rp_owner = AppBound, rp_generation = 2 \<rparr>)),
      ThroughRegistry (Emit Primary (RoleRevoked 1 1 RoleChildExited)), DirectRecv Primary]"

theorem direct_read_hides_revocation:
  "\<exists>caps. fst (create_role_port_pair \<lparr> rp_owner = Primary, rp_generation = 1 \<rparr> \<lparr> rp_owner = AppBound, rp_generation = 2 \<rparr>
     (fold host_step read_past_registry new_role_registry)) = Inr caps"
  by (simp add: read_past_registry_def direct_recv_event_def register_bound_principal_def create_role_port_pair_def
      create_pair_def stale_principal_def is_generation_revoked_def is_generation_live_def mint_generation_def
      register_generation_def new_role_registry_def new_port_registry_def with_queue_capacity_def checked_add_def)

section \<open>Shutdown\<close>

text \<open>The owners of a pair that still carries messages are live, so revoking the live ones reaches every pair.\<close>

definition end_owned :: "RolePrincipal set \<Rightarrow> EndState \<Rightarrow> bool" where
  "end_owned live e = (initial_owner e \<in> live \<and> end_owner e \<in> live)"

definition pair_owned :: "RolePrincipal set \<Rightarrow> PairState \<Rightarrow> bool" where
  "pair_owned live p = (pair_revoked p \<or> end_owned live (end_a p) \<and> end_owned live (end_b p))"

definition ports_owned :: "VirtualPortRegistry \<Rightarrow> bool" where
  "ports_owned ports = (port_inv ports \<and> (\<forall>p \<in> ran (pairs ports). pair_owned (set (live_generations ports)) p))"

lemma pair_ownedD: "pair_owned live p \<Longrightarrow> pair_revoked p \<or> end_owned live (end_ref p e)"
  by (cases e) (auto simp: pair_owned_def)

lemma end_mut_owned:
  "pair_owned live p \<Longrightarrow> (end_owned live (end_ref p e) \<Longrightarrow> end_owned live (f (end_ref p e))) \<Longrightarrow> pair_owned live (end_mut e f p)"
  by (cases e) (auto simp: pair_owned_def)

lemma end_change_owned:
  "end_change r e p p' \<Longrightarrow> pair_owned (set (live_generations r)) p \<Longrightarrow> pair_owned (set (live_generations r)) p'"
  by (induction rule: end_change.induct)
     (auto intro!: end_mut_owned simp: end_owned_def is_generation_live_def)

lemma revoke_pair_owned:
  "pair_owned live p \<Longrightarrow> pair_owned (live - {x}) (revoke_pair x p)"
  by (auto simp: pair_owned_def end_owned_def revoke_pair_def Let_def)

lemma ports_owned_update:
  "ports_owned ports \<Longrightarrow> port_inv (update_pair cap p ports) \<Longrightarrow> pair_owned (set (live_generations ports)) p
    \<Longrightarrow> ports_owned (update_pair cap p ports)"
  by (auto simp: ports_owned_def ran_def split: if_splits)

lemma port_step_owned:
  assumes "ports_owned ports"
  shows "ports_owned (port_step op ports)"
proof (cases "op_cap op")
  case (Some cap)
  have keep: "port_inv (port_step op ports)" using assms by (auto simp: ports_owned_def intro: port_step_inv)
  from port_step_cap [OF Some, of ports] show ?thesis
  proof cases
    case (changed p p')
    then have "pair_owned (set (live_generations ports)) p'"
      using assms end_change_owned by (auto simp: ports_owned_def ran_def)
    with keep changed assms show ?thesis by (auto intro: ports_owned_update)
  qed (use assms in simp)
next
  case None
  have keep: "port_inv (port_step op ports)" using assms by (auto simp: ports_owned_def intro: port_step_inv)
  from None show ?thesis
  proof (cases op)
    case (CreateOp a b)
    with keep assms show ?thesis
      by (cases rule: create_pair_cases [of a b ports])
         (auto simp: ports_owned_def ran_def pair_owned_def end_owned_def end_state_new_def is_generation_live_def split: if_splits)
  next
    case (RegisterOp p)
    with keep assms show ?thesis
      by (auto simp: ports_owned_def register_generation_def pair_owned_def end_owned_def)
  next
    case (RevokeOp p)
    with keep assms show ?thesis
      by (auto simp: ports_owned_def revoke_generation_def ran_def revoke_pair_owned)
  qed simp_all
qed

definition registry_inv :: "RoleRegistry \<Rightarrow> bool" where
  "registry_inv r = ports_owned (rr_virtual_ports r)"

interpretation owned_ports: state_machine port_step ports_owned
  by unfold_locales (rule port_step_owned)

interpretation roles: state_machine registry_step registry_inv
  by unfold_locales (simp add: registry_inv_def step_ports owned_ports.run_inv)

lemma new_role_registry_inv: "registry_inv new_role_registry"
  using new_registry_inv [of DEFAULT_PORT_QUEUE_CAPACITY]
  by (simp add: registry_inv_def ports_owned_def new_role_registry_def new_port_registry_def with_queue_capacity_def)

lemma live_after_revokes: "live_generations (fold revoke_generation ps ports) = filter (\<lambda>p. p \<notin> set ps) (live_generations ports)"
  by (induction ps arbitrary: ports) (auto simp: revoke_generation_def removeAll_filter_not_eq conj_commute intro!: filter_cong)

lemma owned_by_nobody: "pair_owned {} p \<Longrightarrow> pair_revoked p"
  by (simp add: pair_owned_def end_owned_def)

text \<open>
  Stopping the application cuts every route: from any state the pair of roles can reach, after
  shutdown no principal is live, every port pair ever minted is revoked with both its queues empty,
  both workers have been told to stop, and no event a worker had announced is left undrained.
\<close>

theorem shutdown_revokes_all:
  "let r = registry_shutdown (fold registry_step ops new_role_registry) in
   live_principals (rr_virtual_ports r) = []
   \<and> (case pairs (rr_virtual_ports r) g of
        None \<Rightarrow> True
      | Some p \<Rightarrow> pair_revoked p \<and> end_queue (end_a p) = [] \<and> end_queue (end_b p) = [])
   \<and> rr_primary_shutdown r \<and> rr_app_bound_shutdown r \<and> rr_primary r = [] \<and> rr_app_bound r = []"
proof -
  let ?q = "fold registry_step ops new_role_registry" and ?r = "registry_shutdown (fold registry_step ops new_role_registry)"
  have "registry_inv (registry_step ShutdownRoles ?q)"
    by (intro roles.step_inv roles.run_inv new_role_registry_inv)
  then have owned: "ports_owned (rr_virtual_ports ?r)" by (simp add: registry_inv_def)
  have live: "live_generations (rr_virtual_ports ?r) = []"
    by (auto simp: registry_shutdown_def Let_def live_after_revokes live_principals_def filter_empty_conv)
  have "pair_revoked p \<and> end_queue (end_a p) = [] \<and> end_queue (end_b p) = []" if "pairs (rr_virtual_ports ?r) g = Some p" for p
  proof -
    from owned live that have "pair_owned {} p" "pair_inv (queue_capacity (rr_virtual_ports ?r)) (set (revoked_generations (rr_virtual_ports ?r))) p"
      by (auto simp: ports_owned_def port_inv_def ran_def)
    with owned_by_nobody show ?thesis by (auto simp: pair_inv_def end_inv_def)
  qed
  moreover have "rr_primary_shutdown ?r" "rr_app_bound_shutdown ?r" "rr_primary ?r = []" "rr_app_bound ?r = []"
    by (simp_all add: registry_shutdown_def Let_def)
  ultimately show ?thesis using live by (simp add: Let_def live_principals_def split: option.split)
qed

end
