(* ===== verification/Update_Provenance.thy ===== *)
theory Update_Provenance
  imports Kipc_Token
begin

text \<open>
  Identities, refusals and provenance admission of the update engine
  (\<open>crates/keld-update/src/lib.rs\<close>, \<open>error.rs\<close>, \<open>provenance.rs\<close>). Third-party code is an argument: the
  semantic versions of the \<open>semver\<close> package are a parser and a comparison by precedence
  (\<open>Semver\<close>), the signature and hash packages the record \<open>Crypto\<close>. The detail texts of refusals are not
  modelled; the field, step or effect they name is. Digests are byte strings.
\<close>

section \<open>Packages the engine calls\<close>

datatype Ordering = OrdLess | OrdEqual | OrdGreater

fun ord_reverse :: "Ordering \<Rightarrow> Ordering" where
  "ord_reverse OrdLess = OrdGreater"
| "ord_reverse OrdEqual = OrdEqual"
| "ord_reverse OrdGreater = OrdLess"

record 'v Semver =
  sv_parse :: "string \<Rightarrow> 'v option"
  sv_cmp :: "'v \<Rightarrow> 'v \<Rightarrow> Ordering"

text \<open>Comparison by precedence is a total preorder: documented behaviour of \<open>cmp_precedence\<close>.\<close>

definition total_cmp :: "('a \<Rightarrow> 'a \<Rightarrow> Ordering) \<Rightarrow> bool" where
  "total_cmp cmp \<longleftrightarrow>
     (\<forall>a b. cmp b a = ord_reverse (cmp a b))
     \<and> (\<forall>a b c. cmp a b \<noteq> OrdGreater \<longrightarrow> cmp b c \<noteq> OrdGreater \<longrightarrow> cmp a c \<noteq> OrdGreater)"

definition precedence_order :: "'v Semver \<Rightarrow> bool" where
  "precedence_order sv \<longleftrightarrow> total_cmp (sv_cmp sv)"

type_synonym Digest = bytes

record 'k Crypto =
  cr_key :: "bytes \<Rightarrow> 'k option"
  cr_weak :: "'k \<Rightarrow> bool"
  cr_verify :: "'k \<Rightarrow> bytes \<Rightarrow> bytes \<Rightarrow> bool"
  cr_blake3 :: "bytes \<Rightarrow> Digest"
  cr_base64 :: "bytes \<Rightarrow> bytes option"

section \<open>Refusals\<close>

datatype ProvenanceUnavailable = ProvMissing | ProvUnprotected

datatype ProvenanceField =
    PfInstallMode | PfAppId | PfChannel | PfTarget | PfInstallRoot | PfUpdateRoot | PfSigningKey
  | PfBaseline | PfProfile | PfPrincipalModel | PfVersionFloor

datatype ManifestIdentityField = MfAppId | MfChannel | MfTarget

datatype ArtifactDomain = Compressed | Content

datatype MachineRecoveryGuidance = RecoveryDisabled | RecoverNow | RestartFirst

datatype ActivationEffect =
    ProtectedStateUnchanged
  | JournalBoundRecoveryRequired
  | ResolvedWithLeftovers
  | UnjournaledVersionRetained
  | WriterActive
  | MachineRecoveryRequired MachineRecoveryGuidance

datatype VersionPublicationOutcome = StageRetained | DestinationUnconfirmed

datatype UpdateError =
    BaselineRefusal string
  | LocalRecordInvalid
  | ProvenanceUnavailable ProvenanceUnavailable
  | ManagedInstall string
  | ProvenanceMismatch ProvenanceField
  | ManifestAuthentication
  | ManifestInvalid
  | ManifestIdentityMismatch ManifestIdentityField
  | VersionFloorInvalid
  | ArtifactSizeMismatch ArtifactDomain u64
  | ArtifactDigestMismatch ArtifactDomain
  | ArtifactProcessing string
  | ArchiveInvalid string
  | Extraction "string option" string
  | VersionPublication string string VersionPublicationOutcome
  | ExecutableBinding string
  | ExpectedIdentityInvalid
  | ExpectedIdentityContainer string
  | RecordedSignerMismatch
  | UpdaterHelper string
  | Activation string ActivationEffect

fun update_code :: "UpdateError \<Rightarrow> string" where
  "update_code (BaselineRefusal _) = ''KELD-UPDATE-013''"
| "update_code LocalRecordInvalid = ''KELD-UPDATE-014''"
| "update_code (ProvenanceUnavailable _) = ''KELD-UPDATE-001''"
| "update_code (ManagedInstall _) = ''KELD-UPDATE-002''"
| "update_code (ProvenanceMismatch _) = ''KELD-UPDATE-003''"
| "update_code ManifestAuthentication = ''KELD-UPDATE-004''"
| "update_code ManifestInvalid = ''KELD-UPDATE-005''"
| "update_code (ManifestIdentityMismatch _) = ''KELD-UPDATE-006''"
| "update_code VersionFloorInvalid = ''KELD-UPDATE-007''"
| "update_code (ArtifactSizeMismatch _ _) = ''KELD-UPDATE-008''"
| "update_code (ArtifactDigestMismatch _) = ''KELD-UPDATE-009''"
| "update_code (ArtifactProcessing _) = ''KELD-UPDATE-010''"
| "update_code (ArchiveInvalid _) = ''KELD-UPDATE-011''"
| "update_code (Extraction _ _) = ''KELD-UPDATE-012''"
| "update_code (VersionPublication _ _ _) = ''KELD-UPDATE-015''"
| "update_code (Activation _ _) = ''KELD-UPDATE-016''"
| "update_code ExpectedIdentityInvalid = ''KELD-UPDATE-017''"
| "update_code (ExecutableBinding _) = ''KELD-UPDATE-018''"
| "update_code (ExpectedIdentityContainer _) = ''KELD-UPDATE-019''"
| "update_code RecordedSignerMismatch = ''KELD-UPDATE-020''"
| "update_code (UpdaterHelper _) = ''KELD-UPDATE-021''"

definition hex_digest :: "Digest \<Rightarrow> string" where
  "hex_digest d = concat (map hex_pair d)"

definition is_lowercase_hex :: "string \<Rightarrow> bool" where
  "is_lowercase_hex s =
     list_all (\<lambda>b. 0x30 \<le> b \<and> b \<le> 0x39 \<or> 0x61 \<le> b \<and> b \<le> 0x66) (bytes_of s)"

section \<open>Identities\<close>

datatype Channel = Stable | Beta | Canary

fun channel_str :: "Channel \<Rightarrow> string" where
  "channel_str Stable = ''stable''"
| "channel_str Beta = ''beta''"
| "channel_str Canary = ''canary''"

definition channel_parse :: "string \<Rightarrow> Channel option" where
  "channel_parse s =
     (if s = ''stable'' then Some Stable
      else if s = ''beta'' then Some Beta
      else if s = ''canary'' then Some Canary
      else None)"

record ArtifactIdentity =
  ai_app_id :: string
  ai_channel :: Channel
  ai_target :: string
  ai_version :: string
  ai_content_blake3 :: Digest

datatype DirectInstallMode = PerUserDirect | MachineUacDirect | MachineSeamlessDirect

fun install_mode_str :: "DirectInstallMode \<Rightarrow> string" where
  "install_mode_str PerUserDirect = ''per-user-direct''"
| "install_mode_str MachineUacDirect = ''machine-uac-direct''"
| "install_mode_str MachineSeamlessDirect = ''machine-seamless-direct''"

definition install_mode_parse :: "string \<Rightarrow> UpdateError + DirectInstallMode" where
  "install_mode_parse s =
     (if s = ''per-user-direct'' then Inr PerUserDirect
      else if s = ''machine-uac-direct'' then Inr MachineUacDirect
      else if s = ''machine-seamless-direct'' then Inr MachineSeamlessDirect
      else Inl LocalRecordInvalid)"

datatype PrincipalModel = StrictDistinctOsPrincipals | LegacySameUser | Unverified

fun principal_model_str :: "PrincipalModel \<Rightarrow> string" where
  "principal_model_str StrictDistinctOsPrincipals = ''strict-distinct-os-principals''"
| "principal_model_str LegacySameUser = ''legacy-same-user''"
| "principal_model_str Unverified = ''unverified''"

record DirectInstallationIdentity =
  di_install_mode :: DirectInstallMode
  di_app_id :: string
  di_channel :: Channel
  di_target :: string
  di_install_root :: string
  di_update_root :: string
  di_signing_key_id :: Digest
  di_baseline :: ArtifactIdentity
  di_profile_digest :: Digest
  di_principal_model :: PrincipalModel

datatype InstallOwner = Direct | Managed string

record InstallProvenance =
  ip_identity :: DirectInstallationIdentity
  ip_owner :: InstallOwner

datatype ProvenanceObservation =
    ObsMissing
  | ObsUnprotected InstallProvenance
  | ObsProtected InstallProvenance "string option"

section \<open>Admission\<close>

definition validate_expected :: "'v Semver \<Rightarrow> DirectInstallationIdentity \<Rightarrow> UpdateError + unit" where
  "validate_expected sv e =
     (if di_app_id e = [] \<or> di_app_id e \<noteq> ai_app_id (di_baseline e) then Inl (ProvenanceMismatch PfAppId)
      else if di_target e = [] \<or> di_target e \<noteq> ai_target (di_baseline e) then Inl (ProvenanceMismatch PfTarget)
      else if di_channel e \<noteq> ai_channel (di_baseline e) then Inl (ProvenanceMismatch PfChannel)
      else if di_install_root e = [] then Inl (ProvenanceMismatch PfInstallRoot)
      else if di_update_root e = [] then Inl (ProvenanceMismatch PfUpdateRoot)
      else if di_principal_model e \<noteq> StrictDistinctOsPrincipals then Inl (ProvenanceMismatch PfPrincipalModel)
      else if sv_parse sv (ai_version (di_baseline e)) = None then Inl (ProvenanceMismatch PfBaseline)
      else Inr ())"

definition compare_field :: "ProvenanceField \<Rightarrow> string \<Rightarrow> string \<Rightarrow> UpdateError + unit" where
  "compare_field field expected observed = (if expected = observed then Inr () else Inl (ProvenanceMismatch field))"

text \<open>\<open>path_eq\<close> is the platform's equality of \<open>Path\<close>, by components.\<close>

definition compare_path ::
  "(string \<Rightarrow> string \<Rightarrow> bool) \<Rightarrow> ProvenanceField \<Rightarrow> string \<Rightarrow> string \<Rightarrow> UpdateError + unit" where
  "compare_path path_eq field expected observed =
     (if path_eq expected observed then Inr () else Inl (ProvenanceMismatch field))"

definition match_installation ::
  "(string \<Rightarrow> string \<Rightarrow> bool) \<Rightarrow> DirectInstallationIdentity \<Rightarrow> DirectInstallationIdentity \<Rightarrow> UpdateError + unit" where
  "match_installation path_eq e found =
     and_then (compare_field PfInstallMode (install_mode_str (di_install_mode e)) (install_mode_str (di_install_mode found))) (\<lambda>_.
     and_then (compare_field PfAppId (di_app_id e) (di_app_id found)) (\<lambda>_.
     and_then (compare_field PfChannel (channel_str (di_channel e)) (channel_str (di_channel found))) (\<lambda>_.
     and_then (compare_field PfTarget (di_target e) (di_target found)) (\<lambda>_.
     and_then (compare_path path_eq PfInstallRoot (di_install_root e) (di_install_root found)) (\<lambda>_.
     and_then (compare_path path_eq PfUpdateRoot (di_update_root e) (di_update_root found)) (\<lambda>_.
     and_then (compare_field PfSigningKey (hex_digest (di_signing_key_id e)) (hex_digest (di_signing_key_id found))) (\<lambda>_.
     if di_baseline e \<noteq> di_baseline found then Inl (ProvenanceMismatch PfBaseline)
     else
     and_then (compare_field PfProfile (hex_digest (di_profile_digest e)) (hex_digest (di_profile_digest found))) (\<lambda>_.
     compare_field PfPrincipalModel (principal_model_str (di_principal_model e)) (principal_model_str (di_principal_model found))))))))))"

definition validate_version_floor ::
  "'v Semver \<Rightarrow> DirectInstallationIdentity \<Rightarrow> string \<Rightarrow> UpdateError + 'v" where
  "validate_version_floor sv identity floor_text =
     (case sv_parse sv floor_text of
        None \<Rightarrow> Inl VersionFloorInvalid
      | Some floor \<Rightarrow>
          (case sv_parse sv (ai_version (di_baseline identity)) of
             None \<Rightarrow> Inl (ProvenanceMismatch PfBaseline)
           | Some baseline \<Rightarrow>
               (case sv_cmp sv floor baseline of
                  OrdLess \<Rightarrow> Inl (ProvenanceMismatch PfVersionFloor)
                | OrdEqual \<Rightarrow>
                    if floor_text \<noteq> ai_version (di_baseline identity) then Inl (ProvenanceMismatch PfVersionFloor)
                    else Inr floor
                | OrdGreater \<Rightarrow> Inr floor)))"

definition release_verifying_key :: "'k Crypto \<Rightarrow> bytes \<Rightarrow> 'k option" where
  "release_verifying_key cr public_key =
     (case cr_key cr public_key of
        None \<Rightarrow> None
      | Some key \<Rightarrow> if cr_weak cr key then None else Some key)"

definition key_id_from_public_key :: "'k Crypto \<Rightarrow> bytes \<Rightarrow> Digest" where
  "key_id_from_public_key cr public_key = cr_blake3 cr public_key"

record 'k UpdateVerifier =
  uv_expected :: DirectInstallationIdentity
  uv_verifying_key :: 'k

definition update_verifier_new ::
  "'v Semver \<Rightarrow> 'k Crypto \<Rightarrow> DirectInstallationIdentity \<Rightarrow> bytes \<Rightarrow> UpdateError + 'k UpdateVerifier" where
  "update_verifier_new sv cr e public_key =
     and_then (validate_expected sv e) (\<lambda>_.
     case release_verifying_key cr public_key of
       None \<Rightarrow> Inl ManifestAuthentication
     | Some key \<Rightarrow>
         if di_signing_key_id e \<noteq> key_id_from_public_key cr public_key then Inl (ProvenanceMismatch PfSigningKey)
         else Inr \<lparr> uv_expected = e, uv_verifying_key = key \<rparr>)"

record ('k, 'v) AdmittedInstallation =
  ad_identity :: DirectInstallationIdentity
  ad_verifying_key :: 'k
  ad_floor_text :: string
  ad_floor :: 'v

definition verifier_admit ::
  "'v Semver \<Rightarrow> (string \<Rightarrow> string \<Rightarrow> bool) \<Rightarrow> 'k UpdateVerifier \<Rightarrow> ProvenanceObservation
    \<Rightarrow> UpdateError + ('k, 'v) AdmittedInstallation" where
  "verifier_admit sv path_eq v observed =
     (case observed of
        ObsMissing \<Rightarrow> Inl (ProvenanceUnavailable ProvMissing)
      | ObsUnprotected _ \<Rightarrow> Inl (ProvenanceUnavailable ProvUnprotected)
      | ObsProtected prov floor_text \<Rightarrow>
          (case ip_owner prov of
             Managed mechanism \<Rightarrow> Inl (ManagedInstall mechanism)
           | Direct \<Rightarrow>
               and_then (match_installation path_eq (uv_expected v) (ip_identity prov)) (\<lambda>_.
               case floor_text of
                 None \<Rightarrow> Inl VersionFloorInvalid
               | Some floor_text \<Rightarrow>
                   and_then (validate_version_floor sv (ip_identity prov) floor_text) (\<lambda>floor.
                   Inr \<lparr> ad_identity = uv_expected v, ad_verifying_key = uv_verifying_key v,
                     ad_floor_text = floor_text, ad_floor = floor \<rparr>))))"

section \<open>What admission establishes\<close>

lemma channel_str_inject [simp]: "channel_str a = channel_str b \<longleftrightarrow> a = b"
  by (cases a; cases b) simp_all

lemma channel_parse_str [simp]: "channel_parse (channel_str c) = Some c"
  by (cases c) (simp_all add: channel_parse_def)

lemma channel_parse_Some: "channel_parse s = Some c \<Longrightarrow> channel_str c = s"
  by (auto simp: channel_parse_def split: if_splits)

lemma install_mode_str_inject [simp]: "install_mode_str a = install_mode_str b \<longleftrightarrow> a = b"
  by (cases a; cases b) simp_all

lemma principal_model_str_inject [simp]: "principal_model_str a = principal_model_str b \<longleftrightarrow> a = b"
  by (cases a; cases b) simp_all

lemma hex_digest_Cons: "hex_digest (b # d) = hex_pair b @ hex_digest d"
  by (simp add: hex_digest_def)

lemma length_hex_pair [simp]: "length (hex_pair b) = 2"
  by (simp add: hex_pair_def)

lemma length_hex_digest [simp]: "length (hex_digest d) = 2 * length d"
  by (induction d) (simp_all add: hex_digest_def)

lemma hex_pair_inject [simp]: "hex_pair a = hex_pair b \<longleftrightarrow> a = b"
proof
  assume "hex_pair a = hex_pair b"
  then have digits: "HEX ! unat (drop_bit 4 a) = HEX ! unat (drop_bit 4 b)" "HEX ! unat (a AND 0x0F) = HEX ! unat (b AND 0x0F)"
    by (simp_all only: hex_pair_def list.inject)
  have "(Inr (drop_bit 4 a) :: IpcError + byte) = Inr (drop_bit 4 b)" "(Inr (a AND 0x0F) :: IpcError + byte) = Inr (b AND 0x0F)"
    using digits by (simp_all only: hex_pair_nibbles(1,2) [symmetric])
  then have "drop_bit 4 a = drop_bit 4 b" "a AND 0x0F = b AND 0x0F" by (simp_all only: sum.inject)
  then show "a = b" using hex_pair_nibbles(3) [of a] hex_pair_nibbles(3) [of b] by metis
qed simp

lemma hex_digest_inject [simp]: "hex_digest a = hex_digest b \<longleftrightarrow> a = b"
proof
  assume eq: "hex_digest a = hex_digest b"
  then have "2 * length a = 2 * length b" by (metis length_hex_digest)
  then have "length a = length b" by simp
  from this eq show "a = b"
    by (induction a b rule: list_induct2) (auto simp: hex_digest_Cons hex_digest_def)
qed simp

text \<open>Two installations agree when every field does, paths up to the platform's equality.\<close>

definition same_installation ::
  "(string \<Rightarrow> string \<Rightarrow> bool) \<Rightarrow> DirectInstallationIdentity \<Rightarrow> DirectInstallationIdentity \<Rightarrow> bool" where
  "same_installation path_eq a b =
     (path_eq (di_install_root a) (di_install_root b) \<and> path_eq (di_update_root a) (di_update_root b)
      \<and> a\<lparr> di_install_root := di_install_root b, di_update_root := di_update_root b \<rparr> = b)"

lemma match_installation_Inr: "match_installation path_eq a b = Inr u \<longleftrightarrow> same_installation path_eq a b"
  by (cases a; cases b)
     (auto simp: match_installation_def same_installation_def compare_field_def compare_path_def split: if_splits)

text \<open>A floor that is at or above the baseline; one of equal precedence is the baseline's own text.\<close>

definition floor_covers :: "'v Semver \<Rightarrow> ArtifactIdentity \<Rightarrow> string \<Rightarrow> 'v \<Rightarrow> bool" where
  "floor_covers sv baseline floor_text floor =
     (sv_parse sv floor_text = Some floor
      \<and> (case sv_parse sv (ai_version baseline) of
           None \<Rightarrow> False
         | Some b \<Rightarrow> sv_cmp sv floor b = OrdGreater
             \<or> sv_cmp sv floor b = OrdEqual \<and> floor_text = ai_version baseline))"

lemma validate_version_floor_Inr:
  "validate_version_floor sv identity text = Inr floor \<longleftrightarrow> floor_covers sv (di_baseline identity) text floor"
  by (auto simp: validate_version_floor_def floor_covers_def split: option.splits Ordering.splits if_splits)

text \<open>
  C23. Admission to updates is exact: a capability to verify feeds is handed out if and only if the
  trusted loader proved the record protected, Keld itself owns the installation, every recorded
  field is the running host's, and a protected floor is present, parses and is at or above the
  installed baseline (with the baseline's own text where the precedence is equal); it then carries
  the host's own identity and key and that floor, whatever the record said.
\<close>

theorem admission_exact:
  "verifier_admit sv path_eq v observed = Inr admitted \<longleftrightarrow>
     (\<exists>prov floor_text. observed = ObsProtected prov (Some floor_text) \<and> ip_owner prov = Direct
        \<and> same_installation path_eq (uv_expected v) (ip_identity prov)
        \<and> floor_covers sv (di_baseline (uv_expected v)) floor_text (ad_floor admitted)
        \<and> admitted = \<lparr> ad_identity = uv_expected v, ad_verifying_key = uv_verifying_key v,
            ad_floor_text = floor_text, ad_floor = ad_floor admitted \<rparr>)"
proof -
  have same: "di_baseline (ip_identity prov) = di_baseline (uv_expected v)"
    if "same_installation path_eq (uv_expected v) (ip_identity prov)" for prov
    using that by (cases "ip_identity prov"; cases "uv_expected v") (auto simp: same_installation_def)
  show ?thesis
    unfolding verifier_admit_def
    by (cases observed)
       (auto simp: and_then_eq_Inr match_installation_Inr validate_version_floor_Inr same
         split: InstallOwner.splits option.splits)
qed

end
