(* ===== verification/Update_Manifest.thy ===== *)
theory Update_Manifest
  imports Update_Provenance
begin

text \<open>
  Verification of a signed update manifest and selection of a release
  (\<open>crates/keld-update/src/manifest.rs\<close>). Decoding of the JSON text into the wire structure is an
  argument; a JSON number is what \<open>as_u64\<close> makes of it. The key, the signature check and base64 are
  those of \<open>Crypto\<close>, the last for a 64-byte destination.
\<close>

section \<open>Wire structure\<close>

type_synonym Number = "u64 option"

definition V0_SCHEMA :: u64 where "V0_SCHEMA = 1"
definition JSON_SAFE_INTEGER_MAX :: u64 where "JSON_SAFE_INTEGER_MAX = 9007199254740991"

record WireFull =
  wf_url :: string
  wf_size :: Number
  wf_blake3 :: string
  wf_content_size :: Number
  wf_content_blake3 :: string

record WireDelta =
  wd_from_version :: string
  wd_url :: string
  wd_size :: Number
  wd_blake3 :: string

record WireRelease =
  wr_version :: string
  wr_published_at :: string
  wr_full :: WireFull
  wr_deltas :: "WireDelta list"

record WireManifest =
  wm_schema :: Number
  wm_channel :: string
  wm_target :: string
  wm_app_id :: string
  wm_releases :: "WireRelease list"

record ValidFull =
  vf_url :: string
  vf_size :: u64
  vf_blake3 :: Digest
  vf_content_size :: u64
  vf_content_blake3 :: Digest

record 'v ValidRelease =
  vr_version_text :: string
  vr_version :: 'v
  vr_published_at :: string
  vr_full :: ValidFull

record SignedFullArtifact =
  sf_identity :: ArtifactIdentity
  sf_published_at :: string
  sf_url :: string
  sf_compressed_size :: u64
  sf_compressed_blake3 :: Digest
  sf_content_size :: u64

record SelectedFull =
  sel_installation :: DirectInstallationIdentity
  sel_artifact :: SignedFullArtifact

datatype ManifestDecision = NoUpdate | Update SelectedFull

section \<open>Fields\<close>

definition NL :: byte where "NL = 0x0A"
definition CR :: byte where "CR = 0x0D"

definition parse_signature :: "'k Crypto \<Rightarrow> bytes \<Rightarrow> UpdateError + bytes" where
  "parse_signature cr bs =
     (let stripped = strip_suffix bs [NL];
          encoded = (case stripped of None \<Rightarrow> bs | Some line \<Rightarrow> line) in
      if encoded = [] \<or> list_ex (\<lambda>b. b = CR \<or> b = NL) encoded
         \<or> (case stripped of None \<Rightarrow> False | Some line \<Rightarrow> suffix [NL] line)
      then Inl ManifestAuthentication
      else case cr_base64 cr encoded of
        None \<Rightarrow> Inl ManifestAuthentication
      | Some decoded \<Rightarrow> if length decoded \<noteq> 64 then Inl ManifestAuthentication else Inr decoded)"

definition validate_schema :: "Number \<Rightarrow> UpdateError + unit" where
  "validate_schema n = (if n = Some V0_SCHEMA then Inr () else Inl ManifestInvalid)"

definition compare_identity :: "ManifestIdentityField \<Rightarrow> string \<Rightarrow> string \<Rightarrow> UpdateError + unit" where
  "compare_identity field expected found =
     (if expected = found then Inr () else Inl (ManifestIdentityMismatch field))"

definition parse_version :: "'v Semver \<Rightarrow> string \<Rightarrow> UpdateError + 'v" where
  "parse_version sv s = ok_or (sv_parse sv s) ManifestInvalid"

definition parse_size :: "Number \<Rightarrow> UpdateError + u64" where
  "parse_size n =
     (case n of
        None \<Rightarrow> Inl ManifestInvalid
      | Some v \<Rightarrow> if 1 \<le> v \<and> v \<le> JSON_SAFE_INTEGER_MAX then Inr v else Inl ManifestInvalid)"

definition digest_nibble :: "byte \<Rightarrow> byte option" where
  "digest_nibble b =
     (if 0x30 \<le> b \<and> b \<le> 0x39 then Some (b - 0x30)
      else if 0x61 \<le> b \<and> b \<le> 0x66 then Some (b - 0x61 + 10)
      else if 0x41 \<le> b \<and> b \<le> 0x46 then Some (b - 0x41 + 10)
      else None)"

fun digest_bytes :: "bytes \<Rightarrow> UpdateError + Digest" where
  "digest_bytes (h # l # rest) =
     and_then (ok_or (digest_nibble h) ManifestInvalid) (\<lambda>high.
     and_then (ok_or (digest_nibble l) ManifestInvalid) (\<lambda>low.
     and_then (digest_bytes rest) (\<lambda>d. Inr ((push_bit 4 high OR low) # d))))"
| "digest_bytes _ = Inr []"

definition parse_digest :: "string \<Rightarrow> UpdateError + Digest" where
  "parse_digest s =
     (if length (bytes_of s) \<noteq> 64 \<or> list_ex (\<lambda>b. 0x80 \<le> b) (bytes_of s) then Inl ManifestInvalid
      else digest_bytes (bytes_of s))"

section \<open>Releases\<close>

fun validate_deltas :: "'v Semver \<Rightarrow> WireDelta list \<Rightarrow> string list \<Rightarrow> UpdateError + unit" where
  "validate_deltas sv [] seen = Inr ()"
| "validate_deltas sv (d # ds) seen =
     and_then (parse_version sv (wd_from_version d)) (\<lambda>_.
     if wd_from_version d \<in> set seen then Inl ManifestInvalid
     else
     and_then (parse_size (wd_size d)) (\<lambda>_.
     and_then (parse_digest (wd_blake3 d)) (\<lambda>_.
     validate_deltas sv ds (wd_from_version d # seen))))"

definition validate_full :: "WireFull \<Rightarrow> UpdateError + ValidFull" where
  "validate_full f =
     and_then (parse_size (wf_size f)) (\<lambda>size.
     and_then (parse_digest (wf_blake3 f)) (\<lambda>blake3.
     and_then (parse_size (wf_content_size f)) (\<lambda>content_size.
     and_then (parse_digest (wf_content_blake3 f)) (\<lambda>content_blake3.
     Inr \<lparr> vf_url = wf_url f, vf_size = size, vf_blake3 = blake3, vf_content_size = content_size,
       vf_content_blake3 = content_blake3 \<rparr>))))"

definition validate_release :: "'v Semver \<Rightarrow> WireRelease \<Rightarrow> UpdateError + 'v ValidRelease" where
  "validate_release sv r =
     and_then (parse_version sv (wr_version r)) (\<lambda>version.
     and_then (validate_full (wr_full r)) (\<lambda>full.
     and_then (validate_deltas sv (wr_deltas r) []) (\<lambda>_.
     Inr \<lparr> vr_version_text = wr_version r, vr_version = version, vr_published_at = wr_published_at r,
       vr_full = full \<rparr>)))"

fun validate_each :: "'v Semver \<Rightarrow> WireRelease list \<Rightarrow> UpdateError + 'v ValidRelease list" where
  "validate_each sv [] = Inr []"
| "validate_each sv (r # rs) =
     and_then (validate_release sv r) (\<lambda>v. and_then (validate_each sv rs) (\<lambda>vs. Inr (v # vs)))"

text \<open>\<open>slice::sort_by\<close>, stable, and \<open>windows(2)\<close> over the sorted positions.\<close>

fun insert_by :: "('a \<Rightarrow> 'a \<Rightarrow> Ordering) \<Rightarrow> 'a \<Rightarrow> 'a list \<Rightarrow> 'a list" where
  "insert_by cmp x [] = [x]"
| "insert_by cmp x (y # ys) = (if cmp x y = OrdGreater then y # insert_by cmp x ys else x # y # ys)"

definition sort_by :: "('a \<Rightarrow> 'a \<Rightarrow> Ordering) \<Rightarrow> 'a list \<Rightarrow> 'a list" where
  "sort_by cmp xs = foldr (insert_by cmp) xs []"

fun adjacent_equal :: "('a \<Rightarrow> 'a \<Rightarrow> Ordering) \<Rightarrow> 'a list \<Rightarrow> bool" where
  "adjacent_equal cmp (x # y # ys) = (cmp x y = OrdEqual \<or> adjacent_equal cmp (y # ys))"
| "adjacent_equal cmp _ = False"

definition cmp_at :: "'v Semver \<Rightarrow> 'v ValidRelease list \<Rightarrow> nat \<Rightarrow> nat \<Rightarrow> Ordering" where
  "cmp_at sv validated i j = sv_cmp sv (vr_version (validated ! i)) (vr_version (validated ! j))"

definition validate_releases :: "'v Semver \<Rightarrow> WireRelease list \<Rightarrow> UpdateError + 'v ValidRelease list" where
  "validate_releases sv releases =
     and_then (validate_each sv releases) (\<lambda>validated.
     let precedence_order = sort_by (cmp_at sv validated) [0..<length validated] in
     if adjacent_equal (cmp_at sv validated) precedence_order then Inl ManifestInvalid else Inr validated)"

definition into_artifact :: "DirectInstallationIdentity \<Rightarrow> 'v ValidRelease \<Rightarrow> SignedFullArtifact" where
  "into_artifact installation r =
     \<lparr> sf_identity = \<lparr> ai_app_id = di_app_id installation, ai_channel = di_channel installation,
         ai_target = di_target installation, ai_version = vr_version_text r,
         ai_content_blake3 = vf_content_blake3 (vr_full r) \<rparr>,
       sf_published_at = vr_published_at r, sf_url = vf_url (vr_full r),
       sf_compressed_size = vf_size (vr_full r), sf_compressed_blake3 = vf_blake3 (vr_full r),
       sf_content_size = vf_content_size (vr_full r) \<rparr>"

text \<open>\<open>Iterator::max_by\<close>: the last of the greatest elements.\<close>

fun max_by :: "('a \<Rightarrow> 'a \<Rightarrow> Ordering) \<Rightarrow> 'a list \<Rightarrow> 'a option" where
  "max_by cmp [] = None"
| "max_by cmp (x # xs) = Some (fold (\<lambda>y best. if cmp best y = OrdGreater then best else y) xs x)"

definition select_release :: "'v Semver \<Rightarrow> ('k, 'v) AdmittedInstallation \<Rightarrow> 'v ValidRelease list \<Rightarrow> ManifestDecision" where
  "select_release sv admitted releases =
     (case max_by (\<lambda>l r. sv_cmp sv (vr_version l) (vr_version r))
             (filter (\<lambda>r. sv_cmp sv (vr_version r) (ad_floor admitted) = OrdGreater) releases) of
        None \<Rightarrow> NoUpdate
      | Some release \<Rightarrow>
          Update \<lparr> sel_installation = ad_identity admitted, sel_artifact = into_artifact (ad_identity admitted) release \<rparr>)"

definition select_baseline :: "DirectInstallationIdentity \<Rightarrow> 'v ValidRelease list \<Rightarrow> UpdateError + SignedFullArtifact" where
  "select_baseline identity releases =
     (case find (\<lambda>r. vr_version_text r = ai_version (di_baseline identity)) releases of
        None \<Rightarrow> Inl (BaselineRefusal ''baseline selection'')
      | Some release \<Rightarrow>
          if sf_identity (into_artifact identity release) \<noteq> di_baseline identity
          then Inl (BaselineRefusal ''baseline identity'')
          else Inr (into_artifact identity release))"

section \<open>Verification\<close>

definition authenticate_manifest ::
  "'v Semver \<Rightarrow> 'k Crypto \<Rightarrow> (bytes \<Rightarrow> WireManifest option) \<Rightarrow> DirectInstallationIdentity \<Rightarrow> 'k
    \<Rightarrow> bytes \<Rightarrow> bytes \<Rightarrow> UpdateError + 'v ValidRelease list" where
  "authenticate_manifest sv cr json identity key manifest_bytes signature_bytes =
     and_then (parse_signature cr signature_bytes) (\<lambda>signature.
     if \<not> cr_verify cr key manifest_bytes signature then Inl ManifestAuthentication
     else
     and_then (ok_or (json manifest_bytes) ManifestInvalid) (\<lambda>manifest.
     and_then (validate_schema (wm_schema manifest)) (\<lambda>_.
     and_then (compare_identity MfAppId (di_app_id identity) (wm_app_id manifest)) (\<lambda>_.
     and_then (compare_identity MfChannel (channel_str (di_channel identity)) (wm_channel manifest)) (\<lambda>_.
     and_then (compare_identity MfTarget (di_target identity) (wm_target manifest)) (\<lambda>_.
     validate_releases sv (wm_releases manifest)))))))"

definition verify_manifest ::
  "'v Semver \<Rightarrow> 'k Crypto \<Rightarrow> (bytes \<Rightarrow> WireManifest option) \<Rightarrow> ('k, 'v) AdmittedInstallation
    \<Rightarrow> bytes \<Rightarrow> bytes \<Rightarrow> UpdateError + ManifestDecision" where
  "verify_manifest sv cr json admitted manifest_bytes signature_bytes =
     and_then (authenticate_manifest sv cr json (ad_identity admitted) (ad_verifying_key admitted)
       manifest_bytes signature_bytes) (\<lambda>releases.
     Inr (select_release sv admitted releases))"

section \<open>Digests as text\<close>

lemma digest_nibble_eq: "digest_nibble b = (case hex_nibble b of Inl _ \<Rightarrow> None | Inr n \<Rightarrow> Some n)"
  by (simp add: digest_nibble_def hex_nibble_def)

lemma hex_pair_bytes:
  "bytes_of (hex_pair b) = [byte_of (HEX ! unat (drop_bit 4 b)), byte_of (HEX ! unat (b AND 0x0F))]"
  by (simp add: hex_pair_def bytes_of_def)

lemma bytes_of_append [simp]: "bytes_of (a @ b) = bytes_of a @ bytes_of b"
  by (simp add: bytes_of_def)

lemma digest_bytes_hex: "digest_bytes (bytes_of (hex_digest d)) = Inr d"
proof (induction d)
  case (Cons b d)
  then show ?case
    by (simp only: hex_digest_Cons bytes_of_append hex_pair_bytes append_Cons append_Nil digest_bytes.simps
        digest_nibble_eq hex_pair_nibbles sum.case ok_or_simps and_then_Inr)
qed (simp add: hex_digest_def bytes_of_def)

lemma HEX_lowercase: "c \<in> set HEX \<Longrightarrow> is_lowercase_hex [c] \<and> byte_of c < 0x80"
proof -
  have "list_all (\<lambda>c. is_lowercase_hex [c] \<and> byte_of c < 0x80) HEX" by code_simp
  then show "c \<in> set HEX \<Longrightarrow> ?thesis" by (simp add: list_all_iff)
qed

lemma is_lowercase_hex_simps [simp]:
  "is_lowercase_hex []" "is_lowercase_hex (a @ b) \<longleftrightarrow> is_lowercase_hex a \<and> is_lowercase_hex b"
  by (simp_all add: is_lowercase_hex_def bytes_of_def)

lemma is_lowercase_hexI: "(\<And>c. c \<in> set s \<Longrightarrow> is_lowercase_hex [c]) \<Longrightarrow> is_lowercase_hex s"
  by (simp add: is_lowercase_hex_def bytes_of_def list_all_iff)

lemma hex_digest_chars: "c \<in> set (hex_digest d) \<Longrightarrow> c \<in> set HEX"
  using to_hex_chars [of c d] by (simp add: hex_digest_def to_hex_def)

lemma hex_digest_lowercase [simp]: "is_lowercase_hex (hex_digest d)"
  by (rule is_lowercase_hexI) (use hex_digest_chars HEX_lowercase in blast)

lemma parse_digest_hex: "length d = 32 \<Longrightarrow> parse_digest (hex_digest d) = Inr d"
proof -
  have "\<not> 0x80 \<le> byte_of c" if "c \<in> set (hex_digest d)" for c
    using HEX_lowercase [OF hex_digest_chars [OF that]] by (simp add: not_le)
  then have "\<not> list_ex (\<lambda>b. 0x80 \<le> b) (bytes_of (hex_digest d))" by (auto simp: list_ex_iff bytes_of_def)
  moreover assume "length d = 32"
  ultimately show ?thesis by (simp add: parse_digest_def digest_bytes_hex) (simp add: bytes_of_def)
qed

lemma digest_bytes_inverse:
  "digest_bytes bs = Inr d \<Longrightarrow> even (length bs) \<Longrightarrow> list_all (\<lambda>b. \<not> (0x41 \<le> b \<and> b \<le> 0x46)) bs
    \<Longrightarrow> bytes_of (hex_digest d) = bs"
proof (induction bs arbitrary: d rule: digest_bytes.induct)
  case (1 h l rest)
  from 1(2) obtain hi lo ds where n: "digest_nibble h = Some hi" "digest_nibble l = Some lo" "digest_bytes rest = Inr ds"
    and d: "d = (push_bit 4 hi OR lo) # ds" by (auto simp: and_then_eq_Inr)
  have "hex_nibble h = Inr hi" "hex_nibble l = Inr lo" using n by (auto simp: digest_nibble_eq split: sum.splits)
  then have digits: "hi < 16" "byte_of (HEX ! unat hi) = h" "lo < 16" "byte_of (HEX ! unat lo) = l"
    using hex_nibble_inverse [of h hi] hex_nibble_inverse [of l lo] 1(4) by auto
  have "bytes_of (hex_pair (push_bit 4 hi OR lo)) = [h, l]"
    unfolding hex_pair_bytes nibble_parts [OF digits(1,3)] digits(2,4) by simp
  moreover have "bytes_of (hex_digest ds) = rest" using 1 n by simp
  ultimately show ?case by (simp only: d hex_digest_Cons bytes_of_append append_Cons append_Nil)
qed (auto simp: hex_digest_def bytes_of_def)

lemma parse_digest_inverse:
  assumes "parse_digest s = Inr d" "is_lowercase_hex s"
  shows "hex_digest d = s" "length d = 32"
proof -
  from assms(1) have s: "length (bytes_of s) = 64" "digest_bytes (bytes_of s) = Inr d"
    by (auto simp: parse_digest_def split: if_splits)
  have "list_all (\<lambda>b. \<not> (0x41 \<le> b \<and> b \<le> 0x46)) (bytes_of s)"
    using assms(2) unfolding is_lowercase_hex_def list_all_iff by (auto simp: word_le_nat_alt)
  with s have "bytes_of (hex_digest d) = bytes_of s" by (intro digest_bytes_inverse) simp_all
  then show "hex_digest d = s" by simp
  moreover have "length s = 64" using s(1) by (simp add: bytes_of_def)
  ultimately show "length d = 32" using length_hex_digest [of d] by simp
qed

section \<open>Order of the releases\<close>

lemma ord_reverse_simps [simp]:
  "ord_reverse (ord_reverse r) = r" "ord_reverse r = OrdEqual \<longleftrightarrow> r = OrdEqual"
  "ord_reverse r = OrdGreater \<longleftrightarrow> r = OrdLess" "ord_reverse r = OrdLess \<longleftrightarrow> r = OrdGreater"
  by (cases r; simp)+

lemma total_cmpD:
  assumes "total_cmp cmp"
  shows "cmp b a = ord_reverse (cmp a b)"
    and "cmp a b \<noteq> OrdGreater \<Longrightarrow> cmp b c \<noteq> OrdGreater \<Longrightarrow> cmp a c \<noteq> OrdGreater"
  using assms unfolding total_cmp_def by blast+

lemma total_cmp_less_trans:
  assumes "total_cmp cmp" "cmp a b = OrdLess" "cmp b c \<noteq> OrdGreater"
  shows "cmp a c = OrdLess"
proof (rule ccontr)
  assume ac: "cmp a c \<noteq> OrdLess"
  have "cmp c a \<noteq> OrdGreater" using ac total_cmpD(1) [OF assms(1), of c a] by simp
  then have "cmp b a \<noteq> OrdGreater" using total_cmpD(2) [OF assms(1) assms(3)] by blast
  then show False using assms(2) total_cmpD(1) [OF assms(1), of b a] by simp
qed

lemma total_cmp_map: "total_cmp cmp \<Longrightarrow> total_cmp (\<lambda>i j. cmp (f i) (f j))"
  unfolding total_cmp_def by blast

lemma set_insert_by [simp]: "set (insert_by cmp x ys) = insert x (set ys)"
  by (induction ys) auto

lemma distinct_insert_by: "distinct (insert_by cmp x ys) \<longleftrightarrow> x \<notin> set ys \<and> distinct ys"
  by (induction ys) auto

lemma set_sort_by [simp]: "set (sort_by cmp xs) = set xs"
  by (induction xs) (simp_all add: sort_by_def)

lemma distinct_sort_by [simp]: "distinct (sort_by cmp xs) \<longleftrightarrow> distinct xs"
  using set_sort_by [of cmp] by (induction xs) (simp_all add: sort_by_def distinct_insert_by)

lemma sorted_insert_by:
  assumes "total_cmp cmp" "sorted_wrt (\<lambda>a b. cmp a b \<noteq> OrdGreater) ys"
  shows "sorted_wrt (\<lambda>a b. cmp a b \<noteq> OrdGreater) (insert_by cmp x ys)"
  using assms(2)
proof (induction ys)
  case (Cons y ys)
  show ?case
  proof (cases "cmp x y = OrdGreater")
    case True
    then have "cmp y x \<noteq> OrdGreater" using total_cmpD(1) [OF assms(1), of y x] by simp
    with True Cons show ?thesis by auto
  next
    case False
    with Cons.prems total_cmpD(2) [OF assms(1) False] show ?thesis by auto
  qed
qed simp

lemma sorted_sort_by: "total_cmp cmp \<Longrightarrow> sorted_wrt (\<lambda>a b. cmp a b \<noteq> OrdGreater) (sort_by cmp xs)"
  by (induction xs) (simp_all add: sort_by_def sorted_insert_by)

lemma adjacent_equal_iff:
  assumes "total_cmp cmp" "sorted_wrt (\<lambda>a b. cmp a b \<noteq> OrdGreater) xs"
  shows "\<not> adjacent_equal cmp xs \<longleftrightarrow> sorted_wrt (\<lambda>a b. cmp a b = OrdLess) xs"
  using assms(2)
proof (induction xs rule: induct_list012)
  case (3 x y zs)
  have xy: "cmp x y = OrdLess \<longleftrightarrow> cmp x y \<noteq> OrdEqual" using 3(3) by (cases "cmp x y") simp_all
  have "\<forall>z \<in> set zs. cmp x z = OrdLess" if "cmp x y = OrdLess"
    using 3(3) total_cmp_less_trans [OF assms(1) that] by simp
  moreover have "\<not> adjacent_equal cmp (y # zs) \<longleftrightarrow> sorted_wrt (\<lambda>a b. cmp a b = OrdLess) (y # zs)"
    using 3 by simp
  ultimately show ?case using xy by auto
qed simp_all

lemma sorted_wrt_related: "sorted_wrt P xs \<Longrightarrow> a \<in> set xs \<Longrightarrow> b \<in> set xs \<Longrightarrow> a = b \<or> P a b \<or> P b a"
  by (induction xs) auto

lemma sorted_wrt_strengthen:
  "sorted_wrt P xs \<Longrightarrow> distinct xs \<Longrightarrow> (\<And>a b. a \<in> set xs \<Longrightarrow> b \<in> set xs \<Longrightarrow> a \<noteq> b \<Longrightarrow> P a b \<Longrightarrow> Q a b)
    \<Longrightarrow> sorted_wrt Q xs"
  by (induction xs) auto

text \<open>No two releases of equal precedence, at whatever positions.\<close>

definition distinct_precedence :: "'v Semver \<Rightarrow> 'v ValidRelease list \<Rightarrow> bool" where
  "distinct_precedence sv rs =
     (\<forall>i < length rs. \<forall>j < length rs. i = j \<or> sv_cmp sv (vr_version (rs ! i)) (vr_version (rs ! j)) \<noteq> OrdEqual)"

lemma validate_releases_Inr:
  assumes "precedence_order sv"
  shows "validate_releases sv rs = Inr valid \<longleftrightarrow> validate_each sv rs = Inr valid \<and> distinct_precedence sv valid"
proof -
  have total: "total_cmp (cmp_at sv valid)"
    using assms total_cmp_map [of "sv_cmp sv" "\<lambda>i. vr_version (valid ! i)"]
    unfolding precedence_order_def by (simp add: cmp_at_def [abs_def])
  let ?s = "sort_by (cmp_at sv valid) [0..<length valid]"
  have "\<not> adjacent_equal (cmp_at sv valid) ?s \<longleftrightarrow> sorted_wrt (\<lambda>a b. cmp_at sv valid a b = OrdLess) ?s"
    using adjacent_equal_iff [OF total sorted_sort_by [OF total]] .
  also have "\<dots> \<longleftrightarrow> distinct_precedence sv valid"
  proof
    assume less: "sorted_wrt (\<lambda>a b. cmp_at sv valid a b = OrdLess) ?s"
    show "distinct_precedence sv valid"
      unfolding distinct_precedence_def
    proof (intro allI impI)
      fix i j assume "i < length valid" "j < length valid"
      then have "i \<in> set ?s" "j \<in> set ?s" by simp_all
      then have "i = j \<or> cmp_at sv valid i j = OrdLess \<or> cmp_at sv valid j i = OrdLess"
        by (rule sorted_wrt_related [OF less])
      then show "i = j \<or> sv_cmp sv (vr_version (valid ! i)) (vr_version (valid ! j)) \<noteq> OrdEqual"
        using total_cmpD(1) [OF total, of i j] by (auto simp: cmp_at_def)
    qed
  next
    assume d: "distinct_precedence sv valid"
    have "cmp_at sv valid i j = OrdLess"
      if "i \<in> set ?s" "j \<in> set ?s" "i \<noteq> j" "cmp_at sv valid i j \<noteq> OrdGreater" for i j
      using that d by (cases "cmp_at sv valid i j") (auto simp: distinct_precedence_def cmp_at_def)
    then show "sorted_wrt (\<lambda>a b. cmp_at sv valid a b = OrdLess) ?s"
      by (intro sorted_wrt_strengthen [OF sorted_sort_by [OF total]]) simp_all
  qed
  finally show ?thesis by (auto simp: validate_releases_def Let_def and_then_eq_Inr split: if_splits)
qed

lemma total_cmp_refl: "total_cmp cmp \<Longrightarrow> cmp x x = OrdEqual"
  using total_cmpD(1) [of cmp x x] by (cases "cmp x x") simp_all

lemma max_by_fold:
  assumes "total_cmp cmp"
  defines "pick \<equiv> \<lambda>y best. if cmp best y = OrdGreater then best else y"
  shows "fold pick xs x \<in> insert x (set xs) \<and> (\<forall>y \<in> insert x (set xs). cmp y (fold pick xs x) \<noteq> OrdGreater)"
proof (induction xs arbitrary: x)
  case Nil
  show ?case using total_cmp_refl [OF assms(1), of x] by simp
next
  case (Cons y ys)
  have kept: "cmp x (pick y x) \<noteq> OrdGreater" "cmp y (pick y x) \<noteq> OrdGreater" "pick y x \<in> {x, y}"
    using total_cmp_refl [OF assms(1)] total_cmpD(1) [OF assms(1), of y x] by (auto simp: pick_def)
  let ?m = "fold pick ys (pick y x)"
  have m: "?m \<in> insert (pick y x) (set ys)" "\<forall>z \<in> insert (pick y x) (set ys). cmp z ?m \<noteq> OrdGreater"
    using Cons.IH [of "pick y x"] by blast+
  have "cmp x ?m \<noteq> OrdGreater" "cmp y ?m \<noteq> OrdGreater"
    using m(2) total_cmpD(2) [OF assms(1) kept(1)] total_cmpD(2) [OF assms(1) kept(2)] by blast+
  moreover have "?m \<in> insert x (set (y # ys))" using m(1) kept(3) by auto
  ultimately show ?case using m(2) by simp
qed

lemma max_by_Some:
  assumes "total_cmp cmp" "max_by cmp xs = Some m"
  shows "m \<in> set xs" "\<forall>y \<in> set xs. cmp y m \<noteq> OrdGreater"
  using max_by_fold [OF assms(1)] assms(2) by (cases xs; auto)+

lemma max_by_None [simp]: "max_by cmp xs = None \<longleftrightarrow> xs = []"
  by (cases xs) simp_all

section \<open>What a verified manifest selects\<close>

text \<open>The release a decision names is the newest of all and above the floor; no update means none is above it.\<close>

definition newest_above_floor :: "'v Semver \<Rightarrow> ('k, 'v) AdmittedInstallation \<Rightarrow> 'v ValidRelease list \<Rightarrow> ManifestDecision \<Rightarrow> bool" where
  "newest_above_floor sv admitted releases decision =
     (case decision of
        NoUpdate \<Rightarrow> list_all (\<lambda>r. sv_cmp sv (vr_version r) (ad_floor admitted) \<noteq> OrdGreater) releases
      | Update s \<Rightarrow>
          list_ex (\<lambda>r. sv_cmp sv (vr_version r) (ad_floor admitted) = OrdGreater
            \<and> list_all (\<lambda>r'. r' = r \<or> sv_cmp sv (vr_version r') (vr_version r) = OrdLess) releases
            \<and> s = \<lparr> sel_installation = ad_identity admitted, sel_artifact = into_artifact (ad_identity admitted) r \<rparr>) releases)"

lemma total_cmp_trans_less:
  assumes "total_cmp cmp" "cmp a b \<noteq> OrdGreater" "cmp b c = OrdLess"
  shows "cmp a c = OrdLess"
proof (rule ccontr)
  assume "cmp a c \<noteq> OrdLess"
  then have "cmp c a \<noteq> OrdGreater" using total_cmpD(1) [OF assms(1), of c a] by simp
  from total_cmpD(2) [OF assms(1) this assms(2)] assms(3) total_cmpD(1) [OF assms(1), of c b] show False by simp
qed

lemma distinct_precedenceD:
  assumes "distinct_precedence sv rs" "a \<in> set rs" "b \<in> set rs" "a \<noteq> b"
  shows "sv_cmp sv (vr_version a) (vr_version b) \<noteq> OrdEqual"
  using assms unfolding distinct_precedence_def in_set_conv_nth by metis

lemma select_release_newest:
  assumes order: "precedence_order sv" and d: "distinct_precedence sv rs"
  shows "select_release sv admitted rs = decision \<longleftrightarrow> newest_above_floor sv admitted rs decision"
proof -
  let ?cmp = "\<lambda>l r. sv_cmp sv (vr_version l) (vr_version r)"
  let ?above = "\<lambda>r. sv_cmp sv (vr_version r) (ad_floor admitted) = OrdGreater"
  have total: "total_cmp (sv_cmp sv)" using order by (simp add: precedence_order_def)
  have total': "total_cmp ?cmp" by (rule total_cmp_map [OF total])
  let ?named = "\<lambda>r. Update \<lparr> sel_installation = ad_identity admitted, sel_artifact = into_artifact (ad_identity admitted) r \<rparr>"
  show ?thesis
  proof (cases "max_by ?cmp (filter ?above rs)")
    case None
    then have "list_all (\<lambda>r. \<not> ?above r) rs" by (simp add: filter_empty_conv list_all_iff)
    with None show ?thesis
      by (cases decision) (auto simp: select_release_def newest_above_floor_def list_all_iff list_ex_iff)
  next
    case (Some m)
    have m: "m \<in> set rs" "?above m" "\<And>y. y \<in> set rs \<Longrightarrow> ?above y \<Longrightarrow> ?cmp y m \<noteq> OrdGreater"
      using max_by_Some [OF total' Some] by auto
    have less: "y = m \<or> ?cmp y m = OrdLess" if "y \<in> set rs" for y
    proof (cases "?above y")
      case True
      then show ?thesis
        using m(3) [OF that True] distinct_precedenceD [OF d that m(1)] by (cases "?cmp y m") auto
    next
      case False
      moreover have "sv_cmp sv (ad_floor admitted) (vr_version m) = OrdLess"
        using m(2) total_cmpD(1) [OF total, of "ad_floor admitted" "vr_version m"] by simp
      ultimately show ?thesis using total_cmp_trans_less [OF total] by blast
    qed
    have unique: "r = m" if "r \<in> set rs" "list_all (\<lambda>r'. r' = r \<or> ?cmp r' r = OrdLess) rs" for r
    proof (rule ccontr)
      assume "r \<noteq> m"
      then have "?cmp r m = OrdLess" "?cmp m r = OrdLess" using less [OF that(1)] that(2) m(1) by (auto simp: list_all_iff)
      then show False using total_cmpD(1) [OF total', of m r] by simp
    qed
    have sel: "select_release sv admitted rs = ?named m" using Some by (simp add: select_release_def)
    show ?thesis
    proof (cases decision)
      case NoUpdate
      then show ?thesis using sel m(1,2) by (auto simp: newest_above_floor_def list_all_iff)
    next
      case (Update s)
      have newest: "list_all (\<lambda>r'. r' = m \<or> ?cmp r' m = OrdLess) rs" using less by (simp add: list_all_iff)
      have "newest_above_floor sv admitted rs (Update s) \<longleftrightarrow> Update s = ?named m"
        unfolding newest_above_floor_def ManifestDecision.case list_ex_iff using m(1,2) newest unique by blast
      with Update sel show ?thesis by metis
    qed
  qed
qed

lemma authenticate_manifest_Inr:
  "authenticate_manifest sv cr json identity key manifest_bytes signature_bytes = Inr valid \<longleftrightarrow>
    (\<exists>signature wire.
       parse_signature cr signature_bytes = Inr signature \<and> cr_verify cr key manifest_bytes signature
       \<and> json manifest_bytes = Some wire \<and> wm_schema wire = Some 1
       \<and> wm_app_id wire = di_app_id identity \<and> wm_channel wire = channel_str (di_channel identity)
       \<and> wm_target wire = di_target identity \<and> validate_releases sv (wm_releases wire) = Inr valid)"
proof (cases "parse_signature cr signature_bytes")
  case (Inr signature)
  then show ?thesis
    by (cases "json manifest_bytes")
       (auto simp: authenticate_manifest_def compare_identity_def validate_schema_def V0_SCHEMA_def)
qed (simp add: authenticate_manifest_def)

text \<open>
  C22. An update is offered only on authenticated terms and never backwards: a decision is reached if
  and only if the detached signature verifies over the literal manifest bytes under the compiled-in
  key before anything is parsed, the manifest is of the known schema and names this very app,
  channel and target, every release in it is well formed and no two have equal precedence; an offered
  release is strictly above the protected floor and strictly newer than every other release.
\<close>

theorem update_selection_exact:
  assumes "precedence_order sv"
  shows "verify_manifest sv cr json admitted manifest_bytes signature_bytes = Inr decision \<longleftrightarrow>
    (\<exists>signature wire valid.
       parse_signature cr signature_bytes = Inr signature
       \<and> cr_verify cr (ad_verifying_key admitted) manifest_bytes signature
       \<and> json manifest_bytes = Some wire \<and> wm_schema wire = Some 1
       \<and> wm_app_id wire = di_app_id (ad_identity admitted)
       \<and> wm_channel wire = channel_str (di_channel (ad_identity admitted))
       \<and> wm_target wire = di_target (ad_identity admitted)
       \<and> validate_each sv (wm_releases wire) = Inr valid \<and> distinct_precedence sv valid
       \<and> newest_above_floor sv admitted valid decision)"
  unfolding verify_manifest_def and_then_eq_Inr authenticate_manifest_Inr sum.inject validate_releases_Inr [OF assms]
  using select_release_newest [OF assms, of _ admitted decision] by blast

text \<open>A concrete feed: dotted decimal versions, a key that is its bytes, a signature that repeats the message's length.\<close>

fun decimal :: "nat \<Rightarrow> string \<Rightarrow> nat option" where
  "decimal n [] = Some n"
| "decimal n (c # cs) =
     (if 0x30 \<le> byte_of c \<and> byte_of c \<le> 0x39 then decimal (10 * n + unat (byte_of c - 0x30)) cs else None)"

definition sample_cmp :: "nat \<Rightarrow> nat \<Rightarrow> Ordering" where
  "sample_cmp a b = (if a < b then OrdLess else if a = b then OrdEqual else OrdGreater)"

definition sample_semver :: "nat Semver" where
  "sample_semver =
     \<lparr> sv_parse = (\<lambda>s. case map (decimal 0) (split_on (\<lambda>c. c = CHR ''.'') s) of
         [Some a, Some b, Some c] \<Rightarrow> Some ((a * 1000 + b) * 1000 + c) | _ \<Rightarrow> None),
       sv_cmp = sample_cmp \<rparr>"

definition sample_crypto :: "bytes Crypto" where
  "sample_crypto =
     \<lparr> cr_key = Some, cr_weak = (\<lambda>k. k = []), cr_verify = (\<lambda>k m s. s = replicate 64 (of_nat (length m))),
       cr_blake3 = (\<lambda>bs. take 32 (bs @ replicate 32 0)), cr_base64 = (\<lambda>bs. Some (replicate 64 (of_nat (length bs)))) \<rparr>"

definition sample_full :: WireFull where
  "sample_full = \<lparr> wf_url = ''full.zst'', wf_size = Some 10, wf_blake3 = hex_digest (replicate 32 0xAA),
     wf_content_size = Some 20, wf_content_blake3 = hex_digest (replicate 32 0xBB) \<rparr>"

definition sample_release :: "string \<Rightarrow> WireRelease" where
  "sample_release v = \<lparr> wr_version = v, wr_published_at = ''2026-01-01'', wr_full = sample_full, wr_deltas = [] \<rparr>"

definition sample_artifact :: "string \<Rightarrow> ArtifactIdentity" where
  "sample_artifact v = \<lparr> ai_app_id = ''app'', ai_channel = Stable, ai_target = ''windows-x64'', ai_version = v,
     ai_content_blake3 = replicate 32 0xBB \<rparr>"

definition sample_installation :: DirectInstallationIdentity where
  "sample_installation = \<lparr> di_install_mode = PerUserDirect, di_app_id = ''app'', di_channel = Stable,
     di_target = ''windows-x64'', di_install_root = ''r'', di_update_root = ''u'', di_signing_key_id = replicate 32 1,
     di_baseline = sample_artifact ''1.0.0'', di_profile_digest = replicate 32 2,
     di_principal_model = StrictDistinctOsPrincipals \<rparr>"

definition sample_admitted :: "(bytes, nat) AdmittedInstallation" where
  "sample_admitted = \<lparr> ad_identity = sample_installation, ad_verifying_key = [1], ad_floor_text = ''1.1.0'',
     ad_floor = 1001000 \<rparr>"

definition sample_feed :: "bytes \<Rightarrow> WireManifest option" where
  "sample_feed bs = Some \<lparr> wm_schema = Some 1, wm_channel = ''stable'', wm_target = ''windows-x64'', wm_app_id = ''app'',
     wm_releases = map sample_release [''1.1.0'', ''1.3.0'', ''1.2.0''] \<rparr>"

lemma sample_precedence: "precedence_order sample_semver"
  by (simp add: precedence_order_def total_cmp_def sample_semver_def sample_cmp_def)

theorem update_selection_exact_witness:
  "precedence_order sample_semver
   \<and> verify_manifest sample_semver sample_crypto sample_feed sample_admitted [7, 7, 7] [1, 2, 3, 10]
     = Inr (Update \<lparr> sel_installation = sample_installation, sel_artifact =
         \<lparr> sf_identity = sample_artifact ''1.3.0'', sf_published_at = ''2026-01-01'', sf_url = ''full.zst'',
           sf_compressed_size = 10, sf_compressed_blake3 = replicate 32 0xAA, sf_content_size = 20 \<rparr> \<rparr>)"
proof -
  let ?full = "\<lparr> vf_url = ''full.zst'', vf_size = 10, vf_blake3 = replicate 32 0xAA, vf_content_size = 20,
    vf_content_blake3 = replicate 32 0xBB \<rparr>"
  let ?valid = "map (\<lambda>v. \<lparr> vr_version_text = v, vr_version = the (sv_parse sample_semver v),
    vr_published_at = ''2026-01-01'', vr_full = ?full \<rparr>) [''1.1.0'', ''1.3.0'', ''1.2.0'']"
  have parsed: "map (sv_parse sample_semver) [''1.1.0'', ''1.3.0'', ''1.2.0''] = [Some 1001000, Some 1003000, Some 1002000]"
    by (simp add: sample_semver_def byte_of_def)
  have signed: "parse_signature sample_crypto [1, 2, 3, 10] = Inr (replicate 64 3)" by code_simp
  have "validate_full sample_full = Inr ?full"
    by (simp add: validate_full_def sample_full_def parse_size_def parse_digest_hex JSON_SAFE_INTEGER_MAX_def)
  with parsed have each: "validate_each sample_semver (map sample_release [''1.1.0'', ''1.3.0'', ''1.2.0'']) = Inr ?valid"
    by (simp add: validate_release_def parse_version_def sample_release_def)
  have cmp: "sv_cmp sample_semver = sample_cmp" by (simp add: sample_semver_def)
  have "distinct_precedence sample_semver ?valid"
    using parsed by (simp add: distinct_precedence_def cmp sample_cmp_def less_Suc_eq numeral_3_eq_3)
  moreover have "newest_above_floor sample_semver sample_admitted ?valid (Update \<lparr> sel_installation = sample_installation, sel_artifact =
         \<lparr> sf_identity = sample_artifact ''1.3.0'', sf_published_at = ''2026-01-01'', sf_url = ''full.zst'',
           sf_compressed_size = 10, sf_compressed_blake3 = replicate 32 0xAA, sf_content_size = 20 \<rparr> \<rparr>)"
    using parsed by (simp add: newest_above_floor_def cmp sample_cmp_def sample_admitted_def into_artifact_def
        sample_installation_def sample_artifact_def)
  ultimately show ?thesis
    using sample_precedence signed each
    by (subst update_selection_exact [OF sample_precedence])
       (auto simp: sample_feed_def sample_admitted_def sample_installation_def sample_crypto_def)
qed

end
