(* ===== verification/Update_Records.thy ===== *)
theory Update_Records
  imports Update_Manifest
begin

text \<open>
  Local records of the update engine (\<open>crates/keld-update/src/records.rs\<close>): the activation journal, the
  pointers, the trust floor and the completion record, with their canonical JSON encodings.
  Serialisation of each wire structure is an argument (\<open>Json\<close>, a writer and a reader of texts); the
  canonicality check and everything around it is modelled. Signed 64-bit times are words read with
  \<open>sint\<close>. Provenance records are not modelled.
\<close>

section \<open>Journal\<close>

record 'w Json =
  js_write :: "'w \<Rightarrow> bytes option"
  js_read :: "bytes \<Rightarrow> 'w option"

text \<open>A text that was written is read back: documented behaviour of derived serialisation.\<close>

definition json_faithful :: "'w Json \<Rightarrow> bool" where
  "json_faithful js \<longleftrightarrow> (\<forall>w bs. js_write js w = Some bs \<longrightarrow> js_read js bs = Some w)"

definition MAX_LOCAL_RECORD_BYTES :: nat where "MAX_LOCAL_RECORD_BYTES = 64 * 1024"
definition COMPLETE_SCHEMA :: string where "COMPLETE_SCHEMA = ''keld.complete/v1''"
definition FLOOR_SCHEMA :: string where "FLOOR_SCHEMA = ''keld.version-floor/v1''"
definition ACTIVATION_JOURNAL_SCHEMA_V1 :: string where "ACTIVATION_JOURNAL_SCHEMA_V1 = ''keld.activation-journal/v1''"
definition ACTIVATION_JOURNAL_SCHEMA_V2 :: string where "ACTIVATION_JOURNAL_SCHEMA_V2 = ''keld.activation-journal/v2''"
definition ACTIVATION_HEALTH_RECEIPT_DOMAIN :: bytes where
  "ACTIVATION_HEALTH_RECEIPT_DOMAIN = bytes_of ''keld.activation-health-receipt/v1'' @ [0]"

record CompleteRecord =
  cmp_artifact :: ArtifactIdentity
  cmp_content_size :: u64

datatype PointerKind = PointCurrent | PointLastKnownGood | PointPreviousKnownGood

fun pointer_schema :: "PointerKind \<Rightarrow> string" where
  "pointer_schema PointCurrent = ''keld.current/v1''"
| "pointer_schema PointLastKnownGood = ''keld.last-known-good/v1''"
| "pointer_schema PointPreviousKnownGood = ''keld.previous-known-good/v1''"

datatype ActivationFailureClass = CandidateLaunch | HealthRejected | HealthTimeout | ProcessCrash

datatype ActivationPhase =
    PublishPending
  | AwaitingHealth
  | HealthAccepted Digest
  | RollbackPending ActivationFailureClass

record InitiatingLogon =
  il_authentication_id :: u64
  il_logon_time :: u64

record AttemptOwner =
  ao_process_id :: u32
  ao_creation_time :: u64

record AttemptOwnership =
  aw_initiating_logon :: InitiatingLogon
  aw_attempt_owner :: AttemptOwner

record ActivationJournal =
  aj_attempt_id :: Digest
  aj_candidate :: ArtifactIdentity
  aj_rollback_target :: ArtifactIdentity
  aj_prior_floor :: string
  aj_prior_last_known_good :: ArtifactIdentity
  aj_prior_previous_known_good :: "ArtifactIdentity option"
  aj_helper_image_blake3 :: Digest
  aj_health_channel_id :: Digest
  aj_lifecycle_channel_id :: Digest
  aj_ownership :: "AttemptOwnership option"
  aj_phase :: ActivationPhase

section \<open>Wire structures\<close>

record WireArtifact =
  wa_app_id :: string
  wa_channel :: string
  wa_target :: string
  wa_version :: string
  wa_content_blake3 :: string

record WireComplete =
  wc_schema :: string
  wc_artifact :: WireArtifact
  wc_content_size :: u64

record WireFloor =
  wfl_schema :: string
  wfl_version :: string

record WirePointer =
  wp_schema :: string
  wp_artifact :: WireArtifact

record WireInitiatingLogon =
  wi_authentication_id :: string
  wi_logon_time :: string

record WireAttemptOwner =
  wo_owner_process_id :: u32
  wo_owner_creation_time :: string

datatype WireActivationPhase =
    WirePublishPending
  | WireAwaitingHealth
  | WireHealthAccepted string
  | WireRollbackPending string

record WireActivationJournal =
  wj_schema :: string
  wj_attempt_id :: string
  wj_candidate :: WireArtifact
  wj_rollback_target :: WireArtifact
  wj_prior_floor :: string
  wj_prior_last_known_good :: WireArtifact
  wj_prior_previous_known_good :: "WireArtifact option"
  wj_helper_image_blake3 :: string
  wj_health_channel_id :: string
  wj_lifecycle_channel_id :: string
  wj_initiating_logon :: "WireInitiatingLogon option"
  wj_attempt_owner :: "WireAttemptOwner option"
  wj_phase :: WireActivationPhase

section \<open>Fields\<close>

definition encode_local :: "'w Json \<Rightarrow> 'w \<Rightarrow> UpdateError + bytes" where
  "encode_local js wire =
     and_then (ok_or (js_write js wire) LocalRecordInvalid) (\<lambda>bs.
     if length bs > MAX_LOCAL_RECORD_BYTES then Inl LocalRecordInvalid else Inr bs)"

definition decode_local :: "'w Json \<Rightarrow> bytes \<Rightarrow> UpdateError + 'w" where
  "decode_local js bs =
     (if bs = [] \<or> length bs > MAX_LOCAL_RECORD_BYTES then Inl LocalRecordInvalid
      else
      and_then (ok_or (js_read js bs) LocalRecordInvalid) (\<lambda>wire.
      and_then (encode_local js wire) (\<lambda>canonical.
      if canonical \<noteq> bs then Inl LocalRecordInvalid else Inr wire)))"

definition strict_version :: "'v Semver \<Rightarrow> string \<Rightarrow> UpdateError + unit" where
  "strict_version sv s = (if sv_parse sv s = None then Inl LocalRecordInvalid else Inr ())"

text \<open>\<open>char::is_control\<close> over UTF-8: below space, delete, and the two-byte range U+0080 to U+009F.\<close>

fun text_has_control :: "bytes \<Rightarrow> bool" where
  "text_has_control [] = False"
| "text_has_control (a # rest) =
     (a < 0x20 \<or> a = 0x7F
      \<or> a = 0xC2 \<and> (case rest of [] \<Rightarrow> False | b # _ \<Rightarrow> 0x80 \<le> b \<and> b \<le> 0x9F)
      \<or> text_has_control rest)"

definition nonempty :: "string \<Rightarrow> UpdateError + unit" where
  "nonempty s = (if s = [] \<or> text_has_control (bytes_of s) then Inl LocalRecordInvalid else Inr ())"

definition check_schema :: "string \<Rightarrow> string \<Rightarrow> UpdateError + unit" where
  "check_schema found expected = (if found = expected then Inr () else Inl LocalRecordInvalid)"

definition check_size :: "u64 \<Rightarrow> UpdateError + unit" where
  "check_size v = (if 1 \<le> v \<and> v \<le> JSON_SAFE_INTEGER_MAX then Inr () else Inl LocalRecordInvalid)"

definition channel_field :: "string \<Rightarrow> UpdateError + Channel" where
  "channel_field s = ok_or (channel_parse s) LocalRecordInvalid"

definition digest_field :: "string \<Rightarrow> UpdateError + Digest" where
  "digest_field s =
     (if \<not> is_lowercase_hex s then Inl LocalRecordInvalid
      else case parse_digest s of Inl _ \<Rightarrow> Inl LocalRecordInvalid | Inr d \<Rightarrow> Inr d)"

text \<open>\<open>u64::from_str_radix\<close> in base 16 of at most 16 digits, and \<open>{:016x}\<close>.\<close>

fun radix16 :: "u64 \<Rightarrow> bytes \<Rightarrow> u64 option" where
  "radix16 acc [] = Some acc"
| "radix16 acc (b # bs) = (case digest_nibble b of None \<Rightarrow> None | Some n \<Rightarrow> radix16 (push_bit 4 acc OR ucast n) bs)"

definition h16 :: "string \<Rightarrow> UpdateError + u64" where
  "h16 s =
     (if length s \<noteq> 16 \<or> \<not> is_lowercase_hex s then Inl LocalRecordInvalid
      else ok_or (radix16 0 (bytes_of s)) LocalRecordInvalid)"

definition wire_h16 :: "u64 \<Rightarrow> string" where
  "wire_h16 v = map (\<lambda>i. HEX ! unat (drop_bit (4 * i) v AND 0x0F)) (rev [0..<16])"

definition wire_artifact :: "'v Semver \<Rightarrow> ArtifactIdentity \<Rightarrow> UpdateError + WireArtifact" where
  "wire_artifact sv a =
     and_then (nonempty (ai_app_id a)) (\<lambda>_.
     and_then (nonempty (ai_target a)) (\<lambda>_.
     and_then (strict_version sv (ai_version a)) (\<lambda>_.
     Inr \<lparr> wa_app_id = ai_app_id a, wa_channel = channel_str (ai_channel a), wa_target = ai_target a,
       wa_version = ai_version a, wa_content_blake3 = hex_digest (ai_content_blake3 a) \<rparr>)))"

definition artifact_of_wire :: "'v Semver \<Rightarrow> WireArtifact \<Rightarrow> UpdateError + ArtifactIdentity" where
  "artifact_of_wire sv w =
     and_then (nonempty (wa_app_id w)) (\<lambda>_.
     and_then (nonempty (wa_target w)) (\<lambda>_.
     and_then (strict_version sv (wa_version w)) (\<lambda>_.
     and_then (channel_field (wa_channel w)) (\<lambda>channel.
     and_then (digest_field (wa_content_blake3 w)) (\<lambda>content_blake3.
     Inr \<lparr> ai_app_id = wa_app_id w, ai_channel = channel, ai_target = wa_target w, ai_version = wa_version w,
       ai_content_blake3 = content_blake3 \<rparr>)))))"

text \<open>\<open>Option::map\<close> with \<open>transpose\<close>.\<close>

definition transposed :: "('a \<Rightarrow> 'e + 'b) \<Rightarrow> 'a option \<Rightarrow> 'e + 'b option" where
  "transposed f x = (case x of None \<Rightarrow> Inr None | Some a \<Rightarrow> and_then (f a) (\<lambda>b. Inr (Some b)))"

fun failure_str :: "ActivationFailureClass \<Rightarrow> string" where
  "failure_str CandidateLaunch = ''candidate-launch''"
| "failure_str HealthRejected = ''health-rejected''"
| "failure_str HealthTimeout = ''health-timeout''"
| "failure_str ProcessCrash = ''process-crash''"

definition failure_parse :: "string \<Rightarrow> UpdateError + ActivationFailureClass" where
  "failure_parse s =
     (if s = ''candidate-launch'' then Inr CandidateLaunch
      else if s = ''health-rejected'' then Inr HealthRejected
      else if s = ''health-timeout'' then Inr HealthTimeout
      else if s = ''process-crash'' then Inr ProcessCrash
      else Inl LocalRecordInvalid)"

fun wire_activation_phase :: "ActivationPhase \<Rightarrow> WireActivationPhase" where
  "wire_activation_phase PublishPending = WirePublishPending"
| "wire_activation_phase AwaitingHealth = WireAwaitingHealth"
| "wire_activation_phase (HealthAccepted receipt) = WireHealthAccepted (hex_digest receipt)"
| "wire_activation_phase (RollbackPending failure) = WireRollbackPending (failure_str failure)"

fun activation_phase :: "WireActivationPhase \<Rightarrow> UpdateError + ActivationPhase" where
  "activation_phase WirePublishPending = Inr PublishPending"
| "activation_phase WireAwaitingHealth = Inr AwaitingHealth"
| "activation_phase (WireHealthAccepted receipt) = and_then (digest_field receipt) (\<lambda>d. Inr (HealthAccepted d))"
| "activation_phase (WireRollbackPending failure) = and_then (failure_parse failure) (\<lambda>f. Inr (RollbackPending f))"

section \<open>Validation\<close>

definition same_artifact_scope :: "ArtifactIdentity \<Rightarrow> ArtifactIdentity \<Rightarrow> bool" where
  "same_artifact_scope a b = (ai_app_id a = ai_app_id b \<and> ai_channel a = ai_channel b \<and> ai_target a = ai_target b)"

definition validate_attempt_ownership :: "AttemptOwnership \<Rightarrow> UpdateError + unit" where
  "validate_attempt_ownership w =
     (if ao_process_id (aw_attempt_owner w) = 0 then Inl LocalRecordInvalid
      else if ao_creation_time (aw_attempt_owner w) = 0 then Inl LocalRecordInvalid
      else if il_authentication_id (aw_initiating_logon w) = 0 then Inl LocalRecordInvalid
      else if sint (il_logon_time (aw_initiating_logon w)) \<le> 0 then Inl LocalRecordInvalid
      else Inr ())"

definition local_version :: "'v Semver \<Rightarrow> string \<Rightarrow> UpdateError + 'v" where
  "local_version sv s = ok_or (sv_parse sv s) LocalRecordInvalid"

fun covered_by_floor :: "'v Semver \<Rightarrow> 'v \<Rightarrow> ArtifactIdentity list \<Rightarrow> UpdateError + unit" where
  "covered_by_floor sv prior_floor [] = Inr ()"
| "covered_by_floor sv prior_floor (a # as) =
     and_then (local_version sv (ai_version a)) (\<lambda>version.
     if sv_cmp sv version prior_floor = OrdGreater then Inl LocalRecordInvalid
     else covered_by_floor sv prior_floor as)"

fun within_scope :: "'v Semver \<Rightarrow> ArtifactIdentity \<Rightarrow> ArtifactIdentity list \<Rightarrow> UpdateError + unit" where
  "within_scope sv candidate [] = Inr ()"
| "within_scope sv candidate (a # as) =
     and_then (wire_artifact sv a) (\<lambda>_.
     if \<not> same_artifact_scope candidate a then Inl LocalRecordInvalid else within_scope sv candidate as)"

definition validate_previous :: "'v Semver \<Rightarrow> ActivationJournal \<Rightarrow> ArtifactIdentity \<Rightarrow> UpdateError + unit" where
  "validate_previous sv j previous =
     and_then (wire_artifact sv previous) (\<lambda>_.
     if \<not> same_artifact_scope (aj_candidate j) previous \<or> previous = aj_prior_last_known_good j then Inl LocalRecordInvalid
     else
     and_then (local_version sv (ai_version previous)) (\<lambda>previous_version.
     and_then (local_version sv (ai_version (aj_prior_last_known_good j))) (\<lambda>last_known_good_version.
     if sv_cmp sv previous_version last_known_good_version \<noteq> OrdLess then Inl LocalRecordInvalid else Inr ())))"

definition validate_activation_journal :: "'v Semver \<Rightarrow> ActivationJournal \<Rightarrow> UpdateError + unit" where
  "validate_activation_journal sv j =
     (if aj_lifecycle_channel_id j = aj_attempt_id j \<or> aj_lifecycle_channel_id j = aj_health_channel_id j
      then Inl LocalRecordInvalid
      else
      and_then (strict_version sv (aj_prior_floor j)) (\<lambda>_.
      and_then (local_version sv (aj_prior_floor j)) (\<lambda>prior_floor.
      and_then (local_version sv (ai_version (aj_candidate j))) (\<lambda>candidate_version.
      if sv_cmp sv candidate_version prior_floor \<noteq> OrdGreater then Inl LocalRecordInvalid
      else
      and_then (covered_by_floor sv prior_floor
        ([aj_rollback_target j, aj_prior_last_known_good j]
          @ (case aj_prior_previous_known_good j of None \<Rightarrow> [] | Some p \<Rightarrow> [p]))) (\<lambda>_.
      and_then (within_scope sv (aj_candidate j)
        [aj_candidate j, aj_rollback_target j, aj_prior_last_known_good j]) (\<lambda>_.
      and_then (case aj_prior_previous_known_good j of None \<Rightarrow> Inr () | Some p \<Rightarrow> validate_previous sv j p) (\<lambda>_.
      if aj_rollback_target j \<noteq> aj_prior_last_known_good j
         \<and> aj_prior_previous_known_good j \<noteq> Some (aj_rollback_target j)
      then Inl LocalRecordInvalid
      else (case aj_ownership j of None \<Rightarrow> Inr () | Some w \<Rightarrow> validate_attempt_ownership w))))))))"

section \<open>Records\<close>

definition u64_to_le_bytes :: "u64 \<Rightarrow> bytes" where
  "u64_to_le_bytes v = map (\<lambda>i. ucast (drop_bit (8 * i) v)) [0..<8]"

text \<open>The hash input of a health receipt. A length above \<open>u64::MAX\<close> cannot occur below the record bound.\<close>

definition health_receipt_input :: "Digest \<Rightarrow> Digest \<Rightarrow> bytes \<Rightarrow> bytes" where
  "health_receipt_input attempt_id health_channel_id artifact =
     ACTIVATION_HEALTH_RECEIPT_DOMAIN @ attempt_id @ health_channel_id
       @ u64_to_le_bytes (of_nat (length artifact)) @ artifact"

definition activation_health_receipt_digest ::
  "'v Semver \<Rightarrow> (bytes \<Rightarrow> Digest) \<Rightarrow> WireArtifact Json \<Rightarrow> Digest \<Rightarrow> Digest \<Rightarrow> ArtifactIdentity \<Rightarrow> UpdateError + Digest" where
  "activation_health_receipt_digest sv blake3 js attempt_id health_channel_id candidate =
     and_then (wire_artifact sv candidate) (\<lambda>wire.
     and_then (encode_local js wire) (\<lambda>artifact.
     Inr (blake3 (health_receipt_input attempt_id health_channel_id artifact))))"

definition encode_complete :: "'v Semver \<Rightarrow> WireComplete Json \<Rightarrow> ArtifactIdentity \<Rightarrow> u64 \<Rightarrow> UpdateError + bytes" where
  "encode_complete sv js a content_size =
     and_then (check_size content_size) (\<lambda>_.
     and_then (wire_artifact sv a) (\<lambda>w.
     encode_local js \<lparr> wc_schema = COMPLETE_SCHEMA, wc_artifact = w, wc_content_size = content_size \<rparr>))"

definition decode_complete :: "'v Semver \<Rightarrow> WireComplete Json \<Rightarrow> bytes \<Rightarrow> UpdateError + CompleteRecord" where
  "decode_complete sv js bs =
     and_then (decode_local js bs) (\<lambda>w.
     and_then (check_schema (wc_schema w) COMPLETE_SCHEMA) (\<lambda>_.
     and_then (check_size (wc_content_size w)) (\<lambda>_.
     and_then (artifact_of_wire sv (wc_artifact w)) (\<lambda>a.
     Inr \<lparr> cmp_artifact = a, cmp_content_size = wc_content_size w \<rparr>))))"

definition encode_floor :: "'v Semver \<Rightarrow> WireFloor Json \<Rightarrow> string \<Rightarrow> UpdateError + bytes" where
  "encode_floor sv js version =
     and_then (strict_version sv version) (\<lambda>_.
     encode_local js \<lparr> wfl_schema = FLOOR_SCHEMA, wfl_version = version \<rparr>)"

definition decode_floor :: "'v Semver \<Rightarrow> WireFloor Json \<Rightarrow> bytes \<Rightarrow> UpdateError + string" where
  "decode_floor sv js bs =
     and_then (decode_local js bs) (\<lambda>w.
     and_then (check_schema (wfl_schema w) FLOOR_SCHEMA) (\<lambda>_.
     and_then (strict_version sv (wfl_version w)) (\<lambda>_. Inr (wfl_version w))))"

definition encode_pointer :: "'v Semver \<Rightarrow> WirePointer Json \<Rightarrow> PointerKind \<Rightarrow> ArtifactIdentity \<Rightarrow> UpdateError + bytes" where
  "encode_pointer sv js kind a =
     and_then (wire_artifact sv a) (\<lambda>w.
     encode_local js \<lparr> wp_schema = pointer_schema kind, wp_artifact = w \<rparr>)"

definition decode_pointer :: "'v Semver \<Rightarrow> WirePointer Json \<Rightarrow> PointerKind \<Rightarrow> bytes \<Rightarrow> UpdateError + ArtifactIdentity" where
  "decode_pointer sv js kind bs =
     and_then (decode_local js bs) (\<lambda>w.
     and_then (check_schema (wp_schema w) (pointer_schema kind)) (\<lambda>_.
     artifact_of_wire sv (wp_artifact w)))"

definition wire_logon :: "InitiatingLogon \<Rightarrow> WireInitiatingLogon" where
  "wire_logon l = \<lparr> wi_authentication_id = wire_h16 (il_authentication_id l), wi_logon_time = wire_h16 (il_logon_time l) \<rparr>"

definition wire_owner :: "AttemptOwner \<Rightarrow> WireAttemptOwner" where
  "wire_owner w = \<lparr> wo_owner_process_id = ao_process_id w, wo_owner_creation_time = wire_h16 (ao_creation_time w) \<rparr>"

definition journal_wire :: "'v Semver \<Rightarrow> ActivationJournal \<Rightarrow> UpdateError + WireActivationJournal" where
  "journal_wire sv j =
     and_then (wire_artifact sv (aj_candidate j)) (\<lambda>candidate.
     and_then (wire_artifact sv (aj_rollback_target j)) (\<lambda>rollback_target.
     and_then (wire_artifact sv (aj_prior_last_known_good j)) (\<lambda>prior_last_known_good.
     and_then (transposed (wire_artifact sv) (aj_prior_previous_known_good j)) (\<lambda>prior_previous_known_good.
     Inr \<lparr> wj_schema = (case aj_ownership j of None \<Rightarrow> ACTIVATION_JOURNAL_SCHEMA_V1 | Some _ \<Rightarrow> ACTIVATION_JOURNAL_SCHEMA_V2),
       wj_attempt_id = hex_digest (aj_attempt_id j), wj_candidate = candidate, wj_rollback_target = rollback_target,
       wj_prior_floor = aj_prior_floor j, wj_prior_last_known_good = prior_last_known_good,
       wj_prior_previous_known_good = prior_previous_known_good,
       wj_helper_image_blake3 = hex_digest (aj_helper_image_blake3 j),
       wj_health_channel_id = hex_digest (aj_health_channel_id j),
       wj_lifecycle_channel_id = hex_digest (aj_lifecycle_channel_id j),
       wj_initiating_logon = map_option (wire_logon \<circ> aw_initiating_logon) (aj_ownership j),
       wj_attempt_owner = map_option (wire_owner \<circ> aw_attempt_owner) (aj_ownership j),
       wj_phase = wire_activation_phase (aj_phase j) \<rparr>))))"

definition encode_activation_journal ::
  "'v Semver \<Rightarrow> WireActivationJournal Json \<Rightarrow> ActivationJournal \<Rightarrow> UpdateError + bytes" where
  "encode_activation_journal sv js j =
     and_then (validate_activation_journal sv j) (\<lambda>_. and_then (journal_wire sv j) (encode_local js))"

definition attempt_ownership ::
  "string \<Rightarrow> WireInitiatingLogon option \<Rightarrow> WireAttemptOwner option \<Rightarrow> UpdateError + AttemptOwnership option" where
  "attempt_ownership schema logon owner =
     (case (logon, owner) of
        (None, None) \<Rightarrow> if schema = ACTIVATION_JOURNAL_SCHEMA_V1 then Inr None else Inl LocalRecordInvalid
      | (Some l, Some w) \<Rightarrow>
          if schema = ACTIVATION_JOURNAL_SCHEMA_V2 then
            and_then (h16 (wi_authentication_id l)) (\<lambda>authentication_id.
            and_then (h16 (wi_logon_time l)) (\<lambda>logon_time.
            and_then (h16 (wo_owner_creation_time w)) (\<lambda>owner_creation_time.
            Inr (Some \<lparr> aw_initiating_logon = \<lparr> il_authentication_id = authentication_id, il_logon_time = logon_time \<rparr>,
              aw_attempt_owner = \<lparr> ao_process_id = wo_owner_process_id w, ao_creation_time = owner_creation_time \<rparr> \<rparr>))))
          else Inl LocalRecordInvalid
      | _ \<Rightarrow> Inl LocalRecordInvalid)"

definition journal_of_wire :: "'v Semver \<Rightarrow> WireActivationJournal \<Rightarrow> UpdateError + ActivationJournal" where
  "journal_of_wire sv w =
     and_then (attempt_ownership (wj_schema w) (wj_initiating_logon w) (wj_attempt_owner w)) (\<lambda>ownership.
     and_then (digest_field (wj_attempt_id w)) (\<lambda>attempt_id.
     and_then (artifact_of_wire sv (wj_candidate w)) (\<lambda>candidate.
     and_then (artifact_of_wire sv (wj_rollback_target w)) (\<lambda>rollback_target.
     and_then (artifact_of_wire sv (wj_prior_last_known_good w)) (\<lambda>prior_last_known_good.
     and_then (transposed (artifact_of_wire sv) (wj_prior_previous_known_good w)) (\<lambda>prior_previous_known_good.
     and_then (digest_field (wj_helper_image_blake3 w)) (\<lambda>helper_image_blake3.
     and_then (digest_field (wj_health_channel_id w)) (\<lambda>health_channel_id.
     and_then (digest_field (wj_lifecycle_channel_id w)) (\<lambda>lifecycle_channel_id.
     and_then (activation_phase (wj_phase w)) (\<lambda>phase.
     Inr \<lparr> aj_attempt_id = attempt_id, aj_candidate = candidate, aj_rollback_target = rollback_target,
       aj_prior_floor = wj_prior_floor w, aj_prior_last_known_good = prior_last_known_good,
       aj_prior_previous_known_good = prior_previous_known_good, aj_helper_image_blake3 = helper_image_blake3,
       aj_health_channel_id = health_channel_id, aj_lifecycle_channel_id = lifecycle_channel_id,
       aj_ownership = ownership, aj_phase = phase \<rparr>))))))))))"

definition decode_activation_journal ::
  "'v Semver \<Rightarrow> WireActivationJournal Json \<Rightarrow> bytes \<Rightarrow> UpdateError + ActivationJournal" where
  "decode_activation_journal sv js bs =
     and_then (decode_local js bs) (\<lambda>w.
     and_then (journal_of_wire sv w) (\<lambda>j.
     and_then (validate_activation_journal sv j) (\<lambda>_. Inr j)))"

section \<open>Sixteen-digit words\<close>

lemma mask_4: "(0x0F :: 'a::len word) = mask 4"
  by (simp add: mask_eq_exp_minus_1)

lemma nibble_take_bit: "n < (16::byte) \<Longrightarrow> take_bit 4 n = n"
  by (simp add: take_bit_eq_mod word_unat_eq_iff unat_mod word_less_nat_alt)

lemma wire_digit_bound: "unat ((v::u64) AND 0x0F) < 16"
proof -
  have "v AND 0x0F \<le> 0x0F" by (rule word_and_le1)
  then show ?thesis by (simp add: word_le_nat_alt)
qed

lemma wire_digit:
  fixes v :: u64
  shows "digest_nibble (byte_of (HEX ! unat (v AND 0x0F))) = Some (ucast (v AND 0x0F))"
  using hex_nibble_HEX [OF wire_digit_bound [of v]] by (simp add: digest_nibble_eq)

definition hex_digits :: "nat \<Rightarrow> u64 \<Rightarrow> string" where
  "hex_digits n v = map (\<lambda>i. HEX ! unat (drop_bit (4 * i) v AND 0x0F)) (rev [0..<n])"

lemma hex_digits_Suc:
  "hex_digits (Suc n) v = HEX ! unat (drop_bit (4 * n) v AND 0x0F) # hex_digits n v"
  by (simp add: hex_digits_def)

lemma wire_h16_digits: "wire_h16 v = hex_digits 16 v"
  by (simp add: wire_h16_def hex_digits_def)

lemma bytes_of_Cons: "bytes_of (c # s) = byte_of c # bytes_of s"
  by (simp add: bytes_of_def)

lemma radix16_hex_digits:
  "radix16 acc (bytes_of (hex_digits n v)) = Some (push_bit (4 * n) acc OR take_bit (4 * n) v)"
proof (induction n arbitrary: acc)
  case (Suc n)
  have "push_bit (4 * n) (push_bit 4 acc OR (drop_bit (4 * n) v AND mask 4)) OR take_bit (4 * n) v
      = push_bit (4 * Suc n) acc OR take_bit (4 * Suc n) v"
    by (rule bit_word_eqI) (auto simp: bit_simps add.commute)
  moreover have "ucast (ucast (drop_bit (4 * n) v AND mask 4 :: u64) :: byte) = drop_bit (4 * n) v AND mask 4"
    by (rule bit_word_eqI) (auto simp: bit_simps)
  ultimately show ?case
    using Suc wire_digit [of "drop_bit (4 * n) v"]
    by (simp only: hex_digits_Suc bytes_of_Cons radix16.simps option.case mask_4)
qed (simp add: hex_digits_def bytes_of_def)

lemma radix16_bits:
  "radix16 acc bs = Some v \<Longrightarrow> 4 * length bs + i < 64 \<Longrightarrow> bit v (4 * length bs + i) = bit acc i"
proof (induction bs arbitrary: acc i)
  case (Cons b bs)
  from Cons.prems(1) obtain n where n: "digest_nibble b = Some n" "radix16 (push_bit 4 acc OR ucast n) bs = Some v"
    by (auto split: option.splits)
  have "n < 16" using hex_nibble_inverse [of b n] n(1) by (auto simp: digest_nibble_eq split: sum.splits)
  then have "take_bit 4 n = n" by (rule nibble_take_bit)
  then have "\<not> bit n (4 + i)" by (metis bit_take_bit_iff not_add_less1)
  then show ?case using Cons.IH [OF n(2), of "4 + i"] Cons.prems(2) by (simp add: bit_simps algebra_simps)
qed simp

lemma radix16_inverse:
  assumes "radix16 acc bs = Some v" "length bs \<le> 16" "\<forall>b \<in> set bs. \<not> (0x41 \<le> b \<and> b \<le> 0x46)"
  shows "bytes_of (hex_digits (length bs) v) = bs"
  using assms
proof (induction bs arbitrary: acc)
  case (Cons b bs)
  from Cons.prems(1) obtain n where n: "digest_nibble b = Some n" "radix16 (push_bit 4 acc OR ucast n) bs = Some v"
    by (auto split: option.splits)
  then have b: "n < 16" "byte_of (HEX ! unat n) = b"
    using hex_nibble_inverse [of b n] Cons.prems(3) by (auto simp: digest_nibble_eq split: sum.splits)
  have small: "take_bit 4 n = n" using b(1) by (rule nibble_take_bit)
  have "drop_bit (4 * length bs) v AND mask 4 = ucast n"
  proof (rule bit_word_eqI)
    fix i assume "i < LENGTH(64)"
    show "bit (drop_bit (4 * length bs) v AND mask 4) i = bit (ucast n :: u64) i"
    proof (cases "i < 4")
      case True
      then show ?thesis using radix16_bits [OF n(2), of i] Cons.prems(2) by (auto simp: bit_simps)
    next
      case False
      then have "\<not> bit n i" using small by (metis bit_take_bit_iff)
      then show ?thesis using False by (simp add: bit_simps)
    qed
  qed
  then have "unat (drop_bit (4 * length bs) v AND 0x0F) = unat n"
    using b(1) by (simp add: mask_4 unsigned_ucast_eq take_bit_nat_eq_self_iff word_less_nat_alt)
  then show ?case using Cons.IH [OF n(2)] Cons.prems b(2) by (simp add: hex_digits_Suc bytes_of_Cons)
qed (simp add: hex_digits_def bytes_of_def)

lemma h16_wire: "h16 (wire_h16 v) = Inr v"
proof -
  have "c \<in> set HEX" if "c \<in> set (wire_h16 v)" for c
  proof -
    have "length HEX = 16" by (simp add: HEX_def)
    with that wire_digit_bound show ?thesis by (auto simp: wire_h16_def)
  qed
  then have "is_lowercase_hex (wire_h16 v)" using HEX_lowercase by (blast intro: is_lowercase_hexI)
  moreover have "radix16 0 (bytes_of (wire_h16 v)) = Some v"
    unfolding wire_h16_digits radix16_hex_digits by (simp add: take_bit_word_beyond_length_eq)
  ultimately show ?thesis by (simp add: h16_def) (simp add: wire_h16_def)
qed

lemma h16_inverse:
  assumes "h16 s = Inr v"
  shows "wire_h16 v = s"
proof -
  from assms have s: "length (bytes_of s) = 16" "is_lowercase_hex s" "radix16 0 (bytes_of s) = Some v"
    by (auto simp: h16_def bytes_of_def split: if_splits)
  have "\<forall>b \<in> set (bytes_of s). \<not> (0x41 \<le> b \<and> b \<le> 0x46)"
    using s(2) unfolding is_lowercase_hex_def list_all_iff by (auto simp: word_le_nat_alt)
  then have "bytes_of (hex_digits (length (bytes_of s)) v) = bytes_of s"
    using s by (intro radix16_inverse) simp_all
  then show ?thesis unfolding s(1) wire_h16_digits by simp
qed

section \<open>Fields read back as they are written\<close>

lemma digest_field_inverse: "digest_field s = Inr d \<Longrightarrow> hex_digest d = s \<and> length d = 32"
  using parse_digest_inverse [of s] by (auto simp: digest_field_def split: if_splits sum.splits)

lemma digest_field_hex: "length d = 32 \<Longrightarrow> digest_field (hex_digest d) = Inr d"
  by (simp add: digest_field_def parse_digest_hex)

lemma channel_field_inverse: "channel_field s = Inr c \<Longrightarrow> channel_str c = s"
  by (auto simp: channel_field_def channel_parse_Some)

lemma channel_field_str [simp]: "channel_field (channel_str c) = Inr c"
  by (simp add: channel_field_def)

lemma failure_parse_inverse: "failure_parse s = Inr f \<Longrightarrow> failure_str f = s"
  by (auto simp: failure_parse_def split: if_splits)

lemma failure_parse_str [simp]: "failure_parse (failure_str f) = Inr f"
  by (cases f) (simp_all add: failure_parse_def)

lemma artifact_inverse:
  "artifact_of_wire sv w = Inr a \<Longrightarrow> wire_artifact sv a = Inr w \<and> length (ai_content_blake3 a) = 32"
  by (auto simp: artifact_of_wire_def wire_artifact_def and_then_eq_Inr dest!: digest_field_inverse channel_field_inverse)

lemma artifact_wire:
  "wire_artifact sv a = Inr w \<Longrightarrow> length (ai_content_blake3 a) = 32 \<Longrightarrow> artifact_of_wire sv w = Inr a"
  by (auto simp: artifact_of_wire_def wire_artifact_def and_then_eq_Inr digest_field_hex)

lemma transposed_inverse:
  assumes "\<And>a b. f a = Inr b \<Longrightarrow> g b = Inr a" "transposed f x = Inr y"
  shows "transposed g y = Inr x"
  using assms by (auto simp: transposed_def and_then_eq_Inr split: option.splits)

lemma phase_inverse: "activation_phase w = Inr p \<Longrightarrow> wire_activation_phase p = w"
  by (cases w) (auto simp: and_then_eq_Inr dest!: digest_field_inverse failure_parse_inverse)

lemma ownership_inverse:
  "attempt_ownership schema logon owner = Inr w \<Longrightarrow>
    schema = (case w of None \<Rightarrow> ACTIVATION_JOURNAL_SCHEMA_V1 | Some _ \<Rightarrow> ACTIVATION_JOURNAL_SCHEMA_V2)
    \<and> logon = map_option (wire_logon \<circ> aw_initiating_logon) w \<and> owner = map_option (wire_owner \<circ> aw_attempt_owner) w"
  by (auto simp: attempt_ownership_def wire_logon_def wire_owner_def and_then_eq_Inr
      split: option.splits if_splits dest!: h16_inverse)

lemma ownership_wire:
  "attempt_ownership (case w of None \<Rightarrow> ACTIVATION_JOURNAL_SCHEMA_V1 | Some _ \<Rightarrow> ACTIVATION_JOURNAL_SCHEMA_V2)
    (map_option (wire_logon \<circ> aw_initiating_logon) w) (map_option (wire_owner \<circ> aw_attempt_owner) w) = Inr w"
  by (simp add: attempt_ownership_def wire_logon_def wire_owner_def h16_wire split: option.split)

section \<open>Canonical texts\<close>

lemma encode_local_Inr:
  "encode_local js w = Inr bs \<longleftrightarrow> js_write js w = Some bs \<and> length bs \<le> MAX_LOCAL_RECORD_BYTES"
  by (cases "js_write js w") (auto simp: encode_local_def)

lemma decode_local_Inr:
  "decode_local js bs = Inr w \<longleftrightarrow> bs \<noteq> [] \<and> js_read js bs = Some w \<and> encode_local js w = Inr bs"
  by (auto simp: decode_local_def and_then_eq_Inr encode_local_Inr)

lemma decode_encode_local:
  "json_faithful js \<Longrightarrow> decode_local js bs = Inr w \<longleftrightarrow> encode_local js w = Inr bs \<and> bs \<noteq> []"
  by (auto simp: decode_local_Inr encode_local_Inr json_faithful_def)

text \<open>
  What the loader relies on for every record kind: a text that is accepted is the one text its record
  has, and is within the read bound.
\<close>

locale canonical_record =
  fixes enc :: "'a \<Rightarrow> UpdateError + bytes" and dec :: "bytes \<Rightarrow> UpdateError + 'a"
  assumes canonical: "dec bs = Inr a \<Longrightarrow> enc a = Inr bs"
    and bounded: "enc a = Inr bs \<Longrightarrow> length bs \<le> MAX_LOCAL_RECORD_BYTES"
begin

lemma one_text: "dec bs = Inr a \<Longrightarrow> dec bs' = Inr a \<Longrightarrow> bs = bs'"
  by (metis canonical sum.inject(2))

lemma accepted_bounded: "dec bs = Inr a \<Longrightarrow> length bs \<le> MAX_LOCAL_RECORD_BYTES"
  using canonical bounded by blast

end

lemma wire_eta:
  "wfl_schema f = schema \<Longrightarrow> \<lparr> wfl_schema = schema, wfl_version = wfl_version f \<rparr> = f"
  "wp_schema p = schema \<Longrightarrow> \<lparr> wp_schema = schema, wp_artifact = wp_artifact p \<rparr> = p"
  "wc_schema c = schema \<Longrightarrow>
    \<lparr> wc_schema = schema, wc_artifact = wc_artifact c, wc_content_size = wc_content_size c \<rparr> = c"
  by auto

interpretation floor_record: canonical_record "encode_floor sv js" "decode_floor sv js" for sv js
  by unfold_locales (auto simp: encode_floor_def decode_floor_def and_then_eq_Inr check_schema_def decode_local_Inr
      encode_local_Inr wire_eta split: if_splits)

interpretation pointer_record: canonical_record "encode_pointer sv js kind" "decode_pointer sv js kind" for sv js kind
  by unfold_locales (auto simp: encode_pointer_def decode_pointer_def and_then_eq_Inr check_schema_def decode_local_Inr
      encode_local_Inr wire_eta split: if_splits dest!: artifact_inverse)

interpretation complete_record: canonical_record "\<lambda>r. encode_complete sv js (cmp_artifact r) (cmp_content_size r)"
  "decode_complete sv js" for sv js
  by unfold_locales (auto simp: encode_complete_def decode_complete_def and_then_eq_Inr check_schema_def decode_local_Inr
      encode_local_Inr wire_eta split: if_splits dest!: artifact_inverse)

lemma journal_inverse:
  assumes "journal_of_wire sv w = Inr j"
  shows "journal_wire sv j = Inr w"
proof -
  have previous: "transposed (wire_artifact sv) y = Inr x" if "transposed (artifact_of_wire sv) x = Inr y" for x y
    by (rule transposed_inverse [OF _ that]) (use artifact_inverse in blast)
  show ?thesis
    using assms unfolding journal_of_wire_def journal_wire_def
    by (auto simp: and_then_eq_Inr dest!: ownership_inverse digest_field_inverse artifact_inverse previous phase_inverse)
qed

interpretation journal_record: canonical_record "encode_activation_journal sv js" "decode_activation_journal sv js" for sv js
  by unfold_locales (auto simp: encode_activation_journal_def decode_activation_journal_def and_then_eq_Inr
      decode_local_Inr encode_local_Inr dest!: journal_inverse)

definition artifact_sized :: "ArtifactIdentity \<Rightarrow> bool" where
  "artifact_sized a = (length (ai_content_blake3 a) = 32)"

definition phase_sized :: "ActivationPhase \<Rightarrow> bool" where
  "phase_sized p = (case p of HealthAccepted receipt \<Rightarrow> length receipt = 32 | _ \<Rightarrow> True)"

text \<open>The fixed-size arrays of the journal have their 32 bytes.\<close>

definition journal_sized :: "ActivationJournal \<Rightarrow> bool" where
  "journal_sized j =
     (list_all (\<lambda>d. length d = 32)
        [aj_attempt_id j, aj_helper_image_blake3 j, aj_health_channel_id j, aj_lifecycle_channel_id j]
      \<and> list_all artifact_sized ([aj_candidate j, aj_rollback_target j, aj_prior_last_known_good j]
          @ (case aj_prior_previous_known_good j of None \<Rightarrow> [] | Some p \<Rightarrow> [p]))
      \<and> phase_sized (aj_phase j))"

lemma phase_wire: "phase_sized p \<Longrightarrow> activation_phase (wire_activation_phase p) = Inr p"
  by (cases p) (simp_all add: phase_sized_def digest_field_hex)

lemma journal_wire_back:
  assumes "journal_wire sv j = Inr w" "journal_sized j"
  shows "journal_of_wire sv w = Inr j"
  using assms
  by (cases "aj_prior_previous_known_good j")
    (auto simp: journal_of_wire_def journal_wire_def journal_sized_def artifact_sized_def and_then_eq_Inr ownership_wire
      digest_field_hex artifact_wire phase_wire transposed_def)

text \<open>
  C24. The activation journal survives its text exactly, in both directions: under a faithful JSON
  writer, a text decodes to a journal (whose digests have 32 bytes) if and only if it is the nonempty
  text that journal encodes to. So recovery reads the journal that was written, and no second text of it.
\<close>

theorem journal_text_exact:
  assumes "json_faithful js" "journal_sized j"
  shows "decode_activation_journal sv js bs = Inr j \<longleftrightarrow> encode_activation_journal sv js j = Inr bs \<and> bs \<noteq> []"
proof
  assume "decode_activation_journal sv js bs = Inr j"
  then show "encode_activation_journal sv js j = Inr bs \<and> bs \<noteq> []"
    using journal_record.canonical [of sv js bs j]
    by (auto simp: decode_activation_journal_def and_then_eq_Inr decode_local_Inr)
next
  assume "encode_activation_journal sv js j = Inr bs \<and> bs \<noteq> []"
  then obtain w where "validate_activation_journal sv j = Inr ()" "journal_wire sv j = Inr w" "encode_local js w = Inr bs" "bs \<noteq> []"
    by (auto simp: encode_activation_journal_def and_then_eq_Inr)
  moreover from this have "decode_local js bs = Inr w" using decode_encode_local [OF assms(1)] by blast
  ultimately show "decode_activation_journal sv js bs = Inr j"
    using assms(2) by (simp add: decode_activation_journal_def journal_wire_back)
qed

section \<open>Valid journals\<close>

lemma covered_by_floor_Inr:
  "covered_by_floor sv f as = Inr u \<longleftrightarrow>
    (\<forall>a \<in> set as. \<exists>v. sv_parse sv (ai_version a) = Some v \<and> sv_cmp sv v f \<noteq> OrdGreater)"
  by (induction as) (auto simp: and_then_eq_Inr local_version_def split: if_splits)

lemma within_scope_Inr:
  "within_scope sv c as = Inr u \<longleftrightarrow> (\<forall>a \<in> set as. (\<exists>w. wire_artifact sv a = Inr w) \<and> same_artifact_scope c a)"
  by (induction as) (auto simp: and_then_eq_Inr split: if_splits)

text \<open>
  What the engine relies on in a journal that validates: the candidate's version is none of the
  retained versions and not the prior floor, the two known-good slots differ in version, and the
  rollback target is one of them.
\<close>

definition journal_separates :: "ActivationJournal \<Rightarrow> bool" where
  "journal_separates j =
     (let c = ai_version (aj_candidate j); l = ai_version (aj_prior_last_known_good j) in
      c \<noteq> aj_prior_floor j \<and> c \<noteq> l \<and> c \<noteq> ai_version (aj_rollback_target j)
      \<and> (case aj_prior_previous_known_good j of
            None \<Rightarrow> aj_rollback_target j = aj_prior_last_known_good j
          | Some p \<Rightarrow> c \<noteq> ai_version p \<and> l \<noteq> ai_version p \<and> aj_rollback_target j \<in> {aj_prior_last_known_good j, p}))"

lemma valid_journal_separates:
  assumes "precedence_order sv" "validate_activation_journal sv j = Inr ()"
  shows "journal_separates j"
proof -
  have refl: "sv_cmp sv v v = OrdEqual" for v
    using assms(1) unfolding precedence_order_def by (rule total_cmp_refl)
  show ?thesis
    using assms(2) refl unfolding validate_activation_journal_def validate_previous_def journal_separates_def
    by (auto simp: and_then_eq_Inr covered_by_floor_Inr within_scope_Inr local_version_def Let_def
        split: if_splits option.splits)
qed

section \<open>A sample journal\<close>

definition sample_journal :: "ActivationPhase \<Rightarrow> ActivationJournal" where
  "sample_journal p = \<lparr> aj_attempt_id = replicate 32 1, aj_candidate = sample_artifact ''1.3.0'',
     aj_rollback_target = sample_artifact ''1.2.0'', aj_prior_floor = ''1.2.0'',
     aj_prior_last_known_good = sample_artifact ''1.2.0'', aj_prior_previous_known_good = Some (sample_artifact ''1.1.0''),
     aj_helper_image_blake3 = replicate 32 2, aj_health_channel_id = replicate 32 3,
     aj_lifecycle_channel_id = replicate 32 4, aj_ownership = None, aj_phase = p \<rparr>"

lemma sample_fields [simp]:
  "nonempty (ai_app_id (sample_artifact v)) = Inr ()" "nonempty (ai_target (sample_artifact v)) = Inr ()"
  by (simp_all add: sample_artifact_def) code_simp+

lemma sample_artifact_version [simp]: "ai_version (sample_artifact v) = v"
  by (simp add: sample_artifact_def)

lemma sample_versions [simp]:
  "sv_parse sample_semver ''1.1.0'' = Some 1001000" "sv_parse sample_semver ''1.2.0'' = Some 1002000" "sv_parse sample_semver ''1.3.0'' = Some 1003000"
  by (simp_all add: sample_semver_def byte_of_def)

lemma sample_wire_artifact: "\<exists>w. wire_artifact sample_semver (sample_artifact ''1.1.0'') = Inr w"
  "\<exists>w. wire_artifact sample_semver (sample_artifact ''1.2.0'') = Inr w"
  "\<exists>w. wire_artifact sample_semver (sample_artifact ''1.3.0'') = Inr w"
  by (simp_all add: wire_artifact_def strict_version_def)

lemma sample_journal_valid: "validate_activation_journal sample_semver (sample_journal p) = Inr ()"
proof -
  have cmp: "sv_cmp sample_semver = sample_cmp" by (simp add: sample_semver_def)
  have ids: "replicate 32 4 \<noteq> (replicate 32 1 :: Digest)" "replicate 32 4 \<noteq> (replicate 32 3 :: Digest)"
    by (simp_all add: replicate_eq_replicate)
  obtain w1 w2 w3 where "wire_artifact sample_semver (sample_artifact ''1.1.0'') = Inr w1"
      "wire_artifact sample_semver (sample_artifact ''1.2.0'') = Inr w2"
      "wire_artifact sample_semver (sample_artifact ''1.3.0'') = Inr w3"
    using sample_wire_artifact by blast
  moreover have "same_artifact_scope (sample_artifact a) (sample_artifact b)" for a b
    by (simp add: same_artifact_scope_def sample_artifact_def)
  moreover have "sample_artifact a = sample_artifact b \<longleftrightarrow> a = b" for a b
    by (simp add: sample_artifact_def)
  ultimately show ?thesis
    using ids by (simp add: validate_activation_journal_def validate_previous_def sample_journal_def local_version_def
        strict_version_def cmp sample_cmp_def)
qed

definition sample_json :: "WireActivationJournal \<Rightarrow> WireActivationJournal Json" where
  "sample_json w = \<lparr> js_write = (\<lambda>w'. if w' = w then Some [0x7B] else None),
     js_read = (\<lambda>bs. if bs = [0x7B] then Some w else None) \<rparr>"

theorem journal_text_exact_witness:
  "\<exists>js. json_faithful js \<and> journal_sized (sample_journal AwaitingHealth)
    \<and> decode_activation_journal sample_semver js [0x7B] = Inr (sample_journal AwaitingHealth)"
proof -
  obtain w where w: "journal_wire sample_semver (sample_journal AwaitingHealth) = Inr w"
    using sample_wire_artifact by (auto simp: journal_wire_def sample_journal_def transposed_def)
  let ?js = "sample_json w"
  have "json_faithful ?js" by (simp add: json_faithful_def sample_json_def)
  moreover have sized: "journal_sized (sample_journal AwaitingHealth)"
    by (simp add: journal_sized_def sample_journal_def artifact_sized_def sample_artifact_def phase_sized_def)
  moreover have "encode_activation_journal sample_semver ?js (sample_journal AwaitingHealth) = Inr [0x7B]"
    by (simp add: encode_activation_journal_def sample_journal_valid w encode_local_Inr sample_json_def
        MAX_LOCAL_RECORD_BYTES_def)
  ultimately show ?thesis using journal_text_exact [of ?js "sample_journal AwaitingHealth" sample_semver "[0x7B]"] by blast
qed

end
