(* ===== verification/Update_Activation.thy ===== *)
theory Update_Activation
  imports Update_Records
begin

text \<open>
  Recovery decisions of the update engine (\<open>crates/keld-update/src/activation.rs\<close>): classification of
  the protected records against the journal, the version whose retirement is due, and the one next
  durable step that forward progress and crash recovery share. Everything is pure; the transaction
  that performs the steps is in \<open>Update_Transaction\<close>. The packages the engine calls are the fields
  of \<open>Local\<close>.
\<close>

section \<open>Observations and decisions\<close>

record 'v Local =
  lc_semver :: "'v Semver"
  lc_blake3 :: "bytes \<Rightarrow> Digest"
  lc_artifact :: "WireArtifact Json"
  lc_floor :: "WireFloor Json"
  lc_pointer :: "WirePointer Json"
  lc_journal :: "WireActivationJournal Json"

datatype ProcessFamilyObservation = FamilyExited | NotProvenDead

record ProtectedSlots =
  ps_version_floor :: string
  ps_current :: ArtifactIdentity
  ps_last_known_good :: ArtifactIdentity
  ps_previous_known_good :: "ArtifactIdentity option"

record RecoverySnapshot = ProtectedSlots +
  rs_process_family :: ProcessFamilyObservation

datatype RecoveryRefusal =
    ProcessFamilyNotProven
  | FloorMismatch
  | CurrentFloorMismatch
  | KnownGoodMismatch
  | InvalidJournalContext
  | CandidateUnpublished

datatype RecoveryDecision =
    ResumePublishPending bool
  | ResumeCandidateHealth
  | Rollback ArtifactIdentity
  | FinishCommit
  | FinishRollback ArtifactIdentity
  | Refuse RecoveryRefusal

datatype ActivationStep =
    PublishCandidate
  | AbandonAttempt
  | AdvanceFloor
  | SelectCandidate
  | EnterAwaitingHealth
  | AwaitHealth
  | PreservePriorKnownGood
  | CommitCandidate
  | RestoreRollbackTarget
  | RetireVersion
  | RemoveJournal

datatype CandidateLocation = Published | Staged | Absent

section \<open>Classification\<close>

definition journal_receipt :: "'v Local \<Rightarrow> ActivationJournal \<Rightarrow> UpdateError + Digest" where
  "journal_receipt L j =
     activation_health_receipt_digest (lc_semver L) (lc_blake3 L) (lc_artifact L)
       (aj_attempt_id j) (aj_health_channel_id j) (aj_candidate j)"

definition prior_slots_match :: "ActivationJournal \<Rightarrow> 'a ProtectedSlots_scheme \<Rightarrow> bool" where
  "prior_slots_match j s =
     (ps_last_known_good s = aj_prior_last_known_good j \<and> ps_previous_known_good s = aj_prior_previous_known_good j)"

definition commit_slots_match :: "ActivationJournal \<Rightarrow> 'a ProtectedSlots_scheme \<Rightarrow> bool" where
  "commit_slots_match j s =
     (ps_last_known_good s = aj_prior_last_known_good j
        \<and> (ps_previous_known_good s = aj_prior_previous_known_good j
           \<or> ps_previous_known_good s = Some (aj_prior_last_known_good j))
      \<or> ps_last_known_good s = aj_candidate j \<and> ps_previous_known_good s = Some (aj_prior_last_known_good j))"

definition classify_publish_pending :: "ActivationJournal \<Rightarrow> 'a ProtectedSlots_scheme \<Rightarrow> RecoveryDecision" where
  "classify_publish_pending j s =
     (let floor_is_prior = ps_version_floor s = aj_prior_floor j;
          floor_is_candidate = ps_version_floor s = ai_version (aj_candidate j) in
      if \<not> prior_slots_match j s then Refuse KnownGoodMismatch
      else if ps_current s = aj_rollback_target j \<and> (floor_is_prior \<or> floor_is_candidate)
        then ResumePublishPending floor_is_prior
      else if ps_current s = aj_candidate j \<and> floor_is_candidate then ResumeCandidateHealth
      else if \<not> floor_is_prior \<and> \<not> floor_is_candidate then Refuse FloorMismatch
      else Refuse CurrentFloorMismatch)"

definition classify_protected_recovery_state ::
  "'v Local \<Rightarrow> ActivationJournal \<Rightarrow> 'a ProtectedSlots_scheme \<Rightarrow> RecoveryDecision" where
  "classify_protected_recovery_state L j s =
     (if validate_activation_journal (lc_semver L) j \<noteq> Inr () then Refuse InvalidJournalContext
      else case aj_phase j of
        PublishPending \<Rightarrow> classify_publish_pending j s
      | AwaitingHealth \<Rightarrow>
          if \<not> prior_slots_match j s then Refuse KnownGoodMismatch
          else if ps_version_floor s \<noteq> ai_version (aj_candidate j) then Refuse FloorMismatch
          else if ps_current s \<noteq> aj_candidate j then Refuse CurrentFloorMismatch
          else Rollback (aj_rollback_target j)
      | HealthAccepted health_receipt_digest \<Rightarrow>
          if journal_receipt L j \<noteq> Inr health_receipt_digest then Refuse InvalidJournalContext
          else if ps_version_floor s \<noteq> ai_version (aj_candidate j) then Refuse FloorMismatch
          else if ps_current s \<noteq> aj_candidate j then Refuse CurrentFloorMismatch
          else if commit_slots_match j s then FinishCommit
          else Refuse KnownGoodMismatch
      | RollbackPending _ \<Rightarrow>
          if ps_version_floor s \<noteq> ai_version (aj_candidate j) then Refuse FloorMismatch
          else if \<not> prior_slots_match j s then Refuse KnownGoodMismatch
          else if ps_current s = aj_candidate j \<or> ps_current s = aj_rollback_target j
            then FinishRollback (aj_rollback_target j)
          else Refuse CurrentFloorMismatch)"

definition recovery_decision :: "'v Local \<Rightarrow> ActivationJournal \<Rightarrow> RecoverySnapshot \<Rightarrow> RecoveryDecision" where
  "recovery_decision L j observed =
     (if rs_process_family observed \<noteq> FamilyExited then Refuse ProcessFamilyNotProven
      else classify_protected_recovery_state L j observed)"

definition validate_protected_recovery_state ::
  "'v Local \<Rightarrow> ActivationJournal \<Rightarrow> 'a ProtectedSlots_scheme \<Rightarrow> RecoveryRefusal + unit" where
  "validate_protected_recovery_state L j s =
     (case classify_protected_recovery_state L j s of Refuse reason \<Rightarrow> Inl reason | _ \<Rightarrow> Inr ())"

definition retirement_due :: "ActivationJournal \<Rightarrow> 'a ProtectedSlots_scheme \<Rightarrow> ArtifactIdentity option" where
  "retirement_due j s =
     (case aj_phase j of
        HealthAccepted _ \<Rightarrow>
          if ps_last_known_good s = aj_candidate j \<and> ps_previous_known_good s = Some (aj_prior_last_known_good j)
          then aj_prior_previous_known_good j else None
      | RollbackPending _ \<Rightarrow> if ps_current s = aj_rollback_target j then Some (aj_candidate j) else None
      | _ \<Rightarrow> None)"

definition next_activation_step ::
  "'v Local \<Rightarrow> ActivationJournal \<Rightarrow> 'a ProtectedSlots_scheme \<Rightarrow> CandidateLocation \<Rightarrow> bool
    \<Rightarrow> RecoveryRefusal + ActivationStep" where
  "next_activation_step L j s candidate retiree_present =
     (let retire_or_remove =
        (if retirement_due j s \<noteq> None \<and> retiree_present then RetireVersion else RemoveJournal) in
      case classify_protected_recovery_state L j s of
        Refuse reason \<Rightarrow> Inl reason
      | ResumePublishPending advance_floor \<Rightarrow>
          if advance_floor then
            Inr (case candidate of Published \<Rightarrow> AdvanceFloor | Staged \<Rightarrow> PublishCandidate | Absent \<Rightarrow> AbandonAttempt)
          else (case candidate of Published \<Rightarrow> Inr SelectCandidate | _ \<Rightarrow> Inl CandidateUnpublished)
      | ResumeCandidateHealth \<Rightarrow> Inr EnterAwaitingHealth
      | Rollback _ \<Rightarrow> Inr AwaitHealth
      | FinishCommit \<Rightarrow>
          if ps_last_known_good s = aj_candidate j then Inr retire_or_remove
          else if ps_previous_known_good s = Some (aj_prior_last_known_good j) then Inr CommitCandidate
          else Inr PreservePriorKnownGood
      | FinishRollback _ \<Rightarrow>
          if ps_current s = aj_candidate j then Inr RestoreRollbackTarget else Inr retire_or_remove)"

section \<open>The states a journal authorises\<close>

text \<open>
  Where the records stand in an attempt. The classification refuses exactly the records that no
  position of the attempt has.
\<close>

definition stands :: "'v Local \<Rightarrow> ActivationJournal \<Rightarrow> 'a ProtectedSlots_scheme \<Rightarrow> bool" where
  "stands L j s =
     (validate_activation_journal (lc_semver L) j = Inr ()
      \<and> (case aj_phase j of
           PublishPending \<Rightarrow> prior_slots_match j s
             \<and> (ps_current s = aj_rollback_target j \<and> ps_version_floor s \<in> {aj_prior_floor j, ai_version (aj_candidate j)}
                \<or> ps_current s = aj_candidate j \<and> ps_version_floor s = ai_version (aj_candidate j))
         | AwaitingHealth \<Rightarrow> prior_slots_match j s
             \<and> ps_current s = aj_candidate j \<and> ps_version_floor s = ai_version (aj_candidate j)
         | HealthAccepted r \<Rightarrow> journal_receipt L j = Inr r \<and> commit_slots_match j s
             \<and> ps_current s = aj_candidate j \<and> ps_version_floor s = ai_version (aj_candidate j)
         | RollbackPending _ \<Rightarrow> prior_slots_match j s
             \<and> ps_current s \<in> {aj_candidate j, aj_rollback_target j} \<and> ps_version_floor s = ai_version (aj_candidate j)))"

lemma stands_iff: "stands L j s \<longleftrightarrow> (\<forall>reason. classify_protected_recovery_state L j s \<noteq> Refuse reason)"
  by (cases "aj_phase j")
    (auto simp: stands_def classify_protected_recovery_state_def classify_publish_pending_def Let_def)

lemma validate_protected_iff: "validate_protected_recovery_state L j s = Inr u \<longleftrightarrow> stands L j s"
  by (auto simp: validate_protected_recovery_state_def stands_iff split: RecoveryDecision.splits)

end
