(* ===== verification/Update_Disk.thy ===== *)
theory Update_Disk
  imports Update_Activation "HOL-Library.AList"
begin

text \<open>
  The protected update directory as the engine reads it (\<open>crates/keld-update/src/windows_baseline/load.rs\<close>
  and \<open>load/writer_records.rs\<close>). \<open>Disk\<close> holds the value of every record slot, the version
  directories by name and the \<open>incomplete-*\<close> stages; a record's bytes are \<open>Update_Records\<close>. A copy is
  what its completion record names, if it has one, and what verifying its archive and tree against that
  record answers. Generated \<open>pending-*\<close> and \<open>retired-*\<close> entries are never read back and are left out. Handles,
  profiles and the lease are the platform's.

  What this leaves out. A record slot is the value read back: that it is the value written rests on the
  record codecs (\<open>Update_Records\<close>) and not on the loaders' decode calls. The loaders' checks of
  the directory's owner, the install mode, the installation's identity, the lease and the provenance
  record compare facts that no operation of the engine changes, so they are taken to have passed
  for the installation at hand. A copy has a readable completion record or none: a stage whose record exists but
  cannot be read or decoded, on which the code stops, is not a value of \<open>Copy\<close>. Names of versions
  and stages are compared as bytes, where the file system ignores case: two versions that differ
  only in the case of a pre-release tag are distinct here.
\<close>

section \<open>Contents\<close>

record Copy =
  cp_recorded :: "ArtifactIdentity option"
  cp_contents :: "UpdateError + unit"

record Disk = ProtectedSlots +
  dk_journal :: "ActivationJournal option"
  dk_versions :: "(string \<times> Copy) list"
  dk_stages :: "(string \<times> Copy) list"

abbreviation slots_of :: "'a ProtectedSlots_scheme \<Rightarrow> ProtectedSlots" where
  "slots_of s \<equiv> ProtectedSlots.truncate s"

definition version_of :: "Disk \<Rightarrow> string \<Rightarrow> Copy option" where
  "version_of d name = map_of (dk_versions d) name"

text \<open>Byte order of names, as \<open>Ord\<close> of \<open>String\<close>.\<close>

fun name_cmp :: "string \<Rightarrow> string \<Rightarrow> Ordering" where
  "name_cmp [] [] = OrdEqual"
| "name_cmp [] (_ # _) = OrdLess"
| "name_cmp (_ # _) [] = OrdGreater"
| "name_cmp (a # as) (b # bs) =
     (if byte_of a < byte_of b then OrdLess else if byte_of b < byte_of a then OrdGreater else name_cmp as bs)"

definition find_candidate_stage :: "Disk \<Rightarrow> ArtifactIdentity \<Rightarrow> string option" where
  "find_candidate_stage d candidate =
     map_option fst (List.find (\<lambda>(_, copy). cp_recorded copy = Some candidate)
       (sort_by (\<lambda>a b. name_cmp (fst a) (fst b)) (dk_stages d)))"

definition is_generated_leaf :: "string \<Rightarrow> string \<Rightarrow> bool" where
  "is_generated_leaf name kind =
     (let n = length kind in
      take (Suc n) name = kind @ ''-'' \<and> length (drop (Suc n) name) = 64 \<and> is_lowercase_hex (drop (Suc n) name))"

definition completed_stage_identity :: "Disk \<Rightarrow> string \<Rightarrow> UpdateError + ArtifactIdentity option" where
  "completed_stage_identity d stage =
     (if \<not> is_generated_leaf stage ''incomplete'' then Inl (BaselineRefusal ''candidate stage'')
      else case map_of (dk_stages d) stage of
        None \<Rightarrow> Inl (BaselineRefusal ''protected directory open'')
      | Some copy \<Rightarrow> Inr (cp_recorded copy))"

section \<open>Artifacts\<close>

definition validate_artifact_scope_and_baseline ::
  "'v Semver \<Rightarrow> ArtifactIdentity \<Rightarrow> ArtifactIdentity \<Rightarrow> UpdateError + 'v" where
  "validate_artifact_scope_and_baseline sv baseline selected =
     (if \<not> same_artifact_scope selected baseline then Inl (BaselineRefusal ''activation pointer scope'')
      else
      and_then (ok_or (sv_parse sv (ai_version selected)) (BaselineRefusal ''activation pointer version'')) (\<lambda>version.
      and_then (ok_or (sv_parse sv (ai_version baseline)) (BaselineRefusal ''baseline artifact version'')) (\<lambda>baseline_version.
      case sv_cmp sv version baseline_version of
        OrdLess \<Rightarrow> Inl (BaselineRefusal ''activation pointer version'')
      | OrdEqual \<Rightarrow> if selected \<noteq> baseline then Inl (BaselineRefusal ''activation pointer identity'') else Inr version
      | OrdGreater \<Rightarrow> Inr version)))"

definition validate_selected_artifact ::
  "'v Semver \<Rightarrow> ArtifactIdentity \<Rightarrow> 'v \<Rightarrow> ArtifactIdentity \<Rightarrow> UpdateError + unit" where
  "validate_selected_artifact sv baseline floor selected =
     and_then (validate_artifact_scope_and_baseline sv baseline selected) (\<lambda>version.
     if sv_cmp sv version floor = OrdGreater then Inl (BaselineRefusal ''activation pointer version'') else Inr ())"

fun validate_selected_all :: "'v Semver \<Rightarrow> ArtifactIdentity \<Rightarrow> 'v \<Rightarrow> ArtifactIdentity list \<Rightarrow> UpdateError + unit" where
  "validate_selected_all sv baseline floor [] = Inr ()"
| "validate_selected_all sv baseline floor (a # as) =
     and_then (validate_selected_artifact sv baseline floor a) (\<lambda>_. validate_selected_all sv baseline floor as)"

definition some_list :: "'a option \<Rightarrow> 'a list" where
  "some_list x = (case x of None \<Rightarrow> [] | Some a \<Rightarrow> [a])"

definition validate_writer_pointer_context ::
  "'v Semver \<Rightarrow> ArtifactIdentity \<Rightarrow> 'a ProtectedSlots_scheme \<Rightarrow> 'v \<Rightarrow> UpdateError + unit" where
  "validate_writer_pointer_context sv baseline s floor =
     (let current = ps_current s; last_known_good = ps_last_known_good s; previous_known_good = ps_previous_known_good s in
      if last_known_good \<noteq> baseline \<and> previous_known_good = None then Inl (BaselineRefusal ''previous-known-good pointer'')
      else
      and_then (validate_selected_artifact sv baseline floor current) (\<lambda>_.
      and_then (validate_selected_artifact sv baseline floor last_known_good) (\<lambda>_.
      if current \<noteq> last_known_good \<and> previous_known_good \<noteq> Some current then Inl (BaselineRefusal ''current pointer'')
      else (case previous_known_good of
          None \<Rightarrow> Inr ()
        | Some previous \<Rightarrow>
            and_then (validate_selected_artifact sv baseline floor previous) (\<lambda>_.
            if previous = last_known_good then Inl (BaselineRefusal ''previous-known-good pointer'')
            else
            and_then (ok_or (sv_parse sv (ai_version previous)) (BaselineRefusal ''previous-known-good version'')) (\<lambda>pv.
            and_then (ok_or (sv_parse sv (ai_version last_known_good)) (BaselineRefusal ''last-known-good version'')) (\<lambda>lv.
            if sv_cmp sv pv lv \<noteq> OrdLess then Inl (BaselineRefusal ''previous-known-good pointer'') else Inr ())))))))"

definition validate_recovery_known_good_history ::
  "ArtifactIdentity \<Rightarrow> ArtifactIdentity \<Rightarrow> ArtifactIdentity option \<Rightarrow> UpdateError + unit" where
  "validate_recovery_known_good_history baseline prior_last_known_good prior_previous_known_good =
     (if prior_last_known_good \<noteq> baseline \<and> prior_previous_known_good = None
      then Inl (BaselineRefusal ''activation journal previous-known-good history'') else Inr ())"

section \<open>Versions\<close>

definition validate_activation_version_census ::
  "Disk \<Rightarrow> ArtifactIdentity list \<Rightarrow> ArtifactIdentity option \<Rightarrow> UpdateError + unit" where
  "validate_activation_version_census d selected retiree =
     (let selected_names = map ai_version (selected @ some_list retiree) in
      if list_all (\<lambda>(name, _). name \<in> set selected_names) (dk_versions d) then Inr ()
      else Inl (BaselineRefusal ''activation versions''))"

definition verify_published_version :: "Disk \<Rightarrow> ArtifactIdentity \<Rightarrow> UpdateError + unit" where
  "verify_published_version d expected =
     (case version_of d (ai_version expected) of
        None \<Rightarrow> Inl (BaselineRefusal ''protected directory open'')
      | Some copy \<Rightarrow>
          if cp_recorded copy \<noteq> Some expected then Inl (BaselineRefusal ''completion marker'')
          else cp_contents copy)"

fun pin_versions :: "Disk \<Rightarrow> ArtifactIdentity list \<Rightarrow> UpdateError + string list" where
  "pin_versions d [] = Inr []"
| "pin_versions d (a # as) =
     and_then (verify_published_version d a) (\<lambda>_.
     and_then (pin_versions d as) (\<lambda>pins. Inr (ai_version a # pins)))"

definition pin_selected_versions ::
  "Disk \<Rightarrow> ArtifactIdentity list \<Rightarrow> ArtifactIdentity option \<Rightarrow> UpdateError + string list" where
  "pin_selected_versions d selected retiree =
     and_then (validate_activation_version_census d selected retiree) (\<lambda>_. pin_versions d selected)"

definition validate_publication_census ::
  "Disk \<Rightarrow> ArtifactIdentity list \<Rightarrow> ArtifactIdentity \<Rightarrow> UpdateError + unit" where
  "validate_publication_census d pinned candidate = validate_activation_version_census d (pinned @ [candidate]) None"

section \<open>Loading\<close>

record WriteSnapshot =
  ws_slots :: ProtectedSlots
  ws_pins :: "string list"

definition writer_selected :: "Disk \<Rightarrow> ArtifactIdentity list" where
  "writer_selected d =
     (let selected = [ps_current d, ps_last_known_good d] in
      selected @ (case ps_previous_known_good d of
        None \<Rightarrow> [] | Some previous \<Rightarrow> if previous \<in> set selected then [] else [previous]))"

definition load_activation_write_snapshot ::
  "'v Semver \<Rightarrow> (string \<Rightarrow> string \<Rightarrow> bool) \<Rightarrow> 'k UpdateVerifier \<Rightarrow> InstallProvenance \<Rightarrow> Disk \<Rightarrow> UpdateError + WriteSnapshot" where
  "load_activation_write_snapshot sv path_eq verifier prov d =
     (let baseline = di_baseline (uv_expected verifier) in
      if dk_journal d \<noteq> None then Inl (BaselineRefusal ''activation recovery'')
      else
      and_then (verifier_admit sv path_eq verifier (ObsProtected prov (Some (ps_version_floor d)))) (\<lambda>_.
      and_then (ok_or (sv_parse sv (ps_version_floor d)) (BaselineRefusal ''version floor'')) (\<lambda>floor.
      and_then (validate_writer_pointer_context sv baseline d floor) (\<lambda>_.
      and_then (pin_selected_versions d (writer_selected d) None) (\<lambda>pins.
      Inr \<lparr> ws_slots = slots_of d, ws_pins = pins \<rparr>)))))"

text \<open>\<open>selected\<close> grows in order, without repetitions and without the excluded artifacts.\<close>

definition recovery_selection ::
  "ActivationJournal \<Rightarrow> ArtifactIdentity list \<Rightarrow> ArtifactIdentity list \<Rightarrow> ArtifactIdentity list" where
  "recovery_selection j slots excluded =
     fold (\<lambda>a selected. if a \<in> set selected \<or> a \<in> set excluded then selected else selected @ [a])
       (slots @ [aj_candidate j, aj_rollback_target j, aj_prior_last_known_good j]
         @ some_list (aj_prior_previous_known_good j)) []"

definition locate_unpublished_candidate :: "Disk \<Rightarrow> ArtifactIdentity \<Rightarrow> ArtifactIdentity option \<times> string option" where
  "locate_unpublished_candidate d candidate =
     (case version_of d (ai_version candidate) of
        Some _ \<Rightarrow> (Some candidate, None)
      | None \<Rightarrow> (None, find_candidate_stage d candidate))"

record RecoveryInspection =
  ri_journal :: ActivationJournal
  ri_slots :: ProtectedSlots
  ri_pins :: "string list"
  ri_candidate_stage :: "string option"

definition unpublished_candidate :: "ActivationJournal \<Rightarrow> 'a ProtectedSlots_scheme \<Rightarrow> bool" where
  "unpublished_candidate j s = (aj_phase j = PublishPending \<and> ps_version_floor s = aj_prior_floor j)"

definition slot_artifacts :: "'a ProtectedSlots_scheme \<Rightarrow> ArtifactIdentity list" where
  "slot_artifacts s = [ps_current s, ps_last_known_good s] @ some_list (ps_previous_known_good s)"

definition load_recovery_inspection ::
  "'v Local \<Rightarrow> (string \<Rightarrow> string \<Rightarrow> bool) \<Rightarrow> 'k UpdateVerifier \<Rightarrow> InstallProvenance \<Rightarrow> Disk
    \<Rightarrow> UpdateError + RecoveryInspection" where
  "load_recovery_inspection L path_eq verifier prov d =
     (let sv = lc_semver L; baseline = di_baseline (uv_expected verifier) in
      and_then (ok_or (dk_journal d) (BaselineRefusal ''activation recovery inspection'')) (\<lambda>j.
      and_then (verifier_admit sv path_eq verifier (ObsProtected prov (Some (ps_version_floor d)))) (\<lambda>_.
      and_then (ok_or (sv_parse sv (ps_version_floor d)) (BaselineRefusal ''recovery version floor'')) (\<lambda>floor.
      and_then (case validate_protected_recovery_state L j d of
          Inl _ \<Rightarrow> Inl (BaselineRefusal ''activation recovery inspection'') | Inr u \<Rightarrow> Inr u) (\<lambda>_.
      and_then (validate_recovery_known_good_history baseline (aj_prior_last_known_good j) (aj_prior_previous_known_good j)) (\<lambda>_.
      let retiree = retirement_due j d;
          excluded = some_list retiree @ (if unpublished_candidate j d then [aj_candidate j] else []);
          selected = recovery_selection j (slot_artifacts d) excluded in
      and_then (validate_selected_all sv baseline floor (slot_artifacts d)) (\<lambda>_.
      and_then (ok_or (sv_parse sv (aj_prior_floor j)) (BaselineRefusal ''recovery prior floor'')) (\<lambda>prior_floor.
      and_then (validate_selected_all sv baseline prior_floor
          ([aj_rollback_target j, aj_prior_last_known_good j] @ some_list (aj_prior_previous_known_good j))) (\<lambda>_.
      and_then (validate_artifact_scope_and_baseline sv baseline (aj_candidate j)) (\<lambda>_.
      let (admitted_by_name, candidate_stage) =
        (if unpublished_candidate j d then locate_unpublished_candidate d (aj_candidate j) else (retiree, None)) in
      and_then (pin_selected_versions d selected admitted_by_name) (\<lambda>pins.
      Inr \<lparr> ri_journal = j, ri_slots = slots_of d, ri_pins = pins, ri_candidate_stage = candidate_stage \<rparr>)))))))))))"

end
