(* ===== verification/Update_Transaction.thy ===== *)
theory Update_Transaction
  imports Update_Disk
begin

text \<open>
  The journaled activation transaction (\<open>crates/keld-update/src/windows_baseline/activate.rs\<close>): the
  attempt start, its re-minted channels, the step loop, health, rollback and recovery. A transaction
  owns the disk under the writer lease and its own copies of the records. Each file operation asks the
  next answer of an arbitrary stream \<open>io\<close>: it works, it fails with nothing durable, or it fails after
  its rename became durable. A run cut by a crash leaves the disk of the run whose next operation
  fails, since every failure ends the run.
\<close>

section \<open>State and file operations\<close>

datatype Answer = Works | Broken string | BrokenLate string

record Tx =
  tx_disk :: Disk
  tx_clock :: nat
  tx_journal :: ActivationJournal
  tx_slots :: ProtectedSlots
  tx_pins :: "string list"
  tx_stage :: "string option"
  tx_journaled :: bool

type_synonym 'a tx = "Tx \<Rightarrow> (UpdateError + 'a) \<times> Tx"

definition bind_tx :: "'a tx \<Rightarrow> ('a \<Rightarrow> 'b tx) \<Rightarrow> 'b tx" where
  "bind_tx m k t = (case m t of (Inl e, t') \<Rightarrow> (Inl e, t') | (Inr a, t') \<Rightarrow> k a t')"

definition return_tx :: "'a \<Rightarrow> 'a tx" where
  "return_tx a t = (Inr a, t)"

fun refusal_step :: "UpdateError \<Rightarrow> string" where
  "refusal_step (Activation s _) = s"
| "refusal_step (BaselineRefusal s) = s"
| "refusal_step LocalRecordInvalid = ''local record''"
| "refusal_step _ = ''update''"

definition fault :: "Tx \<Rightarrow> string \<Rightarrow> UpdateError" where
  "fault t s = Activation s (if tx_journaled t then JournalBoundRecoveryRequired else ProtectedStateUnchanged)"

definition refault :: "Tx \<Rightarrow> UpdateError \<Rightarrow> UpdateError" where
  "refault t cause = fault t (refusal_step cause)"

definition before_record :: "Tx \<Rightarrow> UpdateError \<Rightarrow> UpdateError" where
  "before_record t cause = (if tx_journaled t then refault t cause else fault t ''start'')"

definition refuse_tx :: "string \<Rightarrow> 'a tx" where
  "refuse_tx s t = (Inl (fault t s), t)"

definition refaulted :: "UpdateError + 'a \<Rightarrow> 'a tx" where
  "refaulted r t = (case r of Inl cause \<Rightarrow> (Inl (refault t cause), t) | Inr a \<Rightarrow> (Inr a, t))"

definition tick :: "Tx \<Rightarrow> Tx" where
  "tick t = t\<lparr> tx_clock := Suc (tx_clock t) \<rparr>"

definition change_disk :: "(Disk \<Rightarrow> Disk) \<Rightarrow> Tx \<Rightarrow> Tx" where
  "change_disk f t = t\<lparr> tx_disk := f (tx_disk t) \<rparr>"

text \<open>An operation that reads, and one that renames; \<open>label\<close> is the step the caller reports.\<close>

definition look :: "(nat \<Rightarrow> Answer) \<Rightarrow> (Disk \<Rightarrow> UpdateError + 'a) \<Rightarrow> 'a tx" where
  "look io f t =
     (case io (tx_clock t) of
        Works \<Rightarrow> refaulted (f (tx_disk t)) (tick t)
      | Broken s \<Rightarrow> (Inl (fault t s), tick t)
      | BrokenLate s \<Rightarrow> (Inl (fault t s), tick t))"

definition perform :: "(nat \<Rightarrow> Answer) \<Rightarrow> (string \<Rightarrow> string) \<Rightarrow> (Disk \<Rightarrow> Disk) \<Rightarrow> unit tx" where
  "perform io label f t =
     (case io (tx_clock t) of
        Works \<Rightarrow> (Inr (), tick (change_disk f t))
      | Broken s \<Rightarrow> (Inl (fault t (label s)), tick t)
      | BrokenLate s \<Rightarrow> (Inl (fault t (label s)), tick (change_disk f t)))"

section \<open>Values of the interface\<close>

definition MAX_STEPS_PER_RUN :: nat where "MAX_STEPS_PER_RUN = 8"

record ActivationHealthReceipt =
  hr_attempt_id :: Digest
  hr_health_channel_id :: Digest
  hr_candidate :: ArtifactIdentity

record ProcessFamilyRetirement =
  pf_installation :: Digest
  pf_attempt :: Digest
  pf_lifecycle_channel :: Digest

datatype ActivationOutcome = Committed | RolledBack | Abandoned

record ActivationResolution =
  ar_outcome :: ActivationOutcome
  ar_current :: ArtifactIdentity
  ar_cleanup :: "UpdateError option"

datatype Progress = ProgressAwaitingHealth | ProgressResolved ActivationResolution

record RemintedChannels =
  rc_health_channel_id :: Digest
  rc_lifecycle_channel_id :: Digest

record MintedAttempt =
  ma_transaction :: Tx
  ma_installation_id :: Digest
  ma_reminted :: "RemintedChannels option"

record ActivationAttempt =
  aa_installation_id :: Digest
  aa_health_receipt_digest :: Digest

datatype JournaledAttempt = JournaledAwaitingHealth ActivationAttempt | JournaledResolved ActivationResolution

section \<open>Records\<close>

definition slots_tx :: "(ProtectedSlots \<Rightarrow> ProtectedSlots) \<Rightarrow> unit tx" where
  "slots_tx f t = (Inr (), t\<lparr> tx_slots := f (tx_slots t) \<rparr>)"

definition write_slot :: "(nat \<Rightarrow> Answer) \<Rightarrow> UpdateError + bytes \<Rightarrow> (Disk \<Rightarrow> Disk) \<Rightarrow> unit tx" where
  "write_slot io encoded f = bind_tx (refaulted encoded) (\<lambda>_. perform io (\<lambda>s. s) f)"

definition write_journal :: "'v Local \<Rightarrow> (nat \<Rightarrow> Answer) \<Rightarrow> ActivationJournal \<Rightarrow> unit tx" where
  "write_journal L io j =
     bind_tx (write_slot io (encode_activation_journal (lc_semver L) (lc_journal L) j)
       (\<lambda>d. d\<lparr> dk_journal := Some j \<rparr>)) (\<lambda>_ t. (Inr (), t\<lparr> tx_journal := j \<rparr>))"

definition write_phase :: "'v Local \<Rightarrow> (nat \<Rightarrow> Answer) \<Rightarrow> ActivationPhase \<Rightarrow> unit tx" where
  "write_phase L io p t = write_journal L io ((tx_journal t)\<lparr> aj_phase := p \<rparr>) t"

definition write_pointer :: "'v Local \<Rightarrow> (nat \<Rightarrow> Answer) \<Rightarrow> PointerKind \<Rightarrow> ArtifactIdentity \<Rightarrow> unit tx" where
  "write_pointer L io kind a t =
     (let encoded = encode_pointer (lc_semver L) (lc_pointer L) kind a in
      case kind of
        PointCurrent \<Rightarrow> write_slot io encoded (\<lambda>d. d\<lparr> ps_current := a \<rparr>) t
      | PointLastKnownGood \<Rightarrow> write_slot io encoded (\<lambda>d. d\<lparr> ps_last_known_good := a \<rparr>) t
      | PointPreviousKnownGood \<Rightarrow>
          if ps_previous_known_good (tx_slots t) = None \<and> ps_previous_known_good (tx_disk t) \<noteq> None
          then bind_tx (refaulted encoded) (\<lambda>_. refuse_tx ''record publication'') t
          else write_slot io encoded (\<lambda>d. d\<lparr> ps_previous_known_good := Some a \<rparr>) t)"

section \<open>Versions\<close>

definition version_present :: "(nat \<Rightarrow> Answer) \<Rightarrow> string \<Rightarrow> bool tx" where
  "version_present io version = look io (\<lambda>d. Inr (version_of d version \<noteq> None))"

definition drop_version :: "string \<Rightarrow> Disk \<Rightarrow> Disk" where
  "drop_version version d = d\<lparr> dk_versions := AList.delete version (dk_versions d) \<rparr>"

definition drop_stage :: "string \<Rightarrow> Disk \<Rightarrow> Disk" where
  "drop_stage stage d = d\<lparr> dk_stages := AList.delete stage (dk_stages d) \<rparr>"

definition publish_stage :: "string \<Rightarrow> string \<Rightarrow> Copy \<Rightarrow> Disk \<Rightarrow> Disk" where
  "publish_stage stage version copy d = drop_stage stage (d\<lparr> dk_versions := (version, copy) # dk_versions d \<rparr>)"

definition retire_version_directory :: "(nat \<Rightarrow> Answer) \<Rightarrow> string \<Rightarrow> unit tx" where
  "retire_version_directory io version =
     bind_tx (version_present io version) (\<lambda>present.
     if \<not> present then refuse_tx ''version retirement'' else perform io (\<lambda>s. s) (drop_version version))"

definition retire_version :: "(nat \<Rightarrow> Answer) \<Rightarrow> ArtifactIdentity \<Rightarrow> unit tx" where
  "retire_version io retiree t =
     (if ai_version retiree \<in> ai_version ` set (slot_artifacts (tx_slots t)) then refuse_tx ''version retirement'' t
      else retire_version_directory io (ai_version retiree)
        (t\<lparr> tx_pins := removeAll (ai_version retiree) (tx_pins t) \<rparr>))"

definition candidate_location :: "(nat \<Rightarrow> Answer) \<Rightarrow> CandidateLocation tx" where
  "candidate_location io t =
     bind_tx (version_present io (ai_version (aj_candidate (tx_journal t)))) (\<lambda>present t.
     (Inr (if present then Published else if tx_stage t \<noteq> None then Staged else Absent), t)) t"

text \<open>A rename to an absent name: a missing source and a present destination both fail.\<close>

definition rename_stage :: "(nat \<Rightarrow> Answer) \<Rightarrow> string \<Rightarrow> unit tx" where
  "rename_stage io stage t =
     (let version = ai_version (aj_candidate (tx_journal t)) in
      case map_of (dk_stages (tx_disk t)) stage of
        None \<Rightarrow> refuse_tx ''candidate publication'' t
      | Some copy \<Rightarrow>
          if version_of (tx_disk t) version \<noteq> None then refuse_tx ''candidate publication'' t
          else perform io (\<lambda>_. ''candidate publication'') (publish_stage stage version copy) t)"

definition publish_candidate :: "(nat \<Rightarrow> Answer) \<Rightarrow> unit tx" where
  "publish_candidate io t =
     (case tx_stage t of
        None \<Rightarrow> refuse_tx ''candidate publication'' t
      | Some stage \<Rightarrow>
          bind_tx (look io (\<lambda>_. Inr ())) (\<lambda>_.
          bind_tx (rename_stage io stage) (\<lambda>_ t. (Inr (), t\<lparr> tx_stage := None \<rparr>))) t)"

section \<open>Removing the journal\<close>

definition leftover_error :: UpdateError where
  "leftover_error = Activation ''resolved leftover cleanup'' ResolvedWithLeftovers"

text \<open>Deletion of completed stages, one answer each; a stage without a completion record is kept.\<close>

fun sweep_stages :: "(nat \<Rightarrow> Answer) \<Rightarrow> string list \<Rightarrow> Tx \<Rightarrow> UpdateError option \<times> Tx" where
  "sweep_stages io [] t = (None, t)"
| "sweep_stages io (n # ns) t =
     (case map_of (dk_stages (tx_disk t)) n of
        Some copy \<Rightarrow>
          if cp_recorded copy = None then sweep_stages io ns t
          else (case io (tx_clock t) of
              Works \<Rightarrow> sweep_stages io ns (tick (change_disk (drop_stage n) t))
            | Broken _ \<Rightarrow> (Some leftover_error, tick t)
            | BrokenLate _ \<Rightarrow> (Some leftover_error, tick (change_disk (drop_stage n) t)))
      | None \<Rightarrow> sweep_stages io ns t)"

definition remove_generated_leftovers :: "(nat \<Rightarrow> Answer) \<Rightarrow> Tx \<Rightarrow> UpdateError option \<times> Tx" where
  "remove_generated_leftovers io t =
     (case io (tx_clock t) of
        Works \<Rightarrow> sweep_stages io (map fst (dk_stages (tx_disk t))) (tick t)
      | _ \<Rightarrow> (Some leftover_error, tick t))"

definition cleanup :: "(nat \<Rightarrow> Answer) \<Rightarrow> Tx \<Rightarrow> UpdateError option \<times> Tx" where
  "cleanup io t =
     (case io (tx_clock t) of
        Works \<Rightarrow> remove_generated_leftovers io (tick t)
      | _ \<Rightarrow> (Some leftover_error, tick t))"

definition remove_journal_as :: "(nat \<Rightarrow> Answer) \<Rightarrow> ActivationOutcome \<Rightarrow> ActivationResolution tx" where
  "remove_journal_as io outcome =
     bind_tx (\<lambda>t. if dk_journal (tx_disk t) = None then refuse_tx ''journal removal'' t
       else perform io (\<lambda>_. ''journal removal'') (\<lambda>d. d\<lparr> dk_journal := None \<rparr>) t) (\<lambda>_ t.
     case cleanup io (t\<lparr> tx_journaled := False \<rparr>) of
       (left, t') \<Rightarrow>
         (Inr \<lparr> ar_outcome = outcome, ar_current = ps_current (tx_slots t'), ar_cleanup = left \<rparr>, t'))"

definition remove_journal :: "(nat \<Rightarrow> Answer) \<Rightarrow> ActivationResolution tx" where
  "remove_journal io t =
     (case aj_phase (tx_journal t) of
        HealthAccepted _ \<Rightarrow> remove_journal_as io Committed t
      | RollbackPending _ \<Rightarrow> remove_journal_as io RolledBack t
      | _ \<Rightarrow> refuse_tx ''journal removal'' t)"

section \<open>Verifying the published candidate\<close>

text \<open>Any failure to verify, a read fault included, counts against the copy.\<close>

definition verdict :: "(nat \<Rightarrow> Answer) \<Rightarrow> ArtifactIdentity \<Rightarrow> Tx \<Rightarrow> UpdateError + unit" where
  "verdict io candidate t =
     (case io (tx_clock t) of
        Works \<Rightarrow> verify_published_version (tx_disk t) candidate
      | Broken s \<Rightarrow> Inl (BaselineRefusal s)
      | BrokenLate s \<Rightarrow> Inl (BaselineRefusal s))"

definition abandon_unverified :: "(nat \<Rightarrow> Answer) \<Rightarrow> 'a tx" where
  "abandon_unverified io =
     bind_tx (remove_journal_as io Abandoned) (\<lambda>resolution t.
     (Inl (Activation ''candidate verification''
        (if ar_cleanup resolution \<noteq> None then ResolvedWithLeftovers else ProtectedStateUnchanged)), t))"

text \<open>One pass of the loop: whether another stage was published and the loop goes on.\<close>

definition pin_pass :: "(nat \<Rightarrow> Answer) \<Rightarrow> ArtifactIdentity list \<Rightarrow> ArtifactIdentity \<Rightarrow> bool tx" where
  "pin_pass io referenced candidate =
     bind_tx (look io (\<lambda>d. validate_publication_census d referenced candidate)) (\<lambda>_ t.
     if verdict io candidate t = Inr () then (Inr False, (tick t)\<lparr> tx_pins := ai_version candidate # tx_pins t \<rparr>)
     else
         bind_tx (retire_version io candidate) (\<lambda>_.
         bind_tx (look io (\<lambda>d. Inr (find_candidate_stage d candidate))) (\<lambda>found t.
         let t = t\<lparr> tx_stage := found \<rparr> in
         if found \<noteq> None then bind_tx (publish_candidate io) (\<lambda>_. return_tx True) t
         else abandon_unverified io t)) (tick t))"

lemma delete_shorter: "map_of xs k = Some v \<Longrightarrow> length (AList.delete k xs) < length xs"
proof (induction xs)
  case (Cons x xs)
  then show ?case using length_delete_le [of k xs] by (cases x) (auto split: if_splits)
qed simp

lemma look_disk [simp]: "look io f t = (r, t') \<Longrightarrow> tx_disk t' = tx_disk t"
  by (auto simp: look_def refaulted_def tick_def split: Answer.splits sum.splits)

lemma bind_tx_Inr: "bind_tx m k t = (Inr b, t'') \<longleftrightarrow> (\<exists>a t'. m t = (Inr a, t') \<and> k a t' = (Inr b, t''))"
  by (auto simp: bind_tx_def split: prod.splits sum.splits)

lemma perform_Inr: "perform io label f t = (Inr u, t') \<longleftrightarrow> io (tx_clock t) = Works \<and> t' = tick (change_disk f t)"
  by (auto simp: perform_def split: Answer.splits)

lemma rename_stage_shorter:
  "rename_stage io stage t = (Inr u, t') \<Longrightarrow> length (dk_stages (tx_disk t')) < length (dk_stages (tx_disk t))"
  by (auto simp: rename_stage_def perform_Inr Let_def refuse_tx_def tick_def change_disk_def publish_stage_def
      drop_stage_def intro: delete_shorter split: option.splits if_splits)

lemma publish_candidate_shorter:
  "publish_candidate io t = (Inr u, t') \<Longrightarrow> length (dk_stages (tx_disk t')) < length (dk_stages (tx_disk t))"
  by (auto simp: publish_candidate_def bind_tx_Inr refuse_tx_def split: option.splits dest!: look_disk rename_stage_shorter)

lemma retire_stages: "retire_version io a t = (Inr u, t') \<Longrightarrow> dk_stages (tx_disk t') = dk_stages (tx_disk t)"
  by (auto simp: retire_version_def retire_version_directory_def version_present_def bind_tx_Inr perform_Inr refuse_tx_def tick_def
      change_disk_def drop_version_def split: if_splits dest!: look_disk)

lemma pin_pass_shorter:
  "pin_pass io referenced candidate t = (Inr True, t') \<Longrightarrow> length (dk_stages (tx_disk t')) < length (dk_stages (tx_disk t))"
  by (auto simp: pin_pass_def abandon_unverified_def bind_tx_Inr Let_def return_tx_def tick_def
      split: if_splits dest!: look_disk publish_candidate_shorter retire_stages)

function pin_candidate :: "(nat \<Rightarrow> Answer) \<Rightarrow> ArtifactIdentity list \<Rightarrow> ArtifactIdentity \<Rightarrow> unit tx" where
  "pin_candidate io referenced candidate t =
     (case pin_pass io referenced candidate t of
        (Inl e, t') \<Rightarrow> (Inl e, t')
      | (Inr again, t') \<Rightarrow> if again then pin_candidate io referenced candidate t' else (Inr (), t'))"
  by pat_completeness auto
termination
  by (relation "measure (\<lambda>(_, _, _, t). length (dk_stages (tx_disk t)))")
    (auto dest: pin_pass_shorter [OF sym])

declare pin_candidate.simps [simp del]

definition ensure_candidate_pinned :: "(nat \<Rightarrow> Answer) \<Rightarrow> unit tx" where
  "ensure_candidate_pinned io t =
     (let candidate = aj_candidate (tx_journal t) in
      if ai_version candidate \<in> set (tx_pins t) then (Inr (), t)
      else pin_candidate io (slot_artifacts (tx_slots t)) candidate t)"

section \<open>The step loop\<close>

definition continue_tx :: "unit tx \<Rightarrow> Progress option tx" where
  "continue_tx m = bind_tx m (\<lambda>_. return_tx None)"

definition take_step ::
  "'v Local \<Rightarrow> (nat \<Rightarrow> Answer) \<Rightarrow> ArtifactIdentity option \<Rightarrow> ActivationStep \<Rightarrow> Progress option tx" where
  "take_step L io retiree next_step t =
     (let j = tx_journal t in
      case next_step of
        AwaitHealth \<Rightarrow> (Inr (Some ProgressAwaitingHealth), t)
      | RemoveJournal \<Rightarrow> bind_tx (remove_journal io) (\<lambda>r. return_tx (Some (ProgressResolved r))) t
      | AbandonAttempt \<Rightarrow> bind_tx (remove_journal_as io Abandoned) (\<lambda>r. return_tx (Some (ProgressResolved r))) t
      | PublishCandidate \<Rightarrow> continue_tx (publish_candidate io) t
      | AdvanceFloor \<Rightarrow>
          continue_tx (bind_tx (ensure_candidate_pinned io) (\<lambda>_.
            let floor = ai_version (aj_candidate j) in
            bind_tx (write_slot io (encode_floor (lc_semver L) (lc_floor L) floor) (\<lambda>d. d\<lparr> ps_version_floor := floor \<rparr>)) (\<lambda>_.
            slots_tx (\<lambda>s. s\<lparr> ps_version_floor := floor \<rparr>)))) t
      | SelectCandidate \<Rightarrow>
          continue_tx (bind_tx (write_pointer L io PointCurrent (aj_candidate j)) (\<lambda>_.
            slots_tx (\<lambda>s. s\<lparr> ps_current := aj_candidate j \<rparr>))) t
      | EnterAwaitingHealth \<Rightarrow> continue_tx (write_phase L io AwaitingHealth) t
      | PreservePriorKnownGood \<Rightarrow>
          continue_tx (bind_tx (write_pointer L io PointPreviousKnownGood (aj_prior_last_known_good j)) (\<lambda>_.
            slots_tx (\<lambda>s. s\<lparr> ps_previous_known_good := Some (aj_prior_last_known_good j) \<rparr>))) t
      | CommitCandidate \<Rightarrow>
          continue_tx (bind_tx (write_pointer L io PointLastKnownGood (aj_candidate j)) (\<lambda>_.
            slots_tx (\<lambda>s. s\<lparr> ps_last_known_good := aj_candidate j \<rparr>))) t
      | RestoreRollbackTarget \<Rightarrow>
          continue_tx (bind_tx (write_pointer L io PointCurrent (aj_rollback_target j)) (\<lambda>_.
            slots_tx (\<lambda>s. s\<lparr> ps_current := aj_rollback_target j \<rparr>))) t
      | RetireVersion \<Rightarrow>
          (case retiree of
             None \<Rightarrow> refuse_tx ''version retirement'' t
           | Some a \<Rightarrow> continue_tx (retire_version io a) t))"

definition advance_once :: "'v Local \<Rightarrow> (nat \<Rightarrow> Answer) \<Rightarrow> Progress option tx" where
  "advance_once L io t =
     (let retiree = retirement_due (tx_journal t) (tx_slots t) in
      bind_tx (case retiree of Some a \<Rightarrow> version_present io (ai_version a) | None \<Rightarrow> return_tx False) (\<lambda>retiree_present.
      bind_tx (candidate_location io) (\<lambda>candidate t.
      case next_activation_step L (tx_journal t) (tx_slots t) candidate retiree_present of
        Inl _ \<Rightarrow> refuse_tx ''state'' t
      | Inr next_step \<Rightarrow> take_step L io retiree next_step t)) t)"

fun advance :: "'v Local \<Rightarrow> (nat \<Rightarrow> Answer) \<Rightarrow> nat \<Rightarrow> Progress tx" where
  "advance L io 0 t = refuse_tx ''state'' t"
| "advance L io (Suc n) t =
     (case advance_once L io t of
        (Inl e, t') \<Rightarrow> (Inl e, t')
      | (Inr (Some progress), t') \<Rightarrow> (Inr progress, t')
      | (Inr None, t') \<Rightarrow> advance L io n t')"

definition run_to_resolution :: "'v Local \<Rightarrow> (nat \<Rightarrow> Answer) \<Rightarrow> ActivationResolution tx" where
  "run_to_resolution L io =
     bind_tx (advance L io MAX_STEPS_PER_RUN) (\<lambda>progress.
     case progress of
       ProgressResolved resolution \<Rightarrow> return_tx resolution
     | ProgressAwaitingHealth \<Rightarrow> refuse_tx ''resolution'')"

section \<open>Attempt start\<close>

text \<open>The three identities from the operating system's random source, or its failure.\<close>

definition mint_identities :: "(Digest \<times> Digest \<times> Digest) option \<Rightarrow> UpdateError + Digest \<times> Digest \<times> Digest" where
  "mint_identities random =
     (case random of
        None \<Rightarrow> Inl (BaselineRefusal ''attempt identity'')
      | Some (attempt, health, lifecycle) \<Rightarrow>
          if attempt = health \<or> attempt = lifecycle \<or> health = lifecycle
             \<or> replicate 32 0 \<in> set [attempt, health, lifecycle]
          then Inl (BaselineRefusal ''attempt identity'')
          else Inr (attempt, health, lifecycle))"

definition coordinator_image_digest :: "Digest option \<Rightarrow> UpdateError + Digest" where
  "coordinator_image_digest img = ok_or img (Activation ''coordinator identity'' ProtectedStateUnchanged)"

definition begin_activation ::
  "'v Local \<Rightarrow> ArtifactIdentity \<Rightarrow> Disk \<Rightarrow> WriteSnapshot \<Rightarrow> UpdateError + Digest \<Rightarrow> string \<Rightarrow> ArtifactIdentity
    \<Rightarrow> Digest option \<Rightarrow> (Digest \<times> Digest \<times> Digest) option \<Rightarrow> UpdateError + MintedAttempt" where
  "begin_activation L baseline d snapshot installation stage candidate img random =
     (let sv = lc_semver L; s = ws_slots snapshot;
      preflight =
        and_then installation (\<lambda>installation_id.
        and_then (validate_artifact_scope_and_baseline sv baseline candidate) (\<lambda>_.
        if ai_version candidate \<in> set (ws_pins snapshot) then Inl (Activation ''candidate version'' ProtectedStateUnchanged)
        else
        and_then (completed_stage_identity d stage) (\<lambda>recorded.
        if recorded \<noteq> Some candidate then Inl (Activation ''candidate stage'' ProtectedStateUnchanged)
        else
        and_then (coordinator_image_digest img) (\<lambda>coordinator_image_blake3.
        and_then (mint_identities random) (\<lambda>(attempt_id, health_channel_id, lifecycle_channel_id).
        let j = \<lparr> aj_attempt_id = attempt_id, aj_candidate = candidate, aj_rollback_target = ps_current s,
          aj_prior_floor = ps_version_floor s, aj_prior_last_known_good = ps_last_known_good s,
          aj_prior_previous_known_good = ps_previous_known_good s, aj_helper_image_blake3 = coordinator_image_blake3,
          aj_health_channel_id = health_channel_id, aj_lifecycle_channel_id = lifecycle_channel_id,
          aj_ownership = None, aj_phase = PublishPending \<rparr> in
        and_then (validate_activation_journal sv j) (\<lambda>_. Inr (installation_id, j))))))) in
      case preflight of
        Inl _ \<Rightarrow> Inl (Activation ''start'' ProtectedStateUnchanged)
      | Inr (installation_id, j) \<Rightarrow>
          Inr \<lparr> ma_transaction = \<lparr> tx_disk = d, tx_clock = 0, tx_journal = j, tx_slots = s, tx_pins = ws_pins snapshot,
                tx_stage = Some stage, tx_journaled = False \<rparr>,
              ma_installation_id = installation_id, ma_reminted = None \<rparr>)"

definition stale_preparations_removed :: "(nat \<Rightarrow> Answer) \<Rightarrow> Tx \<Rightarrow> UpdateError + unit" where
  "stale_preparations_removed io t =
     (case io (tx_clock t) of
        Works \<Rightarrow> Inr ()
      | Broken s \<Rightarrow> Inl (BaselineRefusal s)
      | BrokenLate s \<Rightarrow> Inl (BaselineRefusal s))"

definition journal_present :: "(nat \<Rightarrow> Answer) \<Rightarrow> Tx \<Rightarrow> bool" where
  "journal_present io t = (case io (tx_clock t) of Works \<Rightarrow> dk_journal (tx_disk t) \<noteq> None | _ \<Rightarrow> True)"

definition revealed_journal :: "AttemptOwner \<Rightarrow> InitiatingLogon \<Rightarrow> MintedAttempt \<Rightarrow> ActivationJournal" where
  "revealed_journal owner logon m =
     (let j = (tx_journal (ma_transaction m))\<lparr> aj_ownership :=
        Some \<lparr> aw_initiating_logon = logon, aw_attempt_owner = owner \<rparr> \<rparr> in
      case ma_reminted m of
        None \<Rightarrow> j
      | Some channels \<Rightarrow> j\<lparr> aj_health_channel_id := rc_health_channel_id channels,
          aj_lifecycle_channel_id := rc_lifecycle_channel_id channels \<rparr>)"

text \<open>The first record that reveals the identities: a replaced journal, or a new one at an absent name.\<close>

definition reveal :: "(nat \<Rightarrow> Answer) \<Rightarrow> bool \<Rightarrow> ActivationJournal \<Rightarrow> unit tx" where
  "reveal io reminted j t =
     (if reminted then
        bind_tx (perform io (\<lambda>s. s) (\<lambda>d. d\<lparr> dk_journal := Some j \<rparr>)) (\<lambda>_ t. (Inr (), t\<lparr> tx_journal := j \<rparr>)) t
      else
        case (if dk_journal (tx_disk t) \<noteq> None then refuse_tx ''record publication''
              else perform io (\<lambda>s. s) (\<lambda>d. d\<lparr> dk_journal := Some j \<rparr>)) (t\<lparr> tx_journal := j \<rparr>) of
          (Inr _, t') \<Rightarrow> (Inr (), t'\<lparr> tx_journaled := True \<rparr>)
        | (Inl cause, t') \<Rightarrow>
            if journal_present io t' then
              let t'' = (tick t')\<lparr> tx_journaled := True \<rparr> in (Inl (refault t'' cause), t'')
            else (Inl (before_record t' cause), tick t'))"

definition awaiting_health :: "'v Local \<Rightarrow> Digest \<Rightarrow> ActivationAttempt tx" where
  "awaiting_health L installation_id t =
     bind_tx (refaulted (journal_receipt L (tx_journal t))) (\<lambda>digest.
     return_tx \<lparr> aa_installation_id = installation_id, aa_health_receipt_digest = digest \<rparr>) t"

definition journal_attempt ::
  "'v Local \<Rightarrow> (nat \<Rightarrow> Answer) \<Rightarrow> AttemptOwner \<Rightarrow> InitiatingLogon \<Rightarrow> MintedAttempt \<Rightarrow> (UpdateError + JournaledAttempt) \<times> Tx" where
  "journal_attempt L io owner logon m =
     (let t = ma_transaction m; j = revealed_journal owner logon m; reminted = ma_reminted m \<noteq> None in
      case encode_activation_journal (lc_semver L) (lc_journal L) j of
        Inl cause \<Rightarrow> (Inl (before_record t cause), t)
      | Inr _ \<Rightarrow>
          (case stale_preparations_removed io t of
             Inl cause \<Rightarrow> (Inl (before_record t cause), tick t)
           | Inr _ \<Rightarrow>
               bind_tx (reveal io reminted j) (\<lambda>_.
               bind_tx (advance L io MAX_STEPS_PER_RUN) (\<lambda>progress.
               case progress of
                 ProgressAwaitingHealth \<Rightarrow>
                   bind_tx (awaiting_health L (ma_installation_id m)) (\<lambda>a. return_tx (JournaledAwaitingHealth a))
               | ProgressResolved resolution \<Rightarrow>
                   if reminted then return_tx (JournaledResolved resolution) else refuse_tx ''start'')) (tick t)))"

section \<open>Health, rollback and recovery\<close>

definition accept_health :: "'v Local \<Rightarrow> (nat \<Rightarrow> Answer) \<Rightarrow> ActivationAttempt \<Rightarrow> ActivationHealthReceipt \<Rightarrow> unit tx" where
  "accept_health L io a receipt t =
     (let j = tx_journal t in
      if hr_attempt_id receipt \<noteq> aj_attempt_id j \<or> hr_health_channel_id receipt \<noteq> aj_health_channel_id j
         \<or> hr_candidate receipt \<noteq> aj_candidate j
      then refuse_tx ''health receipt binding'' t
      else write_phase L io (HealthAccepted (aa_health_receipt_digest a)) t)"

definition require_retirement_binding :: "ProcessFamilyRetirement \<Rightarrow> Digest \<Rightarrow> unit tx" where
  "require_retirement_binding retirement installation_id t =
     (if pf_installation retirement \<noteq> installation_id \<or> pf_attempt retirement \<noteq> aj_attempt_id (tx_journal t)
         \<or> pf_lifecycle_channel retirement \<noteq> aj_lifecycle_channel_id (tx_journal t)
      then refuse_tx ''process-family retirement binding'' t
      else (Inr (), t))"

definition roll_back_attempt ::
  "'v Local \<Rightarrow> (nat \<Rightarrow> Answer) \<Rightarrow> ActivationAttempt \<Rightarrow> ActivationFailureClass \<Rightarrow> ProcessFamilyRetirement \<Rightarrow> ActivationResolution tx" where
  "roll_back_attempt L io a failure retirement =
     bind_tx (require_retirement_binding retirement (aa_installation_id a)) (\<lambda>_.
     bind_tx (write_phase L io (RollbackPending failure)) (\<lambda>_. run_to_resolution L io))"

definition complete :: "'v Local \<Rightarrow> (nat \<Rightarrow> Answer) \<Rightarrow> ActivationResolution tx" where
  "complete L io = run_to_resolution L io"

definition into_transaction :: "Disk \<Rightarrow> RecoveryInspection \<Rightarrow> Digest option \<Rightarrow> (UpdateError + unit) \<times> Tx" where
  "into_transaction d inspection img =
     (let t = \<lparr> tx_disk = d, tx_clock = 0, tx_journal = ri_journal inspection, tx_slots = ri_slots inspection,
        tx_pins = ri_pins inspection, tx_stage = ri_candidate_stage inspection, tx_journaled = True \<rparr> in
      bind_tx (refaulted (coordinator_image_digest img)) (\<lambda>digest t.
      if digest \<noteq> aj_helper_image_blake3 (tx_journal t) then refuse_tx ''coordinator identity'' t else (Inr (), t)) t)"

definition remint :: "Digest \<Rightarrow> (Digest \<times> Digest \<times> Digest) option \<Rightarrow> MintedAttempt tx" where
  "remint installation_id random t =
     bind_tx (refaulted (mint_identities random)) (\<lambda>(_, health_channel_id, lifecycle_channel_id) t.
     if health_channel_id = aj_attempt_id (tx_journal t) \<or> lifecycle_channel_id = aj_attempt_id (tx_journal t)
     then refuse_tx ''attempt identity'' t
     else (Inr \<lparr> ma_transaction = t, ma_installation_id = installation_id,
         ma_reminted = Some \<lparr> rc_health_channel_id = health_channel_id,
           rc_lifecycle_channel_id = lifecycle_channel_id \<rparr> \<rparr>, t)) t"

datatype RecoveryOutcome = RecoveryResolved ActivationResolution | Reminted MintedAttempt

definition resume_or_resolve ::
  "'v Local \<Rightarrow> (nat \<Rightarrow> Answer) \<Rightarrow> Digest \<Rightarrow> (Digest \<times> Digest \<times> Digest) option \<Rightarrow> RecoveryOutcome tx" where
  "resume_or_resolve L io installation_id random t =
     (if aj_phase (tx_journal t) = PublishPending
      then bind_tx (remint installation_id random) (\<lambda>m. return_tx (Reminted m)) t
      else
        bind_tx (look io (\<lambda>_. Inr ())) (\<lambda>_.
        bind_tx (\<lambda>t. if aj_phase (tx_journal t) = AwaitingHealth then write_phase L io (RollbackPending ProcessCrash) t
          else (Inr (), t)) (\<lambda>_.
        bind_tx (run_to_resolution L io) (\<lambda>r. return_tx (RecoveryResolved r)))) t)"

definition recover ::
  "'v Local \<Rightarrow> (nat \<Rightarrow> Answer) \<Rightarrow> Disk \<Rightarrow> RecoveryInspection \<Rightarrow> Digest \<Rightarrow> ProcessFamilyRetirement \<Rightarrow> Digest option
    \<Rightarrow> (Digest \<times> Digest \<times> Digest) option \<Rightarrow> (UpdateError + RecoveryOutcome) \<times> Tx" where
  "recover L io d inspection installation_id retirement img random =
     (case into_transaction d inspection img of
        (Inl e, t) \<Rightarrow> (Inl e, t)
      | (Inr _, t) \<Rightarrow>
          bind_tx (require_retirement_binding retirement installation_id) (\<lambda>_.
          resume_or_resolve L io installation_id random) t)"

definition resume_unlaunched ::
  "Disk \<Rightarrow> RecoveryInspection \<Rightarrow> Digest \<Rightarrow> Digest option \<Rightarrow> (Digest \<times> Digest \<times> Digest) option
    \<Rightarrow> (UpdateError + MintedAttempt) \<times> Tx" where
  "resume_unlaunched d inspection installation_id img random =
     (case into_transaction d inspection img of
        (Inl e, t) \<Rightarrow> (Inl e, t)
      | (Inr _, t) \<Rightarrow>
          if aj_phase (tx_journal t) \<noteq> PublishPending then refuse_tx ''unlaunched resume'' t
          else remint installation_id random t)"

end
