(* ===== verification/Update_Crash.thy ===== *)
theory Update_Crash
  imports Update_Transaction
begin

text \<open>
  Crash safety of the activation transaction. A disk is loadable when the loader its state calls for
  accepts it: the writer's loader without a journal, the recovery inspection with one. Every run of the
  engine, cut by any failure at any file operation, leaves a loadable disk. \<open>en_seen\<close> is a version floor
  some observer has read; the engine does not know it, and it bounds the floor of every later disk.
\<close>

section \<open>Loadable disks\<close>

record ('k, 'v) Engine =
  en_local :: "'v Local"
  en_path_eq :: "string \<Rightarrow> string \<Rightarrow> bool"
  en_verifier :: "'k UpdateVerifier"
  en_provenance :: InstallProvenance
  en_seen :: string

abbreviation en_semver :: "('k, 'v) Engine \<Rightarrow> 'v Semver" where
  "en_semver E \<equiv> lc_semver (en_local E)"

abbreviation en_baseline :: "('k, 'v) Engine \<Rightarrow> ArtifactIdentity" where
  "en_baseline E \<equiv> di_baseline (uv_expected (en_verifier E))"

definition write_snapshot :: "('k, 'v) Engine \<Rightarrow> Disk \<Rightarrow> UpdateError + WriteSnapshot" where
  "write_snapshot E d = load_activation_write_snapshot (en_semver E) (en_path_eq E) (en_verifier E) (en_provenance E) d"

definition inspection :: "('k, 'v) Engine \<Rightarrow> Disk \<Rightarrow> UpdateError + RecoveryInspection" where
  "inspection E d = load_recovery_inspection (en_local E) (en_path_eq E) (en_verifier E) (en_provenance E) d"

definition loads :: "('k, 'v) Engine \<Rightarrow> Disk \<Rightarrow> bool" where
  "loads E d =
     (case dk_journal d of
        None \<Rightarrow> (\<exists>ws. write_snapshot E d = Inr ws)
      | Some _ \<Rightarrow> (\<exists>ri. inspection E d = Inr ri))"

definition at_most :: "('k, 'v) Engine \<Rightarrow> string \<Rightarrow> string \<Rightarrow> bool" where
  "at_most E a b =
     (\<exists>v w. sv_parse (en_semver E) a = Some v \<and> sv_parse (en_semver E) b = Some w \<and> sv_cmp (en_semver E) v w \<noteq> OrdGreater)"

definition loadable :: "('k, 'v) Engine \<Rightarrow> Disk \<Rightarrow> bool" where
  "loadable E d = (loads E d \<and> at_most E (en_seen E) (ps_version_floor d))"

definition verifies :: "('k, 'v) Engine \<Rightarrow> string \<Rightarrow> bool" where
  "verifies E floor =
     (\<exists>a. verifier_admit (en_semver E) (en_path_eq E) (en_verifier E) (ObsProtected (en_provenance E) (Some floor)) = Inr a)"

definition admits :: "('k, 'v) Engine \<Rightarrow> string \<Rightarrow> bool" where
  "admits E floor = (verifies E floor \<and> at_most E (en_seen E) floor)"

definition sound :: "Disk \<Rightarrow> ArtifactIdentity \<Rightarrow> bool" where
  "sound d a = (verify_published_version d a = Inr ())"

definition in_scope :: "('k, 'v) Engine \<Rightarrow> ArtifactIdentity \<Rightarrow> bool" where
  "in_scope E a = (\<exists>v. validate_artifact_scope_and_baseline (en_semver E) (en_baseline E) a = Inr v)"

definition version_names :: "Disk \<Rightarrow> string set" where
  "version_names d = fst ` set (dk_versions d)"

definition journal_artifacts :: "ActivationJournal \<Rightarrow> ArtifactIdentity set" where
  "journal_artifacts j =
     insert (aj_candidate j) (insert (aj_rollback_target j) (insert (aj_prior_last_known_good j)
       (set_option (aj_prior_previous_known_good j))))"

definition excluded :: "ActivationJournal \<Rightarrow> 'a ProtectedSlots_scheme \<Rightarrow> ArtifactIdentity set" where
  "excluded j s = set_option (retirement_due j s) \<union> (if unpublished_candidate j s then {aj_candidate j} else {})"

lemma set_some_list [simp]: "set (some_list x) = set_option x"
  by (cases x) (simp_all add: some_list_def)

lemma slot_artifacts_set: "set (slot_artifacts s) = {ps_current s, ps_last_known_good s} \<union> set_option (ps_previous_known_good s)"
  by (auto simp: slot_artifacts_def)

lemma pin_versions_Inr: "(\<exists>pins. pin_versions d as = Inr pins) \<longleftrightarrow> (\<forall>a \<in> set as. sound d a)"
  by (induction as) (auto simp: and_then_eq_Inr sound_def)

lemma census_Inr:
  "validate_activation_version_census d as r = Inr u \<longleftrightarrow> version_names d \<subseteq> ai_version ` (set as \<union> set_option r)"
  by (auto simp: validate_activation_version_census_def Let_def list_all_iff version_names_def split: if_splits)

lemma pin_selected_Inr:
  "(\<exists>pins. pin_selected_versions d as r = Inr pins) \<longleftrightarrow>
    version_names d \<subseteq> ai_version ` (set as \<union> set_option r) \<and> (\<forall>a \<in> set as. sound d a)"
  using pin_versions_Inr [of d as] census_Inr [of d as r "()"] by (auto simp: pin_selected_versions_def and_then_eq_Inr)

lemma scope_Inr:
  "validate_artifact_scope_and_baseline sv base a = Inr v \<Longrightarrow> sv_parse sv (ai_version a) = Some v"
  by (cases "sv_parse sv (ai_version a)"; cases "sv_parse sv (ai_version base)")
    (auto simp: validate_artifact_scope_and_baseline_def split: if_splits Ordering.splits)

lemma selected_artifact_Inr:
  assumes "sv_parse (en_semver E) f = Some fv"
  shows "validate_selected_artifact (en_semver E) (en_baseline E) fv a = Inr u \<longleftrightarrow> in_scope E a \<and> at_most E (ai_version a) f"
proof (cases "validate_artifact_scope_and_baseline (en_semver E) (en_baseline E) a")
  case (Inr v)
  then show ?thesis using assms scope_Inr [OF Inr] by (simp add: validate_selected_artifact_def in_scope_def at_most_def)
qed (simp add: validate_selected_artifact_def in_scope_def)

lemma selected_all_Inr:
  assumes "sv_parse (en_semver E) f = Some fv"
  shows "validate_selected_all (en_semver E) (en_baseline E) fv as = Inr u \<longleftrightarrow>
    (\<forall>a \<in> set as. in_scope E a \<and> at_most E (ai_version a) f)"
  using selected_artifact_Inr [OF assms] by (induction as) (auto simp: and_then_eq_Inr)

lemma recovery_selection_set:
  "set (recovery_selection j slots ex) = (set slots \<union> journal_artifacts j) - set ex"
proof -
  have "set (fold (\<lambda>a s. if a \<in> set s \<or> a \<in> set ex then s else s @ [a]) as acc) = set acc \<union> (set as - set ex)"
    for as acc :: "ArtifactIdentity list" by (induction as arbitrary: acc) auto
  then show ?thesis by (auto simp: recovery_selection_def journal_artifacts_def)
qed

text \<open>Without a journal: what the writer's loader accepts.\<close>

definition settled :: "('k, 'v) Engine \<Rightarrow> Disk \<Rightarrow> bool" where
  "settled E d =
     (admits E (ps_version_floor d)
      \<and> (\<exists>f. sv_parse (en_semver E) (ps_version_floor d) = Some f
           \<and> validate_writer_pointer_context (en_semver E) (en_baseline E) d f = Inr ())
      \<and> (\<forall>a \<in> set (slot_artifacts d). sound d a)
      \<and> version_names d \<subseteq> ai_version ` set (slot_artifacts d))"

text \<open>With a journal: what the recovery inspection accepts, over the journal's artifacts.\<close>

definition underway :: "('k, 'v) Engine \<Rightarrow> ActivationJournal \<Rightarrow> Disk \<Rightarrow> bool" where
  "underway E j d =
     (admits E (ps_version_floor d) \<and> stands (en_local E) j d
      \<and> (aj_prior_last_known_good j \<noteq> en_baseline E \<longrightarrow> aj_prior_previous_known_good j \<noteq> None)
      \<and> (\<forall>a \<in> journal_artifacts j. in_scope E a)
      \<and> (\<forall>a \<in> journal_artifacts j - excluded j d. sound d a)
      \<and> version_names d \<subseteq> ai_version ` journal_artifacts j)"

lemma writer_selected_set: "set (writer_selected d) = set (slot_artifacts d)"
  by (cases "ps_previous_known_good d") (simp_all add: writer_selected_def slot_artifacts_def some_list_def insert_absorb insert_commute)

lemma settled_loads:
  assumes "dk_journal d = None"
  shows "loadable E d \<longleftrightarrow> settled E d"
proof -
  have "(\<exists>pins. pin_selected_versions d (writer_selected d) None = Inr pins) \<longleftrightarrow>
      version_names d \<subseteq> ai_version ` set (slot_artifacts d) \<and> (\<forall>a \<in> set (slot_artifacts d). sound d a)"
    by (simp add: pin_selected_Inr writer_selected_set)
  then show ?thesis
    using assms
    unfolding loadable_def loads_def write_snapshot_def load_activation_write_snapshot_def settled_def admits_def verifies_def Let_def
    by (simp add: and_then_eq_Inr) blast
qed

lemma valid_journal_floor:
  assumes "validate_activation_journal (en_semver E) j = Inr ()"
  shows "\<exists>f c. sv_parse (en_semver E) (aj_prior_floor j) = Some f \<and> sv_parse (en_semver E) (ai_version (aj_candidate j)) = Some c
      \<and> sv_cmp (en_semver E) c f = OrdGreater"
    and "a \<in> journal_artifacts j \<Longrightarrow> a \<noteq> aj_candidate j \<Longrightarrow> at_most E (ai_version a) (aj_prior_floor j)"
  using assms unfolding validate_activation_journal_def
  by (auto simp: and_then_eq_Inr covered_by_floor_Inr local_version_def Let_def journal_artifacts_def at_most_def
      split: if_splits)

lemma stands_valid: "stands L j s \<Longrightarrow> validate_activation_journal (lc_semver L) j = Inr ()"
  by (simp add: stands_def)

lemma stands_slots:
  assumes "stands L j s"
  shows "set (slot_artifacts s) \<subseteq> journal_artifacts j"
    and "ps_version_floor s \<in> {aj_prior_floor j, ai_version (aj_candidate j)}"
    and "journal_separates j \<Longrightarrow> ps_version_floor s = aj_prior_floor j \<Longrightarrow> aj_candidate j \<notin> set (slot_artifacts s)"
  using assms
  by (auto simp: stands_def slot_artifacts_set journal_artifacts_def prior_slots_match_def commit_slots_match_def
      journal_separates_def Let_def split: ActivationPhase.splits)

definition admitted_by_name :: "ActivationJournal \<Rightarrow> Disk \<Rightarrow> ArtifactIdentity option" where
  "admitted_by_name j d =
     (if unpublished_candidate j d then fst (locate_unpublished_candidate d (aj_candidate j)) else retirement_due j d)"

definition pinned_selection :: "ActivationJournal \<Rightarrow> Disk \<Rightarrow> ArtifactIdentity list" where
  "pinned_selection j d =
     recovery_selection j (slot_artifacts d)
       (some_list (retirement_due j d) @ (if unpublished_candidate j d then [aj_candidate j] else []))"

lemma inspection_Inr:
  assumes "dk_journal d = Some j"
  shows "(\<exists>ri. inspection E d = Inr ri) \<longleftrightarrow>
    verifies E (ps_version_floor d) \<and> stands (en_local E) j d
    \<and> (aj_prior_last_known_good j \<noteq> en_baseline E \<longrightarrow> aj_prior_previous_known_good j \<noteq> None)
    \<and> (\<exists>f. sv_parse (en_semver E) (ps_version_floor d) = Some f
         \<and> validate_selected_all (en_semver E) (en_baseline E) f (slot_artifacts d) = Inr ())
    \<and> (\<exists>f. sv_parse (en_semver E) (aj_prior_floor j) = Some f
         \<and> validate_selected_all (en_semver E) (en_baseline E) f
             ([aj_rollback_target j, aj_prior_last_known_good j] @ some_list (aj_prior_previous_known_good j)) = Inr ())
    \<and> in_scope E (aj_candidate j)
    \<and> (\<exists>pins. pin_selected_versions d (pinned_selection j d) (admitted_by_name j d) = Inr pins)"
proof -
  have protect: "(case validate_protected_recovery_state (en_local E) j d of
      Inl _ \<Rightarrow> Inl (BaselineRefusal ''activation recovery inspection'') | Inr u \<Rightarrow> Inr u) = Inr u'
      \<longleftrightarrow> stands (en_local E) j d" for u' :: unit
    using validate_protected_iff [of "en_local E" j d "()"]
    by (cases "validate_protected_recovery_state (en_local E) j d") auto
  have history: "validate_recovery_known_good_history b l p = Inr u \<longleftrightarrow> (l \<noteq> b \<longrightarrow> p \<noteq> None)" for b l p u
    by (simp add: validate_recovery_known_good_history_def)
  show ?thesis
    unfolding inspection_def load_recovery_inspection_def Let_def admitted_by_name_def pinned_selection_def verifies_def in_scope_def
    using assms
    by (simp add: and_then_eq_Inr protect history case_prod_unfold) auto
qed

lemma at_most_refl:
  assumes "precedence_order (en_semver E)" "sv_parse (en_semver E) a = Some v"
  shows "at_most E a a"
  using assms total_cmp_refl [of "sv_cmp (en_semver E)" v] by (simp add: at_most_def precedence_order_def)

lemma at_most_trans:
  assumes "precedence_order (en_semver E)" "at_most E a b" "at_most E b c"
  shows "at_most E a c"
  using assms total_cmpD(2) [of "sv_cmp (en_semver E)"] unfolding at_most_def precedence_order_def by fastforce

lemma prior_below_candidate:
  assumes "precedence_order (en_semver E)" "validate_activation_journal (en_semver E) j = Inr ()"
  shows "at_most E (aj_prior_floor j) (ai_version (aj_candidate j))"
proof -
  obtain f c where v: "sv_parse (en_semver E) (aj_prior_floor j) = Some f"
      "sv_parse (en_semver E) (ai_version (aj_candidate j)) = Some c" "sv_cmp (en_semver E) c f = OrdGreater"
    using valid_journal_floor(1) [OF assms(2)] by blast
  then have "sv_cmp (en_semver E) f c = OrdLess"
    using assms(1) total_cmpD(1) [of "sv_cmp (en_semver E)" f c] by (simp add: precedence_order_def)
  with v show ?thesis by (auto simp: at_most_def)
qed

lemma artifacts_at_most:
  assumes "precedence_order (en_semver E)" "stands (en_local E) j d"
  shows "a \<in> set (slot_artifacts d) \<Longrightarrow> at_most E (ai_version a) (ps_version_floor d)"
proof -
  note valid = stands_valid [OF assms(2)]
  note apart = valid_journal_separates [OF assms(1) valid]
  note floor = stands_slots [OF assms(2)]
  assume a: "a \<in> set (slot_artifacts d)"
  show "at_most E (ai_version a) (ps_version_floor d)"
  proof (cases "a = aj_candidate j")
    case True
    with a floor apart have "ps_version_floor d = ai_version a" by auto
    moreover obtain c where "sv_parse (en_semver E) (ai_version a) = Some c"
      using valid_journal_floor(1) [OF valid] True by blast
    ultimately show ?thesis using at_most_refl [OF assms(1)] by simp
  next
    case False
    with a floor(1) have "at_most E (ai_version a) (aj_prior_floor j)" using valid_journal_floor(2) [OF valid] by blast
    then show ?thesis
      using floor(2) at_most_trans [OF assms(1) _ prior_below_candidate [OF assms(1) valid]] by auto
  qed
qed

lemma version_of_None: "version_of d n = None \<longleftrightarrow> n \<notin> version_names d"
  by (simp add: version_of_def version_names_def map_of_eq_None_iff)

lemma retirement_artifact:
  "retirement_due j s = Some a \<Longrightarrow> a \<in> journal_artifacts j \<and> \<not> unpublished_candidate j s"
  by (auto simp: retirement_due_def journal_artifacts_def unpublished_candidate_def split: ActivationPhase.splits if_splits)

lemma pinned_selection_set: "stands L j d \<Longrightarrow> set (pinned_selection j d) = journal_artifacts j - excluded j d"
  using stands_slots(1) [of L j d] by (auto simp: pinned_selection_def recovery_selection_set excluded_def)

lemma census_names:
  assumes "stands L j d"
  shows "version_names d \<subseteq> ai_version ` (set (pinned_selection j d) \<union> set_option (admitted_by_name j d))
    \<longleftrightarrow> version_names d \<subseteq> ai_version ` journal_artifacts j"
proof
  have "set_option (admitted_by_name j d) \<subseteq> journal_artifacts j"
    by (auto simp: admitted_by_name_def locate_unpublished_candidate_def journal_artifacts_def retirement_artifact
        dest!: retirement_artifact split: option.splits if_splits)
  moreover assume "version_names d \<subseteq> ai_version ` (set (pinned_selection j d) \<union> set_option (admitted_by_name j d))"
  ultimately show "version_names d \<subseteq> ai_version ` journal_artifacts j"
    unfolding pinned_selection_set [OF assms] by blast
next
  assume names: "version_names d \<subseteq> ai_version ` journal_artifacts j"
  have "ai_version a \<in> ai_version ` (set (pinned_selection j d) \<union> set_option (admitted_by_name j d))"
    if "a \<in> journal_artifacts j" "ai_version a \<in> version_names d" for a
  proof (cases "a \<in> excluded j d")
    case True
    then have "a \<in> set_option (admitted_by_name j d)"
      using that(2) version_of_None [of d "ai_version a"]
      by (auto simp: excluded_def admitted_by_name_def locate_unpublished_candidate_def dest!: retirement_artifact
          split: if_splits option.splits)
    then show ?thesis by blast
  qed (use that in \<open>auto simp: pinned_selection_set [OF assms]\<close>)
  then show "version_names d \<subseteq> ai_version ` (set (pinned_selection j d) \<union> set_option (admitted_by_name j d))"
    using names by blast
qed

lemma underway_loads:
  assumes "precedence_order (en_semver E)" "dk_journal d = Some j"
  shows "loadable E d \<longleftrightarrow> underway E j d"
  supply validate_selected_all.simps [simp del]
proof -
  have slots: "(\<exists>f. sv_parse (en_semver E) (ps_version_floor d) = Some f
         \<and> validate_selected_all (en_semver E) (en_baseline E) f (slot_artifacts d) = Inr ())
      \<longleftrightarrow> (\<forall>a \<in> set (slot_artifacts d). in_scope E a)" if "stands (en_local E) j d"
  proof -
    have "\<exists>f. sv_parse (en_semver E) (ps_version_floor d) = Some f"
      using artifacts_at_most [OF assms(1) that, of "ps_current d"] by (auto simp: slot_artifacts_set at_most_def)
    with artifacts_at_most [OF assms(1) that] show ?thesis by (auto simp: selected_all_Inr)
  qed
  have prior: "(\<exists>f. sv_parse (en_semver E) (aj_prior_floor j) = Some f
         \<and> validate_selected_all (en_semver E) (en_baseline E) f
             ([aj_rollback_target j, aj_prior_last_known_good j] @ some_list (aj_prior_previous_known_good j)) = Inr ())
      \<longleftrightarrow> (\<forall>a \<in> journal_artifacts j - {aj_candidate j}. in_scope E a)" if "stands (en_local E) j d"
  proof -
    note valid = stands_valid [OF that]
    obtain f where "sv_parse (en_semver E) (aj_prior_floor j) = Some f" using valid_journal_floor(1) [OF valid] by blast
    moreover have "journal_artifacts j - {aj_candidate j}
        = set ([aj_rollback_target j, aj_prior_last_known_good j] @ some_list (aj_prior_previous_known_good j))"
      using valid_journal_separates [OF assms(1) valid]
      by (auto simp: journal_artifacts_def journal_separates_def Let_def split: option.splits)
    ultimately show ?thesis using valid_journal_floor(2) [OF valid] by (auto simp: selected_all_Inr)
  qed
  show ?thesis
  proof (cases "stands (en_local E) j d")
    case True
    have "aj_candidate j \<in> journal_artifacts j" by (simp add: journal_artifacts_def)
    then show ?thesis
      using stands_slots(1) [OF True] assms(2)
      unfolding loadable_def loads_def underway_def admits_def inspection_Inr [OF assms(2)] slots [OF True] prior [OF True] pin_selected_Inr
        pinned_selection_set [OF True] census_names [OF True, unfolded pinned_selection_set [OF True]]
      by auto
  qed (simp add: loadable_def loads_def assms(2) underway_def inspection_Inr [OF assms(2)])
qed

section \<open>Durable steps keep the disk loadable\<close>

lemma sound_iff:
  "sound d a \<longleftrightarrow> (\<exists>c. version_of d (ai_version a) = Some c \<and> cp_recorded c = Some a \<and> cp_contents c = Inr ())"
  by (auto simp: sound_def verify_published_version_def split: option.splits)

lemma version_of_drop [simp]:
  "version_of (drop_version v d) n = (if n = v then None else version_of d n)"
  "version_of (drop_stage st d) n = version_of d n"
  "version_of (publish_stage st v c d) n = (if n = v then Some c else version_of d n)"
  by (simp_all add: version_of_def drop_version_def drop_stage_def publish_stage_def delete_conv')

lemma version_names_drop [simp]:
  "version_names (drop_version v d) = version_names d - {v}"
  "version_names (drop_stage st d) = version_names d"
  "version_names (publish_stage st v c d) = insert v (version_names d)"
  using arg_cong [OF delete_keys [of v "dk_versions d"], of set]
  by (auto simp: version_names_def drop_version_def drop_stage_def publish_stage_def simp flip: set_map)

lemma slots_drop [simp]:
  "ps_version_floor (drop_version v d) = ps_version_floor d" "ps_current (drop_version v d) = ps_current d"
  "ps_last_known_good (drop_version v d) = ps_last_known_good d"
  "ps_previous_known_good (drop_version v d) = ps_previous_known_good d" "dk_journal (drop_version v d) = dk_journal d"
  "ps_version_floor (drop_stage v d) = ps_version_floor d" "ps_current (drop_stage v d) = ps_current d"
  "ps_last_known_good (drop_stage v d) = ps_last_known_good d"
  "ps_previous_known_good (drop_stage v d) = ps_previous_known_good d" "dk_journal (drop_stage v d) = dk_journal d"
  "ps_version_floor (publish_stage v n c d) = ps_version_floor d" "ps_current (publish_stage v n c d) = ps_current d"
  "ps_last_known_good (publish_stage v n c d) = ps_last_known_good d"
  "ps_previous_known_good (publish_stage v n c d) = ps_previous_known_good d"
  "dk_journal (publish_stage v n c d) = dk_journal d"
  by (simp_all add: drop_version_def drop_stage_def publish_stage_def)

text \<open>What the classification reads of the slots.\<close>

definition same_slots :: "'a ProtectedSlots_scheme \<Rightarrow> 'b ProtectedSlots_scheme \<Rightarrow> bool" where
  "same_slots s s' =
     (ps_version_floor s = ps_version_floor s' \<and> ps_current s = ps_current s'
      \<and> ps_last_known_good s = ps_last_known_good s' \<and> ps_previous_known_good s = ps_previous_known_good s')"

lemma same_slots_reads:
  assumes "same_slots s s'"
  shows "stands L j s = stands L j s'" "excluded j s = excluded j s'" "retirement_due j s = retirement_due j s'"
    "unpublished_candidate j s = unpublished_candidate j s'" "set (slot_artifacts s) = set (slot_artifacts s')"
    "classify_protected_recovery_state L j s = classify_protected_recovery_state L j s'"
proof -
  from assms have same: "ps_version_floor s = ps_version_floor s'" "ps_current s = ps_current s'"
      "ps_last_known_good s = ps_last_known_good s'" "ps_previous_known_good s = ps_previous_known_good s'"
    by (simp_all add: same_slots_def)
  show "stands L j s = stands L j s'" "excluded j s = excluded j s'" "retirement_due j s = retirement_due j s'"
    "unpublished_candidate j s = unpublished_candidate j s'" "set (slot_artifacts s) = set (slot_artifacts s')"
    "classify_protected_recovery_state L j s = classify_protected_recovery_state L j s'"
    by (simp_all only: stands_def excluded_def retirement_due_def unpublished_candidate_def slot_artifacts_set
      prior_slots_match_def commit_slots_match_def classify_protected_recovery_state_def classify_publish_pending_def same)
qed

lemma journal_artifacts_known:
  assumes "journal_separates j"
  shows "journal_artifacts j
    = insert (aj_candidate j) (insert (aj_prior_last_known_good j) (set_option (aj_prior_previous_known_good j)))"
  using assms by (cases "aj_prior_previous_known_good j") (auto simp: journal_separates_def journal_artifacts_def Let_def)

lemma journal_versions_inj:
  assumes "journal_separates j"
  shows "inj_on ai_version (journal_artifacts j)"
  unfolding journal_artifacts_known [OF assms]
  using assms by (cases "aj_prior_previous_known_good j") (simp_all add: journal_separates_def Let_def inj_on_def, metis+)

lemma underway_update:
  assumes "underway E j d" "dk_versions d' = dk_versions d"
    and "journal_artifacts j' = journal_artifacts j" "aj_prior_last_known_good j' = aj_prior_last_known_good j"
      "aj_prior_previous_known_good j' = aj_prior_previous_known_good j"
    and "stands (en_local E) j' d'" "admits E (ps_version_floor d')"
    and "\<And>a. a \<in> excluded j d \<Longrightarrow> a \<notin> excluded j' d' \<Longrightarrow> sound d a"
  shows "underway E j' d'"
proof -
  have "sound d' a = sound d a" for a using assms(2) by (simp add: sound_iff version_of_def)
  moreover have "version_names d' = version_names d" using assms(2) by (simp add: version_names_def)
  ultimately show ?thesis using assms unfolding underway_def by auto
qed

lemma underway_versions:
  assumes "underway E j d" "same_slots d d'"
    and "version_names d' \<subseteq> version_names d \<union> ai_version ` journal_artifacts j"
    and "\<And>a. a \<in> journal_artifacts j - excluded j d \<Longrightarrow> version_of d' (ai_version a) = version_of d (ai_version a)"
  shows "underway E j d'"
proof -
  have "sound d' a = sound d a" if "a \<in> journal_artifacts j - excluded j d" for a
    using assms(4) [OF that] by (simp add: sound_iff)
  moreover have "ps_version_floor d' = ps_version_floor d" using assms(2) by (simp add: same_slots_def)
  ultimately show ?thesis
    using assms(1,3) same_slots_reads [OF assms(2)] unfolding underway_def by auto
qed

lemma underway_drop:
  assumes "precedence_order (en_semver E)" "underway E j d" "a \<in> journal_artifacts j" "a \<in> excluded j d"
  shows "underway E j (drop_version (ai_version a) d)"
proof (rule underway_versions [OF assms(2)])
  have "journal_separates j"
    using assms(1,2) valid_journal_separates stands_valid unfolding underway_def by blast
  note inj = journal_versions_inj [OF this]
  show "version_of (drop_version (ai_version a) d) (ai_version b) = version_of d (ai_version b)"
    if "b \<in> journal_artifacts j - excluded j d" for b
    using that assms(3,4) inj by (auto simp: inj_on_def)
qed (auto simp: same_slots_def)

lemma underway_publish:
  assumes "precedence_order (en_semver E)" "underway E j d" "unpublished_candidate j d"
  shows "underway E j (publish_stage st (ai_version (aj_candidate j)) c d)"
proof (rule underway_versions [OF assms(2)])
  have "journal_separates j"
    using assms(1,2) valid_journal_separates stands_valid unfolding underway_def by blast
  note inj = journal_versions_inj [OF this]
  have "aj_candidate j \<in> journal_artifacts j" "aj_candidate j \<in> excluded j d"
    using assms(3) by (simp_all add: journal_artifacts_def excluded_def)
  then show "version_of (publish_stage st (ai_version (aj_candidate j)) c d) (ai_version b) = version_of d (ai_version b)"
    if "b \<in> journal_artifacts j - excluded j d" for b
    using that inj by (auto simp: inj_on_def)
qed (auto simp: same_slots_def journal_artifacts_def)

text \<open>Strictly below, as the loaders compare previous-known-good with last-known-good.\<close>

definition below :: "('k, 'v) Engine \<Rightarrow> string \<Rightarrow> string \<Rightarrow> bool" where
  "below E a b =
     (\<exists>v w. sv_parse (en_semver E) a = Some v \<and> sv_parse (en_semver E) b = Some w \<and> sv_cmp (en_semver E) v w = OrdLess)"

lemma context_Inr:
  assumes "sv_parse (en_semver E) (ps_version_floor s) = Some f"
  shows "validate_writer_pointer_context (en_semver E) (en_baseline E) s f = Inr u \<longleftrightarrow>
    (ps_last_known_good s \<noteq> en_baseline E \<longrightarrow> ps_previous_known_good s \<noteq> None)
    \<and> (\<forall>a \<in> set (slot_artifacts s). in_scope E a \<and> at_most E (ai_version a) (ps_version_floor s))
    \<and> (ps_current s = ps_last_known_good s \<or> ps_previous_known_good s = Some (ps_current s))
    \<and> (\<forall>p. ps_previous_known_good s = Some p \<longrightarrow>
         p \<noteq> ps_last_known_good s \<and> below E (ai_version p) (ai_version (ps_last_known_good s)))"
  unfolding validate_writer_pointer_context_def Let_def slot_artifacts_set
  by (cases "ps_previous_known_good s")
    (auto simp: and_then_eq_Inr selected_artifact_Inr [OF assms] below_def)

lemma valid_journal_previous:
  assumes "validate_activation_journal (en_semver E) j = Inr ()" "aj_prior_previous_known_good j = Some p"
  shows "p \<noteq> aj_prior_last_known_good j" "below E (ai_version p) (ai_version (aj_prior_last_known_good j))"
  using assms unfolding validate_activation_journal_def validate_previous_def
  by (auto simp: and_then_eq_Inr local_version_def below_def split: if_splits)

lemma known_good_below_candidate:
  assumes "precedence_order (en_semver E)" "validate_activation_journal (en_semver E) j = Inr ()"
    "a \<in> journal_artifacts j" "a \<noteq> aj_candidate j"
  shows "below E (ai_version a) (ai_version (aj_candidate j))"
proof -
  obtain f c where v: "sv_parse (en_semver E) (aj_prior_floor j) = Some f"
      "sv_parse (en_semver E) (ai_version (aj_candidate j)) = Some c" "sv_cmp (en_semver E) c f = OrdGreater"
    using valid_journal_floor(1) [OF assms(2)] by blast
  obtain w where w: "sv_parse (en_semver E) (ai_version a) = Some w" "sv_cmp (en_semver E) w f \<noteq> OrdGreater"
    using valid_journal_floor(2) [OF assms(2-4)] v(1) by (auto simp: at_most_def)
  have total: "total_cmp (sv_cmp (en_semver E))" using assms(1) by (simp add: precedence_order_def)
  have "sv_cmp (en_semver E) f c = OrdLess" using v(3) total_cmpD(1) [OF total, of f c] by simp
  then have "sv_cmp (en_semver E) w c = OrdLess" using w(2) total_cmp_trans_less [OF total] by blast
  with v(2) w(1) show ?thesis by (simp add: below_def)
qed

lemma admits_above:
  assumes "precedence_order (en_semver E)" "admits E f" "validate_activation_journal (en_semver E) j = Inr ()" "f = aj_prior_floor j"
  shows "admits E (ai_version (aj_candidate j))"
proof -
  obtain v c where vc: "sv_parse (en_semver E) (aj_prior_floor j) = Some v"
      "sv_parse (en_semver E) (ai_version (aj_candidate j)) = Some c" "sv_cmp (en_semver E) c v = OrdGreater"
    using valid_journal_floor(1) [OF assms(3)] by blast
  have total: "total_cmp (sv_cmp (en_semver E))" using assms(1) by (simp add: precedence_order_def)
  have "sv_cmp (en_semver E) c b = OrdGreater" if "sv_cmp (en_semver E) v b \<noteq> OrdLess" for b
  proof -
    have "sv_cmp (en_semver E) b v \<noteq> OrdGreater" "sv_cmp (en_semver E) v c = OrdLess"
      using that vc(3) total_cmpD(1) [OF total, of b v] total_cmpD(1) [OF total, of v c] by simp_all
    then have "sv_cmp (en_semver E) b c = OrdLess" using total_cmp_trans_less [OF total] by blast
    then show ?thesis using total_cmpD(1) [OF total, of c b] by simp
  qed
  then have "verifies E (ai_version (aj_candidate j))"
    using assms(2,4) vc
    by (auto simp: admits_def verifies_def verifier_admit_def and_then_eq_Inr validate_version_floor_def
        split: InstallOwner.splits option.splits Ordering.splits if_splits)
  then show ?thesis
    using assms(2,4) at_most_trans [OF assms(1) _ prior_below_candidate [OF assms(1,3)]] by (simp add: admits_def)
qed

lemma names_without:
  assumes "version_names d \<subseteq> ai_version ` (A \<union> B)" "\<And>a. a \<in> B \<Longrightarrow> version_of d (ai_version a) = None"
  shows "version_names d \<subseteq> ai_version ` A"
  using assms unfolding version_of_None by blast

lemma settledI:
  assumes "precedence_order (en_semver E)" "underway E j d"
    and "set (slot_artifacts d) \<inter> excluded j d = {}"
    and "version_names d \<subseteq> ai_version ` set (slot_artifacts d)"
    and "ps_last_known_good d \<noteq> en_baseline E \<longrightarrow> ps_previous_known_good d \<noteq> None"
    and "ps_current d = ps_last_known_good d \<or> ps_previous_known_good d = Some (ps_current d)"
    and "\<And>p. ps_previous_known_good d = Some p \<Longrightarrow>
      p \<noteq> ps_last_known_good d \<and> below E (ai_version p) (ai_version (ps_last_known_good d))"
  shows "settled E d"
proof -
  have st: "stands (en_local E) j d" using assms(2) by (simp add: underway_def)
  have all: "a \<in> set (slot_artifacts d) \<Longrightarrow> at_most E (ai_version a) (ps_version_floor d)" for a
    using artifacts_at_most [OF assms(1) st] .
  then obtain f where f: "sv_parse (en_semver E) (ps_version_floor d) = Some f"
    using all [of "ps_current d"] by (auto simp: slot_artifacts_set at_most_def)
  have "\<forall>a \<in> set (slot_artifacts d). in_scope E a \<and> sound d a"
    using assms(2,3) stands_slots(1) [OF st] unfolding underway_def by blast
  then show ?thesis
    using assms(2,4-7) all f context_Inr [OF f, of "()"] by (auto simp: settled_def underway_def)
qed

lemma settled_without_journal: "settled E (d\<lparr> dk_journal := x \<rparr>) = settled E d"
proof -
  have "same_slots (d\<lparr> dk_journal := x \<rparr>) d" by (simp add: same_slots_def)
  moreover have "sound (d\<lparr> dk_journal := x \<rparr>) a = sound d a" for a by (simp add: sound_iff version_of_def)
  ultimately show ?thesis
    using same_slots_reads(5) [of "d\<lparr> dk_journal := x \<rparr>" d]
    by (simp add: settled_def version_names_def validate_writer_pointer_context_def)
qed

lemma underway_with_journal: "underway E j (d\<lparr> dk_journal := x \<rparr>) = underway E j d"
proof -
  have "same_slots (d\<lparr> dk_journal := x \<rparr>) d" by (simp add: same_slots_def)
  moreover have "sound (d\<lparr> dk_journal := x \<rparr>) a = sound d a" for a by (simp add: sound_iff version_of_def)
  ultimately show ?thesis
    using same_slots_reads(1) [of "d\<lparr> dk_journal := x \<rparr>" d "en_local E" j]
      same_slots_reads(2) [of "d\<lparr> dk_journal := x \<rparr>" d j] by (simp add: underway_def version_names_def)
qed

text \<open>The journal may go once its attempt is resolved and the retiring version is gone.\<close>

lemma commit_settles:
  assumes "precedence_order (en_semver E)" "underway E j d" "aj_phase j = HealthAccepted r"
    and "ps_last_known_good d = aj_candidate j"
    and "\<And>a. retirement_due j d = Some a \<Longrightarrow> version_of d (ai_version a) = None"
  shows "settled E d"
proof -
  have st: "stands (en_local E) j d" using assms(2) by (simp add: underway_def)
  note valid = stands_valid [OF st]
  note apart = valid_journal_separates [OF assms(1) valid]
  have current: "ps_current d = aj_candidate j" "ps_previous_known_good d = Some (aj_prior_last_known_good j)"
    using st assms(3,4) apart by (auto simp: stands_def commit_slots_match_def journal_separates_def Let_def)
  have slots: "set (slot_artifacts d) = {aj_candidate j, aj_prior_last_known_good j}"
    using current assms(4) by (auto simp: slot_artifacts_set)
  have due: "retirement_due j d = aj_prior_previous_known_good j"
    using assms(3,4) current by (simp add: retirement_due_def)
  have artifacts: "journal_artifacts j = set (slot_artifacts d) \<union> set_option (retirement_due j d)"
    unfolding journal_artifacts_known [OF apart] slots due by auto
  show ?thesis
  proof (rule settledI [OF assms(1,2)])
    show "set (slot_artifacts d) \<inter> excluded j d = {}"
      using assms(3) apart unfolding slots excluded_def due
      by (auto simp: unpublished_candidate_def journal_separates_def Let_def split: option.splits)
    show "version_names d \<subseteq> ai_version ` set (slot_artifacts d)"
    proof (rule names_without)
      show "version_names d \<subseteq> ai_version ` (set (slot_artifacts d) \<union> set_option (retirement_due j d))"
        using assms(2) unfolding underway_def artifacts by blast
    qed (use assms(5) in \<open>auto simp: elem_set\<close>)
    show "p \<noteq> ps_last_known_good d \<and> below E (ai_version p) (ai_version (ps_last_known_good d))"
      if "ps_previous_known_good d = Some p" for p
    proof -
      have p: "p = aj_prior_last_known_good j" using that current by simp
      moreover have "p \<noteq> aj_candidate j" using p apart by (auto simp: journal_separates_def Let_def)
      ultimately show ?thesis
        using known_good_below_candidate [OF assms(1) valid, of p] assms(4) by (simp add: journal_artifacts_def)
    qed
  qed (simp_all add: current assms(4))
qed

text \<open>An attempt whose slots are the prior ones: rolled back, or never selected.\<close>

lemma prior_settles:
  assumes "precedence_order (en_semver E)" "underway E j d" "prior_slots_match j d" "ps_current d = aj_rollback_target j"
    and "excluded j d \<subseteq> {aj_candidate j}" "version_of d (ai_version (aj_candidate j)) = None"
  shows "settled E d"
proof -
  have st: "stands (en_local E) j d" using assms(2) by (simp add: underway_def)
  note valid = stands_valid [OF st]
  note apart = valid_journal_separates [OF assms(1) valid]
  have target: "aj_rollback_target j = aj_prior_last_known_good j
      \<or> aj_prior_previous_known_good j = Some (aj_rollback_target j)"
    using apart by (auto simp: journal_separates_def Let_def split: option.splits)
  have slots: "set (slot_artifacts d) = insert (aj_prior_last_known_good j) (set_option (aj_prior_previous_known_good j))"
    using assms(3,4) target by (auto simp: slot_artifacts_set prior_slots_match_def)
  have artifacts: "journal_artifacts j = insert (aj_candidate j) (set (slot_artifacts d))"
    unfolding journal_artifacts_known [OF apart] slots by simp
  have not_slot: "aj_candidate j \<notin> set (slot_artifacts d)"
    using apart unfolding slots by (auto simp: journal_separates_def Let_def split: option.splits)
  show ?thesis
  proof (rule settledI [OF assms(1,2)])
    show "set (slot_artifacts d) \<inter> excluded j d = {}" using assms(5) not_slot by blast
    show "version_names d \<subseteq> ai_version ` set (slot_artifacts d)"
    proof (rule names_without)
      show "version_names d \<subseteq> ai_version ` (set (slot_artifacts d) \<union> {aj_candidate j})"
        using assms(2) unfolding underway_def artifacts by simp
    qed (use assms(6) in simp)
  qed (use assms(2-4) target valid_journal_previous [OF valid] in \<open>auto simp: underway_def prior_slots_match_def\<close>)
qed

lemma start_underway:
  assumes "precedence_order (en_semver E)" "settled E d" "validate_activation_journal (en_semver E) j = Inr ()" "in_scope E (aj_candidate j)"
    and "aj_phase j = PublishPending" "aj_rollback_target j = ps_current d" "aj_prior_floor j = ps_version_floor d"
      "aj_prior_last_known_good j = ps_last_known_good d" "aj_prior_previous_known_good j = ps_previous_known_good d"
  shows "underway E j d"
proof -
  obtain f where f: "sv_parse (en_semver E) (ps_version_floor d) = Some f"
      "validate_writer_pointer_context (en_semver E) (en_baseline E) d f = Inr ()"
    using assms(2) by (auto simp: settled_def)
  have artifacts: "journal_artifacts j = insert (aj_candidate j) (set (slot_artifacts d))"
    using assms(6-9) by (auto simp: journal_artifacts_def slot_artifacts_set)
  have "excluded j d = {aj_candidate j}" "stands (en_local E) j d"
    using assms(3-9)
    by (simp_all add: excluded_def unpublished_candidate_def retirement_due_def stands_def prior_slots_match_def)
  then show ?thesis
    using assms(2,4,8,9) f(2) unfolding underway_def settled_def context_Inr [OF f(1)] artifacts by auto
qed

end
