(* ===== verification/Update_Engine.thy ===== *)
theory Update_Engine
  imports Update_Crash
begin

text \<open>
  Runs of the activation engine. Every operation of the transaction is given a triple with a second
  postcondition for refusals: the disk it leaves is loadable and the reported effect is true of it. The
  step loop runs under these triples; \<open>Update_Recovery\<close> composes them into the engine.
\<close>

section \<open>Triples\<close>

definition runs :: "(Tx \<Rightarrow> bool) \<Rightarrow> 'a tx \<Rightarrow> ('a \<Rightarrow> Tx \<Rightarrow> bool) \<Rightarrow> (UpdateError \<Rightarrow> Tx \<Rightarrow> bool) \<Rightarrow> bool" where
  "runs P m Q R = (\<forall>t. P t \<longrightarrow> (case m t of (Inl e, t') \<Rightarrow> R e t' | (Inr a, t') \<Rightarrow> Q a t'))"

lemma runsI:
  assumes "\<And>t. P t \<Longrightarrow> case m t of (Inl e, t') \<Rightarrow> R e t' | (Inr a, t') \<Rightarrow> Q a t'"
  shows "runs P m Q R"
  using assms by (simp add: runs_def)

lemma runs_bind:
  assumes "runs P m Q R" "\<And>a. runs (Q a) (k a) S R"
  shows "runs P (bind_tx m k) S R"
proof (rule runsI)
  fix t assume "P t"
  with assms show "case bind_tx m k t of (Inl e, t') \<Rightarrow> R e t' | (Inr a, t') \<Rightarrow> S a t'"
    by (cases "m t"; cases "fst (m t)") (fastforce simp: runs_def bind_tx_def)+
qed

lemma runs_weaken: "runs P m Q R \<Longrightarrow> (\<And>t. P' t \<Longrightarrow> P t) \<Longrightarrow> (\<And>a t. Q a t \<Longrightarrow> Q' a t) \<Longrightarrow> runs P' m Q' R"
  unfolding runs_def by (fastforce split: prod.splits sum.splits)

lemma runs_pre: "runs P m Q R \<Longrightarrow> (\<And>t. P' t \<Longrightarrow> P t) \<Longrightarrow> runs P' m Q R"
  by (rule runs_weaken)

lemma runs_return: "(\<And>t. P t \<Longrightarrow> Q a t) \<Longrightarrow> runs P (return_tx a) Q R"
  by (simp add: runs_def return_tx_def)

lemma runs_state: "(\<And>t. P t \<Longrightarrow> runs (\<lambda>t'. t' = t) m Q R) \<Longrightarrow> runs P m Q R"
  by (simp add: runs_def)

section \<open>The transaction's invariant\<close>

definition live :: "('k, 'v) Engine \<Rightarrow> Tx \<Rightarrow> bool" where
  "live E t =
     (tx_journaled t \<and> dk_journal (tx_disk t) = Some (tx_journal t) \<and> same_slots (tx_slots t) (tx_disk t)
      \<and> underway E (tx_journal t) (tx_disk t)
      \<and> (ai_version (aj_candidate (tx_journal t)) \<in> set (tx_pins t) \<longrightarrow> sound (tx_disk t) (aj_candidate (tx_journal t))))"

text \<open>The records as the attempt found them.\<close>

definition as_found :: "ActivationJournal \<Rightarrow> Disk \<Rightarrow> bool" where
  "as_found j d = (ps_current d = aj_rollback_target j \<and> prior_slots_match j d \<and> ps_version_floor d = aj_prior_floor j)"

definition safe :: "('k, 'v) Engine \<Rightarrow> UpdateError \<Rightarrow> Tx \<Rightarrow> bool" where
  "safe E e t =
     (loadable E (tx_disk t)
      \<and> (\<exists>s effect. e = Activation s effect
           \<and> (effect = ProtectedStateUnchanged \<longrightarrow> dk_journal (tx_disk t) = None \<and> as_found (tx_journal t) (tx_disk t))))"

lemma live_loads: "precedence_order (en_semver E) \<Longrightarrow> live E t \<Longrightarrow> loadable E (tx_disk t)"
  using underway_loads by (auto simp: live_def)

lemma live_tick [simp]: "live E (tick t) = live E t"
  by (simp add: live_def tick_def)

lemma tick_simps [simp]:
  "tx_disk (tick t) = tx_disk t" "tx_journal (tick t) = tx_journal t" "tx_slots (tick t) = tx_slots t"
  "tx_pins (tick t) = tx_pins t" "tx_stage (tick t) = tx_stage t" "tx_journaled (tick t) = tx_journaled t"
  by (simp_all add: tick_def)

lemma change_disk_simps [simp]:
  "tx_disk (change_disk f t) = f (tx_disk t)" "tx_journal (change_disk f t) = tx_journal t"
  "tx_slots (change_disk f t) = tx_slots t" "tx_pins (change_disk f t) = tx_pins t"
  "tx_stage (change_disk f t) = tx_stage t" "tx_journaled (change_disk f t) = tx_journaled t"
  by (simp_all add: change_disk_def)

lemma live_safe: "precedence_order (en_semver E) \<Longrightarrow> live E t \<Longrightarrow> safe E (fault t s) t"
  using live_loads [of E t] by (simp add: safe_def fault_def live_def)

lemma safe_tick [simp]: "safe E e (tick t) = safe E e t"
  by (simp add: safe_def)

text \<open>A triple whose refusals are safe, for a precondition that includes the invariant.\<close>

definition engine_runs :: "('k, 'v) Engine \<Rightarrow> (Tx \<Rightarrow> bool) \<Rightarrow> 'a tx \<Rightarrow> ('a \<Rightarrow> Tx \<Rightarrow> bool) \<Rightarrow> bool" where
  "engine_runs E P m Q = runs (\<lambda>t. live E t \<and> P t) m Q (safe E)"

lemma engine_bind:
  assumes "engine_runs E P m (\<lambda>a t. live E t \<and> Q a t)" "\<And>a. engine_runs E (Q a) (k a) S"
  shows "engine_runs E P (bind_tx m k) S"
  using assms unfolding engine_runs_def by (rule runs_bind)

lemma engine_last:
  assumes "engine_runs E P m (\<lambda>a t. live E t \<and> Q a t)" "\<And>a t. live E t \<Longrightarrow> Q a t \<Longrightarrow> S (g a t) (h a t)"
  shows "engine_runs E P (bind_tx m (\<lambda>a t. (Inr (g a t), h a t))) S"
  using assms(1) unfolding engine_runs_def
  by (rule runs_bind) (simp add: runs_def assms(2))

lemma engine_pre: "engine_runs E P m Q \<Longrightarrow> (\<And>t. live E t \<Longrightarrow> P' t \<Longrightarrow> P t) \<Longrightarrow> engine_runs E P' m Q"
  unfolding engine_runs_def by (erule runs_pre) simp

lemma engine_post: "engine_runs E P m Q \<Longrightarrow> (\<And>a t. Q a t \<Longrightarrow> Q' a t) \<Longrightarrow> engine_runs E P m Q'"
  unfolding engine_runs_def by (erule runs_weaken) simp_all

lemma engine_refuse: "precedence_order (en_semver E) \<Longrightarrow> engine_runs E P (refuse_tx s) Q"
  by (simp add: engine_runs_def runs_def refuse_tx_def live_safe)

lemma engine_refaulted:
  "precedence_order (en_semver E) \<Longrightarrow> engine_runs E P (refaulted r) (\<lambda>a t. live E t \<and> P t \<and> r = Inr a)"
  by (cases r) (simp_all add: engine_runs_def runs_def refaulted_def refault_def live_safe)

lemma fault_tick [simp]: "fault (tick t) s = fault t s"
  by (simp add: fault_def)

lemma engine_look:
  assumes "precedence_order (en_semver E)" "\<And>t. P (tick t) = P t"
  shows "engine_runs E P (look io f) (\<lambda>a t. live E t \<and> P t \<and> f (tx_disk t) = Inr a)"
  unfolding engine_runs_def
proof (rule runsI)
  fix t assume "live E t \<and> P t"
  then show "case look io f t of (Inl e, t') \<Rightarrow> safe E e t'
      | (Inr a, t') \<Rightarrow> live E t' \<and> P t' \<and> f (tx_disk t') = Inr a"
    using live_safe [OF assms(1), of t] assms(2)
    by (cases "io (tx_clock t)"; cases "f (tx_disk t)") (simp_all add: look_def refaulted_def refault_def)
qed

lemma engine_perform:
  assumes "precedence_order (en_semver E)" "\<And>t. live E t \<Longrightarrow> P t \<Longrightarrow> loadable E (f (tx_disk t))"
    and "\<And>t. live E t \<Longrightarrow> P t \<Longrightarrow> Q (tick (change_disk f t))"
  shows "engine_runs E P (perform io label f) (\<lambda>_. Q)"
  unfolding engine_runs_def
proof (rule runsI)
  fix t assume t: "live E t \<and> P t"
  then have "safe E (fault t s) (change_disk f t)" for s
    using assms(2) by (simp add: safe_def fault_def live_def)
  with t show "case perform io label f t of (Inl e, t') \<Rightarrow> safe E e t' | (Inr _, t') \<Rightarrow> Q t'"
    using live_safe [OF assms(1), of t] assms(3) by (cases "io (tx_clock t)") (simp_all add: perform_def)
qed

section \<open>What each step finds\<close>

definition step_ready ::
  "ActivationJournal \<Rightarrow> 'a ProtectedSlots_scheme \<Rightarrow> CandidateLocation \<Rightarrow> bool \<Rightarrow> ActivationStep \<Rightarrow> bool" where
  "step_ready j s loc present next_step =
     (case next_step of
        PublishCandidate \<Rightarrow> unpublished_candidate j s \<and> loc = Staged
      | AbandonAttempt \<Rightarrow> unpublished_candidate j s \<and> loc = Absent
      | AdvanceFloor \<Rightarrow> unpublished_candidate j s \<and> loc = Published
      | SelectCandidate \<Rightarrow> aj_phase j = PublishPending \<and> ps_version_floor s = ai_version (aj_candidate j)
          \<and> ps_current s = aj_rollback_target j
      | EnterAwaitingHealth \<Rightarrow> aj_phase j = PublishPending \<and> ps_version_floor s = ai_version (aj_candidate j)
          \<and> ps_current s = aj_candidate j
      | AwaitHealth \<Rightarrow> aj_phase j = AwaitingHealth
      | PreservePriorKnownGood \<Rightarrow> (\<exists>r. aj_phase j = HealthAccepted r) \<and> ps_last_known_good s \<noteq> aj_candidate j
      | CommitCandidate \<Rightarrow> (\<exists>r. aj_phase j = HealthAccepted r) \<and> ps_last_known_good s \<noteq> aj_candidate j
          \<and> ps_previous_known_good s = Some (aj_prior_last_known_good j)
      | RestoreRollbackTarget \<Rightarrow> (\<exists>f. aj_phase j = RollbackPending f) \<and> ps_current s = aj_candidate j
      | RetireVersion \<Rightarrow> retirement_due j s \<noteq> None \<and> present
      | RemoveJournal \<Rightarrow> (retirement_due j s \<noteq> None \<longrightarrow> \<not> present)
          \<and> ((\<exists>r. aj_phase j = HealthAccepted r) \<and> ps_last_known_good s = aj_candidate j
             \<or> (\<exists>f. aj_phase j = RollbackPending f) \<and> ps_current s = aj_rollback_target j))"

lemma next_step_ready:
  assumes "next_activation_step L j s loc present = Inr next_step"
  shows "stands L j s \<and> step_ready j s loc present next_step"
proof -
  have "stands L j s" using assms by (auto simp: stands_iff next_activation_step_def Let_def)
  moreover have "step_ready j s loc present next_step"
  proof (cases "aj_phase j")
    case PublishPending
    with assms \<open>stands L j s\<close> show ?thesis
      by (auto simp: next_activation_step_def classify_protected_recovery_state_def classify_publish_pending_def stands_def
          step_ready_def unpublished_candidate_def Let_def split: if_splits CandidateLocation.splits)
  next
    case AwaitingHealth
    with assms \<open>stands L j s\<close> show ?thesis
      by (auto simp: next_activation_step_def classify_protected_recovery_state_def stands_def step_ready_def Let_def
          split: if_splits)
  next
    case (HealthAccepted r)
    with assms \<open>stands L j s\<close> show ?thesis
      by (auto simp: next_activation_step_def classify_protected_recovery_state_def stands_def step_ready_def Let_def
          split: if_splits)
  next
    case (RollbackPending f)
    with assms \<open>stands L j s\<close> show ?thesis
      by (auto simp: next_activation_step_def classify_protected_recovery_state_def stands_def step_ready_def Let_def
          split: if_splits)
  qed
  ultimately show ?thesis ..
qed

section \<open>Record writes\<close>

lemma live_separates: "precedence_order (en_semver E) \<Longrightarrow> live E t \<Longrightarrow> journal_separates (tx_journal t)"
  using valid_journal_separates stands_valid unfolding live_def underway_def by blast

lemma write_journal_runs:
  assumes order: "precedence_order (en_semver E)"
    and step: "\<And>t. live E t \<Longrightarrow> P t \<Longrightarrow> validate_activation_journal (en_semver E) j = Inr () \<Longrightarrow> underway E j (tx_disk t)"
    and same: "\<And>t. P t \<Longrightarrow> aj_candidate j = aj_candidate (tx_journal t)"
    and keep: "\<And>t. P t \<Longrightarrow> Q ((tick (change_disk (\<lambda>d. d\<lparr> dk_journal := Some j \<rparr>) t))\<lparr> tx_journal := j \<rparr>)"
  shows "engine_runs E P (write_journal (en_local E) io j) (\<lambda>_ t. live E t \<and> Q t)"
  unfolding engine_runs_def write_journal_def
proof (rule runs_bind)
  let ?f = "\<lambda>d. d\<lparr> dk_journal := Some j \<rparr>"
  let ?mid = "\<lambda>t. live E (t\<lparr> tx_journal := j \<rparr>) \<and> Q (t\<lparr> tx_journal := j \<rparr>)"
  let ?enc = "encode_activation_journal (en_semver E) (lc_journal (en_local E)) j"
  have mid: "engine_runs E (\<lambda>t. P t \<and> ?enc = Inr bs) (perform io (\<lambda>s. s) ?f) (\<lambda>_. ?mid)" for bs
  proof (rule engine_perform [OF order])
    fix t assume t: "live E t" "P t \<and> ?enc = Inr bs"
    then have "validate_activation_journal (en_semver E) j = Inr ()"
      by (auto simp: encode_activation_journal_def and_then_eq_Inr)
    with t step have "underway E j (?f (tx_disk t))" by (simp add: underway_with_journal)
    moreover have "sound (?f d) a = sound d a" for d a by (simp add: sound_iff version_of_def)
    ultimately show "loadable E (?f (tx_disk t))" "?mid (tick (change_disk ?f t))"
      using t underway_loads [OF order, of "?f (tx_disk t)" j] same keep
      by (auto simp: live_def same_slots_def)
  qed
  show "runs (\<lambda>t. live E t \<and> P t) (write_slot io ?enc ?f) (\<lambda>_. ?mid) (safe E)"
    unfolding write_slot_def
    using engine_bind [OF engine_refaulted [OF order, of P ?enc] mid] by (simp add: engine_runs_def)
  show "runs ?mid (\<lambda>t. (Inr (), t\<lparr> tx_journal := j \<rparr>)) (\<lambda>_ t. live E t \<and> Q t) (safe E)" by (simp add: runs_def)
qed

section \<open>Steps of the slots\<close>

text \<open>The attempt a transaction works for: its journal but for the phase.\<close>

definition attempt_of :: "Tx \<Rightarrow> ActivationJournal" where
  "attempt_of t = (tx_journal t)\<lparr> aj_phase := PublishPending \<rparr>"

text \<open>A transaction with this journal and these records.\<close>

definition stands_at :: "ActivationJournal \<Rightarrow> ProtectedSlots \<Rightarrow> Tx \<Rightarrow> bool" where
  "stands_at j s t = (tx_journal t = j \<and> same_slots s (tx_disk t))"

lemma stands_at_simps [simp]:
  "stands_at j s (tick t) = stands_at j s t"
  "stands_at j s (t\<lparr> tx_slots := x \<rparr>) = stands_at j s t" "stands_at j s (t\<lparr> tx_pins := y \<rparr>) = stands_at j s t"
  "stands_at j s (t\<lparr> tx_stage := z \<rparr>) = stands_at j s t"
  by (simp_all add: stands_at_def)

lemma stands_atD:
  assumes "stands_at j s t"
  shows "tx_journal t = j" "unpublished_candidate j (tx_disk t) = unpublished_candidate j s"
    "retirement_due j (tx_disk t) = retirement_due j s" "excluded j (tx_disk t) = excluded j s"
    "ps_version_floor (tx_disk t) = ps_version_floor s" "ps_current (tx_disk t) = ps_current s"
    "ps_last_known_good (tx_disk t) = ps_last_known_good s" "ps_previous_known_good (tx_disk t) = ps_previous_known_good s"
  using assms same_slots_reads [of s "tx_disk t"] by (auto simp: stands_at_def same_slots_def)

lemma same_slots_refl [simp]: "same_slots s s"
  by (simp add: same_slots_def)

lemma live_stands_at: "live E t \<Longrightarrow> stands_at (tx_journal t) (tx_slots t) t"
  by (simp add: live_def stands_at_def)

lemma same_slots_update:
  "same_slots s d \<Longrightarrow> same_slots (s\<lparr> ps_version_floor := f \<rparr>) (d\<lparr> ps_version_floor := f \<rparr>)"
  "same_slots s d \<Longrightarrow> same_slots (s\<lparr> ps_current := a \<rparr>) (d\<lparr> ps_current := a \<rparr>)"
  "same_slots s d \<Longrightarrow> same_slots (s\<lparr> ps_last_known_good := a \<rparr>) (d\<lparr> ps_last_known_good := a \<rparr>)"
  "same_slots s d \<Longrightarrow> same_slots (s\<lparr> ps_previous_known_good := p \<rparr>) (d\<lparr> ps_previous_known_good := p \<rparr>)"
  by (simp_all add: same_slots_def)

lemma underway_slot_write:
  assumes "underway E j d" "dk_versions d' = dk_versions d" "stands (en_local E) j d'" "admits E (ps_version_floor d')"
    and "\<And>a. a \<in> excluded j d \<Longrightarrow> sound d a"
  shows "underway E j d'"
  using assms(1,2) by (rule underway_update) (use assms in simp_all)

lemma floor_underway:
  assumes "precedence_order (en_semver E)" "underway E j d" "unpublished_candidate j d" "sound d (aj_candidate j)"
  shows "underway E j (d\<lparr> ps_version_floor := ai_version (aj_candidate j) \<rparr>)"
proof (rule underway_slot_write [OF assms(2)])
  have st: "stands (en_local E) j d" and admits: "admits E (ps_version_floor d)" using assms(2) by (simp_all add: underway_def)
  note valid = stands_valid [OF st]
  show "admits E (ps_version_floor (d\<lparr> ps_version_floor := ai_version (aj_candidate j) \<rparr>))"
    using admits_above [OF assms(1) admits valid] assms(3) by (simp add: unpublished_candidate_def)
  show "stands (en_local E) j (d\<lparr> ps_version_floor := ai_version (aj_candidate j) \<rparr>)"
    using st assms(3) by (auto simp: stands_def unpublished_candidate_def prior_slots_match_def)
  show "sound d a" if "a \<in> excluded j d" for a
    using that assms(3,4) by (auto simp: excluded_def unpublished_candidate_def retirement_due_def split: if_splits)
qed simp

lemma select_underway:
  assumes "precedence_order (en_semver E)" "underway E j d" "aj_phase j = PublishPending"
    "ps_version_floor d = ai_version (aj_candidate j)"
  shows "underway E j (d\<lparr> ps_current := aj_candidate j \<rparr>)"
proof (rule underway_slot_write [OF assms(2)])
  have st: "stands (en_local E) j d" and admits: "admits E (ps_version_floor d)" using assms(2) by (simp_all add: underway_def)
  then show "stands (en_local E) j (d\<lparr> ps_current := aj_candidate j \<rparr>)" "admits E (ps_version_floor (d\<lparr> ps_current := aj_candidate j \<rparr>))"
    using assms(3,4) by (auto simp: stands_def prior_slots_match_def)
  show "sound d a" if "a \<in> excluded j d" for a
    using that assms(3,4) valid_journal_separates [OF assms(1) stands_valid [OF st]]
    by (auto simp: excluded_def unpublished_candidate_def retirement_due_def journal_separates_def Let_def split: if_splits)
qed simp

lemma preserve_underway:
  assumes "underway E j d" "aj_phase j = HealthAccepted r" "ps_last_known_good d \<noteq> aj_candidate j"
  shows "underway E j (d\<lparr> ps_previous_known_good := Some (aj_prior_last_known_good j) \<rparr>)"
  using assms
  by (intro underway_slot_write [OF assms(1)])
    (auto simp: underway_def stands_def commit_slots_match_def excluded_def unpublished_candidate_def retirement_due_def)

lemma commit_underway:
  assumes "underway E j d" "aj_phase j = HealthAccepted r" "ps_last_known_good d \<noteq> aj_candidate j"
    "ps_previous_known_good d = Some (aj_prior_last_known_good j)"
  shows "underway E j (d\<lparr> ps_last_known_good := aj_candidate j \<rparr>)"
  using assms
  by (intro underway_slot_write [OF assms(1)])
    (auto simp: underway_def stands_def commit_slots_match_def excluded_def unpublished_candidate_def retirement_due_def)

lemma restore_underway:
  assumes "precedence_order (en_semver E)" "underway E j d" "aj_phase j = RollbackPending f" "ps_current d = aj_candidate j"
  shows "underway E j (d\<lparr> ps_current := aj_rollback_target j \<rparr>)"
proof (rule underway_slot_write [OF assms(2)])
  have st: "stands (en_local E) j d" using assms(2) by (simp add: underway_def)
  have "aj_rollback_target j \<noteq> aj_candidate j"
    using valid_journal_separates [OF assms(1) stands_valid [OF st]] by (auto simp: journal_separates_def Let_def)
  then show "sound d a" if "a \<in> excluded j d" for a
    using that assms(3,4) by (auto simp: excluded_def unpublished_candidate_def retirement_due_def split: if_splits)
qed (use assms in \<open>auto simp: underway_def stands_def prior_slots_match_def\<close>)

lemma phase_underway:
  assumes "precedence_order (en_semver E)" "underway E j d" "validate_activation_journal (en_semver E) (j\<lparr> aj_phase := p \<rparr>) = Inr ()"
    and "ps_current d = aj_candidate j" "ps_version_floor d = ai_version (aj_candidate j)" "prior_slots_match j d"
    and "aj_phase j = PublishPending \<and> p = AwaitingHealth
      \<or> aj_phase j = AwaitingHealth \<and> (\<exists>f. p = RollbackPending f)
      \<or> aj_phase j = AwaitingHealth \<and> (\<exists>r. p = HealthAccepted r \<and> journal_receipt (en_local E) j = Inr r)"
  shows "underway E (j\<lparr> aj_phase := p \<rparr>) d"
proof (rule underway_update [OF assms(2)])
  have st: "stands (en_local E) j d" using assms(2) by (simp add: underway_def)
  show "stands (en_local E) (j\<lparr> aj_phase := p \<rparr>) d"
    using assms(3-7) by (auto simp: stands_def prior_slots_match_def commit_slots_match_def journal_receipt_def)
  show "sound d a" if "a \<in> excluded j d" for a
    using that assms(5,7) valid_journal_separates [OF assms(1) stands_valid [OF st]]
    by (auto simp: excluded_def unpublished_candidate_def retirement_due_def journal_separates_def Let_def split: if_splits)
qed (use assms(2) in \<open>simp_all add: journal_artifacts_def underway_def\<close>)

section \<open>Version steps\<close>

lemma live_drop:
  assumes "precedence_order (en_semver E)" "live E t" "a \<in> journal_artifacts (tx_journal t)" "a \<in> excluded (tx_journal t) (tx_disk t)"
  shows "live E (change_disk (drop_version (ai_version a)) (t\<lparr> tx_pins := removeAll (ai_version a) (tx_pins t) \<rparr>))"
  using assms(2) underway_drop [OF assms(1) _ assms(3,4)]
  by (auto simp: live_def same_slots_def sound_iff)

lemma retire_version_runs:
  assumes order: "precedence_order (en_semver E)" and a: "a \<in> journal_artifacts j" "a \<in> excluded j s"
  shows "engine_runs E (stands_at j s) (retire_version io a)
    (\<lambda>_ t. live E t \<and> stands_at j s t \<and> version_of (tx_disk t) (ai_version a) = None)"
proof -
  let ?Q = "\<lambda>_ t. live E t \<and> stands_at j s t \<and> version_of (tx_disk t) (ai_version a) = None"
  let ?P = "\<lambda>t. stands_at j s t \<and> ai_version a \<notin> set (tx_pins t)"
  have drop: "engine_runs E (\<lambda>t. ?P t \<and> Inr (version_of (tx_disk t) (ai_version a) \<noteq> None) = Inr present)
      (if \<not> present then refuse_tx ''version retirement'' else perform io (\<lambda>s. s) (drop_version (ai_version a))) ?Q" for present
  proof (cases present)
    case True
    have "engine_runs E ?P (perform io (\<lambda>s. s) (drop_version (ai_version a))) ?Q"
    proof (rule engine_perform [OF order])
      fix t assume t: "live E t" "?P t"
      then have "t\<lparr> tx_pins := removeAll (ai_version a) (tx_pins t) \<rparr> = t" by simp
      with t a live_drop [OF order t(1), of a] have live: "live E (change_disk (drop_version (ai_version a)) t)"
        using stands_atD(1,4) [of j s t] by simp
      then show "loadable E (drop_version (ai_version a) (tx_disk t))" using live_loads [OF order live] by simp
      show "?Q () (tick (change_disk (drop_version (ai_version a)) t))"
        using live t(2) by (simp add: stands_at_def same_slots_def)
    qed
    with True show ?thesis by (auto intro: engine_pre)
  qed (simp add: engine_refuse [OF order])
  have "engine_runs E ?P (retire_version_directory io (ai_version a)) ?Q"
    unfolding retire_version_directory_def version_present_def
    by (rule engine_bind [OF engine_post [OF engine_look [OF order]] drop]) auto
  then have directory: "case retire_version_directory io (ai_version a) t of (Inl e, t') \<Rightarrow> safe E e t' | (Inr u, t') \<Rightarrow> ?Q u t'"
    if "live E t" "?P t" for t using that by (simp add: engine_runs_def runs_def)
  show ?thesis
    unfolding engine_runs_def
  proof (rule runsI)
    fix t assume t: "live E t \<and> stands_at j s t"
    let ?t = "t\<lparr> tx_pins := removeAll (ai_version a) (tx_pins t) \<rparr>"
    have "live E ?t" using t by (auto simp: live_def)
    with t directory [of ?t] live_safe [OF order, of t "''version retirement''"]
    show "case retire_version io a t of (Inl e, t') \<Rightarrow> safe E e t' | (Inr u, t') \<Rightarrow> ?Q u t'"
      by (simp add: retire_version_def refuse_tx_def)
  qed
qed

lemma publish_runs:
  assumes order: "precedence_order (en_semver E)" and j: "unpublished_candidate j s"
  shows "engine_runs E (stands_at j s) (publish_candidate io) (\<lambda>_ t. live E t \<and> stands_at j s t)"
proof -
  have rename: "engine_runs E (stands_at j s) (rename_stage io st) (\<lambda>_ t. live E t \<and> stands_at j s t)" for st
    unfolding engine_runs_def
  proof (rule runs_state)
    fix t assume t: "live E t \<and> stands_at j s t"
    let ?v = "ai_version (aj_candidate (tx_journal t))"
    show "runs (\<lambda>t'. t' = t) (rename_stage io st) (\<lambda>_ t. live E t \<and> stands_at j s t) (safe E)"
    proof (cases "\<exists>c. map_of (dk_stages (tx_disk t)) st = Some c \<and> version_of (tx_disk t) ?v = None")
      case True
      then obtain c where c: "map_of (dk_stages (tx_disk t)) st = Some c" "version_of (tx_disk t) ?v = None" by blast
      have "engine_runs E (\<lambda>t'. t' = t) (perform io (\<lambda>_. ''candidate publication'') (publish_stage st ?v c))
          (\<lambda>_ t. live E t \<and> stands_at j s t)"
      proof (rule engine_perform [OF order])
        fix t' assume "live E t'" "t' = t"
        have "\<not> sound (tx_disk t) (aj_candidate (tx_journal t))" using c(2) by (simp add: sound_iff)
        moreover have "underway E (tx_journal t) (publish_stage st ?v c (tx_disk t))"
          using t j underway_publish [OF order, of j "tx_disk t" st c] stands_atD(1,2) [of j s t] by (simp add: live_def)
        ultimately have "live E (change_disk (publish_stage st ?v c) t)"
          using t by (auto simp: live_def same_slots_def)
        with t \<open>t' = t\<close> show "loadable E (publish_stage st ?v c (tx_disk t'))"
            "live E (tick (change_disk (publish_stage st ?v c) t')) \<and> stands_at j s (tick (change_disk (publish_stage st ?v c) t'))"
          using live_loads [OF order, of "change_disk (publish_stage st ?v c) t"] by (simp_all add: stands_at_def same_slots_def)
      qed
      with t c show ?thesis by (auto simp: engine_runs_def runs_def rename_stage_def Let_def)
    next
      case False
      with t have "rename_stage io st t = refuse_tx ''candidate publication'' t"
        by (auto simp: rename_stage_def Let_def split: option.splits)
      with t live_safe [OF order, of t] show ?thesis by (simp add: runs_def refuse_tx_def)
    qed
  qed
  have "engine_runs E (stands_at j s)
      (bind_tx (look io (\<lambda>_. Inr ())) (\<lambda>_. bind_tx (rename_stage io st) (\<lambda>_ t. (Inr (), t\<lparr> tx_stage := None \<rparr>))))
      (\<lambda>_ t. live E t \<and> stands_at j s t)" for st
  proof (rule engine_bind)
    show "engine_runs E (stands_at j s) (look io (\<lambda>_. Inr ())) (\<lambda>_ t. live E t \<and> stands_at j s t)"
      by (rule engine_post [OF engine_look [OF order]]) simp_all
    show "engine_runs E (stands_at j s) (bind_tx (rename_stage io st) (\<lambda>_ t. (Inr (), t\<lparr> tx_stage := None \<rparr>)))
        (\<lambda>_ t. live E t \<and> stands_at j s t)"
      by (rule engine_last [OF rename]) (simp_all add: live_def)
  qed
  then show ?thesis
    using live_safe [OF order]
    by (auto simp: engine_runs_def runs_def publish_candidate_def refuse_tx_def split: option.split)
qed

section \<open>Removing the journal\<close>

lemma sweep_keeps:
  "sweep_stages io ns t = (left, t') \<Longrightarrow>
    (\<exists>ss. tx_disk t' = (tx_disk t)\<lparr> dk_stages := ss \<rparr>) \<and> tx_journal t' = tx_journal t \<and> tx_slots t' = tx_slots t"
proof (induction ns arbitrary: t)
  case Nil
  then show ?case by (auto intro: exI [of _ "dk_stages (tx_disk t)"])
next
  case (Cons n ns)
  have same: "\<exists>ss. tx_disk t = (tx_disk t)\<lparr> dk_stages := ss \<rparr>" by (rule exI [of _ "dk_stages (tx_disk t)"]) simp
  from Cons show ?case
    by (auto simp: drop_stage_def split: option.splits if_splits Answer.splits dest!: Cons.IH)
      (use same in \<open>auto intro: exI [of _ "dk_stages (tx_disk t)"]\<close>)
qed

lemma settled_stages: "settled E (d\<lparr> dk_stages := ss \<rparr>) = settled E d"
proof -
  have "same_slots (d\<lparr> dk_stages := ss \<rparr>) d" by (simp add: same_slots_def)
  moreover have "sound (d\<lparr> dk_stages := ss \<rparr>) a = sound d a" for a by (simp add: sound_iff version_of_def)
  ultimately show ?thesis
    using same_slots_reads(5) [of "d\<lparr> dk_stages := ss \<rparr>" d]
    by (simp add: settled_def version_names_def validate_writer_pointer_context_def)
qed

text \<open>A resolved attempt: no journal, a disk the writer's loader accepts, and the records its outcome names.\<close>

definition records_of :: "ActivationJournal \<Rightarrow> ActivationOutcome \<Rightarrow> Disk \<Rightarrow> bool" where
  "records_of j outcome d =
     (case outcome of
        Committed \<Rightarrow> ps_current d = aj_candidate j \<and> ps_last_known_good d = aj_candidate j
          \<and> ps_previous_known_good d = Some (aj_prior_last_known_good j) \<and> ps_version_floor d = ai_version (aj_candidate j)
      | RolledBack \<Rightarrow> ps_current d = aj_rollback_target j \<and> prior_slots_match j d
          \<and> ps_version_floor d = ai_version (aj_candidate j)
      | Abandoned \<Rightarrow> as_found j d)"

definition resolved :: "('k, 'v) Engine \<Rightarrow> ActivationJournal \<Rightarrow> ActivationOutcome \<Rightarrow> Disk \<Rightarrow> bool" where
  "resolved E j outcome d = (dk_journal d = None \<and> settled E d \<and> records_of j outcome d)"

lemma resolved_stages: "resolved E j outcome (d\<lparr> dk_stages := ss \<rparr>) = resolved E j outcome d"
  by (simp add: resolved_def records_of_def as_found_def settled_stages prior_slots_match_def cong: ActivationOutcome.case_cong)

lemma resolved_loads: "resolved E j outcome d \<Longrightarrow> loadable E d"
  by (simp add: resolved_def records_of_def as_found_def settled_loads)

lemma cleanup_keeps:
  assumes "cleanup io t = (left, t')"
  shows "(\<exists>ss. tx_disk t' = (tx_disk t)\<lparr> dk_stages := ss \<rparr>) \<and> tx_journal t' = tx_journal t \<and> tx_slots t' = tx_slots t"
proof -
  have "\<exists>ss. tx_disk t = (tx_disk t)\<lparr> dk_stages := ss \<rparr>" by (rule exI [of _ "dk_stages (tx_disk t)"]) simp
  then show ?thesis
    using assms by (auto simp: cleanup_def remove_generated_leftovers_def split: Answer.splits dest!: sweep_keeps)
qed

lemma remove_as_runs:
  assumes order: "precedence_order (en_semver E)"
    and ends: "\<And>t. live E t \<Longrightarrow> P t \<Longrightarrow> tx_journal t = j \<and> resolved E j outcome ((tx_disk t)\<lparr> dk_journal := None \<rparr>)"
  shows "engine_runs E P (remove_journal_as io outcome)
    (\<lambda>r t. tx_journal t = j \<and> resolved E j outcome (tx_disk t) \<and> ar_outcome r = outcome \<and> ar_current r = ps_current (tx_disk t))"
proof -
  let ?f = "\<lambda>d. d\<lparr> dk_journal := None \<rparr>"
  let ?mid = "\<lambda>t. tx_journal t = j \<and> resolved E j outcome (tx_disk t) \<and> same_slots (tx_slots t) (tx_disk t)"
  have renamed: "engine_runs E P (perform io (\<lambda>_. ''journal removal'') ?f) (\<lambda>_. ?mid)"
  proof (rule engine_perform [OF order])
    fix t assume t: "live E t" "P t"
    then show "loadable E (?f (tx_disk t))" "?mid (tick (change_disk ?f t))"
      using ends [OF t] resolved_loads by (auto simp: live_def same_slots_def)
  qed
  have removed: "runs (\<lambda>t. live E t \<and> P t) (\<lambda>t. if dk_journal (tx_disk t) = None then refuse_tx ''journal removal'' t
      else perform io (\<lambda>_. ''journal removal'') ?f t) (\<lambda>_. ?mid) (safe E)"
    using renamed by (auto simp: engine_runs_def runs_def live_def)
  show ?thesis
    unfolding engine_runs_def remove_journal_as_def
  proof (rule runs_bind [OF removed])
    fix u :: unit
    show "runs ?mid (\<lambda>t. case cleanup io (t\<lparr> tx_journaled := False \<rparr>) of (left, t') \<Rightarrow>
          (Inr \<lparr> ar_outcome = outcome, ar_current = ps_current (tx_slots t'), ar_cleanup = left \<rparr>, t'))
        (\<lambda>r t. tx_journal t = j \<and> resolved E j outcome (tx_disk t) \<and> ar_outcome r = outcome
          \<and> ar_current r = ps_current (tx_disk t)) (safe E)"
    proof (rule runsI)
      fix t :: Tx assume t: "?mid t"
      obtain left t' where c: "cleanup io (t\<lparr> tx_journaled := False \<rparr>) = (left, t')" by (cases "cleanup io (t\<lparr> tx_journaled := False \<rparr>)")
      then show "case (case cleanup io (t\<lparr> tx_journaled := False \<rparr>) of (left, t') \<Rightarrow>
          (Inr \<lparr> ar_outcome = outcome, ar_current = ps_current (tx_slots t'), ar_cleanup = left \<rparr>, t')) of
          (Inl e, t') \<Rightarrow> safe E e t'
        | (Inr r, t') \<Rightarrow> tx_journal t' = j \<and> resolved E j outcome (tx_disk t') \<and> ar_outcome r = outcome
            \<and> ar_current r = ps_current (tx_disk t')"
        using t cleanup_keeps [OF c] by (auto simp: resolved_stages same_slots_def)
    qed
  qed
qed

lemma abandon_settles:
  assumes "precedence_order (en_semver E)" "live E t" "stands_at j s t" "unpublished_candidate j s"
    "version_of (tx_disk t) (ai_version (aj_candidate j)) = None"
  shows "resolved E j Abandoned ((tx_disk t)\<lparr> dk_journal := None \<rparr>)"
proof -
  note at = stands_atD [OF assms(3)]
  have u: "underway E j (tx_disk t)" using assms(2) at(1) by (simp add: live_def)
  then have st: "stands (en_local E) j (tx_disk t)" by (simp add: underway_def)
  have pending: "aj_phase j = PublishPending" "ps_version_floor (tx_disk t) = aj_prior_floor j"
    using assms(4) at by (simp_all add: unpublished_candidate_def)
  have "ai_version (aj_candidate j) \<noteq> aj_prior_floor j"
    using valid_journal_separates [OF assms(1) stands_valid [OF st]] by (simp add: journal_separates_def Let_def)
  with pending have prior: "prior_slots_match j (tx_disk t)" "ps_current (tx_disk t) = aj_rollback_target j"
    using st by (simp_all add: stands_def)
  have "excluded j (tx_disk t) \<subseteq> {aj_candidate j}"
    using pending by (auto simp: excluded_def retirement_due_def)
  then have "settled E (tx_disk t)" using prior_settles [OF assms(1) u prior] assms(5) by blast
  then show ?thesis using prior pending by (simp add: resolved_def records_of_def as_found_def settled_without_journal prior_slots_match_def)
qed

lemma abandon_unverified_runs:
  assumes order: "precedence_order (en_semver E)" and j: "unpublished_candidate j s"
  shows "engine_runs E (\<lambda>t. stands_at j s t \<and> version_of (tx_disk t) (ai_version (aj_candidate j)) = None)
    (abandon_unverified io) Q"
  unfolding engine_runs_def abandon_unverified_def
proof (rule runs_bind)
  show "runs (\<lambda>t. live E t \<and> stands_at j s t \<and> version_of (tx_disk t) (ai_version (aj_candidate j)) = None)
      (remove_journal_as io Abandoned)
      (\<lambda>r t. tx_journal t = j \<and> resolved E j Abandoned (tx_disk t) \<and> ar_outcome r = Abandoned
        \<and> ar_current r = ps_current (tx_disk t)) (safe E)"
    using remove_as_runs [OF order, of "\<lambda>t. stands_at j s t \<and> version_of (tx_disk t) (ai_version (aj_candidate j)) = None"]
      abandon_settles [OF order _ _ j] stands_atD(1) [of j s] by (simp add: engine_runs_def)
qed (auto simp: runs_def safe_def resolved_loads resolved_def records_of_def as_found_def settled_loads)

lemma engine_runsD:
  "engine_runs E P m Q \<Longrightarrow> live E t \<Longrightarrow> P t \<Longrightarrow> case m t of (Inl e, t') \<Rightarrow> safe E e t' | (Inr a, t') \<Rightarrow> Q a t'"
  by (simp add: engine_runs_def runs_def)

section \<open>The verified candidate\<close>

lemma pin_pass_runs:
  assumes order: "precedence_order (en_semver E)" and j: "unpublished_candidate j s"
  shows "engine_runs E (stands_at j s) (pin_pass io referenced (aj_candidate j))
    (\<lambda>again t. live E t \<and> stands_at j s t \<and> (\<not> again \<longrightarrow> sound (tx_disk t) (aj_candidate j)))"
    (is "engine_runs E _ _ ?Q")
proof -
  let ?gone = "\<lambda>t. stands_at j s t \<and> version_of (tx_disk t) (ai_version (aj_candidate j)) = None"
  have member: "aj_candidate j \<in> journal_artifacts j" "aj_candidate j \<in> excluded j s"
    using j by (simp_all add: journal_artifacts_def excluded_def)
  have republish: "engine_runs E (stands_at j s) (bind_tx (publish_candidate io) (\<lambda>_. return_tx True)) ?Q"
    unfolding engine_runs_def
    by (rule runs_bind [OF publish_runs [OF order j, unfolded engine_runs_def]]) (simp add: runs_def return_tx_def)
  have next_copy: "runs (\<lambda>t. live E t \<and> ?gone t \<and> Inr (find_candidate_stage (tx_disk t) (aj_candidate j)) = Inr found)
      (\<lambda>t. let t = t\<lparr> tx_stage := found \<rparr> in
        if found \<noteq> None then bind_tx (publish_candidate io) (\<lambda>_. return_tx True) t else abandon_unverified io t) ?Q (safe E)" for found
  proof (rule runsI)
    fix t assume t: "live E t \<and> ?gone t \<and> Inr (find_candidate_stage (tx_disk t) (aj_candidate j)) = Inr found"
    then have "live E (t\<lparr> tx_stage := found \<rparr>)" "?gone (t\<lparr> tx_stage := found \<rparr>)" by (simp_all add: live_def)
    then show "case let t = t\<lparr> tx_stage := found \<rparr> in
        if found \<noteq> None then bind_tx (publish_candidate io) (\<lambda>_. return_tx True) t else abandon_unverified io t of
        (Inl e, t') \<Rightarrow> safe E e t' | (Inr a, t') \<Rightarrow> ?Q a t'"
      using engine_runsD [OF republish, of "t\<lparr> tx_stage := found \<rparr>"]
        engine_runsD [OF abandon_unverified_runs [OF order j, of io ?Q], of "t\<lparr> tx_stage := found \<rparr>"]
      by (cases found) (simp_all add: Let_def)
  qed
  have retry: "runs (\<lambda>t. live E t \<and> stands_at j s t) (bind_tx (retire_version io (aj_candidate j)) (\<lambda>_.
      bind_tx (look io (\<lambda>d. Inr (find_candidate_stage d (aj_candidate j)))) (\<lambda>found t.
        let t = t\<lparr> tx_stage := found \<rparr> in
        if found \<noteq> None then bind_tx (publish_candidate io) (\<lambda>_. return_tx True) t else abandon_unverified io t))) ?Q (safe E)"
  proof (rule runs_bind [OF retire_version_runs [OF order member, unfolded engine_runs_def]], rule runs_bind [OF _ next_copy])
    fix u :: unit
    show "runs (\<lambda>t. live E t \<and> ?gone t) (look io (\<lambda>d. Inr (find_candidate_stage d (aj_candidate j))))
        (\<lambda>found t. live E t \<and> ?gone t \<and> Inr (find_candidate_stage (tx_disk t) (aj_candidate j)) = Inr found) (safe E)"
      using engine_look [OF order, of ?gone io "\<lambda>d. Inr (find_candidate_stage d (aj_candidate j))"]
      by (simp add: engine_runs_def)
  qed
  have census: "runs (\<lambda>t. live E t \<and> stands_at j s t) (look io (\<lambda>d. validate_publication_census d referenced (aj_candidate j)))
      (\<lambda>_ t. live E t \<and> stands_at j s t) (safe E)"
    using engine_post [OF engine_look [OF order, of "stands_at j s" io "\<lambda>d. validate_publication_census d referenced (aj_candidate j)"]]
    by (simp add: engine_runs_def)
  show ?thesis
    unfolding engine_runs_def pin_pass_def
  proof (rule runs_bind [OF census], rule runsI)
    fix u :: unit and t assume t: "live E t \<and> stands_at j s t"
    show "case if verdict io (aj_candidate j) t = Inr () then (Inr False, (tick t)\<lparr> tx_pins := ai_version (aj_candidate j) # tx_pins t \<rparr>)
        else bind_tx (retire_version io (aj_candidate j)) (\<lambda>_.
          bind_tx (look io (\<lambda>d. Inr (find_candidate_stage d (aj_candidate j)))) (\<lambda>found t.
            let t = t\<lparr> tx_stage := found \<rparr> in
            if found \<noteq> None then bind_tx (publish_candidate io) (\<lambda>_. return_tx True) t else abandon_unverified io t)) (tick t) of
        (Inl e, t') \<Rightarrow> safe E e t' | (Inr a, t') \<Rightarrow> ?Q a t'"
    proof (cases "verdict io (aj_candidate j) t = Inr ()")
      case True
      then have "sound (tx_disk t) (aj_candidate j)" by (auto simp: verdict_def sound_def split: Answer.splits)
      with t True show ?thesis using stands_atD(1) [of j s t] by (simp add: live_def)
    next
      case False
      with t retry show ?thesis unfolding runs_def by (simp only: if_False live_tick stands_at_simps)
    qed
  qed
qed

lemma pin_candidate_runs:
  assumes order: "precedence_order (en_semver E)" and j: "unpublished_candidate j s"
  shows "engine_runs E (stands_at j s) (pin_candidate io referenced (aj_candidate j))
    (\<lambda>_ t. live E t \<and> stands_at j s t \<and> sound (tx_disk t) (aj_candidate j))"
proof -
  have "live E t \<Longrightarrow> stands_at j s t \<Longrightarrow>
    (case pin_candidate io referenced (aj_candidate j) t of (Inl e, t') \<Rightarrow> safe E e t'
      | (Inr _, t') \<Rightarrow> live E t' \<and> stands_at j s t' \<and> sound (tx_disk t') (aj_candidate j))" for t
  proof (induction "length (dk_stages (tx_disk t))" arbitrary: t rule: less_induct)
    case less
    have pass: "case pin_pass io referenced (aj_candidate j) t of (Inl e, t') \<Rightarrow> safe E e t'
        | (Inr again, t') \<Rightarrow> live E t' \<and> stands_at j s t' \<and> (\<not> again \<longrightarrow> sound (tx_disk t') (aj_candidate j))"
      using pin_pass_runs [OF order j, of io referenced] less.prems by (simp add: engine_runs_def runs_def)
    show ?case
    proof (cases "pin_pass io referenced (aj_candidate j) t")
      case (Pair r t')
      then show ?thesis
        using pass less.hyps [of t'] pin_pass_shorter [of io referenced "aj_candidate j" t t']
        by (cases r) (auto simp: pin_candidate.simps [of io referenced "aj_candidate j" t])
    qed
  qed
  then show ?thesis by (simp add: engine_runs_def runs_def)
qed

lemma ensure_pinned_runs:
  assumes "precedence_order (en_semver E)" "unpublished_candidate j s"
  shows "engine_runs E (stands_at j s) (ensure_candidate_pinned io)
    (\<lambda>_ t. live E t \<and> stands_at j s t \<and> sound (tx_disk t) (aj_candidate j))"
  unfolding engine_runs_def
proof (rule runsI)
  fix t assume t: "live E t \<and> stands_at j s t"
  then have "tx_journal t = j" by (simp add: stands_at_def)
  moreover have "ai_version (aj_candidate j) \<in> set (tx_pins t) \<Longrightarrow> sound (tx_disk t) (aj_candidate j)"
    using t calculation by (simp add: live_def)
  ultimately show "case ensure_candidate_pinned io t of (Inl e, t') \<Rightarrow> safe E e t'
      | (Inr _, t') \<Rightarrow> live E t' \<and> stands_at j s t' \<and> sound (tx_disk t') (aj_candidate j)"
    using t engine_runsD [OF pin_candidate_runs [OF assms, of io "slot_artifacts (tx_slots t)"], of t]
    by (simp add: ensure_candidate_pinned_def Let_def)
qed

section \<open>One step and the step loop\<close>

text \<open>What a step or a run of steps leaves for the owner.\<close>

definition progressed :: "('k, 'v) Engine \<Rightarrow> ActivationJournal \<Rightarrow> Progress \<Rightarrow> Tx \<Rightarrow> bool" where
  "progressed E j p t =
     (attempt_of t = j
      \<and> (case p of
           ProgressAwaitingHealth \<Rightarrow> live E t \<and> aj_phase (tx_journal t) = AwaitingHealth
         | ProgressResolved r \<Rightarrow>
             resolved E (tx_journal t) (ar_outcome r) (tx_disk t) \<and> ar_current r = ps_current (tx_disk t)))"

definition stepped :: "('k, 'v) Engine \<Rightarrow> ActivationJournal \<Rightarrow> Progress option \<Rightarrow> Tx \<Rightarrow> bool" where
  "stepped E j p t = (case p of None \<Rightarrow> live E t \<and> attempt_of t = j | Some p \<Rightarrow> progressed E j p t)"

lemma continue_runs:
  assumes "engine_runs E P m (\<lambda>_ t. live E t \<and> attempt_of t = j)"
  shows "engine_runs E P (continue_tx m) (stepped E j)"
  using assms unfolding engine_runs_def continue_tx_def
  by (rule runs_bind) (simp add: runs_def return_tx_def stepped_def)

lemma slot_step_runs:
  assumes "precedence_order (en_semver E)"
    and "\<And>t. live E t \<Longrightarrow> P t \<Longrightarrow> underway E (tx_journal t) (f (tx_disk t))"
    and "\<And>d. dk_journal (f d) = dk_journal d" "\<And>d. dk_versions (f d) = dk_versions d"
    and "\<And>s d. same_slots s d \<Longrightarrow> same_slots (g s) (f d)"
  shows "engine_runs E (\<lambda>t. P t \<and> attempt_of t = j) (bind_tx (write_slot io encoded f) (\<lambda>_. slots_tx g))
    (\<lambda>_ t. live E t \<and> attempt_of t = j)"
  unfolding engine_runs_def
proof (rule runs_state)
  fix t assume t: "live E t \<and> P t \<and> attempt_of t = j"
  have "engine_runs E (\<lambda>t'. t' = t) (bind_tx (write_slot io encoded f) (\<lambda>_. slots_tx g)) (\<lambda>_ t. live E t \<and> attempt_of t = j)"
  proof -
    have mid: "engine_runs E (\<lambda>t'. t' = t \<and> encoded = Inr bs) (perform io (\<lambda>s. s) f)
        (\<lambda>_ t'. live E (t'\<lparr> tx_slots := g (tx_slots t') \<rparr>) \<and> attempt_of t' = j)" for bs
    proof (rule engine_perform [OF assms(1)])
      fix t' assume "live E t'" "t' = t \<and> encoded = Inr bs"
      moreover have "sound (f d) a = sound d a" for d a by (simp add: sound_iff version_of_def assms(4))
      ultimately show "loadable E (f (tx_disk t'))"
          "live E ((tick (change_disk f t'))\<lparr> tx_slots := g (tx_slots (tick (change_disk f t'))) \<rparr>)
            \<and> attempt_of (tick (change_disk f t')) = j"
        using t assms(2) [of t] underway_loads [OF assms(1), of "f (tx_disk t)"] assms(3,5)
        by (auto simp: live_def attempt_of_def)
    qed
    show ?thesis
      unfolding engine_runs_def
    proof (rule runs_bind)
      show "runs (\<lambda>t'. live E t' \<and> t' = t) (write_slot io encoded f)
          (\<lambda>_ t'. live E (t'\<lparr> tx_slots := g (tx_slots t') \<rparr>) \<and> attempt_of t' = j) (safe E)"
        unfolding write_slot_def
        using engine_bind [OF engine_refaulted [OF assms(1), of "\<lambda>t'. t' = t" encoded] mid] by (simp add: engine_runs_def)
    qed (simp add: runs_def slots_tx_def attempt_of_def)
  qed
  with t show "runs (\<lambda>t'. t' = t) (bind_tx (write_slot io encoded f) (\<lambda>_. slots_tx g)) (\<lambda>_ t. live E t \<and> attempt_of t = j) (safe E)"
    by (simp add: engine_runs_def runs_def)
qed

lemma engine_cong:
  "engine_runs E P m' Q \<Longrightarrow> (\<And>t. live E t \<Longrightarrow> P t \<Longrightarrow> m t = m' t) \<Longrightarrow> engine_runs E P m Q"
  by (simp add: engine_runs_def runs_def)

text \<open>What an iteration has observed when it takes a step.\<close>

definition observed ::
  "ActivationJournal \<Rightarrow> ProtectedSlots \<Rightarrow> CandidateLocation \<Rightarrow> bool \<Rightarrow> Tx \<Rightarrow> bool" where
  "observed j s loc present t =
     (stands_at j s t
      \<and> (loc = Published \<longleftrightarrow> version_of (tx_disk t) (ai_version (aj_candidate j)) \<noteq> None)
      \<and> (\<forall>a. retirement_due j s = Some a \<longrightarrow> (present \<longleftrightarrow> version_of (tx_disk t) (ai_version a) \<noteq> None)))"

lemma observed_at: "observed j s loc present t \<Longrightarrow> stands_at j s t"
  by (simp add: observed_def)

lemma at_attempt: "stands_at j s t \<Longrightarrow> attempt_of t = j\<lparr> aj_phase := PublishPending \<rparr>"
  by (simp add: stands_at_def attempt_of_def)

lemma live_underway:
  assumes "live E t" "stands_at j s t"
  shows "underway E j (tx_disk t)"
  using assms by (auto simp: live_def stands_at_def)

lemma resolve_step_runs:
  assumes order: "precedence_order (en_semver E)"
    and ends: "\<And>t. live E t \<Longrightarrow> P t \<Longrightarrow> tx_journal t = j \<and> resolved E j outcome ((tx_disk t)\<lparr> dk_journal := None \<rparr>)"
  shows "engine_runs E P (bind_tx (remove_journal_as io outcome) (\<lambda>r. return_tx (Some (ProgressResolved r))))
    (stepped E (j\<lparr> aj_phase := PublishPending \<rparr>))"
  unfolding engine_runs_def
  by (rule runs_bind [OF remove_as_runs [OF assms, unfolded engine_runs_def]])
    (auto simp: runs_def return_tx_def stepped_def progressed_def attempt_of_def)

lemma removable:
  assumes order: "precedence_order (en_semver E)" and t: "live E t" "observed j s loc present t"
    and ready: "step_ready j s loc present RemoveJournal"
  shows "(\<exists>r. aj_phase j = HealthAccepted r) \<and> resolved E j Committed ((tx_disk t)\<lparr> dk_journal := None \<rparr>)
    \<or> (\<exists>f. aj_phase j = RollbackPending f) \<and> resolved E j RolledBack ((tx_disk t)\<lparr> dk_journal := None \<rparr>)"
proof -
  note at = stands_atD [OF observed_at [OF t(2)]]
  have u: "underway E j (tx_disk t)" using live_underway [OF t(1) observed_at [OF t(2)]] .
  then have st: "stands (en_local E) j (tx_disk t)" by (simp add: underway_def)
  have gone: "version_of (tx_disk t) (ai_version a) = None" if "retirement_due j (tx_disk t) = Some a" for a
    using that t(2) ready at(3) by (auto simp: observed_def step_ready_def)
  consider (commit) r where "aj_phase j = HealthAccepted r" "ps_last_known_good (tx_disk t) = aj_candidate j"
    | (roll) f where "aj_phase j = RollbackPending f" "ps_current (tx_disk t) = aj_rollback_target j"
    using ready at(6,7) by (auto simp: step_ready_def)
  then show ?thesis
  proof cases
    case commit
    have "settled E (tx_disk t)" using commit_settles [OF order u commit gone] .
    moreover have "aj_prior_last_known_good j \<noteq> aj_candidate j"
      using valid_journal_separates [OF order stands_valid [OF st]] by (auto simp: journal_separates_def Let_def)
    ultimately show ?thesis
      using st commit by (auto simp: resolved_def records_of_def as_found_def settled_without_journal stands_def commit_slots_match_def)
  next
    case roll
    have due: "retirement_due j (tx_disk t) = Some (aj_candidate j)" using roll by (simp add: retirement_due_def)
    then have "excluded j (tx_disk t) \<subseteq> {aj_candidate j}" using roll by (auto simp: excluded_def)
    moreover have prior: "prior_slots_match j (tx_disk t)" "ps_version_floor (tx_disk t) = ai_version (aj_candidate j)"
      using st roll by (simp_all add: stands_def)
    ultimately have "settled E (tx_disk t)" using prior_settles [OF order u prior(1) roll(2)] gone [OF due] by blast
    then show ?thesis using prior roll by (simp add: resolved_def records_of_def as_found_def settled_without_journal prior_slots_match_def)
  qed
qed

lemma remove_step_runs:
  assumes order: "precedence_order (en_semver E)" and ready: "step_ready j s loc present RemoveJournal"
  shows "engine_runs E (observed j s loc present) (bind_tx (remove_journal io) (\<lambda>r. return_tx (Some (ProgressResolved r))))
    (stepped E (j\<lparr> aj_phase := PublishPending \<rparr>))"
proof (cases "\<exists>r. aj_phase j = HealthAccepted r")
  case True
  show ?thesis
  proof (rule engine_cong [OF resolve_step_runs [OF order, of _ j Committed]])
    fix t assume t: "live E t" "observed j s loc present t"
    then show "tx_journal t = j \<and> resolved E j Committed ((tx_disk t)\<lparr> dk_journal := None \<rparr>)"
      using removable [OF order t ready] True stands_atD(1) [OF observed_at] by auto
    show "bind_tx (remove_journal io) (\<lambda>r. return_tx (Some (ProgressResolved r))) t
        = bind_tx (remove_journal_as io Committed) (\<lambda>r. return_tx (Some (ProgressResolved r))) t"
      using True stands_atD(1) [OF observed_at [OF t(2)]] by (auto simp: bind_tx_def remove_journal_def)
  qed
next
  case False
  then obtain f where f: "aj_phase j = RollbackPending f" using ready by (auto simp: step_ready_def)
  show ?thesis
  proof (rule engine_cong [OF resolve_step_runs [OF order, of _ j RolledBack]])
    fix t assume t: "live E t" "observed j s loc present t"
    then show "tx_journal t = j \<and> resolved E j RolledBack ((tx_disk t)\<lparr> dk_journal := None \<rparr>)"
      using removable [OF order t ready] False stands_atD(1) [OF observed_at] by auto
    show "bind_tx (remove_journal io) (\<lambda>r. return_tx (Some (ProgressResolved r))) t
        = bind_tx (remove_journal_as io RolledBack) (\<lambda>r. return_tx (Some (ProgressResolved r))) t"
      using f stands_atD(1) [OF observed_at [OF t(2)]] by (auto simp: bind_tx_def remove_journal_def)
  qed
qed

lemma observed_attempt: "observed j s loc present t \<Longrightarrow> attempt_of t = j\<lparr> aj_phase := PublishPending \<rparr>"
  by (rule at_attempt [OF observed_at])

lemma pointer_step_runs:
  assumes order: "precedence_order (en_semver E)"
    and step: "\<And>d. underway E j d \<Longrightarrow> same_slots s d \<Longrightarrow> underway E j (f d)"
    and frame: "\<And>d. dk_journal (f d) = dk_journal d" "\<And>d. dk_versions (f d) = dk_versions d"
      "\<And>s d. same_slots s d \<Longrightarrow> same_slots (g s) (f d)"
    and writes: "\<And>t. live E t \<Longrightarrow> m t = write_slot io encoded f t"
  shows "engine_runs E (observed j s loc present) (continue_tx (bind_tx m (\<lambda>_. slots_tx g)))
    (stepped E (j\<lparr> aj_phase := PublishPending \<rparr>))"
proof (rule continue_runs)
  have "underway E (tx_journal t) (f (tx_disk t))" if "live E t" "observed j s loc present t" for t
    using step [OF live_underway [OF that(1) observed_at [OF that(2)]]] observed_at [OF that(2)] by (simp add: stands_at_def)
  note runs = slot_step_runs [OF order this frame, of "observed j s loc present"]
  have "engine_runs E (observed j s loc present) (bind_tx (write_slot io encoded f) (\<lambda>_. slots_tx g))
      (\<lambda>_ t. live E t \<and> attempt_of t = j\<lparr> aj_phase := PublishPending \<rparr>)"
    by (rule engine_pre [OF runs]) (simp_all add: observed_attempt)
  then show "engine_runs E (observed j s loc present) (bind_tx m (\<lambda>_. slots_tx g))
      (\<lambda>_ t. live E t \<and> attempt_of t = j\<lparr> aj_phase := PublishPending \<rparr>)"
    by (rule engine_cong) (simp add: bind_tx_def writes)
qed

lemma pointer_writes:
  "write_pointer L io PointCurrent a t = write_slot io (encode_pointer (lc_semver L) (lc_pointer L) PointCurrent a) (\<lambda>d. d\<lparr> ps_current := a \<rparr>) t"
  "write_pointer L io PointLastKnownGood a t
    = write_slot io (encode_pointer (lc_semver L) (lc_pointer L) PointLastKnownGood a) (\<lambda>d. d\<lparr> ps_last_known_good := a \<rparr>) t"
  "live E t \<Longrightarrow> write_pointer L io PointPreviousKnownGood a t
    = write_slot io (encode_pointer (lc_semver L) (lc_pointer L) PointPreviousKnownGood a) (\<lambda>d. d\<lparr> ps_previous_known_good := Some a \<rparr>) t"
  by (auto simp: write_pointer_def Let_def live_def same_slots_def)

lemma floor_step_runs:
  assumes order: "precedence_order (en_semver E)" and j: "unpublished_candidate j s"
  shows "engine_runs E (stands_at j s) (bind_tx (ensure_candidate_pinned io) (\<lambda>_.
      bind_tx (write_slot io encoded (\<lambda>d. d\<lparr> ps_version_floor := ai_version (aj_candidate j) \<rparr>)) (\<lambda>_.
      slots_tx (\<lambda>s. s\<lparr> ps_version_floor := ai_version (aj_candidate j) \<rparr>))))
    (\<lambda>_ t. live E t \<and> attempt_of t = j\<lparr> aj_phase := PublishPending \<rparr>)"
proof (rule engine_bind [OF ensure_pinned_runs [OF order j]], rule engine_pre [OF slot_step_runs [OF order]])
  let ?P = "\<lambda>t. stands_at j s t \<and> sound (tx_disk t) (aj_candidate j)"
  show "underway E (tx_journal t) ((tx_disk t)\<lparr> ps_version_floor := ai_version (aj_candidate j) \<rparr>)"
    if "live E t" "?P t" for t
    using that floor_underway [OF order live_underway [OF that(1)]] j stands_atD(1,2) [of j s t] by auto
  show "?P t \<and> attempt_of t = j\<lparr> aj_phase := PublishPending \<rparr>" if "?P t" for t
    using that at_attempt by blast
qed (simp_all add: same_slots_update)

lemma phase_step_runs:
  assumes order: "precedence_order (en_semver E)"
    and step: "\<And>t. live E t \<Longrightarrow> P t \<Longrightarrow> validate_activation_journal (en_semver E) (j\<lparr> aj_phase := p \<rparr>) = Inr ()
      \<Longrightarrow> underway E (j\<lparr> aj_phase := p \<rparr>) (tx_disk t)"
    and at: "\<And>t. live E t \<Longrightarrow> P t \<Longrightarrow> tx_journal t = j"
  shows "engine_runs E P (write_phase (en_local E) io p) (\<lambda>_ t. live E t \<and> tx_journal t = j\<lparr> aj_phase := p \<rparr>)"
proof (rule engine_cong)
  show "engine_runs E P (write_journal (en_local E) io (j\<lparr> aj_phase := p \<rparr>)) (\<lambda>_ t. live E t \<and> tx_journal t = j\<lparr> aj_phase := p \<rparr>)"
    using engine_pre [OF write_journal_runs [OF order, of "\<lambda>t. live E t \<and> P t" "j\<lparr> aj_phase := p \<rparr>"
          "\<lambda>t. tx_journal t = j\<lparr> aj_phase := p \<rparr>" io]] step at by auto
qed (simp add: write_phase_def at)

lemma take_step_runs:
  assumes order: "precedence_order (en_semver E)" and ready: "step_ready j s loc present next_step"
  shows "engine_runs E (observed j s loc present) (take_step (en_local E) io (retirement_due j s) next_step)
    (stepped E (j\<lparr> aj_phase := PublishPending \<rparr>))" (is "engine_runs E ?P _ ?Q")
proof (cases next_step)
  case PublishCandidate
  then have "engine_runs E ?P (continue_tx (publish_candidate io)) ?Q"
    using ready by (intro continue_runs engine_post [OF engine_pre [OF publish_runs [OF order, of j s]]])
      (auto simp: step_ready_def observed_at at_attempt)
  then show ?thesis by (rule engine_cong) (simp add: take_step_def PublishCandidate)
next
  case AbandonAttempt
  have "engine_runs E ?P (bind_tx (remove_journal_as io Abandoned) (\<lambda>r. return_tx (Some (ProgressResolved r)))) ?Q"
  proof (rule resolve_step_runs [OF order])
    fix t assume t: "live E t" "?P t"
    then show "tx_journal t = j \<and> resolved E j Abandoned ((tx_disk t)\<lparr> dk_journal := None \<rparr>)"
      using abandon_settles [OF order t(1) observed_at [OF t(2)]] ready AbandonAttempt stands_atD(1) [OF observed_at [OF t(2)]]
      by (auto simp: step_ready_def observed_def)
  qed
  then show ?thesis by (rule engine_cong) (simp add: take_step_def AbandonAttempt)
next
  case AdvanceFloor
  then have "unpublished_candidate j s" using ready by (simp add: step_ready_def)
  from continue_runs [OF engine_pre [OF floor_step_runs [OF order this, of io
        "encode_floor (en_semver E) (lc_floor (en_local E)) (ai_version (aj_candidate j))"], of ?P]]
  show ?thesis
    by (rule engine_cong) (auto simp: observed_at take_step_def AdvanceFloor Let_def stands_atD(1) [OF observed_at])
next
  case SelectCandidate
  then have at: "aj_phase j = PublishPending" "ps_version_floor s = ai_version (aj_candidate j)" using ready by (simp_all add: step_ready_def)
  have "engine_runs E ?P (continue_tx (bind_tx (write_pointer (en_local E) io PointCurrent (aj_candidate j))
      (\<lambda>_. slots_tx (\<lambda>s. s\<lparr> ps_current := aj_candidate j \<rparr>)))) ?Q"
    by (rule pointer_step_runs [OF order _ _ _ same_slots_update(2) pointer_writes(1)])
      (use at select_underway [OF order] in \<open>auto simp: same_slots_def\<close>)
  then show ?thesis by (rule engine_cong) (simp add: take_step_def SelectCandidate Let_def stands_atD(1) [OF observed_at])
next
  case EnterAwaitingHealth
  then have at: "aj_phase j = PublishPending" "ps_version_floor s = ai_version (aj_candidate j)" "ps_current s = aj_candidate j"
    using ready by (simp_all add: step_ready_def)
  have "engine_runs E ?P (write_phase (en_local E) io AwaitingHealth) (\<lambda>_ t. live E t \<and> tx_journal t = j\<lparr> aj_phase := AwaitingHealth \<rparr>)"
  proof (rule phase_step_runs [OF order])
    fix t assume t: "live E t" "?P t"
    note here = stands_atD [OF observed_at [OF t(2)]]
    have u: "underway E j (tx_disk t)" using live_underway [OF t(1) observed_at [OF t(2)]] .
    then have "prior_slots_match j (tx_disk t)" using at by (simp add: underway_def stands_def)
    then show "underway E (j\<lparr> aj_phase := AwaitingHealth \<rparr>) (tx_disk t)"
      if "validate_activation_journal (en_semver E) (j\<lparr> aj_phase := AwaitingHealth \<rparr>) = Inr ()"
      using phase_underway [OF order u that] at here by simp
  qed (use stands_atD(1) [OF observed_at] in blast)
  then have "engine_runs E ?P (continue_tx (write_phase (en_local E) io AwaitingHealth)) ?Q"
    by (rule continue_runs [OF engine_post]) (simp add: attempt_of_def)
  then show ?thesis by (rule engine_cong) (simp add: take_step_def EnterAwaitingHealth)
next
  case AwaitHealth
  with ready have phase: "aj_phase j = AwaitingHealth" by (simp add: step_ready_def)
  have "?Q (Some ProgressAwaitingHealth) t" if "live E t" "?P t" for t
    using that phase stands_atD(1) [OF observed_at [OF that(2)]] observed_attempt [OF that(2)]
    by (simp add: stepped_def progressed_def)
  then show ?thesis by (simp add: engine_runs_def runs_def take_step_def AwaitHealth return_tx_def)
next
  case PreservePriorKnownGood
  then obtain r where at: "aj_phase j = HealthAccepted r" "ps_last_known_good s \<noteq> aj_candidate j" using ready by (auto simp: step_ready_def)
  have "engine_runs E ?P (continue_tx (bind_tx (write_pointer (en_local E) io PointPreviousKnownGood (aj_prior_last_known_good j))
      (\<lambda>_. slots_tx (\<lambda>s. s\<lparr> ps_previous_known_good := Some (aj_prior_last_known_good j) \<rparr>)))) ?Q"
    by (rule pointer_step_runs [OF order _ _ _ same_slots_update(4) pointer_writes(3)])
      (use at preserve_underway [of E j] in \<open>auto simp: same_slots_def\<close>)
  then show ?thesis by (rule engine_cong) (simp add: take_step_def PreservePriorKnownGood Let_def stands_atD(1) [OF observed_at])
next
  case CommitCandidate
  then obtain r where at: "aj_phase j = HealthAccepted r" "ps_last_known_good s \<noteq> aj_candidate j"
    "ps_previous_known_good s = Some (aj_prior_last_known_good j)" using ready by (auto simp: step_ready_def)
  have "engine_runs E ?P (continue_tx (bind_tx (write_pointer (en_local E) io PointLastKnownGood (aj_candidate j))
      (\<lambda>_. slots_tx (\<lambda>s. s\<lparr> ps_last_known_good := aj_candidate j \<rparr>)))) ?Q"
    by (rule pointer_step_runs [OF order _ _ _ same_slots_update(3) pointer_writes(2)])
      (use at commit_underway [of E j] in \<open>auto simp: same_slots_def\<close>)
  then show ?thesis by (rule engine_cong) (simp add: take_step_def CommitCandidate Let_def stands_atD(1) [OF observed_at])
next
  case RestoreRollbackTarget
  then obtain f where at: "aj_phase j = RollbackPending f" "ps_current s = aj_candidate j" using ready by (auto simp: step_ready_def)
  have "engine_runs E ?P (continue_tx (bind_tx (write_pointer (en_local E) io PointCurrent (aj_rollback_target j))
      (\<lambda>_. slots_tx (\<lambda>s. s\<lparr> ps_current := aj_rollback_target j \<rparr>)))) ?Q"
    by (rule pointer_step_runs [OF order _ _ _ same_slots_update(2) pointer_writes(1)])
      (use at restore_underway [OF order] in \<open>auto simp: same_slots_def\<close>)
  then show ?thesis by (rule engine_cong) (simp add: take_step_def RestoreRollbackTarget Let_def stands_atD(1) [OF observed_at])
next
  case RetireVersion
  then obtain a where a: "retirement_due j s = Some a" using ready by (auto simp: step_ready_def)
  then have member: "a \<in> journal_artifacts j" "a \<in> excluded j s" using retirement_artifact [of j s a] by (auto simp: excluded_def)
  have "engine_runs E ?P (continue_tx (retire_version io a)) ?Q"
    by (intro continue_runs engine_post [OF engine_pre [OF retire_version_runs [OF order member]]]) (auto simp: observed_at at_attempt)
  then show ?thesis by (rule engine_cong) (simp add: take_step_def RetireVersion a)
next
  case RemoveJournal
  with ready have "engine_runs E ?P (bind_tx (remove_journal io) (\<lambda>r. return_tx (Some (ProgressResolved r)))) ?Q"
    by (intro remove_step_runs [OF order]) simp
  then show ?thesis by (rule engine_cong) (simp add: take_step_def RemoveJournal)
qed

lemma bind_tx_cong: "(\<And>a t'. m t = (Inr a, t') \<Longrightarrow> k a t' = k' a t') \<Longrightarrow> m = m' \<Longrightarrow> bind_tx m k t = bind_tx m' k' t"
  by (auto simp: bind_tx_def split: prod.splits sum.splits)

lemma look_frame: "look io f t = (r, t') \<Longrightarrow> tx_journal t' = tx_journal t \<and> tx_slots t' = tx_slots t"
  by (cases "io (tx_clock t)"; cases "f (tx_disk t)") (auto simp: look_def refaulted_def)

lemma location_frame: "candidate_location io t = (r, t') \<Longrightarrow> tx_journal t' = tx_journal t \<and> tx_slots t' = tx_slots t"
  by (auto simp: candidate_location_def version_present_def bind_tx_def split: prod.splits sum.splits dest!: look_frame)

lemma located_runs:
  assumes "precedence_order (en_semver E)"
  shows "engine_runs E (\<lambda>t. tx_journal t = j \<and> tx_slots t = s
      \<and> (\<forall>a. retirement_due j s = Some a \<longrightarrow> (present \<longleftrightarrow> version_of (tx_disk t) (ai_version a) \<noteq> None)))
    (candidate_location io) (\<lambda>loc t. live E t \<and> tx_slots t = s \<and> observed j s loc present t)" (is "engine_runs E ?P _ _")
proof (rule engine_cong)
  let ?look = "look io (\<lambda>d. Inr (version_of d (ai_version (aj_candidate j)) \<noteq> None))"
  show "engine_runs E ?P (bind_tx ?look (\<lambda>there t.
      (Inr (if there then Published else if tx_stage t \<noteq> None then Staged else Absent), t)))
      (\<lambda>loc t. live E t \<and> tx_slots t = s \<and> observed j s loc present t)"
  proof (rule engine_last [OF engine_look [OF assms, of ?P]])
    fix there t assume "live E t"
      "?P t \<and> (Inr (version_of (tx_disk t) (ai_version (aj_candidate j)) \<noteq> None) :: UpdateError + bool) = Inr there"
    then show "live E t \<and> tx_slots t = s
        \<and> observed j s (if there then Published else if tx_stage t \<noteq> None then Staged else Absent) present t"
      using live_stands_at [of E t] by (auto simp: observed_def)
  qed simp
qed (simp add: candidate_location_def version_present_def)

lemma advance_once_runs:
  assumes "precedence_order (en_semver E)"
  shows "engine_runs E (\<lambda>t. attempt_of t = a) (advance_once (en_local E) io) (stepped E a)"
proof -
  have "engine_runs E (\<lambda>t. tx_journal t = j \<and> tx_slots t = s) (advance_once (en_local E) io) (stepped E (j\<lparr> aj_phase := PublishPending \<rparr>))"
    for j s
  proof (rule engine_cong)
    let ?P = "\<lambda>t. tx_journal t = j \<and> tx_slots t = s"
    let ?R = "\<lambda>present t. \<forall>a. retirement_due j s = Some a \<longrightarrow> (present \<longleftrightarrow> version_of (tx_disk t) (ai_version a) \<noteq> None)"
    let ?there = "case retirement_due j s of Some a \<Rightarrow> version_present io (ai_version a) | None \<Rightarrow> return_tx False"
    let ?next = "\<lambda>present loc. case next_activation_step (en_local E) j s loc present of
        Inl _ \<Rightarrow> refuse_tx ''state''
      | Inr next_step \<Rightarrow> take_step (en_local E) io (retirement_due j s) next_step"
    have there: "engine_runs E ?P ?there (\<lambda>present t. live E t \<and> ?P t \<and> ?R present t)"
    proof (cases "retirement_due j s")
      case None
      then show ?thesis by (simp add: engine_runs_def runs_def return_tx_def)
    next
      case (Some a)
      have "engine_runs E ?P (version_present io (ai_version a)) (\<lambda>present t. live E t \<and> ?P t \<and> ?R present t)"
        unfolding version_present_def by (rule engine_post [OF engine_look [OF assms]]) (auto simp: Some)
      then show ?thesis by (simp add: Some)
    qed
    have steps: "engine_runs E (\<lambda>t. tx_slots t = s \<and> observed j s loc present t) (?next present loc) (stepped E (j\<lparr> aj_phase := PublishPending \<rparr>))"
      for present loc
    proof (cases "next_activation_step (en_local E) j s loc present")
      case (Inr next_step)
      then have "step_ready j s loc present next_step" using next_step_ready by blast
      then have "engine_runs E (\<lambda>t. tx_slots t = s \<and> observed j s loc present t)
          (take_step (en_local E) io (retirement_due j s) next_step) (stepped E (j\<lparr> aj_phase := PublishPending \<rparr>))"
        by (rule engine_pre [OF take_step_runs [OF assms]]) simp
      then show ?thesis by (simp add: Inr)
    qed (simp add: engine_refuse [OF assms])
    have "engine_runs E (\<lambda>t. ?P t \<and> ?R present t) (bind_tx (candidate_location io) (?next present))
        (stepped E (j\<lparr> aj_phase := PublishPending \<rparr>))" for present
      by (rule engine_bind [OF engine_pre [OF located_runs [OF assms, of j s present]] steps]) blast
    then show "engine_runs E ?P (bind_tx ?there (\<lambda>present. bind_tx (candidate_location io) (?next present)))
        (stepped E (j\<lparr> aj_phase := PublishPending \<rparr>))"
      by (rule engine_bind [OF there])
    fix t assume t: "live E t" "?P t"
    show "advance_once (en_local E) io t = bind_tx ?there (\<lambda>present. bind_tx (candidate_location io) (?next present)) t"
      unfolding advance_once_def Let_def using t
      by (auto simp: return_tx_def version_present_def split: option.splits sum.splits dest!: look_frame location_frame
          intro!: bind_tx_cong)
  qed
  note at = engine_runsD [OF this]
  show ?thesis
    unfolding engine_runs_def
  proof (rule runsI)
    fix t assume t: "live E t \<and> attempt_of t = a"
    then have a: "a = (tx_journal t)\<lparr> aj_phase := PublishPending \<rparr>" by (auto simp: attempt_of_def)
    show "case advance_once (en_local E) io t of (Inl e, t') \<Rightarrow> safe E e t' | (Inr p, t') \<Rightarrow> stepped E a p t'"
      unfolding a using t at [of t "tx_journal t" "tx_slots t"] by simp
  qed
qed

lemma advance_runs:
  assumes "precedence_order (en_semver E)"
  shows "engine_runs E (\<lambda>t. attempt_of t = a) (advance (en_local E) io n) (progressed E a)"
proof (induction n)
  case 0
  show ?case by (rule engine_cong [OF engine_refuse [OF assms]]) simp
next
  case (Suc n)
  have "engine_runs E (\<lambda>t. attempt_of t = a) (bind_tx (advance_once (en_local E) io)
      (\<lambda>p. case p of None \<Rightarrow> advance (en_local E) io n | Some p \<Rightarrow> return_tx p)) (progressed E a)"
    unfolding engine_runs_def
  proof (rule runs_bind [OF advance_once_runs [OF assms, unfolded engine_runs_def]])
    fix p
    show "runs (stepped E a p) (case p of None \<Rightarrow> advance (en_local E) io n | Some p \<Rightarrow> return_tx p) (progressed E a) (safe E)"
      using Suc by (cases p) (simp_all add: engine_runs_def runs_def stepped_def return_tx_def)
  qed
  then show ?case by (rule engine_cong) (simp add: bind_tx_def return_tx_def split: prod.splits sum.splits option.splits)
qed

section \<open>Journals of an unlaunched attempt\<close>

definition keeps :: "'a tx \<Rightarrow> bool" where
  "keeps m = (\<forall>t. tx_journal (snd (m t)) = tx_journal t)"

lemma keeps_bind: "keeps m \<Longrightarrow> (\<And>a. keeps (k a)) \<Longrightarrow> keeps (bind_tx m k)"
  unfolding keeps_def
proof
  fix t assume m: "\<forall>t. tx_journal (snd (m t)) = tx_journal t" "\<And>a. \<forall>t. tx_journal (snd (k a t)) = tx_journal t"
  obtain r t' where ran: "m t = (r, t')" by force
  then have "tx_journal t' = tx_journal t" using m(1) by (metis snd_conv)
  with ran m(2) show "tx_journal (snd (bind_tx m k t)) = tx_journal t" by (cases r) (simp_all add: bind_tx_def)
qed

lemma keeps_basic:
  "keeps (return_tx a)" "keeps (refuse_tx s)" "keeps (refaulted r)" "keeps (look io f)" "keeps (perform io label g)" "keeps (slots_tx h)"
  for r :: "UpdateError + 'b" and f :: "Disk \<Rightarrow> UpdateError + 'b"
proof -
  have refaulted: "tx_journal (snd (refaulted r t)) = tx_journal t" for r :: "UpdateError + 'b" and t
    by (cases r) (simp_all add: refaulted_def)
  then show "keeps (return_tx a)" "keeps (refuse_tx s)" "keeps (refaulted r)" "keeps (slots_tx h)"
    by (simp_all add: keeps_def return_tx_def refuse_tx_def slots_tx_def)
  show "keeps (look io f)"
    unfolding keeps_def
  proof
    show "tx_journal (snd (look io f t)) = tx_journal t" for t
      using refaulted [of _ "tick t"] by (cases "io (tx_clock t)") (simp_all add: look_def)
  qed
  show "keeps (perform io label g)"
    unfolding keeps_def
  proof
    show "tx_journal (snd (perform io label g t)) = tx_journal t" for t
      by (cases "io (tx_clock t)") (simp_all add: perform_def)
  qed
qed

lemma keeps_if: "(c \<Longrightarrow> keeps m) \<Longrightarrow> (\<not> c \<Longrightarrow> keeps m') \<Longrightarrow> keeps (if c then m else m')"
  by simp

lemma keeps_at: "keeps m \<Longrightarrow> tx_journal (snd (m t)) = tx_journal t"
  by (simp add: keeps_def)

lemmas keeps_intros = keeps_bind keeps_basic keeps_if

lemmas keeps_basic_at = keeps_basic [THEN keeps_at]

lemma keeps_retire: "keeps (retire_version io a)"
proof -
  have "keeps (retire_version_directory io v)" for v
    unfolding retire_version_directory_def version_present_def by (intro keeps_intros)
  then show ?thesis by (simp add: keeps_def retire_version_def keeps_basic_at)
qed

lemma keeps_publish: "keeps (publish_candidate io)"
proof -
  have "keeps (rename_stage io stage)" for stage
    by (simp add: keeps_def rename_stage_def Let_def keeps_basic_at split: option.splits)
  then have "keeps (bind_tx (look io (\<lambda>_. Inr ())) (\<lambda>_. bind_tx (rename_stage io stage) (\<lambda>_ t. (Inr (), t\<lparr> tx_stage := None \<rparr>))))" for stage
    by (intro keeps_intros) (simp_all add: keeps_def)
  then show ?thesis by (simp add: keeps_def publish_candidate_def keeps_basic_at split: option.splits)
qed

lemma keeps_remove: "keeps (remove_journal_as io outcome)"
  unfolding remove_journal_as_def
proof (intro keeps_bind)
  show "keeps (\<lambda>t. if dk_journal (tx_disk t) = None then refuse_tx ''journal removal'' t
      else perform io (\<lambda>_. ''journal removal'') (\<lambda>d. d\<lparr> dk_journal := None \<rparr>) t)"
    by (simp add: keeps_def keeps_basic_at)
  show "keeps (\<lambda>t. case cleanup io (t\<lparr> tx_journaled := False \<rparr>) of (left, t') \<Rightarrow>
      (Inr \<lparr> ar_outcome = outcome, ar_current = ps_current (tx_slots t'), ar_cleanup = left \<rparr>, t'))" for u :: unit
    by (auto simp: keeps_def split: prod.splits dest!: cleanup_keeps)
qed

lemma keeps_pinned: "keeps (ensure_candidate_pinned io)"
proof -
  have abandon: "keeps (abandon_unverified io :: bool tx)"
    unfolding abandon_unverified_def by (intro keeps_bind keeps_remove) (simp add: keeps_def)
  have republish: "keeps (bind_tx (publish_candidate io) (\<lambda>_. return_tx True))" by (intro keeps_intros keeps_publish)
  have again: "keeps (\<lambda>t. let t = t\<lparr> tx_stage := found \<rparr> in
      if found \<noteq> None then bind_tx (publish_candidate io) (\<lambda>_. return_tx True) t else abandon_unverified io t)" for found
    using republish abandon by (simp add: keeps_def Let_def)
  have "keeps (bind_tx (retire_version io c) (\<lambda>_. bind_tx (look io (\<lambda>d. Inr (find_candidate_stage d c))) (\<lambda>found t.
      let t = t\<lparr> tx_stage := found \<rparr> in
      if found \<noteq> None then bind_tx (publish_candidate io) (\<lambda>_. return_tx True) t else abandon_unverified io t)))" for c
    by (intro keeps_intros keeps_retire again)
  note retry = keeps_at [OF this]
  have pass: "keeps (pin_pass io referenced c)" for referenced c
    unfolding pin_pass_def
    by (intro keeps_bind keeps_basic(4)) (simp add: keeps_def retry del: not_None_eq)
  have "tx_journal (snd (pin_candidate io referenced c t)) = tx_journal t" for referenced c t
  proof (induction "length (dk_stages (tx_disk t))" arbitrary: t rule: less_induct)
    case less
    obtain x t' where ran: "pin_pass io referenced c t = (x, t')" by force
    then have at: "tx_journal t' = tx_journal t" using keeps_at [OF pass, of referenced c t] by simp
    show ?case
    proof (cases x)
      case (Inr again)
      then show ?thesis
        using ran at less [of t'] pin_pass_shorter [of io referenced c t t']
        by (cases again) (simp_all add: pin_candidate.simps [of io referenced c t])
    qed (use ran at in \<open>simp add: pin_candidate.simps [of io referenced c t]\<close>)
  qed
  then show ?thesis by (simp add: keeps_def ensure_candidate_pinned_def Let_def)
qed

lemma removed_outcome:
  assumes "remove_journal_as io outcome t = (Inr r, t')"
  shows "ar_outcome r = outcome"
proof -
  from assms obtain t1 where "(case cleanup io (t1\<lparr> tx_journaled := False \<rparr>) of (left, t2) \<Rightarrow>
      (Inr \<lparr> ar_outcome = outcome, ar_current = ps_current (tx_slots t2), ar_cleanup = left \<rparr>, t2)) = (Inr r :: UpdateError + _, t')"
    by (auto simp: remove_journal_as_def bind_tx_Inr)
  then show ?thesis by (cases "cleanup io (t1\<lparr> tx_journaled := False \<rparr>)") auto
qed

text \<open>Before launch an attempt only waits for health or is abandoned.\<close>

lemma unlaunched_step:
  assumes "take_step L io retiree next_step t = (Inr p, t')" "step_ready (tx_journal t) s loc present next_step"
    and "aj_phase (tx_journal t) \<in> {PublishPending, AwaitingHealth}"
  shows "case p of Some (ProgressResolved r) \<Rightarrow> ar_outcome r = Abandoned
    | _ \<Rightarrow> aj_phase (tx_journal t') \<in> {PublishPending, AwaitingHealth}"
proof -
  have written: "keeps (continue_tx (bind_tx (write_slot io encoded f) (\<lambda>_. slots_tx g)))" for encoded f g
    unfolding continue_tx_def write_slot_def by (intro keeps_intros)
  have floor: "keeps (continue_tx (bind_tx (ensure_candidate_pinned io) (\<lambda>_. bind_tx (write_slot io encoded f) (\<lambda>_. slots_tx g))))" for encoded f g
    unfolding continue_tx_def write_slot_def by (intro keeps_intros keeps_pinned)
  have publish: "keeps (continue_tx (publish_candidate io))"
    unfolding continue_tx_def by (intro keeps_intros keeps_publish)
  have carried: "aj_phase (tx_journal t') \<in> {PublishPending, AwaitingHealth} \<and> p = None"
    if "keeps (continue_tx m)" "take_step L io retiree next_step t = continue_tx m t" for m
  proof -
    have ran: "continue_tx m t = (Inr p, t')" using that(2) assms(1) by simp
    then have "p = None" by (auto simp: continue_tx_def bind_tx_Inr return_tx_def)
    moreover have "tx_journal t' = tx_journal t" using keeps_at [OF that(1), of t] by (simp add: ran)
    ultimately show ?thesis using assms(3) by simp
  qed
  show ?thesis
    using assms(2,3)
  proof (cases next_step)
    case PublishCandidate
    then show ?thesis using carried [OF publish] by (simp add: take_step_def)
  next
    case AbandonAttempt
    then show ?thesis using assms(1) by (auto simp: take_step_def bind_tx_Inr return_tx_def dest!: removed_outcome)
  next
    case AdvanceFloor
    then show ?thesis using carried [OF floor] by (simp add: take_step_def Let_def)
  next
    case SelectCandidate
    then show ?thesis using carried [OF written] by (simp add: take_step_def Let_def continue_tx_def bind_tx_def pointer_writes)
  next
    case EnterAwaitingHealth
    then show ?thesis using assms(1)
      by (auto simp: take_step_def continue_tx_def bind_tx_Inr return_tx_def write_phase_def write_journal_def)
  next
    case AwaitHealth
    then show ?thesis using assms(1,3) by (auto simp: take_step_def)
  qed (auto simp: step_ready_def retirement_due_def)
qed

lemma unlaunched_once:
  assumes "advance_once L io t = (Inr p, t')" "aj_phase (tx_journal t) \<in> {PublishPending, AwaitingHealth}"
  shows "case p of Some (ProgressResolved r) \<Rightarrow> ar_outcome r = Abandoned
    | _ \<Rightarrow> aj_phase (tx_journal t') \<in> {PublishPending, AwaitingHealth}"
proof -
  let ?retiree = "retirement_due (tx_journal t) (tx_slots t)"
  obtain present t1 loc t2 where
    first: "(case ?retiree of Some a \<Rightarrow> version_present io (ai_version a) | None \<Rightarrow> return_tx False) t = (Inr present, t1)"
    and second: "candidate_location io t1 = (Inr loc, t2)"
    and last: "(case next_activation_step L (tx_journal t2) (tx_slots t2) loc present of
        Inl _ \<Rightarrow> refuse_tx ''state'' t2 | Inr next_step \<Rightarrow> take_step L io ?retiree next_step t2) = (Inr p, t')"
    using assms(1) by (auto simp: advance_once_def Let_def bind_tx_Inr)
  have "tx_journal t1 = tx_journal t"
    using first by (auto simp: version_present_def return_tx_def split: option.splits dest!: look_frame)
  then have at: "tx_journal t2 = tx_journal t" using location_frame [OF second] by simp
  obtain next_step where step: "next_activation_step L (tx_journal t2) (tx_slots t2) loc present = Inr next_step"
      "take_step L io ?retiree next_step t2 = (Inr p, t')"
    using last by (auto simp: refuse_tx_def split: sum.splits)
  then have "step_ready (tx_journal t2) (tx_slots t2) loc present next_step" using next_step_ready by blast
  from unlaunched_step [OF step(2) this] assms(2) at show ?thesis by simp
qed

lemma unlaunched_advance:
  assumes "aj_phase (tx_journal t) \<in> {PublishPending, AwaitingHealth}" "advance L io n t = (Inr (ProgressResolved r), t')"
  shows "ar_outcome r = Abandoned"
  using assms
proof (induction n arbitrary: t)
  case (Suc n)
  obtain x t1 where ran: "advance_once L io t = (x, t1)" by force
  then obtain p where p: "x = Inr p" using Suc.prems(2) by (cases x) simp_all
  note once = unlaunched_once [OF ran [unfolded p] Suc.prems(1)]
  show ?case
  proof (cases p)
    case None
    then show ?thesis using Suc.IH [of t1] once Suc.prems(2) ran p by simp
  next
    case (Some q)
    then show ?thesis using once Suc.prems(2) ran p by simp
  qed
qed (simp add: refuse_tx_def)

end
