(* ===== verification/Update_Recovery.thy ===== *)
theory Update_Recovery
  imports Update_Engine
begin

text \<open>
  The engine as a whole: attempt start, health, rollback, completion and recovery, as a step relation
  between a disk at rest and the owners that hold the writer lease, with a stop possible at every
  point. Crash safety, the exact results of starting and recovering an attempt, and that recovery ends.
\<close>

section \<open>Resolution\<close>

lemma resolved_phase [simp]: "resolved E (j\<lparr> aj_phase := p \<rparr>) outcome d = resolved E j outcome d"
  by (cases outcome) (simp_all add: resolved_def records_of_def as_found_def prior_slots_match_def)

text \<open>The end of an attempt, as its owner learns it.\<close>

definition ended :: "('k, 'v) Engine \<Rightarrow> ActivationJournal \<Rightarrow> ActivationResolution \<Rightarrow> Tx \<Rightarrow> bool" where
  "ended E j r t = (resolved E j (ar_outcome r) (tx_disk t) \<and> ar_current r = ps_current (tx_disk t))"

lemma progressed_ended: "progressed E (j\<lparr> aj_phase := PublishPending \<rparr>) (ProgressResolved r) t \<Longrightarrow> ended E j r t"
proof -
  assume p: "progressed E (j\<lparr> aj_phase := PublishPending \<rparr>) (ProgressResolved r) t"
  have "resolved E (attempt_of t) (ar_outcome r) (tx_disk t) = resolved E (tx_journal t) (ar_outcome r) (tx_disk t)"
    unfolding attempt_of_def by (rule resolved_phase)
  with p show ?thesis by (simp add: progressed_def ended_def)
qed

lemma resolution_runs:
  assumes "precedence_order (en_semver E)"
  shows "engine_runs E (\<lambda>t. attempt_of t = j\<lparr> aj_phase := PublishPending \<rparr>) (run_to_resolution (en_local E) io) (ended E j)"
  unfolding engine_runs_def run_to_resolution_def
proof (rule runs_bind [OF advance_runs [OF assms, unfolded engine_runs_def]])
  fix p
  show "runs (progressed E (j\<lparr> aj_phase := PublishPending \<rparr>) p)
      (case p of ProgressResolved r \<Rightarrow> return_tx r | ProgressAwaitingHealth \<Rightarrow> refuse_tx ''resolution'') (ended E j) (safe E)"
    by (cases p) (simp_all add: runs_def return_tx_def refuse_tx_def progressed_ended, simp add: progressed_def live_safe [OF assms])
qed

text \<open>The states in which an attempt awaits health and in which it is accepted.\<close>

definition awaits :: "('k, 'v) Engine \<Rightarrow> ActivationJournal \<Rightarrow> Digest \<Rightarrow> Tx \<Rightarrow> bool" where
  "awaits E j receipt t =
     (live E t \<and> tx_journal t = j\<lparr> aj_phase := AwaitingHealth \<rparr> \<and> journal_receipt (en_local E) (tx_journal t) = Inr receipt)"

definition accepted :: "('k, 'v) Engine \<Rightarrow> ActivationJournal \<Rightarrow> Tx \<Rightarrow> bool" where
  "accepted E j t = (live E t \<and> (\<exists>r. tx_journal t = j\<lparr> aj_phase := HealthAccepted r \<rparr>))"

lemma awaiting_stands:
  assumes "live E t" "aj_phase (tx_journal t) = AwaitingHealth"
  shows "underway E (tx_journal t) (tx_disk t)" "ps_current (tx_disk t) = aj_candidate (tx_journal t)"
    "ps_version_floor (tx_disk t) = ai_version (aj_candidate (tx_journal t))" "prior_slots_match (tx_journal t) (tx_disk t)"
proof -
  show u: "underway E (tx_journal t) (tx_disk t)" using assms(1) by (simp add: live_def)
  then have "stands (en_local E) (tx_journal t) (tx_disk t)" by (simp add: underway_def)
  with assms(2) show "ps_current (tx_disk t) = aj_candidate (tx_journal t)"
      "ps_version_floor (tx_disk t) = ai_version (aj_candidate (tx_journal t))" "prior_slots_match (tx_journal t) (tx_disk t)"
    by (simp_all add: stands_def)
qed

lemma leave_health_runs:
  assumes "precedence_order (en_semver E)" "aj_phase j = AwaitingHealth"
    and "(\<exists>f. p = RollbackPending f) \<or> (\<exists>r. p = HealthAccepted r \<and> journal_receipt (en_local E) j = Inr r)"
  shows "engine_runs E (\<lambda>t. tx_journal t = j) (write_phase (en_local E) io p) (\<lambda>_ t. live E t \<and> tx_journal t = j\<lparr> aj_phase := p \<rparr>)"
proof (rule phase_step_runs [OF assms(1)])
  fix t assume t: "live E t" "tx_journal t = j" and valid: "validate_activation_journal (en_semver E) (j\<lparr> aj_phase := p \<rparr>) = Inr ()"
  from awaiting_stands [OF t(1)] t(2) assms(2)
  show "underway E (j\<lparr> aj_phase := p \<rparr>) (tx_disk t)"
    using phase_underway [OF assms(1) _ valid, of "tx_disk t"] assms(2,3) by simp
qed simp

lemma accept_health_runs:
  assumes "precedence_order (en_semver E)"
  shows "runs (awaits E j (aa_health_receipt_digest a)) (accept_health (en_local E) io a receipt) (\<lambda>_. accepted E j) (safe E)"
proof (rule runsI)
  fix t assume t: "awaits E j (aa_health_receipt_digest a) t"
  let ?j = "j\<lparr> aj_phase := AwaitingHealth \<rparr>"
  have "case write_phase (en_local E) io (HealthAccepted (aa_health_receipt_digest a)) t of (Inl e, t') \<Rightarrow> safe E e t'
      | (Inr _, t') \<Rightarrow> live E t' \<and> tx_journal t' = ?j\<lparr> aj_phase := HealthAccepted (aa_health_receipt_digest a) \<rparr>"
    by (rule engine_runsD [OF leave_health_runs [OF assms]]) (use t in \<open>auto simp: awaits_def\<close>)
  then show "case accept_health (en_local E) io a receipt t of (Inl e, t') \<Rightarrow> safe E e t' | (Inr _, t') \<Rightarrow> accepted E j t'"
    using t live_safe [OF assms, of t "''health receipt binding''"]
    by (auto simp: accept_health_def Let_def refuse_tx_def awaits_def accepted_def split: sum.splits prod.splits)
qed

lemma binding_runs:
  assumes "precedence_order (en_semver E)"
  shows "engine_runs E P (require_retirement_binding retirement installation) (\<lambda>_ t. live E t \<and> P t)"
  by (simp add: engine_runs_def runs_def require_retirement_binding_def refuse_tx_def live_safe [OF assms])

lemma roll_back_runs:
  assumes "precedence_order (en_semver E)"
  shows "runs (awaits E j receipt) (roll_back_attempt (en_local E) io a failure retirement) (ended E j) (safe E)"
proof -
  let ?j = "j\<lparr> aj_phase := AwaitingHealth \<rparr>"
  have written: "engine_runs E (\<lambda>t. tx_journal t = ?j) (write_phase (en_local E) io (RollbackPending failure))
      (\<lambda>_ t. live E t \<and> attempt_of t = j\<lparr> aj_phase := PublishPending \<rparr>)"
    by (rule engine_post [OF leave_health_runs [OF assms]]) (auto simp: attempt_of_def)
  have "engine_runs E (\<lambda>t. tx_journal t = ?j) (roll_back_attempt (en_local E) io a failure retirement) (ended E j)"
    unfolding roll_back_attempt_def
    by (rule engine_bind [OF binding_runs [OF assms]], rule engine_bind [OF written resolution_runs [OF assms]])
  then show ?thesis unfolding engine_runs_def by (rule runs_pre) (simp add: awaits_def)
qed

lemma complete_runs:
  assumes "precedence_order (en_semver E)"
  shows "runs (accepted E j) (complete (en_local E) io) (ended E j) (safe E)"
  unfolding complete_def
  by (rule runs_pre [OF resolution_runs [OF assms, unfolded engine_runs_def]]) (auto simp: accepted_def attempt_of_def)

section \<open>Attempt start\<close>

text \<open>What a minted attempt holds: a disk at rest it was checked against, or an unlaunched journal.\<close>

definition minted :: "('k, 'v) Engine \<Rightarrow> MintedAttempt \<Rightarrow> bool" where
  "minted E m =
     (let t = ma_transaction m; j = tx_journal t; d = tx_disk t in
      aj_phase j = PublishPending
      \<and> (case ma_reminted m of
           Some _ \<Rightarrow> live E t
         | None \<Rightarrow> \<not> tx_journaled t \<and> dk_journal d = None \<and> settled E d \<and> same_slots (tx_slots t) d
             \<and> in_scope E (aj_candidate j) \<and> ai_version (aj_candidate j) \<notin> set (tx_pins t)
             \<and> aj_rollback_target j = ps_current d \<and> aj_prior_floor j = ps_version_floor d
             \<and> aj_prior_last_known_good j = ps_last_known_good d
             \<and> aj_prior_previous_known_good j = ps_previous_known_good d))"

lemma same_attempt:
  "attempt_of t = j\<lparr> aj_phase := PublishPending \<rparr> \<Longrightarrow> aj_phase (tx_journal t) = p \<Longrightarrow> tx_journal t = j\<lparr> aj_phase := p \<rparr>"
  by (cases "tx_journal t"; cases j) (simp add: attempt_of_def)

lemma revealed_simps [simp]:
  "aj_candidate (revealed_journal owner logon m) = aj_candidate (tx_journal (ma_transaction m))"
  "aj_rollback_target (revealed_journal owner logon m) = aj_rollback_target (tx_journal (ma_transaction m))"
  "aj_prior_floor (revealed_journal owner logon m) = aj_prior_floor (tx_journal (ma_transaction m))"
  "aj_prior_last_known_good (revealed_journal owner logon m) = aj_prior_last_known_good (tx_journal (ma_transaction m))"
  "aj_prior_previous_known_good (revealed_journal owner logon m) = aj_prior_previous_known_good (tx_journal (ma_transaction m))"
  "aj_phase (revealed_journal owner logon m) = aj_phase (tx_journal (ma_transaction m))"
  by (simp_all add: revealed_journal_def Let_def split: option.splits)

lemma fresh_loads:
  assumes "minted E m" "ma_reminted m = None"
  shows "loadable E (tx_disk (ma_transaction m))"
  using assms settled_loads by (auto simp: minted_def Let_def)

lemma minted_safe:
  assumes "precedence_order (en_semver E)" "minted E m"
  shows "safe E (before_record (ma_transaction m) cause) (ma_transaction m)"
proof (cases "ma_reminted m")
  case None
  with assms(2) fresh_loads [OF assms(2) None] show ?thesis
    by (auto simp: minted_def safe_def before_record_def fault_def as_found_def prior_slots_match_def Let_def)
next
  case (Some c)
  with assms(2) have "live E (ma_transaction m)" by (simp add: minted_def Let_def)
  then show ?thesis using live_safe [OF assms(1)] by (simp add: before_record_def refault_def live_def)
qed

lemma reveal_reminted:
  assumes order: "precedence_order (en_semver E)" and m: "minted E m" "ma_reminted m = Some channels"
    and enc: "encode_activation_journal (en_semver E) (lc_journal (en_local E)) j = Inr bytes" and j: "j = revealed_journal owner logon m"
  shows "engine_runs E (\<lambda>t. t = tick (ma_transaction m)) (reveal io True j) (\<lambda>_ t. live E t \<and> tx_journal t = j)"
proof (rule engine_cong)
  let ?t = "tick (ma_transaction m)"
  have at: "live E ?t" "aj_phase (tx_journal ?t) = PublishPending" using m by (simp_all add: minted_def Let_def)
  show "engine_runs E (\<lambda>t. t = ?t) (write_journal (en_local E) io j) (\<lambda>_ t. live E t \<and> tx_journal t = j)"
  proof (rule write_journal_runs [OF order])
    fix t assume t: "t = ?t" and valid: "validate_activation_journal (en_semver E) j = Inr ()"
    have u: "underway E (tx_journal ?t) (tx_disk ?t)" using at(1) by (simp add: live_def)
    have "stands (en_local E) j (tx_disk ?t)"
      using u at(2) valid by (simp add: underway_def stands_def j prior_slots_match_def)
    moreover have "excluded j (tx_disk ?t) = excluded (tx_journal ?t) (tx_disk ?t)"
      using at(2) by (simp add: excluded_def unpublished_candidate_def retirement_due_def j)
    ultimately show "underway E j (tx_disk t)"
      using u unfolding t by (intro underway_update [OF u]) (simp_all add: j journal_artifacts_def underway_def)
  qed (simp_all add: j)
qed (simp add: reveal_def write_journal_def write_slot_def bind_tx_def refaulted_def enc)

lemma reveal_fresh:
  assumes order: "precedence_order (en_semver E)" and m: "minted E m" "ma_reminted m = None"
    and valid: "validate_activation_journal (en_semver E) j = Inr ()" and j: "j = revealed_journal owner logon m"
  shows "runs (\<lambda>t. t = tick (ma_transaction m)) (reveal io False j) (\<lambda>_ t. live E t \<and> tx_journal t = j) (safe E)"
proof (rule runsI)
  fix t assume t: "t = tick (ma_transaction m)"
  let ?f = "\<lambda>d. d\<lparr> dk_journal := Some j \<rparr>"
  have rest: "\<not> tx_journaled t" "dk_journal (tx_disk t) = None" "settled E (tx_disk t)" "same_slots (tx_slots t) (tx_disk t)"
    "ai_version (aj_candidate j) \<notin> set (tx_pins t)"
    using m by (simp_all add: minted_def Let_def t j)
  have "underway E j (tx_disk t)"
    by (rule start_underway [OF order _ valid]) (use m in \<open>simp_all add: minted_def Let_def t j\<close>)
  then have written: "underway E j (?f (tx_disk t))" by (simp add: underway_with_journal)
  then have after: "loadable E (?f (tx_disk t))" using underway_loads [OF order, of "?f (tx_disk t)" j] by simp
  have before: "loadable E (tx_disk t)" using fresh_loads [OF m] by (simp add: t)
  have "same_slots (tx_slots t) (?f (tx_disk t))" using rest(4) by (simp add: same_slots_def)
  with written rest(5) have live: "live E ((tick (change_disk ?f (t\<lparr> tx_journal := j \<rparr>)))\<lparr> tx_journaled := True \<rparr>)"
    by (simp add: live_def)
  show "case reveal io False j t of (Inl e, t') \<Rightarrow> safe E e t' | (Inr _, t') \<Rightarrow> live E t' \<and> tx_journal t' = j"
  proof (cases "io (tx_clock t)")
    case Works
    then show ?thesis using live rest(2) by (simp add: reveal_def perform_def)
  next
    case (Broken s)
    have "as_found j (tx_disk t)" using m by (simp add: minted_def as_found_def prior_slots_match_def Let_def t j)
    with Broken show ?thesis using rest(1,2) before
      by (simp add: reveal_def perform_def Let_def safe_def fault_def refault_def before_record_def)
  next
    case (BrokenLate s)
    then show ?thesis using rest(2) after
      by (simp add: reveal_def perform_def Let_def safe_def fault_def refault_def journal_present_def split: Answer.splits)
  qed
qed

lemma runsD: "runs P m Q R \<Longrightarrow> P t \<Longrightarrow> case m t of (Inl e, t') \<Rightarrow> R e t' | (Inr a, t') \<Rightarrow> Q a t'"
  by (simp add: runs_def)

text \<open>What an attempt's journal leaves for its owner.\<close>

definition journaled :: "('k, 'v) Engine \<Rightarrow> ActivationJournal \<Rightarrow> JournaledAttempt \<Rightarrow> Tx \<Rightarrow> bool" where
  "journaled E j outcome t =
     (case outcome of
        JournaledAwaitingHealth a \<Rightarrow> awaits E j (aa_health_receipt_digest a) t
      | JournaledResolved r \<Rightarrow> ended E j r t)"

lemma reveal_runs:
  assumes "precedence_order (en_semver E)" "minted E m" "j = revealed_journal owner logon m"
    and "encode_activation_journal (en_semver E) (lc_journal (en_local E)) j = Inr bytes"
  shows "runs (\<lambda>t. t = tick (ma_transaction m)) (reveal io (ma_reminted m \<noteq> None) j) (\<lambda>_ t. live E t \<and> tx_journal t = j) (safe E)"
proof (cases "ma_reminted m")
  case None
  have "validate_activation_journal (en_semver E) j = Inr ()"
    using assms(4) by (auto simp: encode_activation_journal_def and_then_eq_Inr)
  from reveal_fresh [OF assms(1,2) None this assms(3)] None show ?thesis by simp
next
  case (Some c)
  have "live E (tick (ma_transaction m))" using assms(2) Some by (simp add: minted_def Let_def)
  then have "runs (\<lambda>t. t = tick (ma_transaction m)) (reveal io True j) (\<lambda>_ t. live E t \<and> tx_journal t = j) (safe E)"
    by (intro runs_pre [OF reveal_reminted [OF assms(1,2) Some assms(4,3), unfolded engine_runs_def]]) simp
  then show ?thesis by (simp add: Some)
qed

lemma runs_and:
  "runs P m Q R \<Longrightarrow> (\<And>a t t'. P t \<Longrightarrow> m t = (Inr a, t') \<Longrightarrow> S a) \<Longrightarrow> runs P m (\<lambda>a t. Q a t \<and> S a) R"
  unfolding runs_def by (fastforce split: prod.splits sum.splits)

lemma abandoned_safe:
  assumes "progressed E j (ProgressResolved r) t" "ar_outcome r = Abandoned"
  shows "safe E (fault t s) t"
  using assms resolved_loads [of E "tx_journal t" Abandoned "tx_disk t"]
  by (simp add: progressed_def safe_def fault_def resolved_def records_of_def)

lemma awaiting_health_runs:
  assumes "precedence_order (en_semver E)"
  shows "runs (progressed E (j\<lparr> aj_phase := PublishPending \<rparr>) ProgressAwaitingHealth)
    (bind_tx (awaiting_health (en_local E) installation) (\<lambda>a. return_tx (JournaledAwaitingHealth a))) (journaled E j) (safe E)"
proof (rule runsI)
  fix t assume t: "progressed E (j\<lparr> aj_phase := PublishPending \<rparr>) ProgressAwaitingHealth t"
  then have "live E t" "tx_journal t = j\<lparr> aj_phase := AwaitingHealth \<rparr>" by (simp_all add: progressed_def same_attempt)
  then show "case bind_tx (awaiting_health (en_local E) installation) (\<lambda>a. return_tx (JournaledAwaitingHealth a)) t of
      (Inl e, t) \<Rightarrow> safe E e t | (Inr outcome, t) \<Rightarrow> journaled E j outcome t"
    using live_safe [OF assms, of t]
    by (cases "journal_receipt (en_local E) (tx_journal t)")
      (simp_all add: awaiting_health_def bind_tx_def refaulted_def refault_def return_tx_def journaled_def awaits_def)
qed

lemma unlaunched_runs:
  assumes "precedence_order (en_semver E)" "aj_phase j = PublishPending"
  shows "runs (\<lambda>t. live E t \<and> tx_journal t = j) (advance (en_local E) io n)
    (\<lambda>p t. progressed E (j\<lparr> aj_phase := PublishPending \<rparr>) p t \<and> (\<forall>r. p = ProgressResolved r \<longrightarrow> ar_outcome r = Abandoned)) (safe E)"
proof (rule runs_and)
  show "runs (\<lambda>t. live E t \<and> tx_journal t = j) (advance (en_local E) io n) (progressed E (j\<lparr> aj_phase := PublishPending \<rparr>)) (safe E)"
    by (rule runs_pre [OF advance_runs [OF assms(1), unfolded engine_runs_def]]) (simp add: attempt_of_def)
  show "\<forall>r. p = ProgressResolved r \<longrightarrow> ar_outcome r = Abandoned"
    if "live E t \<and> tx_journal t = j" "advance (en_local E) io n t = (Inr p, t')" for p t t'
    using that assms(2) unlaunched_advance [of t "en_local E" io n _ t'] by auto
qed

text \<open>The attempt after its journal is durable, and before.\<close>

definition run_attempt :: "'v Local \<Rightarrow> (nat \<Rightarrow> Answer) \<Rightarrow> bool \<Rightarrow> Digest \<Rightarrow> JournaledAttempt tx" where
  "run_attempt L io reminted installation =
     bind_tx (advance L io MAX_STEPS_PER_RUN) (\<lambda>progress.
     case progress of
       ProgressAwaitingHealth \<Rightarrow> bind_tx (awaiting_health L installation) (\<lambda>a. return_tx (JournaledAwaitingHealth a))
     | ProgressResolved r \<Rightarrow> if reminted then return_tx (JournaledResolved r) else refuse_tx ''start'')"

lemma journal_attempt_unfold:
  "journal_attempt L io owner logon m =
     (let t = ma_transaction m; j = revealed_journal owner logon m; reminted = ma_reminted m \<noteq> None in
      case encode_activation_journal (lc_semver L) (lc_journal L) j of
        Inl cause \<Rightarrow> (Inl (before_record t cause), t)
      | Inr _ \<Rightarrow>
          (case stale_preparations_removed io t of
             Inl cause \<Rightarrow> (Inl (before_record t cause), tick t)
           | Inr _ \<Rightarrow> bind_tx (reveal io reminted j) (\<lambda>_. run_attempt L io reminted (ma_installation_id m)) (tick t)))"
  by (simp only: journal_attempt_def run_attempt_def)

lemma run_attempt_runs:
  assumes "precedence_order (en_semver E)" "aj_phase j = PublishPending"
  shows "runs (\<lambda>t. live E t \<and> tx_journal t = j) (run_attempt (en_local E) io reminted installation) (journaled E j) (safe E)"
  unfolding run_attempt_def
proof (rule runs_bind [OF unlaunched_runs [OF assms]])
  fix p
  show "runs (\<lambda>t. progressed E (j\<lparr> aj_phase := PublishPending \<rparr>) p t \<and> (\<forall>r. p = ProgressResolved r \<longrightarrow> ar_outcome r = Abandoned))
      (case p of
        ProgressAwaitingHealth \<Rightarrow> bind_tx (awaiting_health (en_local E) installation) (\<lambda>a. return_tx (JournaledAwaitingHealth a))
      | ProgressResolved r \<Rightarrow> if reminted then return_tx (JournaledResolved r) else refuse_tx ''start'') (journaled E j) (safe E)"
  proof (cases p)
    case (ProgressResolved r)
    then show ?thesis
      using abandoned_safe [of E "j\<lparr> aj_phase := PublishPending \<rparr>" r] progressed_ended [of E j r]
      by (simp add: runs_def return_tx_def refuse_tx_def journaled_def)
  qed (use awaiting_health_runs [OF assms(1)] in simp)
qed

lemma journal_attempt_runs:
  assumes "precedence_order (en_semver E)" "minted E m"
  shows "case journal_attempt (en_local E) io owner logon m of (Inl e, t) \<Rightarrow> safe E e t
    | (Inr outcome, t) \<Rightarrow> journaled E (revealed_journal owner logon m) outcome t"
proof -
  define j where "j = revealed_journal owner logon m"
  let ?enc = "encode_activation_journal (en_semver E) (lc_journal (en_local E)) j"
  let ?body = "bind_tx (reveal io (ma_reminted m \<noteq> None) j) (\<lambda>_. run_attempt (en_local E) io (ma_reminted m \<noteq> None) (ma_installation_id m))"
  have pending: "aj_phase j = PublishPending" using assms(2) by (simp add: j_def minted_def Let_def)
  have body: "runs (\<lambda>t. t = tick (ma_transaction m)) ?body (journaled E j) (safe E)" if "?enc = Inr bytes" for bytes
    by (rule runs_bind [OF reveal_runs [OF assms j_def that] run_attempt_runs [OF assms(1) pending]])
  note ran = runsD [OF body refl]
  show ?thesis
  proof (cases ?enc; cases "stale_preparations_removed io (ma_transaction m)")
    fix bytes u assume "?enc = Inr bytes" "stale_preparations_removed io (ma_transaction m) = Inr u"
    with ran [of bytes] show ?thesis by (simp only: journal_attempt_unfold Let_def flip: j_def) (simp only: sum.case)
  qed (use minted_safe [OF assms] in \<open>simp_all add: journal_attempt_unfold Let_def flip: j_def\<close>)
qed

lemma slots_of_same [simp]: "same_slots (slots_of d) d"
  by (simp add: same_slots_def ProtectedSlots.truncate_def)

lemma writer_snapshot:
  assumes "loadable E d" "write_snapshot E d = Inr ws"
  shows "dk_journal d = None" "settled E d" "ws_slots ws = slots_of d"
proof -
  show none: "dk_journal d = None" "ws_slots ws = slots_of d"
    using assms(2) by (auto simp: write_snapshot_def load_activation_write_snapshot_def Let_def and_then_eq_Inr split: if_splits)
  show "settled E d" using settled_loads [OF none(1), of E] assms(1) by simp
qed

lemma begin_mints:
  assumes "loadable E d" "write_snapshot E d = Inr ws"
    and "begin_activation (en_local E) (en_baseline E) d ws installation stage candidate img random = Inr m"
  shows "minted E m \<and> tx_disk (ma_transaction m) = d"
proof -
  note rest = writer_snapshot [OF assms(1,2)]
  have same: "ps_current (slots_of d) = ps_current d" "ps_version_floor (slots_of d) = ps_version_floor d"
      "ps_last_known_good (slots_of d) = ps_last_known_good d" "ps_previous_known_good (slots_of d) = ps_previous_known_good d"
    by (simp_all add: ProtectedSlots.truncate_def)
  show ?thesis
    using assms(3) rest
    by (auto simp: begin_activation_def Let_def and_then_eq_Inr minted_def in_scope_def same
        split: sum.splits if_splits prod.splits)
qed

section \<open>Recovery\<close>

lemma pin_versions_sound: "pin_versions d as = Inr pins \<Longrightarrow> pins = map ai_version as \<and> (\<forall>a \<in> set as. sound d a)"
  by (induction as arbitrary: pins) (auto simp: and_then_eq_Inr sound_def)

lemma inspected:
  assumes "inspection E d = Inr ri"
  shows "dk_journal d = Some (ri_journal ri)" "ri_slots ri = slots_of d"
    "pin_versions d (pinned_selection (ri_journal ri) d) = Inr (ri_pins ri)"
  using assms unfolding inspection_def load_recovery_inspection_def Let_def pin_selected_versions_def pinned_selection_def
  by (auto simp: and_then_eq_Inr case_prod_unfold)

definition recovering :: "Disk \<Rightarrow> RecoveryInspection \<Rightarrow> Tx" where
  "recovering d ri =
     \<lparr> tx_disk = d, tx_clock = 0, tx_journal = ri_journal ri, tx_slots = ri_slots ri, tx_pins = ri_pins ri,
       tx_stage = ri_candidate_stage ri, tx_journaled = True \<rparr>"

lemma inspected_live:
  assumes "precedence_order (en_semver E)" "loadable E d" "inspection E d = Inr ri"
  shows "live E (recovering d ri)"
proof -
  let ?j = "ri_journal ri"
  note at = inspected [OF assms(3)]
  have u: "underway E ?j d" using underway_loads [OF assms(1) at(1)] assms(2) by simp
  then have st: "stands (en_local E) ?j d" by (simp add: underway_def)
  have "sound d (aj_candidate ?j)" if pinned: "ai_version (aj_candidate ?j) \<in> set (ri_pins ri)"
  proof -
    note pins = pin_versions_sound [OF at(3)]
    from pinned pins obtain a where a: "a \<in> set (pinned_selection ?j d)" "ai_version a = ai_version (aj_candidate ?j)" "sound d a"
      by auto
    then have "a \<in> journal_artifacts ?j" "aj_candidate ?j \<in> journal_artifacts ?j"
      using pinned_selection_set [OF st] by (auto simp: journal_artifacts_def)
    with a journal_versions_inj [OF valid_journal_separates [OF assms(1) stands_valid [OF st]]]
    have "a = aj_candidate ?j" by (simp add: inj_on_def)
    with a(3) show ?thesis by simp
  qed
  then show ?thesis using at u by (simp add: live_def recovering_def)
qed

lemma into_transaction_recovering:
  assumes "precedence_order (en_semver E)" "loadable E d" "inspection E d = Inr ri"
  shows "into_transaction d ri img = (Inr (), recovering d ri)
    \<or> (\<exists>e. into_transaction d ri img = (Inl e, recovering d ri) \<and> safe E e (recovering d ri))"
proof (cases img)
  case None
  then show ?thesis using live_safe [OF assms(1) inspected_live [OF assms]]
    by (simp add: into_transaction_def recovering_def bind_tx_def refaulted_def refault_def coordinator_image_digest_def Let_def)
next
  case (Some digest)
  then show ?thesis using live_safe [OF assms(1) inspected_live [OF assms]]
    by (simp add: into_transaction_def recovering_def bind_tx_def refaulted_def coordinator_image_digest_def refuse_tx_def Let_def)
qed

lemma remint_runs:
  assumes "precedence_order (en_semver E)"
  shows "engine_runs E (\<lambda>t. aj_phase (tx_journal t) = PublishPending \<and> tx_disk t = d) (remint installation random)
    (\<lambda>m _. minted E m \<and> tx_disk (ma_transaction m) = d)"
  unfolding engine_runs_def
proof (rule runsI)
  fix t assume t: "live E t \<and> aj_phase (tx_journal t) = PublishPending \<and> tx_disk t = d"
  then show "case remint installation random t of (Inl e, t') \<Rightarrow> safe E e t'
      | (Inr m, _) \<Rightarrow> minted E m \<and> tx_disk (ma_transaction m) = d"
    using live_safe [OF assms, of t]
    by (cases "mint_identities random") (auto simp: remint_def bind_tx_def refaulted_def refault_def refuse_tx_def minted_def Let_def
        split: if_splits)
qed

text \<open>What recovery leaves: a resolved attempt, or an unlaunched one with new identities.\<close>

definition recovered :: "('k, 'v) Engine \<Rightarrow> ActivationJournal \<Rightarrow> RecoveryOutcome \<Rightarrow> Tx \<Rightarrow> bool" where
  "recovered E j outcome t =
     (case outcome of RecoveryResolved r \<Rightarrow> ended E j r t | Reminted m \<Rightarrow> minted E m)"

lemma resume_or_resolve_runs:
  assumes "precedence_order (en_semver E)"
  shows "engine_runs E (\<lambda>t. tx_journal t = j) (resume_or_resolve (en_local E) io installation random) (recovered E j)"
proof (cases "aj_phase j = PublishPending")
  case True
  have "engine_runs E (\<lambda>t. tx_journal t = j) (bind_tx (remint installation random) (\<lambda>m. return_tx (Reminted m))) (recovered E j)"
    unfolding engine_runs_def
  proof (rule runs_bind)
    show "runs (\<lambda>t. live E t \<and> tx_journal t = j) (remint installation random) (\<lambda>m _. minted E m) (safe E)"
    proof (rule runs_state)
      fix t assume t: "live E t \<and> tx_journal t = j"
      then have "case remint installation random t of (Inl e, t') \<Rightarrow> safe E e t'
          | (Inr m, _) \<Rightarrow> minted E m \<and> tx_disk (ma_transaction m) = tx_disk t"
        using True by (intro engine_runsD [OF remint_runs [OF assms]]) simp_all
      then show "runs (\<lambda>t'. t' = t) (remint installation random) (\<lambda>m _. minted E m) (safe E)"
        by (auto simp: runs_def split: sum.splits prod.splits)
    qed
  qed (simp add: runs_def return_tx_def recovered_def)
  then show ?thesis by (rule engine_cong) (simp add: resume_or_resolve_def True)
next
  case False
  let ?turn = "\<lambda>t. if aj_phase (tx_journal t) = AwaitingHealth then write_phase (en_local E) io (RollbackPending ProcessCrash) t
    else (Inr (), t)"
  let ?attempt = "\<lambda>t. attempt_of t = j\<lparr> aj_phase := PublishPending \<rparr>"
  have turned: "engine_runs E (\<lambda>t. tx_journal t = j) ?turn (\<lambda>_ t. live E t \<and> ?attempt t)"
  proof (cases "aj_phase j = AwaitingHealth")
    case True
    have "engine_runs E (\<lambda>t. tx_journal t = j) (write_phase (en_local E) io (RollbackPending ProcessCrash)) (\<lambda>_ t. live E t \<and> ?attempt t)"
      by (rule engine_post [OF leave_health_runs [OF assms True]]) (auto simp: attempt_of_def)
    then show ?thesis by (rule engine_cong) (simp add: True)
  next
    case False
    then show ?thesis by (simp add: engine_runs_def runs_def attempt_of_def)
  qed
  have looked: "engine_runs E (\<lambda>t. tx_journal t = j) (look io (\<lambda>_. Inr ())) (\<lambda>_ t. live E t \<and> tx_journal t = j)"
    by (rule engine_post [OF engine_look [OF assms]]) simp_all
  have "engine_runs E (\<lambda>t. tx_journal t = j) (bind_tx (look io (\<lambda>_. Inr ())) (\<lambda>_. bind_tx ?turn (\<lambda>_.
      bind_tx (run_to_resolution (en_local E) io) (\<lambda>r. return_tx (RecoveryResolved r))))) (recovered E j)"
  proof (rule engine_bind [OF looked], rule engine_bind [OF turned])
    show "engine_runs E ?attempt (bind_tx (run_to_resolution (en_local E) io) (\<lambda>r. return_tx (RecoveryResolved r))) (recovered E j)"
      unfolding engine_runs_def
      by (rule runs_bind [OF resolution_runs [OF assms, unfolded engine_runs_def]]) (simp add: runs_def return_tx_def recovered_def)
  qed
  then show ?thesis by (rule engine_cong) (simp add: resume_or_resolve_def False)
qed

lemma recover_runs:
  assumes "precedence_order (en_semver E)" "loadable E d" "inspection E d = Inr ri"
  shows "case recover (en_local E) io d ri installation retirement img random of (Inl e, t) \<Rightarrow> safe E e t
    | (Inr outcome, t) \<Rightarrow> recovered E (ri_journal ri) outcome t"
proof -
  have "engine_runs E (\<lambda>t. tx_journal t = ri_journal ri) (bind_tx (require_retirement_binding retirement installation)
      (\<lambda>_. resume_or_resolve (en_local E) io installation random)) (recovered E (ri_journal ri))"
    by (rule engine_bind [OF binding_runs [OF assms(1)] resume_or_resolve_runs [OF assms(1)]])
  from engine_runsD [OF this inspected_live [OF assms]] into_transaction_recovering [OF assms, of img] show ?thesis
    by (auto simp: recover_def recovering_def)
qed

lemma resume_unlaunched_runs:
  assumes "precedence_order (en_semver E)" "loadable E d" "inspection E d = Inr ri"
  shows "case resume_unlaunched d ri installation img random of (Inl e, t) \<Rightarrow> safe E e t | (Inr m, t) \<Rightarrow> minted E m"
proof -
  note live = inspected_live [OF assms]
  have "case remint installation random (recovering d ri) of (Inl e, t) \<Rightarrow> safe E e t
      | (Inr m, _) \<Rightarrow> minted E m \<and> tx_disk (ma_transaction m) = d" if "aj_phase (ri_journal ri) = PublishPending"
    by (rule engine_runsD [OF remint_runs [OF assms(1)] live]) (use that in \<open>simp add: recovering_def\<close>)
  with into_transaction_recovering [OF assms, of img] live_safe [OF assms(1) live, of "''unlaunched resume''"] show ?thesis
    by (auto simp: resume_unlaunched_def refuse_tx_def recovering_def split: sum.splits prod.splits)
qed

section \<open>The engine\<close>

text \<open>
  A disk at rest or an owner of the writer lease. Staging changes the \<open>incomplete-*\<close> directories of a
  disk at rest. Each operation runs under an arbitrary stream of answers, so that its refusals include
  every point a crash can stop it at; an owner may also be dropped, or die, between operations.
\<close>

datatype EngineState =
    AtRest Disk
  | HoldsMinted MintedAttempt
  | HoldsAttempt ActivationAttempt Tx
  | HoldsAccepted Tx

fun disk_of :: "EngineState \<Rightarrow> Disk" where
  "disk_of (AtRest d) = d"
| "disk_of (HoldsMinted m) = tx_disk (ma_transaction m)"
| "disk_of (HoldsAttempt _ t) = tx_disk t"
| "disk_of (HoldsAccepted t) = tx_disk t"

definition after_journal :: "(UpdateError + JournaledAttempt) \<times> Tx \<Rightarrow> EngineState" where
  "after_journal r =
     (case r of
        (Inr (JournaledAwaitingHealth a), t) \<Rightarrow> HoldsAttempt a t
      | (_, t) \<Rightarrow> AtRest (tx_disk t))"

definition after_health :: "(UpdateError + unit) \<times> Tx \<Rightarrow> EngineState" where
  "after_health r = (case r of (Inr _, t) \<Rightarrow> HoldsAccepted t | (Inl _, t) \<Rightarrow> AtRest (tx_disk t))"

definition after_recovery :: "(UpdateError + RecoveryOutcome) \<times> Tx \<Rightarrow> EngineState" where
  "after_recovery r =
     (case r of (Inr (Reminted m), _) \<Rightarrow> HoldsMinted m | (_, t) \<Rightarrow> AtRest (tx_disk t))"

definition after_resume :: "(UpdateError + MintedAttempt) \<times> Tx \<Rightarrow> EngineState" where
  "after_resume r = (case r of (Inr m, _) \<Rightarrow> HoldsMinted m | (Inl _, t) \<Rightarrow> AtRest (tx_disk t))"

inductive engine_step :: "('k, 'v) Engine \<Rightarrow> EngineState \<Rightarrow> EngineState \<Rightarrow> bool" for E where
  staged: "engine_step E (AtRest d) (AtRest (d\<lparr> dk_stages := stages \<rparr>))"
| begun: "write_snapshot E d = Inr ws \<Longrightarrow>
    begin_activation (en_local E) (en_baseline E) d ws installation stage candidate img random = Inr m \<Longrightarrow>
    engine_step E (AtRest d) (HoldsMinted m)"
| journaled: "engine_step E (HoldsMinted m) (after_journal (journal_attempt (en_local E) io owner logon m))"
| health: "engine_step E (HoldsAttempt a t) (after_health (accept_health (en_local E) io a receipt t))"
| rolled_back: "engine_step E (HoldsAttempt a t)
    (AtRest (tx_disk (snd (roll_back_attempt (en_local E) io a failure retirement t))))"
| completed: "engine_step E (HoldsAccepted t) (AtRest (tx_disk (snd (complete (en_local E) io t))))"
| recovery: "inspection E d = Inr ri \<Longrightarrow>
    engine_step E (AtRest d) (after_recovery (recover (en_local E) io d ri installation retirement img random))"
| resumed: "inspection E d = Inr ri \<Longrightarrow>
    engine_step E (AtRest d) (after_resume (resume_unlaunched d ri installation img random))"
| stopped: "engine_step E s (AtRest (disk_of s))"

text \<open>What each owner holds.\<close>

fun holds :: "('k, 'v) Engine \<Rightarrow> EngineState \<Rightarrow> bool" where
  "holds E (AtRest d) = loadable E d"
| "holds E (HoldsMinted m) = minted E m"
| "holds E (HoldsAttempt a t) = (\<exists>j. awaits E j (aa_health_receipt_digest a) t)"
| "holds E (HoldsAccepted t) = (\<exists>j. accepted E j t)"

lemma minted_loads:
  assumes "precedence_order (en_semver E)" "minted E m"
  shows "loadable E (tx_disk (ma_transaction m))"
proof (cases "ma_reminted m")
  case None
  then show ?thesis by (rule fresh_loads [OF assms(2)])
next
  case (Some c)
  then show ?thesis using assms live_loads by (auto simp: minted_def Let_def)
qed

lemma holds_loads:
  assumes "precedence_order (en_semver E)" "holds E s"
  shows "loadable E (disk_of s)"
  using assms minted_loads live_loads [OF assms(1)] by (cases s) (auto simp: awaits_def accepted_def)

lemma ended_loads: "ended E j r t \<Longrightarrow> loadable E (tx_disk t)"
  using resolved_loads by (auto simp: ended_def)

lemma safe_loads: "safe E e t \<Longrightarrow> loadable E (tx_disk t)"
  by (simp add: safe_def)

lemma left_loads:
  assumes "case x of (Inl e, t) \<Rightarrow> safe E e t | (Inr r, t) \<Rightarrow> ended E j r t"
  shows "loadable E (tx_disk (snd x))"
  using assms safe_loads ended_loads by (cases x; cases "fst x") fastforce+

lemma underway_stages: "underway E j (d\<lparr> dk_stages := ss \<rparr>) = underway E j d"
proof -
  have "same_slots (d\<lparr> dk_stages := ss \<rparr>) d" by (simp add: same_slots_def)
  moreover have "sound (d\<lparr> dk_stages := ss \<rparr>) a = sound d a" for a by (simp add: sound_iff version_of_def)
  ultimately show ?thesis
    using same_slots_reads(1) [of "d\<lparr> dk_stages := ss \<rparr>" d "en_local E" j]
      same_slots_reads(2) [of "d\<lparr> dk_stages := ss \<rparr>" d j] by (simp add: underway_def version_names_def)
qed

lemma loadable_stages:
  assumes "precedence_order (en_semver E)"
  shows "loadable E (d\<lparr> dk_stages := ss \<rparr>) = loadable E d"
  using underway_loads [OF assms, of "d\<lparr> dk_stages := ss \<rparr>"] underway_loads [OF assms, of d]
    settled_loads [of "d\<lparr> dk_stages := ss \<rparr>" E] settled_loads [of d E]
  by (cases "dk_journal d") (simp_all add: underway_stages settled_stages)

lemma after_journal_holds:
  assumes "case x of (Inl e, t) \<Rightarrow> safe E e t | (Inr outcome, t) \<Rightarrow> journaled E j outcome t"
  shows "holds E (after_journal x)"
proof (cases x)
  case (Pair r t)
  show ?thesis
  proof (cases r)
    case (Inr outcome)
    then show ?thesis using assms Pair by (cases outcome) (auto simp: after_journal_def journaled_def dest: ended_loads)
  qed (use assms Pair in \<open>auto simp: after_journal_def dest: safe_loads\<close>)
qed

lemma after_recovery_holds:
  assumes "case x of (Inl e, t) \<Rightarrow> safe E e t | (Inr outcome, t) \<Rightarrow> recovered E j outcome t"
  shows "holds E (after_recovery x)"
proof (cases x)
  case (Pair r t)
  show ?thesis
  proof (cases r)
    case (Inr outcome)
    then show ?thesis using assms Pair by (cases outcome) (auto simp: after_recovery_def recovered_def dest: ended_loads)
  qed (use assms Pair in \<open>auto simp: after_recovery_def dest: safe_loads\<close>)
qed

lemma engine_step_holds:
  assumes "engine_step E s s'" "precedence_order (en_semver E)" "holds E s"
  shows "holds E s'"
  using assms
proof (induction rule: engine_step.induct)
  case (staged d stages)
  then show ?case by (simp add: loadable_stages)
next
  case (begun d ws installation stage candidate img random m)
  then show ?case using begin_mints [OF _ begun(1,2)] by simp
next
  case (journaled m io owner logon)
  then show ?case
    by (intro after_journal_holds [of E "revealed_journal owner logon m"] journal_attempt_runs) simp_all
next
  case (health a t io receipt)
  then obtain j where "awaits E j (aa_health_receipt_digest a) t" by auto
  from runsD [OF accept_health_runs [OF health(1), of _ a io receipt] this] show ?case
    by (auto simp: after_health_def split: sum.splits prod.splits dest: safe_loads)
next
  case (rolled_back a t io failure retirement)
  then obtain j where "awaits E j (aa_health_receipt_digest a) t" by auto
  from runsD [OF roll_back_runs [OF rolled_back(1), of _ _ io a failure retirement] this] show ?case
    by (simp add: left_loads)
next
  case (completed t io)
  then obtain j where "accepted E j t" by auto
  from runsD [OF complete_runs [OF completed(1), of _ io] this] show ?case
    by (simp add: left_loads)
next
  case (recovery d ri io installation retirement img random)
  then show ?case by (intro after_recovery_holds [OF recover_runs]) simp_all
next
  case (resumed d ri installation img random)
  then show ?case
    using resume_unlaunched_runs [OF resumed(2) _ resumed(1), of installation img random]
    by (auto simp: after_resume_def split: sum.splits prod.splits dest: safe_loads)
next
  case (stopped s)
  then show ?case using holds_loads by auto
qed

lemma engine_reaches_holds:
  assumes "(engine_step E)\<^sup>*\<^sup>* s s'" "precedence_order (en_semver E)" "holds E s"
  shows "holds E s'"
  using assms by (induction rule: rtranclp_induct) (auto intro: engine_step_holds)

section \<open>Recovery completes\<close>

text \<open>The records a recovery may have to write fit their encodings.\<close>

definition writable :: "'v Local \<Rightarrow> ActivationJournal \<Rightarrow> bool" where
  "writable L j =
     ((\<exists>bs. encode_pointer (lc_semver L) (lc_pointer L) PointPreviousKnownGood (aj_prior_last_known_good j) = Inr bs)
      \<and> (\<exists>bs. encode_pointer (lc_semver L) (lc_pointer L) PointLastKnownGood (aj_candidate j) = Inr bs)
      \<and> (\<exists>bs. encode_pointer (lc_semver L) (lc_pointer L) PointCurrent (aj_rollback_target j) = Inr bs))"

abbreviation works :: "nat \<Rightarrow> Answer" where
  "works \<equiv> \<lambda>_. Works"

lemma works_look: "look works f t = refaulted (f (tx_disk t)) (tick t)"
  by (simp add: look_def)

lemma works_perform: "perform works label f t = (Inr (), tick (change_disk f t))"
  by (simp add: perform_def)

lemma works_sweep: "fst (sweep_stages works ns t) = None"
  by (induction ns arbitrary: t) (simp_all split: option.splits)

lemma works_cleanup: "fst (cleanup works t) = None"
  by (simp add: cleanup_def remove_generated_leftovers_def works_sweep)

definition retiree_present :: "Tx \<Rightarrow> bool" where
  "retiree_present t =
     (case retirement_due (tx_journal t) (tx_slots t) of
        Some a \<Rightarrow> version_of (tx_disk t) (ai_version a) \<noteq> None | None \<Rightarrow> False)"

lemma works_once:
  assumes "\<And>loc. next_activation_step L (tx_journal t) (tx_slots t) loc (retiree_present t) = Inr next_step"
  shows "\<exists>c. advance_once L works t
    = take_step L works (retirement_due (tx_journal t) (tx_slots t)) next_step (t\<lparr> tx_clock := c \<rparr>)"
proof (cases "retirement_due (tx_journal t) (tx_slots t)")
  case None
  then show ?thesis using assms
    by (intro exI [of _ "Suc (tx_clock t)"])
      (simp add: advance_once_def bind_tx_def return_tx_def candidate_location_def version_present_def works_look refaulted_def
        tick_def retiree_present_def)
next
  case (Some a)
  then show ?thesis using assms
    by (intro exI [of _ "Suc (Suc (tx_clock t))"])
      (simp add: advance_once_def bind_tx_def candidate_location_def version_present_def works_look refaulted_def
        tick_def retiree_present_def)
qed

text \<open>What a recovery past the launch still has to do.\<close>

definition work :: "ActivationJournal \<Rightarrow> Disk \<Rightarrow> nat" where
  "work j d =
     (let there = \<lambda>a. of_bool (version_of d (ai_version a) \<noteq> None) in
      case aj_phase j of
        HealthAccepted _ \<Rightarrow>
          of_bool (ps_last_known_good d \<noteq> aj_candidate j)
          + of_bool (ps_last_known_good d \<noteq> aj_candidate j \<and> ps_previous_known_good d \<noteq> Some (aj_prior_last_known_good j))
          + (case aj_prior_previous_known_good j of None \<Rightarrow> 0 | Some a \<Rightarrow> there a)
      | _ \<Rightarrow> of_bool (ps_current d = aj_candidate j) + there (aj_candidate j))"

lemma work_bound: "work j d \<le> 3"
  by (simp add: work_def of_bool_def Let_def split: ActivationPhase.splits option.splits)

definition outcome_of :: "ActivationPhase \<Rightarrow> ActivationOutcome" where
  "outcome_of p = (case p of HealthAccepted _ \<Rightarrow> Committed | _ \<Rightarrow> RolledBack)"

definition moves :: "ActivationJournal \<Rightarrow> Disk \<Rightarrow> (UpdateError + Progress option) \<times> Tx \<Rightarrow> bool" where
  "moves j d x =
     (case x of
        (Inl _, _) \<Rightarrow> False
      | (Inr None, t) \<Rightarrow> tx_journal t = j \<and> work j (tx_disk t) < work j d
      | (Inr (Some ProgressAwaitingHealth), _) \<Rightarrow> False
      | (Inr (Some (ProgressResolved r)), _) \<Rightarrow> ar_outcome r = outcome_of (aj_phase j) \<and> ar_cleanup r = None)"

lemma works_remove:
  assumes "dk_journal (tx_disk t) \<noteq> None"
  shows "\<exists>t' cur. remove_journal_as works outcome t = (Inr \<lparr> ar_outcome = outcome, ar_current = cur, ar_cleanup = None \<rparr>, t')"
proof -
  obtain left t' where c: "cleanup works ((tick (change_disk (\<lambda>d. d\<lparr> dk_journal := None \<rparr>) t))\<lparr> tx_journaled := False \<rparr>) = (left, t')"
    by force
  then have "left = None" using works_cleanup by (metis fst_conv)
  with c assms show ?thesis by (auto simp: remove_journal_as_def bind_tx_def works_perform)
qed

lemma works_write:
  "encoded = Inr bs \<Longrightarrow> continue_tx (bind_tx (write_slot works encoded f) (\<lambda>_. slots_tx g)) t
    = (Inr None, (tick (change_disk f t))\<lparr> tx_slots := g (tx_slots t) \<rparr>)"
  by (simp add: continue_tx_def bind_tx_def write_slot_def refaulted_def works_perform slots_tx_def return_tx_def)

lemma works_retire:
  assumes "ai_version a \<notin> ai_version ` set (slot_artifacts (tx_slots t))" "version_of (tx_disk t) (ai_version a) \<noteq> None"
  shows "\<exists>t'. continue_tx (retire_version works a) t = (Inr None, t') \<and> tx_journal t' = tx_journal t
    \<and> tx_disk t' = drop_version (ai_version a) (tx_disk t)"
  using assms
  by (simp add: continue_tx_def retire_version_def retire_version_directory_def version_present_def bind_tx_def works_look refaulted_def
      works_perform return_tx_def)

lemma live_stands: "live E t \<Longrightarrow> stands (en_local E) (tx_journal t) (tx_slots t)"
  using same_slots_reads(1) [of "tx_slots t" "tx_disk t" "en_local E" "tx_journal t"] by (simp add: live_def underway_def)

lemma retiree_unselected:
  assumes "stands L j d" "journal_separates j" "retirement_due j d = Some a"
  shows "ai_version a \<notin> ai_version ` set (slot_artifacts d)"
proof -
  have "a \<notin> set (slot_artifacts d)"
  proof (cases "aj_phase j")
    case (HealthAccepted r)
    with assms show ?thesis
      by (auto simp: retirement_due_def stands_def slot_artifacts_set journal_separates_def Let_def split: if_splits)
  next
    case (RollbackPending f)
    with assms(3) have a: "a = aj_candidate j" "ps_current d = aj_rollback_target j" by (auto simp: retirement_due_def split: if_splits)
    have "prior_slots_match j d" using assms(1) RollbackPending by (simp add: stands_def)
    with a assms(2) show ?thesis
      by (cases "aj_prior_previous_known_good j")
        (auto simp: slot_artifacts_set prior_slots_match_def journal_separates_def Let_def)
  qed (use assms(3) in \<open>simp_all add: retirement_due_def\<close>)
  then show ?thesis
    using inj_on_image_mem_iff [OF journal_versions_inj [OF assms(2)] _ stands_slots(1) [OF assms(1)]]
      retirement_artifact [OF assms(3)] by blast
qed

lemma live_clock [simp]: "live E (t\<lparr> tx_clock := c \<rparr>) = live E t"
  by (simp add: live_def)

lemma works_remove_moves:
  assumes "live E t" "outcome = outcome_of (aj_phase (tx_journal t))" "(\<exists>r. aj_phase (tx_journal t) = HealthAccepted r) \<or> (\<exists>f. aj_phase (tx_journal t) = RollbackPending f)"
  shows "moves (tx_journal t) d (take_step L works retiree RemoveJournal t)"
proof -
  have "dk_journal (tx_disk t) \<noteq> None" using assms(1) by (simp add: live_def)
  from works_remove [OF this] obtain t' cur
    where "remove_journal_as works outcome t = (Inr \<lparr> ar_outcome = outcome, ar_current = cur, ar_cleanup = None \<rparr>, t')" by blast
  with assms(2,3) show ?thesis
    by (auto simp: take_step_def bind_tx_def remove_journal_def return_tx_def moves_def outcome_of_def)
qed

lemma works_retire_moves:
  assumes "precedence_order (en_semver E)" "live E t" "retirement_due (tx_journal t) (tx_slots t) = Some a" "retiree_present t"
  shows "moves (tx_journal t) (tx_disk t) (take_step L works (Some a) RetireVersion t)"
proof -
  let ?j = "tx_journal t" let ?d = "tx_disk t"
  have due: "retirement_due ?j ?d = Some a"
    using stands_atD(3) [OF live_stands_at [OF assms(2)]] assms(3) by simp
  have st: "stands (en_local E) ?j ?d" using assms(2) by (simp add: live_def underway_def)
  have "journal_separates ?j" using live_separates [OF assms(1,2)] .
  from retiree_unselected [OF st this due] have "ai_version a \<notin> ai_version ` set (slot_artifacts ?d)" .
  moreover have "set (slot_artifacts (tx_slots t)) = set (slot_artifacts ?d)"
    using assms(2) by (intro same_slots_reads(5)) (simp add: live_def)
  ultimately obtain t' where t': "continue_tx (retire_version works a) t = (Inr None, t')" "tx_journal t' = ?j"
      "tx_disk t' = drop_version (ai_version a) ?d"
    using works_retire [of a t] assms(3,4) by (auto simp: retiree_present_def)
  have "version_of ?d (ai_version a) \<noteq> None" using assms(3,4) by (simp add: retiree_present_def)
  then have "work ?j (drop_version (ai_version a) ?d) < work ?j ?d"
    using due by (auto simp: work_def retirement_due_def Let_def split: ActivationPhase.splits if_splits)
  with t' show ?thesis by (simp add: take_step_def moves_def)
qed

lemma works_moves_accepted:
  assumes "precedence_order (en_semver E)" "live E t" "writable (en_local E) (tx_journal t)" "aj_phase (tx_journal t) = HealthAccepted r"
  shows "moves (tx_journal t) (tx_disk t) (advance_once (en_local E) works t)"
proof -
  let ?j = "tx_journal t" let ?d = "tx_disk t" let ?s = "tx_slots t"
  have same: "ps_last_known_good ?s = ps_last_known_good ?d" "ps_previous_known_good ?s = ps_previous_known_good ?d"
    using assms(2) by (simp_all add: live_def same_slots_def)
  have "stands (en_local E) ?j ?s" using live_stands [OF assms(2)] .
  then have decision: "classify_protected_recovery_state (en_local E) ?j ?s = FinishCommit"
    using assms(4) by (simp add: stands_def classify_protected_recovery_state_def)
  obtain b1 b2 where enc: "encode_pointer (en_semver E) (lc_pointer (en_local E)) PointPreviousKnownGood (aj_prior_last_known_good ?j) = Inr b1"
      "encode_pointer (en_semver E) (lc_pointer (en_local E)) PointLastKnownGood (aj_candidate ?j) = Inr b2"
    using assms(3) by (auto simp: writable_def)
  define step where "step = (if ps_last_known_good ?s = aj_candidate ?j
      then if retirement_due ?j ?s \<noteq> None \<and> retiree_present t then RetireVersion else RemoveJournal
      else if ps_previous_known_good ?s = Some (aj_prior_last_known_good ?j) then CommitCandidate else PreservePriorKnownGood)"
  have "next_activation_step (en_local E) ?j ?s loc (retiree_present t) = Inr step" for loc
    by (simp add: next_activation_step_def decision step_def)
  from works_once [OF this] obtain c where
    adv: "advance_once (en_local E) works t = take_step (en_local E) works (retirement_due ?j ?s) step (t\<lparr> tx_clock := c \<rparr>)" ..
  let ?t = "t\<lparr> tx_clock := c \<rparr>"
  consider "step = RetireVersion" "retirement_due ?j ?s \<noteq> None" "retiree_present t" | "step = RemoveJournal"
    | "step = CommitCandidate" "ps_last_known_good ?d \<noteq> aj_candidate ?j" "ps_previous_known_good ?d = Some (aj_prior_last_known_good ?j)"
    | "step = PreservePriorKnownGood" "ps_last_known_good ?d \<noteq> aj_candidate ?j" "ps_previous_known_good ?d \<noteq> Some (aj_prior_last_known_good ?j)"
    unfolding step_def same
    by (cases "ps_last_known_good ?d = aj_candidate ?j"; cases "ps_previous_known_good ?d = Some (aj_prior_last_known_good ?j)";
        cases "retirement_due ?j ?s \<noteq> None \<and> retiree_present t") (simp_all only: if_True if_False simp_thms)
  then show ?thesis
    unfolding adv
  proof cases
    case 1
    then show "moves ?j ?d (take_step (en_local E) works (retirement_due ?j ?s) step ?t)"
      using works_retire_moves [OF assms(1), of ?t _ "en_local E"] assms(2) by (auto simp: retiree_present_def)
  next
    case 2
    then show "moves ?j ?d (take_step (en_local E) works (retirement_due ?j ?s) step ?t)"
      using works_remove_moves [of E ?t _ _ "en_local E"] assms(2,4) by simp
  next
    case 3
    have "work ?j (?d\<lparr> ps_last_known_good := aj_candidate ?j \<rparr>) < work ?j ?d"
      using 3 assms(4) by (simp add: work_def version_of_def)
    then show "moves ?j ?d (take_step (en_local E) works (retirement_due ?j ?s) step ?t)"
      using 3 enc by (simp add: take_step_def Let_def continue_tx_def bind_tx_def pointer_writes write_slot_def refaulted_def works_perform
          slots_tx_def return_tx_def moves_def)
  next
    case 4
    have "work ?j (?d\<lparr> ps_previous_known_good := Some (aj_prior_last_known_good ?j) \<rparr>) < work ?j ?d"
      using 4 assms(4) by (simp add: work_def version_of_def)
    then show "moves ?j ?d (take_step (en_local E) works (retirement_due ?j ?s) step ?t)"
      using 4 enc pointer_writes(3) [of E ?t "en_local E"] assms(2)
      by (simp add: take_step_def Let_def continue_tx_def bind_tx_def write_slot_def refaulted_def works_perform
          slots_tx_def return_tx_def moves_def)
  qed
qed

lemma works_moves_rollback:
  assumes "precedence_order (en_semver E)" "live E t" "writable (en_local E) (tx_journal t)" "aj_phase (tx_journal t) = RollbackPending f"
  shows "moves (tx_journal t) (tx_disk t) (advance_once (en_local E) works t)"
proof -
  let ?j = "tx_journal t" let ?d = "tx_disk t" let ?s = "tx_slots t"
  have same: "ps_current ?s = ps_current ?d" using assms(2) by (simp add: live_def same_slots_def)
  have "stands (en_local E) ?j ?s" using live_stands [OF assms(2)] .
  then have decision: "classify_protected_recovery_state (en_local E) ?j ?s = FinishRollback (aj_rollback_target ?j)"
    using assms(4) by (auto simp: stands_def classify_protected_recovery_state_def)
  obtain b where enc: "encode_pointer (en_semver E) (lc_pointer (en_local E)) PointCurrent (aj_rollback_target ?j) = Inr b"
    using assms(3) by (auto simp: writable_def)
  have apart: "aj_rollback_target ?j \<noteq> aj_candidate ?j"
    using live_separates [OF assms(1,2)] by (auto simp: journal_separates_def Let_def)
  define step where "step = (if ps_current ?s = aj_candidate ?j then RestoreRollbackTarget
      else if retirement_due ?j ?s \<noteq> None \<and> retiree_present t then RetireVersion else RemoveJournal)"
  have "next_activation_step (en_local E) ?j ?s loc (retiree_present t) = Inr step" for loc
    by (simp add: next_activation_step_def decision step_def)
  from works_once [OF this] obtain c where
    adv: "advance_once (en_local E) works t = take_step (en_local E) works (retirement_due ?j ?s) step (t\<lparr> tx_clock := c \<rparr>)" ..
  let ?t = "t\<lparr> tx_clock := c \<rparr>"
  consider "step = RetireVersion" "retirement_due ?j ?s \<noteq> None" "retiree_present t" | "step = RemoveJournal"
    | "step = RestoreRollbackTarget" "ps_current ?d = aj_candidate ?j"
    unfolding step_def same
    by (cases "ps_current ?d = aj_candidate ?j"; cases "retirement_due ?j ?s \<noteq> None \<and> retiree_present t")
      (simp_all only: if_True if_False simp_thms)
  then show ?thesis
    unfolding adv
  proof cases
    case 1
    then show "moves ?j ?d (take_step (en_local E) works (retirement_due ?j ?s) step ?t)"
      using works_retire_moves [OF assms(1), of ?t _ "en_local E"] assms(2) by (auto simp: retiree_present_def)
  next
    case 2
    then show "moves ?j ?d (take_step (en_local E) works (retirement_due ?j ?s) step ?t)"
      using works_remove_moves [of E ?t _ _ "en_local E"] assms(2,4) by simp
  next
    case 3
    have "work ?j (?d\<lparr> ps_current := aj_rollback_target ?j \<rparr>) < work ?j ?d"
      using 3 assms(4) apart by (simp add: work_def version_of_def)
    then show "moves ?j ?d (take_step (en_local E) works (retirement_due ?j ?s) step ?t)"
      using 3 enc by (simp add: take_step_def Let_def continue_tx_def bind_tx_def pointer_writes write_slot_def refaulted_def works_perform
          slots_tx_def return_tx_def moves_def)
  qed
qed

lemma works_advance:
  assumes "precedence_order (en_semver E)" "live E t" "tx_journal t = j" "writable (en_local E) j"
    and "(\<exists>r. aj_phase j = HealthAccepted r) \<or> (\<exists>f. aj_phase j = RollbackPending f)" "work j (tx_disk t) < n"
  shows "\<exists>r t'. advance (en_local E) works n t = (Inr (ProgressResolved r), t')
    \<and> ar_outcome r = outcome_of (aj_phase j) \<and> ar_cleanup r = None"
  using assms(2,3,6)
proof (induction n arbitrary: t)
  case (Suc n)
  have once: "moves j (tx_disk t) (advance_once (en_local E) works t)"
    using works_moves_accepted [OF assms(1) Suc.prems(1)] works_moves_rollback [OF assms(1) Suc.prems(1)] assms(4,5) Suc.prems(2) by auto
  have left: "case advance_once (en_local E) works t of (Inl e, t') \<Rightarrow> safe E e t' | (Inr p, t') \<Rightarrow> stepped E (attempt_of t) p t'"
    by (rule engine_runsD [OF advance_once_runs [OF assms(1)] Suc.prems(1) refl])
  obtain x t' where ran: "advance_once (en_local E) works t = (x, t')" by force
  obtain p where p: "x = Inr p" using once ran by (cases x) (simp_all add: moves_def)
  show ?case
  proof (cases p)
    case None
    have "live E t'" "tx_journal t' = j" "work j (tx_disk t') < n"
      using once left ran p None Suc.prems(3) by (auto simp: moves_def stepped_def)
    from Suc.IH [OF this] show ?thesis using ran p None by simp
  next
    case (Some q)
    then show ?thesis using once ran p by (cases q) (simp_all add: moves_def)
  qed
qed simp

lemma works_resolution:
  assumes "precedence_order (en_semver E)" "live E t" "writable (en_local E) (tx_journal t)"
    and "(\<exists>r. aj_phase (tx_journal t) = HealthAccepted r) \<or> (\<exists>f. aj_phase (tx_journal t) = RollbackPending f)"
  shows "\<exists>r t'. run_to_resolution (en_local E) works t = (Inr r, t')
    \<and> ar_outcome r = outcome_of (aj_phase (tx_journal t)) \<and> ar_cleanup r = None"
  using works_advance [OF assms(1,2) refl assms(3,4), of MAX_STEPS_PER_RUN] work_bound [of "tx_journal t" "tx_disk t"]
  by (auto simp: run_to_resolution_def bind_tx_def return_tx_def MAX_STEPS_PER_RUN_def)

lemma works_recovery:
  assumes order: "precedence_order (en_semver E)" and t: "live E t" "tx_journal t = j" and w: "writable (en_local E) j"
    and journal: "encode_activation_journal (en_semver E) (lc_journal (en_local E)) (j\<lparr> aj_phase := RollbackPending ProcessCrash \<rparr>) = Inr bs"
    and phase: "aj_phase j \<noteq> PublishPending"
  shows "\<exists>r t'. resume_or_resolve (en_local E) works installation random t = (Inr (RecoveryResolved r), t')
    \<and> ar_outcome r = outcome_of (aj_phase j) \<and> ar_cleanup r = None"
proof (cases "aj_phase j = AwaitingHealth")
  case True
  let ?j = "j\<lparr> aj_phase := RollbackPending ProcessCrash \<rparr>"
  have "case write_phase (en_local E) works (RollbackPending ProcessCrash) (tick t) of (Inl e, t') \<Rightarrow> safe E e t'
      | (Inr _, t') \<Rightarrow> live E t' \<and> tx_journal t' = ?j"
    by (rule engine_runsD [OF leave_health_runs [OF order True]]) (use t in simp_all)
  moreover have "\<exists>t'. write_phase (en_local E) works (RollbackPending ProcessCrash) (tick t) = (Inr (), t')"
    using t journal by (simp add: write_phase_def write_journal_def write_slot_def bind_tx_def refaulted_def works_perform)
  ultimately obtain t' where t': "write_phase (en_local E) works (RollbackPending ProcessCrash) (tick t) = (Inr (), t')"
      "live E t'" "tx_journal t' = ?j"
    by auto
  have "writable (en_local E) (tx_journal t')" using w by (simp add: t'(3) writable_def)
  from works_resolution [OF order t'(2) this] t'(3) obtain r t''
    where "run_to_resolution (en_local E) works t' = (Inr r, t'')" "ar_outcome r = RolledBack" "ar_cleanup r = None"
    by (auto simp: outcome_of_def)
  then show ?thesis
    using t True t'(1) by (simp add: resume_or_resolve_def bind_tx_def works_look refaulted_def return_tx_def outcome_of_def)
next
  case False
  then have "(\<exists>r. aj_phase j = HealthAccepted r) \<or> (\<exists>f. aj_phase j = RollbackPending f)"
    using phase by (cases "aj_phase j") simp_all
  with works_resolution [OF order, of "tick t"] t w obtain r t'
    where "run_to_resolution (en_local E) works (tick t) = (Inr r, t')" "ar_outcome r = outcome_of (aj_phase j)" "ar_cleanup r = None"
    by auto
  then show ?thesis
    using t False phase by (simp add: resume_or_resolve_def bind_tx_def works_look refaulted_def return_tx_def)
qed

section \<open>Records an attempt leaves alone\<close>

text \<open>What the journal says the attempt found; no operation rewrites it.\<close>

definition found_of :: "ActivationJournal \<Rightarrow> ArtifactIdentity \<times> string \<times> ArtifactIdentity \<times> ArtifactIdentity option" where
  "found_of j = (aj_rollback_target j, aj_prior_floor j, aj_prior_last_known_good j, aj_prior_previous_known_good j)"

lemma as_found_of: "found_of j = found_of j' \<Longrightarrow> as_found j d = as_found j' d"
  by (simp add: found_of_def as_found_def prior_slots_match_def)

lemma found_of_phase [simp]: "found_of (j\<lparr> aj_phase := p \<rparr>) = found_of j"
  by (simp add: found_of_def)

definition finds :: "'a tx \<Rightarrow> bool" where
  "finds m = (\<forall>t. found_of (tx_journal (snd (m t))) = found_of (tx_journal t))"

lemma keeps_finds: "keeps m \<Longrightarrow> finds m"
  by (simp add: keeps_def finds_def)

lemma finds_bind: "finds m \<Longrightarrow> (\<And>a. finds (k a)) \<Longrightarrow> finds (bind_tx m k)"
  unfolding finds_def
proof
  fix t assume m: "\<forall>t. found_of (tx_journal (snd (m t))) = found_of (tx_journal t)"
    "\<And>a. \<forall>t. found_of (tx_journal (snd (k a t))) = found_of (tx_journal t)"
  obtain r t' where ran: "m t = (r, t')" by force
  then have "found_of (tx_journal t') = found_of (tx_journal t)" using m(1) by (metis snd_conv)
  with ran m(2) show "found_of (tx_journal (snd (bind_tx m k t))) = found_of (tx_journal t)" by (cases r) (simp_all add: bind_tx_def)
qed

lemma keeps_slot_write: "keeps (write_slot io encoded f)"
  unfolding write_slot_def by (intro keeps_intros)

lemma finds_phase: "finds (write_phase L io p)"
proof -
  have "found_of (tx_journal (snd (bind_tx (write_slot io encoded f) (\<lambda>_ t. (Inr (), t\<lparr> tx_journal := j \<rparr>)) t))) = found_of (tx_journal t)"
    if "found_of j = found_of (tx_journal t)" for j t encoded f
  proof (cases "write_slot io encoded f t")
    case (Pair r t')
    then show ?thesis using keeps_at [OF keeps_slot_write, of io encoded f t] that by (cases r) (simp_all add: bind_tx_def)
  qed
  then show ?thesis by (simp add: finds_def write_phase_def write_journal_def)
qed

lemma finds_take_step: "finds (take_step L io retiree next_step)"
proof -
  have slot: "finds (continue_tx (bind_tx (write_slot io encoded f) (\<lambda>_. slots_tx g)))" for encoded f g
    unfolding continue_tx_def by (intro keeps_finds keeps_intros keeps_slot_write)
  have floor: "finds (continue_tx (bind_tx (ensure_candidate_pinned io) (\<lambda>_. bind_tx (write_slot io encoded f) (\<lambda>_. slots_tx g))))" for encoded f g
    unfolding continue_tx_def by (intro keeps_finds keeps_intros keeps_slot_write keeps_pinned)
  have version: "finds (continue_tx (publish_candidate io))" "finds (continue_tx (retire_version io a))" for a
    unfolding continue_tx_def by (intro keeps_finds keeps_intros keeps_publish keeps_retire)+
  have journal: "keeps (bind_tx (remove_journal_as io outcome) (\<lambda>r. return_tx (Some (ProgressResolved r))))" for outcome
    by (intro keeps_intros keeps_remove)
  have removal: "keeps (remove_journal io)"
    using keeps_at [OF keeps_remove] by (simp add: keeps_def remove_journal_def keeps_basic_at split: ActivationPhase.splits)
  have remove: "keeps (bind_tx (remove_journal io) (\<lambda>r. return_tx (Some (ProgressResolved r))))"
    by (intro keeps_intros removal)
  have phase: "finds (continue_tx (write_phase L io p))" for p
    unfolding continue_tx_def by (intro finds_bind finds_phase keeps_finds keeps_basic)
  have pointer: "keeps (write_pointer L io kind a)" for kind a
  proof -
    have "keeps (bind_tx (refaulted encoded) (\<lambda>_. refuse_tx s :: unit tx))" for encoded :: "UpdateError + bytes" and s
      by (intro keeps_intros)
    then show ?thesis
      using keeps_at [OF keeps_slot_write] by (cases kind) (simp_all add: keeps_def write_pointer_def Let_def)
  qed
  have point: "finds (continue_tx (bind_tx (write_pointer L io kind a) (\<lambda>_. slots_tx g)))" for kind a g
    unfolding continue_tx_def by (intro keeps_finds keeps_intros pointer)
  show ?thesis
    using slot floor version point phase keeps_finds [OF journal] keeps_finds [OF remove]
    by (cases next_step; cases retiree) (simp_all add: finds_def take_step_def Let_def keeps_basic_at)
qed

lemma finds_advance: "finds (advance L io n)"
proof (induction n)
  case 0
  have "finds (refuse_tx ''state'' :: Progress tx)" by (intro keeps_finds keeps_basic)
  then show ?case by (simp add: finds_def)
next
  case (Suc n)
  have "finds (advance_once L io)"
  proof -
    have located: "keeps (candidate_location io)"
      using location_frame by (auto simp: keeps_def) (metis prod.collapse)
    have next_step: "finds (\<lambda>t. case next_activation_step L (tx_journal t) (tx_slots t) candidate present of
        Inl _ \<Rightarrow> refuse_tx ''state'' t | Inr next_step \<Rightarrow> take_step L io retiree next_step t)" for candidate present retiree
      using finds_take_step [of L io retiree] by (auto simp: finds_def refuse_tx_def split: sum.splits)
    have there: "keeps (case retiree of Some a \<Rightarrow> version_present io (ai_version a) | None \<Rightarrow> return_tx False)" for retiree
      by (cases retiree) (simp_all add: version_present_def keeps_basic)
    have "finds (bind_tx (case retiree of Some a \<Rightarrow> version_present io (ai_version a) | None \<Rightarrow> return_tx False) (\<lambda>present.
        bind_tx (candidate_location io) (\<lambda>candidate t. case next_activation_step L (tx_journal t) (tx_slots t) candidate present of
          Inl _ \<Rightarrow> refuse_tx ''state'' t | Inr next_step \<Rightarrow> take_step L io retiree next_step t)))" for retiree
      by (intro finds_bind keeps_finds [OF there] keeps_finds [OF located] next_step)
    then show ?thesis by (simp add: finds_def advance_once_def Let_def)
  qed
  then have "finds (bind_tx (advance_once L io) (\<lambda>p. case p of None \<Rightarrow> advance L io n | Some p \<Rightarrow> return_tx p))"
    using Suc keeps_finds [OF keeps_basic(1)] by (intro finds_bind) (auto split: option.splits)
  moreover have "advance L io (Suc n) t = bind_tx (advance_once L io) (\<lambda>p. case p of None \<Rightarrow> advance L io n | Some p \<Rightarrow> return_tx p) t" for t
    by (auto simp: bind_tx_def return_tx_def split: prod.splits sum.splits option.splits)
  ultimately show ?case by (simp add: finds_def)
qed

lemma finds_run_attempt: "finds (run_attempt L io reminted installation)"
proof -
  have "keeps (awaiting_health L installation)"
  proof -
    have "keeps (bind_tx (refaulted r) (\<lambda>digest. return_tx (f digest)))" for r :: "UpdateError + Digest" and f :: "Digest \<Rightarrow> ActivationAttempt"
      by (intro keeps_intros)
    note bound = keeps_at [OF this]
    show ?thesis by (simp add: keeps_def awaiting_health_def bound)
  qed
  then have "keeps (bind_tx (awaiting_health L installation) (\<lambda>a. return_tx (JournaledAwaitingHealth a)))" by (intro keeps_intros)
  then have "finds (case p of
      ProgressAwaitingHealth \<Rightarrow> bind_tx (awaiting_health L installation) (\<lambda>a. return_tx (JournaledAwaitingHealth a))
    | ProgressResolved r \<Rightarrow> if reminted then return_tx (JournaledResolved r) else refuse_tx ''start'')" for p
    by (cases p) (simp_all add: keeps_finds keeps_basic)
  then show ?thesis unfolding run_attempt_def by (intro finds_bind finds_advance)
qed

lemma found_revealed [simp]: "found_of (revealed_journal owner logon m) = found_of (tx_journal (ma_transaction m))"
  by (simp add: found_of_def)

lemma finds_reveal:
  assumes "found_of j = found_of (tx_journal t)"
  shows "found_of (tx_journal (snd (reveal io reminted j t))) = found_of (tx_journal t)"
proof -
  have written: "found_of (tx_journal (snd (bind_tx (perform io label f) (\<lambda>_ t. (Inr (), t\<lparr> tx_journal := j \<rparr>)) t))) = found_of (tx_journal t)" for label f
    using assms by (cases "io (tx_clock t)") (simp_all add: bind_tx_def perform_def)
  show ?thesis
  proof (cases reminted)
    case True
    then show ?thesis by (simp add: reveal_def written)
  next
    case False
    let ?first = "(if dk_journal (tx_disk t) \<noteq> None then refuse_tx ''record publication''
        else perform io (\<lambda>s. s) (\<lambda>d. d\<lparr> dk_journal := Some j \<rparr>)) (t\<lparr> tx_journal := j \<rparr>)"
    obtain r t' where first: "?first = (r, t')" by force
    have "tx_journal (snd ?first) = j" by (simp add: keeps_basic_at)
    then have "tx_journal t' = j" by (simp only: first snd_conv)
    with first False assms show ?thesis by (cases r) (simp_all add: reveal_def Let_def)
  qed
qed

lemma journal_attempt_found:
  "found_of (tx_journal (snd (journal_attempt L io owner logon m))) = found_of (tx_journal (ma_transaction m))"
proof -
  let ?t = "tick (ma_transaction m)" let ?r = "ma_reminted m \<noteq> None" let ?j = "revealed_journal owner logon m"
  obtain r t' where ran: "reveal io ?r ?j ?t = (r, t')" by force
  have "found_of (tx_journal t') = found_of (tx_journal (ma_transaction m))"
    using finds_reveal [of ?j ?t io ?r] ran by simp
  then have "found_of (tx_journal (snd (bind_tx (reveal io ?r ?j) (\<lambda>_. run_attempt L io ?r (ma_installation_id m)) ?t)))
      = found_of (tx_journal (ma_transaction m))"
    using ran finds_run_attempt [of L io ?r "ma_installation_id m"] by (cases r) (simp_all add: bind_tx_def finds_def)
  then show ?thesis
    by (cases "encode_activation_journal (lc_semver L) (lc_journal L) ?j"; cases "stale_preparations_removed io (ma_transaction m)")
      (simp_all only: journal_attempt_unfold Let_def sum.case snd_conv tick_simps)
qed

section \<open>What the engine guarantees\<close>

lemma loads_floor:
  assumes "loads E d"
  shows "\<exists>v. sv_parse (en_semver E) (ps_version_floor d) = Some v"
proof (cases "dk_journal d")
  case None
  with assms obtain ws where "write_snapshot E d = Inr ws" by (auto simp: loads_def)
  then show ?thesis
    by (cases "sv_parse (en_semver E) (ps_version_floor d)")
      (auto simp: write_snapshot_def load_activation_write_snapshot_def Let_def and_then_eq_Inr split: if_splits)
next
  case (Some j)
  with assms show ?thesis by (auto simp: loads_def inspection_Inr [OF Some])
qed

lemma seen_simps [simp]:
  "loads (E\<lparr> en_seen := f \<rparr>) d = loads E d" "at_most (E\<lparr> en_seen := f \<rparr>) a b = at_most E a b"
  "write_snapshot (E\<lparr> en_seen := f \<rparr>) d = write_snapshot E d" "inspection (E\<lparr> en_seen := f \<rparr>) d = inspection E d"
  by (simp_all add: loads_def at_most_def write_snapshot_def inspection_def split: option.splits)

lemma seen_loadable:
  assumes "precedence_order (en_semver E)" "loads E d"
  shows "loadable (E\<lparr> en_seen := ps_version_floor d \<rparr>) d"
  using assms loads_floor [OF assms(2)] at_most_refl [OF assms(1)] by (auto simp: loadable_def)

lemma seen_step: "engine_step E s s' \<Longrightarrow> engine_step (E\<lparr> en_seen := f \<rparr>) s s'"
proof (induction rule: engine_step.induct)
  case (begun d ws installation stage candidate img random m)
  then show ?case using engine_step.begun [of "E\<lparr> en_seen := f \<rparr>" d ws installation stage candidate img random m] by simp
next
  case (journaled m io owner logon)
  then show ?case using engine_step.journaled [of "E\<lparr> en_seen := f \<rparr>" m io owner logon] by simp
next
  case (health a t io receipt)
  then show ?case using engine_step.health [of "E\<lparr> en_seen := f \<rparr>" a t io receipt] by simp
next
  case (rolled_back a t io failure retirement)
  then show ?case using engine_step.rolled_back [of "E\<lparr> en_seen := f \<rparr>" a t io failure retirement] by simp
next
  case (completed t io)
  then show ?case using engine_step.completed [of "E\<lparr> en_seen := f \<rparr>" t io] by simp
next
  case (recovery d ri io installation retirement img random)
  then show ?case using engine_step.recovery [of "E\<lparr> en_seen := f \<rparr>" d ri io installation retirement img random] by simp
qed (auto intro: engine_step.intros)

text \<open>
  C1. Crash safety of update activation. From a disk its loader accepts, through any sequence of
  staged downloads, attempt starts, health decisions, rollbacks, completions and recoveries, each
  under any pattern of file faults, and with the process stopped after any of them, the disk is again
  one the loader its state calls for accepts: the writer's loader when no journal is there and the
  recovery inspection when one is. The trusted version floor never goes down on the way.
\<close>

theorem engine_crash_safe:
  assumes "precedence_order (en_semver E)" "loads E d" "(engine_step E)\<^sup>*\<^sup>* (AtRest d) s"
  shows "loads E (disk_of s) \<and> at_most E (ps_version_floor d) (ps_version_floor (disk_of s))"
proof -
  let ?E = "E\<lparr> en_seen := ps_version_floor d \<rparr>"
  have "(engine_step ?E)\<^sup>*\<^sup>* (AtRest d) s"
    using assms(3) by (induction rule: rtranclp_induct) (auto intro: rtranclp.rtrancl_into_rtrancl seen_step)
  moreover have "holds ?E (AtRest d)" using seen_loadable [OF assms(1,2)] by simp
  ultimately have "holds ?E s" using engine_reaches_holds [of ?E] assms(1) by simp
  then have "loadable ?E (disk_of s)" using holds_loads [of ?E s] assms(1) by simp
  then show ?thesis by (simp add: loadable_def)
qed

lemma fresh_unresolved:
  assumes "ma_reminted m = None"
  shows "fst (journal_attempt L io owner logon m) \<noteq> Inr (JournaledResolved r)"
proof
  assume "fst (journal_attempt L io owner logon m) = Inr (JournaledResolved r)"
  then obtain t where "journal_attempt L io owner logon m = (Inr (JournaledResolved r), t)" by (metis prod.collapse)
  then show False
    using assms
    by (auto simp: journal_attempt_unfold run_attempt_def Let_def bind_tx_Inr return_tx_def refuse_tx_def
        split: sum.splits Progress.splits) (metis Progress.exhaust)
qed

lemma begin_fields:
  assumes "begin_activation L baseline d ws installation stage candidate img random = Inr m"
  shows "ma_reminted m = None" "aj_candidate (tx_journal (ma_transaction m)) = candidate"
  using assms by (auto simp: begin_activation_def Let_def and_then_eq_Inr split: sum.splits if_splits prod.splits)

lemma awaits_disk:
  assumes "precedence_order (en_semver E)" "awaits E j receipt t"
  shows "dk_journal (tx_disk t) = Some (j\<lparr> aj_phase := AwaitingHealth \<rparr>)" "ps_current (tx_disk t) = aj_candidate j"
    "ps_version_floor (tx_disk t) = ai_version (aj_candidate j)" "prior_slots_match j (tx_disk t)"
    "verify_published_version (tx_disk t) (aj_candidate j) = Inr ()"
    "journal_receipt (en_local E) (j\<lparr> aj_phase := AwaitingHealth \<rparr>) = Inr receipt"
proof -
  let ?j = "j\<lparr> aj_phase := AwaitingHealth \<rparr>"
  have t: "live E t" "tx_journal t = ?j" "journal_receipt (en_local E) ?j = Inr receipt" using assms(2) by (auto simp: awaits_def)
  note at = awaiting_stands [OF t(1), unfolded t(2)]
  show "dk_journal (tx_disk t) = Some ?j" "journal_receipt (en_local E) ?j = Inr receipt" using t by (simp_all add: live_def)
  show "ps_current (tx_disk t) = aj_candidate j" "ps_version_floor (tx_disk t) = ai_version (aj_candidate j)"
      "prior_slots_match j (tx_disk t)"
    using at by (simp_all add: prior_slots_match_def)
  have "aj_candidate j \<in> journal_artifacts ?j - excluded ?j (tx_disk t)"
    by (simp add: journal_artifacts_def excluded_def retirement_due_def unpublished_candidate_def)
  then show "verify_published_version (tx_disk t) (aj_candidate j) = Inr ()"
    using at(1) by (simp add: underway_def sound_def)
qed

text \<open>
  C3. Exact start of an attempt. An attempt begun on a disk at rest either awaits health, with its journal on
  disk, the candidate published, verified, selected as current and trusted as the floor and the known-good
  records untouched, or it is refused. A refusal leaves a disk that loads; one that reports the
  protected state unchanged leaves no journal and every record as it was before the attempt.
\<close>

theorem activation_start_exact:
  assumes "precedence_order (en_semver E)" "write_snapshot E d = Inr ws"
    and "begin_activation (en_local E) (en_baseline E) d ws installation stage candidate img random = Inr m"
  shows "case journal_attempt (en_local E) io owner logon m of
      (Inl e, t) \<Rightarrow> loads E (tx_disk t) \<and> (\<exists>step effect. e = Activation step effect
        \<and> (effect = ProtectedStateUnchanged \<longrightarrow> dk_journal (tx_disk t) = None \<and> same_slots (tx_disk t) d))
    | (Inr (JournaledAwaitingHealth a), t) \<Rightarrow>
        let j = (revealed_journal owner logon m)\<lparr> aj_phase := AwaitingHealth \<rparr> in
        loads E (tx_disk t) \<and> dk_journal (tx_disk t) = Some j
        \<and> ps_current (tx_disk t) = candidate \<and> ps_version_floor (tx_disk t) = ai_version candidate
        \<and> verify_published_version (tx_disk t) candidate = Inr ()
        \<and> ps_last_known_good (tx_disk t) = ps_last_known_good d \<and> ps_previous_known_good (tx_disk t) = ps_previous_known_good d
        \<and> journal_receipt (en_local E) j = Inr (aa_health_receipt_digest a)
    | (Inr (JournaledResolved _), _) \<Rightarrow> False"
proof -
  let ?E = "E\<lparr> en_seen := ps_version_floor d \<rparr>" let ?j = "revealed_journal owner logon m"
  have journal: "dk_journal d = None"
    using assms(2) by (auto simp: write_snapshot_def load_activation_write_snapshot_def Let_def split: if_splits)
  then have "loads E d" using assms(2) by (simp add: loads_def)
  note seen = seen_loadable [OF assms(1) this]
  have m: "minted ?E m" "tx_disk (ma_transaction m) = d" using begin_mints [OF seen, of ws] assms(2,3) by simp_all
  note fields = begin_fields [OF assms(3)]
  have start: "aj_rollback_target ?j = ps_current d" "aj_prior_floor ?j = ps_version_floor d"
      "aj_prior_last_known_good ?j = ps_last_known_good d" "aj_prior_previous_known_good ?j = ps_previous_known_good d"
      "aj_candidate ?j = candidate"
    using m fields by (simp_all add: minted_def Let_def)
  obtain r t where ran: "journal_attempt (en_local E) io owner logon m = (r, t)" by force
  have left: "case (r, t) of (Inl e, t) \<Rightarrow> safe ?E e t | (Inr outcome, t) \<Rightarrow> journaled ?E ?j outcome t"
    using journal_attempt_runs [where E = ?E and m = m and io = io and owner = owner and logon = logon] assms(1) m(1) ran by simp
  have found: "found_of (tx_journal t) = found_of ?j" using journal_attempt_found [of "en_local E" io owner logon m] ran by simp
  have restored: "same_slots d' d" if "as_found (tx_journal t) d'" for d'
    using that as_found_of [OF found, of d'] start by (simp add: as_found_def same_slots_def prior_slots_match_def)
  show ?thesis
  proof (cases r)
    case (Inl e)
    then show ?thesis using left ran restored by (auto simp: safe_def loadable_def)
  next
    case (Inr outcome)
    show ?thesis
    proof (cases outcome)
      case (JournaledAwaitingHealth a)
      with Inr left have at: "awaits ?E ?j (aa_health_receipt_digest a) t" by (simp add: journaled_def)
      have "loadable ?E (tx_disk t)" using at live_loads [of ?E t] assms(1) by (simp add: awaits_def)
      then show ?thesis
        using awaits_disk [OF _ at] assms(1) ran Inr JournaledAwaitingHealth start
        by (simp add: loadable_def prior_slots_match_def Let_def)
    next
      case (JournaledResolved res)
      then show ?thesis using fresh_unresolved [OF fields(1), of "en_local E" io owner logon res] ran Inr by simp
    qed
  qed
qed

lemma reminted_as_found:
  assumes "recover L io d ri installation retirement img random = (Inr (Reminted m), t)"
  shows "aj_phase (ri_journal ri) = PublishPending" "ma_transaction m = recovering d ri"
proof -
  have into: "t0 = recovering d ri" if "into_transaction d ri img = (Inr u, t0)" for u t0
    using that by (auto simp: into_transaction_def Let_def bind_tx_Inr refaulted_def refuse_tx_def recovering_def
        split: sum.splits if_splits)
  from assms obtain u t0 t1 where ran: "into_transaction d ri img = (Inr u, t0)"
      "require_retirement_binding retirement installation t0 = (Inr (), t1)"
      "resume_or_resolve L io installation random t1 = (Inr (Reminted m), t)"
    by (auto simp: recover_def bind_tx_Inr split: prod.splits sum.splits)
  have t1: "t1 = recovering d ri" using ran(2) into [OF ran(1)] by (auto simp: require_retirement_binding_def refuse_tx_def split: if_splits)
  have pending: "aj_phase (tx_journal t1) = PublishPending"
    using ran(3) by (cases "aj_phase (tx_journal t1) = PublishPending") (auto simp: resume_or_resolve_def bind_tx_Inr return_tx_def)
  then have "bind_tx (remint installation random) (\<lambda>m. return_tx (Reminted m)) t1 = (Inr (Reminted m), t)"
    using ran(3) by (simp add: resume_or_resolve_def)
  then have "remint installation random t1 = (Inr m, t)" by (auto simp: bind_tx_Inr return_tx_def)
  then have "ma_transaction m = t1"
    by (auto simp: remint_def bind_tx_Inr refaulted_def refuse_tx_def split: sum.splits if_splits)
  with t1 show "ma_transaction m = recovering d ri" by simp
  show "aj_phase (ri_journal ri) = PublishPending" using pending t1 by (simp add: recovering_def)
qed

text \<open>
  C4. What recovery leaves, under any file faults. Either the attempt is resolved, its journal gone
  and the records those of the reported outcome, on a disk the writer's loader accepts; or nothing was
  launched and the journal is handed back with the disk untouched; or recovery is refused, and the disk
  loads again.
\<close>

theorem recovery_exact:
  assumes "precedence_order (en_semver E)" "inspection E d = Inr ri"
  shows "case recover (en_local E) io d ri installation retirement img random of
      (Inl e, t) \<Rightarrow> loads E (tx_disk t) \<and> (\<exists>step effect. e = Activation step effect
        \<and> (effect = ProtectedStateUnchanged \<longrightarrow> dk_journal (tx_disk t) = None))
    | (Inr (RecoveryResolved r), t) \<Rightarrow> loads E (tx_disk t) \<and> dk_journal (tx_disk t) = None
        \<and> records_of (ri_journal ri) (ar_outcome r) (tx_disk t) \<and> ar_current r = ps_current (tx_disk t)
    | (Inr (Reminted m), t) \<Rightarrow> aj_phase (ri_journal ri) = PublishPending
        \<and> tx_disk (ma_transaction m) = d \<and> tx_journal (ma_transaction m) = ri_journal ri"
proof -
  let ?E = "E\<lparr> en_seen := ps_version_floor d \<rparr>"
  have "loads E d" using assms(2) inspected(1) [OF assms(2)] by (simp add: loads_def)
  note seen = seen_loadable [OF assms(1) this]
  obtain x t where ran: "recover (en_local E) io d ri installation retirement img random = (x, t)" by force
  have left: "case (x, t) of (Inl e, t) \<Rightarrow> safe ?E e t | (Inr outcome, t) \<Rightarrow> recovered ?E (ri_journal ri) outcome t"
    using recover_runs [of ?E d ri io installation retirement img random] assms seen ran by simp
  show ?thesis
  proof (cases x)
    case (Inl e)
    then show ?thesis using left ran by (auto simp: safe_def loadable_def)
  next
    case (Inr outcome)
    show ?thesis
    proof (cases outcome)
      case (RecoveryResolved r)
      then have "resolved ?E (ri_journal ri) (ar_outcome r) (tx_disk t)" "ar_current r = ps_current (tx_disk t)"
        using left Inr by (simp_all add: recovered_def ended_def)
      then show ?thesis
        using resolved_loads [of ?E "ri_journal ri"] ran Inr RecoveryResolved by (auto simp: resolved_def loadable_def)
    next
      case (Reminted m)
      then show ?thesis using reminted_as_found [of "en_local E" io d ri installation retirement img random m t] ran Inr
        by (simp add: recovering_def)
    qed
  qed
qed

text \<open>
  C2. Recovery past the launch completes. When the file operations work, the records fit their encodings
  and the caller presents the retired process family and the coordinator of the journal, recovery resolves
  the attempt within the step bound and leaves nothing over: an accepted attempt is committed, every other
  one is rolled back to the version that was current before it.
\<close>

theorem recovery_completes:
  assumes "precedence_order (en_semver E)" "inspection E d = Inr ri" "aj_phase (ri_journal ri) \<noteq> PublishPending"
    and "writable (en_local E) (ri_journal ri)"
    and "encode_activation_journal (en_semver E) (lc_journal (en_local E))
        ((ri_journal ri)\<lparr> aj_phase := RollbackPending ProcessCrash \<rparr>) = Inr bs"
    and "retirement = \<lparr> pf_installation = installation, pf_attempt = aj_attempt_id (ri_journal ri),
        pf_lifecycle_channel = aj_lifecycle_channel_id (ri_journal ri) \<rparr>"
    and "img = Some (aj_helper_image_blake3 (ri_journal ri))"
  shows "\<exists>r t. recover (en_local E) works d ri installation retirement img random = (Inr (RecoveryResolved r), t)
    \<and> ar_outcome r = outcome_of (aj_phase (ri_journal ri)) \<and> ar_cleanup r = None
    \<and> loads E (tx_disk t) \<and> dk_journal (tx_disk t) = None
    \<and> records_of (ri_journal ri) (ar_outcome r) (tx_disk t) \<and> ar_current r = ps_current (tx_disk t)"
proof -
  let ?E = "E\<lparr> en_seen := ps_version_floor d \<rparr>" let ?t = "recovering d ri"
  have "loads E d" using assms(2) inspected(1) [OF assms(2)] by (simp add: loads_def)
  note seen = seen_loadable [OF assms(1) this]
  have live: "live ?E ?t" using inspected_live [of ?E d ri] assms(1,2) seen by simp
  have "into_transaction d ri img = (Inr (), ?t)"
    by (simp add: into_transaction_def Let_def bind_tx_def refaulted_def coordinator_image_digest_def assms(7) recovering_def)
  moreover have "require_retirement_binding retirement installation ?t = (Inr (), ?t)"
    by (simp add: require_retirement_binding_def assms(6) recovering_def)
  moreover have "\<exists>r t. resume_or_resolve (en_local E) works installation random ?t = (Inr (RecoveryResolved r), t)
      \<and> ar_outcome r = outcome_of (aj_phase (ri_journal ri)) \<and> ar_cleanup r = None"
    using works_recovery [of ?E ?t "ri_journal ri" bs installation random] assms live by (simp add: recovering_def)
  ultimately obtain r t where ran: "recover (en_local E) works d ri installation retirement img random = (Inr (RecoveryResolved r), t)"
      "ar_outcome r = outcome_of (aj_phase (ri_journal ri))" "ar_cleanup r = None"
    by (auto simp: recover_def bind_tx_def)
  have "recovered ?E (ri_journal ri) (RecoveryResolved r) t"
    using recover_runs [of ?E d ri works installation retirement img random] assms(1,2) seen ran(1) by simp
  then have "resolved ?E (ri_journal ri) (ar_outcome r) (tx_disk t)" "ar_current r = ps_current (tx_disk t)"
    by (simp_all add: recovered_def ended_def)
  then show ?thesis
    using ran resolved_loads [of ?E "ri_journal ri"] by (auto simp: resolved_def loadable_def)
qed

section \<open>A sample installation\<close>

definition sample_writer :: "'w Json" where
  "sample_writer = \<lparr> js_write = (\<lambda>_. Some [0x7B]), js_read = (\<lambda>_. None) \<rparr>"

definition sample_engine :: "(bytes, nat) Engine" where
  "sample_engine =
     \<lparr> en_local = \<lparr> lc_semver = sample_semver, lc_blake3 = (\<lambda>_. replicate 32 9), lc_artifact = sample_writer,
         lc_floor = sample_writer, lc_pointer = sample_writer, lc_journal = sample_writer \<rparr>,
       en_path_eq = (=), en_verifier = \<lparr> uv_expected = sample_installation, uv_verifying_key = [1] \<rparr>,
       en_provenance = \<lparr> ip_identity = sample_installation, ip_owner = Direct \<rparr>, en_seen = ''1.2.0'' \<rparr>"

definition sample_copy :: "string \<Rightarrow> Copy" where
  "sample_copy v = \<lparr> cp_recorded = Some (sample_artifact v), cp_contents = Inr () \<rparr>"

definition sample_disk :: "string \<Rightarrow> ActivationJournal option \<Rightarrow> string list \<Rightarrow> (string \<times> Copy) list \<Rightarrow> Disk" where
  "sample_disk selected j versions stages =
     \<lparr> ps_version_floor = selected, ps_current = sample_artifact selected, ps_last_known_good = sample_artifact ''1.2.0'',
       ps_previous_known_good = Some (sample_artifact ''1.1.0''), dk_journal = j,
       dk_versions = map (\<lambda>v. (v, sample_copy v)) versions, dk_stages = stages \<rparr>"

definition sample_stage :: string where
  "sample_stage = ''incomplete-'' @ replicate 64 (CHR ''a'')"

abbreviation sample_rest :: Disk where
  "sample_rest \<equiv> sample_disk ''1.2.0'' None [''1.1.0'', ''1.2.0''] [(sample_stage, sample_copy ''1.3.0'')]"

abbreviation sample_crashed :: Disk where
  "sample_crashed \<equiv> sample_disk ''1.3.0'' (Some (sample_journal AwaitingHealth)) [''1.1.0'', ''1.2.0'', ''1.3.0''] []"

lemma sample_baseline [simp]: "sv_parse sample_semver ''1.0.0'' = Some 1000000"
  by (simp add: sample_semver_def byte_of_def)

lemma sample_engine_simps [simp]:
  "en_semver sample_engine = sample_semver" "en_baseline sample_engine = sample_artifact ''1.0.0''"
  "sv_cmp sample_semver = sample_cmp" "lc_pointer (en_local sample_engine) = sample_writer"
  "lc_journal (en_local sample_engine) = sample_writer" "en_seen sample_engine = ''1.2.0''"
  by (simp_all add: sample_engine_def sample_installation_def sample_semver_def)

lemma sample_artifact_eq [simp]: "sample_artifact a = sample_artifact b \<longleftrightarrow> a = b"
  by (simp add: sample_artifact_def)

lemma sample_admits: "admits sample_engine ''1.2.0''" "admits sample_engine ''1.3.0''"
proof -
  have matched: "match_installation (=) sample_installation sample_installation = Inr ()"
    by (simp add: match_installation_def compare_field_def compare_path_def)
  have base: "ai_version (di_baseline sample_installation) = ''1.0.0''" by (simp add: sample_installation_def)
  show "admits sample_engine ''1.2.0''" "admits sample_engine ''1.3.0''"
    by (simp_all add: admits_def verifies_def at_most_def verifier_admit_def sample_engine_def matched validate_version_floor_def base sample_cmp_def)
qed

lemma sample_scope:
  "in_scope sample_engine (sample_artifact ''1.1.0'')" "in_scope sample_engine (sample_artifact ''1.2.0'')"
  "in_scope sample_engine (sample_artifact ''1.3.0'')"
  by (simp_all add: in_scope_def validate_artifact_scope_and_baseline_def same_artifact_scope_def sample_cmp_def)
    (simp_all add: sample_artifact_def)

lemma sample_rest_loads: "loads sample_engine sample_rest"
proof -
  have "validate_writer_pointer_context (en_semver sample_engine) (en_baseline sample_engine) sample_rest 1002000 = Inr ()"
    by (subst context_Inr) (use sample_scope in
      \<open>simp_all add: slot_artifacts_set at_most_def below_def sample_cmp_def sample_disk_def\<close>)
  then have "settled sample_engine sample_rest"
    using sample_admits(1)
    by (simp add: settled_def slot_artifacts_set sound_iff) (simp add: sample_disk_def version_of_def sample_copy_def version_names_def)
  then show ?thesis using settled_loads [of sample_rest sample_engine] by (simp add: loadable_def sample_disk_def)
qed

lemma sample_crashed_loads: "loads sample_engine sample_crashed"
proof -
  have "stands (en_local sample_engine) (sample_journal AwaitingHealth) sample_crashed"
    using sample_journal_valid [of AwaitingHealth]
    by (simp add: stands_def sample_journal_def prior_slots_match_def sample_disk_def)
  moreover have "journal_artifacts (sample_journal AwaitingHealth) = sample_artifact ` {''1.1.0'', ''1.2.0'', ''1.3.0''}"
    by (auto simp: journal_artifacts_def sample_journal_def)
  moreover have "aj_prior_previous_known_good (sample_journal AwaitingHealth) = Some (sample_artifact ''1.1.0'')"
    by (simp add: sample_journal_def)
  ultimately have "underway sample_engine (sample_journal AwaitingHealth) sample_crashed"
    using sample_admits(2) sample_scope
    by (auto simp: underway_def sample_disk_def sound_iff version_of_def sample_copy_def version_names_def)
  then show ?thesis
    using underway_loads [of sample_engine sample_crashed] sample_precedence by (simp add: loadable_def sample_disk_def)
qed

lemma sample_begins:
  "\<exists>ws m. write_snapshot sample_engine sample_rest = Inr ws
    \<and> begin_activation (en_local sample_engine) (en_baseline sample_engine) sample_rest ws (Inr (replicate 32 8)) sample_stage
        (sample_artifact ''1.3.0'') (Some (replicate 32 2)) (Some (replicate 32 1, replicate 32 3, replicate 32 4)) = Inr m"
proof -
  obtain ws where ws: "write_snapshot sample_engine sample_rest = Inr ws"
    using sample_rest_loads by (auto simp: loads_def sample_disk_def)
  then have snapshot: "ws_slots ws = slots_of sample_rest" "ws_pins ws = [''1.2.0'', ''1.2.0'', ''1.1.0'']"
    by (auto simp: write_snapshot_def load_activation_write_snapshot_def Let_def and_then_eq_Inr pin_selected_versions_def
        writer_selected_def sample_disk_def split: if_splits)
  have scope: "\<exists>v. validate_artifact_scope_and_baseline sample_semver (sample_artifact ''1.0.0'') (sample_artifact ''1.3.0'') = Inr v"
    using sample_scope(3) by (simp add: in_scope_def)
  have stage: "completed_stage_identity sample_rest sample_stage = Inr (Some (sample_artifact ''1.3.0''))"
    unfolding completed_stage_identity_def by (simp add: sample_disk_def sample_copy_def) code_simp
  have minted: "mint_identities (Some (replicate 32 1, replicate 32 3, replicate 32 4))
      = Inr (replicate 32 1, replicate 32 3, replicate 32 4)" by code_simp
  have valid: "validate_activation_journal sample_semver (sample_journal PublishPending) = Inr ()" by (rule sample_journal_valid)
  have "\<exists>m. begin_activation (en_local sample_engine) (en_baseline sample_engine) sample_rest ws (Inr (replicate 32 8)) sample_stage
        (sample_artifact ''1.3.0'') (Some (replicate 32 2)) (Some (replicate 32 1, replicate 32 3, replicate 32 4)) = Inr m"
    using scope stage minted valid snapshot
    by (auto simp: begin_activation_def Let_def coordinator_image_digest_def sample_journal_def sample_disk_def
        ProtectedSlots.truncate_def)
  with ws show ?thesis by blast
qed

lemma sample_inspected: "\<exists>ri. inspection sample_engine sample_crashed = Inr ri \<and> ri_journal ri = sample_journal AwaitingHealth"
proof -
  obtain ri where ri: "inspection sample_engine sample_crashed = Inr ri"
    using sample_crashed_loads by (auto simp: loads_def sample_disk_def)
  with inspected(1) [OF ri] show ?thesis by (simp add: sample_disk_def)
qed

lemma sample_writes: "encode_local sample_writer w = Inr [0x7B]"
  by (simp add: encode_local_def sample_writer_def MAX_LOCAL_RECORD_BYTES_def)

lemma sample_writable: "writable (en_local sample_engine) (sample_journal p)"
  using sample_wire_artifact by (auto simp: writable_def encode_pointer_def sample_journal_def sample_writes)

lemma sample_journal_writes: "\<exists>bs. encode_activation_journal sample_semver sample_writer (sample_journal p) = Inr bs"
proof -
  obtain w where "journal_wire sample_semver (sample_journal p) = Inr w"
    using sample_wire_artifact by (auto simp: journal_wire_def sample_journal_def transposed_def)
  then show ?thesis by (simp add: encode_activation_journal_def sample_journal_valid sample_writes)
qed

theorem engine_crash_safe_witness:
  "\<exists>m. engine_step sample_engine (AtRest sample_rest) (HoldsMinted m)
    \<and> loads sample_engine (disk_of (after_journal (journal_attempt (en_local sample_engine) (\<lambda>n. if n < 9 then Works else BrokenLate ''move'')
        \<lparr> ao_process_id = 1, ao_creation_time = 1 \<rparr> \<lparr> il_authentication_id = 1, il_logon_time = 1 \<rparr> m)))"
proof -
  from sample_begins obtain m where step: "engine_step sample_engine (AtRest sample_rest) (HoldsMinted m)"
    using engine_step.begun [of sample_engine sample_rest] by blast
  have reached: "(engine_step sample_engine)\<^sup>*\<^sup>* (AtRest sample_rest) (after_journal (journal_attempt (en_local sample_engine) io owner logon m))"
    for io owner logon using step by (auto intro: rtranclp.rtrancl_into_rtrancl engine_step.journaled)
  have "precedence_order (en_semver sample_engine)" using sample_precedence by simp
  from engine_crash_safe [OF this sample_rest_loads reached] step show ?thesis by blast
qed

theorem activation_start_exact_witness:
  "\<exists>ws m. write_snapshot sample_engine sample_rest = Inr ws
    \<and> (case journal_attempt (en_local sample_engine) works \<lparr> ao_process_id = 1, ao_creation_time = 1 \<rparr>
          \<lparr> il_authentication_id = 1, il_logon_time = 1 \<rparr> m of
        (Inl e, t) \<Rightarrow> loads sample_engine (tx_disk t)
      | (Inr (JournaledAwaitingHealth a), t) \<Rightarrow> ps_current (tx_disk t) = sample_artifact ''1.3.0''
      | (Inr (JournaledResolved _), _) \<Rightarrow> False)"
proof -
  obtain ws m where begun: "write_snapshot sample_engine sample_rest = Inr ws"
      "begin_activation (en_local sample_engine) (en_baseline sample_engine) sample_rest ws (Inr (replicate 32 8)) sample_stage
        (sample_artifact ''1.3.0'') (Some (replicate 32 2)) (Some (replicate 32 1, replicate 32 3, replicate 32 4)) = Inr m"
    using sample_begins by blast
  have "precedence_order (en_semver sample_engine)" using sample_precedence by simp
  from activation_start_exact [OF this begun, where io = works and owner = "\<lparr> ao_process_id = 1, ao_creation_time = 1 \<rparr>"
      and logon = "\<lparr> il_authentication_id = 1, il_logon_time = 1 \<rparr>"] begun(1)
  show ?thesis
    by (intro exI [of _ ws] exI [of _ m]) (auto simp: Let_def split: sum.splits prod.splits JournaledAttempt.splits)
qed

theorem recovery_exact_witness:
  "\<exists>ri. inspection sample_engine sample_crashed = Inr ri
    \<and> (case recover (en_local sample_engine) (\<lambda>n. if n < 3 then Works else Broken ''sharing'') sample_crashed ri []
          \<lparr> pf_installation = [], pf_attempt = replicate 32 1, pf_lifecycle_channel = replicate 32 4 \<rparr> (Some (replicate 32 2)) None of
        (Inl e, t) \<Rightarrow> loads sample_engine (tx_disk t)
      | (Inr (RecoveryResolved r), t) \<Rightarrow> loads sample_engine (tx_disk t) \<and> dk_journal (tx_disk t) = None
      | (Inr (Reminted m), t) \<Rightarrow> False)"
proof -
  obtain ri where ri: "inspection sample_engine sample_crashed = Inr ri" "ri_journal ri = sample_journal AwaitingHealth"
    using sample_inspected by blast
  then have launched: "aj_phase (ri_journal ri) \<noteq> PublishPending" by (simp add: sample_journal_def)
  have "precedence_order (en_semver sample_engine)" using sample_precedence by simp
  from recovery_exact [OF this ri(1), where io = "\<lambda>n. if n < 3 then Works else Broken ''sharing''" and installation = "[]"
      and img = "Some (replicate 32 2)" and random = None
      and retirement = "\<lparr> pf_installation = [], pf_attempt = replicate 32 1, pf_lifecycle_channel = replicate 32 4 \<rparr>"] launched ri(1)
  show ?thesis
    by (intro exI [of _ ri]) (auto split: sum.splits prod.splits RecoveryOutcome.splits)
qed

theorem recovery_completes_witness:
  "\<exists>ri r t. inspection sample_engine sample_crashed = Inr ri
    \<and> recover (en_local sample_engine) works sample_crashed ri [] \<lparr> pf_installation = [], pf_attempt = replicate 32 1,
        pf_lifecycle_channel = replicate 32 4 \<rparr> (Some (replicate 32 2)) None = (Inr (RecoveryResolved r), t)
    \<and> ar_outcome r = RolledBack \<and> ar_current r = sample_artifact ''1.2.0''"
proof -
  obtain ri where ri: "inspection sample_engine sample_crashed = Inr ri" "ri_journal ri = sample_journal AwaitingHealth"
    using sample_inspected by blast
  let ?j = "sample_journal AwaitingHealth"
  obtain bs where bs: "encode_activation_journal (en_semver sample_engine) (lc_journal (en_local sample_engine))
      ((ri_journal ri)\<lparr> aj_phase := RollbackPending ProcessCrash \<rparr>) = Inr bs"
    using sample_journal_writes [of "RollbackPending ProcessCrash"] ri(2) by (auto simp: sample_journal_def)
  have "precedence_order (en_semver sample_engine)" using sample_precedence by simp
  from recovery_completes [OF this ri(1) _ _ bs refl refl, of "[]" None] ri sample_writable
  show ?thesis by (auto simp: sample_journal_def outcome_of_def records_of_def)
qed

end
