(* ===== verification/Spec2Isabelle.thy ===== *)
theory Spec2Isabelle
  imports Kipc_Session Attempt_Channel Guard_Admit Window_Router Role_Registry Update_Recovery
begin

text \<open>
  A verification development of Keld, a desktop application host written in Rust. A host process
  owns native windows, files and the network; an app process talks to it over one authenticated
  link. What the app may do is declared in a permissions manifest and decided by a capability
  engine in the host. The crates under \<open>crates/\<close> are modelled as follows.

  \<^bold>\<open>Wire protocol (\<open>crates/keld-ipc/src\<close>).\<close>
  \<^item> \<open>Kipc_Frame\<close>: \<open>frame.rs\<close>, the 16-byte header. Its codec interprets the locale
    \<open>fixed_codec\<close> of \<open>Keld_Prelude\<close>.
  \<^item> \<open>Kipc_Channel_Table\<close>: \<open>channel_table.rs\<close>, the table of channels with its validation loops,
    proved equal to a declarative notion of a valid table.
  \<^item> \<open>Kipc_Error\<close>, \<open>Kipc_Token\<close>: error values and their codes, the redacted rejection classes,
    the session token and the text of the bootstrap link.
  \<^item> \<open>Kipc_Receive\<close>: \<open>receive.rs\<close>, receive policies and the header validator, proved equal to an
    ordered list of rules of which the first broken one is reported.
  \<^item> \<open>Kipc_Link\<close>: \<open>link.rs\<close>, frame input and output and the handshakes. A stream is its input
    bytes with a schedule: one \<open>Tick\<close> per attempt to read (delivery, time-out, interruption,
    failure, with the clock reading taken after it) and one \<open>WriteEvent\<close> per attempt to write. The
    reading loops recurse over the schedule; an exhausted schedule is the result \<open>None\<close>, a read
    that never returns, so that claims of success show that a result is produced.
  \<^item> \<open>Kipc_Session\<close>: \<open>session.rs\<close>, \<open>echo.rs\<close> and \<open>codec.rs\<close>, the echo service over the link.
    Postcard encoding and decoding, a third-party package, is an argument.

  \<^bold>\<open>Launch attempts (\<open>crates/keld-ipc/src/attempt\<close>).\<close>
  \<^item> \<open>Attempt_Records\<close>: \<open>records.rs\<close>, eight record kinds, the positions that admit them, the
    stream reader and the slice decoder, and the fuzz oracle that compares the two.
  \<^item> \<open>Attempt_Channel\<close>: \<open>window.rs\<close> and \<open>channel.rs\<close>, the health window and the owner and
    claimant phase machines. Pipe, clock and process pin are functions of an environment; the
    window loop is a \<open>partial_function\<close> and is shown to return where the clock advances.

  \<^bold>\<open>Capability engine (\<open>crates/keld-guard/src\<close>).\<close>
  \<^item> \<open>Guard_Jsonc\<close>: \<open>jsonc.rs\<close>, comment stripping over bytes. \<open>jsonc_reads\<close> reads a text as string
    literals, comments and other characters without reference to the stripper, which is shown to
    blank exactly the comments of that reading.
  \<^item> \<open>Guard_Policy\<close>: the decision \<open>evaluate\<close> of \<open>lib.rs\<close> with its path matcher and denial texts.
  \<^item> \<open>Guard_Manifest\<close>: \<open>unique_json.rs\<close>, \<open>verified_manifest.rs\<close> and the loading and
    filesystem-scope part of \<open>lib.rs\<close>. The JSON parser and the digest are arguments; a reader is the
    bytes it delivers and the error it may end with.
  \<^item> \<open>Guard_Dispatch\<close>: \<open>guard_dispatch.rs\<close> and \<open>call_error.rs\<close> of \<open>keld-ipc\<close>, where a decision
    becomes a call of a handler or an error frame on the link.
  \<^item> \<open>Guard_Admit\<close>: \<open>admit.rs\<close>, admission of a role to the strict profile.

  \<^bold>\<open>Roles and windows (\<open>crates/keld-runtime/src\<close>, \<open>crates/keld-core/src/app_session\<close>).\<close>
  \<^item> \<open>Virtual_Port\<close>: \<open>virtual_port.rs\<close>, bounded port pairs between role generations. The registry
    interprets \<open>state_machine\<close> and \<open>evolving_machine\<close>; every operation on a capability is one
    \<open>end_change\<close> of the pair it names.
  \<^item> \<open>Window_Registry\<close>: the payloads of \<open>window.rs\<close> and the whole of \<open>window_registry.rs\<close>. The
    relation \<open>entry_step\<close> lists what an operation can do to one window and what that makes known;
    \<open>reg_step\<close> lifts it to the registry, and every operation is shown to be a \<open>reg_step\<close>.
  \<^item> \<open>Window_History\<close>: whole runs of the registry: the app's mirror of window state, the calls
    taken and answered, the close verdicts, and the identities minted.
  \<^item> \<open>Window_Router\<close>: \<open>window_router.rs\<close> with the parts of \<open>app_session.rs\<close> it calls. A router
    operation is a function of the router's state that may fail; the combinators \<open>route_then\<close> and
    \<open>route_all\<close> are the early returns of the source. The registry operations each
    router operation drives are read off the router's state (\<open>driven\<close>), and the registry is shown to be exactly their
    result, which carries the results on registry runs over to the service; \<open>disciplined\<close> and \<open>writes\<close> say what a locked operation may change and, on a link
    that takes what is written, exactly what it writes.

  \<^bold>\<open>Supervision (\<open>crates/keld-runtime/src\<close>).\<close>
  \<^item> \<open>Runtime_Utf8\<close>: the parts of Rust's \<open>str\<close> the capture code calls, lossy decoding and character
    boundaries.
  \<^item> \<open>Runtime_Marker\<close>, \<open>Runtime_Capture\<close>: \<open>CaptureState\<close> and \<open>CapturedOutput\<close> of \<open>lib.rs\<close>. A capture is
    folded over the reads its threads push and the generations that begin. The failure function and
    the matcher are compared with a direct search for the marker, the transcript with a prefix and
    a suffix of the decoded stream. \<open>usize\<close> counters saturate at \<open>USIZE_MAX\<close>.
  \<^item> \<open>Runtime_Supervisor\<close>: \<open>supervise\<close> and what it calls in \<open>lib.rs\<close>. A generation is run against a
    record of what the operating system, the lease, the clock and the host's flags answer; polling
    loops recurse over lists of answers, and a list that runs out leaves the supervisor
    \<open>Running\<close>. The effects on leases and children are a trace, which an automaton of one lease
    and one child reads (\<open>lease_run\<close>); the ledger is compared with the deaths its environments show.
  \<^item> \<open>Runtime_Role\<close>: \<open>role.rs\<close>, staged launch admission, the launch command, the recovery gate, fresh
    bootstrap endpoints and the lease of a role generation. Metadata lookup and the listeners the
    system binds are arguments.
  \<^item> \<open>Role_Registry\<close>: \<open>registry.rs\<close>, two role supervisors over one port registry, and what a host can do
    through the supervisors it lends out. The port operations are read off the history of operations
    alone (\<open>port_history\<close>) and the ports are shown to be exactly their result, so the results of
    \<open>Virtual_Port\<close> hold of it.

  \<^bold>\<open>Updates (\<open>crates/keld-update/src\<close>).\<close> An update is announced by a signed manifest, staged, and activated by
  a transaction whose every durable step is one rename, so that a crash at any point is recovered from.
  \<^item> \<open>Update_Provenance\<close>: \<open>provenance.rs\<close> and \<open>error.rs\<close>, admission of an installation and of its trusted
    version floor. \<open>Update_Manifest\<close>: \<open>manifest.rs\<close>, authentication, validation and selection of a release.
    \<open>Update_Records\<close>: \<open>records.rs\<close>, journal, pointers, floor and completion records and their texts. Signature,
    hash, base64, semantic versions and the serialisation of a wire structure are arguments; that version
    precedence is a total order (\<open>precedence_order\<close>) and that what is serialised is read back
    (\<open>json_faithful\<close>) are the named assumptions.
  \<^item> \<open>Update_Activation\<close>: \<open>activation.rs\<close>, classification of the records against the journal and the one next
    step that progress and recovery share. \<open>Update_Disk\<close>: \<open>windows_baseline/load.rs\<close> and
    \<open>load/writer_records.rs\<close>, the protected directory as values, the writer's loader and the recovery inspection.
  \<^item> \<open>Update_Transaction\<close>: \<open>windows_baseline/activate.rs\<close> with \<open>version_retirement.rs\<close> and
    \<open>record_publication.rs\<close>. A transaction is a state function that may fail; each file operation takes the
    next answer of an arbitrary stream (works, fails before its rename, fails after it). The step loop runs for
    \<open>MAX_STEPS_PER_RUN\<close> steps, as in the source; the loop that tries other stages ends because each pass uses
    one up.
  \<^item> \<open>Update_Crash\<close>: a disk with a journal loads exactly when it is \<open>underway\<close>, one without exactly when it is
    \<open>settled\<close>, and each durable step leads from one such disk to another. \<open>Update_Engine\<close>: triples for every
    operation of the transaction, whose second postcondition is what a refusal leaves. \<open>Update_Recovery\<close>: the
    engine as the relation \<open>engine_step\<close> between a disk at rest and the owners of the writer lease, crash safety,
    the results of starting and of recovering an attempt, and that recovery ends within the step bound, since
    past the launch at most three steps precede the removal of the journal.

  \<^bold>\<open>Conventions.\<close> A Rust \<open>Result\<close> is a sum with the error on the left, an \<open>Option\<close> an option;
  integers keep their width as words with checked and saturating addition written out;
  \<open>usize\<close> lengths are natural numbers. Structures are records and enumerations datatypes with the
  source's constructors, renamed where two types share a name. Operations on \<open>&mut self\<close> return
  the new state. Hash maps are finite maps, ordered maps sorted association lists. Runs of a
  component are \<open>fold step operations initial\<close>, and the properties of runs quantify over every
  sequence of operations.

  \<^bold>\<open>Groups of results.\<close> Codecs and texts: round trips and canonicity (frames, records, link text).
  Admission: the exact headers each receiver admits.
  Link: a read consumes exactly one admissible frame, a started frame ends within its deadline, a
  server shows its token only to a peer that has shown it, and both sides of a handshake accept
  exactly on equal tokens. Guard: manifests loaded exactly from the documents that deserve it, default denial, confinement of
  allowed paths below declared scopes, authority pinning of URL grants, and dispatch that never
  runs a handler without a permit. Attempts: the owner accepts only after boot, ready and a
  silent window. Ports and windows: first-in first-out delivery, a disconnect reported once,
  revocation as an error everywhere, exactness of the app's window mirror, conservation of calls,
  fencing of a link after any failed write, and the order in which a release is told. Supervision: at most one live
  lease and one child, both gone before a successor is prepared; an outcome no draining can lose; a ledger of exactly
  the unrequested exits; termination of a crash burst; fresh identities for every generation; exact marker
  offsets and bounded transcripts; no role event lost between a worker and the host. Updates: the exact
  conditions of admission and selection, canonical journal texts, disks that load after every crash, a trusted
  floor that never goes down, refusals whose reported effect is true, and recovery that completes.

  Revoked generations are refused at the ports unless the host reads the revocation past the registry,
  through a lent supervisor, which the ports never learn of (\<open>direct_read_hides_revocation\<close>).
  Two comments of \<open>lib.rs\<close> do not hold of the code. The accounting equation of the capture counters
  fails for valid UTF-8 whose character spans two reads (\<open>split_character_accounting\<close>), and waiting
  for the outcome need not end, since crashes spaced beyond the window are restarted for ever
  (\<open>slow_crashes_never_trip\<close>).

  \<^bold>\<open>Not modelled.\<close> Operating system bindings (named pipes, job objects, keychains, webviews), the
  threads that read pipes and the retirement of those readers, the macOS guardian, the Linux strict
  and Windows container launchers, the event loop of the host, the packager, the command line and
  the TypeScript packages: they are input and output around the parts above. Diagnostics printed to
  standard error, most display texts and lock poisoning are left out. Of the update engine, the handles, leases
  and protection profiles of Windows, the loaders' checks of facts that are constant for one installation, unreadable
  completion records, the provenance records, the selection of a version at ordinary startup with
  its repairs, and download and extraction are not modelled. The call routers of \<open>app_session.rs\<close> for files and
  authentication, the lifecycle session, the bootstrap listeners and the native brokers are interleaved with
  threads, sockets and platform calls and are left out as well.
\<close>

end
